(* ===== verification/Prelude.thy ===== *)
theory Prelude
  imports Main "HOL-Library.AList" "HOL-Library.Char_ord" "HOL-Library.List_Lexorder"
    "HOL-Library.Word" "HOL-Library.Multiset"
begin

text \<open>
  Shared vocabulary of the development.

  A Go \<open>string\<close> and a Go \<open>[]byte\<close> are both sequences of bytes; a HOL \<open>char\<close> is a byte,
  so both are \<^typ>\<open>string\<close>, and Go's bytewise order on strings is the lexicographic
  order of \<open>List_Lexorder\<close>.  A digest is the string the code carries around
  (\<open>digest.Digest\<close> is a named string type).

  A Go map is an association list with distinct keys: reading is \<open>map_of\<close>, assignment is
  \<open>AList.update\<close>, \<open>delete\<close> is \<open>AList.delete\<close>.  Go iterates over a map in an unspecified
  order; every definition that ranges over a map ranges over this list, and the theorems say
  when the result does not depend on the order of the list.

  A pair of a result and an error is a sum: \<open>Inl\<close> the error, \<open>Inr\<close> the result.
\<close>

named_theorems res_simps \<open>elimination of bound error results\<close>
named_theorems guard_defs \<open>definitions of the validation functions, a chain of guards each\<close>

type_synonym bytes = string
type_synonym digest = string
type_synonym ('k, 'v) gomap = "('k \<times> 'v) list"

subsection \<open>Error results\<close>

definition res_bind :: "'e + 'a \<Rightarrow> ('a \<Rightarrow> 'e + 'b) \<Rightarrow> 'e + 'b" where
  "res_bind r f = (case r of Inl e \<Rightarrow> Inl e | Inr x \<Rightarrow> f x)"

lemma res_bind_simps [simp]:
  "res_bind (Inl e) f = Inl e"
  "res_bind (Inr x) f = f x"
  by (simp_all add: res_bind_def)

lemma res_bind_Inr_id [simp]: "res_bind r Inr = r"
  by (cases r) simp_all

lemma res_bind_Inr [res_simps]: "res_bind r f = Inr y \<longleftrightarrow> (\<exists>x. r = Inr x \<and> f x = Inr y)"
  by (cases r) auto

lemma res_bind_Inl [res_simps]:
  "res_bind r f = Inl e \<longleftrightarrow> r = Inl e \<or> (\<exists>x. r = Inr x \<and> f x = Inl e)"
  by (cases r) auto

lemma if_Inl_Inr [res_simps]: "(if b then Inl e else r) = Inr y \<longleftrightarrow> \<not> b \<and> r = Inr y"
  by auto

lemma option_case_Inr: "(case x of None \<Rightarrow> Inl e | Some w \<Rightarrow> f w) = Inr y \<longleftrightarrow> (\<exists>w. x = Some w \<and> f w = Inr y)"
  by (cases x) auto

fun is_ok :: "'e + 'a \<Rightarrow> bool" where
  "is_ok (Inl e) = False"
| "is_ok (Inr x) = True"

lemma is_ok_iff: "is_ok r \<longleftrightarrow> (\<exists>x. r = Inr x)"
  by (cases r) auto

text \<open>The first error of a list of checks, as a Go loop that returns from its body.\<close>

fun check_all :: "('a \<Rightarrow> 'e + unit) \<Rightarrow> 'a list \<Rightarrow> 'e + unit" where
  "check_all f [] = Inr ()"
| "check_all f (x # xs) = res_bind (f x) (\<lambda>_. check_all f xs)"

lemma check_all_Inr [res_simps]: "check_all f xs = Inr () \<longleftrightarrow> (\<forall>x\<in>set xs. f x = Inr ())"
  by (induction xs) (auto simp: res_simps)

lemma check_all_Inl: "check_all f xs = Inl e \<Longrightarrow> \<exists>x\<in>set xs. f x = Inl e"
  by (induction xs) (auto simp: res_simps)

subsection \<open>Go maps\<close>

abbreviation gm_ok :: "('k, 'v) gomap \<Rightarrow> bool" where
  "gm_ok m \<equiv> distinct (map fst m)"

definition gm_get :: "('k, 'v) gomap \<Rightarrow> 'k \<Rightarrow> 'v option" where
  "gm_get m k = map_of m k"

definition gm_has :: "('k, 'v) gomap \<Rightarrow> 'k \<Rightarrow> bool" where
  "gm_has m k \<longleftrightarrow> map_of m k \<noteq> None"

definition gm_put :: "'k \<Rightarrow> 'v \<Rightarrow> ('k, 'v) gomap \<Rightarrow> ('k, 'v) gomap" where
  "gm_put k v m = AList.update k v m"

definition gm_del :: "'k \<Rightarrow> ('k, 'v) gomap \<Rightarrow> ('k, 'v) gomap" where
  "gm_del k m = AList.delete k m"

lemma gm_get_is_map_of: "gm_get m = map_of m"
  by (simp add: gm_get_def fun_eq_iff)

lemma gm_has_iff: "gm_has m k \<longleftrightarrow> k \<in> fst ` set m"
  by (simp add: gm_has_def map_of_eq_None_iff)

lemma gm_has_get: "gm_has m k \<longleftrightarrow> (\<exists>v. gm_get m k = Some v)"
  by (auto simp: gm_has_def gm_get_def)

lemma gm_get_put [simp]: "gm_get (gm_put k v m) k' = (if k' = k then Some v else gm_get m k')"
  by (simp add: gm_get_def gm_put_def update_conv')

lemma gm_has_put [simp]: "gm_has (gm_put k v m) k' \<longleftrightarrow> k' = k \<or> gm_has m k'"
  by (auto simp: gm_has_get)

lemma gm_get_del [simp]: "gm_get (gm_del k m) k' = (if k' = k then None else gm_get m k')"
  by (simp add: gm_get_def gm_del_def delete_conv')

lemma gm_has_del [simp]: "gm_has (gm_del k m) k' \<longleftrightarrow> k' \<noteq> k \<and> gm_has m k'"
  by (auto simp: gm_has_get)

lemma gm_ok_put [simp]: "gm_ok m \<Longrightarrow> gm_ok (gm_put k v m)"
  by (simp add: gm_put_def distinct_update)

lemma gm_ok_del [simp]: "gm_ok m \<Longrightarrow> gm_ok (gm_del k m)"
  by (simp add: gm_del_def distinct_delete)

lemma gm_get_Nil [simp]: "gm_get [] k = None" "\<not> gm_has [] k"
  by (simp_all add: gm_get_def gm_has_def)

lemma gm_get_in: "gm_ok m \<Longrightarrow> gm_get m k = Some v \<longleftrightarrow> (k, v) \<in> set m"
  by (simp add: gm_get_def)

lemma gm_put_fresh: "k \<notin> fst ` set m \<Longrightarrow> gm_put k v m = m @ [(k, v)]"
  by (induction m) (auto simp: gm_put_def)

lemma gm_get_set: "gm_get m k = Some v \<Longrightarrow> (k, v) \<in> set m"
  by (simp add: gm_get_def map_of_SomeD)

text \<open>\<open>maps.Equal\<close>: the same number of keys, and the same value at every key of the first.\<close>

definition gm_equal :: "('k, 'v) gomap \<Rightarrow> ('k, 'v) gomap \<Rightarrow> bool" where
  "gm_equal m n \<longleftrightarrow> length m = length n \<and> (\<forall>(k, v)\<in>set m. gm_get n k = Some v)"

lemma gm_equal_iff:
  assumes "gm_ok m" and "gm_ok n"
  shows "gm_equal m n \<longleftrightarrow> gm_get m = gm_get n"
proof
  assume eq: "gm_equal m n"
  then have sub: "set m \<subseteq> set n" and len: "length m = length n"
    using assms by (auto simp: gm_equal_def gm_get_in)
  have "card (set m) = length m" "card (set n) = length n"
    using assms by (metis distinct_map distinct_card)+
  with sub len have "set m = set n"
    by (metis List.finite_set card_subset_eq)
  then show "gm_get m = gm_get n"
    unfolding gm_get_is_map_of using map_of_inject_set [OF assms] by blast
next
  assume eq: "gm_get m = gm_get n"
  then have "set m = set n"
    unfolding gm_get_is_map_of using map_of_inject_set [OF assms] by blast
  then have "length m = length n"
    using assms by (metis distinct_map distinct_card)
  with eq \<open>set m = set n\<close> assms show "gm_equal m n"
    by (auto simp: gm_equal_def gm_get_in)
qed

subsection \<open>Sorting\<close>

text \<open>
  \<open>sort.Slice\<close>, \<open>slices.Sort\<close> and \<open>sort.Strings\<close> on strings all give the one sorted
  rearrangement of their argument, which is \<open>List.sort\<close>.
\<close>

lemma sort_cong_set:
  fixes xs :: "'a::linorder list"
  assumes "distinct xs" and "distinct ys" and "set xs = set ys"
  shows "sort xs = sort ys"
  using assms by (intro sorted_distinct_set_unique) auto

lemma strict_sorted_sort: "distinct xs \<Longrightarrow> sorted_wrt (<) (sort (xs :: 'a::linorder list))"
  by (simp add: strict_sorted_iff)

subsection \<open>Reachability\<close>

text \<open>The set a search has visited is the reachable set once it is closed under edges.\<close>

lemma closed_set_is_reach:
  assumes "S \<subseteq> A" and "r `` A \<subseteq> A" and "A \<subseteq> r\<^sup>* `` S"
  shows "A = r\<^sup>* `` S"
proof
  have "r\<^sup>* `` A = A"
    using assms(2) by (rule Image_closed_trancl)
  then show "r\<^sup>* `` S \<subseteq> A"
    using assms(1) by blast
qed (rule assms(3))

lemma finite_acyclic_top:
  assumes "finite V" and "acyclic r" and "x \<in> V" and "\<And>a b. (a, b) \<in> r \<Longrightarrow> a \<in> V \<and> b \<in> V"
  shows "\<exists>m\<in>V. (m, x) \<in> r\<^sup>* \<and> (\<forall>y. (y, m) \<notin> r)"
proof -
  have "finite r"
    using assms(1,4) by (intro finite_subset [of r "V \<times> V"]) auto
  then have "wf r"
    using assms(2) by (simp add: finite_acyclic_wf)
  then have "x \<in> V \<longrightarrow> (\<exists>m\<in>V. (m, x) \<in> r\<^sup>* \<and> (\<forall>y. (y, m) \<notin> r))"
  proof (induction x rule: wf_induct_rule)
    case (less x)
    show ?case
    proof (cases "\<exists>y. (y, x) \<in> r")
      case True
      then obtain y where y: "(y, x) \<in> r" by blast
      with assms(4) less.IH obtain m where "m \<in> V" "(m, y) \<in> r\<^sup>*" "\<forall>z. (z, m) \<notin> r"
        by blast
      with y show ?thesis by (meson rtrancl.rtrancl_into_rtrancl)
    next
      case False
      then show ?thesis by blast
    qed
  qed
  with assms(3) show ?thesis by blast
qed

end
