(* ===== verification/Merge.thy ===== *)
theory Merge
  imports Prelude "HOL-Library.Product_Lexorder"
begin

text \<open>
  Three-way merge of secret maps, \<open>pkg/merge/merge.go\<close>.  A head that equals the base at a
  key changed nothing there; the heads that did change it must agree, against every base,
  or the key is a conflict.  The results of the loops are characterised per key, so the
  order in which Go iterates over the maps plays no part.
\<close>

type_synonym secrets = "(string, string) gomap"

record mvalue =
  mv_text :: string
  mv_deleted :: bool

record conflict =
  cf_key :: string
  cf_candidates :: "mvalue list"

record choice =
  ch_value :: string
  ch_delete :: bool

definition side_get :: "secrets \<Rightarrow> string \<Rightarrow> mvalue" where
  "side_get m key =
     (case gm_get m key of
        Some v \<Rightarrow> \<lparr>mv_text = v, mv_deleted = False\<rparr>
      | None \<Rightarrow> \<lparr>mv_text = [], mv_deleted = True\<rparr>)"

text \<open>The loop of \<open>resolveAgainst\<close> with its variables \<open>changed\<close> and \<open>have\<close>.\<close>

fun resolve_against_loop ::
  "mvalue \<Rightarrow> string \<Rightarrow> secrets list \<Rightarrow> mvalue \<Rightarrow> bool \<Rightarrow> mvalue option" where
  "resolve_against_loop base key [] changed hav = (if \<not> hav then Some base else Some changed)"
| "resolve_against_loop base key (h # hs) changed hav =
     (let v = side_get h key in
      if v = base then resolve_against_loop base key hs changed hav
      else if hav \<and> v \<noteq> changed then None
      else resolve_against_loop base key hs v True)"

definition resolve_against :: "mvalue \<Rightarrow> string \<Rightarrow> secrets list \<Rightarrow> mvalue option" where
  "resolve_against base key heads =
     resolve_against_loop base key heads \<lparr>mv_text = [], mv_deleted = False\<rparr> False"

text \<open>The loop of \<open>resolveKey\<close>; \<open>first\<close> stands for the test \<open>i > 0\<close> being false.\<close>

fun resolve_key_loop :: "string \<Rightarrow> secrets list \<Rightarrow> secrets list \<Rightarrow> bool \<Rightarrow> mvalue \<Rightarrow> mvalue option" where
  "resolve_key_loop key heads [] first agreed = Some agreed"
| "resolve_key_loop key heads (b # bs) first agreed =
     (case resolve_against (side_get b key) key heads of
        None \<Rightarrow> None
      | Some v \<Rightarrow>
          if \<not> first \<and> v \<noteq> agreed then None
          else resolve_key_loop key heads bs False v)"

definition resolve_key :: "string \<Rightarrow> secrets list \<Rightarrow> secrets list \<Rightarrow> mvalue option" where
  "resolve_key key bases heads =
     resolve_key_loop key heads bases True \<lparr>mv_text = [], mv_deleted = False\<rparr>"

fun candidates_loop :: "string \<Rightarrow> secrets list \<Rightarrow> mvalue list \<Rightarrow> mvalue list" where
  "candidates_loop key [] out = out"
| "candidates_loop key (h # hs) out =
     (let v = side_get h key in
      candidates_loop key hs (if v \<in> set out then out else out @ [v]))"

text \<open>Present values come before a deletion, and are ordered by their text.\<close>

definition candidates :: "string \<Rightarrow> secrets list \<Rightarrow> mvalue list" where
  "candidates key heads =
     sort_key (\<lambda>v. (mv_deleted v, mv_text v)) (candidates_loop key heads [])"

fun merge_loop ::
  "secrets list \<Rightarrow> secrets list \<Rightarrow> (string, choice) gomap \<Rightarrow> string list \<Rightarrow>
   secrets \<Rightarrow> conflict list \<Rightarrow> secrets \<times> conflict list" where
  "merge_loop bases heads choices [] out conflicts = (out, conflicts)"
| "merge_loop bases heads choices (k # ks) out conflicts =
     (case resolve_key k bases heads of
        None \<Rightarrow>
          (case gm_get choices k of
             Some c \<Rightarrow>
               merge_loop bases heads choices ks
                 (if \<not> ch_delete c then gm_put k (ch_value c) out else out) conflicts
           | None \<Rightarrow>
               merge_loop bases heads choices ks out
                 (conflicts @ [\<lparr>cf_key = k, cf_candidates = candidates k heads\<rparr>]))
      | Some v \<Rightarrow>
          merge_loop bases heads choices ks
            (if \<not> mv_deleted v then gm_put k (mv_text v) out else out) conflicts)"

definition merge_keys :: "secrets list \<Rightarrow> string list" where
  "merge_keys ms = sort (remdups (concat (map (map fst) ms)))"

definition merge_maps ::
  "secrets list \<Rightarrow> secrets list \<Rightarrow> (string, choice) gomap \<Rightarrow> secrets \<times> conflict list" where
  "merge_maps bases heads choices =
     (let bases = (if bases = [] then [[]] else bases)
      in merge_loop bases heads choices (merge_keys (bases @ heads)) [] [])"

subsection \<open>One key\<close>

definition text_of :: "mvalue \<Rightarrow> string option" where
  "text_of v = (if mv_deleted v then None else Some (mv_text v))"

lemma text_of_side_get [simp]: "text_of (side_get m k) = gm_get m k"
  by (simp add: text_of_def side_get_def split: option.split)

lemma side_get_eq_iff [simp]: "side_get m k = side_get m' k' \<longleftrightarrow> gm_get m k = gm_get m' k'"
  by (auto simp: side_get_def split: option.splits)

text \<open>The outcome of a merge against one base, stated without the loop.\<close>

definition three_way :: "mvalue \<Rightarrow> mvalue set \<Rightarrow> mvalue \<Rightarrow> bool" where
  "three_way base vs v \<longleftrightarrow> vs \<subseteq> {base, v} \<and> (v = base \<or> v \<in> vs)"

lemma three_way_unique: "three_way base vs v \<Longrightarrow> three_way base vs w \<Longrightarrow> v = w"
  by (auto simp: three_way_def)

lemma resolve_against_loop_Some:
  assumes "hav \<longrightarrow> changed \<noteq> base"
  shows "resolve_against_loop base key heads changed hav = Some v \<longleftrightarrow>
    three_way base ((\<lambda>h. side_get h key) ` set heads \<union> (if hav then {changed} else {})) v"
  using assms
proof (induction base key heads changed hav rule: resolve_against_loop.induct)
  case (1 base key changed hav)
  then show ?case by (auto simp: three_way_def)
next
  case (2 base key h hs changed hav)
  then show ?case
    by (cases "side_get h key = base"; cases "hav \<and> side_get h key \<noteq> changed")
      (auto simp: Let_def three_way_def)
qed

lemma resolve_against_Some:
  "resolve_against base key heads = Some v \<longleftrightarrow> three_way base ((\<lambda>h. side_get h key) ` set heads) v"
  by (simp add: resolve_against_def resolve_against_loop_Some)

lemma resolve_key_loop_Some:
  "resolve_key_loop key heads bases first agreed = Some v \<longleftrightarrow>
     (\<forall>b\<in>set bases. resolve_against (side_get b key) key heads = Some v) \<and>
     (if bases = [] then v = agreed else first \<or> v = agreed)"
  by (induction key heads bases first agreed rule: resolve_key_loop.induct)
    (auto split: option.splits)

lemma resolve_key_Some:
  assumes "bases \<noteq> []"
  shows "resolve_key key bases heads = Some v \<longleftrightarrow>
    (\<forall>b\<in>set bases. three_way (side_get b key) ((\<lambda>h. side_get h key) ` set heads) v)"
  using assms by (simp add: resolve_key_def resolve_key_loop_Some resolve_against_Some)

lemma resolve_key_cong:
  assumes "bases \<noteq> []" and "set bases = set bases'" and "set heads = set heads'"
  shows "resolve_key key bases heads = resolve_key key bases' heads'"
proof -
  have "bases' \<noteq> []" using assms by auto
  then have "resolve_key key bases heads = Some v \<longleftrightarrow> resolve_key key bases' heads' = Some v" for v
    using assms by (simp add: resolve_key_Some)
  then show ?thesis by (metis not_None_eq)
qed

lemma set_candidates_loop: "set (candidates_loop key heads out) = set out \<union> (\<lambda>h. side_get h key) ` set heads"
  by (induction key heads out rule: candidates_loop.induct) (auto simp: Let_def)

lemma distinct_candidates_loop: "distinct out \<Longrightarrow> distinct (candidates_loop key heads out)"
  by (induction key heads out rule: candidates_loop.induct) (auto simp: Let_def)

lemma set_candidates: "set (candidates key heads) = (\<lambda>h. side_get h key) ` set heads"
  by (simp add: candidates_def set_candidates_loop)

lemma distinct_candidates: "distinct (candidates key heads)"
  by (simp add: candidates_def distinct_candidates_loop)

lemma inj_value_key: "inj (\<lambda>v::mvalue. (mv_deleted v, mv_text v))"
  by (rule injI) auto

lemma candidates_cong: "set heads = set heads' \<Longrightarrow> candidates key heads = candidates key heads'"
proof -
  let ?f = "\<lambda>v::mvalue. (mv_deleted v, mv_text v)"
  assume "set heads = set heads'"
  then have "set (candidates key heads) = set (candidates key heads')"
    by (simp add: set_candidates)
  moreover have "sorted (map ?f (candidates key hs))" "distinct (map ?f (candidates key hs))" for hs
    using distinct_candidates [of key hs] inj_value_key
    by (auto simp: candidates_def distinct_map intro: inj_on_subset)
  ultimately have "map ?f (candidates key heads) = map ?f (candidates key heads')"
    by (intro sorted_distinct_set_unique) auto
  then show ?thesis
    using inj_value_key by (simp add: inj_map_eq_map)
qed

subsection \<open>The whole map\<close>

definition base_or_empty :: "secrets list \<Rightarrow> secrets list" where
  "base_or_empty bases = (if bases = [] then [[]] else bases)"

lemma base_or_empty_not_Nil [simp]: "base_or_empty bases \<noteq> []"
  by (simp add: base_or_empty_def)

definition merged_value ::
  "secrets list \<Rightarrow> secrets list \<Rightarrow> (string, choice) gomap \<Rightarrow> string \<Rightarrow> string option" where
  "merged_value bases heads choices k =
     (case resolve_key k bases heads of
        Some v \<Rightarrow> text_of v
      | None \<Rightarrow>
          (case gm_get choices k of
             Some c \<Rightarrow> if ch_delete c then None else Some (ch_value c)
           | None \<Rightarrow> None))"

definition conflicted :: "secrets list \<Rightarrow> secrets list \<Rightarrow> (string, choice) gomap \<Rightarrow> string \<Rightarrow> bool" where
  "conflicted bases heads choices k \<longleftrightarrow> resolve_key k bases heads = None \<and> gm_get choices k = None"

lemma merge_loop_snd:
  "snd (merge_loop bases heads choices ks out conflicts) =
     conflicts @ map (\<lambda>k. \<lparr>cf_key = k, cf_candidates = candidates k heads\<rparr>)
       (filter (conflicted bases heads choices) ks)"
  by (induction bases heads choices ks out conflicts rule: merge_loop.induct)
    (auto simp: conflicted_def split: option.splits)

lemma merge_loop_fst:
  assumes "distinct ks" and "\<forall>k\<in>set ks. \<not> gm_has out k"
  shows "gm_get (fst (merge_loop bases heads choices ks out conflicts)) k =
     (if k \<in> set ks then merged_value bases heads choices k else gm_get out k)"
  using assms
proof (induction ks arbitrary: out conflicts k)
  case (Cons k' ks)
  have none: "gm_get out k' = None" and fresh: "k' \<notin> set ks" and "distinct ks"
    using Cons.prems by (simp_all add: gm_has_get)
  have IH: "gm_get (fst (merge_loop bases heads choices ks out' cs)) j =
      (if j \<in> set ks then merged_value bases heads choices j else gm_get out' j)"
    if "\<forall>i\<in>set ks. \<not> gm_has out' i" for out' cs j
    using \<open>distinct ks\<close> that by (rule Cons.IH)
  have out: "\<forall>i\<in>set ks. \<not> gm_has out i" "\<forall>i\<in>set ks. \<not> gm_has (gm_put k' x out) i" for x
    using Cons.prems by auto
  show ?case
  proof (cases "resolve_key k' bases heads")
    case None
    with none fresh show ?thesis
      by (cases "gm_get choices k'") (auto simp: IH [OF out(1)] IH [OF out(2)] merged_value_def)
  next
    case (Some v)
    with none fresh show ?thesis
      by (cases "mv_deleted v")
        (auto simp: IH [OF out(1)] IH [OF out(2)] merged_value_def text_of_def)
  qed
qed simp

lemma merge_loop_ok:
  "gm_ok out \<Longrightarrow> gm_ok (fst (merge_loop bases heads choices ks out conflicts))"
  by (induction bases heads choices ks out conflicts rule: merge_loop.induct)
    (auto split: option.splits)

lemma set_merge_keys: "k \<in> set (merge_keys ms) \<longleftrightarrow> (\<exists>m\<in>set ms. gm_has m k)"
  by (auto simp: merge_keys_def gm_has_iff)

lemma distinct_merge_keys [simp]: "distinct (merge_keys ms)"
  by (simp add: merge_keys_def)

lemma merge_keys_cong: "set ms = set ms' \<Longrightarrow> merge_keys ms = merge_keys ms'"
  unfolding merge_keys_def by (rule sort_cong_set) auto

lemma absent_key_resolves:
  assumes "bases \<noteq> []" and "\<forall>m\<in>set bases \<union> set heads. \<not> gm_has m k"
  shows "resolve_key k bases heads = Some \<lparr>mv_text = [], mv_deleted = True\<rparr>"
  using assms by (subst resolve_key_Some) (auto simp: three_way_def side_get_def gm_has_get)

lemma merge_maps_get:
  "gm_get (fst (merge_maps bases heads choices)) k =
     merged_value (base_or_empty bases) heads choices k"
proof (cases "k \<in> set (merge_keys (base_or_empty bases @ heads))")
  case True
  then show ?thesis
    by (simp add: merge_maps_def Let_def merge_loop_fst base_or_empty_def)
next
  case False
  then have "resolve_key k (base_or_empty bases) heads = Some \<lparr>mv_text = [], mv_deleted = True\<rparr>"
    by (intro absent_key_resolves) (auto simp: set_merge_keys)
  with False show ?thesis
    by (simp add: merge_maps_def Let_def merge_loop_fst base_or_empty_def merged_value_def text_of_def)
qed

lemma merge_maps_conflicts:
  "snd (merge_maps bases heads choices) =
     map (\<lambda>k. \<lparr>cf_key = k, cf_candidates = candidates k heads\<rparr>)
       (filter (conflicted (base_or_empty bases) heads choices) (merge_keys (base_or_empty bases @ heads)))"
  by (simp add: merge_maps_def Let_def merge_loop_snd base_or_empty_def)

lemma merge_maps_ok [simp]: "gm_ok (fst (merge_maps bases heads choices))"
  by (simp add: merge_maps_def Let_def merge_loop_ok)

lemma conflict_keys:
  "cf_key ` set (snd (merge_maps bases heads choices)) =
     {k. conflicted (base_or_empty bases) heads choices k}"
proof -
  have "conflicted (base_or_empty bases) heads choices k \<Longrightarrow>
      k \<in> set (merge_keys (base_or_empty bases @ heads))" for k
    using absent_key_resolves [of "base_or_empty bases" heads k]
    by (auto simp: conflicted_def set_merge_keys)
  then show ?thesis
    by (auto simp: merge_maps_conflicts image_iff)
qed

lemma resolve_key_single_head:
  "bases \<noteq> [] \<Longrightarrow> resolve_key k bases [h] = Some (side_get h k)"
  by (subst resolve_key_Some) (auto simp: three_way_def)

lemma resolve_key_fast_forward:
  "resolve_key k [b] [b, h] = Some (side_get h k)"
  by (subst resolve_key_Some) (auto simp: three_way_def)

subsection \<open>Properties\<close>

text \<open>C10: a merge takes nothing silently.  Whatever the bases, a key that is not reported as a
  conflict and that no person decided has the value every head either took from the base or
  changed it to: each head agrees with the base or with the merged value at that key, and the
  merged value is that of the base or of some head.\<close>

theorem merge_never_chooses:
  assumes "gm_get choices k = None"
    and "k \<notin> cf_key ` set (snd (merge_maps bases heads choices))"
    and "b \<in> set (base_or_empty bases)"
  shows "(\<forall>h\<in>set heads. gm_get h k = gm_get b k \<or>
            gm_get h k = gm_get (fst (merge_maps bases heads choices)) k)
       \<and> (gm_get (fst (merge_maps bases heads choices)) k = gm_get b k \<or>
          (\<exists>h\<in>set heads. gm_get h k = gm_get (fst (merge_maps bases heads choices)) k))"
proof -
  have "\<not> conflicted (base_or_empty bases) heads choices k"
    using assms(2) by (auto simp: conflict_keys)
  with assms(1) obtain v where v: "resolve_key k (base_or_empty bases) heads = Some v"
    by (auto simp: conflicted_def)
  then have "three_way (side_get b k) ((\<lambda>h. side_get h k) ` set heads) v"
    using assms(3) by (simp add: resolve_key_Some)
  moreover have "gm_get (fst (merge_maps bases heads choices)) k = text_of v"
    by (simp add: merge_maps_get merged_value_def v)
  moreover have "text_of (side_get m k) = gm_get m k" for m
    by simp
  ultimately show ?thesis
    unfolding three_way_def by (auto simp: image_subset_iff)
qed

lemma merge_never_chooses_witness:
  "gm_get [(''A'', ''2'')] ''A'' = gm_get (fst (merge_maps [[(''A'', ''1'')]] [[(''A'', ''1'')], [(''A'', ''2'')]] [])) ''A''"
proof -
  let ?bases = "[[(''A'', ''1'')]] :: secrets list" and ?heads = "[[(''A'', ''1'')], [(''A'', ''2'')]] :: secrets list"
  have "gm_get ([] :: (string, choice) gomap) ''A'' = None"
    and "''A'' \<notin> cf_key ` set (snd (merge_maps ?bases ?heads []))"
    and "[(''A'', ''1'')] \<in> set (base_or_empty ?bases)"
    by code_simp+
  then show ?thesis
    using merge_never_chooses [of "[]" "''A''" ?bases ?heads "[(''A'', ''1'')]"]
    by (simp add: gm_get_def)
qed

text \<open>The conflicts are exactly the keys on which, against some base or between two bases,
  the heads do not have a common outcome and that nobody decided; every conflict lists, in
  increasing key order and without duplicates, the value of every head and nothing else.\<close>

theorem merge_conflicts_exact:
  "sorted (map cf_key (snd (merge_maps bases heads choices)))
   \<and> distinct (map cf_key (snd (merge_maps bases heads choices)))
   \<and> cf_key ` set (snd (merge_maps bases heads choices)) =
       {k. gm_get choices k = None \<and>
           \<not> (\<exists>v. \<forall>b\<in>set (base_or_empty bases). three_way (side_get b k) ((\<lambda>h. side_get h k) ` set heads) v)}
   \<and> (\<forall>c\<in>set (snd (merge_maps bases heads choices)).
        set (cf_candidates c) = (\<lambda>h. side_get h (cf_key c)) ` set heads \<and> distinct (cf_candidates c))"
proof -
  have comp: "cf_key \<circ> (\<lambda>k. \<lparr>cf_key = k, cf_candidates = candidates k heads\<rparr>) = id"
    by (simp add: fun_eq_iff)
  have "resolve_key k (base_or_empty bases) heads = None \<longleftrightarrow>
      \<not> (\<exists>v. \<forall>b\<in>set (base_or_empty bases). three_way (side_get b k) ((\<lambda>h. side_get h k) ` set heads) v)" for k
    by (simp flip: resolve_key_Some [OF base_or_empty_not_Nil])
  moreover have "sorted (merge_keys ms)" for ms
    by (simp add: merge_keys_def)
  ultimately show ?thesis
    by (simp add: conflict_keys conflicted_def conj_commute)
      (auto simp: merge_maps_conflicts comp set_candidates distinct_candidates sorted_wrt_filter)
qed

lemma merge_conflicts_exact_witness:
  "set (cf_candidates (hd (snd (merge_maps [[]] [[(''A'', ''1'')], [(''A'', ''2'')]] [])))) =
     {\<lparr>mv_text = ''1'', mv_deleted = False\<rparr>, \<lparr>mv_text = ''2'', mv_deleted = False\<rparr>}"
proof -
  let ?cs = "snd (merge_maps [[]] [[(''A'', ''1'')], [(''A'', ''2'')]] [])"
  have "length ?cs = 1" and k: "map cf_key ?cs = [''A'']"
    by code_simp+
  then have "hd ?cs \<in> set ?cs" "cf_key (hd ?cs) = ''A''"
    by (cases ?cs; simp)+
  then show ?thesis
    using merge_conflicts_exact [of "[[]]" "[[(''A'', ''1'')], [(''A'', ''2'')]]" "[]"]
    by (auto simp: side_get_def gm_get_def)
qed

text \<open>The result of a merge depends on the set of bases and the set of heads only, not on
  the order in which storage listed them: two devices that read the same heads compute the same
  secrets and the same conflicts.\<close>

theorem merge_order_irrelevant:
  assumes "set bases = set bases'" and "set heads = set heads'"
  shows "gm_get (fst (merge_maps bases heads choices)) = gm_get (fst (merge_maps bases' heads' choices))
       \<and> snd (merge_maps bases heads choices) = snd (merge_maps bases' heads' choices)"
proof -
  have sb: "set (base_or_empty bases) = set (base_or_empty bases')"
    using assms(1) by (cases "bases = []"; cases "bases' = []") (auto simp: base_or_empty_def)
  have res: "resolve_key k (base_or_empty bases) heads = resolve_key k (base_or_empty bases') heads'" for k
    by (rule resolve_key_cong [OF base_or_empty_not_Nil sb assms(2)])
  have keys: "merge_keys (base_or_empty bases @ heads) = merge_keys (base_or_empty bases' @ heads')"
    using sb assms(2) by (intro merge_keys_cong) simp
  have "conflicted (base_or_empty bases) heads choices = conflicted (base_or_empty bases') heads' choices"
    by (simp add: conflicted_def res fun_eq_iff)
  moreover have "candidates k heads = candidates k heads'" for k
    using assms(2) by (rule candidates_cong)
  ultimately have "snd (merge_maps bases heads choices) = snd (merge_maps bases' heads' choices)"
    by (simp add: merge_maps_conflicts keys)
  then show ?thesis
    by (simp add: fun_eq_iff merge_maps_get merged_value_def res)
qed

lemma merge_order_irrelevant_witness:
  "snd (merge_maps [[]] [[(''A'', ''1'')], [(''A'', ''2'')]] []) =
   snd (merge_maps [[]] [[(''A'', ''2'')], [(''A'', ''1'')]] [])"
  by (rule merge_order_irrelevant [THEN conjunct2]) auto

text \<open>Merging one head, or a head with its own base (a fast-forward), gives that head's
  content unchanged and no conflict, whatever choices are supplied.\<close>

theorem merge_single_and_fast_forward:
  "gm_get (fst (merge_maps bases [h] choices)) = gm_get h
   \<and> snd (merge_maps bases [h] choices) = []
   \<and> gm_get (fst (merge_maps [b] [b, h] choices)) = gm_get h
   \<and> snd (merge_maps [b] [b, h] choices) = []"
proof -
  have "base_or_empty [b] = [b]"
    by (simp add: base_or_empty_def)
  then show ?thesis
    by (simp add: fun_eq_iff merge_maps_get merged_value_def merge_maps_conflicts conflicted_def
        resolve_key_single_head resolve_key_fast_forward filter_empty_conv)
qed

text \<open>Once a person has decided every conflict the merge has none left, the decided keys
  have exactly the decided outcome, and a decision for a key that does not conflict changes
  nothing.\<close>

theorem merge_choices_settle:
  assumes "cf_key ` set (snd (merge_maps bases heads [])) \<subseteq> {k. gm_has choices k}"
  shows "snd (merge_maps bases heads choices) = []
       \<and> (\<forall>k. gm_get (fst (merge_maps bases heads choices)) k =
             (if k \<in> cf_key ` set (snd (merge_maps bases heads []))
              then (let c = the (gm_get choices k) in if ch_delete c then None else Some (ch_value c))
              else gm_get (fst (merge_maps bases heads [])) k))"
proof -
  have conf: "k \<in> cf_key ` set (snd (merge_maps bases heads [])) \<longleftrightarrow>
      resolve_key k (base_or_empty bases) heads = None" for k
    by (simp add: conflict_keys conflicted_def)
  have "\<not> conflicted (base_or_empty bases) heads choices k" for k
    using assms conf [of k] by (auto simp: conflicted_def gm_has_get)
  then have "snd (merge_maps bases heads choices) = []"
    by (simp add: merge_maps_conflicts filter_empty_conv)
  moreover have "gm_get (fst (merge_maps bases heads choices)) k =
      (if resolve_key k (base_or_empty bases) heads = None
       then (let c = the (gm_get choices k) in if ch_delete c then None else Some (ch_value c))
       else gm_get (fst (merge_maps bases heads [])) k)" for k
  proof (cases "resolve_key k (base_or_empty bases) heads")
    case None
    then have "gm_has choices k"
      using assms conf [of k] by blast
    with None show ?thesis
      by (auto simp: merge_maps_get merged_value_def gm_has_get)
  qed (simp add: merge_maps_get merged_value_def)
  ultimately show ?thesis
    by (simp only: conf) blast
qed

lemma merge_choices_settle_witness:
  "snd (merge_maps [[]] [[(''A'', ''1'')], [(''A'', ''2'')]] [(''A'', \<lparr>ch_value = ''3'', ch_delete = False\<rparr>)]) = []"
proof (rule merge_choices_settle [THEN conjunct1])
  show "cf_key ` set (snd (merge_maps [[]] [[(''A'', ''1'')], [(''A'', ''2'')]] []))
    \<subseteq> {k. gm_has [(''A'', \<lparr>ch_value = ''3'', ch_delete = False\<rparr>)] k}"
    by (simp add: conflict_keys conflicted_def base_or_empty_def resolve_key_def resolve_against_def
        side_get_def gm_get_def gm_has_def Let_def split: if_splits)
qed

end
