(* ===== verification/Signing.thy ===== *)
theory Signing
  imports Prelude
begin

text \<open>
  Signing keys, device identifiers and canonical signatures, \<open>pkg/signing/signing.go\<close>.

  The cryptographic primitives of the Go standard library are the fields of \<open>crypto\<close>: the
  hash, the test that a compressed point lies on P-256, and the two signature checks.  All the
  checks the package itself makes around them (lengths, domains, the low half of the order,
  the fixed-size encoding of a signature) are definitions.
\<close>

record crypto =
  cr_sha256 :: "bytes \<Rightarrow> bytes"
  cr_on_p256 :: "bytes \<Rightarrow> bool"
  cr_ed25519_verify :: "bytes \<Rightarrow> bytes \<Rightarrow> bytes \<Rightarrow> bool"
  cr_ecdsa_verify :: "bytes \<Rightarrow> bytes \<Rightarrow> nat \<Rightarrow> nat \<Rightarrow> bool"

record public_key =
  pk_alg :: string
  pk_bytes :: bytes

datatype sign_error = ErrInvalidKey | ErrInvalidSignature | ErrInvalidDomain

definition alg_p256 :: string where "alg_p256 = ''p256''"
definition alg_ed25519 :: string where "alg_ed25519 = ''ed25519''"
definition domain_control :: string where "domain_control = ''enbu.workspace-control.v1''"
definition domain_state :: string where "domain_state = ''enbu.workspace-state.v1''"
definition domain_join :: string where "domain_join = ''enbu.join-request.v1''"
definition domain_compact :: string where "domain_compact = ''enbu.workspace-compaction.v1''"
definition device_id_domain :: string where "device_id_domain = ''enbu.device-id.v1'' @ [CHR 0x00]"
definition p256_sig_size :: nat where "p256_sig_size = 64"

lemmas domain_defs = domain_control_def domain_state_def domain_join_def domain_compact_def

subsection \<open>Hexadecimal text and big-endian integers\<close>

definition hex_digit :: "nat \<Rightarrow> char" where
  "hex_digit n = (if n < 10 then char_of (48 + n) else char_of (87 + n))"

definition hex_encode :: "bytes \<Rightarrow> string" where
  "hex_encode bs = concat (map (\<lambda>b. [hex_digit (of_char b div 16), hex_digit (of_char b mod 16)]) bs)"

definition hex_value :: "char \<Rightarrow> nat option" where
  "hex_value c =
     (let n = of_char c :: nat in
      if 48 \<le> n \<and> n \<le> 57 then Some (n - 48)
      else if 97 \<le> n \<and> n \<le> 102 then Some (n - 87)
      else if 65 \<le> n \<and> n \<le> 70 then Some (n - 55)
      else None)"

fun hex_decode :: "string \<Rightarrow> bytes option" where
  "hex_decode [] = Some []"
| "hex_decode [c] = None"
| "hex_decode (a # b # cs) =
     (case (hex_value a, hex_value b, hex_decode cs) of
        (Some h, Some l, Some bs) \<Rightarrow> Some (char_of (16 * h + l) # bs)
      | _ \<Rightarrow> None)"

definition lower_char :: "char \<Rightarrow> char" where
  "lower_char c = (let n = of_char c :: nat in if 65 \<le> n \<and> n \<le> 90 then char_of (n + 32) else c)"

text \<open>\<open>strings.ToLower\<close> on the ASCII text it is applied to here.\<close>

definition to_lower :: "string \<Rightarrow> string" where
  "to_lower s = map lower_char s"

text \<open>\<open>big.Int.SetBytes\<close>, and \<open>FillBytes\<close> into a buffer of \<open>n\<close> bytes.\<close>

definition be_nat :: "bytes \<Rightarrow> nat" where
  "be_nat bs = foldl (\<lambda>a b. 256 * a + of_char b) 0 bs"

fun be_bytes :: "nat \<Rightarrow> nat \<Rightarrow> bytes" where
  "be_bytes 0 v = []"
| "be_bytes (Suc n) v = be_bytes n (v div 256) @ [char_of (v mod 256)]"

subsection \<open>Keys\<close>

definition parse_p256 :: "crypto \<Rightarrow> bytes \<Rightarrow> sign_error + unit" where
  "parse_p256 cr b =
     (if length b \<noteq> 33 then Inl ErrInvalidKey
      else if \<not> cr_on_p256 cr b then Inl ErrInvalidKey
      else Inr ())"

definition key_validate :: "crypto \<Rightarrow> public_key \<Rightarrow> sign_error + unit" where
  "key_validate cr k =
     (if pk_alg k = alg_p256 then parse_p256 cr (pk_bytes k)
      else if pk_alg k = alg_ed25519 then
        (if length (pk_bytes k) \<noteq> 32 then Inl ErrInvalidKey else Inr ())
      else Inl ErrInvalidKey)"

text \<open>\<open>P256FromUncompressed\<close> after the library has accepted the point: the parity of the last
  byte selects the prefix \<open>2\<close> or \<open>3\<close>.\<close>

definition p256_from_uncompressed :: "(bytes \<Rightarrow> bool) \<Rightarrow> bytes \<Rightarrow> sign_error + public_key" where
  "p256_from_uncompressed parse_ok b =
     (if \<not> parse_ok b then Inl ErrInvalidKey
      else Inr \<lparr>pk_alg = alg_p256,
                pk_bytes = char_of (2 + (of_char (b ! 64) mod 2 :: nat)) # take 32 (drop 1 b)\<rparr>)"

definition device_preimage :: "public_key \<Rightarrow> bytes" where
  "device_preimage k = device_id_domain @ pk_alg k @ [CHR 0x00] @ pk_bytes k"

definition device_id :: "crypto \<Rightarrow> public_key \<Rightarrow> string" where
  "device_id cr k = hex_encode (cr_sha256 cr (device_preimage k))"

definition device_id_validate :: "string \<Rightarrow> bool" where
  "device_id_validate s =
     (case hex_decode s of
        None \<Rightarrow> False
      | Some b \<Rightarrow> length b = 32 \<and> s = to_lower s)"

text \<open>The loop of \<open>Fingerprint\<close> over \<open>i = 0, 4, ..., 16\<close>, joined with dashes.\<close>

definition fingerprint :: "string \<Rightarrow> string" where
  "fingerprint s =
     (if length s < 20 then s
      else concat (map (\<lambda>i. (if i = 0 then [] else ''-'') @ take 4 (drop i s)) [0, 4, 8, 12, 16]))"

subsection \<open>Signatures\<close>

definition validate_domain :: "string \<Rightarrow> sign_error + unit" where
  "validate_domain domain =
     (if domain = [] \<or> CHR 0x00 \<in> set domain then Inl ErrInvalidDomain else Inr ())"

definition message :: "string \<Rightarrow> bytes \<Rightarrow> bytes" where
  "message domain body = domain @ CHR 0x00 # body"

text \<open>The order of the group of P-256 (FIPS 186-4, D.1.2.3).\<close>

definition p256_order :: nat where
  "p256_order = 0xffffffff00000000ffffffffffffffffbce6faada7179e84f3b9cac2fc632551"

definition half_order :: nat where
  "half_order = p256_order div 2"

definition p256_digest :: "crypto \<Rightarrow> string \<Rightarrow> bytes \<Rightarrow> bytes" where
  "p256_digest cr domain body = cr_sha256 cr (message domain body)"

definition verify :: "crypto \<Rightarrow> public_key \<Rightarrow> string \<Rightarrow> bytes \<Rightarrow> bytes \<Rightarrow> sign_error + unit" where
  "verify cr pk domain body sig =
     res_bind (key_validate cr pk) (\<lambda>_.
     res_bind (validate_domain domain) (\<lambda>_.
     let msg = message domain body in
     if pk_alg pk = alg_ed25519 then
       (if length sig \<noteq> 64 \<or> \<not> cr_ed25519_verify cr (pk_bytes pk) msg sig
        then Inl ErrInvalidSignature else Inr ())
     else if pk_alg pk = alg_p256 then
       (if length sig \<noteq> p256_sig_size then Inl ErrInvalidSignature
        else
          let r = be_nat (take 32 sig); s = be_nat (drop 32 sig) in
          if s > half_order then Inl ErrInvalidSignature
          else if \<not> cr_ecdsa_verify cr (pk_bytes pk) (cr_sha256 cr msg) r s
          then Inl ErrInvalidSignature else Inr ())
     else Inr ()))"

text \<open>\<open>P256Signature\<close>; a nil \<open>big.Int\<close> is \<open>None\<close>.\<close>

definition p256_signature :: "int option \<Rightarrow> int option \<Rightarrow> sign_error + bytes" where
  "p256_signature r s =
     (case (r, s) of
        (Some r, Some s) \<Rightarrow>
          (if r \<le> 0 \<or> s \<le> 0 \<or> r \<ge> int p256_order \<or> s \<ge> int p256_order then Inl ErrInvalidSignature
           else
             let s = (if s > int half_order then int p256_order - s else s)
             in Inr (be_bytes 32 (nat r) @ be_bytes 32 (nat s)))
      | _ \<Rightarrow> Inl ErrInvalidSignature)"

text \<open>A signer: its public key, and a function from a domain and a body to a signature.  Its
  \<open>Close\<close> releases a handle and has no effect on the data.\<close>

record signer =
  sg_public :: public_key
  sg_sign :: "string \<Rightarrow> bytes \<Rightarrow> sign_error + bytes"

definition ed25519_sign :: "(bytes \<Rightarrow> bytes) \<Rightarrow> nat \<Rightarrow> string \<Rightarrow> bytes \<Rightarrow> sign_error + bytes" where
  "ed25519_sign raw_sign key_length domain body =
     res_bind (validate_domain domain) (\<lambda>_.
       if key_length \<noteq> 64 then Inl ErrInvalidKey
       else Inr (raw_sign (message domain body)))"

definition p256_sign ::
  "crypto \<Rightarrow> (bytes \<Rightarrow> sign_error + int \<times> int) \<Rightarrow> string \<Rightarrow> bytes \<Rightarrow> sign_error + bytes" where
  "p256_sign cr raw_sign domain body =
     res_bind (validate_domain domain) (\<lambda>_.
     res_bind (raw_sign (p256_digest cr domain body)) (\<lambda>(r, s).
       p256_signature (Some r) (Some s)))"

subsection \<open>Lemmas\<close>

lemma hex_digit_value: "n < 16 \<Longrightarrow> hex_value (hex_digit n) = Some n"
  by (auto simp: hex_value_def hex_digit_def Let_def)

lemma lower_hex_digit: "n < 16 \<Longrightarrow> lower_char (hex_digit n) = hex_digit n"
  by (auto simp: lower_char_def hex_digit_def Let_def)

lemma hex_encode_Cons:
  "hex_encode (b # bs) = hex_digit (of_char b div 16) # hex_digit (of_char b mod 16) # hex_encode bs"
  by (simp add: hex_encode_def)

lemma hex_encode_Nil [simp]: "hex_encode [] = []"
  by (simp add: hex_encode_def)

lemma hex_decode_encode: "hex_decode (hex_encode bs) = Some bs"
proof (induction bs)
  case (Cons b bs)
  have "(of_char b :: nat) div 16 < 16"
    using nat_of_char_less_256 [of b] by (simp only: less_mult_imp_div_less)
  then show ?case
    using Cons by (simp add: hex_encode_Cons hex_digit_value)
qed simp

lemma length_hex_encode [simp]: "length (hex_encode bs) = 2 * length bs"
  by (induction bs) (simp_all add: hex_encode_Cons)

lemma lower_hex_encode: "to_lower (hex_encode bs) = hex_encode bs"
proof (induction bs)
  case (Cons b bs)
  have "(of_char b :: nat) div 16 < 16"
    using nat_of_char_less_256 [of b] by (simp only: less_mult_imp_div_less)
  with Cons show ?case
    by (simp add: hex_encode_Cons to_lower_def lower_hex_digit)
qed (simp add: to_lower_def)

lemma hex_encode_inject: "hex_encode a = hex_encode b \<Longrightarrow> a = b"
  by (metis hex_decode_encode option.inject)

lemma be_nat_snoc: "be_nat (bs @ [b]) = 256 * be_nat bs + of_char b"
  by (simp add: be_nat_def)

lemma be_nat_bytes: "v < 256 ^ n \<Longrightarrow> be_nat (be_bytes n v) = v"
proof (induction n arbitrary: v)
  case 0
  then show ?case by (simp add: be_nat_def)
next
  case (Suc n)
  then have "v div 256 < 256 ^ n"
    by (simp add: less_mult_imp_div_less mult.commute)
  with Suc.IH show ?case
    by (simp add: be_nat_snoc)
qed

lemma length_be_bytes [simp]: "length (be_bytes n v) = n"
  by (induction n arbitrary: v) simp_all

lemma half_order_less: "half_order < p256_order" "p256_order < 256 ^ 32"
  by (simp_all add: half_order_def p256_order_def)

lemma validate_domain_Inr [res_simps]:
  "validate_domain d = Inr () \<longleftrightarrow> d \<noteq> [] \<and> CHR 0x00 \<notin> set d"
  by (simp add: validate_domain_def)

lemma valid_domains:
  "validate_domain domain_control = Inr ()" "validate_domain domain_state = Inr ()"
  "validate_domain domain_join = Inr ()" "validate_domain domain_compact = Inr ()"
  by (simp_all add: validate_domain_def domain_defs)

lemma message_inject:
  assumes "CHR 0x00 \<notin> set d" and "CHR 0x00 \<notin> set d'" and "message d b = message d' b'"
  shows "d = d' \<and> b = b'"
proof -
  have eq: "d @ CHR 0x00 # b = d' @ CHR 0x00 # b'"
    using assms(3) by (simp add: message_def)
  have "takeWhile (\<lambda>c. c \<noteq> CHR 0x00) (d @ CHR 0x00 # b) = d"
    and "takeWhile (\<lambda>c. c \<noteq> CHR 0x00) (d' @ CHR 0x00 # b') = d'"
    using assms(1,2) by (auto simp: takeWhile_append)
  then have "d = d'"
    using eq by metis
  then show ?thesis
    using eq by simp
qed

lemma key_validate_alg:
  "key_validate cr k = Inr () \<Longrightarrow> (pk_alg k = alg_p256 \<and> length (pk_bytes k) = 33 \<and> cr_on_p256 cr (pk_bytes k))
    \<or> (pk_alg k = alg_ed25519 \<and> length (pk_bytes k) = 32)"
  by (auto simp: key_validate_def parse_p256_def split: if_splits)

lemma device_preimage_inject:
  assumes "key_validate cr k = Inr ()" and "key_validate cr k' = Inr ()"
    and "device_preimage k = device_preimage k'"
  shows "k = k'"
proof -
  have "CHR 0x00 \<notin> set (pk_alg k)" "CHR 0x00 \<notin> set (pk_alg k')"
    using key_validate_alg [OF assms(1)] key_validate_alg [OF assms(2)]
    by (auto simp: alg_p256_def alg_ed25519_def)
  moreover have "message (pk_alg k) (pk_bytes k) = message (pk_alg k') (pk_bytes k')"
    using assms(3) by (simp add: device_preimage_def message_def)
  ultimately have "pk_alg k = pk_alg k' \<and> pk_bytes k = pk_bytes k'"
    by (rule message_inject)
  then show ?thesis
    by simp
qed

lemma device_id_validate_hex: "length h = 32 \<Longrightarrow> device_id_validate (hex_encode h)"
  by (simp add: device_id_validate_def hex_decode_encode lower_hex_encode)

lemma p256_signature_Inr:
  assumes "p256_signature (Some r) (Some s) = Inr sig"
  shows "0 < r" and "0 < s" and "r < int p256_order" and "s < int p256_order"
    and "sig = be_bytes 32 (nat r) @ be_bytes 32 (nat (if s > int half_order then int p256_order - s else s))"
  using assms by (auto simp: p256_signature_def Let_def split: if_splits)

lemma half_order_twice: "p256_order = 2 * half_order + 1"
  by (simp add: half_order_def p256_order_def)

lemma low_half_mirror:
  assumes "0 < s" and "s < int p256_order"
  shows "(if int p256_order - s > int half_order then int p256_order - (int p256_order - s)
          else int p256_order - s) = (if s > int half_order then int p256_order - s else s)"
proof -
  have "int p256_order = 2 * int half_order + 1"
    by (simp add: half_order_twice)
  then show ?thesis by auto
qed

lemma p256_signature_mirror:
  assumes "p256_signature (Some r) (Some s) = Inr sig"
  shows "p256_signature (Some r) (Some (int p256_order - s)) = Inr sig"
proof -
  note sig = p256_signature_Inr [OF assms]
  then have "\<not> (r \<le> 0 \<or> int p256_order - s \<le> 0 \<or> r \<ge> int p256_order \<or> int p256_order - s \<ge> int p256_order)"
    by linarith
  then show ?thesis
    by (simp only: p256_signature_def option.case prod.case if_False Let_def sig(5)
        low_half_mirror [OF sig(2,4)])
qed

lemma p256_signature_encodes:
  assumes "p256_signature (Some r) (Some s) = Inr sig"
  shows "length sig = p256_sig_size" and "be_nat (take 32 sig) = nat r"
    and "be_nat (drop 32 sig) \<le> half_order"
    and "be_nat (drop 32 sig) = nat s \<or> be_nat (drop 32 sig) = p256_order - nat s"
proof -
  note sig = p256_signature_Inr [OF assms]
  let ?s = "nat (if s > int half_order then int p256_order - s else s)"
  have s: "nat r < 256 ^ 32" "?s < 256 ^ 32" "?s \<le> half_order"
    using sig(1-4) half_order_less half_order_twice by (auto simp: nat_less_iff)
  have "?s = nat s \<or> ?s = p256_order - nat s"
    using sig(2) by (auto simp: nat_diff_distrib)
  moreover have "take 32 sig = be_bytes 32 (nat r)" "drop 32 sig = be_bytes 32 ?s"
    by (simp_all only: sig(5)) simp_all
  ultimately show "be_nat (take 32 sig) = nat r" "be_nat (drop 32 sig) \<le> half_order"
    "be_nat (drop 32 sig) = nat s \<or> be_nat (drop 32 sig) = p256_order - nat s"
    using s by (simp_all only: be_nat_bytes)
  show "length sig = p256_sig_size"
    by (simp only: sig(5)) (simp add: p256_sig_size_def)
qed

subsection \<open>Properties\<close>

text \<open>The signed byte string determines its domain and its body: a signature made for one
  kind of object (control, state, join request, compaction) is never a signature over the
  message of another kind.\<close>

theorem message_separates_domains:
  assumes "validate_domain d = Inr ()" and "validate_domain d' = Inr ()"
  shows "message d b = message d' b' \<longleftrightarrow> d = d' \<and> b = b'"
  using assms message_inject [of d d' b b'] by (auto simp: res_simps)

lemma message_separates_domains_witness:
  "message domain_state ''x'' \<noteq> message domain_join ''x''"
  using message_separates_domains [OF valid_domains(2) valid_domains(3), of "''x''" "''x''"]
  by (simp add: domain_defs)

text \<open>\<open>P256Signature\<close> is canonical.  Every signature it encodes has 64 bytes, carries \<open>r\<close>
  unchanged and the representative of \<open>s\<close> in the low half of the group order, and the two
  ECDSA forms \<open>(r, s)\<close> and \<open>(r, n - s)\<close> have one encoding.\<close>

theorem p256_signature_canonical:
  assumes "p256_signature (Some r) (Some s) = Inr sig"
  shows "length sig = p256_sig_size \<and> be_nat (take 32 sig) = nat r
       \<and> be_nat (drop 32 sig) \<le> half_order
       \<and> (be_nat (drop 32 sig) = nat s \<or> be_nat (drop 32 sig) = p256_order - nat s)
       \<and> p256_signature (Some r) (Some (int p256_order - s)) = Inr sig"
  using p256_signature_encodes [OF assms] p256_signature_mirror [OF assms] by blast

lemma p256_signature_canonical_witness:
  "p256_signature (Some 5) (Some 7) = Inr (be_bytes 32 5 @ be_bytes 32 7)
   \<and> p256_signature (Some 5) (Some (int p256_order - 7)) = Inr (be_bytes 32 5 @ be_bytes 32 7)"
proof -
  have "p256_signature (Some 5) (Some 7) = Inr (be_bytes 32 5 @ be_bytes 32 7)"
    by (simp add: p256_signature_def p256_order_def half_order_def)
  then show ?thesis
    using p256_signature_canonical by blast
qed

text \<open>What a P-256 signer returns passes \<open>Verify\<close> under its own key, given that the ECDSA
  library accepts the pair it produced and, as ECDSA does, its mirror \<open>(r, n - s)\<close>.\<close>

theorem p256_sign_verifies:
  assumes "p256_sign cr raw domain body = Inr sig"
    and "pk_alg pk = alg_p256" and "key_validate cr pk = Inr ()"
    and "\<And>r s. raw (p256_digest cr domain body) = Inr (r, s) \<Longrightarrow>
           cr_ecdsa_verify cr (pk_bytes pk) (p256_digest cr domain body) (nat r) (nat s)
         \<and> cr_ecdsa_verify cr (pk_bytes pk) (p256_digest cr domain body) (nat r) (p256_order - nat s)"
  shows "verify cr pk domain body sig = Inr ()"
proof -
  obtain r s where raw: "raw (p256_digest cr domain body) = Inr (r, s)"
    and sig: "p256_signature (Some r) (Some s) = Inr sig" and dom: "validate_domain domain = Inr ()"
    using assms(1) by (auto simp: p256_sign_def res_simps)
  note canon = p256_signature_encodes [OF sig]
  have "cr_ecdsa_verify cr (pk_bytes pk) (cr_sha256 cr (message domain body))
      (be_nat (take 32 sig)) (be_nat (drop 32 sig))"
    using canon(2,4) assms(4) [OF raw] by (auto simp: p256_digest_def)
  with canon(1,3) dom assms(2,3) show ?thesis
    by (simp add: verify_def Let_def alg_p256_def alg_ed25519_def)
qed

lemma p256_sign_verifies_witness:
  "let cr = \<lparr>cr_sha256 = (\<lambda>m. replicate 32 (CHR ''h'')), cr_on_p256 = (\<lambda>b. True),
             cr_ed25519_verify = (\<lambda>k m s. False),
             cr_ecdsa_verify = (\<lambda>k h r s. r = 5 \<and> (s = 7 \<or> s = p256_order - 7))\<rparr>;
       pk = \<lparr>pk_alg = alg_p256, pk_bytes = replicate 33 (CHR ''k'')\<rparr>
   in verify cr pk domain_state ''body'' (be_bytes 32 5 @ be_bytes 32 7) = Inr ()"
  unfolding Let_def
  by (rule p256_sign_verifies [where raw = "\<lambda>h. Inr (5, 7)"])
    (simp_all add: p256_sign_def p256_signature_def half_order_def p256_order_def valid_domains
      key_validate_def parse_p256_def alg_p256_def)

text \<open>A device identifier is always well formed and names exactly one key: two valid keys
  whose identifiers are equal are the same key, unless their two preimages collide in SHA-256.\<close>

theorem device_id_names_one_key:
  assumes "\<And>m. length (cr_sha256 cr m) = 32"
    and "key_validate cr k = Inr ()" and "key_validate cr k' = Inr ()"
    and "cr_sha256 cr (device_preimage k) = cr_sha256 cr (device_preimage k') \<Longrightarrow>
         device_preimage k = device_preimage k'"
  shows "device_id_validate (device_id cr k) \<and> (device_id cr k = device_id cr k' \<longleftrightarrow> k = k')"
  using assms(1,4) device_preimage_inject [OF assms(2,3)]
  by (auto simp: device_id_def device_id_validate_hex dest: hex_encode_inject)

lemma device_id_names_one_key_witness:
  "let cr = \<lparr>cr_sha256 = (\<lambda>m. take 32 (rev m @ replicate 32 (CHR 0x00))), cr_on_p256 = (\<lambda>b. True),
             cr_ed25519_verify = (\<lambda>k m s. True), cr_ecdsa_verify = (\<lambda>k h r s. True)\<rparr>;
       k = \<lparr>pk_alg = alg_ed25519, pk_bytes = replicate 32 (CHR ''a'')\<rparr>;
       k' = \<lparr>pk_alg = alg_ed25519, pk_bytes = replicate 32 (CHR ''b'')\<rparr>
   in device_id_validate (device_id cr k) \<and> device_id cr k \<noteq> device_id cr k'"
proof -
  let ?cr = "\<lparr>cr_sha256 = (\<lambda>m. take 32 (rev m @ replicate 32 (CHR 0x00))), cr_on_p256 = (\<lambda>b. True),
             cr_ed25519_verify = (\<lambda>k m s. True), cr_ecdsa_verify = (\<lambda>k h r s. True)\<rparr>"
  let ?k = "\<lparr>pk_alg = alg_ed25519, pk_bytes = replicate 32 (CHR ''a'')\<rparr>"
  let ?k' = "\<lparr>pk_alg = alg_ed25519, pk_bytes = replicate 32 (CHR ''b'')\<rparr>"
  have "device_id_validate (device_id ?cr ?k) \<and> (device_id ?cr ?k = device_id ?cr ?k' \<longleftrightarrow> ?k = ?k')"
    by (rule device_id_names_one_key)
      (simp_all add: key_validate_def alg_ed25519_def alg_p256_def device_preimage_def numeral_eq_Suc)
  then show ?thesis
    by (simp add: Let_def numeral_eq_Suc)
qed

end
