(* ===== verification/Digests.thy ===== *)
theory Digests
  imports Signing
begin

text \<open>
  The digest library \<open>opencontainers/go-digest\<close> is not part of the repository.  Its functions
  are the fields of \<open>digest_lib\<close>: \<open>FromBytes\<close>, \<open>Digest.Validate\<close> (true when it returns nil),
  \<open>Digest.Algorithm\<close>, \<open>Digest.Encoded\<close> and \<open>NewDigestFromEncoded\<close>.  \<open>digest_lib_ok\<close> states the
  documented behaviour the code relies on: \<open>FromBytes\<close> gives a valid SHA-256 digest, and a valid
  SHA-256 digest is its algorithm and 64 lowercase hexadecimal characters.

  \<open>validDigest\<close> (\<open>pkg/wsp/control.go\<close>), \<open>validateDigest\<close> (\<open>pkg/artifact/types.go\<close>) and
  \<open>ValidateDigest\<close> (\<open>pkg/storage/storage.go\<close>) are the same two checks.
\<close>

record digest_lib =
  dl_from_bytes :: "bytes \<Rightarrow> digest"
  dl_validate :: "digest \<Rightarrow> bool"
  dl_algorithm :: "digest \<Rightarrow> string"
  dl_encoded :: "digest \<Rightarrow> string"
  dl_new :: "string \<Rightarrow> string \<Rightarrow> digest"

definition sha256_name :: string where
  "sha256_name = ''sha256''"

definition valid_digest :: "digest_lib \<Rightarrow> digest \<Rightarrow> bool" where
  "valid_digest dl d \<longleftrightarrow> (if \<not> dl_validate dl d then False else dl_algorithm dl d = sha256_name)"

definition hex_chars :: string where
  "hex_chars = ''0123456789abcdef''"

definition is_hex64 :: "string \<Rightarrow> bool" where
  "is_hex64 s \<longleftrightarrow> length s = 64 \<and> (\<forall>c\<in>set s. c \<in> set hex_chars)"

definition digest_lib_ok :: "digest_lib \<Rightarrow> bool" where
  "digest_lib_ok dl \<longleftrightarrow>
     (\<forall>b. valid_digest dl (dl_from_bytes dl b)) \<and>
     (\<forall>d. valid_digest dl d \<longrightarrow> is_hex64 (dl_encoded dl d) \<and> dl_new dl sha256_name (dl_encoded dl d) = d) \<and>
     (\<forall>h. dl_validate dl (dl_new dl sha256_name h) \<longrightarrow>
            valid_digest dl (dl_new dl sha256_name h) \<and> dl_encoded dl (dl_new dl sha256_name h) = h)"

lemma valid_digest_from_bytes: "digest_lib_ok dl \<Longrightarrow> valid_digest dl (dl_from_bytes dl b)"
  by (simp add: digest_lib_ok_def)

lemma valid_digest_encoded:
  "digest_lib_ok dl \<Longrightarrow> valid_digest dl d \<Longrightarrow>
     is_hex64 (dl_encoded dl d) \<and> dl_new dl sha256_name (dl_encoded dl d) = d"
  by (simp add: digest_lib_ok_def)

lemma valid_digest_new:
  "digest_lib_ok dl \<Longrightarrow> dl_validate dl (dl_new dl sha256_name h) \<Longrightarrow>
     valid_digest dl (dl_new dl sha256_name h) \<and> dl_encoded dl (dl_new dl sha256_name h) = h"
  by (simp add: digest_lib_ok_def)

lemma valid_digest_validate: "valid_digest dl d \<Longrightarrow> dl_validate dl d"
  by (simp add: valid_digest_def split: if_splits)

subsection \<open>A concrete library for examples\<close>

text \<open>
  A small library that satisfies the laws: the digest of a text is its last 32 bytes in
  hexadecimal (padded), after the algorithm name.  It serves to evaluate the model on examples;
  no property depends on it.
\<close>

definition sample_hash :: "bytes \<Rightarrow> bytes" where
  "sample_hash m = take 32 (rev m @ replicate 32 (CHR 0x00))"

definition sample_digest_lib :: digest_lib where
  "sample_digest_lib = \<lparr>
     dl_from_bytes = (\<lambda>b. ''sha256:'' @ hex_encode (sample_hash b)),
     dl_validate = (\<lambda>d. take 7 d = ''sha256:'' \<and> is_hex64 (drop 7 d)),
     dl_algorithm = (\<lambda>d. takeWhile (\<lambda>c. c \<noteq> CHR '':'') d),
     dl_encoded = (\<lambda>d. drop 7 d),
     dl_new = (\<lambda>a h. a @ '':'' @ h)\<rparr>"

lemma hex_digit_mem: "n < 16 \<Longrightarrow> hex_digit n \<in> set hex_chars"
proof -
  have "list_all (\<lambda>n. hex_digit n \<in> set hex_chars) [0..<16]"
    by code_simp
  then show "n < 16 \<Longrightarrow> hex_digit n \<in> set hex_chars"
    by (simp add: list_all_iff)
qed

lemma hex_encode_hex: "c \<in> set (hex_encode bs) \<Longrightarrow> c \<in> set hex_chars"
proof (induction bs)
  case (Cons b bs)
  have "(of_char b :: nat) div 16 < 16"
    using nat_of_char_less_256 [of b] by (simp only: less_mult_imp_div_less)
  then have "hex_digit (of_char b div 16) \<in> set hex_chars"
    "hex_digit (of_char b mod 16) \<in> set hex_chars"
    by (simp_all add: hex_digit_mem)
  with Cons show ?case
    by (auto simp: hex_encode_Cons)
qed simp

lemma sample_digest_valid: "valid_digest sample_digest_lib (''sha256:'' @ h) \<longleftrightarrow> is_hex64 h"
  by (simp add: valid_digest_def sample_digest_lib_def sha256_name_def)

lemma sample_digest_lib_ok: "digest_lib_ok sample_digest_lib"
proof -
  have "is_hex64 (hex_encode (sample_hash b))" for b
    unfolding is_hex64_def using hex_encode_hex by (auto simp: sample_hash_def)
  then have "valid_digest sample_digest_lib (dl_from_bytes sample_digest_lib b)" for b
    using sample_digest_valid by (simp add: sample_digest_lib_def)
  moreover have "is_hex64 (dl_encoded sample_digest_lib d) \<and>
      dl_new sample_digest_lib sha256_name (dl_encoded sample_digest_lib d) = d"
    if "valid_digest sample_digest_lib d" for d
  proof -
    have "take 7 d = ''sha256:''" "is_hex64 (drop 7 d)"
      using valid_digest_validate [OF that] by (simp_all add: sample_digest_lib_def)
    then show ?thesis
      using append_take_drop_id [of 7 d] by (simp add: sample_digest_lib_def sha256_name_def)
  qed
  moreover have "valid_digest sample_digest_lib (dl_new sample_digest_lib sha256_name h) \<and>
      dl_encoded sample_digest_lib (dl_new sample_digest_lib sha256_name h) = h"
    if "dl_validate sample_digest_lib (dl_new sample_digest_lib sha256_name h)" for h
    using that by (simp add: sample_digest_lib_def sha256_name_def valid_digest_def)
  ultimately show ?thesis
    by (simp add: digest_lib_ok_def)
qed

end
