(* ===== verification/Storage_Format.thy ===== *)
theory Storage_Format
  imports Digests
begin

text \<open>
  Names and layout of stored objects, the backend-independent part of
  \<open>pkg/storage/storage.go\<close>: kinds and scopes, the flat name of a revision and how a listing is
  read back, and the frame a single-file backend stores.  \<open>storage_error\<close> has the package's
  sentinel errors; \<open>SInvalid\<close> stands for its plain formatted errors (an unknown kind, a scope or
  digest that is not well formed, a part that is too long or empty), and \<open>SBackend\<close> for any
  other failure of a backend.
\<close>

datatype storage_error =
  SNotFound | SCorrupt | STooLarge | SUnsupported | SDiscoveryLimit | SInvalid | SBackend

definition max_payload_bytes :: nat where "max_payload_bytes = 10 * 1024 * 1024"
definition max_head_bytes :: nat where "max_head_bytes = 1024 * 1024"
definition max_blobs :: nat where "max_blobs = 8"
definition scope_hex_len :: nat where "scope_hex_len = 32"
definition max_request_refs :: nat where "max_request_refs = 10000"
definition max_varint_len64 :: nat where "max_varint_len64 = 10"

lemmas storage_limits = max_payload_bytes_def max_head_bytes_def max_blobs_def scope_hex_len_def
  max_request_refs_def max_varint_len64_def

text \<open>\<open>Kind\<close> is a string type; any string other than the four constants is \<open>KindOther\<close>.\<close>

datatype kind = KindState | KindControl | KindRequest | KindCompaction | KindOther string

fun kind_scoped :: "kind \<Rightarrow> bool" where
  "kind_scoped KindState = True"
| "kind_scoped KindCompaction = True"
| "kind_scoped _ = False"

fun kind_letter :: "kind \<Rightarrow> string option" where
  "kind_letter KindState = Some ''s''"
| "kind_letter KindControl = Some ''c''"
| "kind_letter KindRequest = Some ''r''"
| "kind_letter KindCompaction = Some ''k''"
| "kind_letter (KindOther s) = None"

record object =
  ob_kind :: kind
  ob_scope :: string
  ob_rv :: digest
  ob_head :: bytes
  ob_blobs :: "bytes list"

subsection \<open>Scopes and names\<close>

fun show_nat :: "nat \<Rightarrow> string" where
  "show_nat n = (if n < 10 then [char_of (48 + n)] else show_nat (n div 10) @ [char_of (48 + n mod 10)])"

declare show_nat.simps [simp del]

definition scope_preimage :: "string \<Rightarrow> string \<Rightarrow> bytes" where
  "scope_preimage workspace resource =
     ''enbu.state-scope.v1'' @ [CHR 0x00] @ show_nat (length workspace) @ '':'' @ workspace
       @ show_nat (length resource) @ '':'' @ resource"

definition state_scope :: "crypto \<Rightarrow> string \<Rightarrow> string \<Rightarrow> string" where
  "state_scope cr workspace resource =
     take scope_hex_len (hex_encode (cr_sha256 cr (scope_preimage workspace resource)))"

definition valid_scope :: "kind \<Rightarrow> string \<Rightarrow> storage_error + unit" where
  "valid_scope kind scope =
     (if \<not> kind_scoped kind then (if scope \<noteq> [] then Inl SInvalid else Inr ())
      else if length scope \<noteq> scope_hex_len then Inl SInvalid
      else if \<exists>c\<in>set scope. c \<notin> set hex_chars then Inl SInvalid
      else Inr ())"

definition storage_validate_digest :: "digest_lib \<Rightarrow> digest \<Rightarrow> storage_error + unit" where
  "storage_validate_digest dl d =
     (if \<not> dl_validate dl d then Inl SInvalid
      else if dl_algorithm dl d \<noteq> sha256_name then Inl SInvalid
      else Inr ())"

definition validate_ref :: "digest_lib \<Rightarrow> kind \<Rightarrow> string \<Rightarrow> digest \<Rightarrow> storage_error + unit" where
  "validate_ref dl kind scope rv =
     (case kind_letter kind of
        None \<Rightarrow> Inl SInvalid
      | Some _ \<Rightarrow> res_bind (valid_scope kind scope) (\<lambda>_. storage_validate_digest dl rv))"

definition validate_object :: "digest_lib \<Rightarrow> object \<Rightarrow> storage_error + unit" where
  "validate_object dl o1 =
     res_bind (validate_ref dl (ob_kind o1) (ob_scope o1) (ob_rv o1)) (\<lambda>_.
       if ob_head o1 = [] \<or> length (ob_head o1) > max_head_bytes then Inl SInvalid
       else if dl_from_bytes dl (ob_head o1) \<noteq> ob_rv o1 then Inl SCorrupt
       else if length (ob_blobs o1) > max_blobs then Inl SInvalid
       else check_all (\<lambda>b. if b = [] then Inl SInvalid
                           else if length b > max_payload_bytes then Inl STooLarge
                           else Inr ()) (ob_blobs o1))"

definition obj_name :: "digest_lib \<Rightarrow> kind \<Rightarrow> string \<Rightarrow> digest \<Rightarrow> storage_error + string" where
  "obj_name dl kind scope rv =
     res_bind (validate_ref dl kind scope rv) (\<lambda>_.
       let l = the (kind_letter kind) in
       if kind_scoped kind then Inr (l @ ''-'' @ scope @ ''-'' @ dl_encoded dl rv)
       else Inr (l @ ''-'' @ dl_encoded dl rv))"

definition name_prefix :: "kind \<Rightarrow> string \<Rightarrow> storage_error + string" where
  "name_prefix kind scope =
     (case kind_letter kind of
        None \<Rightarrow> Inl SInvalid
      | Some l \<Rightarrow>
          res_bind (valid_scope kind scope) (\<lambda>_.
            if kind_scoped kind then Inr (l @ ''-'' @ scope @ ''-'') else Inr (l @ ''-'')))"

definition has_prefix :: "string \<Rightarrow> string \<Rightarrow> bool" where
  "has_prefix s p \<longleftrightarrow> take (length p) s = p"

definition rev_from_name :: "digest_lib \<Rightarrow> string \<Rightarrow> string \<Rightarrow> digest option" where
  "rev_from_name dl prefix name =
     (if \<not> has_prefix name prefix then None
      else
        let h = drop (length prefix) name in
        if length h \<noteq> 64 then None
        else
          let d = dl_new dl sha256_name h in
          if \<not> dl_validate dl d then None else Some d)"

definition scope_from_name :: "digest_lib \<Rightarrow> string \<Rightarrow> string option" where
  "scope_from_name dl name =
     (let l = the (kind_letter KindState) in
      if \<not> has_prefix name (l @ ''-'') then None
      else
        let rest = drop (length (l @ ''-'')) name in
        if length rest \<le> scope_hex_len \<or> rest ! scope_hex_len \<noteq> CHR ''-'' then None
        else
          let scope = take scope_hex_len rest in
          if valid_scope KindState scope \<noteq> Inr () then None
          else
            case rev_from_name dl (l @ ''-'' @ scope @ ''-'') name of
              None \<Rightarrow> None
            | Some _ \<Rightarrow> Some scope)"

fun sorted_scopes_loop :: "digest_lib \<Rightarrow> string list \<Rightarrow> string list \<Rightarrow> string list" where
  "sorted_scopes_loop dl [] out = out"
| "sorted_scopes_loop dl (n # ns) out =
     (case scope_from_name dl n of
        Some scope \<Rightarrow> sorted_scopes_loop dl ns (if scope \<in> set out then out else out @ [scope])
      | None \<Rightarrow> sorted_scopes_loop dl ns out)"

definition sorted_scopes :: "digest_lib \<Rightarrow> string list \<Rightarrow> string list" where
  "sorted_scopes dl names = sort (sorted_scopes_loop dl names [])"

definition key_char :: "char \<Rightarrow> bool" where
  "key_char c \<longleftrightarrow>
     (let n = of_char c :: nat in
      97 \<le> n \<and> n \<le> 122 \<or> 65 \<le> n \<and> n \<le> 90 \<or> 48 \<le> n \<and> n \<le> 57
      \<or> c = CHR ''-'' \<or> c = CHR ''_'' \<or> c = CHR ''.'')"

definition validate_key :: "string \<Rightarrow> bool" where
  "validate_key key \<longleftrightarrow>
     \<not> (key = [] \<or> length key > 128 \<or> key = ''.'' \<or> key = ''..'') \<and> (\<forall>c\<in>set key. key_char c)"

subsection \<open>Frames\<close>

text \<open>
  \<open>encoding/binary\<close>: \<open>PutUvarint\<close> and \<open>Uvarint\<close> on unsigned 64-bit values, which are natural
  numbers below \<open>2 ^ 64\<close>; the decoder rejects an encoding that would overflow, so nothing wraps.
  \<open>uvarint\<close> gives the value and the number of bytes read, or \<open>None\<close> where the Go function
  reports a count of zero (input too short) or less (overflow).
\<close>

fun put_uvarint :: "nat \<Rightarrow> bytes" where
  "put_uvarint x = (if x \<ge> 128 then char_of (x mod 128 + 128) # put_uvarint (x div 128) else [char_of x])"

declare put_uvarint.simps [simp del]

fun uvarint_loop :: "bytes \<Rightarrow> nat \<Rightarrow> nat \<Rightarrow> (nat \<times> nat) option" where
  "uvarint_loop [] i x = None"
| "uvarint_loop (b # bs) i x =
     (if i = max_varint_len64 then None
      else if (of_char b :: nat) < 128 then
        (if i = max_varint_len64 - 1 \<and> (of_char b :: nat) > 1 then None
         else Some (x + of_char b * 2 ^ (7 * i), i + 1))
      else uvarint_loop bs (i + 1) (x + (of_char b - 128) * 2 ^ (7 * i)))"

definition uvarint :: "bytes \<Rightarrow> (nat \<times> nat) option" where
  "uvarint buf = uvarint_loop buf 0 0"

definition max_frame_bytes :: nat where
  "max_frame_bytes = max_head_bytes + max_blobs * max_payload_bytes + (max_blobs + 2) * max_varint_len64"

definition frame :: "object \<Rightarrow> bytes" where
  "frame o1 =
     (let parts = ob_head o1 # ob_blobs o1
      in put_uvarint (length parts) @ concat (map (\<lambda>p. put_uvarint (length p)) parts) @ concat parts)"

record frame_layout =
  fl_offsets :: "nat list"
  fl_lengths :: "nat list"

text \<open>The loop that reads the lengths: \<open>n\<close> parts are left, \<open>i\<close> is the index of the next.\<close>

fun layout_loop :: "bytes \<Rightarrow> nat \<Rightarrow> nat \<Rightarrow> nat \<Rightarrow> nat list \<Rightarrow> nat \<Rightarrow> storage_error + nat \<times> nat list \<times> nat" where
  "layout_loop buf 0 i pos lengths tot = Inr (pos, lengths, tot)"
| "layout_loop buf (Suc n) i pos lengths tot =
     (case uvarint (drop pos buf) of
        None \<Rightarrow> Inl SCorrupt
      | Some (v, m) \<Rightarrow>
          (if v > (if i = 0 then max_head_bytes else max_payload_bytes) then Inl SCorrupt
           else layout_loop buf n (i + 1) (pos + m) (lengths @ [v]) (tot + v)))"

fun offsets_from :: "nat \<Rightarrow> nat list \<Rightarrow> nat list" where
  "offsets_from off [] = []"
| "offsets_from off (l # ls) = off # offsets_from (off + l) ls"

text \<open>\<open>readLayout\<close> on an object of \<open>size = length data\<close> bytes whose reader returns its bytes.\<close>

definition read_layout :: "bytes \<Rightarrow> storage_error + frame_layout" where
  "read_layout data =
     (let header_max = (max_blobs + 2) * max_varint_len64;
          buf = take (min (length data) header_max) data
      in case uvarint buf of
           None \<Rightarrow> Inl SCorrupt
         | Some (cnt, n) \<Rightarrow>
             (if cnt = 0 \<or> cnt > max_blobs + 1 then Inl SCorrupt
              else res_bind (layout_loop buf cnt 0 n [] 0) (\<lambda>(pos, lengths, tot).
                if lengths ! 0 = 0 \<or> int tot \<noteq> int (length data) - int pos then Inl SCorrupt
                else Inr \<lparr>fl_offsets = offsets_from pos lengths, fl_lengths = lengths\<rparr>)))"

definition read_head :: "digest_lib \<Rightarrow> bytes \<Rightarrow> digest \<Rightarrow> storage_error + bytes \<times> frame_layout" where
  "read_head dl data rv =
     res_bind (read_layout data) (\<lambda>l.
       let head = take (fl_lengths l ! 0) (drop (fl_offsets l ! 0) data) in
       if dl_from_bytes dl head \<noteq> rv then Inl SCorrupt else Inr (head, l))"

definition blob_section :: "bytes \<Rightarrow> frame_layout \<Rightarrow> int \<Rightarrow> storage_error + bytes" where
  "blob_section data l index =
     (if index < 0 \<or> index + 1 \<ge> int (length (fl_offsets l)) then Inl SNotFound
      else Inr (take (fl_lengths l ! nat (index + 1)) (drop (fl_offsets l ! nat (index + 1)) data)))"

subsection \<open>Variable-length integers\<close>

lemma put_uvarint_not_Nil [simp]: "put_uvarint v \<noteq> []"
  by (subst put_uvarint.simps) simp

lemma uvarint_loop_put:
  assumes "i < 10" and "v < 2 ^ (64 - 7 * i)"
  shows "uvarint_loop (put_uvarint v @ rest) i x = Some (x + v * 2 ^ (7 * i), i + length (put_uvarint v))"
  using assms
proof (induction v arbitrary: i x rule: put_uvarint.induct)
  case (1 v)
  show ?case
  proof (cases "v \<ge> 128")
    case True
    have i: "i < 9"
    proof (rule ccontr)
      assume "\<not> i < 9"
      with "1.prems" have "v < 2 ^ 1" by (simp add: numeral_eq_Suc less_Suc_eq)
      with True show False by simp
    qed
    have exp: "64 - 7 * i = 7 + (64 - 7 * (i + 1))"
      using i by simp
    have "(2::nat) ^ (64 - 7 * i) = 128 * 2 ^ (64 - 7 * (i + 1))"
      by (subst exp, subst power_add) simp
    then have "v < 128 * 2 ^ (64 - 7 * (i + 1))"
      using "1.prems"(2) by (simp only:)
    then have "v div 128 < 2 ^ (64 - 7 * (i + 1))"
      by (metis less_mult_imp_div_less mult.commute)
    with "1.IH" [OF True, of "i + 1"] i
    have IH: "uvarint_loop (put_uvarint (v div 128) @ rest) (i + 1) y =
        Some (y + v div 128 * 2 ^ (7 * (i + 1)), i + 1 + length (put_uvarint (v div 128)))" for y
      by simp
    have p: "(2::nat) ^ (7 * (i + 1)) = 128 * 2 ^ (7 * i)"
      by (simp add: power_add)
    have "v * 2 ^ (7 * i) = (v mod 128 + 128 * (v div 128)) * 2 ^ (7 * i)"
      by (simp only: mod_mult_div_eq)
    then have "x + v mod 128 * 2 ^ (7 * i) + v div 128 * 2 ^ (7 * (i + 1)) = x + v * 2 ^ (7 * i)"
      by (simp only: p distrib_right mult.assoc mult.left_commute add.assoc)
    then show ?thesis
      using True i IH by (subst put_uvarint.simps, subst (2) put_uvarint.simps) (simp add: max_varint_len64_def)
  next
    case False
    with "1.prems" have "i = 9 \<Longrightarrow> v \<le> 1"
      by simp
    with False "1.prems" show ?thesis
      by (subst put_uvarint.simps, subst (2) put_uvarint.simps) (auto simp: max_varint_len64_def)
  qed
qed

lemma uvarint_put: "v < 2 ^ 64 \<Longrightarrow> uvarint (put_uvarint v @ rest) = Some (v, length (put_uvarint v))"
  by (simp add: uvarint_def uvarint_loop_put)

lemma length_put_uvarint: "v < 128 ^ Suc n \<Longrightarrow> length (put_uvarint v) \<le> Suc n"
proof (induction n arbitrary: v)
  case 0
  then show ?case by (subst put_uvarint.simps) simp
next
  case (Suc n)
  show ?case
  proof (cases "v \<ge> 128")
    case True
    have "v div 128 < 128 ^ Suc n"
      using Suc.prems by (simp add: less_mult_imp_div_less mult.commute)
    with Suc.IH [of "v div 128"] True show ?thesis
      by (subst put_uvarint.simps) simp
  next
    case False
    then show ?thesis by (subst put_uvarint.simps) simp
  qed
qed

lemma uvarint_loop_bound:
  "uvarint_loop bs i x = Some (v, m) \<Longrightarrow> i \<le> max_varint_len64 \<Longrightarrow>
     i < m \<and> m \<le> i + length bs \<and> m \<le> max_varint_len64"
proof (induction bs i x rule: uvarint_loop.induct)
  case (2 b bs i x)
  have i: "i < max_varint_len64"
    using "2.prems" by (cases "i = max_varint_len64") auto
  show ?case
  proof (cases "(of_char b :: nat) < 128")
    case True
    with "2.prems" i show ?thesis by (auto split: if_splits)
  next
    case False
    with "2.prems" i have "uvarint_loop bs (i + 1) (x + (of_char b - 128) * 2 ^ (7 * i)) = Some (v, m)"
      by simp
    with "2.IH" False i have "i + 1 < m \<and> m \<le> i + 1 + length bs \<and> m \<le> max_varint_len64"
      by simp
    then show ?thesis by simp
  qed
qed simp

lemma uvarint_bound: "uvarint bs = Some (v, m) \<Longrightarrow> 0 < m \<and> m \<le> length bs \<and> m \<le> max_varint_len64"
  using uvarint_loop_bound [of bs 0 0 v m] by (simp add: uvarint_def)

subsection \<open>Reading back a frame\<close>

definition part_limit :: "nat \<Rightarrow> nat" where
  "part_limit i = (if i = 0 then max_head_bytes else max_payload_bytes)"

definition frame_header :: "nat list \<Rightarrow> bytes" where
  "frame_header ls = put_uvarint (length ls) @ concat (map put_uvarint ls)"

lemma frame_eq: "frame o1 = frame_header (map length (ob_head o1 # ob_blobs o1)) @ concat (ob_head o1 # ob_blobs o1)"
  by (simp add: frame_def frame_header_def Let_def comp_def)

lemma part_limit_less: "v \<le> part_limit i \<Longrightarrow> v < 2 ^ 64"
  by (simp add: part_limit_def storage_limits split: if_splits)

lemma part_limit_le: "part_limit i \<le> max_payload_bytes"
  by (simp add: part_limit_def storage_limits)

lemma layout_loop_puts:
  assumes "drop pos buf = concat (map put_uvarint ls) @ rest"
    and "\<forall>j<length ls. ls ! j \<le> part_limit (i + j)"
  shows "layout_loop buf (length ls) i pos acc tot =
    Inr (pos + length (concat (map put_uvarint ls)), acc @ ls, tot + sum_list ls)"
  using assms
proof (induction ls arbitrary: i pos acc tot)
  case (Cons l ls)
  have l: "l \<le> part_limit i"
    using Cons.prems(2) by force
  have "uvarint (drop pos buf) = Some (l, length (put_uvarint l))"
    using Cons.prems(1) uvarint_put [OF part_limit_less [OF l]] by simp
  moreover have "drop (pos + length (put_uvarint l)) buf = concat (map put_uvarint ls) @ rest"
  proof -
    have "drop (pos + length (put_uvarint l)) buf = drop (length (put_uvarint l)) (drop pos buf)"
      by (simp add: add.commute)
    also have "\<dots> = concat (map put_uvarint ls) @ rest"
      by (simp only: Cons.prems(1)) simp
    finally show ?thesis .
  qed
  moreover have "\<forall>j<length ls. ls ! j \<le> part_limit (i + 1 + j)"
    using Cons.prems(2) by force
  ultimately show ?case
    using Cons.IH [of "pos + length (put_uvarint l)" "i + 1" "acc @ [l]" "tot + l"] l
    by (simp add: part_limit_def)
qed simp

lemma length_offsets [simp]: "length (offsets_from off ls) = length ls"
  by (induction off ls rule: offsets_from.induct) auto

lemma offsets_nth: "i < length ls \<Longrightarrow> offsets_from off ls ! i = off + sum_list (take i ls)"
proof (induction off ls arbitrary: i rule: offsets_from.induct)
  case (2 off l ls)
  then show ?case by (cases i) auto
qed simp

lemma drop_concat: "drop (sum_list (map length (take i ps))) (concat ps) = concat (drop i ps)"
proof (induction ps arbitrary: i)
  case (Cons p ps)
  then show ?case by (cases i) auto
qed simp

lemma length_frame_header:
  assumes "ls \<noteq> []" and "length ls \<le> 9" and "\<forall>l\<in>set ls. l \<le> max_payload_bytes"
  shows "length (frame_header ls) \<le> 100"
proof -
  have "length (concat (map put_uvarint ls)) = sum_list (map (\<lambda>l. length (put_uvarint l)) ls)"
    by (simp add: length_concat comp_def)
  also have "\<dots> \<le> sum_list (map (\<lambda>l. 10) ls)"
  proof (rule sum_list_mono)
    fix l assume "l \<in> set ls"
    then have "l < 128 ^ Suc 9"
      using assms(3) by (force simp: max_payload_bytes_def)
    then show "length (put_uvarint l) \<le> 10"
      using length_put_uvarint [of l 9] by simp
  qed
  also have "\<dots> \<le> 90"
    using assms(2) by (simp add: sum_list_triv)
  finally have "length (concat (map put_uvarint ls)) \<le> 90" .
  moreover have "length (put_uvarint (length ls)) \<le> 10"
    using length_put_uvarint [of "length ls" 9] assms(2) by simp
  ultimately show ?thesis
    by (simp add: frame_header_def)
qed

lemma read_layout_header:
  assumes "ls \<noteq> []" and "length ls \<le> 9" and "ls ! 0 \<noteq> 0" and "\<forall>j<length ls. ls ! j \<le> part_limit j"
    and "length body = sum_list ls"
  shows "read_layout (frame_header ls @ body) =
    Inr \<lparr>fl_offsets = offsets_from (length (frame_header ls)) ls, fl_lengths = ls\<rparr>"
proof -
  have le: "\<forall>l\<in>set ls. l \<le> max_payload_bytes"
  proof
    fix l assume "l \<in> set ls"
    then obtain j where "j < length ls" "l = ls ! j"
      by (auto simp: in_set_conv_nth)
    with assms(4) have "l \<le> part_limit j" by blast
    also note part_limit_le
    finally show "l \<le> max_payload_bytes" .
  qed
  have hdr: "length (frame_header ls) \<le> 100"
    using assms(1,2) le by (rule length_frame_header)
  obtain rest where buf: "take (min (length (frame_header ls @ body)) ((max_blobs + 2) * max_varint_len64))
      (frame_header ls @ body) = frame_header ls @ rest"
    using hdr by (auto simp: storage_limits min_def)
  have "uvarint (frame_header ls @ rest) = Some (length ls, length (put_uvarint (length ls)))"
    using assms(2) by (simp add: frame_header_def uvarint_put)
  moreover have "layout_loop (frame_header ls @ rest) (length ls) 0 (length (put_uvarint (length ls))) [] 0
      = Inr (length (frame_header ls), ls, sum_list ls)"
    using layout_loop_puts [of "length (put_uvarint (length ls))" "frame_header ls @ rest" ls rest 0 "[]" 0] assms(4)
    by (simp add: frame_header_def)
  ultimately show ?thesis
    unfolding read_layout_def Let_def buf using assms(1,2,3,5)
    by (simp add: storage_limits Suc_le_eq)
qed

lemma validate_object_Inr:
  assumes "validate_object dl o1 = Inr ()"
  shows "validate_ref dl (ob_kind o1) (ob_scope o1) (ob_rv o1) = Inr ()"
    and "dl_from_bytes dl (ob_head o1) = ob_rv o1"
    and "ob_head o1 \<noteq> []" and "length (ob_head o1) \<le> max_head_bytes"
    and "length (ob_blobs o1) \<le> max_blobs"
    and "\<forall>b\<in>set (ob_blobs o1). b \<noteq> [] \<and> length b \<le> max_payload_bytes"
  using assms by (auto simp: validate_object_def res_simps split: if_splits)

lemma frame_layout_of:
  assumes "validate_object dl o1 = Inr ()"
  defines "ps \<equiv> ob_head o1 # ob_blobs o1"
  shows "read_layout (frame o1) =
    Inr \<lparr>fl_offsets = offsets_from (length (frame_header (map length ps))) (map length ps),
         fl_lengths = map length ps\<rparr>"
proof -
  note v = validate_object_Inr [OF assms(1)]
  have "\<forall>j<length (map length ps). map length ps ! j \<le> part_limit j"
    using v by (auto simp: ps_def part_limit_def nth_Cons split: nat.split)
  then show ?thesis
    unfolding frame_eq ps_def
    by (intro read_layout_header) (use v in \<open>auto simp: ps_def length_concat storage_limits\<close>)
qed

lemma frame_part:
  assumes "i < length ps"
  shows "take (map length ps ! i) (drop (offsets_from (length h) (map length ps) ! i) (h @ concat ps)) = ps ! i"
proof -
  have "drop (offsets_from (length h) (map length ps) ! i) (h @ concat ps) = concat (drop i ps)"
    using assms drop_concat [of i ps] by (simp add: offsets_nth take_map)
  also have "\<dots> = ps ! i @ concat (drop (Suc i) ps)"
    using assms by (simp add: Cons_nth_drop_Suc [symmetric])
  finally show ?thesis
    using assms by simp
qed


text \<open>What a sound layout of a stored object is: every part lies inside the bytes, one after another.\<close>

lemma layout_loop_bounds:
  assumes "layout_loop buf n i pos ls tot = Inr (p, ls', tot')" and "pos \<le> length buf"
  shows "pos \<le> p \<and> p \<le> length buf \<and> length ls' = length ls + n \<and> take (length ls) ls' = ls
    \<and> tot' = tot + sum_list (drop (length ls) ls')
    \<and> (\<forall>j<n. ls' ! (length ls + j) \<le> part_limit (i + j))"
  using assms
proof (induction buf n i pos ls tot rule: layout_loop.induct)
  case (2 buf n i pos ls tot)
  obtain v m where u: "uvarint (drop pos buf) = Some (v, m)"
    using "2.prems"(1) by (auto split: option.splits)
  then have v: "v \<le> part_limit i"
    and rec: "layout_loop buf n (i + 1) (pos + m) (ls @ [v]) (tot + v) = Inr (p, ls', tot')"
    using "2.prems"(1) by (auto simp: part_limit_def split: if_splits)
  have pm: "pos + m \<le> length buf"
    using uvarint_bound [OF u] "2.prems"(2) by (simp add: le_diff_conv2 add.commute)
  have "\<not> v > (if i = 0 then max_head_bytes else max_payload_bytes)"
    using v by (simp add: part_limit_def)
  then have IH: "pos + m \<le> p \<and> p \<le> length buf \<and> length ls' = length (ls @ [v]) + n
      \<and> take (length (ls @ [v])) ls' = ls @ [v]
      \<and> tot' = tot + v + sum_list (drop (length (ls @ [v])) ls')
      \<and> (\<forall>j<n. ls' ! (length (ls @ [v]) + j) \<le> part_limit (i + 1 + j))"
    using "2.IH" [OF u refl] rec pm by blast
  then have ls': "ls' = (ls @ [v]) @ drop (Suc (length ls)) ls'"
    by (metis append_take_drop_id length_append_singleton)
  have "ls' ! (length ls + j) \<le> part_limit (i + j)" if "j < Suc n" for j
  proof (cases j)
    case 0
    have "ls' ! length ls = v"
      by (subst ls') (simp add: nth_append)
    with 0 v show ?thesis by simp
  next
    case (Suc k)
    with IH that have "ls' ! (length (ls @ [v]) + k) \<le> part_limit (i + 1 + k)"
      by simp
    with Suc show ?thesis by simp
  qed
  moreover have "take (length ls) ls' = ls"
    by (subst ls') simp
  moreover have "drop (length ls) ls' = v # drop (Suc (length ls)) ls'"
    by (subst ls') simp
  ultimately show ?case
    using IH by simp
qed simp

lemma sum_take_le: "sum_list (take i ls) \<le> sum_list (ls :: nat list)"
proof -
  have "sum_list ls = sum_list (take i ls) + sum_list (drop i ls)"
    by (metis append_take_drop_id sum_list_append)
  then show ?thesis by simp
qed

lemma read_layout_Inr:
  assumes "read_layout data = Inr l"
  obtains pos where "fl_offsets l = offsets_from pos (fl_lengths l)"
    and "pos + sum_list (fl_lengths l) = length data" and "0 < pos"
    and "0 < length (fl_lengths l)" and "length (fl_lengths l) \<le> max_blobs + 1"
    and "fl_lengths l ! 0 \<noteq> 0" and "\<forall>j<length (fl_lengths l). fl_lengths l ! j \<le> part_limit j"
proof -
  define buf where "buf = take (min (length data) ((max_blobs + 2) * max_varint_len64)) data"
  obtain cnt n where u: "uvarint buf = Some (cnt, n)"
    using assms unfolding read_layout_def Let_def buf_def [symmetric] by (auto split: option.splits)
  obtain pos ls tot where cnt: "\<not> (cnt = 0 \<or> cnt > max_blobs + 1)"
    and loop: "layout_loop buf cnt 0 n [] 0 = Inr (pos, ls, tot)"
    and chk: "\<not> (ls ! 0 = 0 \<or> int tot \<noteq> int (length data) - int pos)"
    and l: "l = \<lparr>fl_offsets = offsets_from pos ls, fl_lengths = ls\<rparr>"
    using assms u unfolding read_layout_def Let_def buf_def [symmetric]
    by (auto simp: res_simps split: if_splits)
  have n: "0 < n" "n \<le> length buf"
    using uvarint_bound [OF u] by auto
  have b: "n \<le> pos" "length ls = cnt" "tot = sum_list ls" "\<forall>j<cnt. ls ! j \<le> part_limit j"
    using layout_loop_bounds [OF loop n(2)] by auto
  show thesis
    by (rule that [of pos]) (use l b cnt chk n in auto)
qed

lemma valid_scope_scoped:
  "kind_scoped k \<Longrightarrow> valid_scope k s = Inr () \<longleftrightarrow> length s = 32 \<and> (\<forall>c\<in>set s. c \<in> set hex_chars)"
  by (auto simp: valid_scope_def scope_hex_len_def)

lemma valid_scope_unscoped: "\<not> kind_scoped k \<Longrightarrow> valid_scope k s = Inr () \<longleftrightarrow> s = []"
  by (simp add: valid_scope_def)

lemma validate_ref_Inr:
  "validate_ref dl k s r = Inr () \<longleftrightarrow> kind_letter k \<noteq> None \<and> valid_scope k s = Inr () \<and> valid_digest dl r"
  by (auto simp: validate_ref_def storage_validate_digest_def valid_digest_def res_simps split: option.splits)

lemma obj_name_Inr:
  "obj_name dl k s r = Inr n \<longleftrightarrow>
     validate_ref dl k s r = Inr () \<and> (\<exists>p. name_prefix k s = Inr p \<and> n = p @ dl_encoded dl r)"
  by (auto simp: obj_name_def name_prefix_def res_simps validate_ref_Inr Let_def split: if_splits)

lemma rev_from_name_ref:
  assumes "digest_lib_ok dl" and "valid_digest dl r"
  shows "rev_from_name dl p (p @ dl_encoded dl r) = Some r"
proof -
  have "length (dl_encoded dl r) = 64" "dl_new dl sha256_name (dl_encoded dl r) = r"
    using valid_digest_encoded [OF assms] by (auto simp: is_hex64_def)
  moreover have "dl_validate dl r"
    using assms(2) by (rule valid_digest_validate)
  ultimately show ?thesis
    by (simp add: rev_from_name_def has_prefix_def Let_def)
qed

lemma key_char_hex: "c \<in> set hex_chars \<Longrightarrow> key_char c"
proof -
  have "list_all key_char hex_chars"
    by code_simp
  then show "c \<in> set hex_chars \<Longrightarrow> key_char c"
    by (simp add: list_all_iff)
qed

lemma kind_letter_cases:
  assumes "kind_letter k = Some l"
  shows "l = ''s'' \<and> k = KindState \<or> l = ''c'' \<and> k = KindControl \<or> l = ''r'' \<and> k = KindRequest
    \<or> l = ''k'' \<and> k = KindCompaction"
  using assms by (cases k) auto

lemma name_prefix_Inr:
  "name_prefix k s = Inr p \<longleftrightarrow>
     (\<exists>l. kind_letter k = Some l \<and> valid_scope k s = Inr ()
       \<and> p = (if kind_scoped k then l @ ''-'' @ s @ ''-'' else l @ ''-''))"
  by (auto simp: name_prefix_def res_simps split: option.splits)

lemma name_prefix_inject:
  assumes "name_prefix k s = Inr p" and "name_prefix k' s' = Inr p'" and "p @ e = p' @ e'"
  shows "k = k' \<and> s = s' \<and> e = e'"
proof -
  obtain l where l: "kind_letter k = Some l" "valid_scope k s = Inr ()"
    "p = (if kind_scoped k then l @ ''-'' @ s @ ''-'' else l @ ''-'')"
    using assms(1) by (auto simp: name_prefix_Inr)
  obtain l' where l': "kind_letter k' = Some l'" "valid_scope k' s' = Inr ()"
    "p' = (if kind_scoped k' then l' @ ''-'' @ s' @ ''-'' else l' @ ''-'')"
    using assms(2) by (auto simp: name_prefix_Inr)
  have "hd (p @ e) = hd (p' @ e')"
    using assms(3) by (rule arg_cong)
  then have "k = k'"
    using kind_letter_cases [OF l(1)] kind_letter_cases [OF l'(1)] l(3) l'(3) by auto
  then have "l = l'"
    using l(1) l'(1) by simp
  show ?thesis
  proof (cases "kind_scoped k")
    case True
    then have "length s = length s'"
      using l(2) l'(2) \<open>k = k'\<close> by (simp add: valid_scope_scoped)
    then show ?thesis
      using assms(3) l(3) l'(3) True \<open>k = k'\<close> \<open>l = l'\<close> by simp
  next
    case False
    then show ?thesis
      using assms(3) l(2,3) l'(2,3) \<open>k = k'\<close> \<open>l = l'\<close> by (simp add: valid_scope_unscoped)
  qed
qed

lemma obj_name_key:
  assumes "digest_lib_ok dl" and "obj_name dl k s r = Inr n"
  shows "validate_key n"
proof -
  obtain l where v: "valid_digest dl r" and l: "kind_letter k = Some l" "valid_scope k s = Inr ()"
    and n: "n = (if kind_scoped k then l @ ''-'' @ s @ ''-'' else l @ ''-'') @ dl_encoded dl r"
    using assms(2) by (auto simp: obj_name_Inr name_prefix_Inr validate_ref_Inr)
  have e: "length (dl_encoded dl r) = 64" "\<forall>c\<in>set (dl_encoded dl r). key_char c"
    using valid_digest_encoded [OF assms(1) v] key_char_hex by (auto simp: is_hex64_def)
  have sc: "kind_scoped k \<Longrightarrow> length s = 32 \<and> (\<forall>c\<in>set s. key_char c)"
    using l(2) key_char_hex by (auto simp: valid_scope_scoped)
  have lt: "length l = 1" "\<forall>c\<in>set l. key_char c"
    using kind_letter_cases [OF l(1)] by (auto simp: key_char_def)
  have len: "64 < length n" "length n \<le> 128"
    using n e(1) sc lt(1) by (auto split: if_splits)
  have "key_char CHR ''-''"
    by (simp add: key_char_def)
  then have "\<forall>c\<in>set n. key_char c"
    using n e(2) sc lt(2) by (auto split: if_splits)
  then show ?thesis
    using len by (auto simp: validate_key_def)
qed

subsection \<open>Decimal length prefixes\<close>

lemma show_nat_digits: "c \<in> set (show_nat n) \<Longrightarrow> c \<in> set ''0123456789''"
proof (induction n rule: show_nat.induct)
  case (1 n)
  have dig: "char_of (48 + d) \<in> set ''0123456789''" if "d < 10" for d :: nat
  proof -
    have "list_all (\<lambda>d. char_of (48 + d) \<in> set ''0123456789'') [0..<10::nat]"
      by code_simp
    with that show ?thesis by (simp add: list_all_iff)
  qed
  show ?case
  proof (cases "n < 10")
    case True
    with "1.prems" dig [OF True] show ?thesis by (subst (asm) show_nat.simps) simp
  next
    case False
    with "1.prems" have "c \<in> set (show_nat (n div 10)) \<or> c = char_of (48 + n mod 10)"
      by (subst (asm) show_nat.simps) auto
    with "1.IH" [OF False] dig [of "n mod 10"] show ?thesis by auto
  qed
qed

lemma show_nat_colon: "CHR '':'' \<notin> set (show_nat n)"
  using show_nat_digits [of "CHR '':''" n] by auto

lemma length_field_inject:
  assumes "show_nat (length a) @ '':'' @ a @ x = show_nat (length b) @ '':'' @ b @ y"
  shows "show_nat (length a) = show_nat (length b) \<and> a @ x = b @ y"
proof -
  have "takeWhile (\<lambda>c. c \<noteq> CHR '':'') (show_nat n @ '':'' @ z) = show_nat n" for n z
    using show_nat_colon [of n] by (subst takeWhile_append2) auto
  then have "show_nat (length a) = show_nat (length b)"
    using assms(1) by metis
  with assms(1) show ?thesis by simp
qed

lemma show_nat_inject: "show_nat m = show_nat n \<Longrightarrow> m = n"
proof (induction m arbitrary: n rule: show_nat.induct)
  case (1 m)
  have ne: "show_nat k \<noteq> []" "[] \<noteq> show_nat k" for k
    by (subst show_nat.simps, simp)+
  have last: "last (show_nat k) = char_of (48 + k mod 10)" for k
    by (subst show_nat.simps) auto
  have "char_of (48 + m mod 10) = (char_of (48 + n mod 10) :: char)"
    using "1.prems" last by metis
  then have "(of_char (char_of (48 + m mod 10) :: char) :: nat) = of_char (char_of (48 + n mod 10) :: char)"
    by simp
  then have mod: "m mod 10 = n mod 10"
    by (simp add: of_char_mod_256 take_bit_eq_mod)
  have bl: "butlast (show_nat k) = (if k < 10 then [] else show_nat (k div 10))" for k
    by (subst show_nat.simps) auto
  have eq: "(if m < 10 then [] else show_nat (m div 10)) = (if n < 10 then [] else show_nat (n div 10))"
    using "1.prems" bl by metis
  show ?case
  proof (cases "m < 10")
    case True
    with eq ne have "n < 10" by (auto split: if_splits)
    with True mod show ?thesis by simp
  next
    case False
    with eq ne have "\<not> n < 10" "show_nat (m div 10) = show_nat (n div 10)" by (auto split: if_splits)
    with "1.IH" [OF False] have "m div 10 = n div 10" by blast
    with mod show ?thesis by (metis div_mult_mod_eq)
  qed
qed


lemma scope_preimage_split:
  "scope_preimage w r = scope_preimage w' r' \<longleftrightarrow> w = w' \<and> r = r'"
proof
  assume eq: "scope_preimage w r = scope_preimage w' r'"
  then have f: "show_nat (length w) = show_nat (length w')"
    "w @ show_nat (length r) @ '':'' @ r = w' @ show_nat (length r') @ '':'' @ r'"
    using length_field_inject [of w "show_nat (length r) @ '':'' @ r" w' "show_nat (length r') @ '':'' @ r'"]
    by (simp_all add: scope_preimage_def)
  have "length w = length w'"
    using f(1) by (rule show_nat_inject)
  with f(2) have "w = w'" "show_nat (length r) @ '':'' @ r = show_nat (length r') @ '':'' @ r'"
    by auto
  then show "w = w' \<and> r = r'"
    using length_field_inject [of r "[]" r' "[]"] by simp
qed simp

subsection \<open>What a stored file holds\<close>

text \<open>The head and the blobs of a stored object, as \<open>FetchHead\<close> and \<open>OpenBlob\<close> read them.\<close>

definition parse_frame :: "digest_lib \<Rightarrow> bytes \<Rightarrow> digest \<Rightarrow> (bytes \<times> bytes list) option" where
  "parse_frame dl data rv =
     (case read_head dl data rv of
        Inl e \<Rightarrow> None
      | Inr (head, l) \<Rightarrow>
          Some (head, map (\<lambda>i. take (fl_lengths l ! Suc i) (drop (fl_offsets l ! Suc i) data))
                          [0..<length (fl_offsets l) - 1]))"

lemma read_head_frame:
  assumes "validate_object dl obj = Inr ()"
  shows "\<exists>l. read_head dl (frame obj) (ob_rv obj) = Inr (ob_head obj, l)
     \<and> parse_frame dl (frame obj) (ob_rv obj) = Some (ob_head obj, ob_blobs obj)"
proof -
  define ps where "ps = ob_head obj # ob_blobs obj"
  define h where "h = frame_header (map length ps)"
  define l where "l = \<lparr>fl_offsets = offsets_from (length h) (map length ps), fl_lengths = map length ps\<rparr>"
  have fr: "frame obj = h @ concat ps"
    by (simp only: frame_eq ps_def h_def)
  have lay: "read_layout (frame obj) = Inr l"
    using frame_layout_of [OF assms] by (simp only: l_def h_def ps_def)
  have part: "take (fl_lengths l ! i) (drop (fl_offsets l ! i) (frame obj)) = ps ! i" if "i < length ps" for i
    unfolding fr l_def using frame_part [OF that, of h] by simp
  have rh: "read_head dl (frame obj) (ob_rv obj) = Inr (ob_head obj, l)"
    using part [of 0] validate_object_Inr(2) [OF assms] by (simp add: read_head_def lay Let_def ps_def)
  have "map (\<lambda>i. take (fl_lengths l ! Suc i) (drop (fl_offsets l ! Suc i) (frame obj)))
      [0..<length (fl_offsets l) - 1] = map (\<lambda>i. ps ! Suc i) [0..<length (ob_blobs obj)]"
  proof (intro map_cong)
    show "[0..<length (fl_offsets l) - 1] = [0..<length (ob_blobs obj)]"
      by (simp add: l_def ps_def)
    fix i assume "i \<in> set [0..<length (ob_blobs obj)]"
    then have "Suc i < length ps"
      by (simp add: ps_def)
    then show "take (fl_lengths l ! Suc i) (drop (fl_offsets l ! Suc i) (frame obj)) = ps ! Suc i"
      by (rule part)
  qed
  also have "\<dots> = ob_blobs obj"
    by (simp add: ps_def map_nth)
  finally show ?thesis
    by (simp add: parse_frame_def rh)
qed

lemma read_head_parse: "read_head dl data rv = Inr (h, l) \<Longrightarrow>
    \<exists>bs. parse_frame dl data rv = Some (h, bs) \<and>
      (\<forall>i. blob_section data l i =
        (if 0 \<le> i \<and> i < int (length bs) then Inr (bs ! nat i) else Inl SNotFound))"
  by (auto simp: parse_frame_def blob_section_def nat_add_distrib)

lemma read_head_rv: "read_head dl data rv = Inr (h, l) \<Longrightarrow> dl_from_bytes dl h = rv"
  by (auto simp: read_head_def Let_def res_simps split: if_splits)

subsection \<open>Properties\<close>

definition sample_object :: object where
  "sample_object = \<lparr>ob_kind = KindRequest, ob_scope = [],
     ob_rv = dl_from_bytes sample_digest_lib ''head'', ob_head = ''head'', ob_blobs = [''ab'', ''c'']\<rparr>"

lemma sample_object_valid: "validate_object sample_digest_lib sample_object = Inr ()"
  using valid_digest_from_bytes [OF sample_digest_lib_ok]
  by (simp add: validate_object_def validate_ref_Inr sample_object_def valid_scope_def storage_limits)

lemma sample_object_layout:
  "read_layout (frame sample_object) = Inr \<lparr>fl_offsets = [4, 8, 10], fl_lengths = [4, 2, 1]\<rparr>"
  using frame_layout_of [OF sample_object_valid]
  by (simp add: sample_object_def frame_header_def put_uvarint.simps)

text \<open>
  A stored object reads back as it was written.  For every object that \<open>ValidateObject\<close>
  accepts, \<open>readHead\<close> on the bytes of \<open>frame\<close>, asked for the object's own revision, succeeds and
  returns the head, and \<open>blobSection\<close> on the layout it returns gives exactly the blobs, in
  order, and \<open>ErrNotFound\<close> for every index below zero or past the last blob.
\<close>

theorem frame_roundtrip:
  assumes "validate_object dl obj = Inr ()"
  shows "\<exists>l. read_head dl (frame obj) (ob_rv obj) = Inr (ob_head obj, l) \<and>
    (\<forall>i. blob_section (frame obj) l i =
       (if 0 \<le> i \<and> i < int (length (ob_blobs obj)) then Inr (ob_blobs obj ! nat i) else Inl SNotFound))"
proof -
  obtain l where rh: "read_head dl (frame obj) (ob_rv obj) = Inr (ob_head obj, l)"
    and p: "parse_frame dl (frame obj) (ob_rv obj) = Some (ob_head obj, ob_blobs obj)"
    using read_head_frame [OF assms] by blast
  with read_head_parse [OF rh] show ?thesis by auto
qed

theorem frame_roundtrip_witness:
  "\<exists>l. read_head sample_digest_lib (frame sample_object) (ob_rv sample_object) = Inr (''head'', l)
     \<and> blob_section (frame sample_object) l 1 = Inr ''c''"
  using frame_roundtrip [OF sample_object_valid] by (force simp: sample_object_def)

text \<open>
  A hostile backend cannot make the reader leave the object.  Whatever bytes a backend
  returns, when \<open>readLayout\<close> accepts them there are between one and nine parts, the head has
  between 1 byte and \<open>MaxHeadBytes\<close>, a blob at most \<open>MaxPayloadBytes\<close>, every part starts after the
  lengths, each part starts where the one before it ends, and the last part ends with the object.
\<close>

theorem read_layout_bounds:
  assumes "read_layout data = Inr l"
  defines "n \<equiv> length (fl_lengths l)"
  shows "(1 \<le> n)
    \<and> (n \<le> max_blobs + 1)
    \<and> (length (fl_offsets l) = n)
    \<and> (1 \<le> fl_lengths l ! 0)
    \<and> (fl_lengths l ! 0 \<le> max_head_bytes)
    \<and> (\<forall>i<n. fl_lengths l ! i \<le> max_payload_bytes)
    \<and> (0 < fl_offsets l ! 0)
    \<and> (\<forall>i. i + 1 < n \<longrightarrow> fl_offsets l ! (i + 1) = fl_offsets l ! i + fl_lengths l ! i)
    \<and> (fl_offsets l ! (n - 1) + fl_lengths l ! (n - 1) = length data)"
proof (intro conjI)
  obtain pos where p: "fl_offsets l = offsets_from pos (fl_lengths l)"
    "pos + sum_list (fl_lengths l) = length data" "0 < pos" "0 < n" "n \<le> max_blobs + 1"
    "fl_lengths l ! 0 \<noteq> 0" "\<forall>j<n. fl_lengths l ! j \<le> part_limit j"
    using assms(1) unfolding n_def by (rule read_layout_Inr)
  show "1 \<le> n" "n \<le> max_blobs + 1" "length (fl_offsets l) = n" "1 \<le> fl_lengths l ! 0" "0 < fl_offsets l ! 0"
    using p(3-6) by (simp_all add: p(1) n_def offsets_nth Suc_le_eq)
  show "fl_lengths l ! 0 \<le> max_head_bytes"
    using p(4,7) by (force simp: part_limit_def)
  show "\<forall>i<n. fl_lengths l ! i \<le> max_payload_bytes"
    using p(7) part_limit_le order_trans by blast
  show "\<forall>i. i + 1 < n \<longrightarrow> fl_offsets l ! (i + 1) = fl_offsets l ! i + fl_lengths l ! i"
    unfolding p(1) n_def by (auto simp: offsets_nth take_Suc_conv_app_nth)
  have "sum_list (fl_lengths l) = sum_list (take (Suc (n - 1)) (fl_lengths l))"
    using p(4) by (simp add: n_def)
  also have "\<dots> = sum_list (take (n - 1) (fl_lengths l)) + fl_lengths l ! (n - 1)"
    using p(4) by (subst take_Suc_conv_app_nth) (auto simp: n_def)
  finally show "fl_offsets l ! (n - 1) + fl_lengths l ! (n - 1) = length data"
    using p(2,4) unfolding p(1) by (simp add: offsets_nth n_def)
qed

theorem read_layout_bounds_witness:
  "read_layout (frame sample_object) = Inr \<lparr>fl_offsets = [4, 8, 10], fl_lengths = [4, 2, 1]\<rparr>
     \<and> (10::nat) + 1 = length (frame sample_object)"
  using read_layout_bounds [OF sample_object_layout] sample_object_layout by simp

text \<open>
  The bytes hashed into a state scope determine the workspace and the resource: two
  different pairs never hash the same text, so a scope collision is a collision of SHA-256.
\<close>

theorem scope_preimage_injective:
  "scope_preimage w r = scope_preimage w' r' \<longleftrightarrow> w = w' \<and> r = r'"
  by (rule scope_preimage_split)

text \<open>
  The name of a stored revision says what it is.  When \<open>Name\<close> succeeds, the name is a legal
  storage key, \<open>revFromName\<close> with the prefix of the same kind and scope gives back the revision,
  \<open>scopeFromName\<close> gives back the scope of a state revision, and no other kind, scope or revision
  has that name, nor is it listed under another prefix.
\<close>

theorem obj_name_roundtrip:
  assumes "digest_lib_ok dl" and "obj_name dl k s r = Inr n"
  shows "(validate_key n)
    \<and> (\<exists>p. name_prefix k s = Inr p \<and> rev_from_name dl p n = Some r)
    \<and> (k = KindState \<longrightarrow> scope_from_name dl n = Some s)
    \<and> (\<forall>k' s' r'. obj_name dl k' s' r' = Inr n \<longrightarrow> k' = k \<and> s' = s \<and> r' = r)"
proof (intro conjI)
  obtain p where p: "name_prefix k s = Inr p" "n = p @ dl_encoded dl r"
    and v: "kind_letter k \<noteq> None" "valid_scope k s = Inr ()" "valid_digest dl r"
    using assms(2) by (auto simp: obj_name_Inr validate_ref_Inr)
  show "validate_key n"
    using assms by (rule obj_name_key)
  have rev: "rev_from_name dl p n = Some r"
    unfolding p(2) using assms(1) v(3) by (rule rev_from_name_ref)
  with p(1) show "\<exists>p. name_prefix k s = Inr p \<and> rev_from_name dl p n = Some r" by blast
  show "k = KindState \<longrightarrow> scope_from_name dl n = Some s"
  proof
    assume k: "k = KindState"
    then have pk: "p = ''s-'' @ s @ ''-''" and ls: "length s = 32"
      using p(1) v(2) by (auto simp: name_prefix_Inr valid_scope_scoped)
    have "scope_from_name dl n = map_option (\<lambda>_. s) (rev_from_name dl p n)"
      using k ls v(2) unfolding p(2) pk
      by (simp add: scope_from_name_def has_prefix_def scope_hex_len_def nth_append Let_def split: option.split)
    with rev show "scope_from_name dl n = Some s" by simp
  qed
  show "\<forall>k' s' r'. obj_name dl k' s' r' = Inr n \<longrightarrow> k' = k \<and> s' = s \<and> r' = r"
  proof (intro allI impI)
    fix k' s' r' assume "obj_name dl k' s' r' = Inr n"
    then obtain p' where p': "name_prefix k' s' = Inr p'" "n = p' @ dl_encoded dl r'" "valid_digest dl r'"
      by (auto simp: obj_name_Inr validate_ref_Inr)
    then have "k' = k \<and> s' = s \<and> dl_encoded dl r' = dl_encoded dl r"
      using name_prefix_inject [OF p'(1) p(1), of "dl_encoded dl r'" "dl_encoded dl r"] p(2) by metis
    then show "k' = k \<and> s' = s \<and> r' = r"
      using valid_digest_encoded [OF assms(1) v(3)] valid_digest_encoded [OF assms(1) p'(3)] by metis
  qed
qed

theorem obj_name_roundtrip_witness:
  "\<exists>n. obj_name sample_digest_lib KindState (replicate 32 (CHR ''a'')) (ob_rv sample_object) = Inr n
     \<and> scope_from_name sample_digest_lib n = Some (replicate 32 (CHR ''a''))"
proof -
  have "is_ok (obj_name sample_digest_lib KindState (replicate 32 (CHR ''a'')) (ob_rv sample_object))"
    by code_simp
  then obtain n where "obj_name sample_digest_lib KindState (replicate 32 (CHR ''a'')) (ob_rv sample_object) = Inr n"
    by (auto simp: is_ok_iff)
  with obj_name_roundtrip [OF sample_digest_lib_ok this] show ?thesis by blast
qed

end
