(* ===== verification/Storage.thy ===== *)
theory Storage
  imports Storage_Format
begin

text \<open>
  The \<open>Store\<close> interface and its local implementation: \<open>pkg/storage/storage.go\<close> (the interface
  and \<open>ReadBlob\<close>), \<open>pkg/storage/local.go\<close> and \<open>pkg/storage/cache.go\<close>.

  A store is a record of operations on a state \<open>'s\<close>; a reader of a blob is the bytes it would
  give.  The local store's state is the content of \<open>dir/revisions\<close>, together with the faults
  the environment can show: a cancelled context, a root directory that does not open, and a
  directory sync that fails after the rename.  The locale \<open>store_contract\<close> states what the
  interface's comments promise; the local store and the head cache over it satisfy it.
\<close>

record 's store_ops =
  so_publish :: "object \<Rightarrow> 's \<Rightarrow> 's \<times> (storage_error + unit)"
  so_fetch_head :: "kind \<Rightarrow> string \<Rightarrow> digest \<Rightarrow> 's \<Rightarrow> 's \<times> (storage_error + bytes)"
  so_open_blob :: "kind \<Rightarrow> string \<Rightarrow> digest \<Rightarrow> int \<Rightarrow> 's \<Rightarrow> 's \<times> (storage_error + bytes)"
  so_discover :: "kind \<Rightarrow> string \<Rightarrow> 's \<Rightarrow> 's \<times> (storage_error + digest list)"
  so_scopes :: "'s \<Rightarrow> 's \<times> (storage_error + string list)"
  so_delete :: "kind \<Rightarrow> string \<Rightarrow> digest \<Rightarrow> 's \<Rightarrow> 's \<times> (storage_error + unit)"
  so_capabilities :: bool

definition read_blob ::
  "'s store_ops \<Rightarrow> kind \<Rightarrow> string \<Rightarrow> digest \<Rightarrow> int \<Rightarrow> nat \<Rightarrow> 's \<Rightarrow> 's \<times> (storage_error + bytes)" where
  "read_blob ops k sc rv index limit s =
     (case so_open_blob ops k sc rv index s of
        (s', Inl e) \<Rightarrow> (s', Inl e)
      | (s', Inr rc) \<Rightarrow>
          let data = take (limit + 1) rc
          in (s', if length data > limit then Inl STooLarge else Inr data))"

subsection \<open>The local store\<close>

datatype local_entry = Regular bytes | Irregular

record local_dir =
  ld_files :: "(string, local_entry) gomap"
  ld_cancelled :: bool
  ld_open_error :: bool
  ld_sync_error :: bool

definition read_local :: "local_dir \<Rightarrow> string \<Rightarrow> storage_error + bytes" where
  "read_local d name =
     (case gm_get (ld_files d) name of
        None \<Rightarrow> Inl SNotFound
      | Some Irregular \<Rightarrow> Inl SBackend
      | Some (Regular data) \<Rightarrow>
          let data = take (max_frame_bytes + 1) data
          in if length data > max_frame_bytes then Inl STooLarge else Inr data)"

text \<open>\<open>openLocal\<close> gives the open file, here its bytes, and its size.\<close>

definition open_local :: "local_dir \<Rightarrow> string \<Rightarrow> storage_error + bytes \<times> nat" where
  "open_local d name =
     (case gm_get (ld_files d) name of
        None \<Rightarrow> Inl SNotFound
      | Some Irregular \<Rightarrow> Inl SBackend
      | Some (Regular data) \<Rightarrow>
          if length data > max_frame_bytes then Inl STooLarge else Inr (data, length data))"

definition commit_local_file :: "string \<Rightarrow> bytes \<Rightarrow> local_dir \<Rightarrow> local_dir \<times> (storage_error + unit)" where
  "commit_local_file name data d =
     (let d' = d\<lparr>ld_files := gm_put name (Regular data) (ld_files d)\<rparr>
      in (d', if ld_sync_error d then Inl SBackend else Inr ()))"

definition local_publish :: "digest_lib \<Rightarrow> object \<Rightarrow> local_dir \<Rightarrow> local_dir \<times> (storage_error + unit)" where
  "local_publish dl obj d =
     (case validate_object dl obj of
        Inl e \<Rightarrow> (d, Inl e)
      | Inr _ \<Rightarrow>
      case obj_name dl (ob_kind obj) (ob_scope obj) (ob_rv obj) of
        Inl e \<Rightarrow> (d, Inl e)
      | Inr name \<Rightarrow>
          let data = frame obj in
          if ld_open_error d then (d, Inl SBackend)
          else case read_local d name of
            Inr existing \<Rightarrow> (d, if existing = data then Inr () else Inl SCorrupt)
          | Inl e \<Rightarrow>
              if e \<noteq> SNotFound then (d, Inl e)
              else if ld_cancelled d then (d, Inl SBackend)
              else case commit_local_file name data d of
                (d', Inl e) \<Rightarrow> (d', Inl e)
              | (d', Inr _) \<Rightarrow>
                  (d', res_bind (open_local d' name) (\<lambda>(f, size).
                         if size \<noteq> length data then Inl SCorrupt
                         else res_bind (read_head dl f (ob_rv obj)) (\<lambda>_. Inr ()))))"

definition local_fetch_head ::
  "digest_lib \<Rightarrow> kind \<Rightarrow> string \<Rightarrow> digest \<Rightarrow> local_dir \<Rightarrow> local_dir \<times> (storage_error + bytes)" where
  "local_fetch_head dl k sc rv d =
     (d, if ld_cancelled d then Inl SBackend
         else res_bind (obj_name dl k sc rv) (\<lambda>name.
           if ld_open_error d then Inl SBackend
           else res_bind (open_local d name) (\<lambda>(f, size).
             res_bind (read_head dl f rv) (\<lambda>(head, _). Inr head))))"

definition local_open_blob ::
  "digest_lib \<Rightarrow> kind \<Rightarrow> string \<Rightarrow> digest \<Rightarrow> int \<Rightarrow> local_dir \<Rightarrow> local_dir \<times> (storage_error + bytes)" where
  "local_open_blob dl k sc rv index d =
     (d, if ld_cancelled d then Inl SBackend
         else res_bind (obj_name dl k sc rv) (\<lambda>name.
           if ld_open_error d then Inl SBackend
           else res_bind (open_local d name) (\<lambda>(f, size).
             res_bind (read_head dl f rv) (\<lambda>(_, layout). blob_section f layout index))))"

fun discover_loop ::
  "digest_lib \<Rightarrow> kind \<Rightarrow> string \<Rightarrow> string list \<Rightarrow> digest list \<Rightarrow> storage_error + digest list" where
  "discover_loop dl k prefix [] revs = Inr revs"
| "discover_loop dl k prefix (n # ns) revs =
     (case rev_from_name dl prefix n of
        None \<Rightarrow> discover_loop dl k prefix ns revs
      | Some r \<Rightarrow>
          (if k = KindRequest \<and> length (revs @ [r]) > max_request_refs then Inl SDiscoveryLimit
           else discover_loop dl k prefix ns (revs @ [r])))"

definition local_discover ::
  "digest_lib \<Rightarrow> kind \<Rightarrow> string \<Rightarrow> local_dir \<Rightarrow> local_dir \<times> (storage_error + digest list)" where
  "local_discover dl k sc d =
     (d, res_bind (name_prefix k sc) (\<lambda>prefix.
           if ld_open_error d then Inl SBackend
           else if ld_cancelled d then Inl SBackend
           else res_bind (discover_loop dl k prefix (map fst (ld_files d)) []) (\<lambda>revs. Inr (sort revs))))"

definition local_scopes :: "digest_lib \<Rightarrow> local_dir \<Rightarrow> local_dir \<times> (storage_error + string list)" where
  "local_scopes dl d =
     (d, if ld_open_error d then Inl SBackend
         else if ld_cancelled d then Inl SBackend
         else Inr (sorted_scopes dl (map fst (ld_files d))))"

definition local_delete ::
  "digest_lib \<Rightarrow> kind \<Rightarrow> string \<Rightarrow> digest \<Rightarrow> local_dir \<Rightarrow> local_dir \<times> (storage_error + unit)" where
  "local_delete dl k sc rv d =
     (case obj_name dl k sc rv of
        Inl e \<Rightarrow> (d, Inl e)
      | Inr name \<Rightarrow>
          if ld_cancelled d then (d, Inl SBackend)
          else if ld_open_error d then (d, Inl SBackend)
          else if gm_has (ld_files d) name then (d\<lparr>ld_files := gm_del name (ld_files d)\<rparr>, Inr ())
          else (d, Inl SNotFound))"

definition local_ops :: "digest_lib \<Rightarrow> local_dir store_ops" where
  "local_ops dl = \<lparr>
     so_publish = local_publish dl, so_fetch_head = local_fetch_head dl,
     so_open_blob = local_open_blob dl, so_discover = local_discover dl,
     so_scopes = local_scopes dl, so_delete = local_delete dl, so_capabilities = True\<rparr>"

subsection \<open>The head cache\<close>

text \<open>\<open>hc_writable\<close> is false while the cache directory cannot be written.\<close>

record 's head_cache =
  hc_store :: 's
  hc_files :: "(string, bytes) gomap"
  hc_listed :: "(kind \<times> string, digest list) gomap"
  hc_writable :: bool

definition hc_path :: "digest_lib \<Rightarrow> digest \<Rightarrow> string" where
  "hc_path dl rv = dl_encoded dl rv"

definition hc_read :: "digest_lib \<Rightarrow> digest \<Rightarrow> 's head_cache \<Rightarrow> 's head_cache \<times> bytes option" where
  "hc_read dl rv c =
     (case gm_get (hc_files c) (hc_path dl rv) of
        None \<Rightarrow> (c, None)
      | Some content \<Rightarrow>
          let head = take (max_head_bytes + 1) content in
          if head = [] \<or> length head > max_head_bytes \<or> dl_from_bytes dl head \<noteq> rv
          then (c\<lparr>hc_files := gm_del (hc_path dl rv) (hc_files c)\<rparr>, None)
          else (c, Some head))"

definition hc_write :: "digest_lib \<Rightarrow> digest \<Rightarrow> bytes \<Rightarrow> 's head_cache \<Rightarrow> 's head_cache" where
  "hc_write dl rv head c =
     (if dl_from_bytes dl head \<noteq> rv then c
      else if gm_has (hc_files c) (hc_path dl rv) then c
      else if \<not> hc_writable c then c
      else c\<lparr>hc_files := gm_put (hc_path dl rv) head (hc_files c)\<rparr>)"

definition was_listed :: "kind \<Rightarrow> string \<Rightarrow> digest \<Rightarrow> 's head_cache \<Rightarrow> bool" where
  "was_listed k sc rv c =
     (case gm_get (hc_listed c) (k, sc) of None \<Rightarrow> False | Some set1 \<Rightarrow> rv \<in> set set1)"

definition hc_discover ::
  "'s store_ops \<Rightarrow> kind \<Rightarrow> string \<Rightarrow> 's head_cache \<Rightarrow> 's head_cache \<times> (storage_error + digest list)" where
  "hc_discover ops k sc c =
     (case so_discover ops k sc (hc_store c) of
        (s', Inl e) \<Rightarrow> (c\<lparr>hc_store := s'\<rparr>, Inl e)
      | (s', Inr revs) \<Rightarrow>
          (c\<lparr>hc_store := s', hc_listed := gm_put (k, sc) revs (hc_listed c)\<rparr>, Inr revs))"

definition hc_fetch_backend ::
  "digest_lib \<Rightarrow> 's store_ops \<Rightarrow> kind \<Rightarrow> string \<Rightarrow> digest \<Rightarrow> 's head_cache \<Rightarrow> 's head_cache \<times> (storage_error + bytes)" where
  "hc_fetch_backend dl ops k sc rv c =
     (case so_fetch_head ops k sc rv (hc_store c) of
        (s', Inl e) \<Rightarrow> (c\<lparr>hc_store := s'\<rparr>, Inl e)
      | (s', Inr head) \<Rightarrow> (hc_write dl rv head (c\<lparr>hc_store := s'\<rparr>), Inr head))"

definition hc_fetch_head ::
  "digest_lib \<Rightarrow> 's store_ops \<Rightarrow> kind \<Rightarrow> string \<Rightarrow> digest \<Rightarrow> 's head_cache \<Rightarrow> 's head_cache \<times> (storage_error + bytes)" where
  "hc_fetch_head dl ops k sc rv c =
     (case validate_ref dl k sc rv of
        Inl e \<Rightarrow> (c, Inl e)
      | Inr _ \<Rightarrow>
          if was_listed k sc rv c then
            (case hc_read dl rv c of
               (c', Some head) \<Rightarrow> (c', Inr head)
             | (c', None) \<Rightarrow> hc_fetch_backend dl ops k sc rv c')
          else hc_fetch_backend dl ops k sc rv c)"

definition hc_publish ::
  "digest_lib \<Rightarrow> 's store_ops \<Rightarrow> object \<Rightarrow> 's head_cache \<Rightarrow> 's head_cache \<times> (storage_error + unit)" where
  "hc_publish dl ops obj c =
     (case so_publish ops obj (hc_store c) of
        (s', Inl e) \<Rightarrow> (c\<lparr>hc_store := s'\<rparr>, Inl e)
      | (s', Inr _) \<Rightarrow> (hc_write dl (ob_rv obj) (ob_head obj) (c\<lparr>hc_store := s'\<rparr>), Inr ()))"

definition hc_delete ::
  "digest_lib \<Rightarrow> 's store_ops \<Rightarrow> kind \<Rightarrow> string \<Rightarrow> digest \<Rightarrow> 's head_cache \<Rightarrow> 's head_cache \<times> (storage_error + unit)" where
  "hc_delete dl ops k sc rv c =
     (case so_delete ops k sc rv (hc_store c) of
        (s', r) \<Rightarrow>
          let c' = c\<lparr>hc_store := s'\<rparr> in
          if r = Inr () \<or> r = Inl SNotFound then
            (c'\<lparr>hc_files := gm_del (hc_path dl rv) (hc_files c'),
               hc_listed := (case gm_get (hc_listed c') (k, sc) of
                               None \<Rightarrow> hc_listed c'
                             | Some set1 \<Rightarrow> gm_put (k, sc) (filter (\<lambda>x. x \<noteq> rv) set1) (hc_listed c'))\<rparr>, r)
          else (c', r))"

text \<open>\<open>OpenBlob\<close>, \<open>Scopes\<close> and \<open>Capabilities\<close> are those of the embedded store.\<close>

definition with_head_cache :: "digest_lib \<Rightarrow> 's store_ops \<Rightarrow> 's head_cache store_ops" where
  "with_head_cache dl ops = \<lparr>
     so_publish = hc_publish dl ops, so_fetch_head = hc_fetch_head dl ops,
     so_open_blob = (\<lambda>k sc rv i c.
       case so_open_blob ops k sc rv i (hc_store c) of (s', r) \<Rightarrow> (c\<lparr>hc_store := s'\<rparr>, r)),
     so_discover = hc_discover ops,
     so_scopes = (\<lambda>c. case so_scopes ops (hc_store c) of (s', r) \<Rightarrow> (c\<lparr>hc_store := s'\<rparr>, r)),
     so_delete = hc_delete dl ops,
     so_capabilities = so_capabilities ops\<rparr>"

subsection \<open>The size of a frame\<close>

lemma length_frame:
  assumes "validate_object dl obj = Inr ()"
  shows "length (frame obj) \<le> max_frame_bytes"
proof -
  have v: "length (ob_head obj) \<le> max_head_bytes" "length (ob_blobs obj) \<le> max_blobs"
    "\<forall>b\<in>set (ob_blobs obj). length b \<le> max_payload_bytes"
    using validate_object_Inr [OF assms] by auto
  have "length (concat (ob_blobs obj)) \<le> sum_list (map (\<lambda>_. max_payload_bytes) (ob_blobs obj))"
    unfolding length_concat using v(3) by (intro sum_list_mono) auto
  also have "\<dots> \<le> max_blobs * max_payload_bytes"
    using v(2) by (simp add: sum_list_triv)
  finally have "length (concat (ob_blobs obj)) \<le> max_blobs * max_payload_bytes" .
  moreover have "length (frame_header (map length (ob_head obj # ob_blobs obj))) \<le> 100"
  proof (rule length_frame_header)
    show "length (map length (ob_head obj # ob_blobs obj)) \<le> 9"
      using v(2) by (simp add: max_blobs_def)
    have "length (ob_head obj) \<le> max_payload_bytes"
      using v(1) by (simp add: storage_limits)
    then show "\<forall>l\<in>set (map length (ob_head obj # ob_blobs obj)). l \<le> max_payload_bytes"
      using v(3) by auto
  qed simp
  ultimately show ?thesis
    using v(1) unfolding frame_eq max_frame_bytes_def
    by (simp add: max_varint_len64_def max_blobs_def)
qed

subsection \<open>The contract of a store\<close>

type_synonym obj_key = "kind \<times> string \<times> digest"

definition obj_key :: "object \<Rightarrow> obj_key" where
  "obj_key obj = (ob_kind obj, ob_scope obj, ob_rv obj)"

definition obj_parts :: "object \<Rightarrow> bytes \<times> bytes list" where
  "obj_parts obj = (ob_head obj, ob_blobs obj)"

text \<open>
  \<open>view s\<close> is what the store holds: the head and the blobs of every object.  \<open>calm s\<close> says that
  the environment shows no fault: the operation is not cancelled and the storage is reachable.
  A store may list stale revisions but never one it does not hold, and a failed \<open>Publish\<close> leaves
  either nothing or the complete object.
\<close>

locale store_contract =
  fixes dl :: digest_lib and ops :: "'s store_ops" and inv :: "'s \<Rightarrow> bool"
    and view :: "'s \<Rightarrow> obj_key \<Rightarrow> (bytes \<times> bytes list) option"
    and calm :: "'s \<Rightarrow> bool"
  assumes named: "inv s \<Longrightarrow> view s (k, sc, rv) = Some (h, bs) \<Longrightarrow>
      dl_from_bytes dl h = rv \<and> validate_ref dl k sc rv = Inr ()"
    and publish_inv: "inv s \<Longrightarrow> so_publish ops obj s = (s', r) \<Longrightarrow> inv s' \<and> (calm s' \<longleftrightarrow> calm s)"
    and publish_ok: "inv s \<Longrightarrow> so_publish ops obj s = (s', Inr u) \<Longrightarrow>
      validate_object dl obj = Inr () \<and> view s' = (view s)(obj_key obj \<mapsto> obj_parts obj)"
    and publish_err: "inv s \<Longrightarrow> so_publish ops obj s = (s', Inl e) \<Longrightarrow>
      view s' = view s \<or> view s' = (view s)(obj_key obj \<mapsto> obj_parts obj)"
    and fetch_inv: "inv s \<Longrightarrow> so_fetch_head ops k sc rv s = (s', fr) \<Longrightarrow>
      inv s' \<and> view s' = view s \<and> (calm s' \<longleftrightarrow> calm s)"
    and fetch_sound: "inv s \<Longrightarrow> so_fetch_head ops k sc rv s = (s', Inr h) \<Longrightarrow>
      dl_from_bytes dl h = rv \<and> view s (k, sc, rv) \<noteq> None"
    and fetch_complete: "inv s \<Longrightarrow> calm s \<Longrightarrow> so_fetch_head ops k sc rv s = (s', Inl e) \<Longrightarrow>
      view s (k, sc, rv) = None"
    and open_inv: "inv s \<Longrightarrow> so_open_blob ops k sc rv i s = (s', br) \<Longrightarrow>
      inv s' \<and> view s' = view s \<and> (calm s' \<longleftrightarrow> calm s)"
    and open_sound: "inv s \<Longrightarrow> so_open_blob ops k sc rv i s = (s', Inr b) \<Longrightarrow>
      \<exists>h bs. view s (k, sc, rv) = Some (h, bs) \<and> 0 \<le> i \<and> i < int (length bs) \<and> b = bs ! nat i"
    and open_complete: "inv s \<Longrightarrow> calm s \<Longrightarrow> so_open_blob ops k sc rv i s = (s', Inl e) \<Longrightarrow>
      view s (k, sc, rv) = Some (h, bs) \<Longrightarrow> \<not> (0 \<le> i \<and> i < int (length bs))"
    and discover_inv: "inv s \<Longrightarrow> so_discover ops k sc s = (s', dr) \<Longrightarrow>
      inv s' \<and> view s' = view s \<and> (calm s' \<longleftrightarrow> calm s)"
    and discover_sound: "inv s \<Longrightarrow> so_discover ops k sc s = (s', Inr rvs) \<Longrightarrow>
      \<forall>rv\<in>set rvs. view s (k, sc, rv) \<noteq> None"
    and delete_inv: "inv s \<Longrightarrow> so_delete ops k sc rv s = (s', r) \<Longrightarrow> inv s' \<and> (calm s' \<longleftrightarrow> calm s)"
    and delete_ok: "inv s \<Longrightarrow> so_delete ops k sc rv s = (s', Inr u) \<Longrightarrow>
      view s' = (view s)((k, sc, rv) := None)"
    and delete_err: "inv s \<Longrightarrow> so_delete ops k sc rv s = (s', Inl e) \<Longrightarrow>
      view s' = view s \<or> view s' = (view s)((k, sc, rv) := None)"
begin

lemma publish_then_fetch:
  assumes "inv s" and "calm s" and "so_publish ops obj s = (s', Inr u)"
  obtains s'' h where "so_fetch_head ops (ob_kind obj) (ob_scope obj) (ob_rv obj) s' = (s'', Inr h)"
    and "dl_from_bytes dl h = dl_from_bytes dl (ob_head obj)"
    and "inv s''" and "calm s''" and "view s'' = (view s)(obj_key obj \<mapsto> obj_parts obj)"
proof -
  have s': "inv s'" "calm s'" "view s' = (view s)(obj_key obj \<mapsto> obj_parts obj)"
    using publish_inv [OF assms(1,3)] publish_ok [OF assms(1,3)] assms(2) by auto
  have v: "view s' (ob_kind obj, ob_scope obj, ob_rv obj) = Some (ob_head obj, ob_blobs obj)"
    by (simp add: s'(3) obj_key_def obj_parts_def)
  obtain s'' r where r: "so_fetch_head ops (ob_kind obj) (ob_scope obj) (ob_rv obj) s' = (s'', r)"
    by fastforce
  then obtain h where h: "r = Inr h"
    using fetch_complete [OF s'(1,2)] v by (cases r) auto
  have "dl_from_bytes dl h = dl_from_bytes dl (ob_head obj)"
    using fetch_sound [OF s'(1)] named [OF s'(1) v] r h by auto
  then show thesis
    using that r h fetch_inv [OF s'(1) r] s' by metis
qed

lemma publish_then_read_blob:
  assumes "inv s" and "calm s" and "so_publish ops obj s = (s', Inr u)" and "i < length (ob_blobs obj)"
  obtains s'' where "read_blob ops (ob_kind obj) (ob_scope obj) (ob_rv obj) (int i) max_payload_bytes s'
      = (s'', Inr (ob_blobs obj ! i))"
proof -
  have s': "inv s'" "calm s'"
    using publish_inv [OF assms(1,3)] assms(2) by auto
  have ok: "validate_object dl obj = Inr ()"
    and v: "view s' (ob_kind obj, ob_scope obj, ob_rv obj) = Some (ob_head obj, ob_blobs obj)"
    using publish_ok [OF assms(1,3)] by (simp_all add: obj_key_def obj_parts_def)
  obtain s'' r where r: "so_open_blob ops (ob_kind obj) (ob_scope obj) (ob_rv obj) (int i) s' = (s'', r)"
    by fastforce
  then obtain b where b: "r = Inr b"
    using open_complete [OF s'] v assms(4) by (cases r) fastforce+
  then have "b = ob_blobs obj ! i"
    using open_sound [OF s'(1)] r v by fastforce
  moreover have "length (ob_blobs obj ! i) \<le> max_payload_bytes"
    using validate_object_Inr(6) [OF ok] assms(4) by simp
  ultimately show thesis
    using that r b by (simp add: read_blob_def)
qed

lemma delete_then_fetch:
  assumes "inv s" and "so_delete ops k sc rv s = (s', Inr u)"
  shows "\<nexists>s'' h. so_fetch_head ops k sc rv s' = (s'', Inr h)"
  using fetch_sound delete_inv [OF assms] delete_ok [OF assms] by fastforce

end

text \<open>
  A store that is told of the outcome: a \<open>Delete\<close> that fails has deleted nothing.  A remote backend cannot promise
  that, and the head cache needs it.
\<close>

locale settled_store = store_contract dl ops inv view calm
  for dl :: digest_lib and ops :: "'s store_ops" and inv :: "'s \<Rightarrow> bool"
    and view :: "'s \<Rightarrow> obj_key \<Rightarrow> (bytes \<times> bytes list) option"
    and calm :: "'s \<Rightarrow> bool" +
  assumes delete_failed: "inv s \<Longrightarrow> so_delete ops k sc rv s = (s', Inl e) \<Longrightarrow> view s' = view s"

subsection \<open>The local store keeps the contract\<close>

definition local_view :: "digest_lib \<Rightarrow> local_dir \<Rightarrow> obj_key \<Rightarrow> (bytes \<times> bytes list) option" where
  "local_view dl d = (\<lambda>(k, sc, rv).
     case obj_name dl k sc rv of
       Inl e \<Rightarrow> None
     | Inr name \<Rightarrow>
         (case gm_get (ld_files d) name of Some (Regular data) \<Rightarrow> parse_frame dl data rv | _ \<Rightarrow> None))"

text \<open>Every entry that has the name of an object was written by \<open>Publish\<close>.\<close>

definition local_inv :: "digest_lib \<Rightarrow> local_dir \<Rightarrow> bool" where
  "local_inv dl d \<longleftrightarrow> digest_lib_ok dl \<and> gm_ok (ld_files d) \<and>
     (\<forall>k sc rv name e. obj_name dl k sc rv = Inr name \<longrightarrow> gm_get (ld_files d) name = Some e \<longrightarrow>
        (\<exists>obj. validate_object dl obj = Inr () \<and> obj_key obj = (k, sc, rv) \<and> e = Regular (frame obj)))"

definition local_calm :: "local_dir \<Rightarrow> bool" where
  "local_calm d \<longleftrightarrow> \<not> ld_cancelled d \<and> \<not> ld_open_error d"

lemma local_inv_entry:
  assumes "local_inv dl d" and "obj_name dl k sc rv = Inr name" and "gm_get (ld_files d) name = Some e"
  obtains obj where "validate_object dl obj = Inr ()" "obj_key obj = (k, sc, rv)" "e = Regular (frame obj)"
  using assms unfolding local_inv_def by blast

lemma obj_key_unique:
  assumes "digest_lib_ok dl" and "obj_name dl k sc rv = Inr n" and "obj_name dl k' sc' rv' = Inr n"
  shows "(k', sc', rv') = (k, sc, rv)"
proof -
  obtain p where p: "name_prefix k sc = Inr p" "n = p @ dl_encoded dl rv" "valid_digest dl rv"
    using assms(2) by (auto simp: obj_name_Inr validate_ref_Inr)
  obtain p' where p': "name_prefix k' sc' = Inr p'" "n = p' @ dl_encoded dl rv'" "valid_digest dl rv'"
    using assms(3) by (auto simp: obj_name_Inr validate_ref_Inr)
  have "k' = k \<and> sc' = sc \<and> dl_encoded dl rv' = dl_encoded dl rv"
    using name_prefix_inject [OF p'(1) p(1), of "dl_encoded dl rv'" "dl_encoded dl rv"] p(2) p'(2) by metis
  then show ?thesis
    using valid_digest_encoded [OF assms(1) p(3)] valid_digest_encoded [OF assms(1) p'(3)] by metis
qed

lemma obj_name_of_valid:
  assumes "validate_object dl obj = Inr ()"
  obtains name where "obj_name dl (ob_kind obj) (ob_scope obj) (ob_rv obj) = Inr name"
proof -
  have "validate_ref dl (ob_kind obj) (ob_scope obj) (ob_rv obj) = Inr ()"
    by (rule validate_object_Inr(1) [OF assms])
  then have "is_ok (obj_name dl (ob_kind obj) (ob_scope obj) (ob_rv obj))"
    by (simp add: obj_name_def Let_def)
  then show thesis
    using that by (auto simp: is_ok_iff)
qed

lemma parse_frame_valid:
  "validate_object dl obj = Inr () \<Longrightarrow> parse_frame dl (frame obj) (ob_rv obj) = Some (obj_parts obj)"
  using read_head_frame by (auto simp: obj_parts_def)

lemma read_local_Regular:
  "gm_get (ld_files d) n = Some (Regular data) \<Longrightarrow> length data \<le> max_frame_bytes \<Longrightarrow>
     read_local d n = Inr data \<and> open_local d n = Inr (data, length data)"
  by (simp add: read_local_def open_local_def Let_def)

lemma open_local_cases:
  assumes "local_inv dl d" and "obj_name dl k sc rv = Inr name"
  shows "gm_get (ld_files d) name = None \<and> open_local d name = Inl SNotFound
      \<and> read_local d name = Inl SNotFound \<and> local_view dl d (k, sc, rv) = None
    \<or> (\<exists>obj l. validate_object dl obj = Inr () \<and> obj_key obj = (k, sc, rv)
      \<and> open_local d name = Inr (frame obj, length (frame obj)) \<and> read_local d name = Inr (frame obj)
      \<and> gm_get (ld_files d) name = Some (Regular (frame obj))
      \<and> read_head dl (frame obj) rv = Inr (ob_head obj, l) \<and> local_view dl d (k, sc, rv) = Some (obj_parts obj))"
proof (cases "gm_get (ld_files d) name")
  case None
  with assms(2) show ?thesis
    by (simp add: open_local_def read_local_def local_view_def)
next
  case (Some e)
  with local_inv_entry [OF assms] obtain obj where obj: "validate_object dl obj = Inr ()"
    "obj_key obj = (k, sc, rv)" "e = Regular (frame obj)"
    by blast
  then have "ob_rv obj = rv"
    by (simp add: obj_key_def)
  with obj show ?thesis
    using Some assms(2) read_head_frame [OF obj(1)] read_local_Regular [OF _ length_frame [OF obj(1)], of d name]
    by (auto simp: local_view_def parse_frame_valid obj_parts_def)
qed

lemma local_view_put:
  assumes "local_inv dl d" and "validate_object dl obj = Inr ()"
    and "obj_name dl (ob_kind obj) (ob_scope obj) (ob_rv obj) = Inr name"
    and "d' = d\<lparr>ld_files := gm_put name (Regular (frame obj)) (ld_files d)\<rparr>"
  shows "local_view dl d' = (local_view dl d)(obj_key obj \<mapsto> obj_parts obj)" and "local_inv dl d'"
proof -
  have ok: "digest_lib_ok dl"
    using assms(1) by (simp add: local_inv_def)
  have uniq: "(k, sc, rv) = obj_key obj" if "obj_name dl k sc rv = Inr name" for k sc rv
    using obj_key_unique [OF ok assms(3) that] by (simp add: obj_key_def)
  show "local_view dl d' = (local_view dl d)(obj_key obj \<mapsto> obj_parts obj)"
  proof (rule ext)
    fix key :: obj_key
    obtain k sc rv where key: "key = (k, sc, rv)" by (rule prod_cases3)
    show "local_view dl d' key = ((local_view dl d)(obj_key obj \<mapsto> obj_parts obj)) key"
    proof (cases "obj_name dl k sc rv = Inr name")
      case True
      with uniq key have "key = obj_key obj" "rv = ob_rv obj" by (auto simp: obj_key_def)
      with True key show ?thesis
        by (simp add: local_view_def assms(4) parse_frame_valid [OF assms(2)])
    next
      case False
      then have "key \<noteq> obj_key obj"
        using assms(3) key by (auto simp: obj_key_def)
      with False key show ?thesis
        by (auto simp: local_view_def assms(4) split: sum.split)
    qed
  qed
  show "local_inv dl d'"
    using assms(1,2) uniq unfolding local_inv_def assms(4) by (auto split: if_splits)
qed

lemma local_publish_cases:
  assumes "local_inv dl d" and "local_publish dl obj d = (d', r)"
  shows "(d' = d \<and> (\<exists>e. r = Inl e))
    \<or> (d' = d \<and> r = Inr () \<and> validate_object dl obj = Inr () \<and> local_view dl d (obj_key obj) = Some (obj_parts obj))
    \<or> (\<exists>name. validate_object dl obj = Inr () \<and> obj_name dl (ob_kind obj) (ob_scope obj) (ob_rv obj) = Inr name
        \<and> d' = d\<lparr>ld_files := gm_put name (Regular (frame obj)) (ld_files d)\<rparr>)"
proof (cases "validate_object dl obj")
  case (Inr u)
  then have ok: "validate_object dl obj = Inr ()" by simp
  then obtain name where n: "obj_name dl (ob_kind obj) (ob_scope obj) (ob_rv obj) = Inr name"
    by (rule obj_name_of_valid)
  consider "ld_open_error d" | "\<not> ld_open_error d" "read_local d name = Inl SNotFound"
    | "\<not> ld_open_error d" "\<exists>ex. read_local d name = Inr ex"
    using open_local_cases [OF assms(1) n] by blast
  then show ?thesis
  proof cases
    case 3
    then obtain o' where o': "validate_object dl o' = Inr ()" "obj_key o' = obj_key obj"
      "read_local d name = Inr (frame o')" "local_view dl d (obj_key obj) = Some (obj_parts o')"
      using open_local_cases [OF assms(1) n] by (auto simp: obj_key_def)
    have "r = Inr () \<Longrightarrow> obj_parts o' = obj_parts obj"
    proof -
      assume "r = Inr ()"
      then have "frame o' = frame obj"
        using assms(2) ok n 3(1) o'(3) by (auto simp: local_publish_def Let_def split: if_splits)
      moreover have "ob_rv o' = ob_rv obj"
        using o'(2) by (simp add: obj_key_def)
      ultimately show ?thesis
        using parse_frame_valid [OF ok] parse_frame_valid [OF o'(1)] by simp
    qed
    then show ?thesis
      using assms(2) ok n 3(1) o'(3,4) by (auto simp: local_publish_def Let_def split: if_splits)
  qed (use assms(2) ok n in \<open>auto simp: local_publish_def Let_def commit_local_file_def split: if_splits sum.splits\<close>)
next
  case (Inl e)
  then have "local_publish dl obj d = (d, Inl e)"
    by (simp add: local_publish_def)
  then have "d' = d" "r = Inl e"
    using assms(2) by simp_all
  then show ?thesis by blast
qed

lemma local_delete_view:
  assumes "local_inv dl d" and "obj_name dl k sc rv = Inr name"
    and "d' = d\<lparr>ld_files := gm_del name (ld_files d)\<rparr>"
  shows "local_inv dl d'" and "local_view dl d' = (local_view dl d)((k, sc, rv) := None)"
proof -
  have ok: "digest_lib_ok dl"
    using assms(1) by (simp add: local_inv_def)
  show "local_inv dl d'"
    using assms(1) unfolding local_inv_def assms(3) by (auto split: if_splits)
  show "local_view dl d' = (local_view dl d)((k, sc, rv) := None)"
  proof (rule ext)
    fix key :: obj_key
    obtain k' sc' rv' where key: "key = (k', sc', rv')" by (rule prod_cases3)
    show "local_view dl d' key = ((local_view dl d)((k, sc, rv) := None)) key"
    proof (cases "obj_name dl k' sc' rv' = Inr name")
      case True
      then have "(k', sc', rv') = (k, sc, rv)"
        using obj_key_unique [OF ok assms(2)] by blast
      with True key show ?thesis
        by (simp add: local_view_def assms(3))
    next
      case False
      then have "(k', sc', rv') \<noteq> (k, sc, rv)"
        using assms(2) by auto
      with False key show ?thesis
        by (auto simp: local_view_def assms(3) split: sum.split)
    qed
  qed
qed

lemma set_discover_loop:
  "discover_loop dl k p ns acc = Inr rvs \<Longrightarrow>
     set rvs = set acc \<union> {r. \<exists>n\<in>set ns. rev_from_name dl p n = Some r}"
  by (induction dl k p ns acc rule: discover_loop.induct) (auto split: option.splits if_splits)

lemma rev_from_name_Some:
  assumes "digest_lib_ok dl" and "rev_from_name dl p n = Some r"
  shows "valid_digest dl r \<and> n = p @ dl_encoded dl r"
proof -
  have h: "take (length p) n = p" "r = dl_new dl sha256_name (drop (length p) n)" "dl_validate dl r"
    using assms(2) by (auto simp: rev_from_name_def has_prefix_def Let_def split: if_splits)
  then have "valid_digest dl r" "dl_encoded dl r = drop (length p) n"
    using valid_digest_new [OF assms(1)] by auto
  then show ?thesis
    using h(1) append_take_drop_id [of "length p" n] by metis
qed

lemma rev_from_name_object:
  assumes "digest_lib_ok dl" and "name_prefix k sc = Inr p" and "rev_from_name dl p n = Some r"
  shows "obj_name dl k sc r = Inr n"
  using rev_from_name_Some [OF assms(1,3)] assms(2)
  by (auto simp: obj_name_Inr validate_ref_Inr name_prefix_Inr)

lemma local_discover_exact:
  assumes "local_inv dl d" and "local_discover dl k sc d = (d', Inr rvs)"
  shows "d' = d" and "set rvs = {rv. local_view dl d (k, sc, rv) \<noteq> None}" and "sorted rvs"
proof -
  show "d' = d"
    using assms(2) by (simp add: local_discover_def)
  obtain p ls where p: "name_prefix k sc = Inr p"
    and l: "discover_loop dl k p (map fst (ld_files d)) [] = Inr ls" "rvs = sort ls"
    using assms(2) by (auto simp: local_discover_def res_simps split: if_splits)
  have ok: "digest_lib_ok dl"
    using assms(1) by (simp add: local_inv_def)
  have "rv \<in> set rvs \<longleftrightarrow> local_view dl d (k, sc, rv) \<noteq> None" for rv
  proof -
    have "rv \<in> set rvs \<longleftrightarrow> (\<exists>n. gm_has (ld_files d) n \<and> rev_from_name dl p n = Some rv)"
      using set_discover_loop [OF l(1)] l(2) by (auto simp: gm_has_iff)
    also have "\<dots> \<longleftrightarrow> (\<exists>n. gm_has (ld_files d) n \<and> obj_name dl k sc rv = Inr n)"
      using rev_from_name_object [OF ok p] rev_from_name_ref [OF ok, of rv p] p
      by (auto simp: obj_name_Inr validate_ref_Inr)
    also have "\<dots> \<longleftrightarrow> local_view dl d (k, sc, rv) \<noteq> None"
      using open_local_cases [OF assms(1), of k sc rv]
      by (cases "obj_name dl k sc rv") (auto simp: gm_has_get local_view_def)
    finally show ?thesis .
  qed
  then show "set rvs = {rv. local_view dl d (k, sc, rv) \<noteq> None}" by blast
  show "sorted rvs"
    using l(2) by simp
qed

lemma local_calm_put: "local_calm (d\<lparr>ld_files := fs\<rparr>) \<longleftrightarrow> local_calm d"
  by (simp add: local_calm_def)

lemma local_publish_ok:
  assumes "local_inv dl d" and "local_publish dl obj d = (d', Inr u)"
  shows "validate_object dl obj = Inr ()" and "local_view dl d' = (local_view dl d)(obj_key obj \<mapsto> obj_parts obj)"
    and "local_inv dl d'"
  using local_publish_cases [OF assms] local_view_put [OF assms(1)] assms(1)
  by (auto simp: fun_upd_idem)

lemma local_publish_any:
  assumes "local_inv dl d" and "local_publish dl obj d = (d', r)"
  shows "local_view dl d' = local_view dl d \<or> local_view dl d' = (local_view dl d)(obj_key obj \<mapsto> obj_parts obj)"
    and "local_inv dl d'" and "local_calm d' \<longleftrightarrow> local_calm d"
  using local_publish_cases [OF assms] local_view_put [OF assms(1)] assms(1)
  by (auto simp: local_calm_put)

lemma local_fetch_cases:
  assumes "local_inv dl d" and "local_fetch_head dl k sc rv d = (d', r)"
  shows "d' = d"
    and "r = Inr h \<Longrightarrow> dl_from_bytes dl h = rv \<and> (\<exists>bs. local_view dl d (k, sc, rv) = Some (h, bs))"
    and "r = Inl e \<Longrightarrow> local_calm d \<Longrightarrow> local_view dl d (k, sc, rv) = None"
proof -
  show "d' = d"
    using assms(2) by (simp add: local_fetch_head_def)
  show "dl_from_bytes dl h = rv \<and> (\<exists>bs. local_view dl d (k, sc, rv) = Some (h, bs))" if "r = Inr h"
    using assms(2) that open_local_cases [OF assms(1), of k sc rv]
    by (auto simp: local_fetch_head_def res_simps obj_parts_def dest: read_head_rv split: if_splits)
  show "local_view dl d (k, sc, rv) = None" if "r = Inl e" "local_calm d"
    using assms(2) that open_local_cases [OF assms(1), of k sc rv]
    by (cases "obj_name dl k sc rv")
      (auto simp: local_fetch_head_def local_calm_def local_view_def res_simps split: if_splits)
qed

lemma local_open_cases:
  assumes "local_inv dl d" and "local_open_blob dl k sc rv i d = (d', r)"
  shows "d' = d"
    and "r = Inr b \<Longrightarrow> \<exists>h bs. local_view dl d (k, sc, rv) = Some (h, bs) \<and> 0 \<le> i \<and> i < int (length bs) \<and> b = bs ! nat i"
    and "r = Inl e \<Longrightarrow> local_calm d \<Longrightarrow> local_view dl d (k, sc, rv) = Some (h, bs) \<Longrightarrow>
      \<not> (0 \<le> i \<and> i < int (length bs))"
proof -
  show "d' = d"
    using assms(2) by (simp add: local_open_blob_def)
  have sec: "blob_section (frame obj) l i =
      (if 0 \<le> i \<and> i < int (length (ob_blobs obj)) then Inr (ob_blobs obj ! nat i) else Inl SNotFound)"
    if "validate_object dl obj = Inr ()" "read_head dl (frame obj) (ob_rv obj) = Inr (ob_head obj, l)" for obj l
    using read_head_parse [OF that(2)] parse_frame_valid [OF that(1)] by (auto simp: obj_parts_def)
  show "\<exists>h bs. local_view dl d (k, sc, rv) = Some (h, bs) \<and> 0 \<le> i \<and> i < int (length bs) \<and> b = bs ! nat i"
    if "r = Inr b"
    using assms(2) that open_local_cases [OF assms(1), of k sc rv] sec
    by (auto simp: local_open_blob_def res_simps obj_parts_def obj_key_def split: if_splits)
  show "\<not> (0 \<le> i \<and> i < int (length bs))"
    if pre: "r = Inl e" "local_calm d" "local_view dl d (k, sc, rv) = Some (h, bs)"
  proof -
    obtain name where n: "obj_name dl k sc rv = Inr name"
      using pre(3) by (cases "obj_name dl k sc rv") (auto simp: local_view_def)
    then obtain obj l where o: "validate_object dl obj = Inr ()" "obj_key obj = (k, sc, rv)"
      "open_local d name = Inr (frame obj, length (frame obj))"
      "read_head dl (frame obj) rv = Inr (ob_head obj, l)" "bs = ob_blobs obj"
      using open_local_cases [OF assms(1) n] pre(3) by (auto simp: obj_parts_def)
    then have "blob_section (frame obj) l i = Inl e"
      using assms(2) pre(1,2) n by (auto simp: local_open_blob_def local_calm_def)
    with sec [OF o(1), of l] o show ?thesis
      by (auto simp: obj_key_def split: if_splits)
  qed
qed

lemma local_delete_cases:
  assumes "local_inv dl d" and "local_delete dl k sc rv d = (d', r)"
  shows "local_inv dl d'" and "local_calm d' \<longleftrightarrow> local_calm d"
    and "r = Inr u \<Longrightarrow> local_view dl d' = (local_view dl d)((k, sc, rv) := None)"
    and "r = Inl e \<Longrightarrow> d' = d"
  using assms(2) local_delete_view [OF assms(1)] assms(1)
  by (auto simp: local_delete_def local_calm_put split: sum.splits if_splits)

lemma local_view_named:
  assumes "local_inv dl d" and "local_view dl d (k, sc, rv) = Some (h, bs)"
  shows "dl_from_bytes dl h = rv \<and> validate_ref dl k sc rv = Inr ()"
proof -
  obtain name where n: "obj_name dl k sc rv = Inr name"
    using assms(2) by (cases "obj_name dl k sc rv") (auto simp: local_view_def)
  with assms open_local_cases [OF assms(1) n] show ?thesis
    by (auto simp: obj_parts_def obj_name_Inr dest: read_head_rv)
qed

interpretation local_store: settled_store dl "local_ops dl" "local_inv dl" "local_view dl" local_calm
  for dl :: digest_lib
proof (unfold_locales, goal_cases)
  case (1 s k sc rv h bs)
  then show ?case
    using local_view_named [of dl s k sc rv h bs] by (auto simp: local_ops_def)
next
  case (2 s obj s' r)
  then show ?case
    using local_publish_any [of dl s obj s' r] by (auto simp: local_ops_def)
next
  case (3 s obj s' u)
  then show ?case
    using local_publish_ok [of dl s obj s' u] by (auto simp: local_ops_def)
next
  case (4 s obj s' e)
  then show ?case
    using local_publish_any [of dl s obj s' "Inl e"] by (auto simp: local_ops_def)
next
  case (5 s k sc rv s' r)
  then show ?case
    using local_fetch_cases(1) [of dl s k sc rv s' r] by (auto simp: local_ops_def)
next
  case (6 s k sc rv s' h)
  then show ?case
    using local_fetch_cases(2) [of dl s k sc rv s' "Inr h" h] by (auto simp: local_ops_def)
next
  case (7 s k sc rv s' e)
  then show ?case
    using local_fetch_cases(3) [of dl s k sc rv s' "Inl e" e] by (auto simp: local_ops_def)
next
  case (8 s k sc rv i s' r)
  then show ?case
    using local_open_cases(1) [of dl s k sc rv i s' r] by (auto simp: local_ops_def)
next
  case (9 s k sc rv i s' b)
  then show ?case
    using local_open_cases(2) [of dl s k sc rv i s' "Inr b" b] by (auto simp: local_ops_def)
next
  case (10 s k sc rv i s' e h bs)
  then show ?case
    using local_open_cases(3) [of dl s k sc rv i s' "Inl e" e h bs] by (auto simp: local_ops_def)
next
  case (11 s k sc s' r)
  then show ?case
    using local_discover_def [of dl k sc s] by (auto simp: local_ops_def)
next
  case (12 s k sc s' rvs)
  then show ?case
    using local_discover_exact(2) [of dl s k sc s' rvs] by (auto simp: local_ops_def)
next
  case (13 s k sc rv s' r)
  then show ?case
    using local_delete_cases(1,2) [of dl s k sc rv s' r] by (auto simp: local_ops_def)
next
  case (14 s k sc rv s' u)
  then show ?case
    using local_delete_cases(3) [of dl s k sc rv s' "Inr u" u] by (auto simp: local_ops_def)
next
  case (15 s k sc rv s' e)
  then show ?case
    using local_delete_cases(4) [of dl s k sc rv s' "Inl e" e] by (auto simp: local_ops_def)
next
  case (16 s k sc rv s' e)
  then show ?case
    using local_delete_cases(4) [of dl s k sc rv s' "Inl e" e] by (auto simp: local_ops_def)
qed

subsection \<open>The head cache keeps the contract\<close>

definition cache_inv ::
  "('s \<Rightarrow> bool) \<Rightarrow> ('s \<Rightarrow> obj_key \<Rightarrow> (bytes \<times> bytes list) option) \<Rightarrow> 's head_cache \<Rightarrow> bool" where
  "cache_inv good view c \<longleftrightarrow> good (hc_store c) \<and>
     (\<forall>k sc rv. was_listed k sc rv c \<longrightarrow> view (hc_store c) (k, sc, rv) \<noteq> None)"

lemma hc_write_frame [simp]:
  "hc_store (hc_write dl rv h c) = hc_store c" "hc_listed (hc_write dl rv h c) = hc_listed c"
  by (simp_all add: hc_write_def)

lemma hc_read_frame:
  "hc_read dl rv c = (c', r) \<Longrightarrow> hc_store c' = hc_store c \<and> hc_listed c' = hc_listed c"
  by (auto simp: hc_read_def Let_def split: option.splits if_splits)

lemma hc_read_sound: "hc_read dl rv c = (c', Some h) \<Longrightarrow> dl_from_bytes dl h = rv"
  by (auto simp: hc_read_def Let_def split: option.splits if_splits)

lemma was_listed_cong: "hc_listed c = hc_listed c' \<Longrightarrow> was_listed k sc rv c = was_listed k sc rv c'"
  by (simp add: was_listed_def)

context settled_store
begin

lemma cache_inv_view:
  assumes "cache_inv inv view c" and "inv (hc_store c')" and "hc_listed c' = hc_listed c"
    and "\<And>key. view (hc_store c) key \<noteq> None \<Longrightarrow> view (hc_store c') key \<noteq> None"
  shows "cache_inv inv view c'"
  using assms unfolding cache_inv_def was_listed_def by simp

lemma hc_fetch_backend_cases:
  assumes "cache_inv inv view c" and "hc_fetch_backend dl ops k sc rv c = (c', r)"
  shows "cache_inv inv view c' \<and> view (hc_store c') = view (hc_store c) \<and> (calm (hc_store c') \<longleftrightarrow> calm (hc_store c))"
    and "r = Inr h \<Longrightarrow> dl_from_bytes dl h = rv \<and> view (hc_store c) (k, sc, rv) \<noteq> None"
    and "r = Inl e \<Longrightarrow> calm (hc_store c) \<Longrightarrow> view (hc_store c) (k, sc, rv) = None"
proof -
  have i: "inv (hc_store c)"
    using assms(1) by (simp add: cache_inv_def)
  obtain s' fr where f: "so_fetch_head ops k sc rv (hc_store c) = (s', fr)" by fastforce
  note st = fetch_inv [OF i f]
  have c': "hc_store c' = s'" "hc_listed c' = hc_listed c" "r = fr"
    using assms(2) f by (auto simp: hc_fetch_backend_def split: sum.splits)
  show "cache_inv inv view c' \<and> view (hc_store c') = view (hc_store c) \<and> (calm (hc_store c') \<longleftrightarrow> calm (hc_store c))"
    using cache_inv_view [OF assms(1), of c'] st c' by auto
  show "dl_from_bytes dl h = rv \<and> view (hc_store c) (k, sc, rv) \<noteq> None" if "r = Inr h"
    using fetch_sound [OF i] f c'(3) that by blast
  show "view (hc_store c) (k, sc, rv) = None" if "r = Inl e" "calm (hc_store c)"
    using fetch_complete [OF i] f c'(3) that by blast
qed

lemma hc_fetch_cases:
  assumes "cache_inv inv view c" and "hc_fetch_head dl ops k sc rv c = (c', r)"
  shows "cache_inv inv view c' \<and> view (hc_store c') = view (hc_store c) \<and> (calm (hc_store c') \<longleftrightarrow> calm (hc_store c))"
    and "r = Inr h \<Longrightarrow> dl_from_bytes dl h = rv \<and> view (hc_store c) (k, sc, rv) \<noteq> None"
    and "r = Inl e \<Longrightarrow> calm (hc_store c) \<Longrightarrow> view (hc_store c) (k, sc, rv) = None"
proof -
  have i: "inv (hc_store c)"
    using assms(1) by (simp add: cache_inv_def)
  obtain c1 hr where rd: "hc_read dl rv c = (c1, hr)" by fastforce
  note fr = hc_read_frame [OF rd]
  have c1: "cache_inv inv view c1" "hc_store c1 = hc_store c"
    using cache_inv_view [OF assms(1), of c1] fr i by auto
  consider e where "validate_ref dl k sc rv = Inl e" "c' = c" "r = Inl e"
    | h where "validate_ref dl k sc rv = Inr ()" "was_listed k sc rv c" "hr = Some h" "c' = c1" "r = Inr h"
    | "validate_ref dl k sc rv = Inr ()" "hc_fetch_backend dl ops k sc rv c1 = (c', r)"
    | "validate_ref dl k sc rv = Inr ()" "hc_fetch_backend dl ops k sc rv c = (c', r)"
  proof (cases "validate_ref dl k sc rv")
    case (Inl e)
    then show thesis
      using assms(2) that(1) by (simp add: hc_fetch_head_def)
  next
    case (Inr u)
    then show thesis
      using assms(2) that(2-4) rd
      by (cases "was_listed k sc rv c"; cases hr) (simp_all add: hc_fetch_head_def)
  qed
  note cs = this
  show "cache_inv inv view c' \<and> view (hc_store c') = view (hc_store c) \<and> (calm (hc_store c') \<longleftrightarrow> calm (hc_store c))"
    using cs
  proof cases
    case 3
    then show ?thesis
      using hc_fetch_backend_cases(1) [OF c1(1)] c1(2) by simp
  next
    case 4
    then show ?thesis
      using hc_fetch_backend_cases(1) [OF assms(1)] by simp
  qed (use assms(1) c1 in simp_all)
  show "dl_from_bytes dl h = rv \<and> view (hc_store c) (k, sc, rv) \<noteq> None" if "r = Inr h"
    using cs
  proof cases
    case (2 h')
    then show ?thesis
      using that hc_read_sound [of dl rv c c1 h'] rd assms(1) by (auto simp: cache_inv_def)
  qed (use that hc_fetch_backend_cases(2) [OF c1(1)] hc_fetch_backend_cases(2) [OF assms(1)] c1(2) in auto)
  show "view (hc_store c) (k, sc, rv) = None" if "r = Inl e" "calm (hc_store c)"
    using cs
  proof cases
    case (1 e')
    then show ?thesis
      using named [OF i, of k sc rv] by (cases "view (hc_store c) (k, sc, rv)") auto
  qed (use that hc_fetch_backend_cases(3) [OF c1(1)] hc_fetch_backend_cases(3) [OF assms(1)] c1(2) in auto)
qed

lemma hc_publish_cases:
  assumes "cache_inv inv view c" and "hc_publish dl ops obj c = (c', r)"
  shows "cache_inv inv view c'" and "calm (hc_store c') \<longleftrightarrow> calm (hc_store c)"
    and "so_publish ops obj (hc_store c) = (hc_store c', r)"
proof -
  have i: "inv (hc_store c)"
    using assms(1) by (simp add: cache_inv_def)
  obtain s' pr where p: "so_publish ops obj (hc_store c) = (s', pr)" by fastforce
  have c': "hc_store c' = s'" "hc_listed c' = hc_listed c" "r = pr"
    using assms(2) p by (auto simp: hc_publish_def split: sum.splits)
  show "so_publish ops obj (hc_store c) = (hc_store c', r)"
    using p c' by simp
  show "calm (hc_store c') \<longleftrightarrow> calm (hc_store c)"
    using publish_inv [OF i p] c' by simp
  have "view s' = view (hc_store c) \<or> view s' = (view (hc_store c))(obj_key obj \<mapsto> obj_parts obj)"
    using publish_ok [OF i] publish_err [OF i] p by (cases pr) blast+
  then have "view (hc_store c) key \<noteq> None \<Longrightarrow> view (hc_store c') key \<noteq> None" for key
    using c'(1) by (auto split: if_splits)
  then show "cache_inv inv view c'"
    using cache_inv_view [OF assms(1), of c'] publish_inv [OF i p] c' by simp
qed

lemma hc_discover_cases:
  assumes "cache_inv inv view c" and "hc_discover ops k sc c = (c', r)"
  shows "cache_inv inv view c' \<and> view (hc_store c') = view (hc_store c) \<and> (calm (hc_store c') \<longleftrightarrow> calm (hc_store c))"
    and "r = Inr rvs \<Longrightarrow> \<forall>rv\<in>set rvs. view (hc_store c) (k, sc, rv) \<noteq> None"
proof -
  have i: "inv (hc_store c)"
    using assms(1) by (simp add: cache_inv_def)
  obtain s' dr where p: "so_discover ops k sc (hc_store c) = (s', dr)" by fastforce
  note st = discover_inv [OF i p]
  have sound: "dr = Inr rvs \<Longrightarrow> \<forall>rv\<in>set rvs. view (hc_store c) (k, sc, rv) \<noteq> None" for rvs
    using discover_sound [OF i] p by blast
  have "cache_inv inv view c'"
  proof (cases dr)
    case (Inl e)
    then show ?thesis
      using cache_inv_view [OF assms(1), of c'] assms(2) p st by (auto simp: hc_discover_def)
  next
    case (Inr rvs)
    then have "c' = c\<lparr>hc_store := s', hc_listed := gm_put (k, sc) rvs (hc_listed c)\<rparr>"
      using assms(2) p by (simp add: hc_discover_def)
    with st sound [OF Inr] assms(1) show ?thesis
      by (auto simp: cache_inv_def was_listed_def split: if_splits)
  qed
  moreover have "hc_store c' = s'" "r = dr"
    using assms(2) p by (auto simp: hc_discover_def split: sum.splits)
  ultimately show "cache_inv inv view c' \<and> view (hc_store c') = view (hc_store c) \<and> (calm (hc_store c') \<longleftrightarrow> calm (hc_store c))"
    and "r = Inr rvs \<Longrightarrow> \<forall>rv\<in>set rvs. view (hc_store c) (k, sc, rv) \<noteq> None"
    using st sound by simp_all
qed

lemma hc_delete_cases:
  assumes "cache_inv inv view c" and "hc_delete dl ops k sc rv c = (c', r)"
  shows "cache_inv inv view c'" and "calm (hc_store c') \<longleftrightarrow> calm (hc_store c)"
    and "so_delete ops k sc rv (hc_store c) = (hc_store c', r)"
proof -
  have i: "inv (hc_store c)"
    using assms(1) by (simp add: cache_inv_def)
  obtain s' dr where p: "so_delete ops k sc rv (hc_store c) = (s', dr)" by fastforce
  have c': "hc_store c' = s'" "r = dr"
    using assms(2) p by (auto simp: hc_delete_def Let_def split: if_splits)
  show "so_delete ops k sc rv (hc_store c) = (hc_store c', r)"
    using p c' by simp
  note st = delete_inv [OF i p]
  then show "calm (hc_store c') \<longleftrightarrow> calm (hc_store c)"
    using c' by simp
  have listed: "was_listed k' sc' rv' c' \<Longrightarrow>
      was_listed k' sc' rv' c \<and> ((k', sc', rv') = (k, sc, rv) \<longrightarrow> r \<noteq> Inr ())" for k' sc' rv'
    using assms(2) p
    by (auto simp: hc_delete_def was_listed_def Let_def split: if_splits option.splits)
  have keep: "view (hc_store c) key \<noteq> None \<Longrightarrow> key \<noteq> (k, sc, rv) \<or> r \<noteq> Inr () \<Longrightarrow> view s' key \<noteq> None" for key
    using delete_ok [OF i, of k sc rv s' "()"] delete_failed [OF i, of k sc rv s'] p c'(2) by (cases r) auto
  show "cache_inv inv view c'"
    using assms(1) st c'(1) listed keep unfolding cache_inv_def by simp
qed

lemma hc_open_cases:
  assumes "cache_inv inv view c" and "so_open_blob (with_head_cache dl ops) k sc rv i c = (c', r)"
  shows "cache_inv inv view c' \<and> view (hc_store c') = view (hc_store c) \<and> (calm (hc_store c') \<longleftrightarrow> calm (hc_store c))"
    and "so_open_blob ops k sc rv i (hc_store c) = (hc_store c', r)"
proof -
  have iv: "inv (hc_store c)"
    using assms(1) by (simp add: cache_inv_def)
  obtain s' br where p: "so_open_blob ops k sc rv i (hc_store c) = (s', br)" by fastforce
  then have c': "c' = c\<lparr>hc_store := s'\<rparr>" "r = br"
    using assms(2) by (auto simp: with_head_cache_def)
  then show "so_open_blob ops k sc rv i (hc_store c) = (hc_store c', r)"
    using p by simp
  show "cache_inv inv view c' \<and> view (hc_store c') = view (hc_store c) \<and> (calm (hc_store c') \<longleftrightarrow> calm (hc_store c))"
    using cache_inv_view [OF assms(1), of c'] open_inv [OF iv p] c' by auto
qed

lemma cache_inv_store: "cache_inv inv view c \<Longrightarrow> inv (hc_store c)"
  by (simp add: cache_inv_def)

lemma head_cache_contract:
  "settled_store dl (with_head_cache dl ops) (cache_inv inv view) (\<lambda>c. view (hc_store c)) (\<lambda>c. calm (hc_store c))"
proof (unfold_locales, goal_cases)
  case (1 c k sc rv h bs)
  then show ?case
    using named [OF cache_inv_store] by blast
next
  case (2 c obj c' r)
  then show ?case
    using hc_publish_cases(1,2) [of c obj c' r] by (simp add: with_head_cache_def)
next
  case (3 c obj c' u)
  then show ?case
    using hc_publish_cases(3) [of c obj c' "Inr u"] publish_ok [OF cache_inv_store]
    by (simp add: with_head_cache_def)
next
  case (4 c obj c' e)
  then show ?case
    using hc_publish_cases(3) [of c obj c' "Inl e"] publish_err [OF cache_inv_store]
    by (simp add: with_head_cache_def)
next
  case (5 c k sc rv c' r)
  then show ?case
    using hc_fetch_cases(1) [of c k sc rv c' r] by (simp add: with_head_cache_def)
next
  case (6 c k sc rv c' h)
  then show ?case
    using hc_fetch_cases(2) [of c k sc rv c' "Inr h" h] by (simp add: with_head_cache_def)
next
  case (7 c k sc rv c' e)
  then show ?case
    using hc_fetch_cases(3) [of c k sc rv c' "Inl e" e] by (simp add: with_head_cache_def)
next
  case (8 c k sc rv i c' r)
  then show ?case
    using hc_open_cases(1) by blast
next
  case (9 c k sc rv i c' b)
  then show ?case
    using hc_open_cases(2) open_sound [OF cache_inv_store] by blast
next
  case (10 c k sc rv i c' e h bs)
  then show ?case
    using hc_open_cases(2) open_complete [OF cache_inv_store] by blast
next
  case (11 c k sc c' r)
  then show ?case
    using hc_discover_cases(1) [of c k sc c' r] by (simp add: with_head_cache_def)
next
  case (12 c k sc c' rvs)
  then show ?case
    using hc_discover_cases(2) [of c k sc c' "Inr rvs" rvs] by (simp add: with_head_cache_def)
next
  case (13 c k sc rv c' r)
  then show ?case
    using hc_delete_cases(1,2) [of c k sc rv c' r] by (simp add: with_head_cache_def)
next
  case (14 c k sc rv c' u)
  then show ?case
    using hc_delete_cases(3) [of c k sc rv c' "Inr u"] delete_ok [OF cache_inv_store]
    by (simp add: with_head_cache_def)
next
  case (15 c k sc rv c' e)
  then show ?case
    using hc_delete_cases(3) [of c k sc rv c' "Inl e"] delete_failed [OF cache_inv_store]
    by (simp add: with_head_cache_def)
next
  case (16 c k sc rv c' e)
  then show ?case
    using hc_delete_cases(3) [of c k sc rv c' "Inl e"] delete_failed [OF cache_inv_store]
    by (simp add: with_head_cache_def)
qed

end

interpretation cached_store: settled_store dl "with_head_cache dl (local_ops dl)"
  "cache_inv (local_inv dl) (local_view dl)" "\<lambda>c. local_view dl (hc_store c)" "\<lambda>c. local_calm (hc_store c)"
  for dl :: digest_lib
  by (rule local_store.head_cache_contract)

subsection \<open>Runs of a store\<close>

text \<open>
  The states a store can be in: an initial one, what any operation leaves, with any arguments and
  whether it succeeds or fails, and what the environment does in between.
\<close>

inductive store_reach :: "'s store_ops \<Rightarrow> ('s \<Rightarrow> bool) \<Rightarrow> ('s \<Rightarrow> 's \<Rightarrow> bool) \<Rightarrow> 's \<Rightarrow> bool"
  for ops :: "'s store_ops" and init :: "'s \<Rightarrow> bool" and env :: "'s \<Rightarrow> 's \<Rightarrow> bool" where
  reach_init: "init s \<Longrightarrow> store_reach ops init env s"
| reach_env: "store_reach ops init env s \<Longrightarrow> env s s' \<Longrightarrow> store_reach ops init env s'"
| reach_publish: "store_reach ops init env s \<Longrightarrow> so_publish ops obj s = (s', pr) \<Longrightarrow> store_reach ops init env s'"
| reach_fetch: "store_reach ops init env s \<Longrightarrow> so_fetch_head ops k sc rv s = (s', fr) \<Longrightarrow> store_reach ops init env s'"
| reach_open: "store_reach ops init env s \<Longrightarrow> so_open_blob ops k sc rv i s = (s', br) \<Longrightarrow> store_reach ops init env s'"
| reach_discover: "store_reach ops init env s \<Longrightarrow> so_discover ops k sc s = (s', dr) \<Longrightarrow> store_reach ops init env s'"
| reach_delete: "store_reach ops init env s \<Longrightarrow> so_delete ops k sc rv s = (s', er) \<Longrightarrow> store_reach ops init env s'"

context store_contract
begin

lemma reach_inv:
  assumes "store_reach ops init env s" and "\<And>s. init s \<Longrightarrow> inv s" and "\<And>s s'. env s s' \<Longrightarrow> inv s \<Longrightarrow> inv s'"
  shows "inv s"
  using assms(1)
proof (induction rule: store_reach.induct)
  case (reach_publish s obj s' pr)
  then show ?case using publish_inv by blast
next
  case (reach_fetch s k sc rv s' fr)
  then show ?case using fetch_inv by blast
next
  case (reach_open s k sc rv i s' br)
  then show ?case using open_inv by blast
next
  case (reach_discover s k sc s' dr)
  then show ?case using discover_inv by blast
next
  case (reach_delete s k sc rv s' er)
  then show ?case using delete_inv by blast
qed (use assms(2,3) in blast)+

end

text \<open>The local store starts empty, and the environment changes its faults, not its files.\<close>

definition local_init :: "local_dir \<Rightarrow> bool" where
  "local_init d \<longleftrightarrow> ld_files d = []"

definition local_env :: "local_dir \<Rightarrow> local_dir \<Rightarrow> bool" where
  "local_env d d' \<longleftrightarrow> ld_files d' = ld_files d"

text \<open>
  Over it, the cache starts with any files in its directory and the environment may replace them
  at any time: only the record of what was listed is the process's own.
\<close>

definition cache_init :: "local_dir head_cache \<Rightarrow> bool" where
  "cache_init c \<longleftrightarrow> local_init (hc_store c) \<and> hc_listed c = []"

definition cache_env :: "local_dir head_cache \<Rightarrow> local_dir head_cache \<Rightarrow> bool" where
  "cache_env c c' \<longleftrightarrow> local_env (hc_store c) (hc_store c') \<and> hc_listed c' = hc_listed c"

lemma local_reach_inv:
  assumes "digest_lib_ok dl" and "store_reach (local_ops dl) local_init local_env d"
  shows "local_inv dl d"
  using assms(2)
proof (rule local_store.reach_inv)
  show "local_init s \<Longrightarrow> local_inv dl s" for s
    using assms(1) by (simp add: local_init_def local_inv_def)
  show "local_env s s' \<Longrightarrow> local_inv dl s \<Longrightarrow> local_inv dl s'" for s s'
    by (simp add: local_env_def local_inv_def)
qed

lemma cache_reach_inv:
  assumes "digest_lib_ok dl" and "store_reach (with_head_cache dl (local_ops dl)) cache_init cache_env c"
  shows "cache_inv (local_inv dl) (local_view dl) c"
  using assms(2)
proof (rule cached_store.reach_inv)
  show "cache_init s \<Longrightarrow> cache_inv (local_inv dl) (local_view dl) s" for s
    using assms(1) by (simp add: cache_init_def local_init_def local_inv_def cache_inv_def was_listed_def)
  fix s s'
  assume e: "cache_env s s'" and i: "cache_inv (local_inv dl) (local_view dl) s"
  then have "ld_files (hc_store s') = ld_files (hc_store s)" "hc_listed s' = hc_listed s"
    by (simp_all add: cache_env_def local_env_def)
  then have "local_view dl (hc_store s') = local_view dl (hc_store s)"
    "local_inv dl (hc_store s') = local_inv dl (hc_store s)" "was_listed k sc rv s' = was_listed k sc rv s" for k sc rv
    by (auto simp: local_view_def local_inv_def was_listed_def fun_eq_iff split: sum.split)
  with i show "cache_inv (local_inv dl) (local_view dl) s'"
    by (simp add: cache_inv_def)
qed

subsection \<open>Properties\<close>

definition empty_dir :: local_dir where
  "empty_dir = \<lparr>ld_files = [], ld_cancelled = False, ld_open_error = False, ld_sync_error = False\<rparr>"

lemma empty_dir_reach: "store_reach (local_ops dl) local_init local_env empty_dir"
  by (rule reach_init) (simp add: local_init_def empty_dir_def)

text \<open>
  C11: The local store is a map from kind, scope and revision to a head and its blobs, on every
  state any run of operations and faults can reach from an empty directory.  A successful
  \<open>Publish\<close> adds exactly the object, a failed one adds it whole or not at all (never a partial
  object), \<open>FetchHead\<close> returns exactly the head of an object that is there, \<open>Discover\<close> lists
  exactly the revisions that are there, sorted, \<open>Delete\<close> removes exactly its object, and none of
  them changes anything else.
\<close>

theorem local_store_refines_map:
  assumes "digest_lib_ok dl" and "store_reach (local_ops dl) local_init local_env d"
  shows "(local_publish dl obj d = (d1, Inr u) \<longrightarrow> local_view dl d1 = (local_view dl d)(obj_key obj \<mapsto> obj_parts obj))
    \<and> (local_publish dl obj d = (d2, Inl e2) \<longrightarrow> local_view dl d2 = local_view dl d
           \<or> local_view dl d2 = (local_view dl d)(obj_key obj \<mapsto> obj_parts obj))
    \<and> (local_fetch_head dl k sc rv d = (d3, Inr h) \<longrightarrow> d3 = d \<and> dl_from_bytes dl h = rv
           \<and> (\<exists>bs. local_view dl d (k, sc, rv) = Some (h, bs)))
    \<and> (local_discover dl k sc d = (d4, Inr rvs) \<longrightarrow> d4 = d \<and> sorted rvs
           \<and> set rvs = {rv. local_view dl d (k, sc, rv) \<noteq> None})
    \<and> (local_delete dl k sc rv d = (d5, Inr u) \<longrightarrow> local_view dl d5 = (local_view dl d)((k, sc, rv) := None))
    \<and> (local_delete dl k sc rv d = (d6, Inl e6) \<longrightarrow> d6 = d)"
proof (intro conjI)
  note i = local_reach_inv [OF assms]
  show "local_publish dl obj d = (d1, Inr u) \<longrightarrow> local_view dl d1 = (local_view dl d)(obj_key obj \<mapsto> obj_parts obj)"
    using local_publish_ok(2) [OF i] by blast
  show "local_publish dl obj d = (d2, Inl e2) \<longrightarrow> local_view dl d2 = local_view dl d
      \<or> local_view dl d2 = (local_view dl d)(obj_key obj \<mapsto> obj_parts obj)"
    using local_publish_any(1) [OF i] by blast
  show "local_fetch_head dl k sc rv d = (d3, Inr h) \<longrightarrow> d3 = d \<and> dl_from_bytes dl h = rv
      \<and> (\<exists>bs. local_view dl d (k, sc, rv) = Some (h, bs))"
    using local_fetch_cases(1,2) [OF i] by blast
  show "local_discover dl k sc d = (d4, Inr rvs) \<longrightarrow> d4 = d \<and> sorted rvs
      \<and> set rvs = {rv. local_view dl d (k, sc, rv) \<noteq> None}"
    using local_discover_exact [OF i] by blast
  show "local_delete dl k sc rv d = (d5, Inr u) \<longrightarrow> local_view dl d5 = (local_view dl d)((k, sc, rv) := None)"
    using local_delete_cases(3) [OF i] by blast
  show "local_delete dl k sc rv d = (d6, Inl e6) \<longrightarrow> d6 = d"
    using local_delete_cases(4) [OF i] by blast
qed

lemma local_publish_fresh:
  assumes "digest_lib_ok dl" and "validate_object dl obj = Inr ()"
  shows "\<exists>d'. local_publish dl obj empty_dir = (d', Inr ())"
proof -
  obtain name where n: "obj_name dl (ob_kind obj) (ob_scope obj) (ob_rv obj) = Inr name"
    using assms(2) by (rule obj_name_of_valid)
  define d' where "d' = empty_dir\<lparr>ld_files := gm_put name (Regular (frame obj)) []\<rparr>"
  have o: "open_local d' name = Inr (frame obj, length (frame obj))"
    using length_frame [OF assms(2)] by (simp add: d'_def open_local_def)
  obtain l where "read_head dl (frame obj) (ob_rv obj) = Inr (ob_head obj, l)"
    using read_head_frame [OF assms(2)] by blast
  then have "local_publish dl obj empty_dir = (d', Inr ())"
    using assms(2) n o by (simp add: local_publish_def Let_def empty_dir_def read_local_def commit_local_file_def d'_def)
  then show ?thesis by blast
qed

theorem local_store_refines_map_witness:
  "\<exists>d1. local_publish sample_digest_lib sample_object empty_dir = (d1, Inr ())
     \<and> local_view sample_digest_lib d1 (obj_key sample_object) = Some (''head'', [''ab'', ''c''])"
proof -
  obtain d1 where p: "local_publish sample_digest_lib sample_object empty_dir = (d1, Inr ())"
    using local_publish_fresh [OF sample_digest_lib_ok sample_object_valid] by blast
  with local_store_refines_map [OF sample_digest_lib_ok empty_dir_reach, of sample_object d1 "()"]
  show ?thesis by (simp add: obj_parts_def sample_object_def obj_key_def)
qed

text \<open>
  What a device publishes it reads back.  After a successful \<open>Publish\<close> to the local store
  while the environment shows no fault, \<open>FetchHead\<close> succeeds with a head of the same digest and
  \<open>ReadBlob\<close> with the limit of a blob returns every blob exactly; the same holds for the store
  wrapped in the head cache, whatever files its directory held.
\<close>

theorem publish_then_read:
  assumes "digest_lib_ok dl" and "store_reach (with_head_cache dl (local_ops dl)) cache_init cache_env c"
    and "local_calm (hc_store c)" and "hc_publish dl (local_ops dl) obj c = (c1, Inr u)"
  shows "(\<exists>c2 h. hc_fetch_head dl (local_ops dl) (ob_kind obj) (ob_scope obj) (ob_rv obj) c1 = (c2, Inr h)
           \<and> dl_from_bytes dl h = dl_from_bytes dl (ob_head obj))
    \<and> (\<forall>i<length (ob_blobs obj). \<exists>c2. read_blob (with_head_cache dl (local_ops dl)) (ob_kind obj) (ob_scope obj)
           (ob_rv obj) (int i) max_payload_bytes c1 = (c2, Inr (ob_blobs obj ! i)))"
proof (intro conjI)
  note i = cache_reach_inv [OF assms(1,2)]
  have p: "so_publish (with_head_cache dl (local_ops dl)) obj c = (c1, Inr u)"
    using assms(4) by (simp add: with_head_cache_def)
  show "\<exists>c2 h. hc_fetch_head dl (local_ops dl) (ob_kind obj) (ob_scope obj) (ob_rv obj) c1 = (c2, Inr h)
      \<and> dl_from_bytes dl h = dl_from_bytes dl (ob_head obj)"
  proof -
    obtain c2 h where "so_fetch_head (with_head_cache dl (local_ops dl)) (ob_kind obj) (ob_scope obj) (ob_rv obj) c1
        = (c2, Inr h)" "dl_from_bytes dl h = dl_from_bytes dl (ob_head obj)"
      by (rule cached_store.publish_then_fetch [OF i assms(3) p])
    then show ?thesis by (auto simp: with_head_cache_def)
  qed
  show "\<forall>i<length (ob_blobs obj). \<exists>c2. read_blob (with_head_cache dl (local_ops dl)) (ob_kind obj) (ob_scope obj)
      (ob_rv obj) (int i) max_payload_bytes c1 = (c2, Inr (ob_blobs obj ! i))"
  proof (intro allI impI)
    fix j assume j: "j < length (ob_blobs obj)"
    obtain c2 where "read_blob (with_head_cache dl (local_ops dl)) (ob_kind obj) (ob_scope obj) (ob_rv obj) (int j)
        max_payload_bytes c1 = (c2, Inr (ob_blobs obj ! j))"
      by (rule cached_store.publish_then_read_blob [OF i assms(3) p j])
    then show "\<exists>c2. read_blob (with_head_cache dl (local_ops dl)) (ob_kind obj) (ob_scope obj) (ob_rv obj) (int j)
        max_payload_bytes c1 = (c2, Inr (ob_blobs obj ! j))"
      by blast
  qed
qed

definition sample_cache :: "local_dir head_cache" where
  "sample_cache = \<lparr>hc_store = empty_dir, hc_files = [], hc_listed = [], hc_writable = True\<rparr>"

lemma sample_cache_reach: "store_reach (with_head_cache dl (local_ops dl)) cache_init cache_env sample_cache"
  by (rule reach_init) (simp add: cache_init_def local_init_def sample_cache_def empty_dir_def)

lemma sample_cache_calm: "local_calm (hc_store sample_cache)"
  by (simp add: local_calm_def sample_cache_def empty_dir_def)

lemma sample_cache_publish:
  "\<exists>c1. hc_publish sample_digest_lib (local_ops sample_digest_lib) sample_object sample_cache = (c1, Inr ())"
  using local_publish_fresh [OF sample_digest_lib_ok sample_object_valid]
  by (auto simp: hc_publish_def local_ops_def sample_cache_def)

theorem publish_then_read_witness:
  "\<exists>c1 c2. hc_publish sample_digest_lib (local_ops sample_digest_lib) sample_object sample_cache = (c1, Inr ())
     \<and> read_blob (with_head_cache sample_digest_lib (local_ops sample_digest_lib)) KindRequest []
           (ob_rv sample_object) (int 1) max_payload_bytes c1 = (c2, Inr ''c'')"
proof -
  obtain c1 where p: "hc_publish sample_digest_lib (local_ops sample_digest_lib) sample_object sample_cache = (c1, Inr ())"
    using sample_cache_publish by blast
  with publish_then_read [OF sample_digest_lib_ok sample_cache_reach sample_cache_calm p]
  show ?thesis by (fastforce simp: sample_object_def)
qed



end
