(* ===== verification/Codec.thy ===== *)
theory Codec
  imports Storage
begin

text \<open>
  The objects of the workspace protocol and their encodings: the types of \<open>pkg/wsp\<close>
  (\<open>Signed\<close>, \<open>Principal\<close>, \<open>Control\<close>, \<open>Verified\<close>, \<open>State\<close>, \<open>Compaction\<close>, \<open>JoinRequest\<close>) and
  \<open>pkg/wsp/codec.go\<close>.

  The CBOR library \<open>fxamacker/cbor\<close> is not part of the repository: a \<open>codec\<close> holds what it does on
  one type.  \<open>cd_marshal\<close> encodes a value; \<open>cd_unmarshal\<close> decodes it; \<open>cd_recode\<close> is the encoding
  of the Go value that decoding the bytes gives (a nil and an empty slice are one list here, and
  the library need not encode them alike).  The recipient parsers of \<open>filippo.io/age\<close> and the
  cryptography are parameters in the same way; \<open>wsp_lib\<close> collects them.
\<close>

record signed =
  sd_body :: bytes
  sd_signature :: bytes

record principal =
  pr_id :: string
  pr_signing :: public_key
  pr_recipient :: string
  pr_admin :: bool

record control =
  ct_workspace :: string
  ct_parents :: "digest list"
  ct_height :: "64 word"
  ct_principals :: "principal list"
  ct_author :: string

record verified =
  vf_control :: control
  vf_digest :: digest

record state_rec =
  st_workspace :: string
  st_resource :: string
  st_parents :: "digest list"
  st_control :: digest
  st_ciphertext :: digest
  st_author :: string
  st_created_at :: int

record verified_state =
  vs_state :: state_rec
  vs_digest :: digest

record compaction =
  cp_workspace :: string
  cp_resource :: string
  cp_floor :: digest
  cp_removed :: "digest list"
  cp_control :: digest
  cp_author :: string
  cp_created_at :: int

record verified_compaction =
  vc_compaction :: compaction
  vc_digest :: digest

record join_request =
  jr_workspace :: string
  jr_signing :: public_key
  jr_recipient :: string
  jr_created_at :: int
  jr_replaces :: string

text \<open>
  The sentinel errors of the package and of the storage below it; \<open>ErrOther\<close> is any other error
  (a refusal without a sentinel, a failure of a signer or of the encoder).
\<close>

datatype wsp_error =
  ErrInvalid | ErrRollback | ErrFork "verified list" | ErrStore storage_error | ErrOther

record 'a codec =
  cd_marshal :: "'a \<Rightarrow> bytes option"
  cd_unmarshal :: "bytes \<Rightarrow> 'a option"
  cd_recode :: "bytes \<Rightarrow> bytes option"

record wsp_lib =
  wl_crypto :: crypto
  wl_digest :: digest_lib
  wl_signed :: "signed codec"
  wl_control :: "control codec"
  wl_state :: "state_rec codec"
  wl_compaction :: "compaction codec"
  wl_join :: "join_request codec"
  wl_tag_recipient :: "string \<Rightarrow> bool"
  wl_hybrid_recipient :: "string \<Rightarrow> bool"
  wl_x25519_recipient :: "string \<Rightarrow> bool"

definition decode_canonical :: "'a codec \<Rightarrow> bytes \<Rightarrow> wsp_error + 'a" where
  "decode_canonical cd data =
     (case cd_unmarshal cd data of
        None \<Rightarrow> Inl ErrInvalid
      | Some v \<Rightarrow>
          (case cd_recode cd data of
             None \<Rightarrow> Inl ErrInvalid
           | Some again \<Rightarrow> if data \<noteq> again then Inl ErrInvalid else Inr v))"

definition max_signed_bytes :: nat where
  "max_signed_bytes = 2 ^ 20"

definition encode_signed :: "wsp_lib \<Rightarrow> signed \<Rightarrow> wsp_error + bytes" where
  "encode_signed lib s =
     (case cd_marshal (wl_signed lib) s of None \<Rightarrow> Inl ErrOther | Some b \<Rightarrow> Inr b)"

definition decode_signed :: "wsp_lib \<Rightarrow> bytes \<Rightarrow> wsp_error + signed" where
  "decode_signed lib data =
     (if length data > max_signed_bytes then Inl ErrInvalid
      else res_bind (decode_canonical (wl_signed lib) data) (\<lambda>s.
        if sd_body s = [] \<or> sd_signature s = [] then Inl ErrInvalid else Inr s))"

text \<open>\<open>validDigest\<close> as the validation functions use it.\<close>

definition wsp_valid_digest :: "wsp_lib \<Rightarrow> digest \<Rightarrow> wsp_error + unit" where
  "wsp_valid_digest lib d = (if \<not> valid_digest (wl_digest lib) d then Inl ErrInvalid else Inr ())"

text \<open>The loop that three validation functions share: valid digests, sorted and unique.\<close>

fun check_digests :: "wsp_lib \<Rightarrow> digest option \<Rightarrow> digest list \<Rightarrow> wsp_error + unit" where
  "check_digests lib prev [] = Inr ()"
| "check_digests lib prev (d # ds) =
     (if \<not> valid_digest (wl_digest lib) d then Inl ErrInvalid
      else if (case prev of None \<Rightarrow> False | Some q \<Rightarrow> q \<ge> d) then Inl ErrInvalid
      else check_digests lib (Some d) ds)"

subsection \<open>Recipients\<close>

text \<open>\<open>ParseRecipient\<close> of \<open>pkg/age/encrypt.go\<close>: true when it returns no error.\<close>

definition prefix_tag :: string where "prefix_tag = ''age1tag1''"
definition prefix_tag_hybrid :: string where "prefix_tag_hybrid = ''age1tagpq1''"
definition prefix_hybrid :: string where "prefix_hybrid = ''age1pq1''"

definition parse_recipient :: "wsp_lib \<Rightarrow> string \<Rightarrow> bool" where
  "parse_recipient lib s =
     (if has_prefix s prefix_tag \<or> has_prefix s prefix_tag_hybrid then wl_tag_recipient lib s
      else if has_prefix s prefix_hybrid then wl_hybrid_recipient lib s
      else wl_x25519_recipient lib s)"

definition is_post_quantum :: "string \<Rightarrow> bool" where
  "is_post_quantum s \<longleftrightarrow> has_prefix s prefix_hybrid \<or> has_prefix s prefix_tag_hybrid"

definition post_quantum :: "string list \<Rightarrow> bool" where
  "post_quantum recipients \<longleftrightarrow> recipients \<noteq> [] \<and> (\<forall>r\<in>set recipients. is_post_quantum r)"

datatype recipient_kind = RecipientX25519 | RecipientP256 | RecipientHybrid | RecipientTagHybrid

definition recipient_kind :: "string \<Rightarrow> recipient_kind" where
  "recipient_kind s =
     (if has_prefix s prefix_tag_hybrid then RecipientTagHybrid
      else if has_prefix s prefix_tag then RecipientP256
      else if has_prefix s prefix_hybrid then RecipientHybrid
      else RecipientX25519)"

subsection \<open>Facts about decoding\<close>

lemma decode_canonical_Inr:
  "decode_canonical cd data = Inr v \<longleftrightarrow> cd_unmarshal cd data = Some v \<and> cd_recode cd data = Some data"
  by (auto simp: decode_canonical_def split: option.splits if_splits)

lemma decode_canonical_Inl: "decode_canonical cd data = Inl e \<Longrightarrow> e = ErrInvalid"
  by (auto simp: decode_canonical_def split: option.splits if_splits)

lemma decode_signed_Inr:
  "decode_signed lib data = Inr s \<longleftrightarrow> length data \<le> max_signed_bytes
     \<and> cd_unmarshal (wl_signed lib) data = Some s \<and> cd_recode (wl_signed lib) data = Some data
     \<and> sd_body s \<noteq> [] \<and> sd_signature s \<noteq> []"
  by (auto simp: decode_signed_def res_simps decode_canonical_Inr split: if_splits)

lemma decode_signed_Inl: "decode_signed lib data = Inl e \<Longrightarrow> e = ErrInvalid"
  by (auto simp: decode_signed_def res_simps dest: decode_canonical_Inl split: if_splits)

lemma check_digests_Inr:
  "check_digests lib prev ds = Inr () \<longleftrightarrow> (\<forall>d\<in>set ds. valid_digest (wl_digest lib) d)
     \<and> sorted_wrt (<) ((case prev of None \<Rightarrow> [] | Some q \<Rightarrow> [q]) @ ds)"
proof (induction ds arbitrary: prev)
  case (Cons d ds)
  then show ?case
    by (auto simp: not_le split: option.splits)
qed (auto split: option.splits)

lemma check_digests_Inl: "check_digests lib prev ds = Inl e \<Longrightarrow> e = ErrInvalid"
  by (induction lib prev ds rule: check_digests.induct) (auto split: if_splits option.splits)

text \<open>What decoding a value that was encoded gives, for the values a theorem is about.\<close>

definition codec_round :: "'a codec \<Rightarrow> 'a \<Rightarrow> bool" where
  "codec_round cd x \<longleftrightarrow>
     (\<forall>b. cd_marshal cd x = Some b \<longrightarrow> cd_unmarshal cd b = Some x \<and> cd_recode cd b = Some b)"

lemma codec_round_decode: "codec_round cd x \<Longrightarrow> cd_marshal cd x = Some b \<Longrightarrow> decode_canonical cd b = Inr x"
  by (simp add: codec_round_def decode_canonical_Inr)

end
