(* ===== verification/Control.thy ===== *)
theory Control
  imports Codec
begin

text \<open>
  Control objects, \<open>pkg/wsp/control.go\<close>: their structure, signing them, and verifying a genesis
  Control against the trusted digest or a child against its verified parents.  Every refusal is
  \<open>ErrInvalid\<close>, as in the code, whose messages differ only in wording.
\<close>

definition max_principals :: nat where
  "max_principals = 1024"

fun find_principal :: "principal list \<Rightarrow> string \<Rightarrow> principal option" where
  "find_principal [] i = None"
| "find_principal (p # ps) i = (if pr_id p = i then Some p else find_principal ps i)"

text \<open>\<open>Control.Principal\<close>.\<close>

definition control_principal :: "control \<Rightarrow> string \<Rightarrow> principal option" where
  "control_principal c i = find_principal (ct_principals c) i"

definition control_recipients :: "control \<Rightarrow> string list" where
  "control_recipients c = map pr_recipient (ct_principals c)"

text \<open>The loop over the principals, with the id before and the number of admins so far.\<close>

fun principals_loop :: "wsp_lib \<Rightarrow> string option \<Rightarrow> principal list \<Rightarrow> nat \<Rightarrow> wsp_error + nat" where
  "principals_loop lib prev [] admins = Inr admins"
| "principals_loop lib prev (p # ps) admins =
     (if (case prev of None \<Rightarrow> False | Some q \<Rightarrow> q \<ge> pr_id p) then Inl ErrInvalid
      else if key_validate (wl_crypto lib) (pr_signing p) \<noteq> Inr () then Inl ErrInvalid
      else if pr_id p \<noteq> device_id (wl_crypto lib) (pr_signing p) then Inl ErrInvalid
      else if \<not> parse_recipient lib (pr_recipient p) then Inl ErrInvalid
      else principals_loop lib (Some (pr_id p)) ps (if pr_admin p then admins + 1 else admins))"

definition control_validate :: "wsp_lib \<Rightarrow> control \<Rightarrow> wsp_error + unit" where
  "control_validate lib c =
     (if ct_workspace c = [] then Inl ErrInvalid
      else if ct_parents c = [] \<and> ct_height c \<noteq> 0 then Inl ErrInvalid
      else if ct_parents c \<noteq> [] \<and> ct_height c = 0 then Inl ErrInvalid
      else if length (ct_parents c) > max_principals then Inl ErrInvalid
      else res_bind (check_digests lib None (ct_parents c)) (\<lambda>_.
        if \<not> device_id_validate (ct_author c) then Inl ErrInvalid
        else if ct_principals c = [] \<or> length (ct_principals c) > max_principals then Inl ErrInvalid
        else res_bind (principals_loop lib None (ct_principals c) 0) (\<lambda>admins.
          if admins = 0 then Inl ErrInvalid else Inr ())))"

definition control_canonical :: "control \<Rightarrow> control" where
  "control_canonical c = c\<lparr>ct_principals := sort_key pr_id (ct_principals c)\<rparr>"

text \<open>A failure of the signer is a plain error.\<close>

definition signer_sign :: "signer \<Rightarrow> string \<Rightarrow> bytes \<Rightarrow> wsp_error + bytes" where
  "signer_sign sg domain body = (case sg_sign sg domain body of Inl e \<Rightarrow> Inl ErrOther | Inr b \<Rightarrow> Inr b)"

definition marshal :: "'a codec \<Rightarrow> 'a \<Rightarrow> wsp_error + bytes" where
  "marshal cd x = (case cd_marshal cd x of None \<Rightarrow> Inl ErrOther | Some b \<Rightarrow> Inr b)"

definition sign_control :: "wsp_lib \<Rightarrow> control \<Rightarrow> signer \<Rightarrow> wsp_error + bytes" where
  "sign_control lib c0 sg =
     (let c = control_canonical c0 in
      res_bind (control_validate lib c) (\<lambda>_.
        if device_id (wl_crypto lib) (sg_public sg) \<noteq> ct_author c then Inl ErrInvalid
        else res_bind (marshal (wl_control lib) c) (\<lambda>body.
          res_bind (signer_sign sg domain_control body) (\<lambda>sig.
            encode_signed lib \<lparr>sd_body = body, sd_signature = sig\<rparr>))))"

definition decode_control :: "wsp_lib \<Rightarrow> bytes \<Rightarrow> wsp_error + control" where
  "decode_control lib body =
     res_bind (decode_canonical (wl_control lib) body) (\<lambda>c.
       res_bind (control_validate lib c) (\<lambda>_. Inr c))"

definition verify_genesis :: "wsp_lib \<Rightarrow> string \<Rightarrow> bytes \<Rightarrow> digest \<Rightarrow> wsp_error + verified" where
  "verify_genesis lib workspace blob trusted =
     (if dl_from_bytes (wl_digest lib) blob \<noteq> trusted then Inl ErrInvalid
      else res_bind (decode_signed lib blob) (\<lambda>s.
        res_bind (decode_control lib (sd_body s)) (\<lambda>c.
          if ct_parents c \<noteq> [] \<or> ct_workspace c \<noteq> workspace then Inl ErrInvalid
          else case control_principal c (ct_author c) of
            None \<Rightarrow> Inl ErrInvalid
          | Some author \<Rightarrow>
              (if \<not> pr_admin author then Inl ErrInvalid
               else if verify (wl_crypto lib) (pr_signing author) domain_control (sd_body s) (sd_signature s) \<noteq> Inr ()
                 then Inl ErrInvalid
               else Inr \<lparr>vf_control = c, vf_digest = trusted\<rparr>))))"

text \<open>The loop over the parents: same workspace, and the greatest height.\<close>

fun parents_height :: "string \<Rightarrow> verified list \<Rightarrow> 64 word \<Rightarrow> wsp_error + 64 word" where
  "parents_height ws [] h = Inr h"
| "parents_height ws (p # ps) h =
     (if ws \<noteq> ct_workspace (vf_control p) then Inl ErrInvalid
      else parents_height ws ps (max h (ct_height (vf_control p))))"

fun author_key :: "string \<Rightarrow> verified list \<Rightarrow> public_key \<Rightarrow> wsp_error + public_key" where
  "author_key i [] key = Inr key"
| "author_key i (p # ps) key =
     (case control_principal (vf_control p) i of
        None \<Rightarrow> Inl ErrInvalid
      | Some author \<Rightarrow> if \<not> pr_admin author then Inl ErrInvalid else author_key i ps (pr_signing author))"

text \<open>The loop of \<open>checkResolution\<close> over the parents for one principal: listed, and was an admin.\<close>

fun resolution_parents :: "wsp_lib \<Rightarrow> principal \<Rightarrow> verified list \<Rightarrow> bool \<Rightarrow> bool \<Rightarrow> wsp_error + bool \<times> bool" where
  "resolution_parents lib p [] listed was_admin = Inr (listed, was_admin)"
| "resolution_parents lib p (q # qs) listed was_admin =
     (case control_principal (vf_control q) (pr_id p) of
        None \<Rightarrow> resolution_parents lib p qs listed was_admin
      | Some old \<Rightarrow>
          (if device_id (wl_crypto lib) (pr_signing old) \<noteq> device_id (wl_crypto lib) (pr_signing p)
              \<or> pr_recipient old \<noteq> pr_recipient p then Inl ErrInvalid
           else resolution_parents lib p qs True (was_admin \<or> pr_admin old)))"

definition check_resolution :: "wsp_lib \<Rightarrow> verified list \<Rightarrow> control \<Rightarrow> wsp_error + unit" where
  "check_resolution lib parents c =
     check_all (\<lambda>p.
       res_bind (resolution_parents lib p parents False False) (\<lambda>(listed, was_admin).
         if \<not> listed then Inl ErrInvalid
         else if pr_admin p \<and> \<not> was_admin then Inl ErrInvalid
         else Inr ())) (ct_principals c)"

definition no_key :: public_key where
  "no_key = \<lparr>pk_alg = [], pk_bytes = []\<rparr>"

definition verify_child :: "wsp_lib \<Rightarrow> verified list \<Rightarrow> bytes \<Rightarrow> wsp_error + verified" where
  "verify_child lib parents blob =
     (if parents = [] then Inl ErrInvalid
      else res_bind (decode_signed lib blob) (\<lambda>s.
        res_bind (decode_control lib (sd_body s)) (\<lambda>c.
          res_bind (parents_height (ct_workspace c) parents 0) (\<lambda>height.
            if ct_parents c \<noteq> sort (map vf_digest parents) then Inl ErrInvalid
            else if ct_height c \<noteq> height + 1 then Inl ErrInvalid
            else res_bind (author_key (ct_author c) parents no_key) (\<lambda>key.
              if verify (wl_crypto lib) key domain_control (sd_body s) (sd_signature s) \<noteq> Inr () then Inl ErrInvalid
              else res_bind (if length parents > 1 then check_resolution lib parents c else Inr ()) (\<lambda>_.
                Inr \<lparr>vf_control = c, vf_digest = dl_from_bytes (wl_digest lib) blob\<rparr>))))))"

subsection \<open>Principals of a valid control\<close>

lemma find_principal_Some: "find_principal ps i = Some p \<Longrightarrow> p \<in> set ps \<and> pr_id p = i"
  by (induction ps) (auto split: if_splits)

lemma find_principal_None: "find_principal ps i = None \<longleftrightarrow> i \<notin> pr_id ` set ps"
  by (induction ps) auto

lemma control_principal_Some:
  "control_principal c i = Some p \<Longrightarrow> p \<in> set (ct_principals c) \<and> pr_id p = i"
  by (simp add: control_principal_def find_principal_Some)

lemma find_principal_distinct:
  "distinct (map pr_id ps) \<Longrightarrow> p \<in> set ps \<Longrightarrow> find_principal ps (pr_id p) = Some p"
  by (induction ps) (auto simp: rev_image_eqI)

lemma principals_loop_Inr:
  "principals_loop lib prev ps n = Inr m \<longleftrightarrow>
     sorted_wrt (<) ((case prev of None \<Rightarrow> [] | Some q \<Rightarrow> [q]) @ map pr_id ps)
     \<and> (\<forall>p\<in>set ps. key_validate (wl_crypto lib) (pr_signing p) = Inr ()
          \<and> pr_id p = device_id (wl_crypto lib) (pr_signing p) \<and> parse_recipient lib (pr_recipient p))
     \<and> m = n + length (filter pr_admin ps)"
proof (induction ps arbitrary: prev n)
  case (Cons p ps)
  then show ?case
    by (auto simp: not_le split: option.splits)
qed (auto split: option.splits)

lemma principals_loop_Inl: "principals_loop lib prev ps n = Inl e \<Longrightarrow> e = ErrInvalid"
  by (induction lib prev ps n rule: principals_loop.induct) (auto split: if_splits option.splits)

text \<open>What \<open>Validate\<close> accepts, as one conjunction.\<close>

definition control_ok :: "wsp_lib \<Rightarrow> control \<Rightarrow> bool" where
  "control_ok lib c \<longleftrightarrow>
     ct_workspace c \<noteq> [] \<and> (ct_parents c = [] \<longleftrightarrow> ct_height c = 0)
     \<and> length (ct_parents c) \<le> max_principals
     \<and> (\<forall>d\<in>set (ct_parents c). valid_digest (wl_digest lib) d) \<and> sorted_wrt (<) (ct_parents c)
     \<and> device_id_validate (ct_author c)
     \<and> length (ct_principals c) \<le> max_principals \<and> sorted_wrt (<) (map pr_id (ct_principals c))
     \<and> (\<forall>p\<in>set (ct_principals c). key_validate (wl_crypto lib) (pr_signing p) = Inr ()
          \<and> pr_id p = device_id (wl_crypto lib) (pr_signing p) \<and> parse_recipient lib (pr_recipient p))
     \<and> (\<exists>p\<in>set (ct_principals c). pr_admin p)"

lemma control_validate_Inr: "control_validate lib c = Inr () \<longleftrightarrow> control_ok lib c"
proof -
  have adm: "length (filter pr_admin ps) = 0 \<longleftrightarrow> \<not> (\<exists>p\<in>set ps. pr_admin p)" for ps
    by (auto simp: filter_empty_conv)
  show ?thesis
    by (auto simp: control_validate_def control_ok_def res_simps check_digests_Inr principals_loop_Inr adm
        filter_empty_conv)
qed

lemma control_validate_Inl: "control_validate lib c = Inl e \<Longrightarrow> e = ErrInvalid"
  by (auto simp: control_validate_def res_simps dest: check_digests_Inl principals_loop_Inl split: if_splits)

lemma control_ok_distinct: "control_ok lib c \<Longrightarrow> distinct (map pr_id (ct_principals c))"
  by (simp add: control_ok_def strict_sorted_iff)

lemma control_principal_iff:
  assumes "control_ok lib c"
  shows "control_principal c i = Some p \<longleftrightarrow> p \<in> set (ct_principals c) \<and> pr_id p = i"
  using find_principal_distinct [OF control_ok_distinct [OF assms]] find_principal_Some
  by (auto simp: control_principal_def)

lemma decode_control_Inr:
  "decode_control lib body = Inr c \<longleftrightarrow>
     cd_unmarshal (wl_control lib) body = Some c \<and> cd_recode (wl_control lib) body = Some body \<and> control_ok lib c"
  by (auto simp: decode_control_def res_simps decode_canonical_Inr control_validate_Inr)

lemma decode_control_Inl: "decode_control lib body = Inl e \<Longrightarrow> e = ErrInvalid"
  by (auto simp: decode_control_def res_simps dest: decode_canonical_Inl control_validate_Inl)

subsection \<open>What verification establishes\<close>

lemma parents_height_Inr:
  "parents_height ws ps h = Inr h' \<longleftrightarrow>
     (\<forall>p\<in>set ps. ct_workspace (vf_control p) = ws) \<and> h' = foldl max h (map (\<lambda>p. ct_height (vf_control p)) ps)"
  by (induction ps arbitrary: h) auto

lemma author_key_Inr:
  "author_key i ps key = Inr k \<Longrightarrow>
     (\<forall>p\<in>set ps. \<exists>a. control_principal (vf_control p) i = Some a \<and> pr_admin a)
     \<and> (if ps = [] then k = key else \<exists>a. control_principal (vf_control (last ps)) i = Some a \<and> k = pr_signing a)"
  by (induction ps arbitrary: key) (auto split: option.splits if_splits)

lemma resolution_parents_Inr:
  "resolution_parents lib p qs l a = Inr (l', a') \<Longrightarrow>
     (\<forall>q\<in>set qs. \<forall>old. control_principal (vf_control q) (pr_id p) = Some old \<longrightarrow>
        device_id (wl_crypto lib) (pr_signing old) = device_id (wl_crypto lib) (pr_signing p)
        \<and> pr_recipient old = pr_recipient p)
     \<and> (l' \<longleftrightarrow> l \<or> (\<exists>q\<in>set qs. control_principal (vf_control q) (pr_id p) \<noteq> None))
     \<and> (a' \<longleftrightarrow> a \<or> (\<exists>q\<in>set qs. \<exists>old. control_principal (vf_control q) (pr_id p) = Some old \<and> pr_admin old))"
proof (induction qs arbitrary: l a)
  case (Cons q qs)
  show ?case
  proof (cases "control_principal (vf_control q) (pr_id p)")
    case None
    with Cons.prems Cons.IH show ?thesis by simp
  next
    case (Some old)
    with Cons.prems have
      old: "device_id (wl_crypto lib) (pr_signing old) = device_id (wl_crypto lib) (pr_signing p)"
        "pr_recipient old = pr_recipient p"
      and rec: "resolution_parents lib p qs True (a \<or> pr_admin old) = Inr (l', a')"
      by (simp_all split: if_splits)
    from Cons.IH [OF rec] Some old show ?thesis by simp
  qed
qed simp

text \<open>What \<open>VerifyChild\<close> means: the control is authorized by its parents.\<close>

definition child_of :: "wsp_lib \<Rightarrow> verified list \<Rightarrow> bytes \<Rightarrow> control \<Rightarrow> bool" where
  "child_of lib parents blob c \<longleftrightarrow>
     (\<exists>s. decode_signed lib blob = Inr s \<and> decode_control lib (sd_body s) = Inr c
        \<and> parents \<noteq> [] \<and> ct_parents c = sort (map vf_digest parents)
        \<and> (\<forall>p\<in>set parents. ct_workspace (vf_control p) = ct_workspace c)
        \<and> ct_height c = foldl max 0 (map (\<lambda>p. ct_height (vf_control p)) parents) + 1
        \<and> (\<forall>p\<in>set parents. \<exists>a. control_principal (vf_control p) (ct_author c) = Some a \<and> pr_admin a)
        \<and> (\<exists>p\<in>set parents. \<exists>a. control_principal (vf_control p) (ct_author c) = Some a
             \<and> verify (wl_crypto lib) (pr_signing a) domain_control (sd_body s) (sd_signature s) = Inr ()))
     \<and> (length parents > 1 \<longrightarrow> (\<forall>p\<in>set (ct_principals c).
          (\<exists>q\<in>set parents. \<exists>old. control_principal (vf_control q) (pr_id p) = Some old
             \<and> pr_recipient old = pr_recipient p)
          \<and> (\<forall>q\<in>set parents. \<forall>old. control_principal (vf_control q) (pr_id p) = Some old \<longrightarrow>
               device_id (wl_crypto lib) (pr_signing old) = device_id (wl_crypto lib) (pr_signing p)
               \<and> pr_recipient old = pr_recipient p)
          \<and> (pr_admin p \<longrightarrow> (\<exists>q\<in>set parents. \<exists>old. control_principal (vf_control q) (pr_id p) = Some old \<and> pr_admin old))))"

lemma check_resolution_Inr:
  assumes "check_resolution lib parents c = Inr ()" and "p \<in> set (ct_principals c)"
  shows "(\<exists>q\<in>set parents. \<exists>old. control_principal (vf_control q) (pr_id p) = Some old
            \<and> pr_recipient old = pr_recipient p)
       \<and> (\<forall>q\<in>set parents. \<forall>old. control_principal (vf_control q) (pr_id p) = Some old \<longrightarrow>
            device_id (wl_crypto lib) (pr_signing old) = device_id (wl_crypto lib) (pr_signing p)
            \<and> pr_recipient old = pr_recipient p)
       \<and> (pr_admin p \<longrightarrow> (\<exists>q\<in>set parents. \<exists>old. control_principal (vf_control q) (pr_id p) = Some old \<and> pr_admin old))"
proof -
  obtain l a where r: "resolution_parents lib p parents False False = Inr (l, a)" "l" "pr_admin p \<longrightarrow> a"
    using assms by (auto simp: check_resolution_def check_all_Inr res_simps split: if_splits)
  show ?thesis
    using resolution_parents_Inr [OF r(1)] r(2,3) by blast
qed

lemma verify_child_Inr:
  assumes "verify_child lib parents blob = Inr v"
  shows "child_of lib parents blob (vf_control v) \<and> vf_digest v = dl_from_bytes (wl_digest lib) blob
    \<and> control_ok lib (vf_control v)"
proof -
  obtain s c h key where v: "parents \<noteq> []" "decode_signed lib blob = Inr s" "decode_control lib (sd_body s) = Inr c"
    "parents_height (ct_workspace c) parents 0 = Inr h" "ct_parents c = sort (map vf_digest parents)"
    "ct_height c = h + 1" "author_key (ct_author c) parents no_key = Inr key"
    "verify (wl_crypto lib) key domain_control (sd_body s) (sd_signature s) = Inr ()"
    "length parents > 1 \<longrightarrow> check_resolution lib parents c = Inr ()"
    "v = \<lparr>vf_control = c, vf_digest = dl_from_bytes (wl_digest lib) blob\<rparr>"
    using assms by (auto simp: verify_child_def res_simps split: if_splits)
  have "control_ok lib c"
    using v(3) by (simp add: decode_control_Inr)
  moreover have "\<forall>p\<in>set parents. ct_workspace (vf_control p) = ct_workspace c"
    "h = foldl max 0 (map (\<lambda>p. ct_height (vf_control p)) parents)"
    using v(4) by (simp_all add: parents_height_Inr)
  moreover have "\<forall>p\<in>set parents. \<exists>a. control_principal (vf_control p) (ct_author c) = Some a \<and> pr_admin a"
    "\<exists>a. control_principal (vf_control (last parents)) (ct_author c) = Some a \<and> key = pr_signing a"
    using author_key_Inr [OF v(7)] v(1) by auto
  moreover have "last parents \<in> set parents"
    using v(1) by simp
  ultimately show ?thesis
    using v check_resolution_Inr [of lib parents c] unfolding child_of_def by auto
qed

lemma verify_genesis_Inr:
  assumes "verify_genesis lib ws blob trusted = Inr v"
  shows "vf_digest v = trusted \<and> dl_from_bytes (wl_digest lib) blob = trusted \<and> control_ok lib (vf_control v)
    \<and> ct_workspace (vf_control v) = ws \<and> ct_parents (vf_control v) = []
    \<and> (\<exists>s a. decode_signed lib blob = Inr s \<and> decode_control lib (sd_body s) = Inr (vf_control v)
        \<and> control_principal (vf_control v) (ct_author (vf_control v)) = Some a \<and> pr_admin a
        \<and> verify (wl_crypto lib) (pr_signing a) domain_control (sd_body s) (sd_signature s) = Inr ())"
  using assms
  by (auto simp: verify_genesis_def res_simps decode_control_Inr split: if_splits option.splits)

end
