(* ===== verification/Dag.thy ===== *)
theory Dag
  imports Prelude
begin

text \<open>
  The revision graph of \<open>pkg/wsp/dag.go\<close>.  A \<open>Graph\<close> is a Go map from a revision to the
  parents it names; a parent need not be in the graph.  \<open>ancestors\<close> is the stack loop of
  \<open>Ancestors\<close>: the head of the list is the top of the Go stack.  The lemmas relate the loop
  to the reflexive transitive closure of the parent relation, and the merge bases to the
  lowest common ancestors of the heads.
\<close>

type_synonym graph = "(digest, digest list) gomap"

definition new_graph :: graph where
  "new_graph = []"

definition graph_add :: "graph \<Rightarrow> digest \<Rightarrow> digest list \<Rightarrow> graph" where
  "graph_add g d parents = gm_put d parents g"

definition graph_has :: "graph \<Rightarrow> digest \<Rightarrow> bool" where
  "graph_has g d \<longleftrightarrow> gm_has g d"

definition graph_len :: "graph \<Rightarrow> nat" where
  "graph_len g = length g"

definition graph_parents :: "graph \<Rightarrow> digest \<Rightarrow> digest list" where
  "graph_parents g d = (case gm_get g d of None \<Rightarrow> [] | Some ps \<Rightarrow> ps)"

definition sort_digests :: "digest list \<Rightarrow> digest list" where
  "sort_digests ds = sort ds"

text \<open>The loop over \<open>g.parents\<close> that collects, once each, the parents the graph lacks.\<close>

fun missing_loop :: "graph \<Rightarrow> digest list \<Rightarrow> digest list \<Rightarrow> digest list" where
  "missing_loop g [] out = out"
| "missing_loop g (p # ps) out =
     (if \<not> graph_has g p \<and> p \<notin> set out then missing_loop g ps (out @ [p])
      else missing_loop g ps out)"

definition missing :: "graph \<Rightarrow> digest list" where
  "missing g = sort_digests (missing_loop g (concat (map snd g)) [])"

definition graph_heads :: "graph \<Rightarrow> digest list" where
  "graph_heads g =
     (let child = set (concat (map snd g))
      in sort_digests (filter (\<lambda>d. d \<notin> child) (map fst g)))"

function anc_loop :: "graph \<Rightarrow> digest list \<Rightarrow> digest list \<Rightarrow> digest list" where
  "anc_loop g [] seen = seen"
| "anc_loop g (cur # stack) seen =
     (if cur \<in> set seen \<or> \<not> graph_has g cur then anc_loop g stack seen
      else anc_loop g (rev (graph_parents g cur) @ stack) (cur # seen))"
  by pat_completeness auto
termination
proof (relation "inv_image (finite_psubset <*lex*> less_than)
    (\<lambda>(g, stack, seen). (fst ` set g - set seen, length stack))", goal_cases)
  case 1
  show ?case by (intro wf_inv_image wf_lex_prod wf_finite_psubset wf_less_than)
next
  case (2 g cur stack seen)
  then show ?case by simp
next
  case (3 g cur stack seen)
  then have "cur \<in> fst ` set g" "cur \<notin> set seen"
    by (auto simp: graph_has_def gm_has_iff)
  then show ?case by (auto simp: finite_psubset_def)
qed

definition ancestors :: "graph \<Rightarrow> digest \<Rightarrow> digest list" where
  "ancestors g d = anc_loop g [d] []"

fun common_loop :: "graph \<Rightarrow> digest list \<Rightarrow> digest list \<Rightarrow> digest list" where
  "common_loop g common [] = common"
| "common_loop g common (h # hs) =
     (let anc = ancestors g h in common_loop g (filter (\<lambda>d. d \<in> set anc) common) hs)"

definition merge_bases :: "graph \<Rightarrow> digest list \<Rightarrow> digest list" where
  "merge_bases g heads =
     (case heads of [] \<Rightarrow> []
      | h # hs \<Rightarrow>
          let common = common_loop g (ancestors g h) hs;
              shadowed = [a. d \<leftarrow> common, a \<leftarrow> ancestors g d, a \<noteq> d]
          in sort_digests (filter (\<lambda>d. d \<notin> set shadowed) common))"

subsection \<open>The parent relation and what the loops compute\<close>

definition parent_rel :: "graph \<Rightarrow> (digest \<times> digest) set" where
  "parent_rel g = {(d, p). graph_has g d \<and> p \<in> set (graph_parents g d) \<and> graph_has g p}"

definition graph_ok :: "graph \<Rightarrow> bool" where
  "graph_ok g \<longleftrightarrow> gm_ok g"

lemma graph_has_new [simp]: "\<not> graph_has new_graph d"
  by (simp add: graph_has_def new_graph_def)

lemma graph_ok_new [simp]: "graph_ok new_graph"
  by (simp add: graph_ok_def new_graph_def)

lemma graph_ok_add [simp]: "graph_ok g \<Longrightarrow> graph_ok (graph_add g d ps)"
  by (simp add: graph_ok_def graph_add_def)

lemma graph_has_add [simp]: "graph_has (graph_add g d ps) d' \<longleftrightarrow> d' = d \<or> graph_has g d'"
  by (simp add: graph_has_def graph_add_def)

lemma graph_parents_add [simp]:
  "graph_parents (graph_add g d ps) d' = (if d' = d then ps else graph_parents g d')"
  by (simp add: graph_parents_def graph_add_def)

lemma finite_has: "finite {d. graph_has g d}"
  by (simp add: graph_has_def gm_has_iff)

lemma parent_rel_iff:
  "(d, p) \<in> parent_rel g \<longleftrightarrow> graph_has g d \<and> p \<in> set (graph_parents g d) \<and> graph_has g p"
  by (simp add: parent_rel_def)

lemma parent_rel_has: "(d, p) \<in> parent_rel g \<Longrightarrow> graph_has g d \<and> graph_has g p"
  by (simp add: parent_rel_iff)

lemma anc_loop_distinct: "distinct seen \<Longrightarrow> distinct (anc_loop g stack seen)"
  by (induction g stack seen rule: anc_loop.induct) auto

lemma anc_loop_mono: "set seen \<subseteq> set (anc_loop g stack seen)"
  by (induction g stack seen rule: anc_loop.induct) auto

lemma anc_loop_start: "x \<in> set stack \<Longrightarrow> graph_has g x \<Longrightarrow> x \<in> set (anc_loop g stack seen)"
proof (induction g stack seen rule: anc_loop.induct)
  case (2 g cur stack seen)
  have "cur \<in> set (anc_loop g (cur # stack) seen)" if "graph_has g cur"
    using that anc_loop_mono [of seen g stack]
      anc_loop_mono [of "cur # seen" g "rev (graph_parents g cur) @ stack"]
    by (auto split: if_splits)
  with 2 show ?case by auto
qed simp

lemma anc_loop_has: "\<forall>x\<in>set seen. graph_has g x \<Longrightarrow> \<forall>x\<in>set (anc_loop g stack seen). graph_has g x"
  by (induction g stack seen rule: anc_loop.induct) auto

lemma anc_loop_closed:
  assumes "parent_rel g `` set seen \<subseteq> set seen \<union> set stack"
  shows "parent_rel g `` set (anc_loop g stack seen) \<subseteq> set (anc_loop g stack seen)"
  using assms
proof (induction g stack seen rule: anc_loop.induct)
  case (2 g cur stack seen)
  show ?case
  proof (cases "cur \<in> set seen \<or> \<not> graph_has g cur")
    case True
    with 2 have "parent_rel g `` set seen \<subseteq> set seen \<union> set stack"
      by (auto dest: parent_rel_has)
    with True 2 show ?thesis by auto
  next
    case False
    have "parent_rel g `` set (cur # seen)
        \<subseteq> set (cur # seen) \<union> set (rev (graph_parents g cur) @ stack)"
      using "2.prems" by (auto simp: parent_rel_iff)
    with False 2 show ?thesis by auto
  qed
qed simp

lemma anc_loop_reach: "set (anc_loop g stack seen) \<subseteq> set seen \<union> (parent_rel g)\<^sup>* `` (set stack \<inter> {d. graph_has g d})"
proof (induction g stack seen rule: anc_loop.induct)
  case (2 g cur stack seen)
  show ?case
  proof (cases "cur \<in> set seen \<or> \<not> graph_has g cur")
    case True
    with 2 show ?thesis by auto
  next
    case False
    let ?S = "set (graph_parents g cur) \<inter> {d. graph_has g d}"
    have "(parent_rel g)\<^sup>* `` ?S \<subseteq> (parent_rel g)\<^sup>* `` {cur}"
      using False by (auto simp: parent_rel_iff intro: converse_rtrancl_into_rtrancl)
    with False 2 show ?thesis by auto
  qed
qed simp

declare anc_loop.simps(2) [simp del]

lemma set_ancestors:
  "set (ancestors g d) = (if graph_has g d then (parent_rel g)\<^sup>* `` {d} else {})"
proof (cases "graph_has g d")
  case True
  have "set (anc_loop g [d] []) = (parent_rel g)\<^sup>* `` {d}"
  proof (rule closed_set_is_reach)
    show "{d} \<subseteq> set (anc_loop g [d] [])"
      using anc_loop_start [of d "[d]" g "[]"] True by (simp only:) simp
    show "parent_rel g `` set (anc_loop g [d] []) \<subseteq> set (anc_loop g [d] [])"
      by (rule anc_loop_closed) simp
    show "set (anc_loop g [d] []) \<subseteq> (parent_rel g)\<^sup>* `` {d}"
      using anc_loop_reach [of g "[d]" "[]"] by auto
  qed
  with True show ?thesis by (simp add: ancestors_def)
next
  case False
  then show ?thesis by (simp add: ancestors_def anc_loop.simps)
qed

lemma ancestors_iff: "a \<in> set (ancestors g d) \<longleftrightarrow> graph_has g d \<and> (d, a) \<in> (parent_rel g)\<^sup>*"
  by (simp add: set_ancestors)

lemma distinct_ancestors [simp]: "distinct (ancestors g d)"
  by (simp add: ancestors_def anc_loop_distinct)

lemma ancestors_has: "a \<in> set (ancestors g d) \<Longrightarrow> graph_has g a"
  using anc_loop_has [of "[]" g "[d]"] by (simp add: ancestors_def)

lemma ancestors_refl [simp]: "d \<in> set (ancestors g d) \<longleftrightarrow> graph_has g d"
  by (auto simp: ancestors_iff)

lemma ancestors_trans:
  "b \<in> set (ancestors g a) \<Longrightarrow> c \<in> set (ancestors g b) \<Longrightarrow> c \<in> set (ancestors g a)"
  by (auto simp: ancestors_iff)

subsection \<open>Missing parents and heads\<close>

lemma graph_has_entry: "graph_ok g \<Longrightarrow> (d, ps) \<in> set g \<longleftrightarrow> graph_has g d \<and> graph_parents g d = ps"
  by (auto simp: graph_ok_def graph_has_def gm_has_get graph_parents_def simp flip: gm_get_in)

lemma set_missing_loop:
  "set (missing_loop g ps out) = set out \<union> {p \<in> set ps. \<not> graph_has g p}"
  by (induction g ps out rule: missing_loop.induct) auto

lemma distinct_missing_loop: "distinct out \<Longrightarrow> distinct (missing_loop g ps out)"
  by (induction g ps out rule: missing_loop.induct) auto

lemma named_parents:
  "graph_ok g \<Longrightarrow> set (concat (map snd g)) = {p. \<exists>d. graph_has g d \<and> p \<in> set (graph_parents g d)}"
  using graph_has_entry [of g] by (auto simp: image_iff) (metis snd_conv)

lemma missing_correct:
  assumes "graph_ok g"
  shows "set (missing g) = {p. \<not> graph_has g p \<and> (\<exists>d. graph_has g d \<and> p \<in> set (graph_parents g d))}"
    and "sorted (missing g)" and "distinct (missing g)"
  using named_parents [OF assms]
  by (auto simp: missing_def sort_digests_def set_missing_loop distinct_missing_loop simp del: set_concat)

lemma set_graph_heads:
  assumes "graph_ok g"
  shows "set (graph_heads g) = {d. graph_has g d \<and> (\<forall>c. (c, d) \<notin> parent_rel g)}"
proof -
  have "fst ` set g = {d. graph_has g d}"
    by (auto simp: graph_has_def gm_has_iff)
  then show ?thesis
    using named_parents [OF assms]
    by (auto simp: graph_heads_def sort_digests_def Let_def parent_rel_iff simp del: set_concat)
qed

lemma distinct_graph_heads: "graph_ok g \<Longrightarrow> distinct (graph_heads g)"
  by (simp add: graph_heads_def sort_digests_def Let_def graph_ok_def)

lemma sorted_graph_heads: "sorted (graph_heads g)"
  by (simp add: graph_heads_def sort_digests_def Let_def)

text \<open>
  In an acyclic graph (a digest cannot name itself, directly or not) every revision is an
  ancestor of a head: reading the heads misses nothing.
\<close>

lemma heads_cover:
  assumes "graph_ok g" and "acyclic (parent_rel g)" and "graph_has g d"
  shows "\<exists>h\<in>set (graph_heads g). d \<in> set (ancestors g h)"
proof -
  obtain m where "graph_has g m" "(m, d) \<in> (parent_rel g)\<^sup>*" "\<forall>y. (y, m) \<notin> parent_rel g"
    using finite_acyclic_top [OF finite_has assms(2), of d g] assms(3) by (auto dest: parent_rel_has)
  then show ?thesis
    using assms(1) by (auto simp: set_graph_heads ancestors_iff)
qed

subsection \<open>Merge bases\<close>

definition common_ancestor :: "graph \<Rightarrow> digest list \<Rightarrow> digest \<Rightarrow> bool" where
  "common_ancestor g heads d \<longleftrightarrow> heads \<noteq> [] \<and> (\<forall>h\<in>set heads. d \<in> set (ancestors g h))"

lemma set_common_loop:
  "set (common_loop g common hs) = {d \<in> set common. \<forall>h\<in>set hs. d \<in> set (ancestors g h)}"
  by (induction g common hs rule: common_loop.induct) (auto simp: Let_def)

lemma distinct_common_loop: "distinct common \<Longrightarrow> distinct (common_loop g common hs)"
  by (induction g common hs rule: common_loop.induct) (auto simp: Let_def)

lemma common_ancestor_down:
  "common_ancestor g heads d \<Longrightarrow> a \<in> set (ancestors g d) \<Longrightarrow> common_ancestor g heads a"
  by (auto simp: common_ancestor_def intro: ancestors_trans)

lemma set_merge_bases:
  "set (merge_bases g heads) =
     {d. common_ancestor g heads d \<and>
         (\<forall>c. common_ancestor g heads c \<and> d \<in> set (ancestors g c) \<longrightarrow> c = d)}"
  by (cases heads)
    (auto simp: merge_bases_def Let_def sort_digests_def set_common_loop common_ancestor_def)

lemma distinct_merge_bases: "distinct (merge_bases g heads)"
  by (cases heads) (auto simp: merge_bases_def Let_def sort_digests_def distinct_common_loop)

lemma sorted_merge_bases: "sorted (merge_bases g heads)"
  by (cases heads) (auto simp: merge_bases_def Let_def sort_digests_def)

lemma merge_bases_set_cong:
  assumes "set heads = set heads'"
  shows "merge_bases g heads = merge_bases g heads'"
proof -
  have "heads = [] \<longleftrightarrow> heads' = []"
    using assms by auto
  then have "common_ancestor g heads = common_ancestor g heads'"
    using assms by (simp add: common_ancestor_def fun_eq_iff)
  then have "set (merge_bases g heads) = set (merge_bases g heads')"
    by (simp add: set_merge_bases)
  then show ?thesis
    by (intro sorted_distinct_set_unique sorted_merge_bases distinct_merge_bases)
qed

text \<open>In an acyclic graph every common ancestor is an ancestor of some merge base.\<close>

lemma merge_bases_cover:
  assumes "acyclic (parent_rel g)" and "common_ancestor g heads d"
  shows "\<exists>b\<in>set (merge_bases g heads). d \<in> set (ancestors g b)"
proof -
  let ?V = "{d. common_ancestor g heads d}"
  let ?r = "parent_rel g \<inter> ?V \<times> ?V"
  have sub: "?V \<subseteq> {d. graph_has g d}"
    by (cases heads) (auto simp: common_ancestor_def dest: ancestors_has)
  then have fin: "finite ?V"
    using finite_has by (rule finite_subset)
  have acy: "acyclic ?r"
    using assms(1) by (rule acyclic_subset) blast
  obtain m where m: "common_ancestor g heads m" "(m, d) \<in> ?r\<^sup>*" "\<forall>y. (y, m) \<notin> ?r"
    using finite_acyclic_top [OF fin acy, of d] assms(2) by auto
  have "?r\<^sup>* \<subseteq> (parent_rel g)\<^sup>*"
    by (rule rtrancl_mono) blast
  with m(1,2) sub have "d \<in> set (ancestors g m)"
    by (auto simp: ancestors_iff)
  moreover have "c = m" if c: "common_ancestor g heads c" "m \<in> set (ancestors g c)" for c
  proof (rule ccontr)
    assume "c \<noteq> m"
    with c(2) obtain z where z: "(c, z) \<in> (parent_rel g)\<^sup>*" "(z, m) \<in> parent_rel g"
      by (auto simp: ancestors_iff elim: rtranclE)
    with c have "common_ancestor g heads z"
      by (auto intro: common_ancestor_down simp: ancestors_iff)
    with z(2) m(1,3) show False by blast
  qed
  ultimately show ?thesis
    using m(1) by (auto simp: set_merge_bases)
qed


subsection \<open>Properties\<close>

definition diamond :: graph where
  "diamond = graph_add (graph_add (graph_add (graph_add new_graph ''a'' []) ''b'' [''a'']) ''c'' [''a'']) ''d'' [''b'', ''c'']"

lemma diamond_eq: "diamond = [(''a'', []), (''b'', [''a'']), (''c'', [''a'']), (''d'', [''b'', ''c''])]"
  by code_simp

lemma diamond_acyclic: "graph_ok diamond" "acyclic (parent_rel diamond)"
proof -
  show "graph_ok diamond"
    by (simp add: diamond_def)
  have "(parent_rel diamond)\<inverse> \<subseteq>
      measure (\<lambda>d. if d = ''a'' then 0 else if d = ''d'' then 2 else 1)"
    by (auto simp: parent_rel_iff diamond_eq graph_has_def gm_has_def graph_parents_def gm_get_def
        split: if_splits)
  then have "wf ((parent_rel diamond)\<inverse>)"
    using wf_subset wf_measure by blast
  then show "acyclic (parent_rel diamond)"
    using wf_acyclic acyclic_converse by blast
qed

text \<open>
  \<open>Graph.MergeBases\<close> returns exactly the lowest common ancestors of the heads: the
  revisions every head descends from (or is) and that no other such revision descends from.  The
  list is sorted and duplicate free, does not depend on the order or repetition of the heads,
  and, when digests cannot name themselves, every common ancestor lies behind one of them, so a
  merge against these bases ignores no common history.
\<close>

theorem merge_bases_lowest:
  assumes "graph_ok g" and "acyclic (parent_rel g)" and "set heads' = set heads"
  shows "(set (merge_bases g heads) =
      {d. common_ancestor g heads d \<and>
          (\<forall>c. common_ancestor g heads c \<and> d \<in> set (ancestors g c) \<longrightarrow> c = d)})
    \<and> (sorted (merge_bases g heads))
    \<and> (distinct (merge_bases g heads))
    \<and> (merge_bases g heads' = merge_bases g heads)
    \<and> (\<forall>d. common_ancestor g heads d \<longrightarrow> (\<exists>b\<in>set (merge_bases g heads). d \<in> set (ancestors g b)))"
proof (intro conjI)
  show "set (merge_bases g heads) =
      {d. common_ancestor g heads d \<and>
          (\<forall>c. common_ancestor g heads c \<and> d \<in> set (ancestors g c) \<longrightarrow> c = d)}"
    by (rule set_merge_bases)
  show "sorted (merge_bases g heads)" "distinct (merge_bases g heads)"
    by (rule sorted_merge_bases, rule distinct_merge_bases)
  show "merge_bases g heads' = merge_bases g heads"
    using assms(3) by (rule merge_bases_set_cong)
  show "\<forall>d. common_ancestor g heads d \<longrightarrow> (\<exists>b\<in>set (merge_bases g heads). d \<in> set (ancestors g b))"
    using merge_bases_cover [OF assms(2)] by blast
qed

theorem merge_bases_lowest_witness:
  "merge_bases diamond [''c'', ''b''] = merge_bases diamond [''b'', ''c'', ''b'']
     \<and> merge_bases diamond [''b'', ''c''] = [''a'']"
proof -
  have "merge_bases diamond [''b'', ''c''] = [''a'']"
    unfolding diamond_eq by code_simp
  with merge_bases_lowest [OF diamond_acyclic, of "[''c'', ''b'']" "[''b'', ''c'', ''b'']"]
  show ?thesis by auto
qed

text \<open>
  The heads of a graph are the revisions no other revision names as a parent, and they reach
  everything: each revision of the graph is an ancestor of some head.  \<open>Missing\<close> lists exactly the
  parents the graph does not hold, so a graph with nothing missing is closed under parents and
  \<open>Ancestors\<close> then is the full history: the revisions reachable along the recorded parents.
\<close>

theorem graph_heads_reach_all:
  assumes "graph_ok g" and "acyclic (parent_rel g)"
  shows "(set (graph_heads g) = {d. graph_has g d \<and> (\<forall>c. graph_has g c \<longrightarrow> d \<notin> set (graph_parents g c))})
    \<and> (\<forall>d. graph_has g d \<longrightarrow> (\<exists>h\<in>set (graph_heads g). d \<in> set (ancestors g h)))
    \<and> (set (missing g) = {p. \<not> graph_has g p \<and> (\<exists>d. graph_has g d \<and> p \<in> set (graph_parents g d))})
    \<and> (missing g = [] \<longrightarrow> (\<forall>d. graph_has g d \<longrightarrow>
          set (ancestors g d) = {(d, p). p \<in> set (graph_parents g d)}\<^sup>* `` {d}))"
proof (intro conjI)
  show "set (graph_heads g) = {d. graph_has g d \<and> (\<forall>c. graph_has g c \<longrightarrow> d \<notin> set (graph_parents g c))}"
    unfolding set_graph_heads [OF assms(1)] by (auto simp: parent_rel_iff)
  show "\<forall>d. graph_has g d \<longrightarrow> (\<exists>h\<in>set (graph_heads g). d \<in> set (ancestors g h))"
    using heads_cover [OF assms] by blast
  show miss: "set (missing g) = {p. \<not> graph_has g p \<and> (\<exists>d. graph_has g d \<and> p \<in> set (graph_parents g d))}"
    by (rule missing_correct(1) [OF assms(1)])
  have absent: "graph_parents g d = []" if "\<not> graph_has g d" for d
    using that by (simp add: graph_parents_def graph_has_def gm_has_get split: option.split)
  show "missing g = [] \<longrightarrow> (\<forall>d. graph_has g d \<longrightarrow>
          set (ancestors g d) = {(d, p). p \<in> set (graph_parents g d)}\<^sup>* `` {d})"
  proof
    assume "missing g = []"
    then have "graph_has g p" if "p \<in> set (graph_parents g d)" for d p
      using that miss absent [of d] by (cases "graph_has g d") auto
    then have "parent_rel g = {(d, p). p \<in> set (graph_parents g d)}"
      using absent by (auto simp: parent_rel_iff) (metis empty_iff list.set(1))
    then show "\<forall>d. graph_has g d \<longrightarrow> set (ancestors g d) = {(d, p). p \<in> set (graph_parents g d)}\<^sup>* `` {d}"
      by (simp add: set_ancestors)
  qed
qed

theorem graph_heads_reach_all_witness:
  "graph_heads diamond = [''d''] \<and> (\<exists>h\<in>{''d''}. ''a'' \<in> set (ancestors diamond h))"
proof -
  have h: "graph_heads diamond = [''d'']"
    unfolding diamond_eq by code_simp
  have "graph_has diamond ''a''"
    by (simp add: diamond_def)
  then show ?thesis
    using graph_heads_reach_all [OF diamond_acyclic, THEN conjunct2, THEN conjunct1] h by auto
qed

end
