(* ===== verification/Chain.thy ===== *)
theory Chain
  imports Control Dag
begin

text \<open>
  The Control DAG, \<open>pkg/wsp/chain.go\<close>: reading and verifying it from an untrusted store, its heads,
  publishing a genesis, a successor or a fork resolution, and whether a device was a member
  throughout.  The store is any record of operations on any state, so everything proved here
  holds whatever the store returns.  \<open>maxControls\<close> and \<open>maxControlBytes\<close> have their shipped values.
\<close>

definition max_controls :: nat where "max_controls = 10000"
definition max_control_bytes :: nat where "max_control_bytes = 32 * 2 ^ 20"

text \<open>\<open>ControlView\<close>; \<open>cv_membership\<close> is the memo of \<open>MembershipUnbroken\<close>, keyed by head, from and id.\<close>

record control_view =
  cv_workspace :: string
  cv_genesis :: digest
  cv_heads :: "verified list"
  cv_verified :: "(digest, verified) gomap"
  cv_membership :: "(digest \<times> digest \<times> string, bool) gomap"

definition cv_get :: "control_view \<Rightarrow> digest \<Rightarrow> verified option" where
  "cv_get v d = gm_get (cv_verified v) d"

definition cv_digests :: "control_view \<Rightarrow> digest list" where
  "cv_digests v = sort_digests (map fst (cv_verified v))"

definition cv_forked :: "control_view \<Rightarrow> bool" where
  "cv_forked v \<longleftrightarrow> length (cv_heads v) > 1"

definition cv_head :: "control_view \<Rightarrow> wsp_error + verified" where
  "cv_head v = (if cv_forked v then Inl (ErrFork (cv_heads v)) else Inr (cv_heads v ! 0))"

subsection \<open>Reading the DAG\<close>

type_synonym pending = "(digest, bytes \<times> control) gomap"

function load_queue ::
  "wsp_lib \<Rightarrow> 's store_ops \<Rightarrow> string \<Rightarrow> digest list \<Rightarrow> digest list \<Rightarrow> nat \<Rightarrow> pending \<Rightarrow> 's
    \<Rightarrow> 's \<times> (wsp_error + pending)" where
  "load_queue lib ops ws [] tried tot pend s = (s, Inr pend)"
| "load_queue lib ops ws (rv # queue) tried tot pend s =
     (if rv \<in> set tried then load_queue lib ops ws queue tried tot pend s
      else if length tried \<ge> max_controls then (s, Inl ErrInvalid)
      else
        case so_fetch_head ops KindControl [] rv s of
          (s', Inl e) \<Rightarrow>
            if e = SNotFound \<or> e = SCorrupt then load_queue lib ops ws queue (rv # tried) tot pend s'
            else (s', Inl (ErrStore e))
        | (s', Inr blob) \<Rightarrow>
            if tot + length blob > max_control_bytes then (s', Inl ErrInvalid)
            else
              case res_bind (decode_signed lib blob) (\<lambda>sg. decode_control lib (sd_body sg)) of
                Inl e \<Rightarrow> load_queue lib ops ws queue (rv # tried) (tot + length blob) pend s'
              | Inr c \<Rightarrow>
                  if ct_workspace c \<noteq> ws
                  then load_queue lib ops ws queue (rv # tried) (tot + length blob) pend s'
                  else load_queue lib ops ws (queue @ ct_parents c) (rv # tried) (tot + length blob)
                         (gm_put rv (blob, c) pend) s')"
  by pat_completeness auto
termination
  by (relation "measures [\<lambda>(lib, ops, ws, queue, tried, tot, pend, s). max_controls - length tried,
                          \<lambda>(lib, ops, ws, queue, tried, tot, pend, s). length queue]")
    auto

text \<open>
  One pass over the pending Controls, in the order the list has: an entry whose parents are all
  accepted is taken out, and accepted when it verifies.  The result is the accepted Controls, what
  is still pending, and whether any entry was taken out.
\<close>

definition ready_parents :: "(digest, verified) gomap \<Rightarrow> digest list \<Rightarrow> verified list option" where
  "ready_parents view ps = (if ps = [] then None else those (map (gm_get view) ps))"

fun accept_pass ::
  "wsp_lib \<Rightarrow> pending \<Rightarrow> (digest, verified) gomap \<Rightarrow> (digest, verified) gomap \<times> pending \<times> bool" where
  "accept_pass lib [] view = (view, [], False)"
| "accept_pass lib ((rv, (blob, c)) # ps) view =
     (case ready_parents view (ct_parents c) of
        None \<Rightarrow> (case accept_pass lib ps view of (view', rest, pr) \<Rightarrow> (view', (rv, (blob, c)) # rest, pr))
      | Some parents \<Rightarrow>
          (case accept_pass lib ps
                  (case verify_child lib parents blob of
                     Inl e \<Rightarrow> view
                   | Inr v \<Rightarrow> if vf_digest v = rv then gm_put rv v view else view) of
             (view', rest, pr) \<Rightarrow> (view', rest, True)))"

lemma accept_pass_rest:
  "accept_pass lib ps view = (view', rest, pr) \<Longrightarrow>
     set rest \<subseteq> set ps \<and> length rest \<le> length ps \<and> (pr \<longrightarrow> length rest < length ps)"
proof (induction lib ps view arbitrary: view' rest pr rule: accept_pass.induct)
  case (2 lib rv blob c ps view)
  show ?case
  proof (cases "ready_parents view (ct_parents c)")
    case None
    obtain w r q where "accept_pass lib ps view = (w, r, q)" by (rule prod_cases3)
    with 2(1) [OF None this] 2(3) None show ?thesis by auto
  next
    case (Some parents)
    obtain w r q where a: "accept_pass lib ps
        (case verify_child lib parents blob of Inl e \<Rightarrow> view
         | Inr v \<Rightarrow> if vf_digest v = rv then gm_put rv v view else view) = (w, r, q)" by (rule prod_cases3)
    with 2(2) [OF Some a] 2(3) Some show ?thesis by auto
  qed
qed simp

function accept_loop :: "wsp_lib \<Rightarrow> pending \<Rightarrow> (digest, verified) gomap \<Rightarrow> (digest, verified) gomap" where
  "accept_loop lib pend view =
     (case accept_pass lib pend view of
        (view', rest, pr) \<Rightarrow> if pr then accept_loop lib rest view' else view')"
  by pat_completeness auto
termination
  by (relation "measure (\<lambda>(lib, pend, view). length pend)") (auto dest: accept_pass_rest [OF sym])

declare accept_loop.simps [simp del]

text \<open>\<open>sortVerified\<close>: each element moves down past the greater ones before it.\<close>

fun insert_down :: "verified \<Rightarrow> verified list \<Rightarrow> verified list" where
  "insert_down v [] = [v]"
| "insert_down v (u # us) = (if vf_digest v < vf_digest u then u # insert_down v us else v # u # us)"

definition sort_verified :: "verified list \<Rightarrow> verified list" where
  "sort_verified vs = foldl (\<lambda>done v. rev (insert_down v (rev done))) [] vs"

definition view_heads :: "(digest, verified) gomap \<Rightarrow> verified list" where
  "view_heads m =
     (let child_of = concat (map (\<lambda>(d, v). ct_parents (vf_control v)) m)
      in sort_verified (map snd (filter (\<lambda>(d, v). d \<notin> set child_of) m)))"

definition load_control ::
  "wsp_lib \<Rightarrow> 's store_ops \<Rightarrow> string \<Rightarrow> digest \<Rightarrow> digest list \<Rightarrow> 's \<Rightarrow> 's \<times> (wsp_error + control_view)" where
  "load_control lib ops ws genesis cp s =
     (if \<not> valid_digest (wl_digest lib) genesis then (s, Inl ErrInvalid)
      else
        case so_discover ops KindControl [] s of
          (s1, Inl e) \<Rightarrow> (s1, Inl (ErrStore e))
        | (s1, Inr revs) \<Rightarrow>
            if length revs > max_controls then (s1, Inl ErrInvalid)
            else
              case so_fetch_head ops KindControl [] genesis s1 of
                (s2, Inl e) \<Rightarrow> (s2, Inl (ErrStore e))
              | (s2, Inr genesis_blob) \<Rightarrow>
                  if length genesis_blob > max_control_bytes then (s2, Inl ErrInvalid)
                  else
                    case verify_genesis lib ws genesis_blob genesis of
                      Inl e \<Rightarrow> (s2, Inl e)
                    | Inr root \<Rightarrow>
                        (case load_queue lib ops ws (sort_digests revs) [genesis] (length genesis_blob) [] s2 of
                           (s3, Inl e) \<Rightarrow> (s3, Inl e)
                         | (s3, Inr pend) \<Rightarrow>
                             let vf = accept_loop lib pend [(genesis, root)] in
                             if \<exists>d\<in>set cp. \<not> gm_has vf d then (s3, Inl ErrRollback)
                             else (s3, Inr \<lparr>cv_workspace = ws, cv_genesis = genesis, cv_heads = view_heads vf,
                                             cv_verified = vf, cv_membership = []\<rparr>)))"

subsection \<open>Publishing\<close>

definition control_object :: "wsp_lib \<Rightarrow> bytes \<Rightarrow> object" where
  "control_object lib blob =
     \<lparr>ob_kind = KindControl, ob_scope = [], ob_rv = dl_from_bytes (wl_digest lib) blob, ob_head = blob, ob_blobs = []\<rparr>"

definition publish_control :: "wsp_lib \<Rightarrow> 's store_ops \<Rightarrow> bytes \<Rightarrow> 's \<Rightarrow> 's \<times> (wsp_error + unit)" where
  "publish_control lib ops blob s =
     (case so_publish ops (control_object lib blob) s of
        (s', Inl e) \<Rightarrow> (s', Inl (ErrStore e))
      | (s', Inr u) \<Rightarrow> (s', Inr u))"

definition new_genesis :: "wsp_lib \<Rightarrow> string \<Rightarrow> principal \<Rightarrow> signer \<Rightarrow> wsp_error + bytes \<times> digest" where
  "new_genesis lib ws founder sg =
     (let founder = founder\<lparr>pr_admin := True\<rparr> in
      res_bind (sign_control lib \<lparr>ct_workspace = ws, ct_parents = [], ct_height = 0, ct_principals = [founder],
                                  ct_author = pr_id founder\<rparr> sg) (\<lambda>blob.
        let d = dl_from_bytes (wl_digest lib) blob in
        res_bind (verify_genesis lib ws blob d) (\<lambda>_. Inr (blob, d))))"

definition create_control ::
  "wsp_lib \<Rightarrow> 's store_ops \<Rightarrow> string \<Rightarrow> principal \<Rightarrow> signer \<Rightarrow> 's \<Rightarrow> 's \<times> (wsp_error + verified)" where
  "create_control lib ops ws founder sg s =
     (case new_genesis lib ws founder sg of
        Inl e \<Rightarrow> (s, Inl e)
      | Inr (blob, d) \<Rightarrow>
          (case verify_genesis lib ws blob d of
             Inl e \<Rightarrow> (s, Inl e)
           | Inr v \<Rightarrow>
               (case publish_control lib ops blob s of
                  (s', Inl e) \<Rightarrow> (s', Inl e)
                | (s', Inr _) \<Rightarrow> (s', Inr v))))"

definition publish_child ::
  "wsp_lib \<Rightarrow> 's store_ops \<Rightarrow> control_view \<Rightarrow> verified list \<Rightarrow> control \<Rightarrow> signer \<Rightarrow> 's \<Rightarrow> 's \<times> (wsp_error + verified)" where
  "publish_child lib ops view parents nxt sg s =
     (case sign_control lib nxt sg of
        Inl e \<Rightarrow> (s, Inl e)
      | Inr blob \<Rightarrow>
          (case verify_child lib parents blob of
             Inl e \<Rightarrow> (s, Inl e)
           | Inr v \<Rightarrow>
               (case publish_control lib ops blob s of
                  (s1, Inl e) \<Rightarrow> (s1, Inl e)
                | (s1, Inr _) \<Rightarrow>
                    (case load_control lib ops (cv_workspace view) (cv_genesis view) [vf_digest v] s1 of
                       (s2, Inl e) \<Rightarrow> (s2, Inl e)
                     | (s2, Inr after) \<Rightarrow>
                         if cv_forked after then (s2, Inl (ErrFork (cv_heads after))) else (s2, Inr v)))))"

definition update_control ::
  "wsp_lib \<Rightarrow> 's store_ops \<Rightarrow> control_view \<Rightarrow> signer \<Rightarrow> (control \<Rightarrow> wsp_error + control) \<Rightarrow> 's
    \<Rightarrow> 's \<times> (wsp_error + verified)" where
  "update_control lib ops view sg mutate s =
     (case cv_head view of
        Inl e \<Rightarrow> (s, Inl e)
      | Inr head \<Rightarrow>
          let author = device_id (wl_crypto lib) (sg_public sg);
              nxt = (vf_control head)\<lparr>ct_parents := [vf_digest head], ct_height := ct_height (vf_control head) + 1,
                                      ct_author := author\<rparr> in
          case control_principal (vf_control head) author of
            None \<Rightarrow> (s, Inl ErrOther)
          | Some a \<Rightarrow>
              if \<not> pr_admin a then (s, Inl ErrOther)
              else case mutate nxt of
                Inl e \<Rightarrow> (s, Inl e)
              | Inr nxt' \<Rightarrow> publish_child lib ops view [head] nxt' sg s)"

text \<open>The loops of \<open>ResolveFork\<close>: over the principals of one head, and over the heads.\<close>

fun union_principals :: "principal list \<Rightarrow> (string, principal) gomap \<Rightarrow> (string, principal) gomap" where
  "union_principals [] u = u"
| "union_principals (p # ps) u =
     union_principals ps
       (gm_put (pr_id p)
          (case gm_get u (pr_id p) of None \<Rightarrow> p | Some cur \<Rightarrow> p\<lparr>pr_admin := pr_admin p \<or> pr_admin cur\<rparr>) u)"

fun resolve_heads ::
  "string \<Rightarrow> verified list \<Rightarrow> digest list \<Rightarrow> 64 word \<Rightarrow> (string, principal) gomap
    \<Rightarrow> wsp_error + digest list \<times> 64 word \<times> (string, principal) gomap" where
  "resolve_heads author [] parents mx u = Inr (parents, mx, u)"
| "resolve_heads author (h # hs) parents mx u =
     (case control_principal (vf_control h) author of
        None \<Rightarrow> Inl ErrOther
      | Some a \<Rightarrow>
          if \<not> pr_admin a then Inl ErrOther
          else resolve_heads author hs (parents @ [vf_digest h]) (max mx (ct_height (vf_control h)))
                 (union_principals (ct_principals (vf_control h)) u))"

definition resolve_fork ::
  "wsp_lib \<Rightarrow> 's store_ops \<Rightarrow> control_view \<Rightarrow> signer \<Rightarrow> (control \<Rightarrow> wsp_error + control) \<Rightarrow> 's
    \<Rightarrow> 's \<times> (wsp_error + verified)" where
  "resolve_fork lib ops view sg mutate s =
     (if \<not> cv_forked view then (s, Inl ErrOther)
      else
        let author = device_id (wl_crypto lib) (sg_public sg) in
        case resolve_heads author (cv_heads view) [] 0 [] of
          Inl e \<Rightarrow> (s, Inl e)
        | Inr (parents, mx, u) \<Rightarrow>
            (case mutate \<lparr>ct_workspace = cv_workspace view, ct_parents = sort_digests parents,
                           ct_height = mx + 1, ct_principals = map snd u, ct_author = author\<rparr> of
               Inl e \<Rightarrow> (s, Inl e)
             | Inr nxt \<Rightarrow> publish_child lib ops view (cv_heads view) nxt sg s))"

subsection \<open>Membership\<close>

text \<open>The first loop: the ancestors of \<open>from\<close>; \<open>None\<close> when the view lacks one of them.\<close>

function older_loop :: "(digest, verified) gomap \<Rightarrow> digest list \<Rightarrow> digest list \<Rightarrow> digest list option" where
  "older_loop m [] older = Some older"
| "older_loop m (d # queue) older =
     (if d \<in> set older then older_loop m queue older
      else case gm_get m d of
        None \<Rightarrow> None
      | Some c \<Rightarrow> older_loop m (queue @ ct_parents (vf_control c)) (d # older))"
  by pat_completeness auto
termination
proof (relation "measures [\<lambda>(m, queue, older). card (fst ` set m - set older), \<lambda>(m, queue, older). length queue]",
    goal_cases)
  case (3 m d queue older c)
  then have "d \<in> fst ` set m"
    using gm_has_iff [of m d] by (auto simp: gm_has_get)
  with 3(1) have "card (fst ` set m - set (d # older)) < card (fst ` set m - set older)"
    by (intro psubset_card_mono) auto
  then show ?case by simp
qed auto

definition member :: "(digest, verified) gomap \<Rightarrow> digest \<Rightarrow> string \<Rightarrow> bool option" where
  "member m d i = map_option (\<lambda>c. control_principal (vf_control c) i \<noteq> None) (gm_get m d)"

text \<open>
  The loop over the parents of a Control that lacks the device: false as soon as the view lacks a
  parent or a parent lists the device.
\<close>

fun parents_without :: "(digest, verified) gomap \<Rightarrow> string \<Rightarrow> digest list \<Rightarrow> bool" where
  "parents_without m i [] = True"
| "parents_without m i (p # ps) =
     (case gm_get m p of
        None \<Rightarrow> False
      | Some parent \<Rightarrow> if control_principal (vf_control parent) i \<noteq> None then False else parents_without m i ps)"

function unbroken_loop ::
  "(digest, verified) gomap \<Rightarrow> digest \<Rightarrow> string \<Rightarrow> digest list \<Rightarrow> digest list \<Rightarrow> digest list \<Rightarrow> bool \<Rightarrow> bool" where
  "unbroken_loop m from i older [] seen reached = reached"
| "unbroken_loop m from i older (d # queue) seen reached =
     (let reached' = (if d = from then True else reached) in
      if d \<in> set seen \<or> d \<in> set older then unbroken_loop m from i older queue seen reached'
      else case gm_get m d of
        None \<Rightarrow> False
      | Some c \<Rightarrow>
          if control_principal (vf_control c) i = None \<and> \<not> parents_without m i (ct_parents (vf_control c)) then False
          else unbroken_loop m from i older (queue @ ct_parents (vf_control c)) (d # seen) reached')"
  by pat_completeness auto
termination
proof (relation "measures [\<lambda>(m, from, i, older, queue, seen, reached). card (fst ` set m - set seen),
                           \<lambda>(m, from, i, older, queue, seen, reached). length queue]", goal_cases)
  case (3 m frm i older d queue seen reached x c)
  then have "d \<in> fst ` set m"
    using gm_has_iff [of m d] by (auto simp: gm_has_get)
  with 3(2) have "card (fst ` set m - set (d # seen)) < card (fst ` set m - set seen)"
    by (intro psubset_card_mono) auto
  then show ?case by simp
qed auto

definition membership_walk :: "control_view \<Rightarrow> digest \<Rightarrow> digest \<Rightarrow> string \<Rightarrow> bool" where
  "membership_walk v head from i =
     (case older_loop (cv_verified v) [from] [] of
        None \<Rightarrow> False
      | Some older \<Rightarrow> unbroken_loop (cv_verified v) from i older [head] [] False)"

text \<open>\<open>MembershipUnbroken\<close> with its memo.\<close>

definition membership_unbroken :: "control_view \<Rightarrow> digest \<Rightarrow> digest \<Rightarrow> string \<Rightarrow> control_view \<times> bool" where
  "membership_unbroken v head from i =
     (case gm_get (cv_membership v) (head, from, i) of
        Some b \<Rightarrow> (v, b)
      | None \<Rightarrow>
          let result = membership_walk v head from i
          in (v\<lparr>cv_membership := gm_put (head, from, i) result (cv_membership v)\<rparr>, result))"

end
