(* ===== verification/Compaction.thy ===== *)
theory Compaction
  imports Chain
begin

text \<open>
  Compaction records, \<open>pkg/wsp/compaction.go\<close>: an admin's signed statement that revisions of a
  resource were removed, which of them count for a given graph, and which revisions they excuse.
\<close>

definition max_compaction_removed :: nat where "max_compaction_removed = 4000"
definition max_compactions :: nat where "max_compactions = 1000"

text \<open>The loop over \<open>Removed\<close>: valid, sorted and unique, and not the floor.\<close>

fun removed_loop :: "wsp_lib \<Rightarrow> digest \<Rightarrow> digest option \<Rightarrow> digest list \<Rightarrow> wsp_error + unit" where
  "removed_loop lib fl prev [] = Inr ()"
| "removed_loop lib fl prev (d # ds) =
     (if \<not> valid_digest (wl_digest lib) d then Inl ErrInvalid
      else if (case prev of None \<Rightarrow> False | Some q \<Rightarrow> q \<ge> d) then Inl ErrInvalid
      else if d = fl then Inl ErrInvalid
      else removed_loop lib fl (Some d) ds)"

definition compaction_validate :: "wsp_lib \<Rightarrow> compaction \<Rightarrow> wsp_error + unit" where
  "compaction_validate lib c =
     (if cp_workspace c = [] \<or> cp_resource c = [] then Inl ErrInvalid
      else if \<not> valid_digest (wl_digest lib) (cp_floor c) then Inl ErrInvalid
      else if cp_removed c = [] \<or> length (cp_removed c) > max_compaction_removed then Inl ErrInvalid
      else res_bind (removed_loop lib (cp_floor c) None (cp_removed c)) (\<lambda>_.
        if \<not> valid_digest (wl_digest lib) (cp_control c) then Inl ErrInvalid
        else if \<not> device_id_validate (cp_author c) then Inl ErrInvalid
        else Inr ()))"

definition compaction_scope :: "wsp_lib \<Rightarrow> compaction \<Rightarrow> string" where
  "compaction_scope lib c = state_scope (wl_crypto lib) (cp_workspace c) (cp_resource c)"

definition sign_compaction :: "wsp_lib \<Rightarrow> compaction \<Rightarrow> signer \<Rightarrow> wsp_error + bytes" where
  "sign_compaction lib c0 sg =
     (let c = c0\<lparr>cp_removed := sort_digests (cp_removed c0)\<rparr> in
      res_bind (compaction_validate lib c) (\<lambda>_.
        if device_id (wl_crypto lib) (sg_public sg) \<noteq> cp_author c then Inl ErrInvalid
        else res_bind (marshal (wl_compaction lib) c) (\<lambda>body.
          res_bind (signer_sign sg domain_compact body) (\<lambda>sig.
            encode_signed lib \<lparr>sd_body = body, sd_signature = sig\<rparr>))))"

definition verify_compaction ::
  "wsp_lib \<Rightarrow> control_view \<Rightarrow> string \<Rightarrow> string \<Rightarrow> digest \<Rightarrow> bytes \<Rightarrow> wsp_error + verified_compaction" where
  "verify_compaction lib view ws res rv blob =
     (if dl_from_bytes (wl_digest lib) blob \<noteq> rv then Inl ErrInvalid
      else res_bind (decode_signed lib blob) (\<lambda>sg.
        res_bind (decode_canonical (wl_compaction lib) (sd_body sg)) (\<lambda>c.
          res_bind (compaction_validate lib c) (\<lambda>_.
            if cp_workspace c \<noteq> ws \<or> cp_resource c \<noteq> res then Inl ErrInvalid
            else case cv_get view (cp_control c) of
              None \<Rightarrow> Inl ErrRollback
            | Some written \<Rightarrow>
                (case control_principal (vf_control written) (cp_author c) of
                   None \<Rightarrow> Inl ErrInvalid
                 | Some author \<Rightarrow>
                     if \<not> pr_admin author then Inl ErrInvalid
                     else if verify (wl_crypto lib) (pr_signing author) domain_compact (sd_body sg) (sd_signature sg) \<noteq> Inr ()
                     then Inl ErrInvalid
                     else Inr \<lparr>vc_compaction = c, vc_digest = rv\<rparr>)))))"

fun load_compactions_loop ::
  "wsp_lib \<Rightarrow> 's store_ops \<Rightarrow> control_view \<Rightarrow> string \<Rightarrow> string \<Rightarrow> digest list \<Rightarrow> verified_compaction list \<Rightarrow> 's
    \<Rightarrow> 's \<times> (wsp_error + verified_compaction list)" where
  "load_compactions_loop lib ops view ws res [] out s = (s, Inr out)"
| "load_compactions_loop lib ops view ws res (rv # revs) out s =
     (case so_fetch_head ops KindCompaction (state_scope (wl_crypto lib) ws res) rv s of
        (s', Inl e) \<Rightarrow>
          if e = SNotFound \<or> e = SCorrupt then load_compactions_loop lib ops view ws res revs out s'
          else (s', Inl (ErrStore e))
      | (s', Inr head) \<Rightarrow>
          (case verify_compaction lib view ws res rv head of
             Inl e \<Rightarrow> if e = ErrRollback then (s', Inl e) else load_compactions_loop lib ops view ws res revs out s'
           | Inr c \<Rightarrow> load_compactions_loop lib ops view ws res revs (out @ [c]) s'))"

definition load_compactions ::
  "wsp_lib \<Rightarrow> 's store_ops \<Rightarrow> control_view \<Rightarrow> string \<Rightarrow> string \<Rightarrow> 's \<Rightarrow> 's \<times> (wsp_error + verified_compaction list)" where
  "load_compactions lib ops view ws res s =
     (case so_discover ops KindCompaction (state_scope (wl_crypto lib) ws res) s of
        (s1, Inl e) \<Rightarrow> (s1, Inl (ErrStore e))
      | (s1, Inr revs) \<Rightarrow>
          if length revs > max_compactions then (s1, Inl ErrInvalid)
          else load_compactions_loop lib ops view ws res revs [] s1)"

subsection \<open>Applying the records\<close>

record compacted =
  cd_removed :: "digest list"
  cd_floors :: "digest list"

text \<open>\<open>floorShown\<close> and \<open>out.Floors\<close> after the first loop hold the same digests.\<close>

fun floors_loop :: "verified_compaction list \<Rightarrow> graph \<Rightarrow> digest list \<Rightarrow> digest list" where
  "floors_loop [] g fs = fs"
| "floors_loop (r # rs) g fs =
     (let f = cp_floor (vc_compaction r)
      in floors_loop rs g (if graph_has g f \<and> f \<notin> set fs then fs @ [f] else fs))"

definition add_removed :: "graph \<Rightarrow> digest list \<Rightarrow> digest list \<Rightarrow> digest list" where
  "add_removed g removed ds = removed @ filter (\<lambda>d. \<not> graph_has g d) ds"

text \<open>One pass over the records that are not applied yet: what stays unapplied, what is removed now.\<close>

fun apply_pass ::
  "graph \<Rightarrow> digest list \<Rightarrow> verified_compaction list \<Rightarrow> digest list \<Rightarrow> verified_compaction list \<times> digest list \<times> bool" where
  "apply_pass g shown [] removed = ([], removed, False)"
| "apply_pass g shown (r # rs) removed =
     (if cp_floor (vc_compaction r) \<notin> set shown \<and> cp_floor (vc_compaction r) \<notin> set removed
      then (case apply_pass g shown rs removed of (rest, removed', pr) \<Rightarrow> (r # rest, removed', pr))
      else (case apply_pass g shown rs (add_removed g removed (cp_removed (vc_compaction r))) of
              (rest, removed', pr) \<Rightarrow> (rest, removed', True)))"

lemma apply_pass_rest:
  "apply_pass g shown rs removed = (rest, removed', pr) \<Longrightarrow>
     set rest \<subseteq> set rs \<and> length rest \<le> length rs \<and> (pr \<longrightarrow> length rest < length rs)"
proof (induction rs arbitrary: removed rest removed' pr)
  case (Cons r rs)
  show ?case
  proof (cases "cp_floor (vc_compaction r) \<notin> set shown \<and> cp_floor (vc_compaction r) \<notin> set removed")
    case True
    obtain q m p where "apply_pass g shown rs removed = (q, m, p)" by (rule prod_cases3)
    with Cons.IH [OF this] Cons.prems True show ?thesis by auto
  next
    case False
    obtain q m p where a: "apply_pass g shown rs (add_removed g removed (cp_removed (vc_compaction r))) = (q, m, p)"
      by (rule prod_cases3)
    then have "apply_pass g shown (r # rs) removed = (q, m, True)"
      using False by auto
    with Cons.IH [OF a] Cons.prems show ?thesis by auto
  qed
qed simp

function apply_loop :: "graph \<Rightarrow> digest list \<Rightarrow> verified_compaction list \<Rightarrow> digest list \<Rightarrow> digest list" where
  "apply_loop g shown rs removed =
     (case apply_pass g shown rs removed of
        (rest, removed', pr) \<Rightarrow> if pr then apply_loop g shown rest removed' else removed')"
  by pat_completeness auto
termination
  by (relation "measure (\<lambda>(g, shown, rs, removed). length rs)") (auto dest: apply_pass_rest [OF sym])

declare apply_loop.simps [simp del]

definition compute :: "verified_compaction list \<Rightarrow> graph \<Rightarrow> compacted" where
  "compute records g =
     (let floors = sort_digests (floors_loop records g [])
      in \<lparr>cd_removed = apply_loop g floors records [], cd_floors = floors\<rparr>)"

definition no_compaction :: compacted where
  "no_compaction = \<lparr>cd_removed = [], cd_floors = []\<rparr>"

definition excuses :: "compacted \<Rightarrow> digest \<Rightarrow> bool" where
  "excuses c d \<longleftrightarrow> d \<in> set (cd_removed c)"

definition above_floors :: "compacted \<Rightarrow> graph \<Rightarrow> digest \<Rightarrow> bool" where
  "above_floors c g d \<longleftrightarrow>
     (if cd_floors c = [] then True
      else let anc = ancestors g d in \<forall>f\<in>set (cd_floors c). f \<in> set anc)"

subsection \<open>What a record excuses\<close>

text \<open>
  A revision that is not shown is excused by a record that lists it and whose floor is shown, or
  whose floor is itself excused.
\<close>

inductive excused :: "verified_compaction list \<Rightarrow> graph \<Rightarrow> digest \<Rightarrow> bool"
  for records :: "verified_compaction list" and g :: graph where
  excused_shown: "r \<in> set records \<Longrightarrow> graph_has g (cp_floor (vc_compaction r)) \<Longrightarrow>
    d \<in> set (cp_removed (vc_compaction r)) \<Longrightarrow> \<not> graph_has g d \<Longrightarrow> excused records g d"
| excused_later: "r \<in> set records \<Longrightarrow> excused records g (cp_floor (vc_compaction r)) \<Longrightarrow>
    d \<in> set (cp_removed (vc_compaction r)) \<Longrightarrow> \<not> graph_has g d \<Longrightarrow> excused records g d"

lemma floors_loop_spec:
  "set (floors_loop rs g fs) = set fs \<union> {f \<in> (\<lambda>r. cp_floor (vc_compaction r)) ` set rs. graph_has g f}"
  "distinct fs \<Longrightarrow> distinct (floors_loop rs g fs)"
  by (induction rs g fs rule: floors_loop.induct) (auto simp: Let_def)

lemma set_add_removed: "set (add_removed g removed ds) = set removed \<union> {d \<in> set ds. \<not> graph_has g d}"
  by (auto simp: add_removed_def)

text \<open>A record counts when its floor is shown or removed; then everything it lists is removed or shown.\<close>

definition counts :: "digest list \<Rightarrow> digest list \<Rightarrow> verified_compaction \<Rightarrow> bool" where
  "counts shown removed r \<longleftrightarrow> cp_floor (vc_compaction r) \<in> set shown \<or> cp_floor (vc_compaction r) \<in> set removed"

definition covered :: "graph \<Rightarrow> digest list \<Rightarrow> verified_compaction \<Rightarrow> bool" where
  "covered g removed r \<longleftrightarrow> (\<forall>d\<in>set (cp_removed (vc_compaction r)). graph_has g d \<or> d \<in> set removed)"

lemma covered_mono: "covered g removed r \<Longrightarrow> set removed \<subseteq> set removed' \<Longrightarrow> covered g removed' r"
  by (auto simp: covered_def)

lemma apply_pass_Cons:
  "apply_pass g shown (r # rs) removed =
     (if \<not> counts shown removed r
      then (case apply_pass g shown rs removed of (rest, removed', pr) \<Rightarrow> (r # rest, removed', pr))
      else (case apply_pass g shown rs (add_removed g removed (cp_removed (vc_compaction r))) of
              (rest, removed', pr) \<Rightarrow> (rest, removed', True)))"
  by (simp add: counts_def)

declare apply_pass.simps(2) [simp del]

lemma apply_pass_spec:
  assumes "apply_pass g shown rs removed = (rest, removed', pr)"
  shows "set removed \<subseteq> set removed' \<and> (\<forall>r\<in>set rs. r \<in> set rest \<or> covered g removed' r)
    \<and> (\<not> pr \<longrightarrow> rest = rs \<and> removed' = removed \<and> (\<forall>r\<in>set rs. \<not> counts shown removed r))"
  using assms
proof (induction rs arbitrary: removed rest removed' pr)
  case (Cons r rs)
  show ?case
  proof (cases "counts shown removed r")
    case False
    then obtain q where "apply_pass g shown rs removed = (q, removed', pr)" "rest = r # q"
      using Cons.prems by (auto simp: apply_pass_Cons split: prod.splits)
    with Cons.IH [OF this(1)] False show ?thesis by auto
  next
    case True
    let ?rm = "add_removed g removed (cp_removed (vc_compaction r))"
    obtain p where a: "apply_pass g shown rs ?rm = (rest, removed', p)" and pr: "pr"
      using Cons.prems True by (auto simp: apply_pass_Cons split: prod.splits)
    have "covered g ?rm r"
      by (auto simp: covered_def set_add_removed)
    with Cons.IH [OF a] have "covered g removed' r"
      using covered_mono by blast
    with Cons.IH [OF a] pr show ?thesis
      by (auto simp: set_add_removed)
  qed
qed simp

lemma apply_pass_sound:
  assumes "apply_pass g shown rs removed = (rest, removed', pr)" and "set rs \<subseteq> set records"
    and "\<forall>d\<in>set removed. excused records g d" and "\<forall>f\<in>set shown. graph_has g f"
  shows "\<forall>d\<in>set removed'. excused records g d"
  using assms
proof (induction rs arbitrary: removed rest pr)
  case (Cons r rs)
  show ?case
  proof (cases "counts shown removed r")
    case False
    then obtain q where "apply_pass g shown rs removed = (q, removed', pr)"
      using Cons.prems(1) by (auto simp: apply_pass_Cons split: prod.splits)
    with Cons show ?thesis by auto
  next
    case True
    let ?rm = "add_removed g removed (cp_removed (vc_compaction r))"
    obtain p where a: "apply_pass g shown rs ?rm = (rest, removed', p)"
      using Cons.prems(1) True by (auto simp: apply_pass_Cons split: prod.splits)
    have r: "r \<in> set records"
      using Cons.prems(2) by simp
    have "excused records g d" if "d \<in> set (cp_removed (vc_compaction r))" "\<not> graph_has g d" for d
      using True Cons.prems(3,4) excused_shown [OF r _ that] excused_later [OF r _ that] by (auto simp: counts_def)
    then have "\<forall>d\<in>set ?rm. excused records g d"
      using Cons.prems(3) by (auto simp: set_add_removed)
    with Cons.IH [OF a] Cons.prems(2,4) show ?thesis by simp
  qed
qed simp

lemma apply_loop_spec:
  assumes "set rs \<subseteq> set records" and "\<forall>d\<in>set removed. excused records g d" and "\<forall>f\<in>set shown. graph_has g f"
    and "\<forall>r\<in>set records. r \<in> set rs \<or> covered g removed r"
  shows "(\<forall>d\<in>set (apply_loop g shown rs removed). excused records g d)
    \<and> (\<forall>r\<in>set records. counts shown (apply_loop g shown rs removed) r \<longrightarrow> covered g (apply_loop g shown rs removed) r)"
  using assms
proof (induction g shown rs removed rule: apply_loop.induct)
  case (1 g shown rs removed)
  obtain rest removed' pr where a: "apply_pass g shown rs removed = (rest, removed', pr)" by (rule prod_cases3)
  note spec = apply_pass_spec [OF a]
  show ?case
  proof (cases pr)
    case False
    then have eq: "apply_loop g shown rs removed = removed"
      using a spec by (subst apply_loop.simps) simp
    show ?thesis
      unfolding eq using "1.prems"(2,4) spec False by blast
  next
    case True
    then have eq: "apply_loop g shown rs removed = apply_loop g shown rest removed'"
      using a by (subst apply_loop.simps) simp
    have sub: "set rest \<subseteq> set records"
      using apply_pass_rest [OF a] "1.prems"(1) by auto
    have sound: "\<forall>d\<in>set removed'. excused records g d"
      by (rule apply_pass_sound [OF a "1.prems"(1-3)])
    have cov: "\<forall>r\<in>set records. r \<in> set rest \<or> covered g removed' r"
      using "1.prems"(4) spec covered_mono by blast
    show ?thesis
      unfolding eq by (rule "1.IH" [OF a [symmetric] refl True sub sound "1.prems"(3) cov])
  qed
qed

lemma excuses_iff: "excuses (compute records g) d \<longleftrightarrow> excused records g d"
proof -
  let ?fs = "sort_digests (floors_loop records g [])"
  have fs: "set ?fs = {f \<in> (\<lambda>r. cp_floor (vc_compaction r)) ` set records. graph_has g f}"
    by (simp add: sort_digests_def floors_loop_spec)
  have spec: "(\<forall>d\<in>set (apply_loop g ?fs records []). excused records g d)
    \<and> (\<forall>r\<in>set records. counts ?fs (apply_loop g ?fs records []) r \<longrightarrow> covered g (apply_loop g ?fs records []) r)"
    by (rule apply_loop_spec) (auto simp: fs)
  have "d \<in> set (apply_loop g ?fs records [])" if "excused records g d"
    using that
  proof (induction rule: excused.induct)
    case (excused_shown r d)
    then have "counts ?fs (apply_loop g ?fs records []) r"
      by (auto simp: counts_def fs)
    with spec excused_shown show ?case
      by (auto simp: covered_def)
  next
    case (excused_later r d)
    then have "counts ?fs (apply_loop g ?fs records []) r"
      by (auto simp: counts_def)
    with spec excused_later show ?case
      by (auto simp: covered_def)
  qed
  with spec show ?thesis
    by (auto simp: excuses_def compute_def Let_def)
qed

lemma compute_floors:
  "set (cd_floors (compute records g)) = {f \<in> (\<lambda>r. cp_floor (vc_compaction r)) ` set records. graph_has g f}"
  by (simp add: compute_def Let_def sort_digests_def floors_loop_spec)

lemma excused_not_shown: "excused records g d \<Longrightarrow> \<not> graph_has g d"
  by (induction rule: excused.induct)

text \<open>Behind every excused revision there is a chain of records that ends at a floor that is shown.\<close>

lemma excused_floor:
  "excused records g d \<Longrightarrow> \<exists>r\<in>set records. graph_has g (cp_floor (vc_compaction r))"
  by (induction rule: excused.induct) auto

end
