(* ===== verification/State.thy ===== *)
theory State
  imports Compaction
begin

text \<open>
  Signed revisions of a resource, \<open>pkg/wsp/state.go\<close>: their structure, signing and verifying one,
  whether its author is still a member, and reading the revision DAG of a resource.  Heads are
  fetched in the serial order of \<open>WithSerialHeadReads\<close>; the parallel order fetches the same batch
  and differs only in which of several terminal errors is reported.
\<close>

definition max_parents :: nat where "max_parents = 64"
definition max_revisions :: nat where "max_revisions = 20000"
definition max_state_bytes :: nat where "max_state_bytes = 32 * 2 ^ 20"
definition head_fetches :: nat where "head_fetches = 8"

definition st_scope :: "wsp_lib \<Rightarrow> state_rec \<Rightarrow> string" where
  "st_scope lib s = state_scope (wl_crypto lib) (st_workspace s) (st_resource s)"

definition state_validate :: "wsp_lib \<Rightarrow> state_rec \<Rightarrow> wsp_error + unit" where
  "state_validate lib s =
     (if st_workspace s = [] \<or> st_resource s = [] then Inl ErrInvalid
      else if length (st_parents s) > max_parents then Inl ErrInvalid
      else res_bind (check_digests lib None (st_parents s)) (\<lambda>_.
        if \<not> valid_digest (wl_digest lib) (st_control s) then Inl ErrInvalid
        else if \<not> valid_digest (wl_digest lib) (st_ciphertext s) then Inl ErrInvalid
        else if \<not> device_id_validate (st_author s) then Inl ErrInvalid
        else Inr ()))"

definition sign_state :: "wsp_lib \<Rightarrow> state_rec \<Rightarrow> signer \<Rightarrow> wsp_error + bytes" where
  "sign_state lib s0 sg =
     (let s = s0\<lparr>st_parents := sort_digests (st_parents s0)\<rparr> in
      res_bind (state_validate lib s) (\<lambda>_.
        if device_id (wl_crypto lib) (sg_public sg) \<noteq> st_author s then Inl ErrInvalid
        else res_bind (marshal (wl_state lib) s) (\<lambda>body.
          res_bind (signer_sign sg domain_state body) (\<lambda>sig.
            encode_signed lib \<lparr>sd_body = body, sd_signature = sig\<rparr>))))"

definition verify_revision ::
  "wsp_lib \<Rightarrow> control_view \<Rightarrow> string \<Rightarrow> string \<Rightarrow> digest \<Rightarrow> bytes \<Rightarrow> wsp_error + verified_state" where
  "verify_revision lib view ws res rv blob =
     (if dl_from_bytes (wl_digest lib) blob \<noteq> rv then Inl ErrInvalid
      else res_bind (decode_signed lib blob) (\<lambda>sg.
        res_bind (decode_canonical (wl_state lib) (sd_body sg)) (\<lambda>s.
          res_bind (state_validate lib s) (\<lambda>_.
            if st_workspace s \<noteq> ws \<or> st_resource s \<noteq> res then Inl ErrInvalid
            else case cv_get view (st_control s) of
              None \<Rightarrow> Inl ErrRollback
            | Some written \<Rightarrow>
                (case control_principal (vf_control written) (st_author s) of
                   None \<Rightarrow> Inl ErrInvalid
                 | Some author \<Rightarrow>
                     if verify (wl_crypto lib) (pr_signing author) domain_state (sd_body sg) (sd_signature sg) \<noteq> Inr ()
                     then Inl ErrInvalid
                     else Inr \<lparr>vs_state = s, vs_digest = rv\<rparr>)))))"

text \<open>The memo of \<open>MembershipUnbroken\<close> never changes its answer, so the walk stands for it here.\<close>

definition author_is_current :: "control_view \<Rightarrow> verified \<Rightarrow> verified_state \<Rightarrow> wsp_error + unit" where
  "author_is_current view head st =
     (case control_principal (vf_control head) (st_author (vs_state st)) of
        None \<Rightarrow> Inl ErrInvalid
      | Some _ \<Rightarrow>
          if \<not> membership_walk view (vf_digest head) (st_control (vs_state st)) (st_author (vs_state st))
          then Inl ErrInvalid else Inr ())"

record state_view =
  sv_graph :: graph
  sv_states :: "(digest, verified_state) gomap"
  sv_heads :: "verified_state list"
  sv_skipped :: nat
  sv_compacted :: compacted

definition missing_parents :: "state_view \<Rightarrow> digest list" where
  "missing_parents sv = filter (\<lambda>d. \<not> excuses (sv_compacted sv) d) (missing (sv_graph sv))"

definition state_resource :: "wsp_lib \<Rightarrow> bytes \<Rightarrow> wsp_error + string \<times> string" where
  "state_resource lib blob =
     res_bind (decode_signed lib blob) (\<lambda>sg.
       res_bind (decode_canonical (wl_state lib) (sd_body sg)) (\<lambda>s.
         res_bind (state_validate lib s) (\<lambda>_. Inr (st_workspace s, st_resource s))))"

subsection \<open>Reading the revisions of a resource\<close>

text \<open>The inner loop that fills a batch; the queue and the revisions tried so far come with it.\<close>

fun take_batch :: "digest list \<Rightarrow> digest list \<Rightarrow> digest list \<Rightarrow> wsp_error + digest list \<times> digest list \<times> digest list" where
  "take_batch [] tried batch = Inr ([], tried, batch)"
| "take_batch (rv # queue) tried batch =
     (if length batch \<ge> head_fetches then Inr (rv # queue, tried, batch)
      else if rv \<in> set tried then take_batch queue tried batch
      else if length (rv # tried) > max_revisions then Inl ErrInvalid
      else take_batch queue (rv # tried) (batch @ [rv]))"

definition terminal_head_error :: "storage_error \<Rightarrow> bool" where
  "terminal_head_error e \<longleftrightarrow> e \<noteq> SNotFound \<and> e \<noteq> SCorrupt"

type_synonym fetched = "(digest, storage_error + bytes) gomap"

fun prefetch_heads ::
  "'s store_ops \<Rightarrow> string \<Rightarrow> digest list \<Rightarrow> fetched \<Rightarrow> 's \<Rightarrow> 's \<times> (wsp_error + fetched)" where
  "prefetch_heads ops scope [] out s = (s, Inr out)"
| "prefetch_heads ops scope (rv # revs) out s =
     (case so_fetch_head ops KindState scope rv s of
        (s', Inl e) \<Rightarrow>
          if terminal_head_error e then (s', Inl (ErrStore e))
          else prefetch_heads ops scope revs (gm_put rv (Inl e) out) s'
      | (s', Inr head) \<Rightarrow> prefetch_heads ops scope revs (gm_put rv (Inr head) out) s')"

text \<open>The loop over a fetched batch: it returns the view, the queue and the bytes read so far.\<close>

fun verify_batch ::
  "wsp_lib \<Rightarrow> control_view \<Rightarrow> string \<Rightarrow> string \<Rightarrow> fetched \<Rightarrow> digest list \<Rightarrow> state_view \<Rightarrow> digest list \<Rightarrow> nat
    \<Rightarrow> wsp_error + state_view \<times> digest list \<times> nat" where
  "verify_batch lib view ws res fetched [] sv queue tot = Inr (sv, queue, tot)"
| "verify_batch lib view ws res fetched (rv # batch) sv queue tot =
     (case gm_get fetched rv of
        Some (Inr head) \<Rightarrow>
          (if length head > max_state_bytes - tot then Inl ErrInvalid
           else case verify_revision lib view ws res rv head of
             Inl e \<Rightarrow>
               if e = ErrRollback then Inl e
               else verify_batch lib view ws res fetched batch (sv\<lparr>sv_skipped := sv_skipped sv + 1\<rparr>) queue (tot + length head)
           | Inr st \<Rightarrow>
               verify_batch lib view ws res fetched batch
                 (sv\<lparr>sv_states := gm_put rv st (sv_states sv),
                     sv_graph := graph_add (sv_graph sv) rv (st_parents (vs_state st))\<rparr>)
                 (queue @ st_parents (vs_state st)) (tot + length head))
      | _ \<Rightarrow> verify_batch lib view ws res fetched batch (sv\<lparr>sv_skipped := sv_skipped sv + 1\<rparr>) queue tot)"

lemma take_batch_grows:
  "take_batch queue tried batch = Inr (queue', tried', batch') \<Longrightarrow>
     length tried \<le> length tried' \<and> length batch' = length batch + (length tried' - length tried)
     \<and> (length tried < length tried' \<longrightarrow> length tried' \<le> max_revisions)"
proof (induction queue tried batch rule: take_batch.induct)
  case (2 rv queue tried batch)
  consider "length batch \<ge> head_fetches" | "\<not> length batch \<ge> head_fetches" "rv \<in> set tried"
    | "\<not> length batch \<ge> head_fetches" "rv \<notin> set tried" "\<not> length (rv # tried) > max_revisions"
    using "2.prems" by (auto split: if_splits)
  then show ?case
  proof cases
    case 3
    with "2.prems" have r: "take_batch queue (rv # tried) (batch @ [rv]) = Inr (queue', tried', batch')" by simp
    from "2.IH"(2) [OF 3 r] 3 show ?thesis by auto
  qed (use 2 in auto)
qed simp

lemma take_batch_all:
  "take_batch queue tried batch = Inr (queue', tried', batch') \<Longrightarrow> length batch < head_fetches \<Longrightarrow>
     \<not> length tried < length tried' \<Longrightarrow> queue' = []"
proof (induction queue tried batch rule: take_batch.induct)
  case (2 rv queue tried batch)
  show ?case
  proof (cases "rv \<in> set tried")
    case True
    with 2 show ?thesis by simp
  next
    case False
    then have "\<not> length (rv # tried) > max_revisions"
      and r: "take_batch queue (rv # tried) (batch @ [rv]) = Inr (queue', tried', batch')"
      using "2.prems"(1,2) by (auto split: if_splits)
    then have "length (rv # tried) \<le> length tried'"
      using take_batch_grows by blast
    with "2.prems"(3) show ?thesis by simp
  qed
qed simp

lemma load_states_dec:
  assumes "take_batch queue tried [] = Inr (queue', tried', batch)" and "queue \<noteq> []"
    and "verify_batch lib view ws res fetched batch sv queue' tot = Inr (sv', queue'', tot')"
  shows "max_revisions - length tried' < max_revisions - length tried
    \<or> max_revisions - length tried' = max_revisions - length tried \<and> length queue'' < length queue"
proof -
  note g = take_batch_grows [OF assms(1)]
  show ?thesis
  proof (cases "length tried < length tried'")
    case True
    with g show ?thesis by auto
  next
    case False
    then have "batch = []" "length tried' = length tried"
      using g by auto
    moreover have "queue' = []"
      using take_batch_all [OF assms(1)] False by (simp add: head_fetches_def)
    ultimately show ?thesis
      using assms(2,3) by auto
  qed
qed

function load_states_loop ::
  "wsp_lib \<Rightarrow> 's store_ops \<Rightarrow> control_view \<Rightarrow> string \<Rightarrow> string \<Rightarrow> digest list \<Rightarrow> digest list \<Rightarrow> state_view \<Rightarrow> nat \<Rightarrow> 's
    \<Rightarrow> 's \<times> (wsp_error + state_view)" where
  "load_states_loop lib ops view ws res queue tried sv tot s =
     (if queue = [] then (s, Inr sv)
      else
        case take_batch queue tried [] of
          Inl e \<Rightarrow> (s, Inl e)
        | Inr (queue', tried', batch) \<Rightarrow>
            (case prefetch_heads ops (state_scope (wl_crypto lib) ws res) batch [] s of
               (s', Inl e) \<Rightarrow> (s', Inl e)
             | (s', Inr fetched) \<Rightarrow>
                 (case verify_batch lib view ws res fetched batch sv queue' tot of
                    Inl e \<Rightarrow> (s', Inl e)
                  | Inr (sv', queue'', tot') \<Rightarrow> load_states_loop lib ops view ws res queue'' tried' sv' tot' s')))"
  by pat_completeness auto
termination
  by (relation "measures [\<lambda>(lib, ops, view, ws, res, queue, tried, sv, tot, s). max_revisions - length tried,
                          \<lambda>(lib, ops, view, ws, res, queue, tried, sv, tot, s). length queue]")
    (auto dest!: load_states_dec)

declare load_states_loop.simps [simp del]

definition empty_state_view :: state_view where
  "empty_state_view = \<lparr>sv_graph = new_graph, sv_states = [], sv_heads = [], sv_skipped = 0, sv_compacted = no_compaction\<rparr>"

text \<open>The heads of the graph, looked up in the map of states.\<close>

definition head_states :: "graph \<Rightarrow> (digest, verified_state) gomap \<Rightarrow> verified_state list" where
  "head_states g states = map (\<lambda>d. the (gm_get states d)) (graph_heads g)"

definition load_states ::
  "wsp_lib \<Rightarrow> 's store_ops \<Rightarrow> control_view \<Rightarrow> string \<Rightarrow> string \<Rightarrow> digest list \<Rightarrow> 's \<Rightarrow> 's \<times> (wsp_error + state_view)" where
  "load_states lib ops view ws res also1 s =
     (case so_discover ops KindState (state_scope (wl_crypto lib) ws res) s of
        (s1, Inl e) \<Rightarrow> (s1, Inl (ErrStore e))
      | (s1, Inr revs) \<Rightarrow>
          if length revs > max_revisions then (s1, Inl ErrInvalid)
          else
            case load_states_loop lib ops view ws res (revs @ also1) [] empty_state_view 0 s1 of
              (s2, Inl e) \<Rightarrow> (s2, Inl e)
            | (s2, Inr sv) \<Rightarrow> (s2, Inr (sv\<lparr>sv_heads := head_states (sv_graph sv) (sv_states sv)\<rparr>)))"

text \<open>The copy of the states and the graph that \<open>With\<close> makes, entry by entry.\<close>

fun copy_states ::
  "(digest, verified_state) gomap \<Rightarrow> graph \<times> (digest, verified_state) gomap \<Rightarrow> graph \<times> (digest, verified_state) gomap" where
  "copy_states [] out = out"
| "copy_states ((d, v) # vs) (g, states) =
     copy_states vs (graph_add g d (st_parents (vs_state v)), gm_put d v states)"

definition sv_with :: "state_view option \<Rightarrow> verified_state \<Rightarrow> state_view" where
  "sv_with svo st =
     (let (g, states, skipped, comp) =
        (case svo of
           None \<Rightarrow> (new_graph, [], 0, no_compaction)
         | Some sv \<Rightarrow>
             (case copy_states (sv_states sv) (new_graph, []) of
                (g, states) \<Rightarrow> (g, states, sv_skipped sv, sv_compacted sv)));
          states' = gm_put (vs_digest st) st states;
          g' = graph_add g (vs_digest st) (st_parents (vs_state st))
      in \<lparr>sv_graph = g', sv_states = states', sv_heads = head_states g' states', sv_skipped = skipped, sv_compacted = comp\<rparr>)"

definition read_ciphertext :: "wsp_lib \<Rightarrow> 's store_ops \<Rightarrow> verified_state \<Rightarrow> 's \<Rightarrow> 's \<times> (wsp_error + bytes)" where
  "read_ciphertext lib ops st s =
     (case read_blob ops KindState (st_scope lib (vs_state st)) (vs_digest st) 0 max_payload_bytes s of
        (s', Inl e) \<Rightarrow> (s', Inl (ErrStore e))
      | (s', Inr data) \<Rightarrow>
          (s', if dl_from_bytes (wl_digest lib) data \<noteq> st_ciphertext (vs_state st) then Inl (ErrStore SCorrupt) else Inr data))"

subsection \<open>What verification establishes\<close>

definition state_ok :: "wsp_lib \<Rightarrow> state_rec \<Rightarrow> bool" where
  "state_ok lib s \<longleftrightarrow> st_workspace s \<noteq> [] \<and> st_resource s \<noteq> [] \<and> length (st_parents s) \<le> max_parents
     \<and> (\<forall>d\<in>set (st_parents s). valid_digest (wl_digest lib) d) \<and> sorted_wrt (<) (st_parents s)
     \<and> valid_digest (wl_digest lib) (st_control s) \<and> valid_digest (wl_digest lib) (st_ciphertext s)
     \<and> device_id_validate (st_author s)"

lemma state_validate_Inr: "state_validate lib s = Inr () \<longleftrightarrow> state_ok lib s"
  by (auto simp: state_validate_def state_ok_def res_simps check_digests_Inr)

text \<open>A revision is signed when a principal of the Control it names signed exactly its bytes.\<close>

definition signed_revision ::
  "wsp_lib \<Rightarrow> control_view \<Rightarrow> string \<Rightarrow> string \<Rightarrow> digest \<Rightarrow> bytes \<Rightarrow> verified_state \<Rightarrow> bool" where
  "signed_revision lib view ws res rv blob v \<longleftrightarrow>
     vs_digest v = rv \<and> dl_from_bytes (wl_digest lib) blob = rv
     \<and> st_workspace (vs_state v) = ws \<and> st_resource (vs_state v) = res \<and> state_ok lib (vs_state v)
     \<and> (\<exists>sg written author. decode_signed lib blob = Inr sg
          \<and> decode_canonical (wl_state lib) (sd_body sg) = Inr (vs_state v)
          \<and> cv_get view (st_control (vs_state v)) = Some written
          \<and> control_principal (vf_control written) (st_author (vs_state v)) = Some author
          \<and> verify (wl_crypto lib) (pr_signing author) domain_state (sd_body sg) (sd_signature sg) = Inr ())"

lemma verify_revision_Inr:
  "verify_revision lib view ws res rv blob = Inr v \<Longrightarrow> signed_revision lib view ws res rv blob v"
  by (auto simp: verify_revision_def signed_revision_def res_simps option_case_Inr state_validate_Inr split: if_splits)

lemma verify_revision_iff:
  "verify_revision lib view ws res rv blob = Inr v \<longleftrightarrow> signed_revision lib view ws res rv blob v"
proof
  assume s: "signed_revision lib view ws res rv blob v"
  then obtain sg written author where p: "decode_signed lib blob = Inr sg"
    "decode_canonical (wl_state lib) (sd_body sg) = Inr (vs_state v)"
    "cv_get view (st_control (vs_state v)) = Some written"
    "control_principal (vf_control written) (st_author (vs_state v)) = Some author"
    "verify (wl_crypto lib) (pr_signing author) domain_state (sd_body sg) (sd_signature sg) = Inr ()"
    by (auto simp: signed_revision_def)
  moreover have "state_validate lib (vs_state v) = Inr ()"
    using s unfolding state_validate_Inr by (simp add: signed_revision_def)
  ultimately show "verify_revision lib view ws res rv blob = Inr v"
    using s by (auto simp: verify_revision_def signed_revision_def)
qed (rule verify_revision_Inr)

text \<open>A view is sound when its states were verified and its graph is theirs.\<close>

definition sv_sound :: "wsp_lib \<Rightarrow> control_view \<Rightarrow> string \<Rightarrow> string \<Rightarrow> state_view \<Rightarrow> bool" where
  "sv_sound lib view ws res sv \<longleftrightarrow> graph_ok (sv_graph sv) \<and> gm_ok (sv_states sv)
     \<and> (\<forall>d st. gm_get (sv_states sv) d = Some st \<longrightarrow>
          (\<exists>blob. signed_revision lib view ws res d blob st) \<and> graph_parents (sv_graph sv) d = st_parents (vs_state st))
     \<and> (\<forall>d. graph_has (sv_graph sv) d \<longleftrightarrow> gm_has (sv_states sv) d)"

lemma sv_sound_empty: "sv_sound lib view ws res empty_state_view"
  by (simp add: sv_sound_def empty_state_view_def)

lemma sv_sound_add:
  assumes "sv_sound lib view ws res sv" and "signed_revision lib view ws res d blob st"
  shows "sv_sound lib view ws res (sv\<lparr>sv_states := gm_put d st (sv_states sv),
     sv_graph := graph_add (sv_graph sv) d (st_parents (vs_state st))\<rparr>)"
  using assms by (auto simp: sv_sound_def)

lemma sv_sound_skip: "sv_sound lib view ws res (sv\<lparr>sv_skipped := n\<rparr>) \<longleftrightarrow> sv_sound lib view ws res sv"
  by (simp add: sv_sound_def)

lemma verify_batch_sound:
  assumes "verify_batch lib view ws res fetched batch sv queue tot = Inr (sv', queue', tot')"
    and "sv_sound lib view ws res sv"
  shows "sv_sound lib view ws res sv'"
  using assms
proof (induction batch arbitrary: sv queue tot)
  case (Cons rv batch)
  show ?case
  proof (cases "\<exists>head. gm_get fetched rv = Some (Inr head)")
    case True
    then obtain head where f: "gm_get fetched rv = Some (Inr head)" by blast
    show ?thesis
    proof (cases "verify_revision lib view ws res rv head")
      case (Inl e)
      with Cons.prems f have "verify_batch lib view ws res fetched batch (sv\<lparr>sv_skipped := sv_skipped sv + 1\<rparr>) queue
          (tot + length head) = Inr (sv', queue', tot')"
        by (auto split: if_splits)
      from Cons.IH [OF this] Cons.prems(2) show ?thesis
        by (simp add: sv_sound_skip)
    next
      case (Inr st)
      with Cons.prems f have "verify_batch lib view ws res fetched batch
          (sv\<lparr>sv_states := gm_put rv st (sv_states sv), sv_graph := graph_add (sv_graph sv) rv (st_parents (vs_state st))\<rparr>)
          (queue @ st_parents (vs_state st)) (tot + length head) = Inr (sv', queue', tot')"
        by (auto split: if_splits)
      from Cons.IH [OF this] show ?thesis
        using sv_sound_add [OF Cons.prems(2) verify_revision_Inr [OF Inr]] by simp
    qed
  next
    case False
    with Cons.prems have "verify_batch lib view ws res fetched batch (sv\<lparr>sv_skipped := sv_skipped sv + 1\<rparr>) queue tot
        = Inr (sv', queue', tot')"
      by (auto split: option.splits sum.splits)
    from Cons.IH [OF this] Cons.prems(2) show ?thesis
      by (simp add: sv_sound_skip)
  qed
qed simp

lemma load_states_loop_sound:
  assumes "load_states_loop lib ops view ws res queue tried sv tot s = (s', Inr sv')"
    and "sv_sound lib view ws res sv"
  shows "sv_sound lib view ws res sv'"
  using assms
proof (induction lib ops view ws res queue tried sv tot s rule: load_states_loop.induct)
  case (1 lib ops view ws res queue tried sv tot s)
  show ?case
  proof (cases "queue = []")
    case True
    with "1.prems" show ?thesis by (subst (asm) load_states_loop.simps) simp
  next
    case False
    obtain queue' tried' batch where t: "take_batch queue tried [] = Inr (queue', tried', batch)"
      using "1.prems"(1) False
      by (cases "take_batch queue tried []") (subst (asm) load_states_loop.simps; auto)+
    obtain s1 fetched where f: "prefetch_heads ops (state_scope (wl_crypto lib) ws res) batch [] s = (s1, Inr fetched)"
      using "1.prems"(1) False t
      by (cases "snd (prefetch_heads ops (state_scope (wl_crypto lib) ws res) batch [] s)")
        (subst (asm) load_states_loop.simps; auto split: prod.splits)+
    obtain sv1 queue1 tot1 where v: "verify_batch lib view ws res fetched batch sv queue' tot = Inr (sv1, queue1, tot1)"
      using "1.prems"(1) False t f
      by (cases "verify_batch lib view ws res fetched batch sv queue' tot") (subst (asm) load_states_loop.simps; auto)+
    have "load_states_loop lib ops view ws res queue1 tried' sv1 tot1 s1 = (s', Inr sv')"
      using "1.prems"(1) False t f v by (subst (asm) load_states_loop.simps) simp
    from "1.IH" [OF False t refl refl f [symmetric] refl v refl refl this]
      verify_batch_sound [OF v "1.prems"(2)] show ?thesis by blast
  qed
qed

lemma load_states_sound:
  assumes "load_states lib ops view ws res also1 s = (s', Inr sv)"
  shows "sv_sound lib view ws res sv" and "sv_heads sv = head_states (sv_graph sv) (sv_states sv)"
proof -
  obtain s1 revs s2 sv1 where "load_states_loop lib ops view ws res (revs @ also1) [] empty_state_view 0 s1 = (s2, Inr sv1)"
    and sv: "sv = sv1\<lparr>sv_heads := head_states (sv_graph sv1) (sv_states sv1)\<rparr>"
    using assms by (auto simp: load_states_def split: prod.splits sum.splits if_splits)
  then have "sv_sound lib view ws res sv1"
    by - (rule load_states_loop_sound [OF _ sv_sound_empty])
  then show "sv_sound lib view ws res sv" "sv_heads sv = head_states (sv_graph sv) (sv_states sv)"
    by (simp_all add: sv sv_sound_def)
qed

lemma copy_states_get:
  "copy_states vs (g, states) = (g', states') \<Longrightarrow>
     gm_get states' d = (case map_of (rev vs) d of None \<Rightarrow> gm_get states d | Some v \<Rightarrow> Some v)
     \<and> (graph_has g' d \<longleftrightarrow> graph_has g d \<or> d \<in> fst ` set vs)
     \<and> graph_parents g' d = (case map_of (rev vs) d of None \<Rightarrow> graph_parents g d | Some v \<Rightarrow> st_parents (vs_state v))
     \<and> (graph_ok g \<longrightarrow> graph_ok g') \<and> (gm_ok states \<longrightarrow> gm_ok states')"
  by (induction vs "(g, states)" arbitrary: g states rule: copy_states.induct)
    (auto simp: map_of_append split: option.splits)

end
