(* ===== verification/Chain_Verified.thy ===== *)
theory Chain_Verified
  imports Chain
begin

text \<open>
  What loading the Control DAG establishes, whatever the store returned: the accepted Controls are
  exactly those a chain of admins authorizes from the trusted genesis, the order in which entries
  are visited does not matter, the heads cover the DAG, and the work is bounded.
\<close>

subsection \<open>One pass\<close>

lemma those_Some: "those xs = Some ys \<longleftrightarrow> xs = map Some ys"
  by (induction xs arbitrary: ys) (auto split: option.splits)

lemma map_eq_map_Some:
  "map f ps = map Some pvs \<longleftrightarrow> length pvs = length ps \<and> (\<forall>i<length ps. f (ps ! i) = Some (pvs ! i))"
proof (induction ps arbitrary: pvs)
  case (Cons p ps)
  then show ?case by (cases pvs) (auto simp: All_less_Suc2)
qed auto

lemma ready_parents_Some:
  "ready_parents view ps = Some pvs \<longleftrightarrow>
     ps \<noteq> [] \<and> length pvs = length ps \<and> (\<forall>i<length ps. gm_get view (ps ! i) = Some (pvs ! i))"
  by (simp add: ready_parents_def those_Some map_eq_map_Some)

definition extends :: "('k, 'v) gomap \<Rightarrow> ('k, 'v) gomap \<Rightarrow> bool" where
  "extends m m' \<longleftrightarrow> (\<forall>k v. gm_get m k = Some v \<longrightarrow> gm_get m' k = Some v)"

lemma extends_refl [simp]: "extends m m"
  by (simp add: extends_def)

lemma extends_trans: "extends a b \<Longrightarrow> extends b c \<Longrightarrow> extends a c"
  by (simp add: extends_def)

lemma extends_put: "\<not> gm_has m k \<Longrightarrow> extends m (gm_put k v m)"
  by (auto simp: extends_def gm_has_get)

lemma ready_parents_extends:
  assumes "ready_parents m ps = Some pvs" and "extends m m'"
  shows "ready_parents m' ps = Some pvs"
  using assms by (simp add: ready_parents_Some extends_def)

definition enters :: "wsp_lib \<Rightarrow> digest \<Rightarrow> bytes \<Rightarrow> verified list \<Rightarrow> verified \<Rightarrow> bool" where
  "enters lib rv blob pvs v \<longleftrightarrow> verify_child lib pvs blob = Inr v \<and> vf_digest v = rv"

text \<open>An entry is settled when its parents are accepted and, if it verifies, it is accepted too.\<close>

fun settled :: "wsp_lib \<Rightarrow> (digest, verified) gomap \<Rightarrow> digest \<times> bytes \<times> control \<Rightarrow> bool" where
  "settled lib view (rv, blob, c) \<longleftrightarrow>
     (\<exists>pvs. ready_parents view (ct_parents c) = Some pvs \<and>
        (\<forall>v. enters lib rv blob pvs v \<longrightarrow> gm_get view rv = Some v))"

lemma settled_extends: "settled lib m e \<Longrightarrow> extends m m' \<Longrightarrow> settled lib m' e"
proof (cases e)
  case (fields rv blob c)
  assume st: "settled lib m e" and ext: "extends m m'"
  then obtain pvs where "ready_parents m (ct_parents c) = Some pvs"
    "\<forall>v. enters lib rv blob pvs v \<longrightarrow> gm_get m rv = Some v"
    by (auto simp: fields)
  with ready_parents_extends [OF _ ext] ext show ?thesis
    by (simp add: fields extends_def)
qed

definition step_view ::
  "wsp_lib \<Rightarrow> digest \<Rightarrow> bytes \<Rightarrow> verified list \<Rightarrow> (digest, verified) gomap \<Rightarrow> (digest, verified) gomap" where
  "step_view lib rv blob pvs view =
     (case verify_child lib pvs blob of Inl e \<Rightarrow> view | Inr v \<Rightarrow> if vf_digest v = rv then gm_put rv v view else view)"

lemma enters_unique: "enters lib rv blob pvs v \<Longrightarrow> enters lib rv blob pvs v' \<Longrightarrow> v = v'"
  by (simp add: enters_def)

lemma step_view_cases:
  "step_view lib rv blob pvs view = view \<and> (\<nexists>v. enters lib rv blob pvs v)
   \<or> (\<exists>v. enters lib rv blob pvs v \<and> step_view lib rv blob pvs view = gm_put rv v view)"
  by (auto simp: step_view_def enters_def split: sum.split)

lemma accept_pass_Cons:
  "accept_pass lib ((rv, (blob, c)) # ps) view =
     (case ready_parents view (ct_parents c) of
        None \<Rightarrow> (case accept_pass lib ps view of (view', rest, pr) \<Rightarrow> (view', (rv, (blob, c)) # rest, pr))
      | Some parents \<Rightarrow>
          (case accept_pass lib ps (step_view lib rv blob parents view) of (view', rest, pr) \<Rightarrow> (view', rest, True)))"
  by (cases "ready_parents view (ct_parents c)") (simp_all add: step_view_def)

declare accept_pass.simps(2) [simp del]

lemma accept_pass_spec:
  assumes "accept_pass lib ps view = (view', rest, pr)" and "distinct (map fst ps)"
    and "\<forall>k\<in>fst ` set ps. \<not> gm_has view k"
  shows "extends view view' \<and> (\<forall>k. gm_has view' k \<longrightarrow> gm_has view k \<or> k \<in> fst ` (set ps - set rest))
    \<and> distinct (map fst rest) \<and> set rest \<subseteq> set ps
    \<and> (\<forall>e\<in>set ps - set rest. settled lib view' e)
    \<and> (\<not> pr \<longrightarrow> view' = view \<and> rest = ps \<and> (\<forall>(rv, blob, c)\<in>set ps. ready_parents view (ct_parents c) = None))"
  using assms
proof (induction ps arbitrary: view view' rest pr)
  case (Cons e ps)
  obtain rv blob c where e: "e = (rv, blob, c)" by (rule prod_cases3)
  show ?case
  proof (cases "ready_parents view (ct_parents c)")
    case None
    obtain r q where a: "accept_pass lib ps view = (view', r, q)" and r: "rest = e # r" "pr = q"
      using Cons.prems(1) None by (auto simp: e accept_pass_Cons split: prod.splits)
    note IH = Cons.IH [OF a]
    have sub: "set r \<subseteq> set ps"
      using accept_pass_rest [OF a] by simp
    have "e \<notin> set ps"
      using Cons.prems(2) by (auto simp: e rev_image_eqI)
    then have diff: "set (e # ps) - set (e # r) = set ps - set r"
      by auto
    have "e \<notin> set r" "fst e \<notin> fst ` set r"
      using sub \<open>e \<notin> set ps\<close> Cons.prems(2) by (auto simp: e)
    then show ?thesis
      using IH Cons.prems(2,3) None sub unfolding r diff by (auto simp: e)
  next
    case (Some pvs)
    let ?v1 = "step_view lib rv blob pvs view"
    obtain q where a: "accept_pass lib ps ?v1 = (view', rest, q)" and pr: "pr"
      using Cons.prems(1) Some by (auto simp: e accept_pass_Cons split: prod.splits)
    have nh: "\<not> gm_has view rv"
      using Cons.prems(3) by (simp add: e)
    have ext: "extends view ?v1" and dom: "\<forall>k. gm_has ?v1 k \<longrightarrow> gm_has view k \<or> k = rv"
      using step_view_cases [of lib rv blob pvs view] extends_put [OF nh] by auto
    have "\<forall>k\<in>fst ` set ps. \<not> gm_has ?v1 k"
      using dom Cons.prems(2,3) by (auto simp: e)
    note IH = Cons.IH [OF a _ this]
    have st: "settled lib ?v1 e"
      using ready_parents_extends [OF Some ext] enters_unique step_view_cases [of lib rv blob pvs view]
      by (force simp: e)
    have sub: "set rest \<subseteq> set ps"
      using accept_pass_rest [OF a] by simp
    have e_rest: "e \<notin> set rest"
      using sub Cons.prems(2) by (auto simp: e rev_image_eqI)
    have ext': "extends ?v1 view'" "distinct (map fst rest)"
      "\<forall>k. gm_has view' k \<longrightarrow> gm_has ?v1 k \<or> k \<in> fst ` (set ps - set rest)"
      "\<forall>e\<in>set ps - set rest. settled lib view' e"
      using IH Cons.prems(2) by simp_all
    have diff: "set (e # ps) - set rest = insert e (set ps - set rest)"
      using e_rest by auto
    have "\<forall>k. gm_has view' k \<longrightarrow> gm_has view k \<or> k \<in> fst ` (set (e # ps) - set rest)"
      using ext'(3) dom unfolding diff by (auto simp: e)
    moreover have "\<forall>x\<in>set (e # ps) - set rest. settled lib view' x"
      using ext'(4) settled_extends [OF st ext'(1)] by auto
    ultimately show ?thesis
      using extends_trans [OF ext ext'(1)] ext'(2) sub pr by auto
  qed
qed simp

subsection \<open>The accepted Controls\<close>

text \<open>
  The Controls the loop may accept, by its own rule and in any order: the root, and an entry that
  verifies against parents that are accepted.
\<close>

inductive accepted :: "wsp_lib \<Rightarrow> digest \<Rightarrow> verified \<Rightarrow> pending \<Rightarrow> digest \<Rightarrow> verified \<Rightarrow> bool"
  for lib :: wsp_lib and genesis :: digest and root :: verified and pend :: pending where
  accepted_root: "accepted lib genesis root pend genesis root"
| accepted_child: "(rv, blob, c) \<in> set pend \<Longrightarrow> ct_parents c \<noteq> [] \<Longrightarrow> length pvs = length (ct_parents c) \<Longrightarrow>
    (\<And>i. i < length pvs \<Longrightarrow> accepted lib genesis root pend (ct_parents c ! i) (pvs ! i)) \<Longrightarrow>
    enters lib rv blob pvs v \<Longrightarrow> accepted lib genesis root pend rv v"

lemma accepted_mono:
  assumes "accepted lib genesis root p d v" and "set p \<subseteq> set q"
  shows "accepted lib genesis root q d v"
  using assms(1)
proof (induction rule: accepted.induct)
  case (accepted_child rv blob c pvs v)
  show ?case
  proof (rule accepted.accepted_child)
    show "(rv, blob, c) \<in> set q"
      using accepted_child.hyps(1) assms(2) by blast
  qed (use accepted_child in simp_all)
qed (rule accepted.accepted_root)

lemma accept_pass_sound:
  assumes "accept_pass lib ps view = (view', rest, pr)" and "set ps \<subseteq> set pend"
    and "\<forall>d v. gm_get view d = Some v \<longrightarrow> accepted lib genesis root pend d v"
  shows "\<forall>d v. gm_get view' d = Some v \<longrightarrow> accepted lib genesis root pend d v"
  using assms
proof (induction ps arbitrary: view rest pr)
  case (Cons e ps)
  obtain rv blob c where e: "e = (rv, blob, c)" by (rule prod_cases3)
  show ?case
  proof (cases "ready_parents view (ct_parents c)")
    case None
    then obtain r q where "accept_pass lib ps view = (view', r, q)"
      using Cons.prems(1) by (auto simp: e accept_pass_Cons split: prod.splits)
    with Cons show ?thesis by auto
  next
    case (Some pvs)
    then obtain q where a: "accept_pass lib ps (step_view lib rv blob pvs view) = (view', rest, q)"
      using Cons.prems(1) by (auto simp: e accept_pass_Cons split: prod.splits)
    have "accepted lib genesis root pend rv v" if "enters lib rv blob pvs v" for v
    proof (rule accepted_child)
      show "(rv, blob, c) \<in> set pend"
        using Cons.prems(2) by (simp add: e)
      show "ct_parents c \<noteq> []"
        using Some by (simp add: ready_parents_Some)
      show "length pvs = length (ct_parents c)"
        using Some [unfolded ready_parents_Some] by simp
      show "accepted lib genesis root pend (ct_parents c ! i) (pvs ! i)" if "i < length pvs" for i
        using Some [unfolded ready_parents_Some] Cons.prems(3) that by simp
    qed (rule that)
    then have "\<forall>d v. gm_get (step_view lib rv blob pvs view) d = Some v \<longrightarrow> accepted lib genesis root pend d v"
      using step_view_cases [of lib rv blob pvs view] Cons.prems(3) by (auto split: if_splits)
    with Cons.IH [OF a] Cons.prems(2) show ?thesis by simp
  qed
qed simp

lemma accept_loop_spec:
  assumes "distinct (map fst ps)" and "set ps \<subseteq> set pend"
    and "\<forall>k\<in>fst ` set ps. \<not> gm_has view k" and "extends [(genesis, root)] view"
    and "\<forall>d v. gm_get view d = Some v \<longrightarrow> accepted lib genesis root pend d v"
    and "\<forall>e\<in>set pend - set ps. settled lib view e"
  shows "extends view (accept_loop lib ps view)
    \<and> (\<forall>d v. gm_get (accept_loop lib ps view) d = Some v \<longrightarrow> accepted lib genesis root pend d v)
    \<and> (\<forall>(rv, blob, c)\<in>set pend. ready_parents (accept_loop lib ps view) (ct_parents c) = None
         \<or> settled lib (accept_loop lib ps view) (rv, blob, c))"
  using assms
proof (induction lib ps view rule: accept_loop.induct)
  case (1 lib ps view)
  obtain view' rest pr where a: "accept_pass lib ps view = (view', rest, pr)" by (rule prod_cases3)
  note spec = accept_pass_spec [OF a "1.prems"(1,3)]
  note sound = accept_pass_sound [OF a "1.prems"(2,5)]
  show ?case
  proof (cases pr)
    case False
    with spec have "view' = view" "rest = ps"
      and no: "\<forall>(rv, blob, c)\<in>set ps. ready_parents view (ct_parents c) = None" by auto
    with False a have eq: "accept_loop lib ps view = view"
      by (subst accept_loop.simps) simp
    have "\<forall>(rv, blob, c)\<in>set pend. ready_parents view (ct_parents c) = None \<or> settled lib view (rv, blob, c)"
      using "1.prems"(6) no by blast
    with "1.prems"(5) show ?thesis
      unfolding eq by simp
  next
    case True
    then have eq: "accept_loop lib ps view = accept_loop lib rest view'"
      using a by (subst accept_loop.simps) simp
    have ext: "extends view view'" and sub: "set rest \<subseteq> set ps" using spec by auto
    have keys: "\<forall>k\<in>fst ` set rest. \<not> gm_has view' k"
    proof
      fix k assume k: "k \<in> fst ` set rest"
      then have "\<not> gm_has view k"
        using "1.prems"(3) sub by auto
      moreover have "k \<notin> fst ` (set ps - set rest)"
      proof
        assume "k \<in> fst ` (set ps - set rest)"
        then obtain x where x: "x \<in> set ps" "x \<notin> set rest" "k = fst x" by auto
        obtain y where y: "y \<in> set rest" "k = fst y" using k by auto
        have "y \<in> set ps" using y(1) sub by (rule rev_subsetD)
        moreover have "inj_on fst (set ps)"
          using "1.prems"(1) by (simp add: distinct_map)
        ultimately have "x = y"
          using x(1,3) y(2) by (simp add: inj_on_def)
        with x(2) y(1) show False by simp
      qed
      ultimately show "\<not> gm_has view' k"
        using spec by blast
    qed
    have settled': "\<forall>e\<in>set pend - set rest. settled lib view' e"
      using "1.prems"(6) spec settled_extends [OF _ ext] by blast
    have start: "distinct (map fst rest)" "set rest \<subseteq> set pend" "extends [(genesis, root)] view'"
      using spec sub "1.prems"(2,4) extends_trans [OF _ ext] by auto
    have IH: "extends view' (accept_loop lib rest view')
      \<and> (\<forall>d v. gm_get (accept_loop lib rest view') d = Some v \<longrightarrow> accepted lib genesis root pend d v)
      \<and> (\<forall>(rv, blob, c)\<in>set pend. ready_parents (accept_loop lib rest view') (ct_parents c) = None
           \<or> settled lib (accept_loop lib rest view') (rv, blob, c))"
      by (rule "1.IH" [OF a [symmetric] refl True start(1,2) keys start(3) sound settled'])
    with ext show ?thesis
      unfolding eq using extends_trans by blast
  qed
qed

text \<open>The loop accepts exactly these Controls.\<close>

lemma accept_loop_accepted:
  assumes "distinct (map fst pend)" and "genesis \<notin> fst ` set pend"
  shows "gm_get (accept_loop lib pend [(genesis, root)]) d = Some v \<longleftrightarrow> accepted lib genesis root pend d v"
proof -
  let ?m = "accept_loop lib pend [(genesis, root)]"
  have start: "gm_get [(genesis, root)] d = Some v \<longleftrightarrow> d = genesis \<and> v = root" for d v
    by (auto simp: gm_get_def)
  have spec: "extends [(genesis, root)] ?m
    \<and> (\<forall>d v. gm_get ?m d = Some v \<longrightarrow> accepted lib genesis root pend d v)
    \<and> (\<forall>(rv, blob, c)\<in>set pend. ready_parents ?m (ct_parents c) = None \<or> settled lib ?m (rv, blob, c))"
    by (rule accept_loop_spec) (use assms in \<open>auto simp: start gm_has_get intro: accepted_root\<close>)
  show ?thesis
  proof
    show "gm_get ?m d = Some v \<Longrightarrow> accepted lib genesis root pend d v"
      using spec by blast
    show "accepted lib genesis root pend d v \<Longrightarrow> gm_get ?m d = Some v"
    proof (induction rule: accepted.induct)
      case accepted_root
      show ?case using spec start by (simp add: extends_def)
    next
      case (accepted_child rv blob c pvs v)
      then have r: "ready_parents ?m (ct_parents c) = Some pvs"
        by (simp add: ready_parents_Some)
      with accepted_child spec have "settled lib ?m (rv, blob, c)"
        by fastforce
      with r accepted_child.hyps show ?case by auto
    qed
  qed
qed

subsection \<open>What the queue leaves pending\<close>

definition pending_ok :: "wsp_lib \<Rightarrow> string \<Rightarrow> pending \<Rightarrow> bool" where
  "pending_ok lib ws pend \<longleftrightarrow> distinct (map fst pend) \<and>
     (\<forall>(rv, blob, c)\<in>set pend. ct_workspace c = ws
        \<and> (\<exists>sg. decode_signed lib blob = Inr sg \<and> decode_control lib (sd_body sg) = Inr c))"

lemma load_queue_spec:
  assumes "load_queue lib ops ws queue tried tot pend s = (s', Inr pend')"
    and "pending_ok lib ws pend" and "fst ` set pend \<subseteq> set tried" and "g \<in> set tried" and "g \<notin> fst ` set pend"
  shows "pending_ok lib ws pend' \<and> g \<notin> fst ` set pend'"
  using assms
proof (induction lib ops ws queue tried tot pend s rule: load_queue.induct)
  case (2 lib ops ws rv queue tried tot pend s)
  show ?case
  proof (cases "rv \<in> set tried")
    case True
    with 2 show ?thesis by simp
  next
    case False
    have small: "\<not> length tried \<ge> max_controls"
      using "2.prems"(1) False by (auto split: if_splits)
    obtain s1 fr where f: "so_fetch_head ops KindControl [] rv s = (s1, fr)" by fastforce
    have more: "fst ` set pend \<subseteq> set (rv # tried)" "g \<in> set (rv # tried)"
      using "2.prems"(3,4) by auto
    show ?thesis
    proof (cases fr)
      case (Inl e)
      then have e: "e = SNotFound \<or> e = SCorrupt"
        using "2.prems"(1) False small f by (auto split: if_splits)
      have "load_queue lib ops ws queue (rv # tried) tot pend s1 = (s', Inr pend')"
        using "2.prems"(1) False small f Inl e by auto
      from "2.IH"(2) [OF False small f [symmetric] Inl e this "2.prems"(2) more "2.prems"(5)] show ?thesis .
    next
      case (Inr blob)
      then have tot: "\<not> tot + length blob > max_control_bytes"
        using "2.prems"(1) False small f by (auto split: if_splits)
      let ?d = "res_bind (decode_signed lib blob) (\<lambda>sg. decode_control lib (sd_body sg))"
      show ?thesis
      proof (cases ?d)
        case (Inl e)
        have "load_queue lib ops ws queue (rv # tried) (tot + length blob) pend s1 = (s', Inr pend')"
          using "2.prems"(1) False small f Inr tot Inl by simp
        from "2.IH"(3) [OF False small f [symmetric] Inr tot Inl this "2.prems"(2) more "2.prems"(5)] show ?thesis .
      next
        case c: (Inr c)
        show ?thesis
        proof (cases "ct_workspace c = ws")
          case False': False
          have "load_queue lib ops ws queue (rv # tried) (tot + length blob) pend s1 = (s', Inr pend')"
            using "2.prems"(1) False small f Inr tot c False' by simp
          from "2.IH"(4) [OF False small f [symmetric] Inr tot c False' this "2.prems"(2) more "2.prems"(5)]
          show ?thesis .
        next
          case True
          have rv: "rv \<notin> fst ` set pend"
            using False "2.prems"(3) by auto
          have rec: "load_queue lib ops ws (queue @ ct_parents c) (rv # tried) (tot + length blob)
              (gm_put rv (blob, c) pend) s1 = (s', Inr pend')"
            using "2.prems"(1) False small f Inr tot c True by simp
          have "pending_ok lib ws (gm_put rv (blob, c) pend)"
            using "2.prems"(2) c True rv by (auto simp: pending_ok_def gm_put_fresh res_simps)
          moreover have "fst ` set (gm_put rv (blob, c) pend) \<subseteq> set (rv # tried)"
            using "2.prems"(3) rv by (auto simp: gm_put_fresh)
          moreover have "g \<notin> fst ` set (gm_put rv (blob, c) pend)"
            using "2.prems"(4,5) False rv by (auto simp: gm_put_fresh)
          ultimately show ?thesis
            using "2.IH"(5) [OF False small f [symmetric] Inr tot c _ rec] True more by simp
        qed
      qed
    qed
  qed
qed simp

subsection \<open>Authority\<close>

text \<open>
  What a workspace trusts, stated without the loading code: the Control whose bytes have the
  trusted digest, signed by an admin it lists, and any Control an admin of all its parents signed,
  when the parents are trusted.
\<close>

inductive authorized :: "wsp_lib \<Rightarrow> string \<Rightarrow> digest \<Rightarrow> verified \<Rightarrow> bool"
  for lib :: wsp_lib and ws :: string and genesis :: digest where
  authorized_genesis: "dl_from_bytes (wl_digest lib) blob = genesis \<Longrightarrow> decode_signed lib blob = Inr sg \<Longrightarrow>
    decode_control lib (sd_body sg) = Inr c \<Longrightarrow> ct_parents c = [] \<Longrightarrow> ct_workspace c = ws \<Longrightarrow>
    control_principal c (ct_author c) = Some a \<Longrightarrow> pr_admin a \<Longrightarrow>
    verify (wl_crypto lib) (pr_signing a) domain_control (sd_body sg) (sd_signature sg) = Inr () \<Longrightarrow>
    authorized lib ws genesis \<lparr>vf_control = c, vf_digest = genesis\<rparr>"
| authorized_child: "(\<And>p. p \<in> set parents \<Longrightarrow> authorized lib ws genesis p) \<Longrightarrow> child_of lib parents blob c \<Longrightarrow>
    authorized lib ws genesis \<lparr>vf_control = c, vf_digest = dl_from_bytes (wl_digest lib) blob\<rparr>"

lemma accepted_authorized:
  assumes "accepted lib genesis root pend d v" and "verify_genesis lib ws blob genesis = Inr root"
    and "genesis \<notin> fst ` set pend"
  shows "authorized lib ws genesis v \<and> vf_digest v = d \<and> control_ok lib (vf_control v) \<and> ct_workspace (vf_control v) = ws"
  using assms(1)
proof (induction rule: accepted.induct)
  case accepted_root
  note g = verify_genesis_Inr [OF assms(2)]
  then have eq: "root = \<lparr>vf_control = vf_control root, vf_digest = genesis\<rparr>"
    by (cases root) auto
  have "authorized lib ws genesis \<lparr>vf_control = vf_control root, vf_digest = genesis\<rparr>"
    using g by (auto intro: authorized_genesis)
  then show ?case
    using g eq by simp
next
  case (accepted_child rv blob c pvs v)
  then have vc: "verify_child lib pvs blob = Inr v" "vf_digest v = rv"
    by (simp_all add: enters_def)
  note ch = verify_child_Inr [OF vc(1)]
  have all: "\<forall>p\<in>set pvs. authorized lib ws genesis p \<and> ct_workspace (vf_control p) = ws"
    using accepted_child.IH by (auto simp: in_set_conv_nth)
  have "authorized lib ws genesis \<lparr>vf_control = vf_control v, vf_digest = dl_from_bytes (wl_digest lib) blob\<rparr>"
    using all ch by (intro authorized_child [of pvs]) auto
  moreover have "v = \<lparr>vf_control = vf_control v, vf_digest = dl_from_bytes (wl_digest lib) blob\<rparr>"
    using ch by (cases v) auto
  moreover have "pvs \<noteq> []" "\<forall>p\<in>set pvs. ct_workspace (vf_control p) = ct_workspace (vf_control v)"
    using ch by (auto simp: child_of_def)
  then have "ct_workspace (vf_control v) = ws"
    using all by (cases pvs) auto
  ultimately show ?case
    using vc(2) ch by simp
qed

text \<open>What a successful load gives: the pieces of \<open>LoadControl\<close>.\<close>

lemma load_control_Inr:
  assumes "load_control lib ops ws genesis cp s = (s', Inr view)"
  obtains pend root blob where "pending_ok lib ws pend" and "genesis \<notin> fst ` set pend"
    and "verify_genesis lib ws blob genesis = Inr root"
    and "cv_verified view = accept_loop lib pend [(genesis, root)]"
    and "cv_heads view = view_heads (cv_verified view)" and "cv_workspace view = ws" and "cv_genesis view = genesis"
    and "\<forall>d\<in>set cp. gm_has (cv_verified view) d"
proof -
  obtain s1 revs s2 blob root pend where
    root: "verify_genesis lib ws blob genesis = Inr root"
    and q: "load_queue lib ops ws (sort_digests revs) [genesis] (length blob) [] s2 = (s', Inr pend)"
    and view: "view = \<lparr>cv_workspace = ws, cv_genesis = genesis, cv_heads = view_heads (accept_loop lib pend [(genesis, root)]),
               cv_verified = accept_loop lib pend [(genesis, root)], cv_membership = []\<rparr>"
    and cp: "\<forall>d\<in>set cp. gm_has (accept_loop lib pend [(genesis, root)]) d"
    using assms by (auto simp: load_control_def Let_def split: if_splits prod.splits sum.splits)
  have "pending_ok lib ws pend \<and> genesis \<notin> fst ` set pend"
    by (rule load_queue_spec [OF q]) (simp_all add: pending_ok_def)
  then show thesis
    by (intro that [OF _ _ root]) (use view cp in simp_all)
qed

lemma load_control_get:
  assumes "pending_ok lib ws pend" and "genesis \<notin> fst ` set pend"
  shows "gm_get (accept_loop lib pend [(genesis, root)]) d = Some v \<longleftrightarrow> accepted lib genesis root pend d v"
  using assms by (intro accept_loop_accepted) (simp_all add: pending_ok_def)

text \<open>The parents of an accepted Control are accepted, and no chain of parents returns.\<close>

definition control_edge :: "(digest, verified) gomap \<Rightarrow> (digest \<times> digest) set" where
  "control_edge m = {(d, p). \<exists>v. gm_get m d = Some v \<and> p \<in> set (ct_parents (vf_control v))}"

lemma accepted_digest:
  "accepted lib genesis root pend d v \<Longrightarrow> vf_digest root = genesis \<Longrightarrow> vf_digest v = d"
  by (induction rule: accepted.induct) (simp_all add: enters_def)

lemma enters_parents:
  assumes "enters lib rv blob pvs v" and "\<And>i. i < length pvs \<Longrightarrow> vf_digest (pvs ! i) = ps ! i"
    and "length pvs = length ps"
  shows "set (ct_parents (vf_control v)) = set ps"
proof -
  have "map vf_digest pvs = ps"
    using assms(2,3) by (simp add: list_eq_iff_nth_eq)
  moreover have "verify_child lib pvs blob = Inr v"
    using assms(1) by (simp add: enters_def)
  then have "ct_parents (vf_control v) = sort (map vf_digest pvs)"
    using verify_child_Inr by (fastforce simp: child_of_def)
  ultimately show ?thesis by simp
qed

lemma accepted_parents:
  assumes "accepted lib genesis root pend d v" and "vf_digest root = genesis" and "ct_parents (vf_control root) = []"
    and "p \<in> set (ct_parents (vf_control v))"
  shows "\<exists>w. accepted lib genesis root pend p w"
  using assms(1)
proof cases
  case accepted_root
  with assms(3,4) show ?thesis by simp
next
  case (accepted_child blob c pvs)
  have "set (ct_parents (vf_control v)) = set (ct_parents c)"
  proof (rule enters_parents)
    show "vf_digest (pvs ! i) = ct_parents c ! i" if "i < length pvs" for i
      using accepted_child(4) [OF that] assms(2) by (rule accepted_digest)
  qed (use accepted_child in simp_all)
  then obtain i where "i < length pvs" "ct_parents c ! i = p"
    using assms(4) accepted_child(3) by (auto simp: in_set_conv_nth)
  then show ?thesis
    using accepted_child(4) by blast
qed

text \<open>The Controls a load has verified; none when it failed.\<close>

definition loaded_controls ::
  "wsp_lib \<Rightarrow> 's store_ops \<Rightarrow> string \<Rightarrow> digest \<Rightarrow> digest list \<Rightarrow> 's \<Rightarrow> (digest, verified) gomap" where
  "loaded_controls lib ops ws genesis cp s =
     (case snd (load_control lib ops ws genesis cp s) of Inl e \<Rightarrow> [] | Inr view \<Rightarrow> cv_verified view)"

lemma loaded_controls_cases:
  "loaded_controls lib ops ws genesis cp s = [] \<or>
   (\<exists>pend root blob. pending_ok lib ws pend \<and> genesis \<notin> fst ` set pend
      \<and> verify_genesis lib ws blob genesis = Inr root
      \<and> loaded_controls lib ops ws genesis cp s = accept_loop lib pend [(genesis, root)])"
proof (cases "load_control lib ops ws genesis cp s")
  case (Pair s' r)
  show ?thesis
  proof (cases r)
    case (Inr view)
    with Pair have l: "load_control lib ops ws genesis cp s = (s', Inr view)" by simp
    have eq: "loaded_controls lib ops ws genesis cp s = cv_verified view"
      by (simp add: loaded_controls_def l)
    show ?thesis
      unfolding eq by (rule load_control_Inr [OF l]) blast
  qed (use Pair in \<open>simp add: loaded_controls_def\<close>)
qed

lemma loaded_wf:
  assumes "pending_ok lib ws pend" and "genesis \<notin> fst ` set pend" and "verify_genesis lib ws blob genesis = Inr root"
  shows "wf ((control_edge (accept_loop lib pend [(genesis, root)]))\<inverse>)"
proof (rule acc_wfI, rule allI)
  let ?m = "accept_loop lib pend [(genesis, root)]"
  note get_iff = load_control_get [OF assms(1,2), of root]
  have root: "vf_digest root = genesis" "ct_parents (vf_control root) = []"
    using verify_genesis_Inr [OF assms(3)] by auto
  fix d
  show "d \<in> Wellfounded.acc ((control_edge ?m)\<inverse>)"
  proof (cases "gm_get ?m d")
    case None
    show ?thesis
      by (rule accI) (use None in \<open>auto simp: control_edge_def\<close>)
  next
    case (Some v)
    then have "accepted lib genesis root pend d v"
      by (simp add: get_iff)
    then show ?thesis
    proof (induction rule: accepted.induct)
      case accepted_root
      have "gm_get ?m genesis = Some root"
        unfolding get_iff by (rule accepted.accepted_root)
      then show ?case
        by - (rule accI, use root(2) in \<open>auto simp: control_edge_def\<close>)
    next
      case (accepted_child rv blob c pvs v)
      have acc: "gm_get ?m rv = Some v"
        unfolding get_iff using accepted_child.hyps by (intro accepted.accepted_child [of rv blob c pend pvs]) simp_all
      have par: "set (ct_parents (vf_control v)) = set (ct_parents c)"
      proof (rule enters_parents)
        show "vf_digest (pvs ! i) = ct_parents c ! i" if "i < length pvs" for i
          using accepted_child.hyps(4) [OF that] root(1) by (rule accepted_digest)
      qed (use accepted_child.hyps in simp_all)
      show ?case
      proof (rule accI)
        fix p assume "(p, rv) \<in> (control_edge ?m)\<inverse>"
        then have "p \<in> set (ct_parents c)"
          using acc par by (auto simp: control_edge_def)
        then show "p \<in> Wellfounded.acc ((control_edge ?m)\<inverse>)"
          using accepted_child.IH accepted_child.hyps(3) by (auto simp: in_set_conv_nth)
      qed
    qed
  qed
qed

text \<open>
  The interface a verified Control DAG offers to the rest of the protocol: every Control is
  authorized and filed under its digest, its parents are there too, and parents never lead back.
\<close>

locale control_dag =
  fixes lib :: wsp_lib and ws :: string and genesis :: digest and m :: "(digest, verified) gomap"
  assumes get_authorized: "gm_get m d = Some v \<Longrightarrow> authorized lib ws genesis v"
    and get_digest: "gm_get m d = Some v \<Longrightarrow> vf_digest v = d"
    and get_ok: "gm_get m d = Some v \<Longrightarrow> control_ok lib (vf_control v) \<and> ct_workspace (vf_control v) = ws"
    and parents_in: "gm_get m d = Some v \<Longrightarrow> p \<in> set (ct_parents (vf_control v)) \<Longrightarrow> gm_has m p"
    and wf_edge: "wf ((control_edge m)\<inverse>)"
begin

lemma edge_in: "(d, p) \<in> control_edge m \<Longrightarrow> gm_has m d \<and> gm_has m p"
  using parents_in by (auto simp: control_edge_def gm_has_get)

lemma acyclic_edge: "acyclic (control_edge m)"
  using wf_edge wf_acyclic acyclic_converse by blast

lemma top_above:
  assumes "gm_has m d"
  shows "\<exists>t. gm_has m t \<and> (t, d) \<in> (control_edge m)\<^sup>* \<and> (\<forall>c. (c, t) \<notin> control_edge m)"
proof -
  have "finite {d. gm_has m d}"
    by (simp add: gm_has_iff)
  then show ?thesis
    using finite_acyclic_top [of "{d. gm_has m d}" "control_edge m" d] acyclic_edge edge_in assms by blast
qed

end

interpretation loaded: control_dag lib ws genesis "loaded_controls lib ops ws genesis cp s"
  for lib :: wsp_lib and ws :: string and genesis :: digest and ops :: "'s store_ops" and cp :: "digest list" and s :: 's
proof (cases "loaded_controls lib ops ws genesis cp s = []")
  case True
  then show "control_dag lib ws genesis (loaded_controls lib ops ws genesis cp s)"
    by unfold_locales (simp_all add: control_edge_def)
next
  case False
  then obtain pend root blob where p: "pending_ok lib ws pend" "genesis \<notin> fst ` set pend"
    "verify_genesis lib ws blob genesis = Inr root"
    and m: "loaded_controls lib ops ws genesis cp s = accept_loop lib pend [(genesis, root)]"
    using loaded_controls_cases [of lib ops ws genesis cp s] by blast
  note get_iff = load_control_get [OF p(1,2), of root]
  have root: "vf_digest root = genesis" "ct_parents (vf_control root) = []"
    using verify_genesis_Inr [OF p(3)] by auto
  note facts = accepted_authorized [OF _ p(3) p(2)]
  show "control_dag lib ws genesis (loaded_controls lib ops ws genesis cp s)"
    unfolding m
  proof (unfold_locales, goal_cases)
    case (1 d v)
    then show ?case using facts by (simp add: get_iff)
  next
    case (2 d v)
    then show ?case using facts by (simp add: get_iff)
  next
    case (3 d v)
    then show ?case using facts by (simp add: get_iff)
  next
    case (4 d v q)
    then show ?case using accepted_parents [OF _ root] by (auto simp: get_iff gm_has_get)
  next
    case 5
    show ?case using p by (rule loaded_wf)
  qed
qed

subsection \<open>Heads\<close>

lemma mset_insert_down [simp]: "mset (insert_down v us) = add_mset v (mset us)"
  by (induction us) auto

lemma insert_down_sorted:
  "sorted_wrt (\<lambda>a b. vf_digest b \<le> vf_digest a) us \<Longrightarrow> sorted_wrt (\<lambda>a b. vf_digest b \<le> vf_digest a) (insert_down v us)"
proof (induction us)
  case (Cons u us)
  have "set (insert_down v us) = insert v (set us)"
    by (simp flip: set_mset_mset)
  with Cons show ?case
    by (auto simp: not_less)
qed simp

lemma sort_verified_loop:
  "sorted_wrt (\<lambda>a b. vf_digest a \<le> vf_digest b) acc \<Longrightarrow>
     mset (foldl (\<lambda>d v. rev (insert_down v (rev d))) acc vs) = mset acc + mset vs
     \<and> sorted_wrt (\<lambda>a b. vf_digest a \<le> vf_digest b) (foldl (\<lambda>d v. rev (insert_down v (rev d))) acc vs)"
proof (induction vs arbitrary: acc)
  case (Cons v vs)
  have "sorted_wrt (\<lambda>a b. vf_digest a \<le> vf_digest b) (rev (insert_down v (rev acc)))"
    using insert_down_sorted [of "rev acc" v] Cons.prems by (simp add: sorted_wrt_rev)
  from Cons.IH [OF this] show ?case by simp
qed simp

lemma sort_verified_spec:
  "mset (sort_verified vs) = mset vs" "sorted (map vf_digest (sort_verified vs))"
  using sort_verified_loop [of "[]" vs] by (simp_all add: sort_verified_def sorted_wrt_map)

lemma set_sort_verified [simp]: "set (sort_verified vs) = set vs"
  using sort_verified_spec(1) mset_eq_setD by blast

lemma accept_pass_ok: "gm_ok view \<Longrightarrow> accept_pass lib ps view = (view', rest, pr) \<Longrightarrow> gm_ok view'"
proof (induction ps arbitrary: view rest pr)
  case (Cons e ps)
  obtain rv blob c where e: "e = (rv, blob, c)" by (rule prod_cases3)
  have "gm_ok (step_view lib rv blob pvs view)" for pvs
    using step_view_cases [of lib rv blob pvs view] Cons.prems(1) by auto
  then show ?case
    using Cons by (auto simp: e accept_pass_Cons split: option.splits prod.splits)
qed simp

lemma accept_loop_ok: "gm_ok view \<Longrightarrow> gm_ok (accept_loop lib ps view)"
proof (induction lib ps view rule: accept_loop.induct)
  case (1 lib ps view)
  obtain view' rest pr where a: "accept_pass lib ps view = (view', rest, pr)" by (rule prod_cases3)
  then have "gm_ok view'"
    using accept_pass_ok "1.prems" by blast
  with "1.IH" [OF a [symmetric] refl] a show ?case
    by (subst accept_loop.simps) simp
qed

lemma view_heads_iff:
  assumes "gm_ok m"
  shows "v \<in> set (view_heads m) \<longleftrightarrow> (\<exists>d. gm_get m d = Some v \<and> (\<forall>c. (c, d) \<notin> control_edge m))"
proof -
  have "d \<in> set (concat (map (\<lambda>(d, v). ct_parents (vf_control v)) m)) \<longleftrightarrow> (\<exists>c. (c, d) \<in> control_edge m)" for d
    using assms by (auto simp: control_edge_def gm_get_in)
  then show ?thesis
    using assms by (force simp: view_heads_def Let_def gm_get_in image_iff simp del: set_concat)
qed

subsection \<open>Membership\<close>

lemma parents_without_iff: "parents_without m i ps \<longleftrightarrow> (\<forall>p\<in>set ps. member m p i = Some False)"
  by (induction ps) (auto simp: member_def split: option.splits)

text \<open>A Control drops nobody: it lists the device, or none of its parents does.\<close>

definition keeps :: "(digest, verified) gomap \<Rightarrow> string \<Rightarrow> digest \<Rightarrow> bool" where
  "keeps m i d \<longleftrightarrow> member m d i = Some True \<or>
     (member m d i = Some False \<and> (\<forall>p. (d, p) \<in> control_edge m \<longrightarrow> member m p i = Some False))"

lemma edge_get: "gm_get m d = Some v \<Longrightarrow> (d, p) \<in> control_edge m \<longleftrightarrow> p \<in> set (ct_parents (vf_control v))"
  by (simp add: control_edge_def)

lemma keeps_get:
  "gm_get m d = Some v \<Longrightarrow> keeps m i d \<longleftrightarrow>
     \<not> (control_principal (vf_control v) i = None \<and> \<not> parents_without m i (ct_parents (vf_control v)))"
  by (auto simp: keeps_def parents_without_iff edge_get) (auto simp: member_def)

lemma older_loop_spec:
  assumes "older_loop m q older = Some out"
    and "control_edge m `` set older \<subseteq> set older \<union> set q"
  shows "set older \<union> set q \<subseteq> set out \<and> control_edge m `` set out \<subseteq> set out
    \<and> set out \<subseteq> set older \<union> (control_edge m)\<^sup>* `` set q"
  using assms
proof (induction m q older rule: older_loop.induct)
  case (2 m d queue older)
  show ?case
  proof (cases "d \<in> set older")
    case True
    then have "control_edge m `` set older \<subseteq> set older \<union> set queue"
      using 2(4) by auto
    with 2(1) [OF True] 2(3) True have "set older \<union> set queue \<subseteq> set out \<and> control_edge m `` set out \<subseteq> set out
        \<and> set out \<subseteq> set older \<union> (control_edge m)\<^sup>* `` set queue"
      by simp
    with True show ?thesis by auto
  next
    case False
    obtain c where c: "gm_get m d = Some c"
      using 2(3) False by (cases "gm_get m d") auto
    have "control_edge m `` set (d # older) \<subseteq> set (d # older) \<union> set (queue @ ct_parents (vf_control c))"
      using 2(4) edge_get [OF c] by auto
    with 2(2) [OF False c] 2(3) False c
    have IH: "set (d # older) \<union> set (queue @ ct_parents (vf_control c)) \<subseteq> set out"
      "control_edge m `` set out \<subseteq> set out"
      "set out \<subseteq> set (d # older) \<union> (control_edge m)\<^sup>* `` set (queue @ ct_parents (vf_control c))"
      by auto
    have "(control_edge m)\<^sup>* `` set (ct_parents (vf_control c)) \<subseteq> (control_edge m)\<^sup>* `` {d}"
      using edge_get [OF c] by (auto intro: converse_rtrancl_into_rtrancl)
    then have sub: "(control_edge m)\<^sup>* `` set (queue @ ct_parents (vf_control c)) \<subseteq> (control_edge m)\<^sup>* `` set (d # queue)"
      by (auto simp: Image_Un)
    have "set out \<subseteq> set older \<union> (control_edge m)\<^sup>* `` set (d # queue)"
    proof
      fix x assume "x \<in> set out"
      then consider "x = d" | "x \<in> set older" | "x \<in> (control_edge m)\<^sup>* `` set (queue @ ct_parents (vf_control c))"
        using IH(3) by fastforce
      then show "x \<in> set older \<union> (control_edge m)\<^sup>* `` set (d # queue)"
        using sub by cases auto
    qed
    with IH(1,2) show ?thesis by simp
  qed
qed simp

lemma older_loop_total:
  assumes "\<forall>d\<in>set q. gm_has m d" and "\<And>d p. (d, p) \<in> control_edge m \<Longrightarrow> gm_has m p"
  shows "older_loop m q older \<noteq> None"
  using assms
proof (induction m q older rule: older_loop.induct)
  case (2 m d queue older)
  show ?case
  proof (cases "d \<in> set older")
    case False
    obtain c where c: "gm_get m d = Some c"
      using 2(3) by (auto simp: gm_has_get)
    have "\<forall>x\<in>set (queue @ ct_parents (vf_control c)). gm_has m x"
      using 2(3,4) edge_get [OF c] by auto
    with 2(2) [OF False c] 2(4) False c show ?thesis by simp
  qed (use 2 in auto)
qed simp

lemma older_set:
  assumes "older_loop m [d] [] = Some out"
  shows "set out = (control_edge m)\<^sup>* `` {d}"
proof -
  have s: "{d} \<subseteq> set out" "control_edge m `` set out \<subseteq> set out" "set out \<subseteq> (control_edge m)\<^sup>* `` {d}"
    using older_loop_spec [OF assms] by auto
  then show ?thesis
    by (intro closed_set_is_reach)
qed

lemma back_and_forth:
  assumes "acyclic r" and "(a, b) \<in> r\<^sup>*" and "(b, a) \<in> r\<^sup>*"
  shows "a = b"
  using assms by (metis acyclic_def rtranclD trancl_rtrancl_trancl)

lemma leaves_set:
  assumes "(x, y) \<in> r\<^sup>*" and "x \<in> S" and "y \<notin> S"
  shows "\<exists>a b. a \<in> S \<and> (a, b) \<in> r \<and> b \<notin> S \<and> (b, y) \<in> r\<^sup>*"
  using assms by (induction rule: converse_rtrancl_induct) auto

lemma reach_step:
  assumes "gm_get m d = Some c"
  shows "(control_edge m)\<^sup>* `` {d} = {d} \<union> (control_edge m)\<^sup>* `` set (ct_parents (vf_control c))"
  using edge_get [OF assms] by (auto elim: converse_rtranclE intro: converse_rtrancl_into_rtrancl)

text \<open>What the loop has seen so far keeps the device, and leads only to seen or waiting Controls.\<close>

definition walk_inv ::
  "(digest, verified) gomap \<Rightarrow> digest \<Rightarrow> string \<Rightarrow> digest set \<Rightarrow> digest list \<Rightarrow> digest set \<Rightarrow> bool \<Rightarrow> bool" where
  "walk_inv m start i older q seen reached \<longleftrightarrow>
     (\<forall>d\<in>set q. gm_has m d) \<and> seen \<inter> older = {} \<and> (\<forall>d\<in>seen. keeps m i d)
     \<and> (\<forall>x\<in>seen. \<forall>y. (x, y) \<in> control_edge m \<longrightarrow>
           y \<in> seen \<or> y \<in> set q \<or> (y \<in> older \<and> (y = start \<longrightarrow> reached)))"

definition walk_goal ::
  "(digest, verified) gomap \<Rightarrow> digest \<Rightarrow> string \<Rightarrow> digest set \<Rightarrow> digest list \<Rightarrow> bool \<Rightarrow> bool" where
  "walk_goal m start i older q reached \<longleftrightarrow>
     (reached \<or> start \<in> (control_edge m)\<^sup>* `` set q) \<and> (\<forall>d\<in>(control_edge m)\<^sup>* `` set q - older. keeps m i d)"

lemma walk_goal_skip:
  assumes acyc: "acyclic (control_edge m)" and older: "older = (control_edge m)\<^sup>* `` {start}"
    and inv: "walk_inv m start i older (d # q) seen reached" and d: "d \<in> seen \<or> d \<in> older"
  shows "walk_goal m start i older (d # q) reached \<longleftrightarrow> walk_goal m start i older q (d = start \<or> reached)"
proof -
  let ?E = "control_edge m"
  have out: "\<exists>b\<in>set q \<union> older. (b, y) \<in> ?E\<^sup>* \<and> (b = start \<longrightarrow> reached \<or> b \<in> set q)"
    if that': "d \<in> seen" "(d, y) \<in> ?E\<^sup>*" "y \<notin> seen" for y
  proof -
    obtain a b where ab: "a \<in> seen" "(a, b) \<in> ?E" "b \<notin> seen" "(b, y) \<in> ?E\<^sup>*"
      using leaves_set [OF that'(2,1,3)] by blast
    then have "b \<in> set q \<or> b \<in> older \<and> (b = start \<longrightarrow> reached)"
      using inv that'(1) unfolding walk_inv_def by auto
    with ab(4) show ?thesis by blast
  qed
  have start: "start \<in> older" "start \<notin> seen"
    using older inv by (auto simp: walk_inv_def)
  have down: "x \<in> older" if "b \<in> older" "(b, x) \<in> ?E\<^sup>*" for b x
    using that unfolding older by auto
  have bk: "b = start" if "b \<in> older" "(b, start) \<in> ?E\<^sup>*" for b
    using back_and_forth [OF acyc that(2)] that(1) unfolding older by auto
  have "reached \<or> d = start \<or> start \<in> ?E\<^sup>* `` set q" if "(d, start) \<in> ?E\<^sup>*"
    using d out [OF _ that start(2)] bk that by blast
  moreover have "keeps m i x" if "(d, x) \<in> ?E\<^sup>*" "x \<notin> older" "\<forall>x\<in>?E\<^sup>* `` set q - older. keeps m i x" for x
  proof (cases "x \<in> seen")
    case True
    then show ?thesis using inv by (simp add: walk_inv_def)
  next
    case False
    then have "d \<in> seen"
      using d down that(1,2) by blast
    from out [OF this that(1) False] down that show ?thesis by blast
  qed
  ultimately show ?thesis
    unfolding walk_goal_def by auto
qed

lemma unbroken_loop_spec:
  assumes "acyclic (control_edge m)" and "\<forall>d p. (d, p) \<in> control_edge m \<longrightarrow> gm_has m p"
    and "set older = (control_edge m)\<^sup>* `` {start}" and "walk_inv m start i (set older) q (set seen) reached"
  shows "unbroken_loop m start i older q seen reached \<longleftrightarrow> walk_goal m start i (set older) q reached"
  using assms
proof (induction m start i older q seen reached rule: unbroken_loop.induct)
  case (1 m start i older seen reached)
  then show ?case by (simp add: walk_goal_def)
next
  case (2 m start i older d q seen reached)
  let ?r = "if d = start then True else reached"
  note older = "2.prems"(3) and inv = "2.prems"(4)
  have r: "?r = (d = start \<or> reached)" by simp
  show ?case
  proof (cases "d \<in> set seen \<or> d \<in> set older")
    case True
    have "walk_inv m start i (set older) q (set seen) ?r"
      using inv True unfolding walk_inv_def by auto
    from "2.IH"(1) [OF refl True "2.prems"(1,2) older this] True show ?thesis
      using walk_goal_skip [OF "2.prems"(1) older inv True] by simp
  next
    case False
    obtain c where c: "gm_get m d = Some c"
      using inv by (auto simp: walk_inv_def gm_has_get)
    note keep = keeps_get [OF c, of i]
    show ?thesis
    proof (cases "keeps m i d")
      case False': False
      then have "\<not> walk_goal m start i (set older) (d # q) reached"
        using False unfolding walk_goal_def by auto
      with False' keep False c show ?thesis by simp
    next
      case True
      have "walk_inv m start i (set older) (q @ ct_parents (vf_control c)) (set (d # seen)) ?r"
        using inv False True "2.prems"(2) edge_get [OF c] unfolding walk_inv_def by auto
      from "2.IH"(2) [OF refl False c _ "2.prems"(1,2) older this] True keep False c
      have IH: "unbroken_loop m start i older (d # q) seen reached
          \<longleftrightarrow> walk_goal m start i (set older) (q @ ct_parents (vf_control c)) ?r"
        by auto
      have "d \<noteq> start"
        using False older by auto
      then have "walk_goal m start i (set older) (q @ ct_parents (vf_control c)) ?r
          \<longleftrightarrow> walk_goal m start i (set older) (d # q) reached"
      proof -
        have "(control_edge m)\<^sup>* `` set (d # q) = (control_edge m)\<^sup>* `` {d} \<union> (control_edge m)\<^sup>* `` set q"
          by auto
        also have "\<dots> = insert d ((control_edge m)\<^sup>* `` set (q @ ct_parents (vf_control c)))"
          unfolding reach_step [OF c] by (simp add: Image_Un sup_commute)
        finally show ?thesis
          using True \<open>d \<noteq> start\<close> unfolding walk_goal_def by (simp only: if_False) blast
      qed
      with IH show ?thesis by simp
    qed
  qed
qed

text \<open>
  The meaning of \<open>MembershipUnbroken\<close>: \<open>from\<close> lies behind \<open>head\<close>, and no Control that \<open>head\<close>
  descends from, and that \<open>from\<close> does not, drops the device.
\<close>

definition unbroken :: "(digest, verified) gomap \<Rightarrow> digest \<Rightarrow> digest \<Rightarrow> string \<Rightarrow> bool" where
  "unbroken m head start i \<longleftrightarrow> gm_has m start \<and> (head, start) \<in> (control_edge m)\<^sup>*
     \<and> (\<forall>d. (head, d) \<in> (control_edge m)\<^sup>* \<longrightarrow> (start, d) \<notin> (control_edge m)\<^sup>* \<longrightarrow> keeps m i d)"

context control_dag
begin

lemma membership_walk_iff:
  assumes "cv_verified view = m" and "gm_has m head"
  shows "membership_walk view head start i \<longleftrightarrow> unbroken m head start i"
proof (cases "gm_has m start")
  case False
  then have "older_loop m [start] [] = None"
    by (simp add: gm_has_get split: option.split)
  with False show ?thesis
    by (simp add: membership_walk_def unbroken_def assms(1))
next
  case True
  have "older_loop m [start] [] \<noteq> None"
    using True edge_in by (intro older_loop_total) auto
  then obtain out where out: "older_loop m [start] [] = Some out"
    by blast
  note set = older_set [OF out]
  have "walk_inv m start i (set out) [head] (set []) False"
    using assms(2) by (simp add: walk_inv_def)
  with unbroken_loop_spec [OF acyclic_edge _ set] edge_in
  have "unbroken_loop m start i out [head] [] False \<longleftrightarrow> walk_goal m start i (set out) [head] False"
    by blast
  with out set True show ?thesis
    by (auto simp: membership_walk_def unbroken_def walk_goal_def assms(1))
qed

text \<open>On every path from \<open>head\<close> back to \<open>from\<close> the device is listed throughout, if it was at \<open>from\<close>.\<close>

lemma unbroken_member:
  assumes "unbroken m head start i" and "member m start i = Some True"
    and "(head, d) \<in> (control_edge m)\<^sup>*" and "(d, start) \<in> (control_edge m)\<^sup>*"
  shows "member m d i = Some True"
  using assms(4,3)
proof (induction rule: converse_rtrancl_induct)
  case base
  show ?case by (rule assms(2))
next
  case (step x y)
  have y: "member m y i = Some True"
    using step.IH step.prems step.hyps(1) by (meson rtrancl.rtrancl_into_rtrancl)
  show ?case
  proof (cases "(start, x) \<in> (control_edge m)\<^sup>*")
    case True
    have "(x, start) \<in> (control_edge m)\<^sup>*"
      using step.hyps by (rule converse_rtrancl_into_rtrancl)
    with True have "x = start"
      using back_and_forth [OF acyclic_edge] by blast
    with assms(2) show ?thesis by simp
  next
    case False
    then have "keeps m i x"
      using assms(1) step.prems by (simp add: unbroken_def)
    with y step.hyps(1) show ?thesis
      by (auto simp: keeps_def)
  qed
qed

end

end
