(* ===== verification/Chain_Props.thy ===== *)
theory Chain_Props
  imports Chain_Verified
begin

text \<open>Properties of the Control DAG, with a small workspace on which they are evaluated.\<close>

subsection \<open>A sample workspace\<close>

text \<open>
  One founder with an Ed25519 key, a genesis Control and a successor.  A body is one character;
  an encoded signature comes before its body.
\<close>

definition sample_crypto :: crypto where
  "sample_crypto = \<lparr>cr_sha256 = sample_hash, cr_on_p256 = (\<lambda>b. True),
     cr_ed25519_verify = (\<lambda>k m s. True), cr_ecdsa_verify = (\<lambda>k h r s. False)\<rparr>"

definition sample_key :: public_key where
  "sample_key = \<lparr>pk_alg = alg_ed25519, pk_bytes = replicate 32 (CHR ''k'')\<rparr>"

definition founder :: principal where
  "founder = \<lparr>pr_id = device_id sample_crypto sample_key, pr_signing = sample_key, pr_recipient = ''age1r'', pr_admin = True\<rparr>"

definition sample_sig :: bytes where
  "sample_sig = replicate 64 (CHR ''s'')"

definition genesis_control :: control where
  "genesis_control = \<lparr>ct_workspace = ''w'', ct_parents = [], ct_height = 0, ct_principals = [founder], ct_author = pr_id founder\<rparr>"

definition genesis_blob :: bytes where "genesis_blob = sample_sig @ ''0''"
definition genesis_digest :: digest where "genesis_digest = dl_from_bytes sample_digest_lib genesis_blob"

definition child_control :: control where
  "child_control = genesis_control\<lparr>ct_parents := [genesis_digest], ct_height := 1\<rparr>"

definition child_blob :: bytes where "child_blob = sample_sig @ ''1''"
definition child_digest :: digest where "child_digest = dl_from_bytes sample_digest_lib child_blob"

definition join_parents :: "digest list" where
  "join_parents = sort [genesis_digest, child_digest]"

definition join_control :: control where
  "join_control = genesis_control\<lparr>ct_parents := join_parents, ct_height := 2\<rparr>"

definition join_blob :: bytes where "join_blob = sample_sig @ ''5''"

definition sample_state :: state_rec where
  "sample_state = \<lparr>st_workspace = ''w'', st_resource = ''secrets/dev'', st_parents = [], st_control = genesis_digest,
     st_ciphertext = genesis_digest, st_author = pr_id founder, st_created_at = 0\<rparr>"

definition sample_compaction :: compaction where
  "sample_compaction = \<lparr>cp_workspace = ''w'', cp_resource = ''secrets/dev'', cp_floor = genesis_digest, cp_removed = [child_digest],
     cp_control = genesis_digest, cp_author = pr_id founder, cp_created_at = 0\<rparr>"

definition sample_request :: join_request where
  "sample_request = \<lparr>jr_workspace = ''w'', jr_signing = sample_key, jr_recipient = ''age1n'', jr_created_at = 0, jr_replaces = ''age1r''\<rparr>"

text \<open>The codec of one value (or two), each with a body of its own.\<close>

definition one_codec :: "('a \<times> bytes) list \<Rightarrow> 'a codec" where
  "one_codec tab = \<lparr>cd_marshal = map_of tab, cd_unmarshal = map_of (map (\<lambda>(v, b). (b, v)) tab), cd_recode = Some\<rparr>"

definition sample_lib :: wsp_lib where
  "sample_lib = \<lparr>wl_crypto = sample_crypto, wl_digest = sample_digest_lib,
     wl_signed = \<lparr>cd_marshal = (\<lambda>s. Some (sd_signature s @ sd_body s)),
                  cd_unmarshal = (\<lambda>b. Some \<lparr>sd_body = drop 64 b, sd_signature = take 64 b\<rparr>), cd_recode = Some\<rparr>,
     wl_control = one_codec [(genesis_control, ''0''), (child_control, ''1''), (join_control, ''5'')],
     wl_state = one_codec [(sample_state, ''2'')],
     wl_compaction = one_codec [(sample_compaction, ''3'')],
     wl_join = one_codec [(sample_request, ''4'')],
     wl_tag_recipient = (\<lambda>r. False), wl_hybrid_recipient = (\<lambda>r. False), wl_x25519_recipient = (\<lambda>r. True)\<rparr>"

text \<open>A store that holds the two Controls.\<close>

definition sample_store :: "unit store_ops" where
  "sample_store = \<lparr>so_publish = (\<lambda>o1 s. (s, Inr ())),
     so_fetch_head = (\<lambda>k sc rv s. (s, if rv = genesis_digest then Inr genesis_blob
                                      else if rv = child_digest then Inr child_blob else Inl SNotFound)),
     so_open_blob = (\<lambda>k sc rv i s. (s, Inl SNotFound)),
     so_discover = (\<lambda>k sc s. (s, Inr [child_digest])),
     so_scopes = (\<lambda>s. (s, Inr [])), so_delete = (\<lambda>k sc rv s. (s, Inl SUnsupported)), so_capabilities = False\<rparr>"

lemma sample_sig_length [simp]: "length sample_sig = 64"
  by (simp add: sample_sig_def)

lemma sample_hash_length: "length (sample_hash b) = 32"
  by (simp add: sample_hash_def)

lemma sample_lib_sel [simp]:
  "wl_crypto sample_lib = sample_crypto" "wl_digest sample_lib = sample_digest_lib"
  by (simp_all add: sample_lib_def)

lemma sample_verify [simp]:
  "validate_domain dn = Inr () \<Longrightarrow> verify sample_crypto sample_key dn body sample_sig = Inr ()"
  by (simp add: verify_def sample_crypto_def sample_key_def key_validate_def alg_ed25519_def alg_p256_def Let_def)

lemma sample_domains [simp]:
  "validate_domain domain_control = Inr ()" "validate_domain domain_state = Inr ()"
  "validate_domain domain_compact = Inr ()" "validate_domain domain_join = Inr ()"
  by (simp_all add: validate_domain_def domain_defs)

lemma founder_valid: "device_id_validate (pr_id founder)"
  by (simp add: founder_def device_id_def device_id_validate_hex sample_crypto_def sample_hash_length)

lemma sample_decode [simp]:
  "length body = Suc 0 \<Longrightarrow> decode_signed sample_lib (sample_sig @ body) = Inr \<lparr>sd_body = body, sd_signature = sample_sig\<rparr>"
  by (auto simp: decode_signed_Inr sample_lib_def max_signed_bytes_def sample_sig_def)

lemma controls_differ: "genesis_control \<noteq> child_control"
  by (simp add: child_control_def genesis_control_def)

lemma digests_differ: "genesis_digest \<noteq> child_digest"
  unfolding genesis_digest_def child_digest_def genesis_blob_def child_blob_def sample_sig_def by code_simp

lemma sample_valid_digest [simp]:
  "valid_digest sample_digest_lib genesis_digest" "valid_digest sample_digest_lib child_digest"
  using valid_digest_from_bytes [OF sample_digest_lib_ok] by (simp_all add: genesis_digest_def child_digest_def)

lemma sample_controls_ok:
  "control_ok sample_lib genesis_control" "control_ok sample_lib child_control" "control_ok sample_lib join_control"
proof -
  have "sorted_wrt (<) join_parents"
    unfolding join_parents_def using digests_differ by (intro strict_sorted_sort) simp
  moreover have "length join_parents = 2" "set join_parents = {genesis_digest, child_digest}"
    unfolding join_parents_def by (simp_all only: length_sort set_sort) simp_all
  moreover from this(1) have "join_parents \<noteq> []" by auto
  moreover have "ct_parents join_control = join_parents"
    by (simp add: join_control_def)
  ultimately have join: "sorted_wrt (<) (ct_parents join_control)" "length (ct_parents join_control) = 2"
    "set (ct_parents join_control) = {genesis_digest, child_digest}" "ct_parents join_control \<noteq> []"
    by simp_all
  have join': "ct_height join_control = 2" "ct_principals join_control = [founder]" "ct_author join_control = pr_id founder"
    "ct_workspace join_control = ''w''"
    by (simp_all add: join_control_def genesis_control_def)
  have "parse_recipient sample_lib ''age1r''"
    by (simp add: parse_recipient_def has_prefix_def prefix_tag_def prefix_tag_hybrid_def prefix_hybrid_def sample_lib_def)
  moreover have "key_validate sample_crypto sample_key = Inr ()"
    by (simp add: key_validate_def sample_key_def alg_p256_def alg_ed25519_def)
  ultimately show "control_ok sample_lib genesis_control" "control_ok sample_lib child_control"
    "control_ok sample_lib join_control"
    using founder_valid join
    by (simp_all add: control_ok_def genesis_control_def child_control_def join' founder_def max_principals_def)
qed

lemma sample_decode_control [simp]:
  "decode_control sample_lib ''0'' = Inr genesis_control" "decode_control sample_lib ''1'' = Inr child_control"
  "decode_control sample_lib ''5'' = Inr join_control"
  using sample_controls_ok by (simp_all add: decode_control_Inr) (simp_all add: sample_lib_def one_codec_def)

lemma founder_principal [simp]:
  "control_principal genesis_control (pr_id founder) = Some founder"
  "control_principal child_control (pr_id founder) = Some founder"
  by (simp_all add: control_principal_def genesis_control_def child_control_def)

definition genesis_verified :: verified where
  "genesis_verified = \<lparr>vf_control = genesis_control, vf_digest = genesis_digest\<rparr>"

definition child_verified :: verified where
  "child_verified = \<lparr>vf_control = child_control, vf_digest = child_digest\<rparr>"

lemma founder_sel [simp]: "pr_admin founder" "pr_signing founder = sample_key"
  by (simp_all add: founder_def)

lemma sample_genesis: "verify_genesis sample_lib ''w'' genesis_blob genesis_digest = Inr genesis_verified"
proof -
  have "ct_parents genesis_control = []" "ct_workspace genesis_control = ''w''" "ct_author genesis_control = pr_id founder"
    by (simp_all add: genesis_control_def)
  then show ?thesis
    by (simp add: verify_genesis_def genesis_blob_def genesis_verified_def) (simp add: genesis_digest_def genesis_blob_def)
qed

lemma sample_child: "verify_child sample_lib [genesis_verified] child_blob = Inr child_verified"
proof -
  have "ct_parents child_control = [genesis_digest]" "ct_workspace child_control = ''w''"
    "ct_author child_control = pr_id founder" "ct_height child_control = 1"
    "ct_workspace genesis_control = ''w''" "ct_height genesis_control = 0"
    by (simp_all add: genesis_control_def child_control_def)
  then show ?thesis
    by (simp add: verify_child_def child_blob_def child_verified_def genesis_verified_def)
      (simp add: child_digest_def child_blob_def)
qed

definition sample_view :: control_view where
  "sample_view = \<lparr>cv_workspace = ''w'', cv_genesis = genesis_digest, cv_heads = [child_verified],
     cv_verified = [(genesis_digest, genesis_verified), (child_digest, child_verified)], cv_membership = []\<rparr>"

lemma sample_view_get:
  "cv_get sample_view genesis_digest = Some genesis_verified" "cv_get sample_view child_digest = Some child_verified"
  using digests_differ by (simp_all add: sample_view_def cv_get_def gm_get_def)

lemma sample_load_view:
  "load_control sample_lib sample_store ''w'' genesis_digest [genesis_digest] () = ((), Inr sample_view)"
proof -
  have ws: "ct_workspace child_control = ''w''" "ct_parents child_control = [genesis_digest]"
    "ct_parents genesis_control = []"
    by (simp_all add: child_control_def genesis_control_def)
  have q: "load_queue sample_lib sample_store ''w'' [child_digest] [genesis_digest] 65 [] () =
      ((), Inr [(child_digest, child_blob, child_control)])"
    using digests_differ ws
    by (simp add: sample_store_def max_controls_def max_control_bytes_def child_blob_def gm_put_def)
  have pass: "accept_pass sample_lib [(child_digest, child_blob, child_control)] [(genesis_digest, genesis_verified)]
      = ([(genesis_digest, genesis_verified), (child_digest, child_verified)], [], True)"
    using digests_differ
    by (simp add: ready_parents_def ws gm_get_def sample_child gm_put_def child_verified_def accept_pass_Cons
        step_view_def)
  have loop: "accept_loop sample_lib [(child_digest, child_blob, child_control)] [(genesis_digest, genesis_verified)]
      = [(genesis_digest, genesis_verified), (child_digest, child_verified)]"
    by (subst accept_loop.simps, simp add: pass, subst accept_loop.simps, simp)
  have heads: "view_heads [(genesis_digest, genesis_verified), (child_digest, child_verified)] = [child_verified]"
    using digests_differ ws
    by (simp add: view_heads_def Let_def sort_verified_def genesis_verified_def child_verified_def)
  have blob: "length genesis_blob = 65"
    by (simp add: genesis_blob_def)
  show ?thesis
    using q loop heads blob sample_genesis
    by (simp add: load_control_def sample_store_def sort_digests_def max_controls_def max_control_bytes_def Let_def
        gm_has_def sample_view_def)
qed

subsection \<open>Properties of a loaded view\<close>

lemma loaded_view:
  assumes "load_control lib ops ws genesis cp s = (s', Inr view)"
  shows "cv_verified view = loaded_controls lib ops ws genesis cp s"
  using assms by (simp add: loaded_controls_def)

text \<open>
  C1: authority.  Whatever a store returns, every Control of a successful load is authorized: it is
  the genesis whose bytes have the trusted digest, signed by an admin it lists, or its bytes were
  signed by an admin of every one of its parents, which are authorized in turn; it belongs to the
  workspace and is filed under its own digest.  In particular nothing an outsider publishes, and
  nothing the store invents, can enter the view.
\<close>

theorem load_control_authority:
  assumes "load_control lib ops ws genesis cp s = (s', Inr view)"
  shows "\<forall>d v. cv_get view d = Some v \<longrightarrow>
           authorized lib ws genesis v \<and> vf_digest v = d \<and> ct_workspace (vf_control v) = ws \<and> control_ok lib (vf_control v)"
  using loaded.get_authorized [of lib ops ws genesis cp s] loaded.get_digest [of lib ops ws genesis cp s]
    loaded.get_ok [of lib ops ws genesis cp s]
  unfolding cv_get_def loaded_view [OF assms] by blast

theorem load_control_authority_witness:
  "authorized sample_lib ''w'' genesis_digest child_verified"
  using load_control_authority [OF sample_load_view] sample_view_get(2) by blast

lemma load_control_heads_facts:
  assumes "load_control lib ops ws genesis cp s = (s', Inr view)"
  shows "(\<forall>d\<in>set cp. cv_get view d \<noteq> None)
    \<and> (\<forall>d v p. cv_get view d = Some v \<longrightarrow> p \<in> set (ct_parents (vf_control v)) \<longrightarrow> cv_get view p \<noteq> None)
    \<and> cv_get view genesis \<noteq> None \<and> sorted (map vf_digest (cv_heads view)) \<and> cv_heads view \<noteq> []
    \<and> set (cv_heads view) = {v. \<exists>d. cv_get view d = Some v \<and>
          (\<forall>c w. cv_get view c = Some w \<longrightarrow> d \<notin> set (ct_parents (vf_control w)))}
    \<and> (\<forall>d v. cv_get view d = Some v \<longrightarrow>
          (\<exists>h\<in>set (cv_heads view). (vf_digest h, d) \<in> (control_edge (cv_verified view))\<^sup>*))"
proof -
  obtain pend root blob where p: "pending_ok lib ws pend" "genesis \<notin> fst ` set pend"
    "verify_genesis lib ws blob genesis = Inr root" "cv_verified view = accept_loop lib pend [(genesis, root)]"
    "cv_heads view = view_heads (cv_verified view)" "\<forall>d\<in>set cp. gm_has (cv_verified view) d"
    using assms by (rule load_control_Inr) blast
  let ?m = "cv_verified view"
  note m = loaded_view [OF assms]
  have g: "gm_get ?m genesis = Some root"
    unfolding p(4) load_control_get [OF p(1,2)] by (rule accepted_root)
  have ok: "gm_ok ?m"
    unfolding p(4) by (rule accept_loop_ok) simp
  have heads: "v \<in> set (cv_heads view) \<longleftrightarrow> (\<exists>d. gm_get ?m d = Some v \<and> (\<forall>c. (c, d) \<notin> control_edge ?m))" for v
    unfolding p(5) by (rule view_heads_iff [OF ok])
  have cover: "\<exists>h\<in>set (cv_heads view). (vf_digest h, d) \<in> (control_edge ?m)\<^sup>*" if has: "gm_has ?m d" for d
  proof -
    obtain t where t: "gm_has ?m t" "(t, d) \<in> (control_edge ?m)\<^sup>*" "\<forall>c. (c, t) \<notin> control_edge ?m"
      using loaded.top_above [of lib ops ws genesis cp s d] has m by auto
    then obtain v where v: "gm_get ?m t = Some v" by (auto simp: gm_has_get)
    then have "vf_digest v = t"
      using loaded.get_digest [of lib ops ws genesis cp s t v] m by simp
    then show ?thesis
      using v t heads by blast
  qed
  have "\<forall>d\<in>set cp. cv_get view d \<noteq> None"
    using p(6) by (simp add: cv_get_def gm_has_get)
  moreover have "\<forall>d v q. cv_get view d = Some v \<longrightarrow> q \<in> set (ct_parents (vf_control v)) \<longrightarrow> cv_get view q \<noteq> None"
    using loaded.parents_in [of lib ops ws genesis cp s] m by (simp add: cv_get_def gm_has_get)
  moreover have "cv_get view genesis \<noteq> None"
    using g by (simp add: cv_get_def)
  moreover have "sorted (map vf_digest (cv_heads view))"
    unfolding p(5) view_heads_def Let_def by (rule sort_verified_spec)
  moreover have "cv_heads view \<noteq> []"
    using cover [of genesis] g by (auto simp: gm_has_get)
  moreover have "set (cv_heads view) = {v. \<exists>d. cv_get view d = Some v \<and>
      (\<forall>c w. cv_get view c = Some w \<longrightarrow> d \<notin> set (ct_parents (vf_control w)))}"
    using heads by (auto simp: cv_get_def control_edge_def)
  moreover have "\<forall>d v. cv_get view d = Some v \<longrightarrow>
      (\<exists>h\<in>set (cv_heads view). (vf_digest h, d) \<in> (control_edge ?m)\<^sup>*)"
    using cover by (simp add: cv_get_def gm_has_get)
  ultimately show ?thesis by (intro conjI)
qed

text \<open>
  C2: heads and rollback.  A successful load still shows every Control this client accepted before
  (\<open>cp\<close>), the parents of every Control it shows, and the trusted genesis; its heads are sorted,
  never empty, and exactly the Controls no other one names as a parent, and every Control of the
  view is a head or an ancestor of one.
\<close>

theorem load_control_heads:
  assumes "load_control lib ops ws genesis cp s = (s', Inr view)"
  shows "(\<forall>d\<in>set cp. cv_get view d \<noteq> None)
    \<and> (\<forall>d v p. cv_get view d = Some v \<longrightarrow> p \<in> set (ct_parents (vf_control v)) \<longrightarrow> cv_get view p \<noteq> None)
    \<and> cv_get view genesis \<noteq> None \<and> sorted (map vf_digest (cv_heads view)) \<and> cv_heads view \<noteq> []
    \<and> set (cv_heads view) = {v. \<exists>d. cv_get view d = Some v \<and>
          (\<forall>c w. cv_get view c = Some w \<longrightarrow> d \<notin> set (ct_parents (vf_control w)))}
    \<and> (\<forall>d v. cv_get view d = Some v \<longrightarrow>
          (\<exists>h\<in>set (cv_heads view). (vf_digest h, d) \<in> (control_edge (cv_verified view))\<^sup>*))"
  using assms by (rule load_control_heads_facts)

theorem load_control_heads_witness:
  "\<exists>view. load_control sample_lib sample_store ''w'' genesis_digest [genesis_digest] () = ((), Inr view)
     \<and> cv_get view genesis_digest \<noteq> None \<and> cv_heads view \<noteq> []"
  using load_control_heads [OF sample_load_view] sample_load_view by blast

text \<open>
  The order in which Go visits the map of pending Controls does not matter: for any two orders
  of the same pending Controls, with distinct revisions none of which is the genesis, the loop
  accepts the same Controls.
\<close>

theorem accept_order_irrelevant:
  assumes "distinct (map fst pend)" and "distinct (map fst pend')" and "set pend = set pend'"
    and "genesis \<notin> fst ` set pend"
  shows "gm_get (accept_loop lib pend [(genesis, root)]) = gm_get (accept_loop lib pend' [(genesis, root)])"
proof
  fix d
  have "gm_get (accept_loop lib pend [(genesis, root)]) d = Some v
      \<longleftrightarrow> gm_get (accept_loop lib pend' [(genesis, root)]) d = Some v" for v
    using accepted_mono [of lib genesis root] assms accept_loop_accepted [of pend genesis lib root d v]
      accept_loop_accepted [of pend' genesis lib root d v] by auto
  then show "gm_get (accept_loop lib pend [(genesis, root)]) d = gm_get (accept_loop lib pend' [(genesis, root)]) d"
    by (metis option.exhaust)
qed

theorem accept_order_irrelevant_witness:
  "gm_get (accept_loop sample_lib [(child_digest, child_blob, child_control), (''x'', [], child_control)]
       [(genesis_digest, genesis_verified)])
   = gm_get (accept_loop sample_lib [(''x'', [], child_control), (child_digest, child_blob, child_control)]
       [(genesis_digest, genesis_verified)])"
proof (rule accept_order_irrelevant)
  have "''x'' \<noteq> child_digest" "''x'' \<noteq> genesis_digest"
    by (simp_all add: child_digest_def genesis_digest_def sample_digest_lib_def)
  then show "distinct (map fst [(child_digest, child_blob, child_control), (''x'', [], child_control)])"
    "distinct (map fst [(''x'', [], child_control), (child_digest, child_blob, child_control)])"
    "genesis_digest \<notin> fst ` set [(child_digest, child_blob, child_control), (''x'', [], child_control)]"
    using digests_differ by auto
qed auto

text \<open>
  C3: what \<open>MembershipUnbroken\<close> decides.  On a loaded view and one of its Controls as \<open>head\<close>, it
  is true exactly when \<open>from\<close> lies behind \<open>head\<close> and no Control behind \<open>head\<close>, other than \<open>from\<close> and
  its ancestors, drops the device its parents listed.  Then a device listed at \<open>from\<close> is listed in
  every Control on every path from \<open>head\<close> back to \<open>from\<close>: leaving and rejoining is never unbroken.
\<close>

theorem membership_unbroken_correct:
  assumes "load_control lib ops ws genesis cp s = (s', Inr view)" and "cv_get view head \<noteq> None"
  shows "(membership_walk view head start i \<longleftrightarrow> unbroken (cv_verified view) head start i)
    \<and> (membership_walk view head start i \<longrightarrow> member (cv_verified view) start i = Some True \<longrightarrow>
      (\<forall>d. (head, d) \<in> (control_edge (cv_verified view))\<^sup>* \<longrightarrow> (d, start) \<in> (control_edge (cv_verified view))\<^sup>* \<longrightarrow>
           member (cv_verified view) d i = Some True))"
proof -
  have h: "gm_has (cv_verified view) head"
    using assms(2) by (simp add: cv_get_def gm_has_get)
  note m = loaded_view [OF assms(1)]
  have iff: "membership_walk view head start i \<longleftrightarrow> unbroken (cv_verified view) head start i"
    using loaded.membership_walk_iff [OF m, of head start i] h m by simp
  then show ?thesis
    unfolding iff m using loaded.unbroken_member [of lib ops ws genesis cp s head start i] by blast
qed

lemma sample_walk: "membership_walk sample_view child_digest genesis_digest (pr_id founder)"
proof -
  have ps: "ct_parents (vf_control child_verified) = [genesis_digest]" "ct_parents (vf_control genesis_verified) = []"
    "vf_control child_verified = child_control" "vf_control genesis_verified = genesis_control"
    "ct_parents child_control = [genesis_digest]" "ct_parents genesis_control = []"
    by (simp_all add: child_verified_def genesis_verified_def child_control_def genesis_control_def)
  show ?thesis
    using sample_view_get digests_differ
    by (simp add: membership_walk_def cv_get_def ps)
qed

theorem membership_unbroken_correct_witness:
  "membership_walk sample_view child_digest genesis_digest (pr_id founder)
     \<and> unbroken (cv_verified sample_view) child_digest genesis_digest (pr_id founder)"
  using membership_unbroken_correct [OF sample_load_view, of child_digest genesis_digest "pr_id founder"]
    sample_view_get sample_walk by simp

text \<open>
  The memo of \<open>MembershipUnbroken\<close> never changes an answer: on a view whose memo holds only
  answers of the walk, as a freshly loaded view does, the query returns what the walk decides and
  leaves such a view, so any sequence of queries gives the answers without the memo.
\<close>

theorem membership_memo_transparent:
  assumes "\<forall>h f j b. gm_get (cv_membership view) (h, f, j) = Some b \<longrightarrow> b = membership_walk view h f j"
    and "membership_unbroken view head start i = (view', result)"
  shows "result = membership_walk view head start i
    \<and> (\<forall>h f j. membership_walk view' h f j = membership_walk view h f j)
    \<and> (\<forall>h f j b. gm_get (cv_membership view') (h, f, j) = Some b \<longrightarrow> b = membership_walk view' h f j)"
proof -
  have walk: "membership_walk (view\<lparr>cv_membership := mm\<rparr>) h f j = membership_walk view h f j" for mm h f j
    by (simp add: membership_walk_def cong: option.case_cong)
  show ?thesis
    using assms by (auto simp: membership_unbroken_def walk Let_def split: option.splits if_splits)
qed

theorem membership_memo_transparent_witness:
  "snd (membership_unbroken sample_view child_digest genesis_digest (pr_id founder))
     = membership_walk sample_view child_digest genesis_digest (pr_id founder)"
proof -
  have "gm_get (cv_membership sample_view) k = None" for k
    by (simp add: sample_view_def)
  then show ?thesis
    using membership_memo_transparent [of sample_view child_digest genesis_digest "pr_id founder"
        "fst (membership_unbroken sample_view child_digest genesis_digest (pr_id founder))"]
    by simp
qed

subsection \<open>Bounded work\<close>

text \<open>A store that counts the heads it is asked for.\<close>

definition counting :: "'s store_ops \<Rightarrow> ('s \<times> nat) store_ops" where
  "counting ops = \<lparr>
     so_publish = (\<lambda>o1 (s, n). case so_publish ops o1 s of (s', r) \<Rightarrow> ((s', n), r)),
     so_fetch_head = (\<lambda>k sc rv (s, n). case so_fetch_head ops k sc rv s of (s', r) \<Rightarrow> ((s', n + 1), r)),
     so_open_blob = (\<lambda>k sc rv i (s, n). case so_open_blob ops k sc rv i s of (s', r) \<Rightarrow> ((s', n), r)),
     so_discover = (\<lambda>k sc (s, n). case so_discover ops k sc s of (s', r) \<Rightarrow> ((s', n), r)),
     so_scopes = (\<lambda>(s, n). case so_scopes ops s of (s', r) \<Rightarrow> ((s', n), r)),
     so_delete = (\<lambda>k sc rv (s, n). case so_delete ops k sc rv s of (s', r) \<Rightarrow> ((s', n), r)),
     so_capabilities = so_capabilities ops\<rparr>"

lemma counting_fetch [simp]:
  "so_fetch_head (counting ops) k sc rv (s, n) = (case so_fetch_head ops k sc rv s of (s', r) \<Rightarrow> ((s', n + 1), r))"
  by (simp add: counting_def)

lemma counting_discover [simp]:
  "so_discover (counting ops) k sc (s, n) = (case so_discover ops k sc s of (s', r) \<Rightarrow> ((s', n), r))"
  by (simp add: counting_def)

lemma load_queue_count:
  assumes "length tried \<le> max_controls"
  shows "snd (fst (load_queue lib (counting ops) ws queue tried tot pend (s, n))) + length tried \<le> n + max_controls"
  using assms
proof (induction lib ops ws queue tried tot pend s arbitrary: n rule: load_queue.induct)
  case (2 lib ops ws rv queue tried tot pend s)
  consider "rv \<in> set tried" | "rv \<notin> set tried" "length tried \<ge> max_controls"
    | "rv \<notin> set tried" "\<not> length tried \<ge> max_controls" by blast
  then show ?case
  proof cases
    case 3
    obtain s1 fr where f: "so_fetch_head ops KindControl [] rv s = (s1, fr)" by fastforce
    have len: "length (rv # tried) \<le> max_controls"
      using 3(2) by simp
    show ?thesis
    proof (cases fr)
      case (Inl e)
      show ?thesis
      proof (cases "e = SNotFound \<or> e = SCorrupt")
        case True
        with "2.IH"(2) [OF 3 f [symmetric] Inl True len, of "n + 1"] 3 f Inl show ?thesis by auto
      qed (use 3 f Inl in simp)
    next
      case (Inr blob)
      show ?thesis
      proof (cases "tot + length blob > max_control_bytes")
        case tot: False
        let ?d = "res_bind (decode_signed lib blob) (\<lambda>sg. decode_control lib (sd_body sg))"
        show ?thesis
        proof (cases ?d)
          case d: (Inl e)
          with "2.IH"(3) [OF 3 f [symmetric] Inr tot d len, of "n + 1"] 3 f Inr tot show ?thesis by simp
        next
          case c: (Inr c)
          show ?thesis
          proof (cases "ct_workspace c = ws")
            case False
            with "2.IH"(4) [OF 3 f [symmetric] Inr tot c False len, of "n + 1"] 3 f Inr tot c show ?thesis by simp
          next
            case True
            with "2.IH"(5) [OF 3 f [symmetric] Inr tot c _ len, of "n + 1"] 3 f Inr tot c show ?thesis by simp
          qed
        qed
      qed (use 3 f Inr in simp)
    qed
  qed (use 2 in auto)
qed simp


subsection \<open>Changing the Control\<close>

lemma sample_join_principal [simp]: "control_principal join_control (pr_id founder) = Some founder"
  by (simp add: control_principal_def genesis_control_def join_control_def)


lemma sample_join:
  "verify_child sample_lib [genesis_verified, child_verified] join_blob =
     Inr \<lparr>vf_control = join_control, vf_digest = dl_from_bytes sample_digest_lib join_blob\<rparr>"
proof -
  have c: "ct_parents join_control = sort [genesis_digest, child_digest]" "ct_workspace join_control = ''w''"
    "ct_author join_control = pr_id founder" "ct_height join_control = 2" "ct_principals join_control = [founder]"
    "ct_workspace genesis_control = ''w''" "ct_height genesis_control = 0"
    "ct_workspace child_control = ''w''" "ct_height child_control = 1"
    by (simp_all only: join_control_def child_control_def genesis_control_def join_parents_def control.simps control.select_convs
        control.update_convs)
  have "check_resolution sample_lib [genesis_verified, child_verified] join_control = Inr ()"
    by (simp add: check_resolution_def c genesis_verified_def child_verified_def)
  moreover have "map vf_digest [genesis_verified, child_verified] = [genesis_digest, child_digest]"
    by (simp add: genesis_verified_def child_verified_def)
  ultimately show ?thesis
    unfolding verify_child_def
    by (simp add: join_blob_def c genesis_verified_def child_verified_def del: sort_key_simps)
qed


lemma publish_child_Inr:
  assumes "publish_child lib ops view parents nxt sg s = (s', Inr v)"
  obtains blob s1 after where "sign_control lib nxt sg = Inr blob" and "verify_child lib parents blob = Inr v"
    and "publish_control lib ops blob s = (s1, Inr ())"
    and "load_control lib ops (cv_workspace view) (cv_genesis view) [vf_digest v] s1 = (s', Inr after)"
    and "\<not> cv_forked after"
  using assms by (auto simp: publish_child_def split: sum.splits prod.splits if_splits)

lemma unforked_head:
  assumes "load_control lib ops ws genesis cp s = (s', Inr after)" and "\<not> cv_forked after" and "d \<in> set cp"
  shows "\<exists>h. cv_heads after = [h] \<and> (vf_digest h, d) \<in> (control_edge (cv_verified after))\<^sup>*"
proof -
  note f = load_control_heads_facts [OF assms(1)]
  then have "cv_heads after \<noteq> []" by blast
  with assms(2) obtain h where h: "cv_heads after = [h]"
    by (cases "cv_heads after") (auto simp: cv_forked_def)
  have "cv_get after d \<noteq> None"
    using f assms(3) by blast
  then have "\<exists>h\<in>set (cv_heads after). (vf_digest h, d) \<in> (control_edge (cv_verified after))\<^sup>*"
    using f by blast
  with h show ?thesis by simp
qed


definition sample_signer :: signer where
  "sample_signer = \<lparr>sg_public = sample_key, sg_sign = (\<lambda>dn body. Inr sample_sig)\<rparr>"

definition genesis_view :: control_view where
  "genesis_view = \<lparr>cv_workspace = ''w'', cv_genesis = genesis_digest, cv_heads = [genesis_verified],
     cv_verified = [(genesis_digest, genesis_verified)], cv_membership = []\<rparr>"

text \<open>The store before the successor was published.\<close>

definition genesis_store :: "unit store_ops" where
  "genesis_store = sample_store\<lparr>so_discover := (\<lambda>k sc s. (s, Inr []))\<rparr>"

lemma genesis_load: "load_control sample_lib genesis_store ''w'' genesis_digest [] () = ((), Inr genesis_view)"
proof -
  have heads: "view_heads [(genesis_digest, genesis_verified)] = [genesis_verified]"
    by (simp add: view_heads_def Let_def sort_verified_def genesis_verified_def genesis_control_def)
  have loop: "accept_loop sample_lib [] [(genesis_digest, genesis_verified)] = [(genesis_digest, genesis_verified)]"
    by (subst accept_loop.simps) simp
  have blob: "length genesis_blob = 65"
    by (simp add: genesis_blob_def)
  show ?thesis
    using loop heads blob sample_genesis
    by (simp add: load_control_def genesis_store_def sample_store_def sort_digests_def max_controls_def
        max_control_bytes_def Let_def genesis_view_def)
qed

lemma sample_load_child:
  "load_control sample_lib sample_store ''w'' genesis_digest [child_digest] () = ((), Inr sample_view)"
proof -
  have "gm_has (cv_verified sample_view) d \<longleftrightarrow> cv_get sample_view d \<noteq> None" for d
    by (simp add: cv_get_def gm_has_get)
  then have has: "gm_has (cv_verified sample_view) genesis_digest" "gm_has (cv_verified sample_view) child_digest"
    using sample_view_get by simp_all
  have ver: "cv_verified sample_view = [(genesis_digest, genesis_verified), (child_digest, child_verified)]"
    by (simp add: sample_view_def)
  have swap: "load_control lib ops ws g [a] s = (s', Inr view) \<Longrightarrow> gm_has (cv_verified view) b \<Longrightarrow>
      load_control lib ops ws g [b] s = (s', Inr view)"
    for lib and ops :: "unit store_ops" and ws g a b s s' view
    by (auto simp: load_control_def Let_def split: if_splits sum.splits prod.splits)
  show ?thesis
    using swap [OF sample_load_view has(2)] .
qed

lemma sample_encode: "encode_signed sample_lib \<lparr>sd_body = b, sd_signature = sample_sig\<rparr> = Inr (sample_sig @ b)"
  by (simp add: encode_signed_def sample_lib_def)

lemma sample_device [simp]: "device_id sample_crypto sample_key = pr_id founder"
  by (simp add: founder_def)

lemma sample_sign_child: "sign_control sample_lib child_control sample_signer = Inr child_blob"
proof -
  have c: "control_canonical child_control = child_control" "ct_author child_control = pr_id founder"
    by (simp_all add: control_canonical_def child_control_def genesis_control_def)
  have m: "marshal (wl_control sample_lib) child_control = Inr ''1''"
    using controls_differ by (auto simp: marshal_def sample_lib_def one_codec_def)
  have v: "control_validate sample_lib child_control = Inr ()"
    unfolding control_validate_Inr by (rule sample_controls_ok(2))
  show ?thesis
    by (simp add: sign_control_def c m v sample_signer_def signer_sign_def sample_encode child_blob_def)
qed

lemma sample_update: "update_control sample_lib sample_store genesis_view sample_signer Inr () = ((), Inr child_verified)"
proof -
  have nxt: "(vf_control genesis_verified)\<lparr>ct_parents := [vf_digest genesis_verified],
      ct_height := ct_height (vf_control genesis_verified) + 1, ct_author := pr_id founder\<rparr> = child_control"
    by (simp add: child_control_def genesis_verified_def genesis_control_def)
  have "publish_child sample_lib sample_store genesis_view [genesis_verified] child_control sample_signer () =
      ((), Inr child_verified)"
    using sample_load_child
    by (simp add: publish_child_def sample_sign_child sample_child publish_control_def)
      (simp add: sample_store_def genesis_view_def child_verified_def cv_forked_def sample_view_def)
  moreover have "cv_head genesis_view = Inr genesis_verified"
    by (simp add: cv_head_def cv_forked_def genesis_view_def)
  moreover have "control_principal (vf_control genesis_verified) (pr_id founder) = Some founder"
    by (simp add: genesis_verified_def)
  ultimately show ?thesis
    using nxt by (simp add: update_control_def Let_def sample_signer_def)
qed


end
