(* ===== verification/State_Props.thy ===== *)
theory State_Props
  imports State Chain_Props
begin

text \<open>Properties of revisions and of compaction records.\<close>

subsection \<open>Samples\<close>

definition state_blob :: bytes where "state_blob = sample_sig @ ''2''"
definition state_digest :: digest where "state_digest = dl_from_bytes sample_digest_lib state_blob"

definition sample_revision :: verified_state where
  "sample_revision = \<lparr>vs_state = sample_state, vs_digest = state_digest\<rparr>"

lemma sample_state_signed:
  "signed_revision sample_lib sample_view ''w'' ''secrets/dev'' state_digest state_blob sample_revision"
proof -
  have "state_ok sample_lib sample_state"
    using founder_valid by (simp add: state_ok_def sample_state_def)
  moreover have "decode_canonical (wl_state sample_lib) ''2'' = Inr sample_state"
    by (simp add: decode_canonical_Inr sample_lib_def one_codec_def)
  moreover have "st_control sample_state = genesis_digest" "st_author sample_state = pr_id founder"
    "st_workspace sample_state = ''w''" "st_resource sample_state = ''secrets/dev''"
    by (simp_all add: sample_state_def)
  ultimately show ?thesis
    using sample_view_get
    by (simp add: signed_revision_def sample_revision_def state_digest_def)
      (simp add: state_blob_def genesis_verified_def)
qed

subsection \<open>Revisions\<close>

text \<open>
  Exactly the revisions a member signed verify.  \<open>VerifyRevision\<close> accepts the bytes of a
  revision if and only if they have the digest that names it, decode canonically to a well-formed
  State of this workspace and resource, name a Control of the verified DAG, and carry a valid
  signature, in the domain of states, by the key that Control lists for the author.
\<close>

theorem verify_revision_exact:
  "verify_revision lib view ws res rv blob = Inr v \<longleftrightarrow>
     vs_digest v = rv \<and> dl_from_bytes (wl_digest lib) blob = rv
     \<and> st_workspace (vs_state v) = ws \<and> st_resource (vs_state v) = res \<and> state_ok lib (vs_state v)
     \<and> (\<exists>sg written author. decode_signed lib blob = Inr sg
          \<and> decode_canonical (wl_state lib) (sd_body sg) = Inr (vs_state v)
          \<and> cv_get view (st_control (vs_state v)) = Some written
          \<and> control_principal (vf_control written) (st_author (vs_state v)) = Some author
          \<and> verify (wl_crypto lib) (pr_signing author) domain_state (sd_body sg) (sd_signature sg) = Inr ())"
  unfolding verify_revision_iff signed_revision_def ..

text \<open>
  C7: the view of a resource holds only signed revisions.  Whatever the store lists and returns,
  every revision of a view \<open>LoadStates\<close> gives was signed as \<open>VerifyRevision\<close> demands, is filed under
  its digest, and has in the graph exactly the parents its author signed; the heads are exactly
  the revisions no other revision of the view names as a parent, each once, in increasing order.
\<close>

theorem load_states_verified:
  assumes "load_states lib ops view ws res also1 s = (s', Inr sv)"
  shows "(\<forall>d st. gm_get (sv_states sv) d = Some st \<longrightarrow>
            (\<exists>blob. verify_revision lib view ws res d blob = Inr st) \<and> vs_digest st = d
            \<and> graph_parents (sv_graph sv) d = st_parents (vs_state st))
    \<and> (\<forall>d. graph_has (sv_graph sv) d \<longleftrightarrow> gm_has (sv_states sv) d)
    \<and> map vs_digest (sv_heads sv) = graph_heads (sv_graph sv)
    \<and> set (sv_heads sv) = {st. \<exists>d. gm_get (sv_states sv) d = Some st \<and>
         (\<forall>c t. gm_get (sv_states sv) c = Some t \<longrightarrow> d \<notin> set (st_parents (vs_state t)))}"
proof -
  note sound = load_states_sound(1) [OF assms] and heads = load_states_sound(2) [OF assms]
  have st: "(\<exists>blob. signed_revision lib view ws res d blob st) \<and> graph_parents (sv_graph sv) d = st_parents (vs_state st)"
    if "gm_get (sv_states sv) d = Some st" for d st
    using sound that by (simp add: sv_sound_def)
  have dig: "vs_digest st = d" if "gm_get (sv_states sv) d = Some st" for d st
    using st [OF that] by (auto simp: signed_revision_def)
  have has: "graph_has (sv_graph sv) d \<longleftrightarrow> (\<exists>st. gm_get (sv_states sv) d = Some st)" for d
    using sound by (simp add: sv_sound_def gm_has_get)
  have gh: "set (graph_heads (sv_graph sv)) =
      {d. graph_has (sv_graph sv) d \<and> (\<forall>c. (c, d) \<notin> parent_rel (sv_graph sv))}"
    using sound by (simp add: sv_sound_def set_graph_heads)
  have present: "\<exists>st. gm_get (sv_states sv) d = Some st" if "d \<in> set (graph_heads (sv_graph sv))" for d
    using that gh has by simp
  have map: "map vs_digest (sv_heads sv) = graph_heads (sv_graph sv)"
  proof -
    have "map (\<lambda>d. vs_digest (the (gm_get (sv_states sv) d))) (graph_heads (sv_graph sv)) = graph_heads (sv_graph sv)"
    proof (rule map_idI)
      fix d assume "d \<in> set (graph_heads (sv_graph sv))"
      then obtain st where "gm_get (sv_states sv) d = Some st"
        using present by blast
      then show "vs_digest (the (gm_get (sv_states sv) d)) = d"
        using dig by simp
    qed
    then show ?thesis
      by (simp add: heads head_states_def comp_def)
  qed
  have in_heads: "t \<in> set (sv_heads sv) \<longleftrightarrow> (\<exists>d\<in>set (graph_heads (sv_graph sv)). gm_get (sv_states sv) d = Some t)" for t
    using present by (auto simp: heads head_states_def image_iff)
      (metis option.sel)+
  have edge: "(c, d) \<in> parent_rel (sv_graph sv) \<longleftrightarrow>
      (\<exists>t. gm_get (sv_states sv) c = Some t \<and> d \<in> set (st_parents (vs_state t))) \<and> graph_has (sv_graph sv) d" for c d
    using st has by (auto simp: parent_rel_iff)
  have "set (sv_heads sv) = {st. \<exists>d. gm_get (sv_states sv) d = Some st \<and>
      (\<forall>c t. gm_get (sv_states sv) c = Some t \<longrightarrow> d \<notin> set (st_parents (vs_state t)))}"
    unfolding set_eq_iff in_heads gh using edge has by blast
  then show ?thesis
    using st dig has map verify_revision_iff by (simp add: gm_has_get)
qed


text \<open>The sample store with one revision and its ciphertext.\<close>

definition state_store :: "unit store_ops" where
  "state_store = sample_store\<lparr>so_discover := (\<lambda>k sc s. (s, Inr (if k = KindState then [state_digest] else [child_digest]))),
     so_fetch_head := (\<lambda>k sc rv s.
        if k = KindState then (s, if rv = state_digest then Inr state_blob else Inl SNotFound)
        else so_fetch_head sample_store k sc rv s),
     so_open_blob := (\<lambda>k sc rv i s. (s, Inr genesis_blob))\<rparr>"

lemma state_store_sel:
  "so_discover state_store KindState sc () = ((), Inr [state_digest])"
  "so_fetch_head state_store KindState sc rv () = ((), if rv = state_digest then Inr state_blob else Inl SNotFound)"
  by (simp_all add: state_store_def)

definition sample_sv :: state_view where
  "sample_sv = \<lparr>sv_graph = graph_add new_graph state_digest [], sv_states = [(state_digest, sample_revision)],
     sv_heads = [sample_revision], sv_skipped = 0, sv_compacted = no_compaction\<rparr>"

lemma sample_verify_revision:
  "verify_revision sample_lib sample_view ''w'' ''secrets/dev'' state_digest state_blob = Inr sample_revision"
  using sample_state_signed by (simp only: verify_revision_iff)

lemma sample_load_states:
  "load_states sample_lib state_store sample_view ''w'' ''secrets/dev'' [] () = ((), Inr sample_sv)"
proof -
  have len: "length state_blob = 65" by (simp add: state_blob_def)
  have ps: "st_parents (vs_state sample_revision) = []"
    by (simp add: sample_revision_def sample_state_def)
  have "load_states_loop sample_lib state_store sample_view ''w'' ''secrets/dev'' [state_digest] [] empty_state_view 0 ()
      = ((), Inr (empty_state_view\<lparr>sv_states := [(state_digest, sample_revision)],
            sv_graph := graph_add new_graph state_digest []\<rparr>))"
    by (subst load_states_loop.simps, subst load_states_loop.simps)
      (simp add: head_fetches_def max_revisions_def state_store_sel len max_state_bytes_def sample_verify_revision ps
        gm_put_def gm_get_def empty_state_view_def)
  moreover have "graph_heads (graph_add new_graph state_digest []) = [state_digest]"
    by (simp add: graph_heads_def graph_add_def new_graph_def gm_put_def sort_digests_def gm_has_def gm_get_def)
  ultimately show ?thesis
    by (simp add: load_states_def state_store_sel max_revisions_def sample_sv_def empty_state_view_def head_states_def gm_get_def)
qed

theorem load_states_verified_witness:
  "\<exists>blob. verify_revision sample_lib sample_view ''w'' ''secrets/dev'' state_digest blob = Inr sample_revision"
proof -
  have "gm_get (sv_states sample_sv) state_digest = Some sample_revision"
    by (simp add: sample_sv_def gm_get_def)
  with load_states_verified [OF sample_load_states] show ?thesis by blast
qed


text \<open>The state a signer fills in: its parents sorted.\<close>

definition sorted_state :: "state_rec \<Rightarrow> state_rec" where
  "sorted_state s = s\<lparr>st_parents := sort_digests (st_parents s)\<rparr>"

lemma verify_nonempty: "verify cr pk dn body sig = Inr () \<Longrightarrow> sig \<noteq> []"
  by (auto simp: verify_def key_validate_def Let_def res_simps p256_sig_size_def split: if_splits)

text \<open>
  What \<open>SignState\<close> produces verifies.  When the author is listed in the Control the state names,
  with the key of the signer, the bytes \<open>SignState\<close> returns are accepted by \<open>VerifyRevision\<close> in
  every view that holds that Control, under their own digest, as the very state that was signed
  with its parents sorted.  The signature scheme accepts what its signer makes, and decoding
  inverts encoding for this state.
\<close>

theorem sign_state_verifies:
  assumes "sign_state lib s sg = Inr blob" and "length blob \<le> max_signed_bytes"
    and "cv_get view (st_control s) = Some written"
    and "control_principal (vf_control written) (st_author s) = Some author"
    and "\<And>body sig. sg_sign sg domain_state body = Inr sig \<Longrightarrow>
           verify (wl_crypto lib) (pr_signing author) domain_state body sig = Inr ()"
    and "codec_round (wl_state lib) (sorted_state s)" and "cd_marshal (wl_state lib) (sorted_state s) \<noteq> Some []"
    and "\<And>body sig. sg_sign sg domain_state body = Inr sig \<Longrightarrow> codec_round (wl_signed lib) \<lparr>sd_body = body, sd_signature = sig\<rparr>"
  shows "verify_revision lib view (st_workspace s) (st_resource s) (dl_from_bytes (wl_digest lib) blob) blob
    = Inr \<lparr>vs_state = sorted_state s, vs_digest = dl_from_bytes (wl_digest lib) blob\<rparr>"
proof -
  obtain body sig where ok: "state_ok lib (sorted_state s)" and body: "cd_marshal (wl_state lib) (sorted_state s) = Some body"
    and sig: "sg_sign sg domain_state body = Inr sig"
    and blob: "cd_marshal (wl_signed lib) \<lparr>sd_body = body, sd_signature = sig\<rparr> = Some blob"
    using assms(1)
    by (auto simp: sign_state_def Let_def res_simps state_validate_Inr marshal_def signer_sign_def encode_signed_def
        sorted_state_def split: if_splits option.splits sum.splits)
  note v = assms(5) [OF sig]
  have "decode_signed lib blob = Inr \<lparr>sd_body = body, sd_signature = sig\<rparr>"
    using assms(2,7) body codec_round_decode [OF assms(8) [OF sig] blob] verify_nonempty [OF v]
    by (auto simp: decode_signed_Inr decode_canonical_Inr)
  then show ?thesis
    using ok codec_round_decode [OF assms(6) body] assms(3,4) v
    by (auto simp: verify_revision_iff signed_revision_def) (auto simp: sorted_state_def)
qed

lemma sample_state_sel:
  "sorted_state sample_state = sample_state" "st_author sample_state = pr_id founder"
  "st_control sample_state = genesis_digest" "st_workspace sample_state = ''w''" "st_resource sample_state = ''secrets/dev''"
  by (simp_all add: sorted_state_def sample_state_def sort_digests_def)

lemma sample_state_codec:
  "cd_marshal (wl_state sample_lib) sample_state = Some ''2''" "codec_round (wl_state sample_lib) sample_state"
  by (simp_all add: sample_lib_def one_codec_def codec_round_def)

lemma sample_sign_state: "sign_state sample_lib sample_state sample_signer = Inr state_blob"
proof -
  have ok: "state_validate sample_lib sample_state = Inr ()"
    unfolding state_validate_Inr using sample_state_signed by (simp add: signed_revision_def sample_revision_def)
  then show ?thesis
    by (simp add: sign_state_def sample_state_sel(1) [unfolded sorted_state_def] sample_state_sel(2) marshal_def
        sample_state_codec sample_signer_def signer_sign_def sample_encode state_blob_def)
qed

theorem sign_state_verifies_witness:
  "sign_state sample_lib sample_state sample_signer = Inr state_blob \<and>
   verify_revision sample_lib sample_view ''w'' ''secrets/dev'' state_digest state_blob
     = Inr \<lparr>vs_state = sorted_state sample_state, vs_digest = state_digest\<rparr>"
proof -
  note s = sample_state_sel and m = sample_state_codec and sign = sample_sign_state
  have g: "cv_get sample_view (st_control sample_state) = Some genesis_verified"
    "control_principal (vf_control genesis_verified) (st_author sample_state) = Some founder"
    using sample_view_get by (simp_all add: s genesis_verified_def)
  have "verify_revision sample_lib sample_view (st_workspace sample_state) (st_resource sample_state)
      (dl_from_bytes (wl_digest sample_lib) state_blob) state_blob
    = Inr \<lparr>vs_state = sorted_state sample_state, vs_digest = dl_from_bytes (wl_digest sample_lib) state_blob\<rparr>"
  proof (rule sign_state_verifies [OF sign _ g])
    show "codec_round (wl_signed sample_lib) \<lparr>sd_body = body, sd_signature = sig\<rparr>"
      if "sg_sign sample_signer domain_state body = Inr sig" for body sig
      using that by (auto simp: sample_lib_def codec_round_def sample_signer_def)
  qed (simp_all add: s m sample_signer_def max_signed_bytes_def state_blob_def)
  then show ?thesis
    using sign by (simp add: s state_digest_def)
qed

subsection \<open>Whose value is current\<close>

text \<open>
  C4: only a member who never left since signing counts as the author of a current value.  For a
  revision that verifies on a loaded view, \<open>AuthorIsCurrent\<close> accepts exactly when the head Control
  lists the author and no Control since the one the revision names dropped it; then every Control
  on every path from the head back to the Control the revision names lists the author.
\<close>

theorem current_author_member:
  assumes "load_control lib ops wsid genesis cp s = (s', Inr view)" and "head \<in> set (cv_heads view)"
    and "verify_revision lib view ws res rv blob = Inr st"
  shows "(author_is_current view head st = Inr () \<longleftrightarrow>
      member (cv_verified view) (vf_digest head) (st_author (vs_state st)) = Some True
      \<and> unbroken (cv_verified view) (vf_digest head) (st_control (vs_state st)) (st_author (vs_state st)))
    \<and> (author_is_current view head st = Inr () \<longrightarrow>
      (\<forall>d. (vf_digest head, d) \<in> (control_edge (cv_verified view))\<^sup>* \<longrightarrow>
           (d, st_control (vs_state st)) \<in> (control_edge (cv_verified view))\<^sup>* \<longrightarrow>
           member (cv_verified view) d (st_author (vs_state st)) = Some True))"
proof -
  note m = loaded_view [OF assms(1)]
  obtain dg where "cv_get view dg = Some head"
    using load_control_heads_facts [OF assms(1)] assms(2) by blast
  then have h: "gm_get (cv_verified view) (vf_digest head) = Some head"
    using loaded.get_digest [of lib ops wsid genesis cp s dg head] m by (simp add: cv_get_def)
  have walk: "membership_walk view (vf_digest head) d i \<longleftrightarrow> unbroken (cv_verified view) (vf_digest head) d i" for d i
    using loaded.membership_walk_iff [OF m, of "vf_digest head" d i] h m by (simp add: gm_has_get)
  have iff: "author_is_current view head st = Inr () \<longleftrightarrow>
      member (cv_verified view) (vf_digest head) (st_author (vs_state st)) = Some True
      \<and> unbroken (cv_verified view) (vf_digest head) (st_control (vs_state st)) (st_author (vs_state st))"
    using h by (auto simp: author_is_current_def member_def walk split: option.splits)
  have "member (cv_verified view) (st_control (vs_state st)) (st_author (vs_state st)) = Some True"
    using verify_revision_Inr [OF assms(3)] by (auto simp: signed_revision_def member_def cv_get_def)
  then show ?thesis
    unfolding iff using loaded.unbroken_member [of lib ops wsid genesis cp s] m by auto
qed


theorem current_author_member_witness:
  "author_is_current sample_view child_verified sample_revision = Inr () \<and>
   unbroken (cv_verified sample_view) child_digest genesis_digest (pr_id founder)"
proof -
  have e: "vf_digest child_verified = child_digest" "vf_control child_verified = child_control"
    "st_control (vs_state sample_revision) = genesis_digest" "st_author (vs_state sample_revision) = pr_id founder"
    by (simp_all add: child_verified_def sample_revision_def sample_state_def)
  have "author_is_current sample_view child_verified sample_revision = Inr ()"
    by (simp add: author_is_current_def e sample_walk)
  moreover have "child_verified \<in> set (cv_heads sample_view)"
    by (simp add: sample_view_def)
  ultimately show ?thesis
    using current_author_member [OF sample_load_view _ sample_verify_revision, of child_verified] e by simp
qed

subsection \<open>Compaction\<close>

text \<open>
  C8: what compaction excuses.  \<open>Compute\<close> excuses exactly the revisions that are not shown and that
  a chain of records reaches: a record lists the revision, and its floor is shown or is excused in
  turn; nothing that storage shows is ever excused.  The floors are exactly the shown ones, sorted
  without repetition, so the order in which the records were read changes nothing; and a view that
  uses the result reports as missing exactly the named parents it lacks that no record excuses.
\<close>

theorem compute_excuses_exact:
  "excuses (compute records g) d = excused records g d
    \<and> \<not> (excuses (compute records g) d \<and> graph_has g d)
    \<and> cd_floors (compute records g) = sorted_list_of_set {f. graph_has g f \<and> (\<exists>r. r \<in> set records \<and> f = cp_floor (vc_compaction r))}
    \<and> set (missing_parents (sv\<lparr>sv_graph := g, sv_compacted := compute records g\<rparr>)) =
        {q. q \<in> set (missing g) \<and> \<not> excused records g q}"
proof -
  have "set (cd_floors (compute records g)) = {f. graph_has g f \<and> (\<exists>r. r \<in> set records \<and> f = cp_floor (vc_compaction r))}"
    by (auto simp: compute_floors)
  moreover have "sorted (cd_floors (compute records g)) \<and> distinct (cd_floors (compute records g))"
    using floors_loop_spec(2) [of "[]" records g] by (simp add: compute_def Let_def sort_digests_def)
  ultimately have "cd_floors (compute records g) =
      sorted_list_of_set {f. graph_has g f \<and> (\<exists>r. r \<in> set records \<and> f = cp_floor (vc_compaction r))}"
    using sorted_list_of_set.idem_if_sorted_distinct by metis
  then show ?thesis
    using excused_not_shown by (auto simp: excuses_iff missing_parents_def)
qed

text \<open>
  Only an admin compacts.  \<open>VerifyCompaction\<close> accepts exactly the records whose bytes have the
  digest that names them, decode canonically to a well-formed record of this workspace and
  resource, name a Control of the verified DAG, and were signed, in the domain of compactions, by
  a device which that Control lists as an admin.
\<close>

theorem verify_compaction_exact:
  "verify_compaction lib view ws res rv blob = Inr v \<longleftrightarrow>
     vc_digest v = rv \<and> dl_from_bytes (wl_digest lib) blob = rv
     \<and> cp_workspace (vc_compaction v) = ws \<and> cp_resource (vc_compaction v) = res
     \<and> compaction_validate lib (vc_compaction v) = Inr ()
     \<and> (\<exists>sg written author. decode_signed lib blob = Inr sg
          \<and> decode_canonical (wl_compaction lib) (sd_body sg) = Inr (vc_compaction v)
          \<and> cv_get view (cp_control (vc_compaction v)) = Some written
          \<and> control_principal (vf_control written) (cp_author (vc_compaction v)) = Some author \<and> pr_admin author
          \<and> verify (wl_crypto lib) (pr_signing author) domain_compact (sd_body sg) (sd_signature sg) = Inr ())"
  (is "?l = ?r")
proof
  show "?l \<Longrightarrow> ?r"
    by (auto simp: verify_compaction_def res_simps option_case_Inr split: if_splits)
  show "?r \<Longrightarrow> ?l"
    by (cases v) (auto simp: verify_compaction_def)
qed

end
