(* ===== verification/Checkpoint.thy ===== *)
theory Checkpoint
  imports State
begin

text \<open>
  What a client has accepted, kept in a local file: \<open>pkg/wsp/checkpoint.go\<close>, with the file lock and
  the atomic replacement that the trust root uses too.

  A file is its bytes, or nothing when it does not exist.  \<open>local_env\<close> says what the operating
  system does during one operation: whether the directories can be made, whether the file can be
  read, what the attempts to take the lock give before the deadline, and whether the temporary
  file can be written, synced and renamed.  Under the lock an operation is one step.  The JSON
  library is a parameter: a file is encoded, decoded, and its version is read on its own.
\<close>

datatype lock_try = LockError | LockBusy | LockTaken

record local_env =
  le_mkdir_error :: bool
  le_lock_open_error :: bool
  le_lock_tries :: "lock_try list"
  le_read_error :: bool
  le_write_error :: bool

type_synonym local_file = "bytes option"

subsection \<open>The lock and the file\<close>

text \<open>The attempts end with the deadline: an attempt that is busy is repeated.\<close>

fun lock_loop :: "lock_try list \<Rightarrow> wsp_error + unit" where
  "lock_loop [] = Inl ErrOther"
| "lock_loop (LockError # ts) = Inl ErrOther"
| "lock_loop (LockTaken # ts) = Inr ()"
| "lock_loop (LockBusy # ts) = lock_loop ts"

definition lock_file :: "local_env \<Rightarrow> wsp_error + unit" where
  "lock_file env =
     (if le_mkdir_error env then Inl ErrOther
      else if le_lock_open_error env then Inl ErrOther
      else lock_loop (le_lock_tries env))"

text \<open>\<open>os.ReadFile\<close>: \<open>Inr None\<close> is \<open>fs.ErrNotExist\<close>.\<close>

definition read_file :: "local_env \<Rightarrow> local_file \<Rightarrow> wsp_error + local_file" where
  "read_file env content = (if le_read_error env then Inl ErrOther else Inr content)"

definition write_file_atomic :: "local_env \<Rightarrow> bytes \<Rightarrow> local_file \<Rightarrow> local_file \<times> (wsp_error + unit)" where
  "write_file_atomic env b content =
     (if le_mkdir_error env then (content, Inl ErrOther)
      else if le_write_error env then (content, Inl ErrOther)
      else (Some b, Inr ()))"

subsection \<open>The checkpoint file\<close>

record acceptance =
  ac_heads :: "digest list"
  ac_control :: digest

record checkpoint_file =
  cf_version :: int
  cf_control :: "digest list"
  cf_states :: "string \<Rightarrow> acceptance option"

record checkpoint_json =
  cj_version :: "bytes \<Rightarrow> int option"
  cj_decode :: "bytes \<Rightarrow> checkpoint_file option"
  cj_encode :: "checkpoint_file \<Rightarrow> bytes option"

definition checkpoint_version :: int where
  "checkpoint_version = 3"

definition checkpoint_name :: "crypto \<Rightarrow> string \<Rightarrow> digest \<Rightarrow> string" where
  "checkpoint_name cr ws genesis = hex_encode (cr_sha256 cr (ws @ [char_of (0 :: nat)] @ genesis)) @ ''.json''"

definition empty_checkpoint :: checkpoint_file where
  "empty_checkpoint = \<lparr>cf_version = checkpoint_version, cf_control = [], cf_states = (\<lambda>_. None)\<rparr>"

definition read_checkpoint :: "checkpoint_json \<Rightarrow> local_env \<Rightarrow> local_file \<Rightarrow> wsp_error + checkpoint_file" where
  "read_checkpoint js env content =
     res_bind (read_file env content) (\<lambda>r.
       case r of
         None \<Rightarrow> Inr empty_checkpoint
       | Some b \<Rightarrow>
           (case cj_version js b of
              None \<Rightarrow> Inl ErrOther
            | Some v \<Rightarrow>
                if v < 1 \<or> v > checkpoint_version then Inl ErrOther
                else if v < checkpoint_version then Inr empty_checkpoint
                else (case cj_decode js b of None \<Rightarrow> Inl ErrOther | Some f \<Rightarrow> Inr f)))"

definition write_checkpoint ::
  "checkpoint_json \<Rightarrow> local_env \<Rightarrow> checkpoint_file \<Rightarrow> local_file \<Rightarrow> local_file \<times> (wsp_error + unit)" where
  "write_checkpoint js env f content =
     (case cj_encode js f of
        None \<Rightarrow> (content, Inl ErrOther)
      | Some b \<Rightarrow> write_file_atomic env b content)"

text \<open>\<open>update\<close>: the function gives the new contents and whether they changed, or an error.\<close>

definition checkpoint_update ::
  "checkpoint_json \<Rightarrow> local_env \<Rightarrow> (checkpoint_file \<Rightarrow> wsp_error + checkpoint_file \<times> bool) \<Rightarrow> local_file
    \<Rightarrow> local_file \<times> (wsp_error + unit)" where
  "checkpoint_update js env fn content =
     (case lock_file env of
        Inl e \<Rightarrow> (content, Inl e)
      | Inr _ \<Rightarrow>
          (case read_checkpoint js env content of
             Inl e \<Rightarrow> (content, Inl e)
           | Inr f \<Rightarrow>
               (case fn f of
                  Inl e \<Rightarrow> (content, Inl e)
                | Inr (f', changed) \<Rightarrow>
                    if \<not> changed then (content, Inr ()) else write_checkpoint js env f' content)))"

definition checkpoint_control :: "checkpoint_json \<Rightarrow> local_env \<Rightarrow> local_file \<Rightarrow> wsp_error + digest list" where
  "checkpoint_control js env content = res_bind (read_checkpoint js env content) (\<lambda>f. Inr (cf_control f))"

text \<open>A missing key gives the zero value.\<close>

definition state_acceptance :: "checkpoint_file \<Rightarrow> string \<Rightarrow> acceptance" where
  "state_acceptance f res = (case cf_states f res of None \<Rightarrow> \<lparr>ac_heads = [], ac_control = []\<rparr> | Some a \<Rightarrow> a)"

definition accepted_of :: "checkpoint_json \<Rightarrow> local_env \<Rightarrow> string \<Rightarrow> local_file \<Rightarrow> wsp_error + acceptance" where
  "accepted_of js env res content = res_bind (read_checkpoint js env content) (\<lambda>f. Inr (state_acceptance f res))"

definition checkpoint_state :: "checkpoint_json \<Rightarrow> local_env \<Rightarrow> string \<Rightarrow> local_file \<Rightarrow> wsp_error + digest list" where
  "checkpoint_state js env res content = res_bind (accepted_of js env res content) (\<lambda>a. Inr (ac_heads a))"

subsection \<open>Accepting what storage shows\<close>

fun missing_from :: "digest list \<Rightarrow> (digest \<Rightarrow> bool) \<Rightarrow> digest option" where
  "missing_from [] has = None"
| "missing_from (d # ds) has = (if \<not> has d then Some d else missing_from ds has)"

text \<open>\<open>sameDigests\<close> compares the lengths and then the elements in order.\<close>

definition same_digests :: "digest list \<Rightarrow> digest list \<Rightarrow> bool" where
  "same_digests a b \<longleftrightarrow> length a = length b \<and> list_all (\<lambda>i. a ! i = b ! i) [0..<length a]"

definition accept_control_fn ::
  "control_view \<Rightarrow> checkpoint_file \<Rightarrow> wsp_error + checkpoint_file \<times> bool" where
  "accept_control_fn view f =
     (let heads = map vf_digest (cv_heads view) in
      if missing_from (cf_control f) (\<lambda>d. cv_get view d \<noteq> None) \<noteq> None then Inl ErrRollback
      else if same_digests (cf_control f) heads then Inr (f, False)
      else Inr (f\<lparr>cf_control := heads\<rparr>, True))"

definition accept_control ::
  "checkpoint_json \<Rightarrow> local_env \<Rightarrow> control_view \<Rightarrow> local_file \<Rightarrow> local_file \<times> (wsp_error + unit)" where
  "accept_control js env view content = checkpoint_update js env (accept_control_fn view) content"

text \<open>\<open>excused\<close> is nil or a function.\<close>

definition shown_or_excused :: "graph \<Rightarrow> (digest \<Rightarrow> bool) option \<Rightarrow> digest \<Rightarrow> bool" where
  "shown_or_excused g ex d \<longleftrightarrow> graph_has g d \<or> (case ex of None \<Rightarrow> False | Some p \<Rightarrow> p d)"

definition check_states ::
  "checkpoint_json \<Rightarrow> local_env \<Rightarrow> string \<Rightarrow> graph \<Rightarrow> (digest \<Rightarrow> bool) option \<Rightarrow> local_file \<Rightarrow> wsp_error + unit" where
  "check_states js env res g ex content =
     res_bind (checkpoint_state js env res content) (\<lambda>accepted.
       if missing_from accepted (shown_or_excused g ex) \<noteq> None then Inl ErrRollback else Inr ())"

definition accept_states_fn ::
  "string \<Rightarrow> graph \<Rightarrow> (digest \<Rightarrow> bool) option \<Rightarrow> digest list \<Rightarrow> digest \<Rightarrow> checkpoint_file
    \<Rightarrow> wsp_error + checkpoint_file \<times> bool" where
  "accept_states_fn res g ex heads ctl f =
     (if missing_from (ac_heads (state_acceptance f res)) (shown_or_excused g ex) \<noteq> None then Inl ErrRollback
      else if same_digests (ac_heads (state_acceptance f res)) heads \<and> ac_control (state_acceptance f res) = ctl
      then Inr (f, False)
      else Inr (f\<lparr>cf_states := (cf_states f)(res \<mapsto> \<lparr>ac_heads = heads, ac_control = ctl\<rparr>)\<rparr>, True))"

definition accept_states ::
  "checkpoint_json \<Rightarrow> local_env \<Rightarrow> string \<Rightarrow> graph \<Rightarrow> (digest \<Rightarrow> bool) option \<Rightarrow> digest list \<Rightarrow> digest
    \<Rightarrow> local_file \<Rightarrow> local_file \<times> (wsp_error + unit)" where
  "accept_states js env res g ex heads ctl content =
     checkpoint_update js env (accept_states_fn res g ex (sort_digests heads) ctl) content"

subsection \<open>Facts\<close>

lemma missing_from_None: "missing_from ds has = None \<longleftrightarrow> (\<forall>d\<in>set ds. has d)"
  by (induction ds) auto

lemma same_digests_eq: "same_digests a b \<longleftrightarrow> a = b"
  by (simp add: same_digests_def list_all_iff list_eq_iff_nth_eq [of a b] Ball_def)

text \<open>What the JSON library does on the files the program writes: decoding inverts encoding.\<close>

definition json_round :: "checkpoint_json \<Rightarrow> (checkpoint_file \<Rightarrow> bool) \<Rightarrow> bool" where
  "json_round js P \<longleftrightarrow> (\<forall>f b. P f \<longrightarrow> cj_encode js f = Some b \<longrightarrow>
     cj_version js b = Some (cf_version f) \<and> cj_decode js b = Some f)"

text \<open>What the file says when it can be read.\<close>

definition checkpoint_of :: "checkpoint_json \<Rightarrow> local_file \<Rightarrow> checkpoint_file option" where
  "checkpoint_of js content =
     (case read_checkpoint js \<lparr>le_mkdir_error = False, le_lock_open_error = False, le_lock_tries = [LockTaken],
         le_read_error = False, le_write_error = False\<rparr> content of
        Inl e \<Rightarrow> None | Inr f \<Rightarrow> Some f)"

lemma read_checkpoint_of:
  "read_checkpoint js env content = Inr f \<longleftrightarrow> \<not> le_read_error env \<and> checkpoint_of js content = Some f"
  by (auto simp: read_checkpoint_def checkpoint_of_def read_file_def split: option.splits if_splits)

lemma checkpoint_of_encoded:
  assumes "json_round js P" and "P f" and "cj_encode js f = Some b" and "cf_version f = checkpoint_version"
  shows "checkpoint_of js (Some b) = Some f"
  using assms by (auto simp: checkpoint_of_def read_checkpoint_def read_file_def json_round_def checkpoint_version_def)

lemma checkpoint_update_cases:
  assumes "checkpoint_update js env fn content = (content', r)"
  obtains (failed) e where "r = Inl e" "content' = content"
    | (same) f f' where "r = Inr ()" "content' = content" "checkpoint_of js content = Some f" "fn f = Inr (f', False)"
    | (written) f f' b where "r = Inr ()" "content' = Some b" "checkpoint_of js content = Some f"
        "fn f = Inr (f', True)" "cj_encode js f' = Some b"
proof (cases "lock_file env")
  case (Inl e)
  show thesis by (rule failed [of e]) (use assms Inl in \<open>auto simp: checkpoint_update_def\<close>)
next
  case lock: (Inr u)
  show thesis
  proof (cases "read_checkpoint js env content")
    case (Inl e)
    show thesis by (rule failed [of e]) (use assms lock Inl in \<open>auto simp: checkpoint_update_def\<close>)
  next
    case rd: (Inr f)
    then have f: "checkpoint_of js content = Some f"
      by (simp add: read_checkpoint_of)
    show thesis
    proof (cases "fn f")
      case (Inl e)
      show thesis by (rule failed [of e]) (use assms lock rd Inl in \<open>auto simp: checkpoint_update_def\<close>)
    next
      case (Inr p)
      obtain f' changed where p: "p = (f', changed)" by fastforce
      show thesis
      proof (cases changed)
        case False
        show thesis
          by (rule same [of f f']) (use assms lock rd f Inr p False in \<open>auto simp: checkpoint_update_def\<close>)
      next
        case True
        have eq: "(content', r) = write_checkpoint js env f' content"
          using assms lock rd Inr p True by (simp add: checkpoint_update_def)
        consider e where "r = Inl e" "content' = content"
          | b where "cj_encode js f' = Some b" "r = Inr ()" "content' = Some b"
          using eq by (cases "cj_encode js f'") (auto simp: write_checkpoint_def write_file_atomic_def split: if_splits)
        then show thesis
        proof cases
          case 2
          show thesis by (rule written [of b f f']) (use 2 f Inr p True in auto)
        qed (use failed in blast)
      qed
    qed
  qed
qed

end
