(* ===== verification/Checkpoint_Props.thy ===== *)
theory Checkpoint_Props
  imports Checkpoint State_Props
begin

text \<open>
  Runs of operations on one checkpoint file, by any number of processes: the file lock makes every
  operation one step.  Properties of single operations and of whole runs.
\<close>

datatype checkpoint_op =
  OpAcceptControl control_view
| OpCheckStates string graph "(digest \<Rightarrow> bool) option"
| OpAcceptStates string graph "(digest \<Rightarrow> bool) option" "digest list" digest

fun checkpoint_step ::
  "checkpoint_json \<Rightarrow> local_env \<Rightarrow> checkpoint_op \<Rightarrow> local_file \<Rightarrow> local_file \<times> (wsp_error + unit)" where
  "checkpoint_step js env (OpAcceptControl view) content = accept_control js env view content"
| "checkpoint_step js env (OpCheckStates res g ex) content = (content, check_states js env res g ex content)"
| "checkpoint_step js env (OpAcceptStates res g ex heads ctl) content = accept_states js env res g ex heads ctl content"

fun checkpoint_run ::
  "checkpoint_json \<Rightarrow> (local_env \<times> checkpoint_op) list \<Rightarrow> local_file \<Rightarrow> local_file \<times> (wsp_error + unit) list" where
  "checkpoint_run js [] content = (content, [])"
| "checkpoint_run js ((env, oper) # ops) content =
     (case checkpoint_step js env oper content of
        (content', r) \<Rightarrow> (case checkpoint_run js ops content' of (content'', rs) \<Rightarrow> (content'', r # rs)))"

text \<open>The strings of a file and of an operation are text the JSON library keeps as it is.\<close>

definition file_text :: "(string \<Rightarrow> bool) \<Rightarrow> checkpoint_file \<Rightarrow> bool" where
  "file_text T f \<longleftrightarrow> cf_version f = checkpoint_version \<and> list_all T (cf_control f)
     \<and> (\<forall>res a. cf_states f res = Some a \<longrightarrow> T res \<and> list_all T (ac_heads a) \<and> T (ac_control a))"

fun op_text :: "(string \<Rightarrow> bool) \<Rightarrow> checkpoint_op \<Rightarrow> bool" where
  "op_text T (OpAcceptControl view) = list_all T (map vf_digest (cv_heads view))"
| "op_text T (OpCheckStates res g ex) = True"
| "op_text T (OpAcceptStates res g ex heads ctl) = (T res \<and> list_all T heads \<and> T ctl)"

lemma accept_control_fn_Inr:
  "accept_control_fn view f = Inr (f', changed) \<Longrightarrow>
     (\<forall>d\<in>set (cf_control f). cv_get view d \<noteq> None) \<and> f' = f\<lparr>cf_control := map vf_digest (cv_heads view)\<rparr>"
  by (auto simp: accept_control_fn_def Let_def missing_from_None same_digests_eq split: if_splits)

lemma accept_control_fn_same:
  "accept_control_fn view f = Inr (f', False) \<Longrightarrow> cf_control f = map vf_digest (cv_heads view)"
  by (auto simp: accept_control_fn_def Let_def same_digests_eq split: if_splits)

lemma accept_states_fn_Inr:
  "accept_states_fn res g ex heads ctl f = Inr (f', changed) \<Longrightarrow>
     (\<forall>d\<in>set (ac_heads (state_acceptance f res)). shown_or_excused g ex d)
     \<and> state_acceptance f' res = \<lparr>ac_heads = heads, ac_control = ctl\<rparr>
     \<and> cf_control f' = cf_control f \<and> cf_version f' = cf_version f
     \<and> (\<forall>q. q \<noteq> res \<longrightarrow> cf_states f' q = cf_states f q)
     \<and> (cf_states f' res = cf_states f res \<or> cf_states f' res = Some \<lparr>ac_heads = heads, ac_control = ctl\<rparr>)"
  by (auto simp: accept_states_fn_def missing_from_None same_digests_eq state_acceptance_def split: if_splits)

lemma accept_states_fn_text:
  assumes "accept_states_fn res g ex (sort_digests heads) ctl f = Inr (f', changed)" and "file_text T f"
    and "T res \<and> list_all T heads \<and> T ctl"
  shows "file_text T f'"
proof -
  note s = accept_states_fn_Inr [OF assms(1)]
  have "T q \<and> list_all T (ac_heads a) \<and> T (ac_control a)" if "cf_states f' q = Some a" for q a
  proof -
    have "cf_states f q = Some a \<or> q = res \<and> a = \<lparr>ac_heads = sort_digests heads, ac_control = ctl\<rparr>"
      using s that by (cases "q = res") auto
    then show ?thesis
      using assms(2,3) unfolding file_text_def list_all_iff by (auto simp: sort_digests_def)
  qed
  then show ?thesis
    using s assms(2) by (simp add: file_text_def)
qed

text \<open>One step: the file keeps being readable, and its Control heads change only by accepting a view.\<close>

lemma checkpoint_step_spec:
  assumes "checkpoint_step js env oper content = (content', r)" and "checkpoint_of js content = Some f"
    and "file_text T f" and "op_text T oper" and "json_round js (file_text T)"
  obtains f' where "checkpoint_of js content' = Some f'" and "file_text T f'"
    and "\<And>view. oper = OpAcceptControl view \<Longrightarrow> r = Inr () \<Longrightarrow>
           (\<forall>d\<in>set (cf_control f). cv_get view d \<noteq> None) \<and> cf_control f' = map vf_digest (cv_heads view)"
    and "(\<forall>view. oper \<noteq> OpAcceptControl view) \<or> r \<noteq> Inr () \<Longrightarrow> cf_control f' = cf_control f"
proof (cases oper)
  case (OpCheckStates res g ex)
  show thesis
    by (rule that [of f]) (use assms(1-3) OpCheckStates in auto)
next
  case (OpAcceptControl view)
  then have "checkpoint_update js env (accept_control_fn view) content = (content', r)"
    using assms(1) by (simp add: accept_control_def)
  then show thesis
  proof (cases rule: checkpoint_update_cases)
    case (same f1 f')
    then have "f1 = f" using assms(2) by simp
    with accept_control_fn_same [of view f f'] accept_control_fn_Inr [of view f f' False] same(4)
    have s: "cf_control f = map vf_digest (cv_heads view)" "\<forall>d\<in>set (cf_control f). cv_get view d \<noteq> None"
      by auto
    show thesis
      by (rule that [of f]) (use assms(2,3) same(2) s OpAcceptControl in auto)
  next
    case (written f1 f' b)
    have f': "f' = f\<lparr>cf_control := map vf_digest (cv_heads view)\<rparr>" "\<forall>d\<in>set (cf_control f). cv_get view d \<noteq> None"
      using written assms(2) accept_control_fn_Inr [of view f1 f' True] by auto
    then have "file_text T f'"
      using assms(3,4) OpAcceptControl by (simp add: file_text_def)
    moreover have "checkpoint_of js content' = Some f'"
      using checkpoint_of_encoded [OF assms(5) \<open>file_text T f'\<close>] written \<open>file_text T f'\<close> by (simp add: file_text_def)
    ultimately show thesis
      using f' OpAcceptControl written(1) assms(2) by (intro that [of f']) auto
  next
    case (failed e)
    show thesis
      by (rule that [of f]) (use assms(2,3) failed in auto)
  qed
next
  case (OpAcceptStates res g ex heads ctl)
  then have "checkpoint_update js env (accept_states_fn res g ex (sort_digests heads) ctl) content = (content', r)"
    using assms(1) by (simp add: accept_states_def)
  then show thesis
  proof (cases rule: checkpoint_update_cases)
    case (written f1 f' b)
    note s = accept_states_fn_Inr [OF written(4)]
    have t: "file_text T f'"
      using accept_states_fn_text [OF written(4)] assms(2-4) written(3) OpAcceptStates by simp
    moreover have "checkpoint_of js content' = Some f'"
      using checkpoint_of_encoded [OF assms(5) t] written t by (simp add: file_text_def)
    ultimately show thesis
      using s OpAcceptStates assms(2) written(3) by (intro that [of f']) auto
  next
    case (same f1 f')
    show thesis
      by (rule that [of f]) (use assms(2,3) same OpAcceptStates in auto)
  next
    case (failed e)
    show thesis
      by (rule that [of f]) (use assms(2,3) failed in auto)
  qed
qed

subsection \<open>Views grow\<close>

text \<open>Loaded views agree when they show the same Control under a digest both hold.\<close>

definition views_agree :: "control_view \<Rightarrow> control_view \<Rightarrow> bool" where
  "views_agree u w \<longleftrightarrow> (\<forall>d a b. cv_get u d = Some a \<longrightarrow> cv_get w d = Some b \<longrightarrow> a = b)"

definition view_within :: "control_view \<Rightarrow> control_view \<Rightarrow> bool" where
  "view_within u w \<longleftrightarrow> (\<forall>d. cv_get u d \<noteq> None \<longrightarrow> cv_get w d \<noteq> None)"

lemma view_within_trans: "view_within u v \<Longrightarrow> view_within v w \<Longrightarrow> view_within u w"
  by (simp add: view_within_def)

lemma heads_within:
  assumes "load_control lib ops ws g cp s = (s1, Inr u)" and "load_control lib ops' ws' g' cp' s' = (s2, Inr w)"
    and "views_agree u w" and "\<forall>d\<in>set (map vf_digest (cv_heads u)). cv_get w d \<noteq> None"
  shows "view_within u w"
  unfolding view_within_def
proof (intro allI impI)
  fix d assume "cv_get u d \<noteq> None"
  then obtain h where h: "h \<in> set (cv_heads u)" "(vf_digest h, d) \<in> (control_edge (cv_verified u))\<^sup>*"
    using load_control_heads_facts [OF assms(1)] by blast
  have "cv_get w (vf_digest h) \<noteq> None"
    using assms(4) h(1) by simp
  with h(2) show "cv_get w d \<noteq> None"
  proof (induction rule: rtrancl_induct)
    case (step x y)
    then obtain a b where a: "cv_get u x = Some a" "y \<in> set (ct_parents (vf_control a))" and "cv_get w x = Some b"
      by (auto simp: control_edge_def cv_get_def)
    then have "cv_get w x = Some a"
      using assms(3) by (auto simp: views_agree_def)
    then show ?case
      using load_control_heads_facts [OF assms(2)] a(2) by blast
  qed
qed

lemma run_within_later:
  assumes "checkpoint_run js ops content = (content', rs)" and "checkpoint_of js content = Some f" and "file_text T f"
    and "list_all (\<lambda>(env, oper). op_text T oper) ops" and "json_round js (file_text T)"
    and "cf_control f = map vf_digest (cv_heads u)" and "u \<in> V"
    and "\<forall>env w. (env, OpAcceptControl w) \<in> set ops \<longrightarrow> w \<in> V"
    and "\<And>w. w \<in> V \<Longrightarrow> \<exists>(sops :: 's store_ops) cp s s1. load_control lib sops ws g cp s = (s1, Inr w)"
    and "\<And>v w. v \<in> V \<Longrightarrow> w \<in> V \<Longrightarrow> views_agree v w"
    and "j < length ops" and "snd (ops ! j) = OpAcceptControl w" and "rs ! j = Inr ()"
  shows "view_within u w"
  using assms(1-4,6-8,11-13)
proof (induction ops arbitrary: content content' rs f u j)
  case (Cons eo ops)
  obtain env oper where eo: "eo = (env, oper)" by fastforce
  obtain c1 r where st: "checkpoint_step js env oper content = (c1, r)" by fastforce
  obtain c2 rs' where run: "checkpoint_run js ops c1 = (c2, rs')" by fastforce
  have rs: "rs = r # rs'"
    using Cons.prems(1) by (simp add: eo st run)
  have tx: "op_text T oper" "list_all (\<lambda>(env, oper). op_text T oper) ops"
    using Cons.prems(4) by (simp_all add: eo)
  obtain f' where f': "checkpoint_of js c1 = Some f'" "file_text T f'"
    "\<And>view. oper = OpAcceptControl view \<Longrightarrow> r = Inr () \<Longrightarrow>
        (\<forall>d\<in>set (cf_control f). cv_get view d \<noteq> None) \<and> cf_control f' = map vf_digest (cv_heads view)"
    "(\<forall>view. oper \<noteq> OpAcceptControl view) \<or> r \<noteq> Inr () \<Longrightarrow> cf_control f' = cf_control f"
    by (rule checkpoint_step_spec [OF st Cons.prems(2,3) tx(1) assms(5)]) blast
  have grows: "view_within u v" if "oper = OpAcceptControl v" "r = Inr ()" for v
  proof -
    have "v \<in> V" using Cons.prems(7) that(1) by (auto simp: eo)
    with assms(9) Cons.prems(6) obtain sops :: "'s store_ops" and cp s s1 and sops' :: "'s store_ops" and cp' s' s1' where
      "load_control lib sops ws g cp s = (s1, Inr u)" "load_control lib sops' ws g cp' s' = (s1', Inr v)" by meson
    then show ?thesis
      by (rule heads_within) (use assms(10) \<open>v \<in> V\<close> Cons.prems(5,6) f'(3) that in auto)
  qed
  show ?case
  proof (cases j)
    case 0
    with Cons.prems(9,10) rs grows show ?thesis by (simp add: eo)
  next
    case (Suc i)
    have inV: "\<forall>env w. (env, OpAcceptControl w) \<in> set ops \<longrightarrow> w \<in> V"
      using Cons.prems(7) by auto
    have i: "i < length ops" "snd (ops ! i) = OpAcceptControl w" "rs' ! i = Inr ()"
      using Cons.prems(8-10) Suc rs by simp_all
    show ?thesis
    proof (cases "\<exists>v. oper = OpAcceptControl v \<and> r = Inr ()")
      case True
      then obtain v where v: "oper = OpAcceptControl v" "r = Inr ()" by blast
      have "v \<in> V" using Cons.prems(7) v(1) by (auto simp: eo)
      with Cons.IH [OF run f'(1,2) tx(2) _ _ inV i, of v] f'(3) [OF v] have "view_within v w" by simp
      with grows [OF v] show ?thesis by (rule view_within_trans)
    next
      case False
      with f'(4) Cons.prems(5) have "cf_control f' = map vf_digest (cv_heads u)" by auto
      with Cons.IH [OF run f'(1,2) tx(2) _ Cons.prems(6) inV i] show ?thesis by simp
    qed
  qed
qed simp

text \<open>
  C13: no rollback of the Control DAG.  Take any run of operations on a checkpoint file, by any
  processes and with any failures of the disk and the lock in between.  If two of the operations
  accepted the view a load gave, the later view shows every Control the earlier one showed: once
  accepted, no Control and so no revocation can be hidden by the store again.
\<close>

theorem checkpoint_no_rollback:
  assumes "checkpoint_run js ops content = (content', rs)" and "checkpoint_of js content = Some f" and "file_text T f"
    and "list_all (\<lambda>(env, oper). op_text T oper) ops" and "json_round js (file_text T)"
    and "\<forall>env w. (env, OpAcceptControl w) \<in> set ops \<longrightarrow> w \<in> V"
    and "\<And>w. w \<in> V \<Longrightarrow> \<exists>(sops :: 's store_ops) cp s s1. load_control lib sops ws g cp s = (s1, Inr w)"
    and "\<And>v w. v \<in> V \<Longrightarrow> w \<in> V \<Longrightarrow> views_agree v w"
    and "i < j" and "j < length ops"
    and "snd (ops ! i) = OpAcceptControl u" and "rs ! i = Inr ()"
    and "snd (ops ! j) = OpAcceptControl w" and "rs ! j = Inr ()"
  shows "\<forall>d. cv_get u d \<noteq> None \<longrightarrow> cv_get w d \<noteq> None"
proof -
  have "view_within u w"
    using assms(1-4,6,9-14)
  proof (induction ops arbitrary: content content' rs f i j)
    case (Cons eo ops)
    obtain env oper where eo: "eo = (env, oper)" by fastforce
    obtain c1 r where st: "checkpoint_step js env oper content = (c1, r)" by fastforce
    obtain c2 rs' where run: "checkpoint_run js ops c1 = (c2, rs')" by fastforce
    have rs: "rs = r # rs'"
      using Cons.prems(1) by (simp add: eo st run)
    have tx: "op_text T oper" "list_all (\<lambda>(env, oper). op_text T oper) ops"
      using Cons.prems(4) by (simp_all add: eo)
    have inV: "\<forall>env w. (env, OpAcceptControl w) \<in> set ops \<longrightarrow> w \<in> V"
      using Cons.prems(5) by auto
    obtain f' where f': "checkpoint_of js c1 = Some f'" "file_text T f'"
      "\<And>view. oper = OpAcceptControl view \<Longrightarrow> r = Inr () \<Longrightarrow>
          (\<forall>d\<in>set (cf_control f). cv_get view d \<noteq> None) \<and> cf_control f' = map vf_digest (cv_heads view)"
      by (rule checkpoint_step_spec [OF st Cons.prems(2,3) tx(1) assms(5)]) blast
    obtain j' where j: "j = Suc j'" "j' < length ops" "snd (ops ! j') = OpAcceptControl w" "rs' ! j' = Inr ()"
      using Cons.prems(6,7,10,11) rs by (cases j) auto
    show ?case
    proof (cases i)
      case 0
      then have u: "oper = OpAcceptControl u" "r = Inr ()"
        using Cons.prems(8,9) rs by (simp_all add: eo)
      then have "u \<in> V" using Cons.prems(5) by (auto simp: eo)
      with run_within_later [OF run f'(1,2) tx(2) assms(5) _ _ inV assms(7,8) j(2-4), of u] f'(3) [OF u]
      show ?thesis by simp
    next
      case (Suc i')
      then have "i' < j'" "snd (ops ! i') = OpAcceptControl u" "rs' ! i' = Inr ()"
        using Cons.prems(6,8,9) rs j(1) by simp_all
      from Cons.IH [OF run f'(1,2) tx(2) inV this(1) j(2) this(2,3) j(3,4)] show ?thesis .
    qed
  qed simp
  then show ?thesis by (simp add: view_within_def)
qed

subsection \<open>A run\<close>

definition genesis_file :: checkpoint_file where
  "genesis_file = empty_checkpoint\<lparr>cf_control := [genesis_digest]\<rparr>"

definition child_file :: checkpoint_file where
  "child_file = empty_checkpoint\<lparr>cf_control := [child_digest]\<rparr>"

definition states_file :: checkpoint_file where
  "states_file = empty_checkpoint\<lparr>cf_states := [''secrets/dev'' \<mapsto> \<lparr>ac_heads = [state_digest], ac_control = genesis_digest\<rparr>]\<rparr>"

text \<open>A library that encodes these three files, each as one character.\<close>

definition sample_json :: checkpoint_json where
  "sample_json = \<lparr>cj_version = (\<lambda>b. Some 3),
     cj_decode = (\<lambda>b. if b = ''g'' then Some genesis_file else if b = ''c'' then Some child_file else Some states_file),
     cj_encode = (\<lambda>f. if f = genesis_file then Some ''g'' else if f = child_file then Some ''c''
                      else if f = states_file then Some ''s'' else None)\<rparr>"

definition calm :: local_env where
  "calm = \<lparr>le_mkdir_error = False, le_lock_open_error = False, le_lock_tries = [LockBusy, LockTaken],
     le_read_error = False, le_write_error = False\<rparr>"

lemma calm_sel:
  "\<not> le_mkdir_error calm" "\<not> le_lock_open_error calm" "le_lock_tries calm = [LockBusy, LockTaken]"
  "\<not> le_read_error calm" "\<not> le_write_error calm"
  by (simp_all add: calm_def)

lemma sample_files:
  "cf_version genesis_file = 3" "cf_version child_file = 3" "cf_version states_file = 3"
  "cf_control genesis_file = [genesis_digest]" "cf_control child_file = [child_digest]" "cf_control states_file = []"
  by (simp_all add: genesis_file_def child_file_def states_file_def empty_checkpoint_def checkpoint_version_def)

lemma sample_json_round: "json_round sample_json P"
proof -
  have "genesis_file \<noteq> child_file" "genesis_file \<noteq> states_file" "child_file \<noteq> states_file"
    using sample_files digests_differ by (metis list.inject list.distinct(1))+
  then show ?thesis
    by (auto simp: json_round_def sample_json_def sample_files split: if_splits)
qed

lemma empty_file: "checkpoint_of js None = Some empty_checkpoint" "file_text T empty_checkpoint"
  by (simp_all add: checkpoint_of_def read_checkpoint_def read_file_def file_text_def empty_checkpoint_def)

lemma read_calm: "read_checkpoint js calm content = Inr f \<longleftrightarrow> checkpoint_of js content = Some f"
  by (simp add: read_checkpoint_of calm_def)

lemma sample_accept_genesis: "accept_control sample_json calm genesis_view None = (Some ''g'', Inr ())"
proof -
  have "accept_control_fn genesis_view empty_checkpoint = Inr (genesis_file, True)"
    by (simp add: accept_control_fn_def empty_checkpoint_def genesis_file_def genesis_view_def genesis_verified_def
        same_digests_eq)
  moreover have "read_checkpoint sample_json calm None = Inr empty_checkpoint"
    unfolding read_calm by (rule empty_file)
  moreover have "cj_encode sample_json genesis_file = Some ''g''"
    by (simp add: sample_json_def)
  ultimately show ?thesis
    by (simp add: accept_control_def checkpoint_update_def lock_file_def write_checkpoint_def
        write_file_atomic_def calm_sel)
qed

lemma sample_accept_child: "accept_control sample_json calm sample_view (Some ''g'') = (Some ''c'', Inr ())"
proof -
  have g: "checkpoint_of sample_json (Some ''g'') = Some genesis_file"
    using checkpoint_of_encoded [OF sample_json_round [of "\<lambda>_. True"], of genesis_file "''g''"]
    by (simp add: sample_files checkpoint_version_def) (simp add: sample_json_def)
  have "accept_control_fn sample_view genesis_file = Inr (child_file, True)"
    using digests_differ sample_view_get sample_files
    by (simp add: accept_control_fn_def same_digests_eq)
      (simp add: sample_view_def child_verified_def genesis_file_def child_file_def)
  moreover have "read_checkpoint sample_json calm (Some ''g'') = Inr genesis_file"
    unfolding read_calm by (rule g)
  moreover have "cj_encode sample_json child_file = Some ''c''"
    using sample_files digests_differ by (auto simp: sample_json_def)
  ultimately show ?thesis
    by (simp add: accept_control_def checkpoint_update_def lock_file_def write_checkpoint_def
        write_file_atomic_def calm_sel)
qed

theorem checkpoint_no_rollback_witness:
  "\<exists>content rs. checkpoint_run sample_json [(calm, OpAcceptControl genesis_view), (calm, OpAcceptControl sample_view)] None
      = (content, rs) \<and> rs = [Inr (), Inr ()] \<and> cv_get sample_view genesis_digest \<noteq> None"
proof -
  let ?ops = "[(calm, OpAcceptControl genesis_view), (calm, OpAcceptControl sample_view)]"
  have run: "checkpoint_run sample_json ?ops None = (Some ''c'', [Inr (), Inr ()])"
    by (simp add: sample_accept_genesis sample_accept_child)
  have "gm_has (cv_verified genesis_view) d \<longrightarrow> d = genesis_digest" for d
    by (simp add: genesis_view_def gm_has_def)
  then have agree: "views_agree v w" if "v \<in> {genesis_view, sample_view}" "w \<in> {genesis_view, sample_view}" for v w
    using that sample_view_get
    by (auto simp: views_agree_def cv_get_def genesis_view_def gm_get_def split: if_splits)
  have "\<forall>d. cv_get genesis_view d \<noteq> None \<longrightarrow> cv_get sample_view d \<noteq> None"
  proof (rule checkpoint_no_rollback [OF run empty_file(1) empty_file(2), where T = "\<lambda>_. True"
        and V = "{genesis_view, sample_view}" and lib = sample_lib and ws = "''w''" and g = genesis_digest
        and i = 0 and j = 1])
    show "\<exists>(sops :: unit store_ops) cp s s1. load_control sample_lib sops ''w'' genesis_digest cp s = (s1, Inr w)"
      if "w \<in> {genesis_view, sample_view}" for w
      using that genesis_load sample_load_view by blast
  qed (use agree sample_json_round in \<open>auto simp: list_all_iff\<close>)
  then show ?thesis
    using run by (auto simp: genesis_view_def cv_get_def gm_get_def)
qed

subsection \<open>Accepting revisions\<close>

lemma check_states_iff:
  "checkpoint_of js content = Some f \<Longrightarrow> check_states js env res g ex content = Inr () \<longleftrightarrow>
     \<not> le_read_error env \<and> (\<forall>d\<in>set (ac_heads (state_acceptance f res)). shown_or_excused g ex d)"
  by (auto simp: check_states_def checkpoint_state_def accepted_of_def res_simps read_checkpoint_of missing_from_None
      split: if_splits)

text \<open>
  Accepted revisions stay.  \<open>AcceptStates\<close> that succeeds had every head accepted before shown or
  excused, and records exactly the given heads, sorted, with the Control epoch, leaving the other
  resources and the accepted Controls as they were; from then on \<open>CheckStates\<close> lets a view pass
  exactly when it shows every one of these heads or a compaction excuses it.  When it fails, for
  a rollback or for a fault of the lock or the disk, the file is unchanged.
\<close>

theorem accept_states_exact:
  assumes "accept_states js env res g ex heads ctl content = (content', r)" and "checkpoint_of js content = Some f"
    and "file_text T f" and "T res \<and> list_all T heads \<and> T ctl" and "json_round js (file_text T)"
  shows "(r \<noteq> Inr () \<longrightarrow> content' = content)
    \<and> (r = Inr () \<longrightarrow> (\<forall>d\<in>set (ac_heads (state_acceptance f res)). shown_or_excused g ex d)
        \<and> (\<exists>f'. checkpoint_of js content' = Some f' \<and> cf_control f' = cf_control f
             \<and> state_acceptance f' res = \<lparr>ac_heads = sort_digests heads, ac_control = ctl\<rparr>
             \<and> (\<forall>q. q \<noteq> res \<longrightarrow> cf_states f' q = cf_states f q))
        \<and> (\<forall>env' g' ex'. check_states js env' res g' ex' content' = Inr () \<longleftrightarrow>
             \<not> le_read_error env' \<and> (\<forall>d\<in>set heads. shown_or_excused g' ex' d)))"
proof (cases "r = Inr ()")
  case False
  show ?thesis
    using assms(1) [unfolded accept_states_def] by (cases rule: checkpoint_update_cases) (use False in auto)
next
  case True
  obtain f1 f' changed where fn: "accept_states_fn res g ex (sort_digests heads) ctl f = Inr (f', changed)"
    and f': "checkpoint_of js content' = Some f1" "f1 = f'"
    using assms(1) [unfolded accept_states_def]
  proof (cases rule: checkpoint_update_cases)
    case (same f2 f')
    then have "f2 = f" "f' = f2"
      using assms(2) by (auto simp: accept_states_fn_def split: if_splits)
    with same assms(2) that show ?thesis by auto
  next
    case (written f2 f' b)
    then have eq: "f2 = f" using assms(2) by simp
    have "file_text T f'"
      using accept_states_fn_text [OF written(4)] assms(3,4) eq by simp
    then show ?thesis
      using that written eq checkpoint_of_encoded [OF assms(5), of f' b] by (auto simp: file_text_def)
  qed (use True in auto)
  note s = accept_states_fn_Inr [OF fn]
  have "set (ac_heads (state_acceptance f' res)) = set heads"
    using s by (simp add: sort_digests_def)
  then show ?thesis
    using True s f' check_states_iff [of js content' f'] by auto
qed

lemma sample_accept_states:
  "accept_states sample_json calm ''secrets/dev'' (sv_graph sample_sv) None [state_digest] genesis_digest None = (Some ''s'', Inr ())"
proof -
  have "accept_states_fn ''secrets/dev'' (sv_graph sample_sv) None (sort_digests [state_digest]) genesis_digest empty_checkpoint
      = Inr (states_file, True)"
    by (simp add: accept_states_fn_def empty_checkpoint_def states_file_def state_acceptance_def same_digests_eq
        sort_digests_def fun_upd_def)
  moreover have "read_checkpoint sample_json calm None = Inr empty_checkpoint"
    unfolding read_calm by (rule empty_file)
  moreover have "cj_encode sample_json states_file = Some ''s''"
    using sample_files by (auto simp: sample_json_def)
  ultimately show ?thesis
    by (simp add: accept_states_def checkpoint_update_def lock_file_def write_checkpoint_def write_file_atomic_def calm_sel)
qed

theorem accept_states_exact_witness:
  "check_states sample_json calm ''secrets/dev'' new_graph None (Some ''s'') \<noteq> Inr ()"
  using accept_states_exact [OF sample_accept_states empty_file(1) empty_file(2), of "\<lambda>_. True"] sample_json_round
  by (simp add: shown_or_excused_def list_all_iff)

end
