(* ===== verification/Trust.thy ===== *)
theory Trust
  imports Checkpoint_Props
begin

text \<open>
  The locally pinned trust root, \<open>pkg/wsp/trust.go\<close>: trust on first use.  The file and the lock are
  those of the checkpoints.
\<close>

record root =
  rt_workspace :: string
  rt_genesis :: digest

record trust_file =
  tf_version :: int
  tf_root :: root

record trust_json =
  tj_decode :: "bytes \<Rightarrow> trust_file option"
  tj_encode :: "trust_file \<Rightarrow> bytes option"

datatype trust_error = TrustRootChanged root root | TrustFailed wsp_error

definition trust_root_version :: int where
  "trust_root_version = 1"

definition zero_root :: root where
  "zero_root = \<lparr>rt_workspace = [], rt_genesis = []\<rparr>"

definition open_trust_root :: "crypto \<Rightarrow> string \<Rightarrow> string \<Rightarrow> string" where
  "open_trust_root cr prefix key = prefix @ hex_encode (cr_sha256 cr key) @ ''.json''"

definition workspace_trust_name :: "crypto \<Rightarrow> string \<Rightarrow> string" where
  "workspace_trust_name cr ws = open_trust_root cr ''trust-'' ws"

definition repository_trust_name :: "crypto \<Rightarrow> string \<Rightarrow> string" where
  "repository_trust_name cr config_path = open_trust_root cr ''repo-'' config_path"

definition trust_pinned :: "wsp_lib \<Rightarrow> trust_json \<Rightarrow> local_env \<Rightarrow> local_file \<Rightarrow> trust_error + root" where
  "trust_pinned lib js env content =
     (case read_file env content of
        Inl e \<Rightarrow> Inl (TrustFailed e)
      | Inr None \<Rightarrow> Inr zero_root
      | Inr (Some b) \<Rightarrow>
          (case tj_decode js b of
             None \<Rightarrow> Inl (TrustFailed ErrOther)
           | Some f \<Rightarrow>
               if tf_version f \<noteq> trust_root_version \<or> rt_workspace (tf_root f) = []
                  \<or> wsp_valid_digest lib (rt_genesis (tf_root f)) \<noteq> Inr ()
               then Inl (TrustFailed ErrOther) else Inr (tf_root f)))"

definition trust_check :: "wsp_lib \<Rightarrow> trust_json \<Rightarrow> local_env \<Rightarrow> root \<Rightarrow> local_file \<Rightarrow> trust_error + unit" where
  "trust_check lib js env root content =
     res_bind (trust_pinned lib js env content) (\<lambda>pinned.
       if pinned \<noteq> zero_root \<and> pinned \<noteq> root then Inl (TrustRootChanged pinned root) else Inr ())"

text \<open>
  \<open>pin\<close> returns the root pinned before, also next to an error; here the root comes with the result.
\<close>

definition trust_pin ::
  "wsp_lib \<Rightarrow> trust_json \<Rightarrow> local_env \<Rightarrow> root \<Rightarrow> bool \<Rightarrow> root option \<Rightarrow> local_file
    \<Rightarrow> local_file \<times> root \<times> (trust_error + unit)" where
  "trust_pin lib js env root replace expected content =
     (if rt_workspace root = [] then (content, zero_root, Inl (TrustFailed ErrInvalid))
      else if wsp_valid_digest lib (rt_genesis root) \<noteq> Inr () then (content, zero_root, Inl (TrustFailed ErrInvalid))
      else case lock_file env of
        Inl e \<Rightarrow> (content, zero_root, Inl (TrustFailed e))
      | Inr _ \<Rightarrow>
          let read = trust_pinned lib js env content;
              pinned = (case read of Inl e \<Rightarrow> zero_root | Inr p \<Rightarrow> p)
          in if \<not> is_ok read \<and> (\<not> replace \<or> expected \<noteq> None)
             then (content, zero_root, res_bind read (\<lambda>_. Inr ()))
             else if pinned = root then (content, pinned, Inr ())
             else if (case expected of None \<Rightarrow> False | Some x \<Rightarrow> pinned \<noteq> x)
             then (content, pinned, Inl (TrustRootChanged pinned root))
             else if pinned \<noteq> zero_root \<and> \<not> replace then (content, pinned, Inl (TrustRootChanged pinned root))
             else case tj_encode js \<lparr>tf_version = trust_root_version, tf_root = root\<rparr> of
               None \<Rightarrow> (content, zero_root, Inl (TrustFailed ErrOther))
             | Some b \<Rightarrow>
                 (case write_file_atomic env b content of
                    (content', Inl e) \<Rightarrow> (content', pinned, Inl (TrustFailed e))
                  | (content', Inr _) \<Rightarrow> (content', pinned, Inr ())))"

definition pin_root ::
  "wsp_lib \<Rightarrow> trust_json \<Rightarrow> local_env \<Rightarrow> root \<Rightarrow> bool \<Rightarrow> local_file \<Rightarrow> local_file \<times> root \<times> (trust_error + unit)" where
  "pin_root lib js env root replace content = trust_pin lib js env root replace None content"

definition pin_replacing ::
  "wsp_lib \<Rightarrow> trust_json \<Rightarrow> local_env \<Rightarrow> root \<Rightarrow> root \<Rightarrow> local_file \<Rightarrow> local_file \<times> root \<times> (trust_error + unit)" where
  "pin_replacing lib js env root expected content = trust_pin lib js env root True (Some expected) content"

subsection \<open>What is pinned\<close>

text \<open>The root in the file when it can be read.\<close>

definition pinned_in :: "wsp_lib \<Rightarrow> trust_json \<Rightarrow> local_file \<Rightarrow> root option" where
  "pinned_in lib js content =
     (case content of
        None \<Rightarrow> Some zero_root
      | Some b \<Rightarrow>
          (case tj_decode js b of
             None \<Rightarrow> None
           | Some f \<Rightarrow>
               if tf_version f \<noteq> trust_root_version \<or> rt_workspace (tf_root f) = []
                  \<or> wsp_valid_digest lib (rt_genesis (tf_root f)) \<noteq> Inr ()
               then None else Some (tf_root f)))"

lemma trust_pinned_iff:
  "trust_pinned lib js env content = Inr p \<longleftrightarrow> \<not> le_read_error env \<and> pinned_in lib js content = Some p"
  by (auto simp: trust_pinned_def pinned_in_def read_file_def split: option.splits if_splits)

definition trust_json_ok :: "trust_json \<Rightarrow> bool" where
  "trust_json_ok js \<longleftrightarrow> (\<forall>f b. tj_encode js f = Some b \<longrightarrow> tj_decode js b = Some f)"

text \<open>Every outcome of \<open>pin\<close> leaves the file as it was, or writes the root.\<close>

lemma trust_pin_cases:
  assumes "trust_pin lib js env root replace expected content = (content', prev, r)" and "trust_json_ok js"
  obtains (failed) e where "r = Inl e" "content' = content"
    | (same) "r = Inr ()" "content' = content" "pinned_in lib js content = Some root"
    | (written) "r = Inr ()" "pinned_in lib js content' = Some root" "rt_workspace root \<noteq> []"
        "pinned_in lib js content = Some prev \<or> (prev = zero_root \<and> replace \<and> expected = None)"
        "replace \<or> prev = zero_root" "\<And>x. expected = Some x \<Longrightarrow> prev = x"
proof (cases "r = Inr ()")
  case False
  have "content' = content"
    using assms(1) False
    by (auto simp: trust_pin_def Let_def write_file_atomic_def split: if_splits sum.splits option.splits prod.splits)
  with False failed show thesis by (cases r) auto
next
  case True
  let ?pinned = "case trust_pinned lib js env content of Inl e \<Rightarrow> zero_root | Inr p \<Rightarrow> p"
  have ok: "rt_workspace root \<noteq> []" "wsp_valid_digest lib (rt_genesis root) = Inr ()"
    "\<not> (\<not> is_ok (trust_pinned lib js env content) \<and> (\<not> replace \<or> expected \<noteq> None))"
    using assms(1) True
    by (auto simp: trust_pin_def Let_def res_simps split: if_splits sum.splits)
  show thesis
  proof (cases "?pinned = root")
    case same': True
    then obtain p where "trust_pinned lib js env content = Inr p" "p = root"
      using ok(1) by (cases "trust_pinned lib js env content") (auto simp: zero_root_def)
    then have "pinned_in lib js content = Some root"
      by (simp add: trust_pinned_iff)
    moreover have "content' = content"
      using assms(1) ok True same' by (auto simp: trust_pin_def Let_def split: sum.splits if_splits)
    ultimately show thesis using same True by blast
  next
    case False
    obtain b where b: "tj_encode js \<lparr>tf_version = trust_root_version, tf_root = root\<rparr> = Some b" "content' = Some b"
      "prev = ?pinned" "replace \<or> ?pinned = zero_root" "\<And>x. expected = Some x \<Longrightarrow> ?pinned = x"
      using assms(1) ok True False
      by (auto simp: trust_pin_def Let_def write_file_atomic_def split: sum.splits if_splits option.splits prod.splits)
    have "pinned_in lib js content' = Some root"
      using assms(2) b(1,2) ok(1,2) by (simp add: trust_json_ok_def pinned_in_def)
    moreover have "pinned_in lib js content = Some prev \<or> (prev = zero_root \<and> replace \<and> expected = None)"
      using ok(3) b(3) by (cases "trust_pinned lib js env content") (auto simp: trust_pinned_iff)
    ultimately show thesis
      using b(3-5) ok(1) True by (intro written) auto
  qed
qed

subsection \<open>Trust on first use\<close>

datatype trust_op = OpPin root bool | OpPinReplacing root root | OpCheck root

fun trust_step :: "wsp_lib \<Rightarrow> trust_json \<Rightarrow> local_env \<Rightarrow> trust_op \<Rightarrow> local_file \<Rightarrow> local_file \<times> (trust_error + unit)" where
  "trust_step lib js env (OpPin root replace) content =
     (case pin_root lib js env root replace content of (content', prev, r) \<Rightarrow> (content', r))"
| "trust_step lib js env (OpPinReplacing root expected) content =
     (case pin_replacing lib js env root expected content of (content', prev, r) \<Rightarrow> (content', r))"
| "trust_step lib js env (OpCheck root) content = (content, trust_check lib js env root content)"

fun trust_run ::
  "wsp_lib \<Rightarrow> trust_json \<Rightarrow> (local_env \<times> trust_op) list \<Rightarrow> local_file \<Rightarrow> local_file \<times> (trust_error + unit) list" where
  "trust_run lib js [] content = (content, [])"
| "trust_run lib js ((env, oper) # ops) content =
     (case trust_step lib js env oper content of
        (content', r) \<Rightarrow> (case trust_run lib js ops content' of (content'', rs) \<Rightarrow> (content'', r # rs)))"

fun op_root :: "trust_op \<Rightarrow> root" where
  "op_root (OpPin root replace) = root"
| "op_root (OpPinReplacing root expected) = root"
| "op_root (OpCheck root) = root"

text \<open>Nobody confirmed another root by hand, and no founding record replaces this one.\<close>

fun unconfirmed :: "root \<Rightarrow> trust_op \<Rightarrow> bool" where
  "unconfirmed p (OpPin root replace) = (\<not> replace)"
| "unconfirmed p (OpPinReplacing root expected) = (expected \<noteq> p)"
| "unconfirmed p (OpCheck root) = True"

lemma unconfirmed_step:
  assumes "trust_step lib js env oper content = (content', r)" and "trust_json_ok js"
    and "pinned_in lib js content = Some p" and "p \<noteq> zero_root" and "unconfirmed p oper"
  shows "pinned_in lib js content' = Some p \<and> (r = Inr () \<longrightarrow> op_root oper = p)"
proof (cases oper)
  case (OpCheck root)
  then show ?thesis
    using assms by (auto simp: trust_check_def res_simps trust_pinned_iff split: if_splits)
next
  case (OpPin root replace)
  obtain prev where "trust_pin lib js env root False None content = (content', prev, r)"
    using assms(1,5) OpPin by (auto simp: pin_root_def split: prod.splits)
  then show ?thesis
    using assms(2) by (cases rule: trust_pin_cases) (use assms(3,4) OpPin in auto)
next
  case (OpPinReplacing root expected)
  obtain prev where "trust_pin lib js env root True (Some expected) content = (content', prev, r)"
    using assms(1) OpPinReplacing by (auto simp: pin_replacing_def split: prod.splits)
  then show ?thesis
    using assms(2) by (cases rule: trust_pin_cases) (use assms(3-5) OpPinReplacing in auto)
qed

lemma unconfirmed_run:
  assumes "trust_run lib js ops content = (content', rs)" and "trust_json_ok js"
    and "pinned_in lib js content = Some p" and "p \<noteq> zero_root" and "list_all (\<lambda>(env, oper). unconfirmed p oper) ops"
  shows "pinned_in lib js content' = Some p \<and> length rs = length ops
    \<and> (\<forall>j<length ops. rs ! j = Inr () \<longrightarrow> op_root (snd (ops ! j)) = p)"
  using assms(1,3,5)
proof (induction ops arbitrary: content rs)
  case (Cons eo ops)
  obtain env oper where eo: "eo = (env, oper)" by fastforce
  obtain c1 r where st: "trust_step lib js env oper content = (c1, r)" by fastforce
  obtain c2 rs' where run: "trust_run lib js ops c1 = (c2, rs')" by fastforce
  have s: "pinned_in lib js c1 = Some p \<and> (r = Inr () \<longrightarrow> op_root oper = p)"
    using unconfirmed_step [OF st assms(2) Cons.prems(2) assms(4)] Cons.prems(3) eo by simp
  moreover have "content' = c2" "rs = r # rs'"
    using Cons.prems(1) by (simp_all add: eo st run)
  ultimately show ?case
    using Cons.IH [of c1 rs'] run Cons.prems(3) eo by (auto simp: nth_Cons split: nat.splits)
qed simp

text \<open>
  C14: trust on first use.  Once a device pinned a root (not replacing another), then, in any run of
  further operations with any failures of the disk or the lock, as long as nobody confirms a
  replacement and no founding record names this very root as the one to replace, the file keeps
  the root, and every later \<open>Check\<close> or \<open>Pin\<close> that succeeds is for this root: changing
  \<open>enbu.toml\<close> cannot point the device at another genesis.
\<close>

theorem trust_first_use:
  assumes "pin_root lib js env root False content = (content1, prev, Inr ())" and "trust_json_ok js"
    and "trust_run lib js ops content1 = (content2, rs)" and "list_all (\<lambda>(env, oper). unconfirmed root oper) ops"
  shows "pinned_in lib js content2 = Some root \<and> length rs = length ops
    \<and> (\<forall>j<length ops. rs ! j = Inr () \<longrightarrow> op_root (snd (ops ! j)) = root)"
proof -
  have "pinned_in lib js content1 = Some root"
    using assms(1,2) unfolding pin_root_def by (cases rule: trust_pin_cases) auto
  moreover have "root \<noteq> zero_root"
    using assms(1) by (auto simp: pin_root_def trust_pin_def zero_root_def)
  ultimately show ?thesis
    using unconfirmed_run [OF assms(3,2)] assms(4) by blast
qed

definition trust_sample_json :: trust_json where
  "trust_sample_json = \<lparr>tj_decode = (\<lambda>b. Some \<lparr>tf_version = 1, tf_root = \<lparr>rt_workspace = take 1 b, rt_genesis = drop 1 b\<rparr>\<rparr>),
     tj_encode = (\<lambda>f. if tf_version f = 1 \<and> length (rt_workspace (tf_root f)) = 1
                      then Some (rt_workspace (tf_root f) @ rt_genesis (tf_root f)) else None)\<rparr>"

lemma trust_sample_json_ok: "trust_json_ok trust_sample_json"
  by (auto simp: trust_json_ok_def trust_sample_json_def split: if_splits)

definition pinned_root :: root where
  "pinned_root = \<lparr>rt_workspace = ''w'', rt_genesis = genesis_digest\<rparr>"

definition other_root :: root where
  "other_root = \<lparr>rt_workspace = ''w'', rt_genesis = child_digest\<rparr>"

theorem trust_first_use_witness:
  "\<exists>content rs. pin_root sample_lib trust_sample_json calm pinned_root False None = (content, zero_root, Inr ())
     \<and> trust_run sample_lib trust_sample_json [(calm, OpCheck pinned_root), (calm, OpPin other_root False)] content = (content, rs)
     \<and> rs ! 0 = Inr () \<and> rs ! 1 \<noteq> Inr ()"
proof -
  let ?ops = "[(calm, OpCheck pinned_root), (calm, OpPin other_root False)]"
  let ?content = "Some (''w'' @ genesis_digest)"
  have neq: "other_root \<noteq> pinned_root" "pinned_root \<noteq> zero_root"
    using digests_differ by (auto simp: other_root_def pinned_root_def zero_root_def)
  have pin: "pin_root sample_lib trust_sample_json calm pinned_root False None = (?content, zero_root, Inr ())"
    by (simp add: pin_root_def trust_pin_def trust_pinned_def read_file_def lock_file_def zero_root_def Let_def
        trust_sample_json_def trust_root_version_def write_file_atomic_def calm_sel pinned_root_def wsp_valid_digest_def)
  have pinned: "trust_pinned sample_lib trust_sample_json calm ?content = Inr pinned_root"
    by (simp add: trust_pinned_def read_file_def trust_sample_json_def trust_root_version_def calm_sel pinned_root_def
        wsp_valid_digest_def)
  have "wsp_valid_digest sample_lib child_digest = Inr ()"
    by (simp add: wsp_valid_digest_def)
  then have "pin_root sample_lib trust_sample_json calm other_root False ?content =
      (?content, pinned_root, Inl (TrustRootChanged pinned_root other_root))"
    using neq pinned
    by (simp add: pin_root_def trust_pin_def lock_file_def calm_sel Let_def) (auto simp: other_root_def)
  then have run: "trust_run sample_lib trust_sample_json ?ops ?content =
      (?content, [Inr (), Inl (TrustRootChanged pinned_root other_root)])"
    using pinned by (simp add: trust_check_def)
  have "\<forall>j<length ?ops. [Inr (), Inl (TrustRootChanged pinned_root other_root)] ! j = Inr () \<longrightarrow> op_root (snd (?ops ! j)) = pinned_root"
    using trust_first_use [OF pin trust_sample_json_ok run] by simp
  with pin run show ?thesis by auto
qed

end
