(* ===== verification/Join.thy ===== *)
theory Join
  imports State_Props "HOL-Library.Sublist"
begin

text \<open>
  Requests to join a workspace or to change a recipient, \<open>pkg/wsp/join.go\<close>: making, verifying,
  publishing and listing them.
\<close>

record pending_request =
  pq_request :: join_request
  pq_rv :: digest

definition max_join_request_refs :: nat where "max_join_request_refs = max_request_refs"
definition max_join_request_bytes :: nat where "max_join_request_bytes = 32 * 2 ^ 20"

definition request_device :: "wsp_lib \<Rightarrow> join_request \<Rightarrow> string" where
  "request_device lib r = device_id (wl_crypto lib) (jr_signing r)"

definition new_request :: "wsp_lib \<Rightarrow> join_request \<Rightarrow> signer \<Rightarrow> wsp_error + bytes" where
  "new_request lib r sg =
     res_bind (marshal (wl_join lib) r) (\<lambda>body.
       res_bind (signer_sign sg domain_join body) (\<lambda>sig.
         encode_signed lib \<lparr>sd_body = body, sd_signature = sig\<rparr>))"

definition new_join_request :: "wsp_lib \<Rightarrow> string \<Rightarrow> string \<Rightarrow> int \<Rightarrow> signer \<Rightarrow> wsp_error + bytes" where
  "new_join_request lib ws recipient now sg =
     new_request lib \<lparr>jr_workspace = ws, jr_signing = sg_public sg, jr_recipient = recipient, jr_created_at = now,
       jr_replaces = []\<rparr> sg"

definition new_key_update_request ::
  "wsp_lib \<Rightarrow> string \<Rightarrow> string \<Rightarrow> string \<Rightarrow> int \<Rightarrow> signer \<Rightarrow> wsp_error + bytes" where
  "new_key_update_request lib ws recipient replaces now sg =
     (if replaces = [] \<or> replaces = recipient then Inl ErrInvalid
      else new_request lib \<lparr>jr_workspace = ws, jr_signing = sg_public sg, jr_recipient = recipient, jr_created_at = now,
        jr_replaces = replaces\<rparr> sg)"

definition verify_join_request :: "wsp_lib \<Rightarrow> string \<Rightarrow> bytes \<Rightarrow> wsp_error + join_request" where
  "verify_join_request lib ws blob =
     res_bind (decode_signed lib blob) (\<lambda>s.
       res_bind (decode_canonical (wl_join lib) (sd_body s)) (\<lambda>r.
         if jr_workspace r \<noteq> ws then Inl ErrInvalid
         else if key_validate (wl_crypto lib) (jr_signing r) \<noteq> Inr () then Inl ErrInvalid
         else if \<not> parse_recipient lib (jr_recipient r) then Inl ErrInvalid
         else if jr_replaces r \<noteq> [] \<and> jr_replaces r = jr_recipient r then Inl ErrInvalid
         else if jr_replaces r \<noteq> [] \<and> \<not> parse_recipient lib (jr_replaces r) then Inl ErrInvalid
         else if verify (wl_crypto lib) (jr_signing r) domain_join (sd_body s) (sd_signature s) \<noteq> Inr ()
         then Inl ErrInvalid else Inr r))"

definition publish_join_request ::
  "wsp_lib \<Rightarrow> 's store_ops \<Rightarrow> bytes \<Rightarrow> 's \<Rightarrow> 's \<times> digest \<times> (wsp_error + unit)" where
  "publish_join_request lib ops blob s =
     (let rv = dl_from_bytes (wl_digest lib) blob in
      case so_publish ops \<lparr>ob_kind = KindRequest, ob_scope = [], ob_rv = rv, ob_head = blob, ob_blobs = []\<rparr> s of
        (s', Inl e) \<Rightarrow> (s', rv, Inl (ErrStore e))
      | (s', Inr _) \<Rightarrow> (s', rv, Inr ()))"

fun list_requests_loop ::
  "wsp_lib \<Rightarrow> 's store_ops \<Rightarrow> string \<Rightarrow> digest list \<Rightarrow> nat \<Rightarrow> pending_request list \<Rightarrow> 's
    \<Rightarrow> 's \<times> (wsp_error + pending_request list)" where
  "list_requests_loop lib ops ws [] tot out s = (s, Inr out)"
| "list_requests_loop lib ops ws (rv # revs) tot out s =
     (case so_fetch_head ops KindRequest [] rv s of
        (s', Inl e) \<Rightarrow>
          if e = SNotFound \<or> e = SCorrupt then list_requests_loop lib ops ws revs tot out s'
          else (s', Inl (ErrStore e))
      | (s', Inr blob) \<Rightarrow>
          if tot + length blob > max_join_request_bytes then (s', Inl ErrInvalid)
          else (case verify_join_request lib ws blob of
                  Inl e \<Rightarrow> list_requests_loop lib ops ws revs (tot + length blob) out s'
                | Inr r \<Rightarrow>
                    list_requests_loop lib ops ws revs (tot + length blob) (out @ [\<lparr>pq_request = r, pq_rv = rv\<rparr>]) s'))"

definition list_join_requests ::
  "wsp_lib \<Rightarrow> 's store_ops \<Rightarrow> string \<Rightarrow> 's \<Rightarrow> 's \<times> (wsp_error + pending_request list)" where
  "list_join_requests lib ops ws s =
     (case so_discover ops KindRequest [] s of
        (s1, Inl e) \<Rightarrow> (s1, Inl (if e = SDiscoveryLimit then ErrInvalid else ErrStore e))
      | (s1, Inr revs) \<Rightarrow>
          if length revs > max_join_request_refs then (s1, Inl ErrInvalid)
          else list_requests_loop lib ops ws revs 0 [] s1)"

subsection \<open>What a request proves\<close>

definition request_ok :: "wsp_lib \<Rightarrow> string \<Rightarrow> bytes \<Rightarrow> join_request \<Rightarrow> bool" where
  "request_ok lib ws blob r \<longleftrightarrow> jr_workspace r = ws \<and> key_validate (wl_crypto lib) (jr_signing r) = Inr ()
     \<and> parse_recipient lib (jr_recipient r)
     \<and> (jr_replaces r = [] \<or> jr_replaces r \<noteq> jr_recipient r \<and> parse_recipient lib (jr_replaces r))
     \<and> (\<exists>sg. decode_signed lib blob = Inr sg \<and> decode_canonical (wl_join lib) (sd_body sg) = Inr r
          \<and> verify (wl_crypto lib) (jr_signing r) domain_join (sd_body sg) (sd_signature sg) = Inr ())"

lemma verify_join_request_iff: "verify_join_request lib ws blob = Inr r \<longleftrightarrow> request_ok lib ws blob r"
  by (auto simp: verify_join_request_def request_ok_def res_simps split: if_splits)

lemma list_requests_loop_spec:
  assumes "list_requests_loop lib ops ws revs tot out s = (s', Inr out')"
  shows "\<exists>more. out' = out @ more \<and> subseq (map pq_rv more) revs
    \<and> (\<forall>p\<in>set more. \<exists>blob. verify_join_request lib ws blob = Inr (pq_request p) \<and> length blob \<le> max_join_request_bytes - tot)"
  using assms
proof (induction lib ops ws revs tot out s rule: list_requests_loop.induct)
  case (2 lib ops ws rv revs tot out s)
  obtain s1 fr where f: "so_fetch_head ops KindRequest [] rv s = (s1, fr)" by fastforce
  show ?case
  proof (cases fr)
    case (Inl e)
    then have e: "e = SNotFound \<or> e = SCorrupt"
      using 2(4) f by (auto split: if_splits)
    with "2.IH"(1) [OF f [symmetric] Inl e] 2(4) f Inl obtain more where "out' = out @ more" "subseq (map pq_rv more) revs"
      "\<forall>p\<in>set more. \<exists>b. verify_join_request lib ws b = Inr (pq_request p) \<and> length b \<le> max_join_request_bytes - tot"
      by auto
    then show ?thesis by (intro exI [of _ more]) auto
  next
    case (Inr blob)
    then have tot: "\<not> tot + length blob > max_join_request_bytes"
      using 2(4) f by (auto split: if_splits)
    show ?thesis
    proof (cases "verify_join_request lib ws blob")
      case (Inl e)
      with "2.IH"(2) [OF f [symmetric] \<open>fr = Inr blob\<close> tot Inl] 2(4) f \<open>fr = Inr blob\<close> tot
      show ?thesis by fastforce
    next
      case v: (Inr r)
      with "2.IH"(3) [OF f [symmetric] Inr tot v] 2(4) f Inr tot
      obtain more where m: "out' = (out @ [\<lparr>pq_request = r, pq_rv = rv\<rparr>]) @ more" "subseq (map pq_rv more) revs"
        "\<forall>p\<in>set more. \<exists>b. verify_join_request lib ws b = Inr (pq_request p) \<and> length b \<le> max_join_request_bytes - (tot + length blob)"
        by auto
      show ?thesis
      proof (intro exI conjI)
        show "out' = out @ (\<lparr>pq_request = r, pq_rv = rv\<rparr> # more)" using m(1) by simp
        show "subseq (map pq_rv (\<lparr>pq_request = r, pq_rv = rv\<rparr> # more)) (rv # revs)" using m(2) by simp
        show "\<forall>p\<in>set (\<lparr>pq_request = r, pq_rv = rv\<rparr> # more).
            \<exists>blob. verify_join_request lib ws blob = Inr (pq_request p) \<and> length blob \<le> max_join_request_bytes - tot"
          using m(3) v tot by fastforce
      qed
    qed
  qed
qed simp

text \<open>
  C15: what a listed request proves.  Whatever the store lists and returns, every request
  \<open>ListJoinRequests\<close> gives is for this workspace, has a well-formed key and recipient, if it replaces
  a recipient then another well-formed one, and was signed, in the domain of requests, by the very
  key it names, so nobody can file a request for another device; the requests come in the order
  of the listing, no more of them than the budget of listed references.
\<close>

theorem join_requests_proven:
  assumes "list_join_requests lib ops ws s = (s', Inr out)"
  shows "(\<exists>s1 revs. so_discover ops KindRequest [] s = (s1, Inr revs) \<and> subseq (map pq_rv out) revs)
    \<and> length out \<le> max_join_request_refs
    \<and> (\<forall>p\<in>set out. \<exists>blob sg. length blob \<le> max_join_request_bytes \<and> decode_signed lib blob = Inr sg
         \<and> decode_canonical (wl_join lib) (sd_body sg) = Inr (pq_request p)
         \<and> verify (wl_crypto lib) (jr_signing (pq_request p)) domain_join (sd_body sg) (sd_signature sg) = Inr ()
         \<and> jr_workspace (pq_request p) = ws \<and> key_validate (wl_crypto lib) (jr_signing (pq_request p)) = Inr ()
         \<and> parse_recipient lib (jr_recipient (pq_request p))
         \<and> (jr_replaces (pq_request p) = [] \<or> jr_replaces (pq_request p) \<noteq> jr_recipient (pq_request p)
              \<and> parse_recipient lib (jr_replaces (pq_request p))))"
proof -
  obtain s1 revs where d: "so_discover ops KindRequest [] s = (s1, Inr revs)" "length revs \<le> max_join_request_refs"
    "list_requests_loop lib ops ws revs 0 [] s1 = (s', Inr out)"
    using assms by (auto simp: list_join_requests_def split: prod.splits sum.splits if_splits)
  note spec = list_requests_loop_spec [OF d(3)]
  then have sub: "subseq (map pq_rv out) revs" by auto
  then have len: "length out \<le> max_join_request_refs"
    using list_emb_length d(2) by fastforce
  have "\<exists>blob. length blob \<le> max_join_request_bytes \<and> request_ok lib ws blob (pq_request p)" if "p \<in> set out" for p
    using spec that by (auto simp: verify_join_request_iff)
  with sub len d(1) show ?thesis
    unfolding request_ok_def by blast
qed

text \<open>A store with one request.\<close>

definition request_blob :: bytes where "request_blob = sample_sig @ ''4''"

definition request_store :: "unit store_ops" where
  "request_store = sample_store\<lparr>so_discover := (\<lambda>k sc s. (s, Inr [child_digest])),
     so_fetch_head := (\<lambda>k sc rv s. (s, Inr request_blob))\<rparr>"

lemma sample_list_requests:
  "list_join_requests sample_lib request_store ''w'' () = ((), Inr [\<lparr>pq_request = sample_request, pq_rv = child_digest\<rparr>])"
proof -
  have len: "length request_blob = 65"
    by (simp add: request_blob_def)
  have req: "jr_signing sample_request = sample_key" "jr_workspace sample_request = ''w''"
    "jr_recipient sample_request = ''age1n''" "jr_replaces sample_request = ''age1r''"
    by (simp_all add: sample_request_def)
  have verify_join: "verify sample_crypto sample_key domain_join ''4'' sample_sig = Inr ()"
    by simp
  have "request_ok sample_lib ''w'' request_blob sample_request"
    using verify_join by (simp add: request_ok_def request_blob_def req)
      (simp add:  sample_lib_def one_codec_def decode_canonical_Inr parse_recipient_def has_prefix_def
        prefix_tag_def prefix_tag_hybrid_def prefix_hybrid_def key_validate_def sample_key_def alg_p256_def alg_ed25519_def)
  then have "verify_join_request sample_lib ''w'' request_blob = Inr sample_request"
    by (simp add: verify_join_request_iff)
  then show ?thesis
    by (simp add: list_join_requests_def request_store_def len max_join_request_refs_def max_request_refs_def
        max_join_request_bytes_def)
qed

theorem join_requests_proven_witness:
  "jr_workspace sample_request = ''w'' \<and> key_validate sample_crypto (jr_signing sample_request) = Inr ()"
  using join_requests_proven [OF sample_list_requests] by auto

end
