(* ===== verification/Text.thy ===== *)
theory Text
  imports Storage_Format
begin

text \<open>
  The functions of Go's \<open>strings\<close> and \<open>unicode/utf8\<close> that the rest uses, on bytes: cutting,
  trimming, well-formed UTF-8 (RFC 3629, as \<open>utf8.Valid\<close> checks it) and \<open>strings.TrimSpace\<close> with
  every Unicode white space.
\<close>

abbreviation (input) byte :: "nat \<Rightarrow> char" where
  "byte n \<equiv> char_of n"

definition newline :: char where "newline = CHR 0x0A"
definition tab :: char where "tab = CHR 0x09"
definition carriage_return :: char where "carriage_return = CHR 0x0D"
definition quote_char :: char where "quote_char = CHR 0x22"
definition backslash :: char where "backslash = CHR 0x5C"

definition code :: "char \<Rightarrow> nat" where
  "code c = of_char c"

text \<open>\<open>strings.Cut(s, c)\<close> for one character: what is before it and after it.\<close>

definition before :: "char \<Rightarrow> string \<Rightarrow> string" where
  "before c s = takeWhile (\<lambda>x. x \<noteq> c) s"

definition after :: "char \<Rightarrow> string \<Rightarrow> string" where
  "after c s = drop 1 (dropWhile (\<lambda>x. x \<noteq> c) s)"

definition trim_left :: "char list \<Rightarrow> string \<Rightarrow> string" where
  "trim_left cs s = dropWhile (\<lambda>x. x \<in> set cs) s"

definition trim_right :: "char list \<Rightarrow> string \<Rightarrow> string" where
  "trim_right cs s = rev (dropWhile (\<lambda>x. x \<in> set cs) (rev s))"

subsection \<open>UTF-8\<close>

definition continuation :: "char \<Rightarrow> bool" where
  "continuation c \<longleftrightarrow> 0x80 \<le> code c \<and> code c \<le> 0xBF"

definition in_range :: "nat \<Rightarrow> nat \<Rightarrow> char \<Rightarrow> bool" where
  "in_range lo hi c \<longleftrightarrow> lo \<le> code c \<and> code c \<le> hi"

text \<open>The length of the well-formed sequence at the start, 0 when there is none.\<close>

fun rune_len :: "bytes \<Rightarrow> nat" where
  "rune_len [] = 0"
| "rune_len (a # s) =
     (if code a < 0x80 then 1
      else if in_range 0xC2 0xDF a then (case s of b # _ \<Rightarrow> if continuation b then 2 else 0 | [] \<Rightarrow> 0)
      else if in_range 0xE0 0xEF a then
        (case s of
           b # c # _ \<Rightarrow>
             if (if code a = 0xE0 then in_range 0xA0 0xBF b else if code a = 0xED then in_range 0x80 0x9F b
                 else continuation b) \<and> continuation c then 3 else 0
         | _ \<Rightarrow> 0)
      else if in_range 0xF0 0xF4 a then
        (case s of
           b # c # d # _ \<Rightarrow>
             if (if code a = 0xF0 then in_range 0x90 0xBF b else if code a = 0xF4 then in_range 0x80 0x8F b
                 else continuation b) \<and> continuation c \<and> continuation d then 4 else 0
         | _ \<Rightarrow> 0)
      else 0)"

function utf8_valid :: "bytes \<Rightarrow> bool" where
  "utf8_valid s = (if s = [] then True else if rune_len s = 0 then False else utf8_valid (drop (rune_len s) s))"
  by pat_completeness auto
termination by (relation "measure length") auto

declare utf8_valid.simps [simp del]

subsection \<open>White space\<close>

definition ascii_space :: "char \<Rightarrow> bool" where
  "ascii_space c \<longleftrightarrow> code c \<in> {9, 10, 11, 12, 13, 32}"

text \<open>The bytes of the white space beyond ASCII (\<open>unicode.IsSpace\<close>).\<close>

fun wide_space :: "bytes \<Rightarrow> bool" where
  "wide_space [a, b] = (code a = 0xC2 \<and> code b \<in> {0x85, 0xA0})"
| "wide_space [a, b, c] =
     (code a = 0xE1 \<and> code b = 0x9A \<and> code c = 0x80
      \<or> code a = 0xE2 \<and> code b = 0x80 \<and> (0x80 \<le> code c \<and> code c \<le> 0x8A \<or> code c \<in> {0xA8, 0xA9, 0xAF})
      \<or> code a = 0xE2 \<and> code b = 0x81 \<and> code c = 0x9F
      \<or> code a = 0xE3 \<and> code b = 0x80 \<and> code c = 0x80)"
| "wide_space _ = False"

definition space_prefix :: "bytes \<Rightarrow> nat" where
  "space_prefix s =
     (if s = [] then 0 else if ascii_space (hd s) then 1
      else if wide_space (take 2 s) then 2 else if wide_space (take 3 s) then 3 else 0)"

text \<open>Trimming on the right looks at the same sequences backwards.\<close>

definition space_suffix :: "bytes \<Rightarrow> nat" where
  "space_suffix r =
     (if r = [] then 0 else if ascii_space (hd r) then 1
      else if wide_space (rev (take 2 r)) then 2 else if wide_space (rev (take 3 r)) then 3 else 0)"

function drop_space :: "(bytes \<Rightarrow> nat) \<Rightarrow> bytes \<Rightarrow> bytes" where
  "drop_space f s = (if s = [] \<or> f s = 0 then s else drop_space f (drop (f s) s))"
  by pat_completeness auto
termination by (relation "measure (\<lambda>(f, s). length s)") auto

declare drop_space.simps [simp del]

definition trim_space :: "string \<Rightarrow> string" where
  "trim_space s = rev (drop_space space_suffix (rev (drop_space space_prefix s)))"

subsection \<open>Facts\<close>

lemma code_of_byte [simp]: "n < 256 \<Longrightarrow> code (char_of (n :: nat)) = n"
  by (simp add: code_def)

lemma code_inject: "code a = code b \<longleftrightarrow> a = b"
  by (simp add: code_def)

lemma cut_append [simp]:
  assumes "c \<notin> set s"
  shows "before c (s @ c # t) = s" and "after c (s @ c # t) = t"
proof -
  have all: "\<forall>x\<in>set s. x \<noteq> c" using assms by blast
  then show "before c (s @ c # t) = s" "after c (s @ c # t) = t"
    unfolding before_def after_def
    by (simp_all add: takeWhile_append2 dropWhile_append2)
qed

lemma length_after: "length (after c s) \<le> length s - 1"
  using length_dropWhile_le [of "\<lambda>x. x \<noteq> c" s] by (simp add: after_def)

lemma trim_left_id [simp]: "hd s \<notin> set cs \<Longrightarrow> trim_left cs s = s"
  by (cases s) (auto simp: trim_left_def)

lemma trim_left_Nil [simp]: "trim_left cs [] = []"
  by (simp add: trim_left_def)

lemma length_trim_left: "length (trim_left cs s) \<le> length s"
  by (simp add: trim_left_def length_dropWhile_le)

lemma utf8_ascii: "code c < 0x80 \<Longrightarrow> utf8_valid (c # s) = utf8_valid s"
  by (subst utf8_valid.simps) simp

lemma utf8_ascii_append: "(\<forall>c\<in>set s. code c < 0x80) \<Longrightarrow> utf8_valid (s @ t) = utf8_valid t"
  by (induction s) (auto simp: utf8_ascii)

lemma utf8_Nil [simp]: "utf8_valid []"
  by (subst utf8_valid.simps) simp

lemma trim_space_id:
  assumes "s = [] \<or> (space_prefix s = 0 \<and> space_suffix (rev s) = 0)"
  shows "trim_space s = s"
proof -
  have id: "drop_space f t = t" if "t = [] \<or> f t = 0" for f t
    using that by (subst drop_space.simps) simp
  show ?thesis
    using assms id [of s space_prefix] id [of "rev s" space_suffix] by (auto simp: trim_space_def)
qed

end
