(* ===== verification/Dotenv.thy ===== *)
theory Dotenv
  imports Text
begin

text \<open>
  Secret maps and their dotenv form: \<open>pkg/schema/secretmap\<close> (\<open>Validate\<close>, \<open>ImportDotenv\<close>,
  \<open>ExportDotenv\<close>) and \<open>ToDotEnv\<close> of \<open>pkg/bundle\<close>.  A map is an association list with distinct keys.
\<close>

type_synonym secret_map = "(string, string) gomap"

datatype secretmap_error = ErrInvalidSecretMap | ErrInvalidDotenv | ErrNonCanonicalEncoding | ErrUnsupportedSchema

definition sm_max_payload_bytes :: nat where "sm_max_payload_bytes = 16 * 1024 * 1024"
definition max_entries :: nat where "max_entries = 4096"
definition max_key_bytes :: nat where "max_key_bytes = 1024"

text \<open>The loop of \<open>Validate\<close>, which keeps the running total below the bound.\<close>

fun secret_map_loop :: "secret_map \<Rightarrow> nat \<Rightarrow> secretmap_error + unit" where
  "secret_map_loop [] tot = Inr ()"
| "secret_map_loop ((k, v) # m) tot =
     (if k = [] \<or> length k > max_key_bytes \<or> \<not> utf8_valid k \<or> \<not> utf8_valid v then Inl ErrInvalidSecretMap
      else if length k > sm_max_payload_bytes - tot then Inl ErrInvalidSecretMap
      else if length v > sm_max_payload_bytes - (tot + length k) then Inl ErrInvalidSecretMap
      else secret_map_loop m (tot + length k + length v))"

definition secret_map_validate :: "secret_map \<Rightarrow> secretmap_error + unit" where
  "secret_map_validate m = (if length m > max_entries then Inl ErrInvalidSecretMap else secret_map_loop m 0)"

text \<open>\<open>^[A-Za-z_][A-Za-z0-9_]*$\<close>\<close>

definition name_start :: "char \<Rightarrow> bool" where
  "name_start c \<longleftrightarrow> in_range 65 90 c \<or> in_range 97 122 c \<or> code c = 95"

definition env_name_pattern :: "string \<Rightarrow> bool" where
  "env_name_pattern s \<longleftrightarrow> s \<noteq> [] \<and> name_start (hd s) \<and> list_all (\<lambda>c. name_start c \<or> in_range 48 57 c) (tl s)"

subsection \<open>Reading\<close>

definition unescape :: "char \<Rightarrow> char option" where
  "unescape c =
     (if c = CHR ''n'' then Some newline else if c = CHR ''r'' then Some carriage_return
      else if c = CHR ''t'' then Some tab
      else if c = backslash \<or> c = quote_char \<or> c = CHR ''$'' then Some c
      else None)"

text \<open>The loop of \<open>parseQuoted\<close> after the opening quote: the value and what follows the closing quote.\<close>

fun parse_quoted :: "char \<Rightarrow> string \<Rightarrow> (string \<times> string) option" where
  "parse_quoted q [] = None"
| "parse_quoted q (b # s) =
     (if b = q then Some ([], s)
      else if q = quote_char \<and> b = backslash then
        (case s of
           [] \<Rightarrow> None
         | e # s' \<Rightarrow>
             (case unescape e of
                None \<Rightarrow> None
              | Some c \<Rightarrow> map_option (\<lambda>(v, r). (c # v, r)) (parse_quoted q s')))
      else map_option (\<lambda>(v, r). (b # v, r)) (parse_quoted q s))"

text \<open>An unquoted value ends at a \<open>#\<close> at its start or after a blank.\<close>

fun strip_comment :: "char option \<Rightarrow> string \<Rightarrow> string" where
  "strip_comment prev [] = []"
| "strip_comment prev (c # s) =
     (if c = CHR ''#'' \<and> (case prev of None \<Rightarrow> True | Some p \<Rightarrow> p = CHR '' '' \<or> p = tab) then []
      else c # strip_comment (Some c) s)"

definition strip_export :: "string \<Rightarrow> string" where
  "strip_export s =
     (if has_prefix s ''export '' \<or> has_prefix s (''export'' @ [tab]) then trim_left [CHR '' '', tab] (drop 6 s) else s)"

text \<open>The value after \<open>=\<close> and the text after its line.\<close>

definition read_value :: "string \<Rightarrow> secretmap_error + string \<times> string" where
  "read_value s =
     (if s \<noteq> [] \<and> (hd s = CHR 0x27 \<or> hd s = quote_char) then
        (case parse_quoted (hd s) (tl s) of
           None \<Rightarrow> Inl ErrInvalidDotenv
         | Some (v, r) \<Rightarrow>
             let tail = trim_space (before newline r) in
             if tail \<noteq> [] \<and> hd tail \<noteq> CHR ''#'' then Inl ErrInvalidDotenv else Inr (v, after newline r))
      else Inr (trim_space (strip_comment None (before newline s)), after newline s))"

text \<open>One assignment at the start of the text: the key, the value and the rest.\<close>

definition read_assignment :: "string \<Rightarrow> secretmap_error + string \<times> string \<times> string" where
  "read_assignment s0 =
     (let s = strip_export s0; line = before newline s in
      if CHR ''='' \<notin> set line then Inl ErrInvalidDotenv
      else
        let key = trim_space (before (CHR ''='') line) in
        if length key > max_key_bytes \<or> \<not> env_name_pattern key then Inl ErrInvalidDotenv
        else res_bind (read_value (trim_left [CHR '' '', tab] (after (CHR ''='') s))) (\<lambda>(v, rest). Inr (key, v, rest)))"

lemma parse_quoted_length: "parse_quoted q s = Some (v, r) \<Longrightarrow> length r < length s"
proof (induction q s arbitrary: v r rule: parse_quoted.induct)
  case (2 q b s)
  consider "b = q" | "b \<noteq> q" "q = quote_char" "b = backslash" | "b \<noteq> q" "\<not> (q = quote_char \<and> b = backslash)" by blast
  then show ?case
  proof cases
    case 2: 2
    with "2.prems" obtain e s' c w where "s = e # s'" "unescape e = Some c" "parse_quoted q s' = Some (w, r)"
      by (auto split: list.splits option.splits)
    with "2.IH"(1) [of e s' c w r] 2 show ?thesis by simp
  next
    case 3
    with "2.prems" obtain w where "parse_quoted q s = Some (w, r)" by auto
    with "2.IH"(2) 3 show ?thesis by (simp add: less_SucI)
  qed (use "2.prems" in simp)
qed simp

lemma read_value_length: "read_value s = Inr (v, r) \<Longrightarrow> length r \<le> length s"
proof -
  assume a: "read_value s = Inr (v, r)"
  show ?thesis
  proof (cases "s \<noteq> [] \<and> (hd s = CHR 0x27 \<or> hd s = quote_char)")
    case True
    then obtain w u where p: "parse_quoted (hd s) (tl s) = Some (w, u)" and "r = after newline u"
      using a by (auto simp: read_value_def Let_def split: option.splits if_splits)
    then have "length r \<le> length u" using length_after [of newline u] by simp
    with parse_quoted_length [OF p] show ?thesis using True by (cases s) auto
  next
    case False
    with a have "r = after newline s" by (auto simp: read_value_def)
    with length_after [of newline s] show ?thesis by simp
  qed
qed

lemma read_assignment_length:
  assumes "read_assignment s = Inr (k, v, r)"
  shows "length r < length s"
proof -
  let ?s = "strip_export s"
  have "length ?s \<le> length s"
    using length_trim_left [of "[CHR '' '', tab]" "drop 6 s"] by (auto simp: strip_export_def)
  moreover obtain rest where eq: "CHR ''='' \<in> set (before newline ?s)"
    and v: "read_value (trim_left [CHR '' '', tab] (after (CHR ''='') ?s)) = Inr (v, r)"
    using assms by (auto simp: read_assignment_def Let_def res_simps split: if_splits)
  then have "?s \<noteq> []" by (auto simp: before_def)
  moreover have "length r \<le> length (after (CHR ''='') ?s)"
    using read_value_length [OF v] length_trim_left [of "[CHR '' '', tab]" "after (CHR ''='') ?s"] by simp
  moreover have "length (after (CHR ''='') ?s) \<le> length ?s - 1"
    by (rule length_after)
  ultimately show ?thesis
    by (cases ?s) auto
qed

text \<open>The white space between the lines: blanks, tabs and line ends.\<close>

definition line_space :: "char list" where
  "line_space = [CHR '' '', tab, carriage_return, newline]"

function import_loop :: "string \<Rightarrow> secret_map \<Rightarrow> secretmap_error + secret_map" where
  "import_loop rest0 secrets =
     (let rest = trim_left line_space rest0 in
      if rest = [] then Inr secrets
      else if hd rest = CHR ''#'' then import_loop (after newline rest) secrets
      else case read_assignment rest of
        Inl e \<Rightarrow> Inl e
      | Inr (key, value, rest') \<Rightarrow>
          if gm_has secrets key then Inl ErrInvalidDotenv
          else let secrets' = gm_put key value secrets in
            if length secrets' > max_entries then Inl ErrInvalidSecretMap else import_loop rest' secrets')"
  by pat_completeness auto
termination
proof (relation "measure (\<lambda>(rest, secrets). length rest)", goal_cases)
  case (2 rest0 secrets rest)
  then have "length rest > 0" by simp
  then have "length (after newline rest) < length rest"
    using length_after [of newline rest] by linarith
  with 2 length_trim_left [of line_space rest0] show ?case by simp
next
  case (3 rest0 secrets rest x key y v rest' secrets')
  then have "length rest' < length rest" by (auto dest: read_assignment_length)
  with 3 length_trim_left [of line_space rest0] show ?case by simp
qed simp

declare import_loop.simps [simp del]

definition byte_order_mark :: string where
  "byte_order_mark = [CHR 0xEF, CHR 0xBB, CHR 0xBF]"

definition import_dotenv :: "bytes \<Rightarrow> secretmap_error + secret_map" where
  "import_dotenv data =
     (if length data > sm_max_payload_bytes \<or> \<not> utf8_valid data \<or> CHR 0x00 \<in> set data then Inl ErrInvalidDotenv
      else
        let rest = (if has_prefix data byte_order_mark then drop 3 data else data) in
        res_bind (import_loop rest []) (\<lambda>secrets.
          res_bind (secret_map_validate secrets) (\<lambda>_. Inr secrets)))"

subsection \<open>Writing\<close>

text \<open>The replacer of \<open>ExportDotenv\<close>, character by character.\<close>

definition export_escape_char :: "char \<Rightarrow> string" where
  "export_escape_char c =
     (if c = backslash then [backslash, backslash] else if c = quote_char then [backslash, quote_char]
      else if c = newline then [backslash, CHR ''n''] else if c = carriage_return then [backslash, CHR ''r'']
      else if c = tab then [backslash, CHR ''t''] else if c = CHR ''$'' then [backslash, CHR ''$'']
      else [c])"

definition export_escape :: "string \<Rightarrow> string" where
  "export_escape s = concat (map export_escape_char s)"

definition dotenv_line :: "string \<Rightarrow> string \<Rightarrow> string" where
  "dotenv_line key escaped = key @ ''='' @ [quote_char] @ escaped @ [quote_char, newline]"

fun export_loop :: "secret_map \<Rightarrow> string list \<Rightarrow> string \<Rightarrow> secretmap_error + bytes" where
  "export_loop m [] out = Inr out"
| "export_loop m (key # keys) out =
     (let out' = out @ dotenv_line key (export_escape (case gm_get m key of None \<Rightarrow> [] | Some v \<Rightarrow> v)) in
      if length out' > sm_max_payload_bytes then Inl ErrInvalidDotenv else export_loop m keys out')"

definition export_dotenv :: "secret_map \<Rightarrow> secretmap_error + bytes" where
  "export_dotenv m =
     res_bind (secret_map_validate m) (\<lambda>_.
       if \<not> list_all (\<lambda>(k, v). env_name_pattern k \<and> CHR 0x00 \<notin> set v) m then Inl ErrInvalidDotenv
       else export_loop m (sort (map fst m)) [])"

text \<open>\<open>ToDotEnv\<close>: each \<open>ReplaceAll\<close> in turn, no other check on a key than a line end.\<close>

definition replace_char :: "char \<Rightarrow> string \<Rightarrow> string \<Rightarrow> string" where
  "replace_char c new s = concat (map (\<lambda>x. if x = c then new else [x]) s)"

definition bundle_escape :: "string \<Rightarrow> string" where
  "bundle_escape s =
     replace_char carriage_return [backslash, CHR ''r'']
       (replace_char newline [backslash, CHR ''n'']
         (replace_char quote_char [backslash, quote_char]
           (replace_char backslash [backslash, backslash] s)))"

fun to_dot_env_loop :: "secret_map \<Rightarrow> string list \<Rightarrow> string \<Rightarrow> bytes option" where
  "to_dot_env_loop m [] out = Some out"
| "to_dot_env_loop m (key # keys) out =
     (if newline \<in> set key \<or> carriage_return \<in> set key then None
      else to_dot_env_loop m keys (out @ dotenv_line key (bundle_escape (case gm_get m key of None \<Rightarrow> [] | Some v \<Rightarrow> v))))"

definition to_dot_env :: "secret_map \<Rightarrow> bytes option" where
  "to_dot_env m = to_dot_env_loop m (sort (map fst m)) []"

end
