(* ===== verification/Dotenv_Props.thy ===== *)
theory Dotenv_Props
  imports Dotenv
begin

text \<open>Round trips of the two dotenv writers through the reader, and where they do not round trip.\<close>

named_theorems dotenv_chars \<open>the special characters are different from each other and from letters\<close>

lemma special_chars [dotenv_chars]:
  "newline = CHR 0x0A" "tab = CHR 0x09" "carriage_return = CHR 0x0D" "quote_char = CHR 0x22" "backslash = CHR 0x5C"
  by (simp_all add: newline_def tab_def carriage_return_def quote_char_def backslash_def)

subsection \<open>Names\<close>

lemma name_char_code: "name_start c \<or> in_range 48 57 c \<Longrightarrow> 48 \<le> code c \<and> code c < 0x80 \<and> code c \<noteq> 61"
  by (auto simp: name_start_def in_range_def)

lemma env_name_chars: "env_name_pattern k \<Longrightarrow> c \<in> set k \<Longrightarrow> 48 \<le> code c \<and> code c < 0x80 \<and> code c \<noteq> 61"
  using name_char_code by (cases k) (auto simp: env_name_pattern_def list_all_iff)

lemma env_name_hd: "env_name_pattern k \<Longrightarrow> k \<noteq> [] \<and> name_start (hd k)"
  by (simp add: env_name_pattern_def)

lemma low_not_in_name: "env_name_pattern k \<Longrightarrow> code c < 48 \<or> code c = 61 \<Longrightarrow> c \<notin> set k"
  using env_name_chars by fastforce

lemma code_literals:
  "code newline = 10" "code tab = 9" "code carriage_return = 13" "code quote_char = 34" "code backslash = 92"
  "code (CHR ''='') = 61" "code (CHR ''#'') = 35" "code (CHR '' '') = 32" "code (CHR ''$'') = 36"
  "code (CHR 0x27) = 39" "code (CHR 0x00) = 0" "code (CHR ''n'') = 110" "code (CHR ''r'') = 114" "code (CHR ''t'') = 116"
  by (simp_all add: code_def dotenv_chars)

lemma name_no_wide: "code c < 0x80 \<Longrightarrow> \<not> wide_space (c # s)" "code c < 0x80 \<Longrightarrow> \<not> wide_space (s @ [c])"
  by (cases "c # s" rule: wide_space.cases; auto) (cases "s @ [c]" rule: wide_space.cases; auto)

lemma trim_space_name:
  assumes "env_name_pattern k"
  shows "trim_space k = k"
proof (rule trim_space_id)
  have k: "k \<noteq> []" using assms by (simp add: env_name_pattern_def)
  have ascii: "\<not> ascii_space c" "code c < 0x80" if "c \<in> set k" for c
    using env_name_chars [OF assms that] by (auto simp: ascii_space_def)
  have hd: "take n k = hd k # tl (take n k)" if "n > 0" for n
    using k that by (cases k; cases n) auto
  have last: "rev (take n (rev k)) = rev (tl (take n (rev k))) @ [last k]" if "n > 0" for n
    using k that by (cases "rev k"; cases n) (auto simp: last_rev hd_rev dest: arg_cong [of _ _ hd] arg_cong [of _ _ rev])
  have no_hd: "\<not> wide_space (take n k)" if "n > 0" for n
    using hd [OF that] ascii(2) [of "hd k"] name_no_wide(1) k hd_in_set by metis
  have no_last: "\<not> wide_space (rev (take n (rev k)))" if "n > 0" for n
    using last [OF that] ascii(2) [of "last k"] name_no_wide(2) k last_in_set by metis
  have "space_prefix k = 0"
    using k ascii(1) [of "hd k"] no_hd by (simp add: space_prefix_def)
  moreover have "space_suffix (rev k) = 0"
    using k ascii(1) [of "last k"] no_last by (simp add: space_suffix_def hd_rev)
  ultimately show "k = [] \<or> space_prefix k = 0 \<and> space_suffix (rev k) = 0" by simp
qed

lemma name_not_export:
  assumes "env_name_pattern k" and "code c < 48"
  shows "\<not> has_prefix (k @ CHR ''='' # s) (''export'' @ [c])"
proof
  let ?s = "k @ CHR ''='' # s"
  assume "has_prefix ?s (''export'' @ [c])"
  moreover have "length (''export'' @ [c]) = 7" by simp
  ultimately have p: "take 7 ?s = ''export'' @ [c]" by (simp only: has_prefix_def)
  then have nth: "?s ! i = (''export'' @ [c]) ! i" if "i < 7" for i
    using that by (metis nth_take)
  consider "length k < 6" | "length k = 6" | "length k > 6" by linarith
  then show False
  proof cases
    case 1
    then have "(''export'' @ [c]) ! length k = CHR ''=''"
      using nth [of "length k"] by (simp add: nth_append)
    moreover have "length k = 0 \<or> length k = 1 \<or> length k = 2 \<or> length k = 3 \<or> length k = 4 \<or> length k = 5"
      using 1 by linarith
    ultimately show False by auto
  next
    case 2
    then have "CHR ''='' = c" using nth [of 6] by (simp add: nth_append)
    with assms(2) show False by (auto simp: code_def)
  next
    case 3
    then have "k ! 6 = c" using nth [of 6] by (simp add: nth_append)
    then have "c \<in> set k" using 3 by (metis nth_mem)
    with low_not_in_name [OF assms(1)] assms(2) show False by blast
  qed
qed

subsection \<open>One line\<close>

lemma read_assignment_line:
  assumes "env_name_pattern k" and "length k \<le> max_key_bytes"
    and "\<And>s. parse_quoted quote_char (escaped @ quote_char # s) = Some (v, s)"
  shows "read_assignment (dotenv_line k escaped @ rest) = Inr (k, v, rest)"
proof -
  let ?tail = "quote_char # escaped @ [quote_char, newline] @ rest"
  have line: "dotenv_line k escaped @ rest = k @ CHR ''='' # ?tail"
    by (simp add: dotenv_line_def)
  have "newline \<notin> set k" "CHR ''='' \<notin> set k"
    using low_not_in_name [OF assms(1)] code_literals by (metis less_numeral_extra(1) numeral_less_iff semiring_norm)+
  moreover have cut: "takeWhile (\<lambda>x. x \<noteq> c) (k @ t) = k @ takeWhile (\<lambda>x. x \<noteq> c) t"
      "dropWhile (\<lambda>x. x \<noteq> c) (k @ t) = dropWhile (\<lambda>x. x \<noteq> c) t" if "c \<notin> set k" for c t
    using that by (auto intro: takeWhile_append2 dropWhile_append2)
  ultimately have nl: "before newline (k @ CHR ''='' # ?tail) = k @ CHR ''='' # before newline ?tail"
    and eq: "before (CHR ''='') (k @ CHR ''='' # t) = k" "after (CHR ''='') (k @ CHR ''='' # t) = t" for t
    by (simp_all add: before_def after_def cut) (simp add: special_chars)
  have strip: "strip_export (k @ CHR ''='' # ?tail) = k @ CHR ''='' # ?tail"
    using name_not_export [OF assms(1), of "CHR '' ''" ?tail] name_not_export [OF assms(1), of tab ?tail]
    by (simp add: strip_export_def code_literals)
  have "trim_left [CHR '' '', tab] ?tail = ?tail"
    by (rule trim_left_id) (simp add: special_chars)
  moreover have "read_value ?tail = Inr (v, rest)"
    using assms(3) [of "newline # rest"]
    by (simp add: read_value_def before_def after_def trim_space_id)
  moreover have "trim_space k = k" "\<not> length k > max_key_bytes"
    using trim_space_name assms(1,2) by simp_all
  ultimately show ?thesis
    unfolding line read_assignment_def strip Let_def nl eq
    using assms(1) by simp
qed

lemma import_loop_line:
  assumes "env_name_pattern k" and "length k \<le> max_key_bytes"
    and "\<And>s. parse_quoted quote_char (escaped @ quote_char # s) = Some (v, s)"
    and "\<not> gm_has m k" and "length (gm_put k v m) \<le> max_entries"
  shows "import_loop (dotenv_line k escaped @ rest) m = import_loop rest (gm_put k v m)"
proof -
  let ?s = "dotenv_line k escaped @ rest"
  have hd: "hd ?s = hd k" "dotenv_line k escaped \<noteq> []" and k: "hd k \<in> set k"
    using env_name_hd [OF assms(1)] by (simp_all add: dotenv_line_def)
  then have "code (hd k) \<ge> 48"
    using env_name_chars [OF assms(1)] by blast
  then have "trim_left line_space ?s = ?s" "hd k \<noteq> CHR ''#''"
    unfolding hd(1) using hd by (auto intro!: trim_left_id simp: line_space_def hd(1)) (auto simp: code_def special_chars)
  then show ?thesis
    using read_assignment_line [OF assms(1-3), of rest] hd assms(4,5)
    by (subst import_loop.simps) (simp add: Let_def)
qed

subsection \<open>Escaping\<close>

definition bundle_escape_char :: "char \<Rightarrow> string" where
  "bundle_escape_char c =
     (if c = backslash then [backslash, backslash] else if c = quote_char then [backslash, quote_char]
      else if c = newline then [backslash, CHR ''n''] else if c = carriage_return then [backslash, CHR ''r'']
      else [c])"

lemma replace_char_append: "replace_char c new (s @ t) = replace_char c new s @ replace_char c new t"
  by (simp add: replace_char_def)

lemma replace_char_Cons: "replace_char c new (x # s) = (if x = c then new else [x]) @ replace_char c new s"
  by (simp add: replace_char_def)

lemma replace_char_Nil: "replace_char c new [] = []"
  by (simp add: replace_char_def)

lemma bundle_escape_chars: "bundle_escape s = concat (map bundle_escape_char s)"
  by (induction s)
    (simp_all add: bundle_escape_def replace_char_Nil replace_char_Cons replace_char_append bundle_escape_char_def special_chars)

text \<open>A character that \<open>parse_quoted\<close> reads back from its escape.\<close>

definition escapes :: "(char \<Rightarrow> string) \<Rightarrow> bool" where
  "escapes f \<longleftrightarrow> (\<forall>c. f c = [c] \<and> c \<noteq> quote_char \<and> c \<noteq> backslash
      \<or> (\<exists>e. f c = [backslash, e] \<and> unescape e = Some c \<and> code e < 0x80 \<and> code c < 0x80 \<and> e \<noteq> CHR 0x00))"

lemma escapes_chars: "escapes export_escape_char" "escapes bundle_escape_char"
proof -
  have "export_escape_char c = [c] \<and> c \<noteq> quote_char \<and> c \<noteq> backslash
      \<or> (\<exists>e. export_escape_char c = [backslash, e] \<and> unescape e = Some c \<and> code e < 0x80 \<and> code c < 0x80 \<and> e \<noteq> CHR 0x00)" for c
    by (simp add: export_escape_char_def unescape_def special_chars code_def)
  then show "escapes export_escape_char" unfolding escapes_def by blast
  have "bundle_escape_char c = [c] \<and> c \<noteq> quote_char \<and> c \<noteq> backslash
      \<or> (\<exists>e. bundle_escape_char c = [backslash, e] \<and> unescape e = Some c \<and> code e < 0x80 \<and> code c < 0x80 \<and> e \<noteq> CHR 0x00)" for c
    by (simp add: bundle_escape_char_def unescape_def special_chars code_def)
  then show "escapes bundle_escape_char" unfolding escapes_def by blast
qed

lemma parse_escaped:
  "escapes f \<Longrightarrow> parse_quoted quote_char (concat (map f v) @ quote_char # s) = Some (v, s)"
proof (induction v)
  case (Cons c v)
  have bq: "backslash \<noteq> quote_char" by (simp add: special_chars)
  from Cons consider "f c = [c]" "c \<noteq> quote_char" "c \<noteq> backslash"
    | e where "f c = [backslash, e]" "unescape e = Some c"
    unfolding escapes_def by blast
  then show ?case
    by cases (use Cons bq in auto)
qed simp

subsection \<open>UTF-8 under escaping\<close>

lemma rune_len_cases:
  assumes "rune_len s \<noteq> 0"
  obtains u t where "s = u @ t" and "length u = rune_len s" and "\<And>t'. rune_len (u @ t') = rune_len s"
    and "(\<exists>c. u = [c] \<and> code c < 0x80) \<or> length u \<noteq> 1 \<and> (\<forall>c\<in>set u. 0x80 \<le> code c)"
proof -
  obtain a s1 where s: "s = a # s1" using assms by (cases s) auto
  consider "code a < 0x80" | "\<not> code a < 0x80" "in_range 0xC2 0xDF a"
    | "\<not> code a < 0x80" "\<not> in_range 0xC2 0xDF a" "in_range 0xE0 0xEF a"
    | "\<not> code a < 0x80" "\<not> in_range 0xC2 0xDF a" "\<not> in_range 0xE0 0xEF a" "in_range 0xF0 0xF4 a"
    using assms s by (auto split: if_splits)
  then show thesis
  proof cases
    case 1
    then show thesis using s by (intro that [of "[a]" s1]) auto
  next
    case 2
    then obtain b s2 where "s1 = b # s2" "continuation b"
      using assms s by (cases s1) (auto split: if_splits)
    with 2 s show thesis by (intro that [of "[a, b]" s2]) (auto simp: continuation_def)
  next
    case 3
    then obtain b s2 where s1: "s1 = b # s2"
      using assms s by (cases s1) auto
    with 3 obtain c s3 where s2: "s2 = c # s3"
      using assms s by (cases s2) auto
    let ?ok = "(if code a = 0xE0 then in_range 0xA0 0xBF b else if code a = 0xED then in_range 0x80 0x9F b
        else continuation b) \<and> continuation c"
    have ok: "?ok" using assms 3 by (simp add: s s1 s2 split: if_splits)
    then have "0x80 \<le> code b" "0x80 \<le> code c"
      by (auto simp: in_range_def continuation_def split: if_splits)
    then show thesis
      using 3 ok s s1 s2 by (intro that [of "[a, b, c]" s3]) simp_all
  next
    case 4
    then obtain b s2 where s1: "s1 = b # s2"
      using assms s by (cases s1) auto
    with 4 obtain c s3 where s2: "s2 = c # s3"
      using assms s by (cases s2) auto
    with 4 s1 obtain d s4 where s3: "s3 = d # s4"
      using assms s by (cases s3) auto
    let ?ok = "(if code a = 0xF0 then in_range 0x90 0xBF b else if code a = 0xF4 then in_range 0x80 0x8F b
        else continuation b) \<and> continuation c \<and> continuation d"
    have ok: "?ok" using assms 4 by (simp add: s s1 s2 s3 split: if_splits)
    then have "0x80 \<le> code b" "0x80 \<le> code c" "0x80 \<le> code d"
      by (auto simp: in_range_def continuation_def split: if_splits)
    then show thesis
      using 4 ok s s1 s2 s3 by (intro that [of "[a, b, c, d]" s4]) simp_all
  qed
qed

lemma utf8_step:
  assumes "u \<noteq> []" and "length u = rune_len (u @ t)"
  shows "utf8_valid (u @ t) = utf8_valid t"
  using assms by (subst utf8_valid.simps) (simp flip: assms(2))

lemma utf8_mapped:
  assumes "\<And>c. if code c < 0x80 then \<forall>d\<in>set (f c). code d < 0x80 else f c = [c]" and "utf8_valid s"
  shows "utf8_valid (concat (map f s) @ t) = utf8_valid t"
  using assms(2)
proof (induction s rule: utf8_valid.induct)
  case (1 s)
  show ?case
  proof (cases "s = []")
    case False
    then have r: "rune_len s \<noteq> 0" and v: "utf8_valid (drop (rune_len s) s)"
      using "1.prems" by (subst (asm) utf8_valid.simps, simp split: if_splits)+
    note IH = "1.IH" [OF False r v]
    obtain u w where s: "s = u @ w" "length u = rune_len s" "\<And>t'. rune_len (u @ t') = rune_len s"
      and u: "(\<exists>c. u = [c] \<and> code c < 0x80) \<or> length u \<noteq> 1 \<and> (\<forall>c\<in>set u. 0x80 \<le> code c)"
      using rune_len_cases [OF r] by metis
    have w: "drop (rune_len s) s = w"
      using s(1,2) by (metis append_eq_conv_conj)
    have "utf8_valid (concat (map f u) @ t') = utf8_valid t'" for t'
      using u
    proof
      assume "\<exists>c. u = [c] \<and> code c < 0x80"
      then obtain c where c: "u = [c]" "code c < 0x80" by blast
      have "\<forall>d\<in>set (f c). code d < 0x80"
        using assms(1) [of c] c(2) by simp
      then show ?thesis
        using utf8_ascii_append [of "f c"] by (simp add: c(1))
    next
      assume "length u \<noteq> 1 \<and> (\<forall>c\<in>set u. 0x80 \<le> code c)"
      then have "\<forall>c\<in>set u. f c = [c]"
        using assms(1) by (metis not_less)
      then have "map f u = map (\<lambda>c. [c]) u"
        by simp
      then have "concat (map f u) = u"
        by (simp only: concat_map_singleton map_ident)
      moreover have "u \<noteq> []" using s(2) r by auto
      ultimately show ?thesis
        using utf8_step [of u t'] s(2,3) by simp
    qed
    then show ?thesis
      using IH by (simp add: w) (simp add: s(1))
  qed simp
qed

lemma utf8_escaped:
  assumes "escapes f" and "utf8_valid s"
  shows "utf8_valid (concat (map f s) @ t) = utf8_valid t"
proof (rule utf8_mapped [OF _ assms(2)])
  fix c
  have "code backslash < 0x80" by (simp add: code_literals)
  then show "if code c < 0x80 then \<forall>d\<in>set (f c). code d < 0x80 else f c = [c]"
    using assms(1) unfolding escapes_def by (metis empty_iff insert_iff list.set(1) list.set(2))
qed

lemma utf8_append: "utf8_valid s \<Longrightarrow> utf8_valid (s @ t) = utf8_valid t"
  using utf8_mapped [of "\<lambda>c. [c]" s t] by simp

lemma utf8_line:
  assumes "escapes f" and "env_name_pattern k" and "utf8_valid v"
  shows "utf8_valid (dotenv_line k (concat (map f v)) @ t) = utf8_valid t"
proof -
  have "utf8_valid (k @ u) = utf8_valid u" for u
    using env_name_chars [OF assms(2)] by (intro utf8_ascii_append) simp
  then show ?thesis
    using utf8_escaped [OF assms(1,3)] by (simp add: dotenv_line_def utf8_ascii code_literals)
qed

lemma no_nul_line:
  assumes "escapes f" and "env_name_pattern k" and "CHR 0x00 \<notin> set v"
  shows "CHR 0x00 \<notin> set (dotenv_line k (concat (map f v)))"
proof -
  have "CHR 0x00 \<notin> set k"
    using low_not_in_name [OF assms(2)] by (simp add: code_literals)
  moreover have "CHR 0x00 \<notin> set (f c)" if "c \<in> set v" for c
  proof -
    have "c \<noteq> CHR 0x00" using that assms(3) by blast
    moreover have "backslash \<noteq> CHR 0x00" by (simp add: special_chars)
    ultimately show ?thesis
      using assms(1) unfolding escapes_def by (metis empty_iff insert_iff list.set(1) list.set(2))
  qed
  ultimately show ?thesis
    by (auto simp: dotenv_line_def special_chars)
qed

subsection \<open>Round trips\<close>

definition dotenv_text :: "(char \<Rightarrow> string) \<Rightarrow> secret_map \<Rightarrow> string" where
  "dotenv_text f kvs = concat (map (\<lambda>(k, v). dotenv_line k (concat (map f v))) kvs)"

text \<open>The entries in the order a writer lists them.\<close>

definition sorted_entries :: "secret_map \<Rightarrow> secret_map" where
  "sorted_entries m = map (\<lambda>k. (k, case gm_get m k of None \<Rightarrow> [] | Some v \<Rightarrow> v)) (sort (map fst m))"

text \<open>White space after the text changes nothing.\<close>

lemma trim_left_all: "set w \<subseteq> set cs \<Longrightarrow> trim_left cs w = []"
  by (auto simp: trim_left_def dropWhile_eq_Nil_conv)

lemma import_text:
  assumes "escapes f" and "set w \<subseteq> set line_space" and "distinct (map fst (m @ kvs))" and "length (m @ kvs) \<le> max_entries"
    and "\<forall>(k, v)\<in>set kvs. env_name_pattern k \<and> length k \<le> max_key_bytes"
  shows "import_loop (dotenv_text f kvs @ w) m = Inr (m @ kvs)"
  using assms(3-5)
proof (induction kvs arbitrary: m)
  case Nil
  show ?case by (subst import_loop.simps) (simp add: dotenv_text_def trim_left_all [OF assms(2)])
next
  case (Cons kv kvs)
  obtain k v where kv: "kv = (k, v)" by fastforce
  have k: "env_name_pattern k" "length k \<le> max_key_bytes" "k \<notin> fst ` set m"
    using Cons.prems kv by auto
  then have put: "gm_put k v m = m @ [(k, v)]" by (simp add: gm_put_fresh)
  have "dotenv_text f (kv # kvs) @ w = dotenv_line k (concat (map f v)) @ dotenv_text f kvs @ w"
    by (simp add: dotenv_text_def kv)
  also have "import_loop \<dots> m = import_loop (dotenv_text f kvs @ w) (gm_put k v m)"
    using k Cons.prems(2) by (intro import_loop_line parse_escaped [OF assms(1)]) (auto simp: gm_has_iff put)
  also have "\<dots> = Inr ((m @ [(k, v)]) @ kvs)"
    unfolding put using Cons.prems kv by (intro Cons.IH) auto
  finally show ?case by (simp add: kv)
qed

lemma secret_map_loop_iff:
  "tot \<le> sm_max_payload_bytes \<Longrightarrow> secret_map_loop m tot = Inr () \<longleftrightarrow>
     (\<forall>(k, v)\<in>set m. k \<noteq> [] \<and> length k \<le> max_key_bytes \<and> utf8_valid k \<and> utf8_valid v)
     \<and> tot + sum_list (map (\<lambda>(k, v). length k + length v) m) \<le> sm_max_payload_bytes"
proof (induction m tot rule: secret_map_loop.induct)
  case (2 k v m tot)
  show ?case
  proof (cases "k \<noteq> [] \<and> length k \<le> max_key_bytes \<and> utf8_valid k \<and> utf8_valid v \<and>
      tot + length k + length v \<le> sm_max_payload_bytes")
    case True
    then have c: "\<not> sm_max_payload_bytes - tot < length k" "\<not> sm_max_payload_bytes - (tot + length k) < length v"
      by linarith+
    with True have "secret_map_loop ((k, v) # m) tot = secret_map_loop m (tot + length k + length v)" by simp
    moreover have "\<not> (k = [] \<or> max_key_bytes < length k \<or> \<not> utf8_valid k \<or> \<not> utf8_valid v)"
      using True by auto
    note "2.IH" [OF this c]
    ultimately show ?thesis
      using True by (simp add: add.assoc)
  next
    case False
    moreover have "0 \<le> sum_list (map (\<lambda>(k, v). length k + length v) m)" by simp
    ultimately show ?thesis
      using "2.prems" by (simp, linarith)
  qed
qed simp

lemma validate_perm:
  assumes "mset m = mset m'"
  shows "secret_map_validate m = Inr () \<longleftrightarrow> secret_map_validate m' = Inr ()"
proof -
  have "set m = set m'" "length m = length m'" "sum_list (map h m) = sum_list (map h m')" for h :: "string \<times> string \<Rightarrow> nat"
    using assms by (metis mset_eq_setD, metis mset_eq_length, metis mset_map sum_mset_sum_list)
  then show ?thesis
    by (simp add: secret_map_validate_def secret_map_loop_iff)
qed

lemma sorted_entries_perm:
  assumes "gm_ok m"
  shows "mset (sorted_entries m) = mset m" and "gm_ok (sorted_entries m)" and "gm_get (sorted_entries m) = gm_get m"
proof -
  let ?h = "\<lambda>k. (k, case gm_get m k of None \<Rightarrow> [] | Some v \<Rightarrow> v)"
  have h: "map ?h (map fst m) = m"
    using assms by (auto simp: gm_get_def intro!: map_idI split: option.splits dest: map_of_is_SomeI)
  have "mset (sorted_entries m) = mset (map ?h (map fst m))"
    by (simp only: sorted_entries_def mset_map mset_sort)
  then show *: "mset (sorted_entries m) = mset m"
    by (simp only: h)
  show ok: "gm_ok (sorted_entries m)"
    using assms by (simp add: sorted_entries_def comp_def)
  have "set (sorted_entries m) = set m"
    using * mset_eq_setD by blast
  then show "gm_get (sorted_entries m) = gm_get m"
    using map_of_inject_set [OF ok assms] by (simp add: gm_get_is_map_of)
qed

lemma import_written:
  assumes "escapes f" and "gm_ok m" and "secret_map_validate m = Inr ()"
    and "\<forall>(k, v)\<in>set m. env_name_pattern k \<and> CHR 0x00 \<notin> set v"
    and "length (dotenv_text f (sorted_entries m) @ w) \<le> sm_max_payload_bytes" and "set w \<subseteq> set line_space"
  shows "import_dotenv (dotenv_text f (sorted_entries m) @ w) = Inr (sorted_entries m)"
proof -
  let ?kvs = "sorted_entries m" and ?out = "dotenv_text f (sorted_entries m) @ w"
  note perm = sorted_entries_perm [OF assms(2)]
  have set: "set ?kvs = set m" and len: "length ?kvs = length m"
    using perm(1) mset_eq_setD mset_eq_length by blast+
  have valid: "length m \<le> max_entries" "\<forall>(k, v)\<in>set m. length k \<le> max_key_bytes \<and> utf8_valid v"
    using assms(3) secret_map_loop_iff [of 0 m] by (auto simp: secret_map_validate_def split: if_splits)
  have "utf8_valid (dotenv_text f kvs) \<and> CHR 0x00 \<notin> set (dotenv_text f kvs)" if "set kvs \<subseteq> set m" for kvs
    using that
  proof (induction kvs)
    case (Cons kv kvs)
    obtain k v where kv: "kv = (k, v)" by fastforce
    then have "env_name_pattern k" "utf8_valid v" "CHR 0x00 \<notin> set v"
      using Cons.prems assms(4) valid(2) by auto
    with utf8_line [OF assms(1), of k v] no_nul_line [OF assms(1), of k v] Cons show ?case
      by (simp add: dotenv_text_def kv)
  qed (simp add: dotenv_text_def)
  then have "utf8_valid (dotenv_text f ?kvs)" "CHR 0x00 \<notin> set (dotenv_text f ?kvs)"
    using set by auto
  moreover have "\<forall>c\<in>set w. code c < 0x80 \<and> c \<noteq> CHR 0x00"
    using assms(6) by (auto simp: line_space_def special_chars code_def)
  ultimately have clean: "utf8_valid ?out" "CHR 0x00 \<notin> set ?out"
    using utf8_append [of "dotenv_text f ?kvs" w] utf8_ascii_append [of w "[]"] by auto
  have "\<not> has_prefix ?out byte_order_mark"
  proof (cases ?kvs)
    case (Cons kv kvs)
    obtain k v where kv: "kv = (k, v)" by fastforce
    then have "env_name_pattern k"
      using Cons assms(4) set by fastforce
    then have "k \<noteq> []" "code (hd k) < 0x80"
      using env_name_hd env_name_chars hd_in_set by blast+
    then show ?thesis
      by (cases k) (auto simp: Cons kv dotenv_text_def dotenv_line_def has_prefix_def byte_order_mark_def code_def)
  next
    case Nil
    then show ?thesis
      using assms(6) by (cases w) (auto simp: dotenv_text_def has_prefix_def byte_order_mark_def line_space_def special_chars)
  qed
  moreover have "import_loop ?out [] = Inr ([] @ ?kvs)"
    using perm(2) len valid assms(4) set by (intro import_text [OF assms(1,6)]) auto
  moreover have "secret_map_validate ?kvs = Inr ()"
    using validate_perm [OF perm(1)] assms(3) by simp
  ultimately show ?thesis
    using assms(5) clean by (simp add: import_dotenv_def)
qed

lemma export_loop_text:
  "export_loop m ks out = Inr out' \<Longrightarrow>
     out' = out @ dotenv_text export_escape_char (map (\<lambda>k. (k, case gm_get m k of None \<Rightarrow> [] | Some v \<Rightarrow> v)) ks)
     \<and> (length out \<le> sm_max_payload_bytes \<longrightarrow> length out' \<le> sm_max_payload_bytes)"
  by (induction m ks out rule: export_loop.induct)
    (auto simp: Let_def dotenv_text_def export_escape_def split: if_splits)

lemma to_dot_env_text:
  "to_dot_env_loop m ks out = Some out' \<Longrightarrow>
     out' = out @ dotenv_text bundle_escape_char (map (\<lambda>k. (k, case gm_get m k of None \<Rightarrow> [] | Some v \<Rightarrow> v)) ks)"
  by (induction m ks out rule: to_dot_env_loop.induct)
    (auto simp: dotenv_text_def bundle_escape_chars split: if_splits)

text \<open>
  C16: exported dotenv reads back.  Whatever \<open>ExportDotenv\<close> writes for a secret map, \<open>ImportDotenv\<close>
  reads without an error as the same map: every value, with its quotes, backslashes, dollars,
  line ends, blanks and any UTF-8 text, comes back byte for byte.
\<close>

theorem export_import_roundtrip:
  assumes "export_dotenv m = Inr out" and "gm_ok m"
  shows "\<exists>m'. import_dotenv out = Inr m' \<and> gm_ok m' \<and> gm_get m' = gm_get m"
proof -
  have v: "secret_map_validate m = Inr ()" "\<forall>(k, v)\<in>set m. env_name_pattern k \<and> CHR 0x00 \<notin> set v"
    and loop: "export_loop m (sort (map fst m)) [] = Inr out"
    using assms(1) by (auto simp: export_dotenv_def res_simps list_all_iff split: if_splits)
  have "length out \<le> sm_max_payload_bytes"
    using export_loop_text [OF loop] by (metis list.size(3) zero_le)
  moreover have "out = dotenv_text export_escape_char (sorted_entries m)"
    using export_loop_text [OF loop] by (simp add: sorted_entries_def)
  ultimately show ?thesis
    using import_written [OF escapes_chars(1) assms(2) v, of "[]"] sorted_entries_perm [OF assms(2)] by auto
qed

definition sample_secrets :: secret_map where
  "sample_secrets = [(''B'', [CHR ''x'', quote_char, backslash, newline, CHR ''$'']), (''A_1'', ''  y # z'')]"

lemma sample_names: "env_name_pattern ''B''" "env_name_pattern ''A_1''"
  by (simp_all add: env_name_pattern_def name_start_def in_range_def code_def)

lemma sample_export: "\<exists>out. export_dotenv sample_secrets = Inr out"
proof -
  have "utf8_valid ''B''" "utf8_valid ''A_1''" "utf8_valid [CHR ''x'', quote_char, backslash, newline, CHR ''$'']"
    "utf8_valid ''  y # z''"
    by (simp_all add: utf8_ascii code_def special_chars)
  then have "secret_map_validate sample_secrets = Inr ()"
    by (simp add: sample_secrets_def secret_map_validate_def max_entries_def max_key_bytes_def sm_max_payload_bytes_def)
  moreover have "sort (map fst sample_secrets) = [''A_1'', ''B'']"
    by (simp add: sample_secrets_def)
  ultimately show ?thesis
    using sample_names
    by (simp add: export_dotenv_def)
      (simp add: sample_secrets_def special_chars sm_max_payload_bytes_def dotenv_line_def export_escape_def
        export_escape_char_def gm_get_def Let_def)
qed

theorem export_import_roundtrip_witness:
  "\<exists>out m'. export_dotenv sample_secrets = Inr out \<and> import_dotenv out = Inr m'
     \<and> gm_get m' ''B'' = Some [CHR ''x'', quote_char, backslash, newline, CHR ''$'']"
proof -
  obtain out where out: "export_dotenv sample_secrets = Inr out" using sample_export by blast
  have "gm_ok sample_secrets" by (simp add: sample_secrets_def)
  from export_import_roundtrip [OF out this] obtain m' where "import_dotenv out = Inr m'" "gm_get m' = gm_get sample_secrets"
    by blast
  moreover have "gm_get sample_secrets ''B'' = Some [CHR ''x'', quote_char, backslash, newline, CHR ''$'']"
    by (simp add: sample_secrets_def gm_get_def)
  ultimately show ?thesis using out by (intro exI [of _ out] exI [of _ m']) simp
qed

text \<open>
  What \<open>pull\<close> writes reads back, when the names are names.  \<open>ToDotEnv\<close>, which a pull writes
  files with, gives text that \<open>ImportDotenv\<close> reads as the same map, provided the map is valid, its
  keys are shell variable names, no value holds a zero byte, and the text fits the bound of the
  reader.
\<close>

theorem to_dot_env_roundtrip:
  assumes "to_dot_env m = Some out" and "gm_ok m" and "secret_map_validate m = Inr ()"
    and "\<forall>(k, v)\<in>set m. env_name_pattern k \<and> CHR 0x00 \<notin> set v" and "length out \<le> sm_max_payload_bytes"
  shows "\<exists>m'. import_dotenv out = Inr m' \<and> gm_get m' = gm_get m"
proof -
  have "out = dotenv_text bundle_escape_char (sorted_entries m)"
    using to_dot_env_text [of m "sort (map fst m)" "[]" out] assms(1) by (simp add: to_dot_env_def sorted_entries_def)
  with import_written [OF escapes_chars(2) assms(2-4), of "[]"] assms(5) sorted_entries_perm [OF assms(2)] show ?thesis
    by auto
qed

theorem to_dot_env_roundtrip_witness:
  "\<exists>out m'. to_dot_env [(''A_1'', [tab, quote_char])] = Some out \<and> import_dotenv out = Inr m'
     \<and> gm_get m' ''A_1'' = Some [tab, quote_char]"
proof -
  let ?m = "[(''A_1'', [tab, quote_char])]"
  have "utf8_valid ''A_1''" "utf8_valid [tab, quote_char]"
    by (simp_all add: utf8_ascii code_def special_chars)
  then have v: "secret_map_validate ?m = Inr ()"
    by (simp add: secret_map_validate_def max_entries_def max_key_bytes_def sm_max_payload_bytes_def)
  obtain out where out: "to_dot_env ?m = Some out" "length out \<le> 100"
    by (simp add: to_dot_env_def special_chars dotenv_line_def bundle_escape_def replace_char_def gm_get_def)
  then have "length out \<le> sm_max_payload_bytes" by (simp add: sm_max_payload_bytes_def)
  then obtain m' where "import_dotenv out = Inr m'" "gm_get m' = gm_get ?m"
    using to_dot_env_roundtrip [OF out(1) _ v] sample_names(2) by (auto simp: special_chars)
  moreover have "gm_get ?m ''A_1'' = Some [tab, quote_char]" by (simp add: gm_get_def)
  ultimately show ?thesis using out(1) by (intro exI [of _ out] exI [of _ m']) simp
qed

text \<open>
  Without that proviso it does not: \<open>AddSecret\<close> takes any key, \<open>ToDotEnv\<close> writes it, and
  \<open>ImportDotenv\<close>, which the next pull reads the file with, refuses the text.
\<close>

lemma pull_writes_unreadable:
  "\<exists>out. to_dot_env [(''A-B'', ''x'')] = Some out \<and> import_dotenv out = Inl ErrInvalidDotenv"
proof -
  let ?out = "''A-B='' @ [quote_char] @ ''x'' @ [quote_char, newline]"
  have "to_dot_env [(''A-B'', ''x'')] = Some ?out"
    by (simp add: to_dot_env_def special_chars dotenv_line_def bundle_escape_def replace_char_def gm_get_def)
  moreover have "\<not> env_name_pattern ''A-B''"
    by (simp add: env_name_pattern_def name_start_def in_range_def code_def)
  have "trim_space ''A-B'' = ''A-B''"
    by (rule trim_space_id) (simp add: space_prefix_def space_suffix_def ascii_space_def code_def)
  then have "read_assignment ?out = Inl ErrInvalidDotenv"
    using \<open>\<not> env_name_pattern ''A-B''\<close>
    by (simp add: read_assignment_def Let_def strip_export_def has_prefix_def before_def special_chars)
  then have "import_loop ?out [] = Inl ErrInvalidDotenv"
    by (subst import_loop.simps) (simp add: Let_def trim_left_def line_space_def special_chars)
  moreover have "utf8_valid ?out"
    by (simp add: utf8_ascii code_def special_chars)
  ultimately show ?thesis
    by (simp add: import_dotenv_def has_prefix_def byte_order_mark_def sm_max_payload_bytes_def special_chars Let_def)
qed

end
