(* ===== verification/App_Error.thy ===== *)
theory App_Error
  imports Trust Text
begin

text \<open>
  The errors of the application layer: \<open>pkg/apperr\<close>, and the functions of \<open>app/app.go\<close>,
  \<open>app/helpers.go\<close>, \<open>app/workspace.go\<close> and \<open>app/init.go\<close> that classify the errors of the packages below.

  A Go error is a tree: a leaf, an error that wraps others (\<open>fmt.Errorf\<close> with \<open>%w\<close>, \<open>errors.Join\<close>), or an
  \<open>*apperr.Error\<close> with its code, its parameters and what its detail wraps.  \<open>errors.Is\<close> and
  \<open>errors.As\<close> search the tree depth first.  The texts of the wrapped errors are not modelled; the
  display messages that leave the process are.
\<close>

datatype app_code =
  CodeInternal | CodeInvalidArgument | CodeNotAuthenticated | CodeAccessDenied | CodeAuthExpired
| CodeNotInitialized | CodeConfigNotFound | CodeConfigProtected | CodeEnvironmentMissing
| CodeEnvironmentExists | CodeSecretMissing | CodeSecretExists | CodeImportConflict
| CodeArtifactNotFound | CodeConflict | CodeUnavailable
| CodeNotMember | CodeUntrusted | CodeRollback | CodeIncompatibleStorage | CodeSecretConflict
| CodeControlForked | CodeReencryptIncomplete | CodeTrustRootChanged
| CodeIdentityUnavailable | CodeOutputUnreadable

type_synonym params = "(string, string) gomap"

text \<open>
  The leaves: a sentinel or typed error of \<open>pkg/wsp\<close> and \<open>pkg/storage\<close>, a changed trust root, age's
  \<open>NoIdentityMatchError\<close>, \<open>fs.ErrNotExist\<close>, \<open>identity.UnavailableError\<close> with its reason, the sentinels of \<open>app\<close>, the
  exit status of a command, a panic (an assignment to a nil map), and any other error.
\<close>

datatype cause =
  CauseWsp wsp_error | CauseTrust root root | CauseNoMatch | CauseNotExist | CauseUnavailable string
| CauseControlMoved | CauseNoChange | CauseNoRequest | CauseExit int | CausePanic | CauseSentinel string | CauseOther

datatype go_error =
  Plain cause | Wrapping "go_error list" | AppErr app_code params "go_error list"

type_synonym 'a app_result = "go_error + 'a"

fun first_some :: "'a option list \<Rightarrow> 'a option" where
  "first_some [] = None"
| "first_some (None # xs) = first_some xs"
| "first_some (Some x # xs) = Some x"

text \<open>\<open>errors.As\<close> for the leaves, and for \<open>*apperr.Error\<close>.\<close>

fun find_cause :: "(cause \<Rightarrow> 'a option) \<Rightarrow> go_error \<Rightarrow> 'a option" where
  "find_cause p (Plain c) = p c"
| "find_cause p (Wrapping es) = first_some (map (find_cause p) es)"
| "find_cause p (AppErr k ps es) = first_some (map (find_cause p) es)"

fun find_app :: "go_error \<Rightarrow> (app_code \<times> params) option" where
  "find_app (Plain c) = None"
| "find_app (Wrapping es) = first_some (map find_app es)"
| "find_app (AppErr k ps es) = Some (k, ps)"

definition errors_is :: "cause \<Rightarrow> go_error \<Rightarrow> bool" where
  "errors_is c e \<longleftrightarrow> find_cause (\<lambda>x. if x = c then Some () else None) e \<noteq> None"

subsection \<open>pkg/apperr\<close>

definition app_new :: "app_code \<Rightarrow> params \<Rightarrow> go_error" where
  "app_new k ps = AppErr k ps []"

definition app_wrap :: "app_code \<Rightarrow> go_error option \<Rightarrow> params \<Rightarrow> go_error" where
  "app_wrap k wrapped ps = (case wrapped of None \<Rightarrow> app_new k ps | Some e \<Rightarrow> AppErr k ps [e])"

definition app_is :: "go_error \<Rightarrow> app_code \<Rightarrow> bool" where
  "app_is e k \<longleftrightarrow> (case find_app e of None \<Rightarrow> False | Some (k', ps) \<Rightarrow> k' = k)"

definition code_of :: "go_error \<Rightarrow> app_code" where
  "code_of e = (case find_app e of None \<Rightarrow> CodeInternal | Some (k, ps) \<Rightarrow> k)"

definition normalize_err :: "go_error \<Rightarrow> go_error" where
  "normalize_err e =
     (case e of
        AppErr k ps es \<Rightarrow> e
      | _ \<Rightarrow> (case find_app e of
               Some (k, ps) \<Rightarrow> app_wrap k (Some e) ps
             | None \<Rightarrow> app_wrap CodeInternal (Some e) []))"

text \<open>\<open>NormalizeInto\<close>, deferred by every exported operation.\<close>

definition normalize_into :: "'a app_result \<Rightarrow> 'a app_result" where
  "normalize_into r = (case r of Inl e \<Rightarrow> Inl (normalize_err e) | Inr x \<Rightarrow> Inr x)"

definition exit_code :: "go_error \<Rightarrow> int" where
  "exit_code e =
     (case find_cause (\<lambda>c. case c of CauseExit n \<Rightarrow> Some n | _ \<Rightarrow> None) e of
        Some n \<Rightarrow> n
      | None \<Rightarrow>
          (case code_of e of
             CodeInvalidArgument \<Rightarrow> 2 | CodeOutputUnreadable \<Rightarrow> 2
           | CodeNotAuthenticated \<Rightarrow> 3 | CodeAccessDenied \<Rightarrow> 3
           | CodeConflict \<Rightarrow> 4
           | CodeNotMember \<Rightarrow> 3
           | CodeUntrusted \<Rightarrow> 5 | CodeRollback \<Rightarrow> 5
           | _ \<Rightarrow> 1))"

subsection \<open>Display payloads\<close>

text \<open>The table \<open>definitions\<close>: the message of a code and the parameters it shows.\<close>

fun code_params :: "app_code \<Rightarrow> string list" where
  "code_params CodeImportConflict = [''count'', ''keys'']"
| "code_params CodeConfigProtected = [''key'']"
| "code_params CodeEnvironmentMissing = [''name'']"
| "code_params CodeEnvironmentExists = [''name'']"
| "code_params CodeSecretMissing = [''key'']"
| "code_params CodeSecretExists = [''key'']"
| "code_params CodeOutputUnreadable = [''file'']"
| "code_params _ = []"

definition quoted :: "string \<Rightarrow> string" where
  "quoted s = [quote_char] @ s @ [quote_char]"

fun code_message :: "app_code \<Rightarrow> string" where
  "code_message CodeImportConflict =
     ''{count} secrets already have different values: {keys}. Use --overwrite to replace them.''"
| "code_message CodeInternal = ''An unexpected error occurred.''"
| "code_message CodeInvalidArgument = ''The input is invalid.''"
| "code_message CodeNotAuthenticated = ''Sign in with GitHub to continue.''"
| "code_message CodeAccessDenied = ''Access was denied.''"
| "code_message CodeAuthExpired = ''The authentication session expired. Try again.''"
| "code_message CodeNotInitialized = ''Set up enbu for this repository first.''"
| "code_message CodeConfigNotFound = ''enbu.toml was not found.''"
| "code_message CodeConfigProtected = quoted ''{key}'' @
     '' in enbu.toml cannot be changed here: it decides which members the workspace trusts or where secrets are stored.''"
| "code_message CodeEnvironmentMissing = ''Environment '' @ quoted ''{name}'' @ '' does not exist.''"
| "code_message CodeEnvironmentExists = ''Environment '' @ quoted ''{name}'' @ '' already exists.''"
| "code_message CodeSecretMissing = ''Secret '' @ quoted ''{key}'' @ '' does not exist.''"
| "code_message CodeSecretExists = ''Secret '' @ quoted ''{key}'' @ '' already exists.''"
| "code_message CodeArtifactNotFound = ''The requested secrets were not found.''"
| "code_message CodeConflict = ''Secrets changed remotely. Try again.''"
| "code_message CodeUnavailable = ''The required service is unavailable.''"
| "code_message CodeNotMember = ''This device has not been approved yet. Ask an admin to approve it.''"
| "code_message CodeUntrusted = ''Stored data failed signature verification and was not used.''"
| "code_message CodeRollback =
     ''Storage shows less than this device already accepted. It may be a delayed listing; try again.''"
| "code_message CodeIncompatibleStorage =
     ''This storage was created without a workspace control. Use an empty location.''"
| "code_message CodeSecretConflict =
     ''Concurrent edits changed the same secret differently. Nothing was lost; choose a value to continue.''"
| "code_message CodeControlForked =
     ''Two admins changed the members at the same time. An admin must join the changes (Join member changes on the Members tab, or '' @
     quoted ''enbu member resolve-fork'' @ '') before anything else can proceed.''"
| "code_message CodeReencryptIncomplete =
     ''Membership changed, but some secrets are not re-encrypted yet. Run sync to finish.''"
| "code_message CodeTrustRootChanged =
     ''enbu.toml names a different trust root (control_genesis) than this device trusts for this workspace. Do not continue unless an admin confirms out of band that they re-created the workspace; then accept the new root ('' @
     [CHR 0x27] @ ''enbu init --accept-new-genesis'' @ [CHR 0x27] @ '').''"
| "code_message CodeIdentityUnavailable =
     ''No usable identity backend on this device. Run '' @ [CHR 0x27] @ ''enbu doctor'' @ [CHR 0x27] @ '' for details.''"
| "code_message CodeOutputUnreadable =
     ''{file} is not a dotenv file enbu can read. Pull again and overwrite it to replace its content.''"

text \<open>\<open>strings.NewReplacer\<close>: at each place the first pair whose old text starts there; what was put in is not looked at again.\<close>

definition starts_with :: "string \<Rightarrow> string \<Rightarrow> bool" where
  "starts_with p s \<longleftrightarrow> take (length p) s = p"

fun pair_at :: "(string \<times> string) list \<Rightarrow> string \<Rightarrow> (string \<times> string) option" where
  "pair_at [] s = None"
| "pair_at ((a, b) # ps) s = (if a \<noteq> [] \<and> starts_with a s then Some (a, b) else pair_at ps s)"

lemma pair_at_Some: "pair_at ps s = Some (a, b) \<Longrightarrow> 0 < length a \<and> starts_with a s \<and> (a, b) \<in> set ps"
  by (induction ps s rule: pair_at.induct) (auto split: if_splits)

function replace_pairs :: "(string \<times> string) list \<Rightarrow> string \<Rightarrow> string" where
  "replace_pairs ps [] = []"
| "replace_pairs ps (c # s) =
     (case pair_at ps (c # s) of
        None \<Rightarrow> c # replace_pairs ps s
      | Some (a, b) \<Rightarrow> b @ replace_pairs ps (drop (length a) (c # s)))"
  by pat_completeness auto
termination
  by (relation "measure (\<lambda>(ps, s). length s)") (auto dest!: pair_at_Some)

record payload =
  pl_code :: app_code
  pl_message :: string
  pl_params :: params

definition internal_payload :: payload where
  "internal_payload = \<lparr>pl_code = CodeInternal, pl_message = code_message CodeInternal, pl_params = []\<rparr>"

text \<open>The loop over the declared parameters; a missing or empty one gives up.\<close>

fun shown_params :: "params \<Rightarrow> string list \<Rightarrow> params \<Rightarrow> params option" where
  "shown_params given [] out = Some out"
| "shown_params given (n # ns) out =
     (case gm_get given n of
        None \<Rightarrow> None
      | Some v \<Rightarrow> if v = [] then None else shown_params given ns (gm_put n v out))"

text \<open>Every code has an entry in the table, so \<open>IsKnownCode\<close> holds of all of them.\<close>

definition payload_of :: "go_error \<Rightarrow> payload" where
  "payload_of e =
     (case normalize_err e of
        AppErr k given es \<Rightarrow>
          (case shown_params given (code_params k) [] of
             None \<Rightarrow> internal_payload
           | Some ps \<Rightarrow>
               \<lparr>pl_code = k, pl_message = replace_pairs (map (\<lambda>(n, v). (''{'' @ n @ ''}'', v)) ps) (code_message k),
                pl_params = ps\<rparr>)
      | _ \<Rightarrow> internal_payload)"

subsection \<open>Classifying the errors below\<close>

definition wsp_cause :: "wsp_error \<Rightarrow> go_error" where
  "wsp_cause e = Plain (CauseWsp e)"

definition storage_cause :: "storage_error \<Rightarrow> go_error" where
  "storage_cause e = Plain (CauseWsp (ErrStore e))"

definition trust_cause :: "trust_error \<Rightarrow> go_error" where
  "trust_cause e = (case e of TrustRootChanged p c \<Rightarrow> Plain (CauseTrust p c) | TrustFailed w \<Rightarrow> wsp_cause w)"

definition storage_error_app :: "go_error \<Rightarrow> go_error" where
  "storage_error_app e =
     (if errors_is (CauseWsp (ErrStore SNotFound)) e then app_wrap CodeArtifactNotFound (Some e) []
      else if errors_is (CauseWsp (ErrStore SCorrupt)) e then app_wrap CodeUntrusted (Some e) []
      else e)"

definition trust_params :: "root \<Rightarrow> root \<Rightarrow> params" where
  "trust_params pinned configured =
     [(''pinned'', rt_genesis pinned),
      (''configured'', if rt_genesis configured = [] then ''missing'' else rt_genesis configured),
      (''pinned_workspace'', rt_workspace pinned),
      (''configured_workspace'', rt_workspace configured)]"

definition wsp_error_app :: "go_error \<Rightarrow> go_error" where
  "wsp_error_app e =
     (case find_cause (\<lambda>c. case c of CauseTrust p q \<Rightarrow> Some (p, q) | _ \<Rightarrow> None) e of
        Some (p, q) \<Rightarrow> app_wrap CodeTrustRootChanged (Some e) (trust_params p q)
      | None \<Rightarrow>
          (case find_cause (\<lambda>c. case c of CauseWsp (ErrFork hs) \<Rightarrow> Some hs | _ \<Rightarrow> None) e of
             Some hs \<Rightarrow> app_wrap CodeControlForked (Some e) [(''heads'', show_nat (length hs))]
           | None \<Rightarrow>
               if errors_is (CauseWsp ErrRollback) e then app_wrap CodeRollback (Some e) []
               else if errors_is (CauseWsp ErrInvalid) e \<or> errors_is (CauseWsp (ErrStore SCorrupt)) e
               then app_wrap CodeUntrusted (Some e) []
               else storage_error_app e))"

definition identity_error_app :: "go_error \<Rightarrow> go_error" where
  "identity_error_app e =
     (case find_cause (\<lambda>c. case c of CauseUnavailable r \<Rightarrow> Some r | _ \<Rightarrow> None) e of
        None \<Rightarrow> e
      | Some r \<Rightarrow> app_wrap CodeIdentityUnavailable (Some e) [(''reason'', r)])"

definition is_not_found_error :: "go_error \<Rightarrow> bool" where
  "is_not_found_error e \<longleftrightarrow> app_is e CodeArtifactNotFound"

definition is_not_initialized_error :: "go_error \<Rightarrow> bool" where
  "is_not_initialized_error e \<longleftrightarrow> app_is e CodeConfigNotFound \<or> app_is e CodeNotInitialized"

definition errors_is_not_found :: "go_error \<Rightarrow> bool" where
  "errors_is_not_found e \<longleftrightarrow> errors_is (CauseWsp (ErrStore SNotFound)) e"

subsection \<open>Facts\<close>

lemma find_app_wrap [simp]: "find_app (app_wrap k w ps) = Some (k, ps)"
  by (simp add: app_wrap_def app_new_def split: option.split)

lemma errors_is_wsp [simp]:
  "errors_is c (wsp_cause e) \<longleftrightarrow> c = CauseWsp e"
  "errors_is c (storage_cause s) \<longleftrightarrow> c = CauseWsp (ErrStore s)"
  "errors_is c (Plain d) \<longleftrightarrow> c = d"
  by (auto simp: errors_is_def wsp_cause_def storage_cause_def)

lemma first_some_iff: "first_some xs = Some x \<Longrightarrow> Some x \<in> set xs"
  by (induction xs rule: first_some.induct) auto

lemma first_some_None: "first_some xs = None \<longleftrightarrow> set xs \<subseteq> {None}"
  by (induction xs rule: first_some.induct) auto

lemma find_app_normalize: "find_app (normalize_err e) = (case find_app e of None \<Rightarrow> Some (CodeInternal, []) | Some a \<Rightarrow> Some a)"
  by (cases e) (auto simp: normalize_err_def split: option.split)

lemma code_of_normalize: "code_of (normalize_err e) = code_of e"
  by (simp add: code_of_def find_app_normalize split: option.split)

lemma normalize_app: "\<exists>k ps es. normalize_err e = AppErr k ps es"
  by (cases e) (auto simp: normalize_err_def app_wrap_def app_new_def split: option.split)

lemma find_cause_wrap [simp]: "find_cause p (app_wrap k (Some e) ps) = find_cause p e"
  by (cases "find_cause p e") (simp_all add: app_wrap_def)

lemma find_cause_normalize: "find_cause p (normalize_err e) = find_cause p e"
  by (cases e) (auto simp: normalize_err_def split: option.split)

lemma shown_params_spec:
  "shown_params given ns out = Some ps \<Longrightarrow> distinct ns \<Longrightarrow>
     (\<forall>n. gm_get ps n = (if n \<in> set ns then gm_get given n else gm_get out n))
     \<and> (\<forall>n\<in>set ns. gm_get given n \<noteq> Some [] \<and> gm_get given n \<noteq> None)"
proof (induction given ns out rule: shown_params.induct)
  case (2 given n ns out)
  then obtain v where v: "gm_get given n = Some v" "v \<noteq> []" "shown_params given ns (gm_put n v out) = Some ps"
    by (auto split: option.splits if_splits)
  from 2(1) [OF v(1,2,3)] 2(3) v show ?case
    by auto
qed auto

lemma distinct_code_params: "distinct (code_params k)"
  by (cases k) simp_all

subsection \<open>Properties\<close>

text \<open>
  Normalising an error changes neither its code nor its exit status nor what it wraps, and a normalised
  error is left as it is.  Every exported operation defers \<open>NormalizeInto\<close>, so this is why the callers of
  the application (the command line, the desktop service) classify an error as its origin did.
\<close>

theorem normalize_keeps_code:
  "code_of (normalize_err e) = code_of e \<and> exit_code (normalize_err e) = exit_code e
     \<and> errors_is c (normalize_err e) = errors_is c e \<and> normalize_err (normalize_err e) = normalize_err e"
proof (intro conjI)
  show "code_of (normalize_err e) = code_of e"
    by (rule code_of_normalize)
  show "exit_code (normalize_err e) = exit_code e"
    unfolding exit_code_def code_of_normalize find_cause_normalize by (rule refl)
  show "errors_is c (normalize_err e) = errors_is c e"
    by (simp add: errors_is_def find_cause_normalize)
  obtain k ps es where n: "normalize_err e = AppErr k ps es"
    using normalize_app by blast
  show "normalize_err (normalize_err e) = normalize_err e"
    unfolding n by (simp add: normalize_err_def)
qed

text \<open>
  What crosses the process boundary.  A payload has the code of the error and exactly the parameters its
  code declares, none of them empty, taken from the error; when one is missing the payload is the internal
  one, with no parameter at all.
\<close>

theorem payload_declared_only:
  "payload_of e = internal_payload
   \<or> (\<exists>k given. find_app (normalize_err e) = Some (k, given) \<and> pl_code (payload_of e) = k
        \<and> (\<forall>n. gm_get (pl_params (payload_of e)) n = (if n \<in> set (code_params k) then gm_get given n else None))
        \<and> (\<forall>n. gm_get (pl_params (payload_of e)) n \<noteq> Some []))"
proof -
  obtain k given es where n: "normalize_err e = AppErr k given es"
    using normalize_app by blast
  show ?thesis
  proof (cases "shown_params given (code_params k) []")
    case None
    then show ?thesis by (simp add: payload_of_def n)
  next
    case (Some ps)
    then have p: "pl_code (payload_of e) = k" "pl_params (payload_of e) = ps"
      by (simp_all add: payload_of_def n)
    note s = shown_params_spec [OF Some distinct_code_params]
    have "find_app (normalize_err e) = Some (k, given)"
      by (simp add: n)
    then show ?thesis
      using s by (intro disjI2 exI [of _ k] exI [of _ given]) (simp add: p)
  qed
qed

end
