(* ===== verification/Config.thy ===== *)
theory Config
  imports App_Error
begin

text \<open>
  The project configuration: \<open>pkg/config/config.go\<close>, and the operations of \<open>app/environments.go\<close> and
  \<open>app/config.go\<close> on it.

  The TOML library is a parameter \<open>toml_lib\<close>.  The two files are \<open>enbu.toml\<close> and the per-user state of a
  workspace, each its bytes or nothing; \<open>config_io\<close> says which reads fail, and what a failed write leaves
  behind (\<open>os.WriteFile\<close> truncates before it writes).  Finding \<open>enbu.toml\<close> in the parent directories is
  not modelled: \<open>fs_toml\<close> is the file that is found.
\<close>

record storage_config =
  sc_url :: string
  sc_region :: string
  sc_endpoint :: string
  sc_path_style :: bool
  sc_plain_http :: bool

record env_config =
  ec_output :: string
  ec_incarnation :: string

record project_config =
  pc_workspace_id :: string
  pc_control_genesis :: string
  pc_storage :: storage_config
  pc_version :: string
  pc_default_env :: string
  pc_environments :: "(string, env_config) gomap"
  pc_current :: string

record local_config =
  lc_current :: string
  lc_previous :: string

definition current_version :: string where
  "current_version = ''v1alpha2''"

subsection \<open>Environments\<close>

definition default_output :: "string \<Rightarrow> string" where
  "default_output name = (if name = [] \<or> name = ''default'' then ''.env'' else ''.env.'' @ name)"

definition env_name_char :: "char \<Rightarrow> bool" where
  "env_name_char c \<longleftrightarrow> in_range (code CHR ''a'') (code CHR ''z'') c \<or> in_range (code CHR ''A'') (code CHR ''Z'') c
     \<or> in_range (code CHR ''0'') (code CHR ''9'') c \<or> c = CHR ''_'' \<or> c = CHR ''-'' \<or> c = CHR ''.''"

text \<open>The loop ranges over runes; a byte that is not ASCII is part of a rune the loop refuses.\<close>

definition valid_environment_name :: "string \<Rightarrow> bool" where
  "valid_environment_name name \<longleftrightarrow> name \<noteq> [] \<and> length name \<le> 100 \<and> list_all env_name_char name"

definition has_environment :: "project_config \<Rightarrow> string \<Rightarrow> bool" where
  "has_environment cfg name \<longleftrightarrow> gm_has (pc_environments cfg) name"

definition current_environment :: "project_config \<Rightarrow> string" where
  "current_environment cfg =
     (if pc_current cfg \<noteq> [] \<and> (has_environment cfg (pc_current cfg)
           \<or> (pc_environments cfg = [] \<and> pc_current cfg = ''default''))
      then pc_current cfg
      else if pc_default_env cfg \<noteq> [] then pc_default_env cfg
      else ''default'')"

definition set_default :: "string \<Rightarrow> project_config \<Rightarrow> project_config" where
  "set_default name cfg = cfg\<lparr>pc_default_env := name\<rparr>"

definition name_error :: "app_code \<Rightarrow> string \<Rightarrow> go_error" where
  "name_error k name = app_new k [(''name'', name)]"

definition add_environment :: "string \<Rightarrow> string \<Rightarrow> project_config \<Rightarrow> project_config app_result" where
  "add_environment new_id name cfg =
     (if \<not> valid_environment_name name then Inl (name_error CodeInvalidArgument name)
      else
        let cfg = (if pc_environments cfg = [] \<and> pc_default_env cfg = []
                   then cfg\<lparr>pc_environments := [(''default'', \<lparr>ec_output = default_output ''default'', ec_incarnation = []\<rparr>)],
                            pc_default_env := ''default''\<rparr>
                   else cfg)
        in if has_environment cfg name then Inl (name_error CodeEnvironmentExists name)
           else Inr (cfg\<lparr>pc_environments := gm_put name \<lparr>ec_output = default_output name, ec_incarnation = new_id\<rparr>
                           (pc_environments cfg)\<rparr>))"

definition remove_environment :: "string \<Rightarrow> project_config \<Rightarrow> project_config app_result" where
  "remove_environment name cfg =
     (if \<not> has_environment cfg name then Inl (name_error CodeEnvironmentMissing name)
      else Inr (cfg\<lparr>pc_environments := gm_del name (pc_environments cfg),
                    pc_default_env := (if pc_default_env cfg = name then [] else pc_default_env cfg)\<rparr>))"

definition rename_environment :: "string \<Rightarrow> string \<Rightarrow> project_config \<Rightarrow> project_config app_result" where
  "rename_environment old new cfg =
     (if \<not> valid_environment_name new then Inl (name_error CodeInvalidArgument new)
      else case gm_get (pc_environments cfg) old of
        None \<Rightarrow> Inl (name_error CodeEnvironmentMissing old)
      | Some env \<Rightarrow>
          if has_environment cfg new then Inl (name_error CodeEnvironmentExists new)
          else
            let env = env\<lparr>ec_incarnation := (if ec_incarnation env = [] then old else ec_incarnation env)\<rparr>;
                env = env\<lparr>ec_output := (if ec_output env = [] \<or> ec_output env = default_output old
                                       then default_output new else ec_output env)\<rparr>
            in Inr (cfg\<lparr>pc_environments := gm_put new env (gm_del old (pc_environments cfg)),
                        pc_default_env := (if pc_default_env cfg = old then new else pc_default_env cfg)\<rparr>))"

text \<open>A missing key gives the zero value, whose incarnation is empty.\<close>

definition incarnation_of :: "project_config \<Rightarrow> string \<Rightarrow> string" where
  "incarnation_of cfg name = (case gm_get (pc_environments cfg) name of None \<Rightarrow> [] | Some e \<Rightarrow> ec_incarnation e)"

definition cfg_resource :: "project_config \<Rightarrow> string \<Rightarrow> string" where
  "cfg_resource cfg name =
     (let name = (if name = [] then current_environment cfg else name)
      in if incarnation_of cfg name \<noteq> [] then ''secrets/'' @ incarnation_of cfg name else ''secrets/'' @ name)"

definition cfg_environment :: "project_config \<Rightarrow> string \<Rightarrow> env_config app_result" where
  "cfg_environment cfg name =
     (let name = (if name = [] then current_environment cfg else name)
      in if \<not> valid_environment_name name then Inl (name_error CodeInvalidArgument name)
         else if pc_environments cfg = []
         then (if name \<noteq> ''default'' then Inl (name_error CodeEnvironmentMissing name)
               else Inr \<lparr>ec_output = default_output name, ec_incarnation = []\<rparr>)
         else case gm_get (pc_environments cfg) name of
           None \<Rightarrow> Inl (name_error CodeEnvironmentMissing name)
         | Some env \<Rightarrow> Inr (if ec_output env = [] then env\<lparr>ec_output := default_output name\<rparr> else env))"

definition environment_names :: "project_config \<Rightarrow> string list" where
  "environment_names cfg =
     (if pc_environments cfg = [] then [''default''] else sort (map fst (pc_environments cfg)))"

definition new_project :: "string \<Rightarrow> string \<Rightarrow> string \<Rightarrow> project_config" where
  "new_project env_id ws_id given =
     (let name = trim_space given; name = (if name = [] then ''default'' else name)
      in \<lparr>pc_workspace_id = ws_id, pc_control_genesis = [],
          pc_storage = \<lparr>sc_url = [], sc_region = [], sc_endpoint = [], sc_path_style = False, sc_plain_http = False\<rparr>,
          pc_version = current_version, pc_default_env = name,
          pc_environments = [(name, \<lparr>ec_output = default_output name, ec_incarnation = env_id\<rparr>)],
          pc_current = []\<rparr>)"

subsection \<open>Output paths\<close>

text \<open>\<open>filepath.Clean\<close> on Unix: the elements between slashes, dots dropped and parents applied.\<close>

fun split_slash :: "string \<Rightarrow> string list" where
  "split_slash [] = [[]]"
| "split_slash (c # s) =
     (if c = CHR ''/'' then [] # split_slash s
      else case split_slash s of [] \<Rightarrow> [[c]] | e # es \<Rightarrow> (c # e) # es)"

fun join_slash :: "string list \<Rightarrow> string" where
  "join_slash [] = []"
| "join_slash [e] = e"
| "join_slash (e # es) = e @ CHR ''/'' # join_slash es"

definition is_abs :: "string \<Rightarrow> bool" where
  "is_abs p \<longleftrightarrow> p \<noteq> [] \<and> hd p = CHR ''/''"

text \<open>The elements kept so far, the last one first.\<close>

definition clean_step :: "bool \<Rightarrow> string list \<Rightarrow> string \<Rightarrow> string list" where
  "clean_step rooted kept e =
     (if e = [] \<or> e = ''.'' then kept
      else if e = ''..''
      then (case kept of
              [] \<Rightarrow> if rooted then [] else [e]
            | k # ks \<Rightarrow> if k = ''..'' then e # kept else ks)
      else e # kept)"

definition clean_elems :: "string \<Rightarrow> string list" where
  "clean_elems p = rev (foldl (clean_step (is_abs p)) [] (split_slash p))"

definition clean_path :: "string \<Rightarrow> string" where
  "clean_path p =
     (if is_abs p then CHR ''/'' # join_slash (clean_elems p)
      else if clean_elems p = [] then ''.'' else join_slash (clean_elems p))"

text \<open>\<open>filepath.Join\<close> of two elements that are not empty.\<close>

definition join_path :: "string \<Rightarrow> string \<Rightarrow> string" where
  "join_path d p = clean_path (d @ CHR ''/'' # p)"

definition output_ok :: "string \<Rightarrow> bool" where
  "output_ok out \<longleftrightarrow>
     (let output = trim_space out; clean = clean_path output in
      output = [] \<or> \<not> (is_abs output \<or> clean = ''.'' \<or> clean = ''..'' \<or> starts_with ''../'' clean))"

definition validate_project_outputs :: "project_config \<Rightarrow> unit app_result" where
  "validate_project_outputs cfg =
     check_all (\<lambda>(name, env). if output_ok (ec_output env) then Inr () else Inl (Plain CauseOther)) (pc_environments cfg)"

subsection \<open>The two files\<close>

record toml_lib =
  tl_decode :: "bytes \<Rightarrow> project_config option"
  tl_header :: "project_config \<Rightarrow> bytes option"
  tl_storage :: "storage_config \<Rightarrow> bytes option"
  tl_key :: "string list \<Rightarrow> string"
  tl_env :: "env_config \<Rightarrow> bytes option"
  tl_local_decode :: "bytes \<Rightarrow> local_config option"
  tl_local_encode :: "local_config \<Rightarrow> bytes option"

definition decode_project :: "toml_lib \<Rightarrow> bytes \<Rightarrow> project_config app_result" where
  "decode_project tm content =
     (case tl_decode tm content of None \<Rightarrow> Inl (Plain CauseOther) | Some cfg \<Rightarrow> Inr cfg)"

definition parse_project :: "toml_lib \<Rightarrow> bytes \<Rightarrow> project_config app_result" where
  "parse_project tm content =
     res_bind (decode_project tm content) (\<lambda>cfg.
       if pc_version cfg \<noteq> current_version then Inl (Plain CauseOther) else Inr cfg)"

text \<open>The sections of the environments, in the order of their names; \<open>None\<close> is an error of the encoder.\<close>

fun marshal_envs :: "toml_lib \<Rightarrow> project_config \<Rightarrow> string list \<Rightarrow> bytes \<Rightarrow> bytes option" where
  "marshal_envs tm cfg [] buf = Some buf"
| "marshal_envs tm cfg (name # names) buf =
     (case tl_env tm (case gm_get (pc_environments cfg) name of None \<Rightarrow> \<lparr>ec_output = [], ec_incarnation = []\<rparr> | Some e \<Rightarrow> e) of
        None \<Rightarrow> None
      | Some b \<Rightarrow> marshal_envs tm cfg names (buf @ newline # ''['' @ tl_key tm [''env'', name] @ '']'' @ [newline] @ b))"

definition marshal_project :: "toml_lib \<Rightarrow> project_config \<Rightarrow> bytes option" where
  "marshal_project tm cfg =
     (case tl_header tm cfg of
        None \<Rightarrow> None
      | Some buf \<Rightarrow>
          (case (if sc_url (pc_storage cfg) = [] then Some []
                 else case tl_storage tm (pc_storage cfg) of
                   None \<Rightarrow> None | Some b \<Rightarrow> Some (newline # ''[storage]'' @ newline # b)) of
             None \<Rightarrow> None
           | Some st \<Rightarrow> marshal_envs tm cfg (sort (map fst (pc_environments cfg))) (buf @ st)))"

record config_files =
  fs_toml :: local_file
  fs_local :: "string \<Rightarrow> local_file"

record config_io =
  io_toml_unreadable :: bool
  io_toml_write_fails :: "local_file option"
  io_local_unreadable :: bool
  io_local_write_fails :: "local_file option"

definition load_project_from :: "toml_lib \<Rightarrow> config_io \<Rightarrow> config_files \<Rightarrow> project_config app_result" where
  "load_project_from tm io fs =
     (case fs_toml fs of
        None \<Rightarrow> Inl (app_wrap CodeConfigNotFound (Some (Plain CauseOther)) [])
      | Some content \<Rightarrow>
          if io_toml_unreadable io then Inl (Wrapping [Plain CauseOther]) else parse_project tm content)"

definition save_project :: "toml_lib \<Rightarrow> config_io \<Rightarrow> project_config \<Rightarrow> config_files \<Rightarrow> config_files \<times> unit app_result" where
  "save_project tm io cfg fs =
     (case marshal_project tm cfg of
        None \<Rightarrow> (fs, Inl (Wrapping [Plain CauseOther]))
      | Some content \<Rightarrow>
          (case io_toml_write_fails io of
             Some left \<Rightarrow> (fs\<lparr>fs_toml := left\<rparr>, Inl (Plain CauseOther))
           | None \<Rightarrow> (fs\<lparr>fs_toml := Some content\<rparr>, Inr ())))"

definition load_local_state :: "toml_lib \<Rightarrow> config_io \<Rightarrow> string \<Rightarrow> config_files \<Rightarrow> local_config app_result" where
  "load_local_state tm io ws fs =
     (if io_local_unreadable io then Inl (Wrapping [Plain CauseOther])
      else case fs_local fs ws of
        None \<Rightarrow> Inr \<lparr>lc_current = [], lc_previous = []\<rparr>
      | Some content \<Rightarrow>
          (case tl_local_decode tm content of None \<Rightarrow> Inl (Wrapping [Plain CauseOther]) | Some l \<Rightarrow> Inr l))"

definition save_local_state ::
  "toml_lib \<Rightarrow> config_io \<Rightarrow> string \<Rightarrow> local_config \<Rightarrow> config_files \<Rightarrow> config_files \<times> unit app_result" where
  "save_local_state tm io ws l fs =
     (case (io_local_write_fails io, tl_local_encode tm l) of
        (Some left, _) \<Rightarrow> (fs\<lparr>fs_local := (fs_local fs)(ws := left)\<rparr>, Inl (Plain CauseOther))
      | (None, None) \<Rightarrow> (fs\<lparr>fs_local := (fs_local fs)(ws := Some [])\<rparr>, Inl (Plain CauseOther))
      | (None, Some content) \<Rightarrow> (fs\<lparr>fs_local := (fs_local fs)(ws := Some content)\<rparr>, Inr ()))"

subsection \<open>app/app.go, app/helpers.go\<close>

text \<open>\<open>uuid.Parse\<close> is a parameter; a broken local state is an error, never the team default.\<close>

definition load_project ::
  "toml_lib \<Rightarrow> (string \<Rightarrow> bool) \<Rightarrow> config_io \<Rightarrow> config_files \<Rightarrow> project_config app_result" where
  "load_project tm uuid_ok io fs =
     res_bind (load_project_from tm io fs) (\<lambda>cfg.
       if uuid_ok (pc_workspace_id cfg)
       then res_bind (load_local_state tm io (pc_workspace_id cfg) fs) (\<lambda>l. Inr (cfg\<lparr>pc_current := lc_current l\<rparr>))
       else Inr cfg)"

definition workspace_id ::
  "toml_lib \<Rightarrow> (string \<Rightarrow> bool) \<Rightarrow> config_io \<Rightarrow> config_files \<Rightarrow> string app_result" where
  "workspace_id tm uuid_ok io fs =
     normalize_into (res_bind (load_project tm uuid_ok io fs) (\<lambda>cfg.
       if \<not> uuid_ok (pc_workspace_id cfg) then Inl (app_new CodeNotInitialized []) else Inr (pc_workspace_id cfg)))"

definition load_local ::
  "toml_lib \<Rightarrow> (string \<Rightarrow> bool) \<Rightarrow> config_io \<Rightarrow> config_files \<Rightarrow> local_config app_result" where
  "load_local tm uuid_ok io fs =
     res_bind (workspace_id tm uuid_ok io fs) (\<lambda>ws. load_local_state tm io ws fs)"

record resolved_env =
  re_name :: string
  re_output :: string

definition resolve_environment :: "project_config app_result \<Rightarrow> string \<Rightarrow> resolved_env app_result" where
  "resolve_environment loaded name =
     (case loaded of
        Inl e \<Rightarrow>
          if app_is e CodeConfigNotFound
          then let name = (if name = [] then ''default'' else name)
               in Inr \<lparr>re_name = name, re_output = default_output name\<rparr>
          else Inl e
      | Inr cfg \<Rightarrow>
          let name = (if name = [] then current_environment cfg else name)
          in if \<not> valid_environment_name name then Inl (name_error CodeInvalidArgument name)
             else res_bind (cfg_environment cfg name) (\<lambda>env. Inr \<lparr>re_name = name, re_output = ec_output env\<rparr>))"

subsection \<open>app/environments.go\<close>

record env_info =
  ei_name :: string
  ei_current :: bool
  ei_incarnation :: string

definition list_environments ::
  "toml_lib \<Rightarrow> (string \<Rightarrow> bool) \<Rightarrow> config_io \<Rightarrow> config_files \<Rightarrow> env_info list app_result" where
  "list_environments tm uuid_ok io fs =
     normalize_into (res_bind (load_project tm uuid_ok io fs) (\<lambda>cfg.
       Inr (map (\<lambda>name. \<lparr>ei_name = name, ei_current = (name = current_environment cfg),
                          ei_incarnation = incarnation_of cfg name\<rparr>) (environment_names cfg))))"

definition set_current ::
  "toml_lib \<Rightarrow> (string \<Rightarrow> bool) \<Rightarrow> config_io \<Rightarrow> project_config \<Rightarrow> string \<Rightarrow> string \<Rightarrow> config_files
    \<Rightarrow> config_files \<times> unit app_result" where
  "set_current tm uuid_ok io cfg name previous fs =
     (if \<not> uuid_ok (pc_workspace_id cfg) then save_project tm io (set_default name cfg) fs
      else case load_local_state tm io (pc_workspace_id cfg) fs of
        Inl e \<Rightarrow> (fs, Inl e)
      | Inr l \<Rightarrow> save_local_state tm io (pc_workspace_id cfg) (l\<lparr>lc_current := name, lc_previous := previous\<rparr>) fs)"

definition switch_environment ::
  "toml_lib \<Rightarrow> (string \<Rightarrow> bool) \<Rightarrow> config_io \<Rightarrow> string \<Rightarrow> config_files \<Rightarrow> config_files \<times> unit app_result" where
  "switch_environment tm uuid_ok io name fs =
     (if \<not> valid_environment_name name then (fs, Inl (name_error CodeInvalidArgument name))
      else case load_project tm uuid_ok io fs of
        Inl e \<Rightarrow> (fs, Inl (normalize_err e))
      | Inr cfg \<Rightarrow>
          if \<not> has_environment cfg name then (fs, Inl (name_error CodeEnvironmentMissing name))
          else if current_environment cfg = name then (fs, Inr ())
          else (case set_current tm uuid_ok io cfg name (current_environment cfg) fs of
                  (fs', r) \<Rightarrow> (fs', normalize_into r)))"

definition switch_previous ::
  "toml_lib \<Rightarrow> (string \<Rightarrow> bool) \<Rightarrow> config_io \<Rightarrow> config_files \<Rightarrow> config_files \<times> string app_result" where
  "switch_previous tm uuid_ok io fs =
     (case load_local tm uuid_ok io fs of
        Inl e \<Rightarrow> (fs, Inl (normalize_err (Plain CauseOther)))
      | Inr l \<Rightarrow>
          if lc_previous l = [] then (fs, Inl (normalize_err (Plain CauseOther)))
          else (case switch_environment tm uuid_ok io (lc_previous l) fs of
                  (fs', Inl e) \<Rightarrow> (fs', Inl (normalize_err e))
                | (fs', Inr _) \<Rightarrow> (fs', Inr (lc_previous l))))"

text \<open>The two identifiers of a new project are drawn in the order environment, workspace.\<close>

definition create_environment ::
  "toml_lib \<Rightarrow> (string \<Rightarrow> bool) \<Rightarrow> config_io \<Rightarrow> string \<Rightarrow> string \<Rightarrow> string \<Rightarrow> config_files \<Rightarrow> config_files \<times> unit app_result" where
  "create_environment tm uuid_ok io id1 id2 name fs =
     (if \<not> valid_environment_name name then (fs, Inl (name_error CodeInvalidArgument name))
      else case load_project tm uuid_ok io fs of
        Inl e \<Rightarrow>
          if \<not> app_is e CodeConfigNotFound then (fs, Inl (normalize_err e))
          else (case save_project tm io (new_project id1 id2 name) fs of (fs', r) \<Rightarrow> (fs', normalize_into r))
      | Inr cfg \<Rightarrow>
          (case add_environment id1 name cfg of
             Inl e \<Rightarrow> (fs, Inl (normalize_err e))
           | Inr cfg' \<Rightarrow>
               (case save_project tm io cfg' fs of
                  (fs1, Inl e) \<Rightarrow> (fs1, Inl (normalize_err e))
                | (fs1, Inr _) \<Rightarrow>
                    (case set_current tm uuid_ok io cfg' name (current_environment cfg') fs1 of
                       (fs2, r) \<Rightarrow> (fs2, normalize_into r)))))"

definition check_deletable :: "project_config \<Rightarrow> string \<Rightarrow> unit app_result" where
  "check_deletable cfg name =
     (if current_environment cfg = name then Inl (name_error CodeInvalidArgument name)
      else if \<not> has_environment cfg name then Inl (name_error CodeEnvironmentMissing name)
      else Inr ())"

definition delete_environment ::
  "toml_lib \<Rightarrow> (string \<Rightarrow> bool) \<Rightarrow> config_io \<Rightarrow> string \<Rightarrow> config_files \<Rightarrow> config_files \<times> unit app_result" where
  "delete_environment tm uuid_ok io name fs =
     (case res_bind (load_project tm uuid_ok io fs) (\<lambda>cfg.
             res_bind (check_deletable cfg name) (\<lambda>_. remove_environment name cfg)) of
        Inl e \<Rightarrow> (fs, Inl (normalize_err e))
      | Inr cfg \<Rightarrow> (case save_project tm io cfg fs of (fs', r) \<Rightarrow> (fs', normalize_into r)))"

definition rename_local :: "string \<Rightarrow> string \<Rightarrow> local_config \<Rightarrow> local_config" where
  "rename_local old new l =
     l\<lparr>lc_current := (if lc_current l = old then new else lc_current l),
       lc_previous := (if lc_previous l = old then new else lc_previous l)\<rparr>"

definition rename_environment_app ::
  "toml_lib \<Rightarrow> (string \<Rightarrow> bool) \<Rightarrow> config_io \<Rightarrow> string \<Rightarrow> string \<Rightarrow> config_files \<Rightarrow> config_files \<times> unit app_result" where
  "rename_environment_app tm uuid_ok io old new fs =
     (case res_bind (load_project tm uuid_ok io fs) (rename_environment old new) of
        Inl e \<Rightarrow> (fs, Inl (normalize_err e))
      | Inr cfg \<Rightarrow>
          (case save_project tm io cfg fs of
             (fs1, Inl e) \<Rightarrow> (fs1, Inl (normalize_err e))
           | (fs1, Inr _) \<Rightarrow>
               if \<not> uuid_ok (pc_workspace_id cfg) then (fs1, Inr ())
               else case load_local_state tm io (pc_workspace_id cfg) fs1 of
                 Inl e \<Rightarrow> (fs1, Inl (normalize_err e))
               | Inr l \<Rightarrow>
                   if lc_current l \<noteq> old \<and> lc_previous l \<noteq> old then (fs1, Inr ())
                   else (case save_local_state tm io (pc_workspace_id cfg) (rename_local old new l) fs1 of
                           (fs2, r) \<Rightarrow> (fs2, normalize_into r))))"

subsection \<open>app/config.go\<close>

definition read_config :: "config_io \<Rightarrow> config_files \<Rightarrow> bytes app_result" where
  "read_config io fs =
     (case fs_toml fs of
        None \<Rightarrow> Inl (app_wrap CodeConfigNotFound (Some (Plain CauseOther)) [])
      | Some content \<Rightarrow>
          if io_toml_unreadable io then Inl (normalize_err (Wrapping [Plain CauseOther])) else Inr content)"

definition protected_error :: "string \<Rightarrow> go_error" where
  "protected_error key = app_new CodeConfigProtected [(''key'', key)]"

definition check_protected_config :: "project_config \<Rightarrow> project_config \<Rightarrow> unit app_result" where
  "check_protected_config current nxt =
     (if pc_workspace_id current \<noteq> [] \<and> pc_workspace_id nxt \<noteq> pc_workspace_id current
      then Inl (protected_error ''workspace_id'')
      else if pc_control_genesis current \<noteq> [] \<and> pc_control_genesis nxt \<noteq> pc_control_genesis current
      then Inl (protected_error ''control_genesis'')
      else check_all (\<lambda>name. if has_environment current name \<and> cfg_resource nxt name \<noteq> cfg_resource current name
                             then Inl (protected_error (''env.'' @ name @ ''.incarnation'')) else Inr ())
             (map fst (pc_environments nxt)))"

definition write_config :: "toml_lib \<Rightarrow> config_io \<Rightarrow> bytes \<Rightarrow> config_files \<Rightarrow> config_files \<times> unit app_result" where
  "write_config tm io content fs =
     (case res_bind (parse_project tm content) (\<lambda>cfg. res_bind (validate_project_outputs cfg) (\<lambda>_.
             case fs_toml fs of
               None \<Rightarrow> Inr ()
             | Some existing \<Rightarrow>
                 if io_toml_unreadable io then Inl (Wrapping [Plain CauseOther])
                 else case decode_project tm existing of
                   Inl e \<Rightarrow> Inl (app_wrap CodeInvalidArgument (Some e) [])
                 | Inr current \<Rightarrow> check_protected_config current cfg)) of
        Inl e \<Rightarrow> (fs, Inl (normalize_err e))
      | Inr _ \<Rightarrow>
          (case io_toml_write_fails io of
             Some left \<Rightarrow> (fs\<lparr>fs_toml := left\<rparr>, Inl (normalize_err (Plain CauseOther)))
           | None \<Rightarrow> (fs\<lparr>fs_toml := Some content\<rparr>, Inr ())))"

end
