(* ===== verification/Config_Props.thy ===== *)
theory Config_Props
  imports Config
begin

text \<open>
  What the configuration guarantees: renaming an environment keeps its lineage in storage, the
  editor's checks protect the trust root and the lineages, and a checked output path stays below the
  directory it is joined to.
\<close>

subsection \<open>Environments\<close>

lemma cfg_resource_cong:
  assumes "gm_get (pc_environments a) n = gm_get (pc_environments b) n" and "n \<noteq> []"
  shows "cfg_resource a n = cfg_resource b n"
  using assms by (simp add: cfg_resource_def incarnation_of_def Let_def)

lemma rename_environment_Inr:
  assumes "rename_environment old new cfg = Inr cfg'"
  obtains env where "valid_environment_name new" "gm_get (pc_environments cfg) old = Some env"
    "\<not> has_environment cfg new" "old \<noteq> new" "pc_current cfg' = pc_current cfg" "pc_workspace_id cfg' = pc_workspace_id cfg"
    "pc_default_env cfg' = (if pc_default_env cfg = old then new else pc_default_env cfg)"
    "\<And>n. gm_get (pc_environments cfg') n =
       (if n = new then Some \<lparr>ec_output = (if ec_output env = [] \<or> ec_output env = default_output old
            then default_output new else ec_output env),
          ec_incarnation = (if ec_incarnation env = [] then old else ec_incarnation env)\<rparr>
        else if n = old then None else gm_get (pc_environments cfg) n)"
proof -
  obtain env where env: "gm_get (pc_environments cfg) old = Some env"
    using assms by (auto simp: rename_environment_def split: if_splits option.splits)
  have c: "valid_environment_name new" "\<not> has_environment cfg new"
    using assms env by (auto simp: rename_environment_def split: if_splits)
  moreover have "old \<noteq> new"
    using c(2) env by (auto simp: has_environment_def gm_has_get)
  ultimately show thesis
    using assms by (intro that [OF _ env]) (auto simp: rename_environment_def env Let_def)
qed

lemma rename_keeps_resource:
  assumes "rename_environment old new cfg = Inr cfg'" and "old \<noteq> []"
  shows "cfg_resource cfg' new = cfg_resource cfg old"
    and "n \<noteq> old \<Longrightarrow> n \<noteq> new \<Longrightarrow> n \<noteq> [] \<Longrightarrow> cfg_resource cfg' n = cfg_resource cfg n"
proof -
  obtain env where r: "valid_environment_name new" "gm_get (pc_environments cfg) old = Some env" "old \<noteq> new"
    and g: "\<And>n. gm_get (pc_environments cfg') n =
       (if n = new then Some \<lparr>ec_output = (if ec_output env = [] \<or> ec_output env = default_output old
            then default_output new else ec_output env),
          ec_incarnation = (if ec_incarnation env = [] then old else ec_incarnation env)\<rparr>
        else if n = old then None else gm_get (pc_environments cfg) n)"
    by (rule rename_environment_Inr [OF assms(1)]) blast
  have "new \<noteq> []"
    using r(1) by (auto simp: valid_environment_name_def)
  then show "cfg_resource cfg' new = cfg_resource cfg old"
    using r(2) assms(2) by (simp add: cfg_resource_def incarnation_of_def g Let_def)
  show "cfg_resource cfg' n = cfg_resource cfg n" if "n \<noteq> old" "n \<noteq> new" "n \<noteq> []"
    using that by (intro cfg_resource_cong) (simp_all add: g)
qed

text \<open>
  What a file keeps of a configuration: everything but the personal choice.  The library's encoder and
  decoder are only asked to agree on the configuration and the state that are written.
\<close>

definition same_config :: "project_config \<Rightarrow> project_config \<Rightarrow> bool" where
  "same_config a b \<longleftrightarrow> pc_workspace_id a = pc_workspace_id b \<and> pc_control_genesis a = pc_control_genesis b
     \<and> pc_version a = pc_version b \<and> pc_default_env a = pc_default_env b
     \<and> gm_get (pc_environments a) = gm_get (pc_environments b)"

definition toml_keeps :: "toml_lib \<Rightarrow> project_config \<Rightarrow> bool" where
  "toml_keeps tm cfg \<longleftrightarrow> (\<forall>b. marshal_project tm cfg = Some b \<longrightarrow> (\<exists>c. tl_decode tm b = Some c \<and> same_config cfg c))"

definition local_keeps :: "toml_lib \<Rightarrow> local_config \<Rightarrow> bool" where
  "local_keeps tm l \<longleftrightarrow> (\<forall>b. tl_local_encode tm l = Some b \<longrightarrow> tl_local_decode tm b = Some l)"

lemma same_config_resource: "same_config a b \<Longrightarrow> n \<noteq> [] \<Longrightarrow> cfg_resource a n = cfg_resource b n"
  by (intro cfg_resource_cong) (simp_all add: same_config_def)

lemma gm_get_Nil_iff: "gm_get m = gm_get m' \<Longrightarrow> m = [] \<longleftrightarrow> m' = []"
  by (cases m; cases m') (auto simp: gm_get_def fun_eq_iff split: if_splits)

lemma current_environment_cong:
  "same_config a b \<Longrightarrow> pc_current a = pc_current b \<Longrightarrow> current_environment a = current_environment b"
  using gm_get_Nil_iff [of "pc_environments a" "pc_environments b"]
  by (simp add: current_environment_def has_environment_def gm_has_get same_config_def)

lemma current_after_rename:
  assumes "rename_environment old new cfg = Inr cfg'" and "old \<noteq> []" and "pc_default_env cfg \<noteq> []" and "pc_current cfg \<noteq> new"
  shows "current_environment (cfg'\<lparr>pc_current := (if pc_current cfg = old then new else pc_current cfg)\<rparr>)
    = (if current_environment cfg = old then new else current_environment cfg)"
proof -
  obtain env where r: "valid_environment_name new" "gm_get (pc_environments cfg) old = Some env" "old \<noteq> new"
      "pc_default_env cfg' = (if pc_default_env cfg = old then new else pc_default_env cfg)"
    and g: "\<And>n. gm_get (pc_environments cfg') n =
       (if n = new then Some \<lparr>ec_output = (if ec_output env = [] \<or> ec_output env = default_output old
            then default_output new else ec_output env),
          ec_incarnation = (if ec_incarnation env = [] then old else ec_incarnation env)\<rparr>
        else if n = old then None else gm_get (pc_environments cfg) n)"
    by (rule rename_environment_Inr [OF assms(1)]) blast
  have ne: "pc_environments cfg \<noteq> []" "pc_environments cfg' \<noteq> []" "new \<noteq> []"
    using r(1,2) g [of new] by (auto simp: valid_environment_name_def)
  show ?thesis
    using r(2-4) assms(2-4) ne by (auto simp: current_environment_def has_environment_def gm_has_get g)
qed

lemma load_project_Inr:
  assumes "load_project tm uuid_ok io fs = Inr cfg" and "uuid_ok (pc_workspace_id cfg)"
  obtains content c l where "fs_toml fs = Some content" "\<not> io_toml_unreadable io" "tl_decode tm content = Some c"
    "pc_version c = current_version" "load_local_state tm io (pc_workspace_id c) fs = Inr l"
    "cfg = c\<lparr>pc_current := lc_current l\<rparr>"
proof -
  obtain c where c: "load_project_from tm io fs = Inr c"
    using assms(1) by (auto simp: load_project_def res_simps)
  then obtain content where "fs_toml fs = Some content" "\<not> io_toml_unreadable io" "tl_decode tm content = Some c"
    "pc_version c = current_version"
    by (auto simp: load_project_from_def parse_project_def decode_project_def res_simps split: option.splits if_splits)
  moreover have "uuid_ok (pc_workspace_id c)"
    using assms c by (auto simp: load_project_def res_simps split: if_splits)
  ultimately show thesis
    using assms(1) c by (auto simp: load_project_def res_simps intro: that)
qed

lemma save_project_Inr:
  "save_project tm io cfg fs = (fs', Inr u) \<longleftrightarrow>
     io_toml_write_fails io = None \<and> (\<exists>b. marshal_project tm cfg = Some b \<and> fs' = fs\<lparr>fs_toml := Some b\<rparr>)"
  by (auto simp: save_project_def split: option.splits)

lemma load_local_toml [simp]: "load_local_state tm io ws (fs\<lparr>fs_toml := x\<rparr>) = load_local_state tm io ws fs"
  by (simp add: load_local_state_def)

lemma save_local_Inr:
  "save_local_state tm io ws l fs = (fs', Inr u) \<longleftrightarrow>
     io_local_write_fails io = None
     \<and> (\<exists>b. tl_local_encode tm l = Some b \<and> fs' = fs\<lparr>fs_local := (fs_local fs)(ws := Some b)\<rparr>)"
  by (auto simp: save_local_state_def split: option.splits)

lemma normalize_into_Inr [simp]: "normalize_into r = Inr x \<longleftrightarrow> r = Inr x"
  by (cases r) (simp_all add: normalize_into_def)

text \<open>A configuration that was written is read again, with the personal choice of the local state.\<close>

lemma load_project_written:
  assumes "toml_keeps tm cfg" and "marshal_project tm cfg = Some b" and "fs_toml fs = Some b"
    and "\<not> io_toml_unreadable io" and "pc_version cfg = current_version" and "uuid_ok (pc_workspace_id cfg)"
    and "load_local_state tm io (pc_workspace_id cfg) fs = Inr l"
  obtains cfg' where "load_project tm uuid_ok io fs = Inr cfg'" "same_config cfg cfg'" "pc_current cfg' = lc_current l"
proof -
  obtain c where c: "tl_decode tm b = Some c" "same_config cfg c"
    using assms(1,2) by (auto simp: toml_keeps_def)
  then have "load_project tm uuid_ok io fs = Inr (c\<lparr>pc_current := lc_current l\<rparr>)"
    using assms(3-7) by (simp add: load_project_def load_project_from_def parse_project_def decode_project_def same_config_def)
  with c(2) show thesis
    by (intro that [of "c\<lparr>pc_current := lc_current l\<rparr>"]) (simp_all add: same_config_def)
qed

subsection \<open>Paths\<close>

lemma dotdot_stays:
  "''..'' \<in> set kept \<Longrightarrow> ''..'' \<in> set (foldl (clean_step False) kept es)"
  by (induction es arbitrary: kept) (auto simp: clean_step_def split: list.splits)

text \<open>Elements that never climb above where they start leave what was below alone.\<close>

lemma clean_above:
  assumes "''..'' \<notin> set (foldl (clean_step False) kept es)"
  shows "foldl (clean_step r) (kept @ low) es = foldl (clean_step False) kept es @ low"
  using assms
proof (induction es arbitrary: kept)
  case (Cons e es)
  have "''..'' \<notin> set (clean_step False kept e)"
    using Cons.prems dotdot_stays [of "clean_step False kept e" es] by auto
  then have "clean_step r (kept @ low) e = clean_step False kept e @ low"
    by (cases kept) (auto simp: clean_step_def split: if_splits)
  with Cons show ?case by simp
qed simp

lemma clean_deeper:
  assumes "''..'' \<notin> set (foldl (clean_step False) a es)" and "length a \<le> length b" and "''..'' \<notin> set b"
  shows "''..'' \<notin> set (foldl (clean_step False) b es)
    \<and> length (foldl (clean_step False) a es) \<le> length (foldl (clean_step False) b es)"
  using assms
proof (induction es arbitrary: a b)
  case (Cons e es)
  have "''..'' \<notin> set (clean_step False a e)"
    using Cons.prems(1) dotdot_stays [of "clean_step False a e" es] by auto
  then have "length (clean_step False a e) \<le> length (clean_step False b e) \<and> ''..'' \<notin> set (clean_step False b e)"
    using Cons.prems(2,3) by (cases a; cases b) (auto simp: clean_step_def split: if_splits)
  with Cons.IH [of "clean_step False a e" "clean_step False b e"] Cons.prems(1) show ?case by simp
qed simp

lemma split_slash_not_Nil [simp]: "split_slash s \<noteq> []"
  by (induction s) (auto split: list.split)

lemma split_slash_append: "split_slash (d @ CHR ''/'' # p) = split_slash d @ split_slash p"
  by (induction d) (auto split: list.split)

lemma split_slash_prefix:
  "CHR ''/'' \<notin> set p \<Longrightarrow> split_slash (p @ s) = (p @ hd (split_slash s)) # List.tl (split_slash s)"
  by (induction p) (auto split: list.split)

lemma split_slash_suffix:
  "CHR ''/'' \<notin> set q \<Longrightarrow> split_slash (s @ q) = butlast (split_slash s) @ [last (split_slash s) @ q]"
proof (induction s)
  case Nil
  then show ?case using split_slash_prefix [of q "[]"] by simp
next
  case (Cons c s)
  then show ?case
    by (cases "split_slash s"; cases "split_slash (s @ q)") (auto split: if_splits list.splits)
qed

definition plain_part :: "string \<Rightarrow> bool" where
  "plain_part p \<longleftrightarrow> CHR ''/'' \<notin> set p \<and> CHR ''.'' \<notin> set p"

lemma plain_part_append: "plain_part (p @ q) \<longleftrightarrow> plain_part p \<and> plain_part q"
  by (auto simp: plain_part_def)

lemma drop_space_part:
  assumes "\<forall>t. plain_part (take (f t) t)"
  shows "\<exists>p. s = p @ drop_space f s \<and> plain_part p"
  using assms
proof (induction f s rule: drop_space.induct)
  case (1 f s)
  show ?case
  proof (cases "s = [] \<or> f s = 0")
    case True
    then show ?thesis by (subst drop_space.simps) (auto simp: plain_part_def)
  next
    case False
    with 1(1) [OF False 1(2)] obtain p where p: "drop (f s) s = p @ drop_space f (drop (f s) s)" "plain_part p" by blast
    have step: "drop_space f s = drop_space f (drop (f s) s)"
      using False by (subst drop_space.simps) simp
    have "s = take (f s) s @ drop (f s) s"
      by simp
    also have "\<dots> = (take (f s) s @ p) @ drop_space f s"
      unfolding step by (subst p(1)) simp
    finally have eq: "s = (take (f s) s @ p) @ drop_space f s" .
    have "plain_part (take (f s) s @ p)"
      using 1(2) p(2) by (simp add: plain_part_append)
    with eq show ?thesis by blast
  qed
qed

lemma plain_space:
  "plain_part (take (space_prefix s) s)" "plain_part (take (space_suffix s) s)"
proof -
  have byte: "plain_part [c]" if "ascii_space c \<or> 0x80 \<le> code c" for c
  proof -
    have "code c \<noteq> code CHR ''/''" "code c \<noteq> code CHR ''.''"
      using that by (auto simp: ascii_space_def) (simp_all add: code_def)
    then show ?thesis by (auto simp: plain_part_def)
  qed
  have wide: "plain_part w" if "wide_space w" for w
  proof -
    have "\<forall>c\<in>set w. 0x80 \<le> code c"
      using that by (induction w rule: wide_space.induct) auto
    then show ?thesis
      using byte by (auto simp: plain_part_def)
  qed
  have rev: "plain_part (rev w) = plain_part w" for w
    by (simp add: plain_part_def)
  have one: "plain_part (take (Suc 0) s)" if "ascii_space (hd s)"
    using that byte by (cases s) (auto simp: plain_part_def)
  have nil: "plain_part []"
    by (simp add: plain_part_def)
  show "plain_part (take (space_prefix s) s)"
    using one nil wide by (simp add: space_prefix_def)
  show "plain_part (take (space_suffix s) s)"
    using one nil wide [of "rev (take 2 s)"] wide [of "rev (take 3 s)"] by (simp add: space_suffix_def rev)
qed

lemma trim_space_parts:
  obtains p q where "s = p @ trim_space s @ q" "plain_part p" "plain_part q"
proof -
  obtain p where p: "s = p @ drop_space space_prefix s" "plain_part p"
    using drop_space_part [of space_prefix s] plain_space(1) by blast
  let ?r = "rev (drop_space space_prefix s)"
  obtain q where q: "?r = q @ drop_space space_suffix ?r" "plain_part q"
    using drop_space_part [of space_suffix ?r] plain_space(2) by blast
  have "drop_space space_prefix s = rev (q @ drop_space space_suffix ?r)"
    using q(1) by (metis rev_rev_ident)
  then have "s = p @ trim_space s @ rev q"
    using p(1) by (simp add: trim_space_def)
  with p(2) q(2) show thesis
    by (intro that [of p "rev q"]) (simp_all add: plain_part_def)
qed

text \<open>A relative path stays below when its elements are kept without a parent, and not all dropped.\<close>

definition stays_below :: "string \<Rightarrow> bool" where
  "stays_below p \<longleftrightarrow> (let kept = foldl (clean_step False) [] (split_slash p) in ''..'' \<notin> set kept \<and> kept \<noteq> [])"

lemma clean_step_name: "e \<noteq> [] \<Longrightarrow> e \<noteq> ''.'' \<Longrightarrow> e \<noteq> ''..'' \<Longrightarrow> clean_step r kept e = e # kept"
  by (simp add: clean_step_def)

lemma plain_name: "p \<noteq> [] \<Longrightarrow> plain_part p \<Longrightarrow> p @ e \<noteq> ''.'' \<and> p @ e \<noteq> ''..'' \<and> e @ p \<noteq> ''.'' \<and> e @ p \<noteq> ''..''"
  by (auto simp: plain_part_def append_eq_Cons_conv)

lemma stays_below_prefix:
  assumes "stays_below s" and "plain_part p"
  shows "stays_below (p @ s)"
proof (cases "p = []")
  case False
  let ?e = "hd (split_slash s)" and ?es = "List.tl (split_slash s)"
  have split: "split_slash s = ?e # ?es"
    by simp
  have ps: "split_slash (p @ s) = (p @ ?e) # ?es"
    using assms(2) by (intro split_slash_prefix) (simp add: plain_part_def)
  have start: "clean_step False [] (p @ ?e) = [p @ ?e]"
    using plain_name [OF False assms(2), of ?e] False by (intro clean_step_name) auto
  have base: "''..'' \<notin> set (foldl (clean_step False) (clean_step False [] ?e) ?es)"
    "foldl (clean_step False) (clean_step False [] ?e) ?es \<noteq> []"
    using assms(1) by (auto simp: stays_below_def Let_def) (metis foldl_Cons split)+
  have "length (clean_step False [] ?e) \<le> length [p @ ?e]"
    by (simp add: clean_step_def)
  from clean_deeper [OF base(1) this] base(2) show ?thesis
    using plain_name [OF False assms(2), of ?e] by (auto simp: stays_below_def Let_def ps start)
qed (use assms in simp)

lemma stays_below_suffix:
  assumes "stays_below s" and "plain_part q"
  shows "stays_below (s @ q)"
proof (cases "q = []")
  case False
  let ?e = "last (split_slash s)" and ?es = "butlast (split_slash s)"
  have sq: "split_slash (s @ q) = ?es @ [?e @ q]"
    using assms(2) by (intro split_slash_suffix) (simp add: plain_part_def)
  have "foldl (clean_step False) [] (split_slash s) = foldl (clean_step False) [] (?es @ [?e])"
    by (subst append_butlast_last_id) simp_all
  then have "foldl (clean_step False) [] (split_slash s) = clean_step False (foldl (clean_step False) [] ?es) ?e"
    unfolding foldl_append by simp
  then have "''..'' \<notin> set (clean_step False (foldl (clean_step False) [] ?es) ?e)"
    using assms(1) by (simp add: stays_below_def Let_def)
  then have "''..'' \<notin> set (foldl (clean_step False) [] ?es)"
    using dotdot_stays [of "foldl (clean_step False) [] ?es" "[?e]"] by auto
  moreover have "clean_step False (foldl (clean_step False) [] ?es) (?e @ q) = (?e @ q) # foldl (clean_step False) [] ?es"
    using plain_name [OF False assms(2), of ?e] False by (intro clean_step_name) auto
  ultimately show ?thesis
    using plain_name [OF False assms(2), of ?e] by (auto simp: stays_below_def Let_def sq)
qed (use assms in simp)

text \<open>The parents that are kept come first in the cleaned path.\<close>

definition parents_first :: "string list \<Rightarrow> bool" where
  "parents_first kept \<longleftrightarrow> set (dropWhile (\<lambda>k. k \<noteq> ''..'') kept) \<subseteq> {''..''}"

lemma clean_step_up:
  "clean_step False kept ''..'' = (if kept = [] then [''..''] else if hd kept = ''..'' then ''..'' # kept else List.tl kept)"
  by (cases kept) (simp_all add: clean_step_def)

lemma parents_first_step:
  assumes "parents_first kept"
  shows "parents_first (clean_step False kept e)"
proof (cases "e = ''..''")
  case True
  show ?thesis
  proof (cases "kept = [] \<or> hd kept \<noteq> ''..''")
    case True
    show ?thesis
    proof (cases kept)
      case Nil
      then show ?thesis
        unfolding \<open>e = ''..''\<close> clean_step_up by (simp add: parents_first_def)
    next
      case (Cons k ks)
      with True have k: "k \<noteq> ''..''" by simp
      show ?thesis
        using assms k unfolding \<open>e = ''..''\<close> clean_step_up Cons parents_first_def by simp
    qed
  next
    case False
    then have "dropWhile (\<lambda>k. k \<noteq> ''..'') kept = kept"
      by (cases kept) auto
    then show ?thesis
      using assms False unfolding \<open>e = ''..''\<close> clean_step_up by (simp add: parents_first_def)
  qed
next
  case False
  then show ?thesis
    using assms by (simp add: clean_step_def parents_first_def)
qed

lemma parents_first_fold: "parents_first kept \<Longrightarrow> parents_first (foldl (clean_step False) kept es)"
  by (induction es arbitrary: kept) (simp_all add: parents_first_step)

lemma output_ok_below:
  assumes "output_ok p" and "trim_space p \<noteq> []"
  shows "stays_below (trim_space p)"
proof -
  let ?t = "trim_space p" and ?kept = "foldl (clean_step False) [] (split_slash (trim_space p))"
  have ok: "\<not> is_abs ?t" "clean_path ?t \<noteq> ''.''" "clean_path ?t \<noteq> ''..''" "\<not> starts_with ''../'' (clean_path ?t)"
    using assms by (auto simp: output_ok_def Let_def)
  then have ne: "?kept \<noteq> []" and path: "clean_path ?t = join_slash (rev ?kept)"
    by (auto simp: clean_path_def clean_elems_def)
  have first: "parents_first ?kept"
    by (rule parents_first_fold) (simp add: parents_first_def)
  have "''..'' \<notin> set ?kept"
  proof
    assume mem: "''..'' \<in> set ?kept"
    let ?b = "dropWhile (\<lambda>k. k \<noteq> ''..'') ?kept"
    have "?b \<noteq> []"
      using mem by (simp add: dropWhile_eq_Nil_conv)
    moreover have "last ?kept = last ?b"
      using \<open>?b \<noteq> []\<close> by (metis last_append takeWhile_dropWhile_id)
    moreover have "last ?b \<in> {''..''}"
      using first last_in_set [OF \<open>?b \<noteq> []\<close>] unfolding parents_first_def by (rule subsetD)
    ultimately have "last ?kept = ''..''"
      by (metis singletonD)
    then have "rev ?kept = ''..'' # rev (butlast ?kept)"
      using ne by (metis append_butlast_last_id rev_eq_Cons_iff rev_rev_ident)
    then show False
      using ok(3,4) path by (cases "rev (butlast ?kept)") (auto simp: starts_with_def)
  qed
  with ne show ?thesis
    by (simp add: stays_below_def Let_def)
qed

text \<open>
  An output path that the checks accept stays below the directory it is joined to.  Its cleaned form is
  the cleaned directory followed by at least one more name, none of them a parent; the check looks at the
  path without the surrounding white space, and the file that is written keeps it.
\<close>

theorem checked_output_below:
  assumes "output_ok out" and "trim_space out \<noteq> []" and "dir \<noteq> []"
  shows "\<exists>names. names \<noteq> [] \<and> ''..'' \<notin> set names
    \<and> join_path dir out = (if is_abs dir then CHR ''/'' # join_slash (clean_elems dir @ names)
                           else join_slash (clean_elems dir @ names))"
proof -
  obtain p q where "out = p @ trim_space out @ q" "plain_part p" "plain_part q"
    by (rule trim_space_parts)
  with output_ok_below [OF assms(1,2)] have below: "stays_below out"
    by (metis stays_below_prefix stays_below_suffix)
  let ?kept = "foldl (clean_step False) [] (split_slash out)"
  let ?low = "foldl (clean_step (is_abs dir)) [] (split_slash dir)"
  have kept: "''..'' \<notin> set ?kept" "?kept \<noteq> []"
    using below by (simp_all add: stays_below_def Let_def)
  have abs: "is_abs (dir @ CHR ''/'' # out) = is_abs dir"
    using assms(3) by (cases dir) (simp_all add: is_abs_def)
  have "clean_elems (dir @ CHR ''/'' # out) = clean_elems dir @ rev ?kept"
    using clean_above [OF kept(1), of "is_abs dir" ?low]
    by (simp add: clean_elems_def abs split_slash_append)
  with kept abs show ?thesis
    by (intro exI [of _ "rev ?kept"]) (auto simp: join_path_def clean_path_def)
qed

theorem checked_output_below_witness:
  "\<exists>names. names \<noteq> [] \<and> ''..'' \<notin> set names
    \<and> join_path ''/repo'' ''a/../.env'' = CHR ''/'' # join_slash (clean_elems ''/repo'' @ names)"
proof -
  have sp: "trim_space ''a/../.env'' = ''a/../.env''"
    by (rule trim_space_id) (simp add: space_prefix_def space_suffix_def ascii_space_def code_def)
  have "output_ok ''a/../.env''"
    by (simp add: output_ok_def sp clean_path_def clean_elems_def is_abs_def clean_step_def starts_with_def)
  from checked_output_below [OF this, of "''/repo''"] show ?thesis
    by (simp add: sp is_abs_def)
qed

subsection \<open>Renaming and editing\<close>

text \<open>
  Renaming keeps the lineage.  After a successful rename the file that is read again stores the new name
  where the old one was stored, every other environment where it was, and whoever used the old
  environment uses the new one.  The proviso on the current environment leaves out a team without a
  default and a personal choice that named the new environment before it existed.
\<close>

theorem rename_keeps_lineage:
  assumes "load_project tm uuid_ok io fs = Inr cfg" and "uuid_ok (pc_workspace_id cfg)" and "old \<noteq> []"
    and "rename_environment_app tm uuid_ok io old new fs = (fs', Inr ())"
    and "\<And>cfg'. rename_environment old new cfg = Inr cfg' \<Longrightarrow> toml_keeps tm cfg' \<and> pc_version cfg' = current_version"
    and "\<And>l. load_local_state tm io (pc_workspace_id cfg) fs = Inr l \<Longrightarrow> local_keeps tm (rename_local old new l)"
  shows "\<exists>cfg'. load_project tm uuid_ok io fs' = Inr cfg' \<and> cfg_resource cfg' new = cfg_resource cfg old
    \<and> (\<forall>n. n \<noteq> old \<longrightarrow> n \<noteq> new \<longrightarrow> n \<noteq> [] \<longrightarrow> cfg_resource cfg' n = cfg_resource cfg n)
    \<and> (pc_default_env cfg \<noteq> [] \<longrightarrow> pc_current cfg \<noteq> new \<longrightarrow>
         current_environment cfg' = (if current_environment cfg = old then new else current_environment cfg))"
proof -
  obtain content c l where f: "fs_toml fs = Some content" "\<not> io_toml_unreadable io"
    "load_local_state tm io (pc_workspace_id cfg) fs = Inr l" "pc_current cfg = lc_current l"
    by (rule load_project_Inr [OF assms(1,2)]) auto
  obtain cfg1 where ren: "rename_environment old new cfg = Inr cfg1"
    using assms(1,4) by (cases "rename_environment old new cfg") (auto simp: rename_environment_app_def)
  have ws: "pc_workspace_id cfg1 = pc_workspace_id cfg" "pc_current cfg1 = pc_current cfg"
    by (rule rename_environment_Inr [OF ren]; simp)+
  obtain b where b: "marshal_project tm cfg1 = Some b" "io_toml_write_fails io = None"
    using assms(1,4) ren
    by (cases "marshal_project tm cfg1"; cases "io_toml_write_fails io")
      (auto simp: rename_environment_app_def save_project_def)
  let ?fs1 = "fs\<lparr>fs_toml := Some b\<rparr>"
  have l1: "load_local_state tm io (pc_workspace_id cfg1) ?fs1 = Inr l"
    using f(3) by (simp add: ws)
  have eq: "(fs', Inr ()) = (if lc_current l \<noteq> old \<and> lc_previous l \<noteq> old then (?fs1, Inr ())
      else (case save_local_state tm io (pc_workspace_id cfg1) (rename_local old new l) ?fs1 of (fs2, r) \<Rightarrow> (fs2, normalize_into r)))"
    using assms(1,2,4) ren b l1 ws by (simp add: rename_environment_app_def save_project_def)
  have after: "fs_toml fs' = Some b \<and> load_local_state tm io (pc_workspace_id cfg1) fs' = Inr (rename_local old new l)"
  proof (cases "lc_current l \<noteq> old \<and> lc_previous l \<noteq> old")
    case True
    then show ?thesis using eq l1 by (auto simp: rename_local_def)
  next
    case False
    then have "save_local_state tm io (pc_workspace_id cfg1) (rename_local old new l) ?fs1 = (fs', Inr ())"
      using eq by (cases "save_local_state tm io (pc_workspace_id cfg1) (rename_local old new l) ?fs1")
        (metis normalize_into_Inr old.prod.case prod.inject)
    with assms(6) [OF f(3)] l1 show ?thesis
      by (auto simp: save_local_Inr load_local_state_def local_keeps_def split: if_splits)
  qed
  obtain cfg' where cfg': "load_project tm uuid_ok io fs' = Inr cfg'" "same_config cfg1 cfg'"
    "pc_current cfg' = lc_current (rename_local old new l)"
    using load_project_written [of tm cfg1 b fs' io uuid_ok "rename_local old new l"] assms(2) assms(5) [OF ren] b(1) after f(2) ws
    by auto
  have new: "new \<noteq> []"
    by (rule rename_environment_Inr [OF ren]) (simp add: valid_environment_name_def)
  have "current_environment cfg' = current_environment (cfg1\<lparr>pc_current := (if pc_current cfg = old then new else pc_current cfg)\<rparr>)"
    using cfg'(2,3) f(4)
    by (intro current_environment_cong [symmetric]) (simp_all add: same_config_def rename_local_def)
  then show ?thesis
    using cfg' rename_keeps_resource [OF ren assms(3)] same_config_resource [OF cfg'(2)] new current_after_rename [OF ren assms(3)]
    by auto
qed

text \<open>
  C17: what the editor cannot change.  When an edit of a readable \<open>enbu.toml\<close> is accepted, the file is exactly the
  text that was given, the workspace and the trusted genesis are those of the file before, once they
  were set, every environment of both is stored where it was, and every output path passes the check;
  an edit that is refused leaves the file alone unless the write itself failed.
\<close>

theorem write_config_protects:
  assumes "write_config tm io content fs = (fs', r)" and "fs_toml fs = Some existing"
    and "decode_project tm existing = Inr cur"
  shows "r = Inr () \<and> fs' = fs\<lparr>fs_toml := Some content\<rparr>
      \<and> (\<exists>nxt. parse_project tm content = Inr nxt
          \<and> (pc_workspace_id cur \<noteq> [] \<longrightarrow> pc_workspace_id nxt = pc_workspace_id cur)
          \<and> (pc_control_genesis cur \<noteq> [] \<longrightarrow> pc_control_genesis nxt = pc_control_genesis cur)
          \<and> (\<forall>n. has_environment nxt n \<longrightarrow> has_environment cur n \<longrightarrow> cfg_resource nxt n = cfg_resource cur n)
          \<and> (\<forall>(n, env)\<in>set (pc_environments nxt). output_ok (ec_output env)))
    \<or> (\<exists>e. r = Inl e \<and> (fs' = fs \<or> io_toml_write_fails io \<noteq> None))"
proof (cases r)
  case (Inl e)
  then show ?thesis
    using assms(1) by (auto simp: write_config_def split: sum.splits option.splits)
next
  case (Inr u)
  obtain nxt where n: "parse_project tm content = Inr nxt"
    using assms(1) Inr by (cases "parse_project tm content") (auto simp: write_config_def)
  have v: "validate_project_outputs nxt = Inr ()"
    using assms(1) Inr n by (cases "validate_project_outputs nxt") (auto simp: write_config_def)
  have r: "\<not> io_toml_unreadable io"
    using assms(1,2) Inr n v by (auto simp: write_config_def split: if_splits)
  have c: "check_protected_config cur nxt = Inr ()"
    using assms Inr n v r by (cases "check_protected_config cur nxt") (auto simp: write_config_def)
  have fs': "fs' = fs\<lparr>fs_toml := Some content\<rparr>"
    using assms Inr n v r c by (auto simp: write_config_def split: option.splits)
  have out: "output_ok (ec_output env)" if "(m, env) \<in> set (pc_environments nxt)" for m env
    using v that unfolding validate_project_outputs_def check_all_Inr by (auto split: if_splits)
  have res: "cfg_resource nxt m = cfg_resource cur m" if "has_environment nxt m" "has_environment cur m" for m
    using c that
    by (auto simp: check_protected_config_def check_all_Inr has_environment_def gm_has_iff split: if_splits)
  have trust: "pc_workspace_id cur \<noteq> [] \<longrightarrow> pc_workspace_id nxt = pc_workspace_id cur"
    "pc_control_genesis cur \<noteq> [] \<longrightarrow> pc_control_genesis nxt = pc_control_genesis cur"
    using c by (auto simp: check_protected_config_def split: if_splits)
  show ?thesis
    using Inr fs' n out res trust by auto
qed

subsection \<open>Witnesses\<close>

definition sample_project :: project_config where
  "sample_project =
     \<lparr>pc_workspace_id = ''w'', pc_control_genesis = ''g'',
      pc_storage = \<lparr>sc_url = [], sc_region = [], sc_endpoint = [], sc_path_style = False, sc_plain_http = False\<rparr>,
      pc_version = current_version, pc_default_env = ''dev'',
      pc_environments = [(''dev'', \<lparr>ec_output = ''.env.dev'', ec_incarnation = []\<rparr>)], pc_current = []\<rparr>"

definition renamed_project :: project_config where
  "renamed_project = sample_project\<lparr>pc_default_env := ''prod'',
     pc_environments := [(''prod'', \<lparr>ec_output = ''.env.prod'', ec_incarnation = ''dev''\<rparr>)]\<rparr>"

definition sample_toml :: toml_lib where
  "sample_toml =
     \<lparr>tl_decode = (\<lambda>b. Some (if b = ''A'' then sample_project else renamed_project)),
      tl_header = (\<lambda>c. Some (pc_default_env c)), tl_storage = (\<lambda>c. Some []), tl_key = concat,
      tl_env = (\<lambda>e. Some (ec_incarnation e)), tl_local_decode = (\<lambda>b. Some \<lparr>lc_current = b, lc_previous = []\<rparr>),
      tl_local_encode = (\<lambda>l. Some (lc_current l))\<rparr>"

definition sample_io :: config_io where
  "sample_io = \<lparr>io_toml_unreadable = False, io_toml_write_fails = None, io_local_unreadable = False, io_local_write_fails = None\<rparr>"

definition sample_config_files :: config_files where
  "sample_config_files = \<lparr>fs_toml = Some ''A'', fs_local = (\<lambda>_. Some ''dev'')\<rparr>"

lemmas sample_config_defs = sample_project_def renamed_project_def sample_toml_def sample_io_def sample_config_files_def

lemma sample_load:
  "load_project sample_toml (\<lambda>_. True) sample_io sample_config_files = Inr (sample_project\<lparr>pc_current := ''dev''\<rparr>)"
  by (simp add: load_project_def load_project_from_def parse_project_def decode_project_def load_local_state_def
      sample_config_defs)

lemma sample_rename:
  "rename_environment ''dev'' ''prod'' (sample_project\<lparr>pc_current := ''dev''\<rparr>) = Inr (renamed_project\<lparr>pc_current := ''dev''\<rparr>)"
  by (simp add: rename_environment_def valid_environment_name_def env_name_char_def in_range_def code_def has_environment_def
      gm_get_def gm_has_def gm_put_def gm_del_def default_output_def sample_project_def renamed_project_def Let_def)

lemma sample_rename_app:
  "snd (rename_environment_app sample_toml (\<lambda>_. True) sample_io ''dev'' ''prod'' sample_config_files) = Inr ()"
  by (simp add: rename_environment_app_def sample_load sample_rename save_project_def marshal_project_def
      load_local_state_def)
    (simp add: sample_config_defs normalize_into_def save_local_state_def)

theorem rename_keeps_lineage_witness:
  "\<exists>fs' cfg'. load_project sample_toml (\<lambda>_. True) sample_io fs' = Inr cfg'
     \<and> cfg_resource cfg' ''prod'' = cfg_resource (sample_project\<lparr>pc_current := ''dev''\<rparr>) ''dev''
     \<and> current_environment cfg' = ''prod''"
proof -
  let ?cfg = "sample_project\<lparr>pc_current := ''dev''\<rparr>"
  obtain fs' where r: "rename_environment_app sample_toml (\<lambda>_. True) sample_io ''dev'' ''prod'' sample_config_files = (fs', Inr ())"
    using sample_rename_app by (metis prod.collapse)
  have cur: "current_environment ?cfg = ''dev''" "pc_default_env ?cfg \<noteq> []" "pc_current ?cfg \<noteq> ''prod''"
    by (simp_all add: current_environment_def has_environment_def gm_has_def sample_project_def)
  have keeps: "toml_keeps sample_toml cfg' \<and> pc_version cfg' = current_version"
    if "rename_environment ''dev'' ''prod'' ?cfg = Inr cfg'" for cfg'
  proof -
    have "cfg' = renamed_project\<lparr>pc_current := ''dev''\<rparr>"
      using that unfolding sample_rename by simp
    then show ?thesis
      by (simp add: toml_keeps_def same_config_def marshal_project_def) (simp add: sample_config_defs)
  qed
  have local: "local_keeps sample_toml (rename_local ''dev'' ''prod'' l)"
    if "load_local_state sample_toml sample_io (pc_workspace_id ?cfg) sample_config_files = Inr l" for l
    using that by (auto simp: local_keeps_def load_local_state_def rename_local_def sample_config_defs)
  from rename_keeps_lineage [OF sample_load _ _ r keeps local] cur show ?thesis
    by auto
qed

theorem write_config_protects_witness:
  "\<exists>nxt. parse_project sample_toml ''A'' = Inr nxt \<and> pc_control_genesis nxt = ''g''
     \<and> write_config sample_toml sample_io ''A'' sample_config_files
       = (sample_config_files\<lparr>fs_toml := Some ''A''\<rparr>, Inr ())"
proof -
  have sp: "trim_space ''.env.dev'' = ''.env.dev''"
    by (rule trim_space_id) (simp add: space_prefix_def space_suffix_def ascii_space_def code_def)
  have out: "output_ok ''.env.dev''"
    by (simp add: output_ok_def sp clean_path_def clean_elems_def is_abs_def clean_step_def starts_with_def)
  have cur: "decode_project sample_toml ''A'' = Inr sample_project" "fs_toml sample_config_files = Some ''A''"
    by (simp_all add: decode_project_def sample_toml_def sample_config_files_def)
  have parse: "parse_project sample_toml ''A'' = Inr sample_project"
    by (simp add: parse_project_def cur sample_project_def)
  have w: "write_config sample_toml sample_io ''A'' sample_config_files = (sample_config_files\<lparr>fs_toml := Some ''A''\<rparr>, Inr ())"
    using out by (simp add: write_config_def parse cur validate_project_outputs_def check_protected_config_def)
      (simp add: sample_project_def sample_io_def)
  from write_config_protects [OF w cur(2,1)] w show ?thesis
    by (auto simp: sample_project_def)
qed

end
