(* ===== verification/Mask.thy ===== *)
theory Mask
  imports Text Prelude
begin

text \<open>
  Concealing secret values in the output of a command, \<open>cli/mask.go\<close>: the values that are masked, and
  the writer that conceals them in a stream that arrives in pieces.
\<close>

definition concealed :: bytes where
  "concealed = ''<concealed by enbu>''"

definition min_masked_length :: nat where
  "min_masked_length = 6"

subsection \<open>The values\<close>

definition add_value :: "bytes \<Rightarrow> bytes list \<Rightarrow> bytes list" where
  "add_value v vals = (if length v \<ge> min_masked_length \<and> v \<notin> set vals then vals @ [v] else vals)"

text \<open>\<open>strings.FieldsFunc\<close> on line ends: the non-empty runs between them.\<close>

fun fields_loop :: "bytes \<Rightarrow> bytes \<Rightarrow> bytes list" where
  "fields_loop [] cur = (if cur = [] then [] else [cur])"
| "fields_loop (c # s) cur =
     (if c = carriage_return \<or> c = newline then (if cur = [] then fields_loop s [] else cur # fields_loop s [])
      else fields_loop s (cur @ [c]))"

definition secret_lines :: "bytes \<Rightarrow> bytes list" where
  "secret_lines v = (if carriage_return \<in> set v \<or> newline \<in> set v then fields_loop v [] else [])"

fun masked_loop :: "bytes list \<Rightarrow> bytes list \<Rightarrow> bytes list" where
  "masked_loop [] vals = vals"
| "masked_loop (v # vs) vals = masked_loop vs (foldl (\<lambda>acc l. add_value l acc) (add_value v vals) (secret_lines v))"

text \<open>
  Longest first.  Go's sort is not stable; values of one length that both match at a place are equal,
  so their order does not matter.
\<close>

definition masked_values :: "(string, bytes) gomap \<Rightarrow> bytes list" where
  "masked_values secrets = rev (sort_key length (masked_loop (map snd secrets) []))"

subsection \<open>The writer\<close>

definition is_prefix :: "bytes \<Rightarrow> bytes \<Rightarrow> bool" where
  "is_prefix p s \<longleftrightarrow> length p \<le> length s \<and> take (length p) s = p"

text \<open>\<open>bytes.Index\<close>.\<close>

fun index_of :: "bytes \<Rightarrow> bytes \<Rightarrow> nat option" where
  "index_of v [] = (if v = [] then Some 0 else None)"
| "index_of v (c # s) = (if is_prefix v (c # s) then Some 0 else map_option Suc (index_of v s))"

fun first_match_loop :: "bytes list \<Rightarrow> bytes \<Rightarrow> (nat \<times> nat) option \<Rightarrow> (nat \<times> nat) option" where
  "first_match_loop [] b best = best"
| "first_match_loop (v # vs) b best =
     first_match_loop vs b
       (case index_of v b of
          None \<Rightarrow> best
        | Some i \<Rightarrow> (case best of None \<Rightarrow> Some (i, length v) | Some (at, n) \<Rightarrow> if i < at then Some (i, length v) else best))"

definition first_match :: "bytes list \<Rightarrow> bytes \<Rightarrow> (nat \<times> nat) option" where
  "first_match vals b = first_match_loop vals b None"

definition begins_longer :: "bytes list \<Rightarrow> bytes \<Rightarrow> nat \<Rightarrow> bool" where
  "begins_longer vals b n \<longleftrightarrow> list_ex (\<lambda>v. length v > n \<and> length b < length v \<and> is_prefix b v) vals"

text \<open>The inner loop of \<open>prefixLen\<close>, from \<open>j\<close> while it is below \<open>length b - longest\<close>.\<close>

fun prefix_from :: "bytes \<Rightarrow> bytes \<Rightarrow> nat list \<Rightarrow> nat \<Rightarrow> nat" where
  "prefix_from v b [] longest = longest"
| "prefix_from v b (j # js) longest =
     (if b ! j = v ! 0 \<and> is_prefix (drop j b) v then length b - j else prefix_from v b js longest)"

fun prefix_len_loop :: "bytes list \<Rightarrow> bytes \<Rightarrow> nat \<Rightarrow> nat" where
  "prefix_len_loop [] b longest = longest"
| "prefix_len_loop (v # vs) b longest =
     prefix_len_loop vs b (prefix_from v b [length b + 1 - length v ..< length b - longest] longest)"

definition prefix_len :: "bytes list \<Rightarrow> bytes \<Rightarrow> nat" where
  "prefix_len vals b = prefix_len_loop vals b 0"

text \<open>
  \<open>conceal\<close>: the output and what is held back.  The values are never empty; a match of length 0, which
  would keep the loop of the code going for ever, ends it here.
\<close>

function conceal_loop :: "bytes list \<Rightarrow> bool \<Rightarrow> bytes \<Rightarrow> bytes \<Rightarrow> bytes \<times> bytes" where
  "conceal_loop vals fin rest out =
     (case first_match vals rest of
        None \<Rightarrow>
          if fin then (out @ rest, [])
          else let hold = prefix_len vals rest
               in (out @ take (length rest - hold) rest, drop (length rest - hold) rest)
      | Some (i, n) \<Rightarrow>
          if \<not> fin \<and> begins_longer vals (drop i rest) n then (out @ take i rest, drop i rest)
          else if n = 0 \<or> rest = [] then (out @ rest, [])
          else conceal_loop vals fin (drop (i + n) rest) (out @ take i rest @ concealed))"
  by pat_completeness auto
termination
  by (relation "measure (\<lambda>(vals, fin, rest, out). length rest)") auto

declare conceal_loop.simps [simp del]

definition conceal :: "bytes list \<Rightarrow> bytes \<Rightarrow> bool \<Rightarrow> bytes \<times> bytes" where
  "conceal vals b fin = conceal_loop vals fin b []"

text \<open>
  The writer below takes bytes and says whether it took them; \<open>'w\<close> is its state.  The masker's own state
  is what it holds back.
\<close>

type_synonym 'w sink = "bytes \<Rightarrow> 'w \<Rightarrow> 'w \<times> bool"

definition masker_write :: "'w sink \<Rightarrow> bytes list \<Rightarrow> bytes \<Rightarrow> bytes \<times> 'w \<Rightarrow> (bytes \<times> 'w) \<times> nat option" where
  "masker_write sink vals p st =
     (case conceal vals (fst st @ p) False of
        (out, held) \<Rightarrow>
          (case sink out (snd st) of
             (w, ok) \<Rightarrow> ((held, w), if ok then Some (length p) else None)))"

definition masker_flush :: "'w sink \<Rightarrow> bytes list \<Rightarrow> bytes \<times> 'w \<Rightarrow> (bytes \<times> 'w) \<times> bool" where
  "masker_flush sink vals st =
     (if fst st = [] then (st, True)
      else case sink (fst (conceal vals (fst st) True)) (snd st) of (w, ok) \<Rightarrow> (([], w), ok))"

text \<open>\<open>outputFor\<close>: whether a stream is masked at all.\<close>

definition masks_output :: "bytes list \<Rightarrow> bool \<Rightarrow> bool \<Rightarrow> bool" where
  "masks_output vals disabled terminal \<longleftrightarrow> \<not> (disabled \<or> vals = [] \<or> terminal)"

subsection \<open>The specification\<close>

text \<open>Reading from the left, the longest value that starts at a place is replaced whole.\<close>

definition value_at :: "bytes list \<Rightarrow> bytes \<Rightarrow> bytes option" where
  "value_at vals s = find (\<lambda>v. is_prefix v s) vals"

function mask_all :: "bytes list \<Rightarrow> bytes \<Rightarrow> bytes" where
  "mask_all vals [] = []"
| "mask_all vals (c # s) =
     (case value_at vals (c # s) of
        None \<Rightarrow> c # mask_all vals s
      | Some v \<Rightarrow> if v = [] then c # mask_all vals s else concealed @ mask_all vals (drop (length v) (c # s)))"
  by pat_completeness auto
termination
  by (relation "measure (\<lambda>(vals, s). length s)") auto

text \<open>What the masker is used with: values that are not empty, longest first.\<close>

definition mask_order :: "bytes list \<Rightarrow> bool" where
  "mask_order vals \<longleftrightarrow> [] \<notin> set vals \<and> sorted_wrt (\<lambda>u v. length v \<le> length u) vals"

text \<open>No value starts strictly inside another value, or inside and beyond its end does not matter.\<close>

definition no_inner_value :: "bytes list \<Rightarrow> bool" where
  "no_inner_value vals \<longleftrightarrow> (\<forall>u\<in>set vals. \<forall>v\<in>set vals. \<forall>k. 0 < k \<longrightarrow> \<not> is_prefix u (drop k v))"

lemma is_prefix_iff: "is_prefix p s \<longleftrightarrow> (\<exists>t. s = p @ t)"
  by (auto simp: is_prefix_def) (metis append_take_drop_id)

lemma is_prefix_append: "is_prefix p s \<Longrightarrow> is_prefix p (s @ t)"
  by (auto simp: is_prefix_iff)

lemma is_prefix_append_cases:
  assumes "is_prefix v (s @ t)"
  obtains "is_prefix v s" | "length s < length v" "is_prefix s v"
proof (cases "length v \<le> length s")
  case True
  then show thesis
    using assms by (intro that(1)) (simp add: is_prefix_def)
next
  case False
  then have "take (length s) v = s"
    using assms by (auto simp: is_prefix_iff append_eq_append_conv2)
  with False show thesis
    by (intro that(2)) (auto simp: is_prefix_def)
qed

lemma index_of_Some: "index_of v s = Some i \<Longrightarrow> is_prefix v (drop i s) \<and> i \<le> length s \<and> (\<forall>j<i. \<not> is_prefix v (drop j s))"
proof (induction v s arbitrary: i rule: index_of.induct)
  case (2 v c s)
  show ?case
  proof (cases "is_prefix v (c # s)")
    case False
    then obtain k where k: "index_of v s = Some k" "i = Suc k"
      using 2(2) by auto
    from 2(1) [OF False k(1)] k(2) False show ?thesis
      by (auto simp: less_Suc_eq_0_disj)
  qed (use 2 in auto)
qed (auto simp: is_prefix_def split: if_splits)

lemma index_of_None: "index_of v s = None \<Longrightarrow> \<not> is_prefix v (drop j s) \<or> (v = [] \<and> length s < j)"
proof (induction v s arbitrary: j rule: index_of.induct)
  case (2 v c s)
  then show ?case by (cases j) (auto split: if_splits)
qed (auto simp: is_prefix_def split: if_splits)

lemma value_at_Some: "value_at vals s = Some u \<Longrightarrow> u \<in> set vals \<and> is_prefix u s"
  by (auto simp: value_at_def find_Some_iff)

lemma value_at_None: "value_at vals s = None \<longleftrightarrow> (\<forall>v\<in>set vals. \<not> is_prefix v s)"
  by (auto simp: value_at_def find_None_iff)

lemma value_at_longest:
  assumes "mask_order vals" and "value_at vals s = Some u" and "v \<in> set vals" and "is_prefix v s"
  shows "length v \<le> length u"
proof -
  obtain i where i: "i < length vals" "vals ! i = u" "\<forall>j<i. \<not> is_prefix (vals ! j) s"
    using assms(2) by (auto simp: value_at_def find_Some_iff)
  obtain j where j: "j < length vals" "vals ! j = v"
    using assms(3) by (auto simp: in_set_conv_nth)
  have "i \<le> j"
    using i(3) j(2) assms(4) by (metis leI)
  then show ?thesis
    using assms(1) i j sorted_wrt_nth_less [of "\<lambda>u v. length v \<le> length u" vals i j]
    unfolding mask_order_def by (cases "i = j") auto
qed

text \<open>What the search over the first values knows.\<close>

definition best_of :: "bytes list \<Rightarrow> bytes \<Rightarrow> (nat \<times> nat) option \<Rightarrow> bool" where
  "best_of us b best \<longleftrightarrow>
     (case best of
        None \<Rightarrow> \<forall>v\<in>set us. \<forall>j\<le>length b. \<not> is_prefix v (drop j b)
      | Some (i, n) \<Rightarrow> i \<le> length b \<and> (\<exists>u. value_at us (drop i b) = Some u \<and> length u = n)
          \<and> (\<forall>v\<in>set us. \<forall>j<i. \<not> is_prefix v (drop j b)))"

lemma value_at_snoc:
  "value_at (us @ [v]) s = (case value_at us s of Some u \<Rightarrow> Some u | None \<Rightarrow> if is_prefix v s then Some v else None)"
  by (induction us) (auto simp: value_at_def)

lemma best_of_step:
  assumes "best_of us b best" and "v \<noteq> []"
  shows "best_of (us @ [v]) b
    (case index_of v b of
       None \<Rightarrow> best
     | Some i \<Rightarrow> (case best of None \<Rightarrow> Some (i, length v) | Some (at, n) \<Rightarrow> if i < at then Some (i, length v) else best))"
proof (cases "index_of v b")
  case None
  then have "\<not> is_prefix v (drop j b)" for j
    using index_of_None [OF None, of j] assms(2) by simp
  with assms(1) None show ?thesis
    by (auto simp: best_of_def value_at_snoc split: option.splits)
next
  case (Some i)
  note s = index_of_Some [OF Some]
  show ?thesis
  proof (cases best)
    case None
    then have "value_at us (drop i b) = None"
      using assms(1) s by (auto simp: best_of_def value_at_None)
    with assms(1) None Some s show ?thesis
      by (auto simp: best_of_def value_at_snoc)
  next
    case (Some m)
    obtain at n where m: "m = (at, n)" by fastforce
    show ?thesis
    proof (cases "i < at")
      case True
      then have "value_at us (drop i b) = None"
        using assms(1) Some m by (auto simp: best_of_def value_at_None)
      with assms(1) True Some m s \<open>index_of v b = Some i\<close> show ?thesis
        by (auto simp: best_of_def value_at_snoc)
    next
      case False
      with assms(1) Some m s \<open>index_of v b = Some i\<close> show ?thesis
        by (auto simp: best_of_def value_at_snoc)
    qed
  qed
qed

lemma first_match_loop_best:
  "best_of us b best \<Longrightarrow> [] \<notin> set vs \<Longrightarrow> best_of (us @ vs) b (first_match_loop vs b best)"
proof (induction vs arbitrary: us best)
  case (Cons v vs)
  have "v \<noteq> []" "[] \<notin> set vs"
    using Cons.prems(2) by auto
  from Cons.IH [OF best_of_step [OF Cons.prems(1) this(1)] this(2)] show ?case by simp
qed simp

lemma first_match_best: "[] \<notin> set vals \<Longrightarrow> best_of vals b (first_match vals b)"
  using first_match_loop_best [of "[]" b None vals] by (simp add: first_match_def best_of_def)

subsection \<open>The final pass\<close>

lemma mask_all_skip:
  assumes "\<forall>v\<in>set vals. \<forall>j<i. \<not> is_prefix v (drop j s)" and "i \<le> length s"
  shows "mask_all vals s = take i s @ mask_all vals (drop i s)"
  using assms
proof (induction i arbitrary: s)
  case (Suc i)
  then obtain c t where s: "s = c # t" by (cases s) auto
  have "value_at vals (c # t) = None"
    using Suc.prems(1) s unfolding value_at_None by (metis drop0 zero_less_Suc)
  moreover have "\<forall>v\<in>set vals. \<forall>j<i. \<not> is_prefix v (drop j t)"
    using Suc.prems(1) s by (metis Suc_less_eq drop_Suc_Cons)
  ultimately show ?case
    using Suc.IH [of t] Suc.prems(2) s by simp
qed simp

lemma mask_all_value:
  assumes "value_at vals s = Some u" and "u \<noteq> []"
  shows "mask_all vals s = concealed @ mask_all vals (drop (length u) s)"
proof -
  obtain c t where "s = c # t"
    using value_at_Some [OF assms(1)] assms(2) by (cases s) (auto simp: is_prefix_def)
  with assms show ?thesis by simp
qed

lemma conceal_final:
  assumes "mask_order vals"
  shows "conceal_loop vals True rest out = (out @ mask_all vals rest, [])"
proof (induction "length rest" arbitrary: rest out rule: less_induct)
  case less
  have ne: "[] \<notin> set vals"
    using assms by (simp add: mask_order_def)
  note best = first_match_best [OF ne, of rest]
  show ?case
  proof (cases "first_match vals rest")
    case None
    with best have "mask_all vals rest = rest"
      using mask_all_skip [of vals "length rest" rest] by (simp add: best_of_def)
    with None show ?thesis
      by (subst conceal_loop.simps) simp
  next
    case (Some m)
    obtain i n where m: "m = (i, n)" by fastforce
    obtain u where u: "value_at vals (drop i rest) = Some u" "length u = n" "i \<le> length rest"
      and before_i: "\<forall>v\<in>set vals. \<forall>j<i. \<not> is_prefix v (drop j rest)"
      using best Some m by (auto simp: best_of_def)
    have un: "u \<noteq> []" "0 < n" "rest \<noteq> []"
      using value_at_Some [OF u(1)] ne u(2) by (auto simp: is_prefix_def)
    have eq: "conceal_loop vals True rest out = conceal_loop vals True (drop (i + n) rest) (out @ take i rest @ concealed)"
      using Some m un by (subst conceal_loop.simps) simp
    have "length (drop (i + n) rest) < length rest"
      using un by (simp add: diff_less)
    note ih = less [OF this, of "out @ take i rest @ concealed"]
    have "mask_all vals rest = take i rest @ concealed @ mask_all vals (drop (i + n) rest)"
      using mask_all_skip [OF before_i u(3)] mask_all_value [OF u(1) un(1)] u(2) by (simp add: add.commute)
    with eq ih show ?thesis by simp
  qed
qed

subsection \<open>Output that arrives in pieces\<close>

text \<open>An end of the text that begins a value, and is not all of it, is not longer than what is held back.\<close>

lemma prefix_from_spec:
  assumes "\<exists>j\<in>set js. b ! j = v ! 0 \<and> is_prefix (drop j b) v" and "sorted js"
  shows "\<exists>j\<in>set js. b ! j = v ! 0 \<and> is_prefix (drop j b) v \<and> prefix_from v b js longest = length b - j
    \<and> (\<forall>k\<in>set js. b ! k = v ! 0 \<and> is_prefix (drop k b) v \<longrightarrow> j \<le> k)"
  using assms by (induction js) auto

lemma prefix_from_none: "\<not> (\<exists>j\<in>set js. b ! j = v ! 0 \<and> is_prefix (drop j b) v) \<Longrightarrow> prefix_from v b js longest = longest"
  by (induction js) auto

definition begins_at :: "bytes \<Rightarrow> bytes \<Rightarrow> nat \<Rightarrow> bool" where
  "begins_at v b j \<longleftrightarrow> j < length b \<and> length b - j < length v \<and> is_prefix (drop j b) v"

lemma begins_at_first: "begins_at v b j \<Longrightarrow> b ! j = v ! 0"
  by (auto simp: begins_at_def is_prefix_iff nth_append)

lemma prefix_len_step:
  assumes "longest \<le> length b"
  shows "longest \<le> prefix_from v b [length b + 1 - length v ..< length b - longest] longest"
    and "prefix_from v b [length b + 1 - length v ..< length b - longest] longest \<le> length b"
    and "begins_at v b j \<Longrightarrow> length b - j \<le> prefix_from v b [length b + 1 - length v ..< length b - longest] longest"
proof -
  let ?js = "[length b + 1 - length v ..< length b - longest]"
  let ?r = "prefix_from v b ?js longest"
  let ?hit = "\<lambda>j. b ! j = v ! 0 \<and> is_prefix (drop j b) v"
  have cases: "(\<exists>i\<in>set ?js. ?hit i \<and> ?r = length b - i \<and> (\<forall>k\<in>set ?js. ?hit k \<longrightarrow> i \<le> k))
      \<or> (?r = longest \<and> \<not> (\<exists>k\<in>set ?js. ?hit k))"
    using prefix_from_spec [of ?js b v longest] prefix_from_none [of ?js b v longest] by auto
  then show "longest \<le> ?r" "?r \<le> length b"
    using assms by auto
  show "length b - j \<le> ?r" if "begins_at v b j"
  proof (cases "j < length b - longest")
    case True
    then have "j \<in> set ?js" "?hit j"
      using that begins_at_first [OF that] by (auto simp: begins_at_def)
    with cases show ?thesis by fastforce
  next
    case False
    with cases assms show ?thesis by auto
  qed
qed

lemma prefix_len_loop_spec:
  "longest \<le> length b \<Longrightarrow>
     longest \<le> prefix_len_loop vs b longest \<and> prefix_len_loop vs b longest \<le> length b
     \<and> (\<forall>v\<in>set vs. \<forall>j. begins_at v b j \<longrightarrow> length b - j \<le> prefix_len_loop vs b longest)"
proof (induction vs arbitrary: longest)
  case (Cons v vs)
  let ?l = "prefix_from v b [length b + 1 - length v ..< length b - longest] longest"
  note st = prefix_len_step [OF Cons.prems, of v]
  from Cons.IH [OF st(2)] st(1) st(3) show ?case
    by (auto intro: order_trans)
qed simp

lemma no_value_before:
  assumes "no_inner_value vals" and "u \<in> set vals" and "is_prefix u (drop i b)" and "i \<le> length b"
    and "\<forall>v\<in>set vals. \<forall>j<i. \<not> is_prefix v (drop j b)"
  shows "\<forall>v\<in>set vals. \<forall>j<i. \<not> is_prefix v (drop j (b @ x))"
proof (intro ballI allI impI notI)
  fix v j assume v: "v \<in> set vals" and j: "j < i" and p: "is_prefix v (drop j (b @ x))"
  have "drop j (b @ x) = drop j b @ x"
    using j assms(4) by simp
  with p have "is_prefix v (drop j b @ x)" by simp
  then show False
  proof (cases rule: is_prefix_append_cases)
    case 1
    then show False using assms(5) v j by blast
  next
    case 2
    then obtain t where "v = drop j b @ t"
      by (auto simp: is_prefix_iff)
    then have "drop (i - j) v = drop i b @ t"
      using j assms(4) by simp
    then have "is_prefix u (drop (i - j) v)"
      using is_prefix_append [OF assms(3), of t] by simp
    then show False
      using assms(1,2) v j unfolding no_inner_value_def by (metis zero_less_diff)
  qed
qed

text \<open>What the masker lets through is final: whatever comes later, it masks the rest alone.\<close>

lemma conceal_chunk:
  assumes "mask_order vals" and "no_inner_value vals"
    and "conceal_loop vals False rest out = (out', held)"
  shows "\<exists>o'. out' = out @ o' \<and> mask_all vals (rest @ x) = o' @ mask_all vals (held @ x)"
  using assms(3)
proof (induction "length rest" arbitrary: rest out rule: less_induct)
  case less
  have ne: "[] \<notin> set vals"
    using assms(1) by (simp add: mask_order_def)
  note best = first_match_best [OF ne, of rest]
  show ?case
  proof (cases "first_match vals rest")
    case None
    let ?h = "prefix_len vals rest"
    have h: "?h \<le> length rest" "\<forall>v\<in>set vals. \<forall>j. begins_at v rest j \<longrightarrow> length rest - j \<le> ?h"
      using prefix_len_loop_spec [of 0 rest vals] by (simp_all add: prefix_len_def)
    have "\<forall>v\<in>set vals. \<forall>j<length rest - ?h. \<not> is_prefix v (drop j (rest @ x))"
    proof (intro ballI allI impI notI)
      fix v j assume v: "v \<in> set vals" and j: "j < length rest - ?h" and p: "is_prefix v (drop j (rest @ x))"
      then have "is_prefix v (drop j rest @ x)" by simp
      then show False
      proof (cases rule: is_prefix_append_cases)
        case 1
        then show False using best None v j by (auto simp: best_of_def)
      next
        case 2
        then have "begins_at v rest j"
          using j by (auto simp: begins_at_def)
        with h v j show False by fastforce
      qed
    qed
    note skip = mask_all_skip [OF this]
    have "out' = out @ take (length rest - ?h) rest" "held = drop (length rest - ?h) rest"
      using less(2) None unfolding conceal_loop.simps [of vals False rest out] by (simp_all add: Let_def)
    with skip show ?thesis by simp
  next
    case (Some m)
    obtain i n where m: "m = (i, n)" by fastforce
    obtain u where u: "value_at vals (drop i rest) = Some u" "length u = n" "i \<le> length rest"
      and before_i: "\<forall>v\<in>set vals. \<forall>j<i. \<not> is_prefix v (drop j rest)"
      using best Some m by (auto simp: best_of_def)
    note um = value_at_Some [OF u(1)]
    have un: "u \<noteq> []" "0 < n" "rest \<noteq> []"
      using um ne u(2) by (auto simp: is_prefix_def)
    have skip: "mask_all vals (rest @ x) = take i rest @ mask_all vals (drop i rest @ x)"
      using mask_all_skip [OF no_value_before [OF assms(2) conjunct1 [OF um] conjunct2 [OF um] u(3) before_i, of x]] u(3)
      by simp
    show ?thesis
    proof (cases "begins_longer vals (drop i rest) n")
      case True
      then have "out' = out @ take i rest" "held = drop i rest"
        using less(2) Some m unfolding conceal_loop.simps [of vals False rest out] by simp_all
      with skip show ?thesis by simp
    next
      case False
      have "is_prefix v (drop i rest @ x) = is_prefix v (drop i rest)" if v: "v \<in> set vals" for v
      proof
        assume "is_prefix v (drop i rest @ x)"
        then show "is_prefix v (drop i rest)"
        proof (cases rule: is_prefix_append_cases)
          case 2
          with False v have "length v \<le> n"
            by (auto simp: begins_longer_def list_ex_iff)
          with 2(1) um u(2) show ?thesis by (simp add: is_prefix_def)
        qed
      qed (rule is_prefix_append)
      then have at: "value_at vals (drop i rest @ x) = Some u"
        using u(1) unfolding value_at_def by (metis (mono_tags, lifting) find_cong)
      have eq: "conceal_loop vals False (drop (i + n) rest) (out @ take i rest @ concealed) = (out', held)"
        using less(2) Some m un False unfolding conceal_loop.simps [of vals False rest out] by simp
      have "length (drop (i + n) rest) < length rest"
        using un by (simp add: diff_less)
      from less(1) [OF this eq] obtain o' where o': "out' = (out @ take i rest @ concealed) @ o'"
        "mask_all vals (drop (i + n) rest @ x) = o' @ mask_all vals (held @ x)" by blast
      have "n \<le> length (drop i rest)"
        using um u(2) by (simp add: is_prefix_def)
      then have "drop (length u) (drop i rest @ x) = drop (i + n) rest @ x"
        using u(2) by (simp add: add.commute)
      then have "mask_all vals (rest @ x) = (take i rest @ concealed @ o') @ mask_all vals (held @ x)"
        using skip mask_all_value [OF at un(1)] o'(2) by simp
      with o'(1) show ?thesis by (intro exI [of _ "take i rest @ concealed @ o'"]) simp
    qed
  qed
qed

text \<open>A command's output, written piece by piece and flushed, into a writer that takes everything.\<close>

definition append_sink :: "bytes sink" where
  "append_sink b w = (w @ b, True)"

fun mask_stream :: "bytes list \<Rightarrow> bytes list \<Rightarrow> bytes \<times> bytes \<Rightarrow> bytes" where
  "mask_stream vals [] st = snd (fst (masker_flush append_sink vals st))"
| "mask_stream vals (p # ps) st = mask_stream vals ps (fst (masker_write append_sink vals p st))"

lemma mask_stream_spec:
  assumes "mask_order vals" and "no_inner_value vals"
  shows "mask_stream vals ps (held, w) = w @ mask_all vals (held @ concat ps)"
proof (induction ps arbitrary: held w)
  case Nil
  then show ?case
    by (simp add: masker_flush_def append_sink_def conceal_def conceal_final [OF assms(1)])
next
  case (Cons p ps)
  obtain out held' where c: "conceal vals (held @ p) False = (out, held')" by fastforce
  then have "mask_all vals ((held @ p) @ concat ps) = out @ mask_all vals (held' @ concat ps)"
    using conceal_chunk [OF assms, of "held @ p" "[]" out held' "concat ps"] by (simp add: conceal_def)
  with Cons.IH [of held' "w @ out"] show ?case
    by (simp add: masker_write_def c append_sink_def)
qed

subsection \<open>Properties\<close>

text \<open>
  C18: however the output of a command is cut into writes, what comes out is the whole output with, from left
  to right, the longest value that starts at a place replaced; nothing is lost at the end.  This needs
  that no masked value starts strictly inside another one.
\<close>

theorem masking_ignores_chunks:
  assumes "mask_order vals" and "no_inner_value vals"
  shows "mask_stream vals ps ([], []) = mask_all vals (concat ps)"
  using mask_stream_spec [OF assms] by simp

lemma sample_values_ok: "mask_order [''hunter22'', ''secret''] \<and> no_inner_value [''hunter22'', ''secret'']"
proof -
  have "\<not> is_prefix u (drop k v)" if uv: "u \<in> {''hunter22'', ''secret''}" "v \<in> {''hunter22'', ''secret''}" and k0: "0 < k" for u v k
  proof -
    obtain j where k: "k = Suc j" using k0 by (cases k) auto
    show ?thesis
      using uv unfolding k by (cases j; auto simp: is_prefix_def drop_Cons' split: if_splits)
  qed
  then show ?thesis
    by (simp add: mask_order_def no_inner_value_def)
qed

theorem masking_ignores_chunks_witness:
  "mask_stream [''hunter22'', ''secret''] [''pw=hun'', ''ter22!''] ([], []) = ''pw=<concealed by enbu>!''"
proof -
  have "mask_stream [''hunter22'', ''secret''] [''pw=hun'', ''ter22!''] ([], [])
      = mask_all [''hunter22'', ''secret''] ''pw=hunter22!''"
    using masking_ignores_chunks [of "[''hunter22'', ''secret'']" "[''pw=hun'', ''ter22!'']"] sample_values_ok by simp
  then show ?thesis
    by (simp add: value_at_def is_prefix_def concealed_def)
qed

text \<open>
  Without that proviso the cut matters.  With the values \<open>xxabcdefyy\<close> and \<open>abcdef\<close> one write of the
  longer value is concealed whole, but when it arrives in two writes the shorter value inside is
  concealed at once, and the rest of the secret is let through.
\<close>

theorem masking_cut_leaks:
  "mask_order [''xxabcdefyy'', ''abcdef'']
   \<and> mask_stream [''xxabcdefyy'', ''abcdef''] [''xxabcdefyy''] ([], []) = concealed
   \<and> mask_stream [''xxabcdefyy'', ''abcdef''] [''xxabcdef'', ''yy''] ([], []) = ''xx'' @ concealed @ ''yy''"
  by (simp add: mask_order_def masker_write_def masker_flush_def append_sink_def conceal_def conceal_loop.simps
      first_match_def begins_longer_def prefix_len_def is_prefix_def Let_def)

end
