(* ===== verification/Session.thy ===== *)
theory Session
  imports Config Join Merge State_Props
begin

text \<open>
  A workspace opened for use, \<open>app/workspace.go\<close>: verifying the Control against the trust roots and the
  checkpoint, reading the current content of an environment, and publishing a revision.

  Every effect acts on one state \<open>'s\<close> (storage, the local files, the clock, other processes): an action
  gives the state after it and a result.  The store is a \<open>store_ops\<close>; \<open>cps_ops\<close> and \<open>trust_ops\<close> are the
  operations of the checkpoint and of a trust root, which \<open>checkpoint_ops\<close> and \<open>trust_root_ops\<close> instantiate
  with the models of the files; \<open>app\<close> holds the collaborators that are not modelled (identities,
  age, the JSON codec of a bundle, opening the storage).
\<close>

subsection \<open>Actions\<close>

type_synonym ('s, 'a) act = "'s \<Rightarrow> 's \<times> 'a app_result"

definition act_ok :: "'a \<Rightarrow> ('s, 'a) act" where
  "act_ok x s = (s, Inr x)"

definition act_fail :: "go_error \<Rightarrow> ('s, 'a) act" where
  "act_fail e s = (s, Inl e)"

definition act_bind :: "('s, 'a) act \<Rightarrow> ('a \<Rightarrow> ('s, 'b) act) \<Rightarrow> ('s, 'b) act" where
  "act_bind m f s = (case m s of (s', Inl e) \<Rightarrow> (s', Inl e) | (s', Inr x) \<Rightarrow> f x s')"

text \<open>The result as a value, for the callers that look at an error.\<close>

definition act_try :: "('s, 'a) act \<Rightarrow> ('s, 'a app_result) act" where
  "act_try m s = (case m s of (s', r) \<Rightarrow> (s', Inr r))"

definition act_map_err :: "(go_error \<Rightarrow> go_error) \<Rightarrow> ('s, 'a) act \<Rightarrow> ('s, 'a) act" where
  "act_map_err g m s = (case m s of (s', Inl e) \<Rightarrow> (s', Inl (g e)) | (s', Inr x) \<Rightarrow> (s', Inr x))"

definition act_pure :: "'a app_result \<Rightarrow> ('s, 'a) act" where
  "act_pure r s = (s, r)"

definition lift_wsp :: "('s \<Rightarrow> 's \<times> (wsp_error + 'a)) \<Rightarrow> ('s, 'a) act" where
  "lift_wsp m s = (case m s of (s', Inl e) \<Rightarrow> (s', Inl (wsp_cause e)) | (s', Inr x) \<Rightarrow> (s', Inr x))"

definition lift_storage :: "('s \<Rightarrow> 's \<times> (storage_error + 'a)) \<Rightarrow> ('s, 'a) act" where
  "lift_storage m s = (case m s of (s', Inl e) \<Rightarrow> (s', Inl (storage_cause e)) | (s', Inr x) \<Rightarrow> (s', Inr x))"

definition lift_trust :: "('s \<Rightarrow> 's \<times> (trust_error + 'a)) \<Rightarrow> ('s, 'a) act" where
  "lift_trust m s = (case m s of (s', Inl e) \<Rightarrow> (s', Inl (trust_cause e)) | (s', Inr x) \<Rightarrow> (s', Inr x))"

lemmas act_defs = act_ok_def act_fail_def act_bind_def act_try_def act_map_err_def act_pure_def
  lift_wsp_def lift_storage_def lift_trust_def

lemma act_bind_Inr:
  "act_bind m f s = (s', Inr y) \<longleftrightarrow> (\<exists>s1 x. m s = (s1, Inr x) \<and> f x s1 = (s', Inr y))"
  by (auto simp: act_bind_def split: prod.split sum.split)

lemma act_ok_eq [simp]: "act_ok x s = (s', r) \<longleftrightarrow> s' = s \<and> r = Inr x"
  by (auto simp: act_ok_def)

lemma act_fail_eq [simp]: "act_fail e s = (s', r) \<longleftrightarrow> s' = s \<and> r = Inl e"
  by (auto simp: act_fail_def)

lemma act_map_err_Inr [simp]: "act_map_err g m s = (s', Inr x) \<longleftrightarrow> m s = (s', Inr x)"
  by (auto simp: act_map_err_def split: prod.split sum.split)

lemma lift_Inr [simp]:
  "lift_wsp m1 s = (s', Inr x) \<longleftrightarrow> m1 s = (s', Inr x)"
  "lift_storage m2 s = (s', Inr x) \<longleftrightarrow> m2 s = (s', Inr x)"
  "lift_trust m3 s = (s', Inr x) \<longleftrightarrow> m3 s = (s', Inr x)"
  by (auto simp: lift_wsp_def lift_storage_def lift_trust_def split: prod.split sum.split)

lemma pair_Inr [simp]: "(case p of (a, b) \<Rightarrow> (a, Inr b)) = (a', Inr b') \<longleftrightarrow> p = (a', b')"
  by (cases p) auto

lemma act_try_eq [simp]: "act_try m s = (s', Inr r) \<longleftrightarrow> m s = (s', r)"
  by (auto simp: act_try_def split: prod.split)

lemma act_pure_Inr [simp]: "act_pure r s = (s', q) \<longleftrightarrow> s' = s \<and> q = r"
  by (auto simp: act_pure_def)

subsection \<open>The collaborators\<close>

record 's cps_ops =
  co_control :: "'s \<Rightarrow> 's \<times> (wsp_error + digest list)"
  co_accepted :: "string \<Rightarrow> 's \<Rightarrow> 's \<times> (wsp_error + acceptance)"
  co_accept_control :: "control_view \<Rightarrow> 's \<Rightarrow> 's \<times> (wsp_error + unit)"
  co_check_states :: "string \<Rightarrow> graph \<Rightarrow> (digest \<Rightarrow> bool) option \<Rightarrow> 's \<Rightarrow> 's \<times> (wsp_error + unit)"
  co_accept_states ::
    "string \<Rightarrow> graph \<Rightarrow> (digest \<Rightarrow> bool) option \<Rightarrow> digest list \<Rightarrow> digest \<Rightarrow> 's \<Rightarrow> 's \<times> (wsp_error + unit)"

record 's trust_ops =
  to_pinned :: "'s \<Rightarrow> 's \<times> (trust_error + root)"
  to_check :: "root \<Rightarrow> 's \<Rightarrow> 's \<times> (trust_error + unit)"
  to_pin :: "root \<Rightarrow> bool \<Rightarrow> 's \<Rightarrow> 's \<times> (trust_error + root)"
  to_pin_replacing :: "root \<Rightarrow> root \<Rightarrow> 's \<Rightarrow> 's \<times> (trust_error + root)"

text \<open>The files of \<open>Checkpoint\<close> and \<open>Trust\<close> as operations on a state that holds the file.\<close>

definition checkpoint_ops ::
  "checkpoint_json \<Rightarrow> local_env \<Rightarrow> ('s \<Rightarrow> local_file) \<Rightarrow> (local_file \<Rightarrow> 's \<Rightarrow> 's) \<Rightarrow> 's cps_ops" where
  "checkpoint_ops js env rd wr =
     \<lparr>co_control = (\<lambda>s. (s, checkpoint_control js env (rd s))),
      co_accepted = (\<lambda>res s. (s, accepted_of js env res (rd s))),
      co_accept_control = (\<lambda>v s. case accept_control js env v (rd s) of (c, r) \<Rightarrow> (wr c s, r)),
      co_check_states = (\<lambda>res g ex s. (s, check_states js env res g ex (rd s))),
      co_accept_states = (\<lambda>res g ex hs ctl s. case accept_states js env res g ex hs ctl (rd s) of (c, r) \<Rightarrow> (wr c s, r))\<rparr>"

definition trust_root_ops ::
  "wsp_lib \<Rightarrow> trust_json \<Rightarrow> local_env \<Rightarrow> ('s \<Rightarrow> local_file) \<Rightarrow> (local_file \<Rightarrow> 's \<Rightarrow> 's) \<Rightarrow> 's trust_ops" where
  "trust_root_ops lib js env rd wr =
     \<lparr>to_pinned = (\<lambda>s. (s, trust_pinned lib js env (rd s))),
      to_check = (\<lambda>root s. (s, trust_check lib js env root (rd s))),
      to_pin = (\<lambda>root replace s.
        case pin_root lib js env root replace (rd s) of (c, prev, r) \<Rightarrow> (wr c s, res_bind r (\<lambda>_. Inr prev))),
      to_pin_replacing = (\<lambda>root expected s.
        case pin_replacing lib js env root expected (rd s) of (c, prev, r) \<Rightarrow> (wr c s, res_bind r (\<lambda>_. Inr prev)))\<rparr>"

text \<open>A decrypted bundle; \<open>None\<close> is a nil map, which decoding the JSON text \<open>null\<close> gives.\<close>

type_synonym env_map = "secrets option"

definition map_entries :: "env_map \<Rightarrow> secrets" where
  "map_entries b = (case b of None \<Rightarrow> [] | Some m \<Rightarrow> m)"

text \<open>\<open>keyUpdater\<close>: the recipient of the pending identity, and making it current.\<close>

record 's key_updater =
  ku_pending_info :: "string \<Rightarrow> ('s, string) act"
  ku_promote :: "string \<Rightarrow> ('s, unit) act"

record 's app =
  ap_lib :: wsp_lib
  ap_load_project :: "('s, project_config) act"
  ap_save_project :: "project_config \<Rightarrow> ('s, unit) act"
  ap_uuid_ok :: "string \<Rightarrow> bool"
  ap_open_store :: "project_config \<Rightarrow> 's store_ops app_result"
  ap_checkpoints :: "string \<Rightarrow> digest \<Rightarrow> 's cps_ops"
  ap_trust :: "string \<Rightarrow> 's trust_ops"
  ap_repo_trust :: "'s trust_ops option"
  ap_load_signer :: "string \<Rightarrow> ('s, signer) act"
  ap_load_identities :: "string \<Rightarrow> ('s, bytes \<Rightarrow> bytes app_result) act"
  ap_key_updater :: "'s key_updater option"
  ap_encrypt :: "bytes \<Rightarrow> string list \<Rightarrow> ('s, bytes) act"
  ap_now :: "'s \<Rightarrow> 's \<times> int"
  ap_marshal :: "env_map \<Rightarrow> bytes"
  ap_unmarshal :: "bytes \<Rightarrow> env_map app_result"

text \<open>
  The fields of \<open>session\<close> that verifying the Control fills, and with them those that \<open>openSession\<close> adds: decryption
  with the loaded identities, and the signer.
\<close>

record 's control_session =
  ss_store :: "'s store_ops"
  ss_cfg :: project_config
  ss_workspace :: string
  ss_view :: control_view
  ss_head :: "verified option"
  ss_cps :: "'s cps_ops"
  ss_replaced :: root

record 's session = "'s control_session" +
  ss_decrypt :: "bytes \<Rightarrow> bytes app_result"
  ss_signer :: signer

definition ss_self :: "wsp_lib \<Rightarrow> 's session \<Rightarrow> string" where
  "ss_self lib ss = device_id (wl_crypto lib) (sg_public (ss_signer ss))"

text \<open>The head of a session that was opened with \<open>openControl\<close>, which refuses a fork.\<close>

definition the_head :: "('s, 'z) control_session_scheme \<Rightarrow> verified" where
  "the_head ss = (case ss_head ss of Some h \<Rightarrow> h | None \<Rightarrow> cv_heads (ss_view ss) ! 0)"

definition ss_resource :: "('s, 'z) control_session_scheme \<Rightarrow> string \<Rightarrow> string" where
  "ss_resource ss env = cfg_resource (ss_cfg ss) env"

subsection \<open>Opening a session\<close>

text \<open>A pin: the trust root, whether it may be replaced, and the root a replacement expects.\<close>

type_synonym 's pin = "'s trust_ops \<times> bool \<times> root option"

fun check_pins :: "root \<Rightarrow> 's pin list \<Rightarrow> ('s, unit) act" where
  "check_pins root [] = act_ok ()"
| "check_pins root ((t, replace, expected) # ps) =
     (if replace then check_pins root ps
      else act_bind (act_map_err wsp_error_app (lift_trust (to_check t root))) (\<lambda>_. check_pins root ps))"

fun commit_pins :: "root \<Rightarrow> bool \<Rightarrow> 's pin list \<Rightarrow> root \<Rightarrow> ('s, root) act" where
  "commit_pins root founded [] replaced = act_ok replaced"
| "commit_pins root founded ((t, replace, expected) # ps) replaced =
     act_bind
       (act_map_err wsp_error_app (lift_trust
          (case expected of Some x \<Rightarrow> to_pin_replacing t root x | None \<Rightarrow> to_pin t root replace)))
       (\<lambda>previous. commit_pins root founded ps
          (if previous \<noteq> zero_root \<and> previous \<noteq> root \<and> replaced = zero_root \<and> \<not> founded then previous else replaced))"

definition trust_pins :: "'s app \<Rightarrow> string \<Rightarrow> bool \<Rightarrow> bool \<Rightarrow> root option \<Rightarrow> 's pin list" where
  "trust_pins ap ws accept_new founded founding_repo =
     (ap_trust ap ws, accept_new, None) #
     (case ap_repo_trust ap of
        None \<Rightarrow> []
      | Some t \<Rightarrow> [(t, accept_new \<or> founded, if founded \<and> \<not> accept_new then founding_repo else None)])"

text \<open>
  \<open>verifyControl\<close>: the checkpoint, the verified view, its only head and the root that was replaced.
  \<open>act_map_err\<close> with a failing load keeps \<open>storage.ErrNotFound\<close> apart, as the code does.
\<close>

definition control_load_error :: "go_error \<Rightarrow> go_error" where
  "control_load_error e =
     (if errors_is_not_found e then app_wrap CodeIncompatibleStorage (Some e) [] else wsp_error_app e)"

definition verify_control ::
  "'s app \<Rightarrow> 's store_ops \<Rightarrow> project_config \<Rightarrow> string \<Rightarrow> bool \<Rightarrow> bool \<Rightarrow> root option
    \<Rightarrow> ('s, 's cps_ops \<times> control_view \<times> verified option \<times> root) act" where
  "verify_control ap st cfg ws accept_new founded founding_repo =
     (if pc_control_genesis cfg = [] then act_fail (app_new CodeInvalidArgument [])
      else
        let genesis = pc_control_genesis cfg;
            root = \<lparr>rt_workspace = ws, rt_genesis = genesis\<rparr>;
            pins = trust_pins ap ws accept_new founded founding_repo;
            cps = ap_checkpoints ap ws genesis
        in act_bind (check_pins root pins) (\<lambda>_.
           act_bind (lift_wsp (co_control cps)) (\<lambda>cp.
           act_bind (act_map_err control_load_error (lift_wsp (load_control (ap_lib ap) st ws genesis cp))) (\<lambda>view.
           act_bind (commit_pins root founded pins zero_root) (\<lambda>replaced.
           act_bind (act_map_err wsp_error_app (lift_wsp (co_accept_control cps view))) (\<lambda>_.
             act_ok (cps, view, if cv_forked view then None else Some (cv_heads view ! 0), replaced)))))))"

definition open_control_view :: "'s app \<Rightarrow> ('s, 's control_session) act" where
  "open_control_view ap =
     act_bind (ap_load_project ap) (\<lambda>cfg.
     act_bind (ap_load_project ap) (\<lambda>again.
       if \<not> ap_uuid_ok ap (pc_workspace_id again) then act_fail (app_new CodeNotInitialized [])
       else
         act_bind (act_pure (ap_open_store ap again)) (\<lambda>st.
         act_bind (verify_control ap st cfg (pc_workspace_id cfg) False False None) (\<lambda>(cps, view, head, replaced).
           act_ok \<lparr>ss_store = st, ss_cfg = cfg, ss_workspace = pc_workspace_id cfg, ss_view = view, ss_head = head,
                   ss_cps = cps, ss_replaced = replaced\<rparr>))))"

definition open_control :: "'s app \<Rightarrow> ('s, 's control_session) act" where
  "open_control ap =
     act_bind (open_control_view ap) (\<lambda>ss.
       if ss_head ss = None then act_fail (wsp_error_app (wsp_cause (ErrFork (cv_heads (ss_view ss)))))
       else act_ok ss)"

text \<open>\<open>promoteApprovedKey\<close>: a failure only leaves the pending key for the next session.\<close>

definition promote_approved_key :: "'s app \<Rightarrow> string \<Rightarrow> control \<Rightarrow> string \<Rightarrow> 's \<Rightarrow> 's" where
  "promote_approved_key ap ws c self s =
     (case ap_key_updater ap of
        None \<Rightarrow> s
      | Some ku \<Rightarrow>
          (case (ku_pending_info ku ws s, control_principal c self) of
             ((s', Inr pending), Some p) \<Rightarrow> if pr_recipient p \<noteq> pending then s' else fst (ku_promote ku ws s')
           | ((s', _), _) \<Rightarrow> s'))"

definition signer_error :: "go_error \<Rightarrow> go_error" where
  "signer_error e =
     (if errors_is CauseNotExist e then app_new CodeNotInitialized [] else identity_error_app (Wrapping [e]))"

definition identities_error :: "go_error \<Rightarrow> go_error" where
  "identities_error e =
     (if errors_is CauseNotExist e then app_new CodeNotInitialized [] else identity_error_app (Wrapping [e]))"

definition open_session :: "'s app \<Rightarrow> ('s, 's session) act" where
  "open_session ap =
     act_bind (open_control ap) (\<lambda>ss.
     act_bind (act_map_err signer_error (ap_load_signer ap (ss_workspace ss))) (\<lambda>sg.
       let self = device_id (wl_crypto (ap_lib ap)) (sg_public sg); c = vf_control (the_head ss)
       in if control_principal c self = None
          then act_fail (app_new CodeNotMember [(''fingerprint'', fingerprint self)])
          else act_bind (\<lambda>s. (promote_approved_key ap (ss_workspace ss) c self s, Inr ())) (\<lambda>_.
               act_bind (act_map_err identities_error (ap_load_identities ap (ss_workspace ss))) (\<lambda>dec.
                 act_ok (control_session.extend ss (session.fields dec sg))))))"

subsection \<open>Reading an environment\<close>

definition accepted_retries :: nat where "accepted_retries = 2"

definition rollback_error :: go_error where
  "rollback_error = Wrapping [wsp_cause ErrRollback]"

definition invalid_error :: go_error where
  "invalid_error = Wrapping [wsp_cause ErrInvalid]"

text \<open>\<open>Checkpoints.State\<close> is the heads of \<open>Accepted\<close>.\<close>

definition co_state :: "'s cps_ops \<Rightarrow> string \<Rightarrow> ('s, digest list) act" where
  "co_state cps res = act_bind (lift_wsp (co_accepted cps res)) (\<lambda>a. act_ok (ac_heads a))"

text \<open>Whether the deletion records are needed: \<open>CheckStates\<close> runs only when no parent is missing.\<close>

definition needs_records :: "'s cps_ops \<Rightarrow> string \<Rightarrow> graph \<Rightarrow> ('s, bool) act" where
  "needs_records cps res g =
     (if missing g \<noteq> [] then act_ok True
      else act_bind (act_try (lift_wsp (co_check_states cps res g None))) (\<lambda>r. act_ok (\<not> is_ok r)))"

definition load_records ::
  "wsp_lib \<Rightarrow> ('s, 'z) control_session_scheme \<Rightarrow> string \<Rightarrow> state_view \<Rightarrow> ('s, state_view) act" where
  "load_records lib ss res sv =
     act_bind (needs_records (ss_cps ss) res (sv_graph sv)) (\<lambda>need.
       if \<not> need then act_ok sv
       else act_bind (act_map_err wsp_error_app
                (lift_wsp (load_compactions lib (ss_store ss) (ss_view ss) (ss_workspace ss) res))) (\<lambda>records.
              act_ok (sv\<lparr>sv_compacted := compute records (sv_graph sv)\<rparr>)))"

fun load_resource_loop ::
  "wsp_lib \<Rightarrow> ('s, 'z) control_session_scheme \<Rightarrow> string \<Rightarrow> nat \<Rightarrow> digest list \<Rightarrow> ('s, state_view) act" where
  "load_resource_loop lib ss res retries also1 =
     act_bind (act_map_err wsp_error_app
         (lift_wsp (load_states lib (ss_store ss) (ss_view ss) (ss_workspace ss) res also1))) (\<lambda>sv.
       if graph_len (sv_graph sv) = 0
       then act_bind (co_state (ss_cps ss) res) (\<lambda>accepted.
              if accepted = [] then act_fail (storage_error_app (storage_cause SNotFound))
              else (case retries of
                      0 \<Rightarrow> act_fail (wsp_error_app rollback_error)
                    | Suc k \<Rightarrow> load_resource_loop lib ss res k (also1 @ accepted)))
       else
         act_bind (load_records lib ss res sv) (\<lambda>sv.
         act_bind (act_try (lift_wsp
             (co_check_states (ss_cps ss) res (sv_graph sv) (Some (excuses (sv_compacted sv)))))) (\<lambda>checked.
           (case checked of
              Inr _ \<Rightarrow> act_ok sv
            | Inl e \<Rightarrow>
                (case retries of
                   0 \<Rightarrow> act_fail (wsp_error_app e)
                 | Suc k \<Rightarrow>
                     if \<not> errors_is (CauseWsp ErrRollback) e then act_fail (wsp_error_app e)
                     else act_bind (co_state (ss_cps ss) res) (\<lambda>accepted.
                            load_resource_loop lib ss res k (also1 @ accepted)))))))"

declare load_resource_loop.simps [simp del]

definition load_resource ::
  "wsp_lib \<Rightarrow> ('s, 'z) control_session_scheme \<Rightarrow> string \<Rightarrow> digest list \<Rightarrow> ('s, state_view) act" where
  "load_resource lib ss res also1 = load_resource_loop lib ss res accepted_retries also1"

definition read_error :: "verified_state \<Rightarrow> go_error \<Rightarrow> go_error" where
  "read_error st e = wsp_error_app (if errors_is_not_found e then Wrapping [wsp_cause ErrRollback, e] else e)"

definition ss_decrypt_state :: "'s app \<Rightarrow> 's session \<Rightarrow> verified_state \<Rightarrow> ('s, env_map) act" where
  "ss_decrypt_state ap ss st =
     act_bind (act_map_err (read_error st) (lift_wsp (read_ciphertext (ap_lib ap) (ss_store ss) st))) (\<lambda>ciphertext.
     act_bind (act_pure (ss_decrypt ss ciphertext)) (\<lambda>plaintext. act_pure (ap_unmarshal ap plaintext)))"

text \<open>The test of \<open>trustedHeads\<close>.\<close>

definition trusted_state ::
  "wsp_lib \<Rightarrow> 's session \<Rightarrow> state_view \<Rightarrow> acceptance \<Rightarrow> verified_state \<Rightarrow> bool" where
  "trusted_state lib ss sv acc st \<longleftrightarrow>
     above_floors (sv_compacted sv) (sv_graph sv) (vs_digest st)
     \<and> (author_is_current (ss_view ss) (the_head ss) st = Inr ()
        \<or> vs_digest st \<in> set (ac_heads acc)
           \<and> membership_walk (ss_view ss) (vf_digest (the_head ss)) (ac_control acc) (ss_self lib ss))"

text \<open>The queue of \<open>trustedHeads\<close>: an untrusted revision gives way to its parents.\<close>

definition shown_parents :: "state_view \<Rightarrow> verified_state \<Rightarrow> verified_state list" where
  "shown_parents sv st =
     concat (map (\<lambda>p. case gm_get (sv_states sv) p of None \<Rightarrow> [] | Some v \<Rightarrow> [v]) (st_parents (vs_state st)))"

function trusted_queue ::
  "(verified_state \<Rightarrow> bool) \<Rightarrow> state_view \<Rightarrow> verified_state list \<Rightarrow> digest list \<Rightarrow> verified_state list \<Rightarrow> verified_state list" where
  "trusted_queue trusted sv [] seen heads = heads"
| "trusted_queue trusted sv (h # queue) seen heads =
     (if vs_digest h \<in> set seen then trusted_queue trusted sv queue seen heads
      else if trusted h then trusted_queue trusted sv queue (vs_digest h # seen) (heads @ [h])
      else trusted_queue trusted sv (queue @ shown_parents sv h) (vs_digest h # seen) heads)"
  by pat_completeness auto
termination
proof (relation "measures [\<lambda>(trusted, sv, queue, seen, heads).
      card (vs_digest ` (snd ` set (sv_states sv) \<union> set queue) - set seen),
    \<lambda>(trusted, sv, queue, seen, heads). length queue]")
  fix trusted :: "verified_state \<Rightarrow> bool" and sv :: state_view and h :: verified_state
    and queue heads :: "verified_state list" and seen :: "digest list"
  let ?U = "\<lambda>q. vs_digest ` (snd ` set (sv_states sv) \<union> set q)"
  have less: "card (?U q - set (vs_digest h # seen)) < card (?U (h # queue) - set seen)"
    if "vs_digest h \<notin> set seen" "set q \<subseteq> set queue \<union> snd ` set (sv_states sv)" for q
    using that by (intro psubset_card_mono) auto
  have le: "card (?U queue - set seen) \<le> card (?U (h # queue) - set seen)"
    by (intro card_mono) auto
  show "((trusted, sv, queue, seen, heads), trusted, sv, h # queue, seen, heads) \<in> measures [\<lambda>(trusted, sv, queue, seen, heads).
      card (vs_digest ` (snd ` set (sv_states sv) \<union> set queue) - set seen),
    \<lambda>(trusted, sv, queue, seen, heads). length queue]"
    using le by auto
  have sub: "set (queue @ shown_parents sv h) \<subseteq> set queue \<union> snd ` set (sv_states sv)"
    by (auto simp: shown_parents_def split: option.splits dest!: gm_get_set [OF sym] intro: rev_image_eqI)
  assume new: "vs_digest h \<notin> set seen"
  show "((trusted, sv, queue, vs_digest h # seen, heads @ [h]), trusted, sv, h # queue, seen, heads) \<in> measures [\<lambda>(trusted, sv, queue, seen, heads).
      card (vs_digest ` (snd ` set (sv_states sv) \<union> set queue) - set seen),
    \<lambda>(trusted, sv, queue, seen, heads). length queue]"
    using less [OF new, of queue] by simp
  show "((trusted, sv, queue @ shown_parents sv h, vs_digest h # seen, heads), trusted, sv, h # queue, seen, heads) \<in> measures [\<lambda>(trusted, sv, queue, seen, heads).
      card (vs_digest ` (snd ` set (sv_states sv) \<union> set queue) - set seen),
    \<lambda>(trusted, sv, queue, seen, heads). length queue]"
    using less [OF new sub] by simp
qed simp

declare trusted_queue.simps [simp del]

definition covered_by :: "graph \<Rightarrow> verified_state list \<Rightarrow> verified_state \<Rightarrow> bool" where
  "covered_by g heads h \<longleftrightarrow>
     list_ex (\<lambda>other. vs_digest other \<noteq> vs_digest h \<and> vs_digest h \<in> set (ancestors g (vs_digest other))) heads"

definition trusted_heads ::
  "wsp_lib \<Rightarrow> 's session \<Rightarrow> state_view \<Rightarrow> acceptance \<Rightarrow> verified_state list" where
  "trusted_heads lib ss sv acc =
     (let heads = trusted_queue (trusted_state lib ss sv acc) sv (sv_heads sv) [] []
      in sort_key vs_digest (filter (\<lambda>h. \<not> covered_by (sv_graph sv) heads h) heads))"

record resource_read =
  rr_view :: state_view
  rr_heads :: "verified_state list"
  rr_secrets :: env_map
  rr_conflicts :: "conflict list"

definition rr_parents :: "resource_read \<Rightarrow> digest list" where
  "rr_parents r = map vs_digest (rr_heads r)"

text \<open>The bases: one that this device cannot decrypt is replaced by all the heads.\<close>

fun decrypt_heads :: "'s app \<Rightarrow> 's session \<Rightarrow> verified_state list \<Rightarrow> ('s, env_map list) act" where
  "decrypt_heads ap ss [] = act_ok []"
| "decrypt_heads ap ss (h # hs) =
     act_bind (ss_decrypt_state ap ss h) (\<lambda>m. act_bind (decrypt_heads ap ss hs) (\<lambda>ms. act_ok (m # ms)))"

fun decrypt_bases ::
  "'s app \<Rightarrow> 's session \<Rightarrow> state_view \<Rightarrow> env_map list \<Rightarrow> digest list \<Rightarrow> env_map list \<Rightarrow> ('s, env_map list) act" where
  "decrypt_bases ap ss sv maps [] bases = act_ok bases"
| "decrypt_bases ap ss sv maps (b # bs) bases =
     act_bind (act_try (ss_decrypt_state ap ss (the (gm_get (sv_states sv) b)))) (\<lambda>r.
       case r of
         Inr m \<Rightarrow> decrypt_bases ap ss sv maps bs (bases @ [m])
       | Inl e \<Rightarrow>
           if errors_is CauseNoMatch e then decrypt_bases ap ss sv maps bs (bases @ maps) else act_fail e)"

definition merge_resource ::
  "'s app \<Rightarrow> 's session \<Rightarrow> string \<Rightarrow> state_view \<Rightarrow> (string, choice) gomap \<Rightarrow> ('s, resource_read) act" where
  "merge_resource ap ss res sv choices =
     act_bind (lift_wsp (co_accepted (ss_cps ss) res)) (\<lambda>accepted.
       let heads = trusted_heads (ap_lib ap) ss sv accepted in
       if heads = [] then act_fail (wsp_error_app invalid_error)
       else
         act_bind (decrypt_heads ap ss heads) (\<lambda>maps.
           if length maps = 1
           then act_ok \<lparr>rr_view = sv, rr_heads = heads, rr_secrets = maps ! 0, rr_conflicts = []\<rparr>
           else if missing_parents sv \<noteq> [] then act_fail (wsp_error_app rollback_error)
           else
             act_bind (decrypt_bases ap ss sv maps (merge_bases (sv_graph sv) (map vs_digest heads)) []) (\<lambda>bases.
               case merge_maps (map map_entries bases) (map map_entries maps) choices of
                 (out, conflicts) \<Rightarrow>
                   act_ok \<lparr>rr_view = sv, rr_heads = heads, rr_secrets = Some out, rr_conflicts = conflicts\<rparr>)))"

text \<open>The loop of \<open>readResource\<close>; \<open>rec\<close> says whether the view becomes the checkpoint.\<close>

fun read_resource_loop ::
  "'s app \<Rightarrow> 's session \<Rightarrow> string \<Rightarrow> (string, choice) gomap \<Rightarrow> bool \<Rightarrow> digest list \<Rightarrow> nat \<Rightarrow> ('s, resource_read) act" where
  "read_resource_loop ap ss res choices rec also1 retries =
     act_bind (load_resource (ap_lib ap) ss res also1) (\<lambda>sv.
     act_bind (merge_resource ap ss res sv choices) (\<lambda>r.
       if \<not> rec then act_ok r
       else
         act_bind (act_try (lift_wsp (co_accept_states (ss_cps ss) res (sv_graph sv)
             (Some (excuses (sv_compacted sv))) (rr_parents r) (vf_digest (the_head ss))))) (\<lambda>accepted.
           case accepted of
             Inr _ \<Rightarrow> act_ok r
           | Inl e \<Rightarrow>
               (case retries of
                  0 \<Rightarrow> act_fail (wsp_error_app e)
                | Suc k \<Rightarrow>
                    if \<not> errors_is (CauseWsp ErrRollback) e then act_fail (wsp_error_app e)
                    else read_resource_loop ap ss res choices rec also1 k))))"

declare read_resource_loop.simps [simp del]

definition read_resource ::
  "'s app \<Rightarrow> 's session \<Rightarrow> string \<Rightarrow> (string, choice) gomap \<Rightarrow> bool \<Rightarrow> digest list \<Rightarrow> ('s, resource_read) act" where
  "read_resource ap ss res choices rec also1 = read_resource_loop ap ss res choices rec also1 accepted_retries"

subsection \<open>Publishing a revision\<close>

definition control_unchanged :: "wsp_lib \<Rightarrow> ('s, 'z) control_session_scheme \<Rightarrow> ('s, unit) act" where
  "control_unchanged lib ss =
     act_bind (act_map_err wsp_error_app
         (lift_wsp (load_control lib (ss_store ss) (ss_workspace ss) (pc_control_genesis (ss_cfg ss)) []))) (\<lambda>view.
       if cv_forked view \<or> vf_digest (cv_heads view ! 0) \<noteq> vf_digest (the_head ss)
       then act_fail (Plain CauseControlMoved) else act_ok ())"

definition state_object :: "wsp_lib \<Rightarrow> state_rec \<Rightarrow> bytes \<Rightarrow> bytes \<Rightarrow> object" where
  "state_object lib nxt blob ciphertext =
     \<lparr>ob_kind = KindState, ob_scope = st_scope lib nxt, ob_rv = dl_from_bytes (wl_digest lib) blob, ob_head = blob,
      ob_blobs = [ciphertext]\<rparr>"

text \<open>
  \<open>writeState\<close> gives the revision once it is published, also next to the error that members changed
  meanwhile: the result is the revision, if any, and the error, if any.
\<close>

definition write_state ::
  "'s app \<Rightarrow> 's session \<Rightarrow> string \<Rightarrow> env_map \<Rightarrow> digest list \<Rightarrow> 's \<Rightarrow> 's \<times> verified_state option \<times> unit app_result" where
  "write_state ap ss res secrets parents s =
     (case act_bind (ap_encrypt ap (ap_marshal ap secrets) (control_recipients (vf_control (the_head ss)))) (\<lambda>ciphertext.
           act_bind (control_unchanged (ap_lib ap) ss) (\<lambda>_.
           act_bind (\<lambda>s. case ap_now ap s of (s', t) \<Rightarrow> (s', Inr t)) (\<lambda>now.
             let lib = ap_lib ap;
                 nxt = \<lparr>st_workspace = ss_workspace ss, st_resource = res, st_parents = parents,
                        st_control = vf_digest (the_head ss), st_ciphertext = dl_from_bytes (wl_digest lib) ciphertext,
                        st_author = ss_self lib ss, st_created_at = now\<rparr>
             in act_bind (lift_wsp (\<lambda>s. (s, sign_state lib nxt (ss_signer ss)))) (\<lambda>blob.
                act_bind (lift_wsp (\<lambda>s. (s, verify_revision lib (ss_view ss) (ss_workspace ss) res
                    (dl_from_bytes (wl_digest lib) blob) blob))) (\<lambda>st.
                act_bind (act_map_err (\<lambda>e. Wrapping [storage_error_app e])
                    (lift_storage (so_publish (ss_store ss) (state_object lib nxt blob ciphertext)))) (\<lambda>_.
                  act_ok st)))))) s of
        (s1, Inl e) \<Rightarrow> (s1, None, Inl e)
      | (s1, Inr st) \<Rightarrow> (case control_unchanged (ap_lib ap) ss s1 of (s2, r) \<Rightarrow> (s2, Some st, r)))"

definition accept_view :: "'s app \<Rightarrow> 's session \<Rightarrow> string \<Rightarrow> state_view \<Rightarrow> ('s, unit) act" where
  "accept_view ap ss res sv =
     act_bind (lift_wsp (co_accepted (ss_cps ss) res)) (\<lambda>accepted.
       lift_wsp (co_accept_states (ss_cps ss) res (sv_graph sv) (Some (excuses (sv_compacted sv)))
         (map vs_digest (trusted_heads (ap_lib ap) ss sv accepted)) (vf_digest (the_head ss))))"

fun accept_published_loop ::
  "'s app \<Rightarrow> 's session \<Rightarrow> string \<Rightarrow> verified_state \<Rightarrow> nat \<Rightarrow> ('s, unit) act" where
  "accept_published_loop ap ss res st retries =
     act_bind (load_resource (ap_lib ap) ss res [vs_digest st]) (\<lambda>sv.
     act_bind (act_try (accept_view ap ss res sv)) (\<lambda>r.
       case r of
         Inr _ \<Rightarrow> act_ok ()
       | Inl e \<Rightarrow>
           (case retries of
              0 \<Rightarrow> act_fail (wsp_error_app e)
            | Suc k \<Rightarrow>
                if \<not> errors_is (CauseWsp ErrRollback) e then act_fail (wsp_error_app e)
                else accept_published_loop ap ss res st k)))"

declare accept_published_loop.simps [simp del]

definition accept_published :: "'s app \<Rightarrow> 's session \<Rightarrow> string \<Rightarrow> verified_state \<Rightarrow> ('s, unit) act" where
  "accept_published ap ss res st = accept_published_loop ap ss res st accepted_retries"

end
