(* ===== verification/Session_Props.thy ===== *)
theory Session_Props
  imports Session Config_Props
begin

text \<open>
  What \<open>app/workspace.go\<close> guarantees: which revisions of a verified view a session takes its content from, what
  publishing a revision means, and that a session trusts what its own member wrote.
\<close>

subsection \<open>A loaded resource\<close>

text \<open>
  The views a session works with: every revision is filed under its digest with the parents it names, and the
  heads are the revisions that no other names.
\<close>

definition filed_in :: "state_view \<Rightarrow> verified_state \<Rightarrow> bool" where
  "filed_in sv v \<longleftrightarrow> gm_get (sv_states sv) (vs_digest v) = Some v"

lemma filed_in_inj: "filed_in sv v \<Longrightarrow> filed_in sv w \<Longrightarrow> vs_digest v = vs_digest w \<Longrightarrow> v = w"
  by (simp add: filed_in_def)

lemma set_shown_parents:
  "w \<in> set (shown_parents sv v) \<longleftrightarrow> (\<exists>p\<in>set (st_parents (vs_state v)). gm_get (sv_states sv) p = Some w)"
  by (force simp: shown_parents_def split: option.splits)

locale revision_view =
  fixes sv :: state_view
  assumes graph: "graph_ok (sv_graph sv)"
    and filed: "\<And>d st. gm_get (sv_states sv) d = Some st \<Longrightarrow>
          vs_digest st = d \<and> graph_parents (sv_graph sv) d = st_parents (vs_state st)"
    and shown: "\<And>d. graph_has (sv_graph sv) d \<longleftrightarrow> gm_has (sv_states sv) d"
    and heads: "sv_heads sv = head_states (sv_graph sv) (sv_states sv)"
begin

lemma get_filed: "gm_get (sv_states sv) d = Some v \<Longrightarrow> filed_in sv v \<and> vs_digest v = d"
  using filed by (simp add: filed_in_def)

lemma filed_has: "filed_in sv v \<Longrightarrow> graph_has (sv_graph sv) (vs_digest v)"
  unfolding filed_in_def shown gm_has_get by blast

lemma has_filed: "graph_has (sv_graph sv) d \<Longrightarrow> \<exists>v. filed_in sv v \<and> vs_digest v = d"
  unfolding shown gm_has_get using get_filed by blast

lemma shown_parents_iff:
  assumes "filed_in sv v"
  shows "w \<in> set (shown_parents sv v) \<longleftrightarrow> filed_in sv w \<and> (vs_digest v, vs_digest w) \<in> parent_rel (sv_graph sv)"
proof -
  have ps: "graph_parents (sv_graph sv) (vs_digest v) = st_parents (vs_state v)"
    using filed [OF assms [unfolded filed_in_def]] by blast
  show ?thesis
    unfolding set_shown_parents parent_rel_iff ps
    using filed_has [OF assms] get_filed filed_has [of w] unfolding filed_in_def by metis
qed

lemma heads_filed: "h \<in> set (sv_heads sv) \<longleftrightarrow> filed_in sv h \<and> (\<forall>c. (c, vs_digest h) \<notin> parent_rel (sv_graph sv))"
proof
  assume "h \<in> set (sv_heads sv)"
  then obtain d where d: "d \<in> set (graph_heads (sv_graph sv))" "h = the (gm_get (sv_states sv) d)"
    unfolding heads head_states_def by auto
  then have g: "graph_has (sv_graph sv) d" "\<forall>c. (c, d) \<notin> parent_rel (sv_graph sv)"
    by (simp_all add: set_graph_heads [OF graph])
  from has_filed [OF g(1)] obtain v where v: "filed_in sv v" "vs_digest v = d" by blast
  then have "h = v"
    using d(2) by (simp add: filed_in_def)
  with v g(2) show "filed_in sv h \<and> (\<forall>c. (c, vs_digest h) \<notin> parent_rel (sv_graph sv))"
    by simp
next
  assume h: "filed_in sv h \<and> (\<forall>c. (c, vs_digest h) \<notin> parent_rel (sv_graph sv))"
  then have "vs_digest h \<in> set (graph_heads (sv_graph sv))"
    using filed_has by (simp add: set_graph_heads [OF graph])
  moreover have "the (gm_get (sv_states sv) (vs_digest h)) = h"
    using h by (simp add: filed_in_def)
  ultimately show "h \<in> set (sv_heads sv)"
    unfolding heads head_states_def set_map by (intro rev_image_eqI [where x = "vs_digest h"]) simp_all
qed

end

subsection \<open>The queue of trusted revisions\<close>

lemma trusted_queue_sub:
  "set (trusted_queue trusted sv queue seen hs) \<subseteq> set hs \<union> {v. trusted v \<and> (v \<in> set queue \<or> (\<exists>d. gm_get (sv_states sv) d = Some v))}"
proof (induction trusted sv queue seen hs rule: trusted_queue.induct)
  case (2 trusted sv h queue seen hs)
  have "set (shown_parents sv h) \<subseteq> {v. \<exists>d. gm_get (sv_states sv) d = Some v}"
    by (auto simp: set_shown_parents)
  with 2 show ?case
    by (simp add: trusted_queue.simps(2)) blast
qed (simp add: trusted_queue.simps)

lemma trusted_queue_distinct:
  "distinct (map vs_digest hs) \<Longrightarrow> vs_digest ` set hs \<subseteq> set seen \<Longrightarrow>
     distinct (map vs_digest (trusted_queue trusted sv queue seen hs))"
proof (induction trusted sv queue seen hs rule: trusted_queue.induct)
  case (2 trusted sv h queue seen hs)
  then show ?case
    by (auto simp: trusted_queue.simps(2))
qed (simp add: trusted_queue.simps)

text \<open>What the loop has looked at is closed: a trusted one is a head, an untrusted one has its parents looked at.\<close>

definition queue_closed :: "(verified_state \<Rightarrow> bool) \<Rightarrow> state_view \<Rightarrow> digest set \<Rightarrow> digest set \<Rightarrow> verified_state set \<Rightarrow> bool" where
  "queue_closed trusted sv seen waiting hs \<longleftrightarrow>
     (\<forall>v. filed_in sv v \<longrightarrow> vs_digest v \<in> seen \<longrightarrow> trusted v \<longrightarrow> v \<in> hs)
     \<and> (\<forall>v w. filed_in sv v \<longrightarrow> vs_digest v \<in> seen \<longrightarrow> \<not> trusted v \<longrightarrow> w \<in> set (shown_parents sv v)
          \<longrightarrow> vs_digest w \<in> seen \<union> waiting)"

lemma trusted_queue_closed:
  assumes "queue_closed trusted sv (set seen) (vs_digest ` set queue) (set hs)" and "\<And>v. v \<in> set queue \<Longrightarrow> filed_in sv v"
    and "\<And>v w. filed_in sv v \<Longrightarrow> w \<in> set (shown_parents sv v) \<Longrightarrow> filed_in sv w"
  shows "\<exists>all. set seen \<union> vs_digest ` set queue \<subseteq> all \<and> queue_closed trusted sv all {} (set (trusted_queue trusted sv queue seen hs))"
  using assms
proof (induction trusted sv queue seen hs rule: trusted_queue.induct)
  case (1 trusted sv seen hs)
  then show ?case by (auto simp: trusted_queue.simps)
next
  case (2 trusted sv h queue seen hs)
  have h: "filed_in sv h" using "2.prems"(2) by simp
  have same: "v = h" if "filed_in sv v" "vs_digest v = vs_digest h" for v
    using filed_in_inj [OF that(1) h that(2)] .
  have kept: "v \<in> set hs" if "filed_in sv v" "vs_digest v \<in> set seen" "trusted v" for v
    using "2.prems"(1) that unfolding queue_closed_def by blast
  have open': "vs_digest w \<in> set seen \<union> insert (vs_digest h) (vs_digest ` set queue)"
    if "filed_in sv v" "vs_digest v \<in> set seen" "\<not> trusted v" "w \<in> set (shown_parents sv v)" for v w
    using "2.prems"(1) that unfolding queue_closed_def by simp
  show ?case
  proof (cases "vs_digest h \<in> set seen")
    case True
    have "queue_closed trusted sv (set seen) (vs_digest ` set queue) (set hs)"
      unfolding queue_closed_def
    proof (intro conjI allI impI)
      fix v w
      assume "filed_in sv v" "vs_digest v \<in> set seen" "\<not> trusted v" "w \<in> set (shown_parents sv v)"
      then show "vs_digest w \<in> set seen \<union> vs_digest ` set queue"
        using open' [of v w] True by auto
    qed (rule kept)
    from "2.IH"(1) [OF True this] "2.prems"(2,3) True show ?thesis
      by (simp add: trusted_queue.simps(2)) blast
  next
    case new: False
    show ?thesis
    proof (cases "trusted h")
      case True
      have "queue_closed trusted sv (set (vs_digest h # seen)) (vs_digest ` set queue) (set (hs @ [h]))"
        unfolding queue_closed_def using True same kept open' by (auto dest: same)
      from "2.IH"(2) [OF new True this] "2.prems"(2,3) True new show ?thesis
        by (simp add: trusted_queue.simps(2))
    next
      case False
      have "queue_closed trusted sv (set (vs_digest h # seen)) (vs_digest ` set (queue @ shown_parents sv h)) (set hs)"
        unfolding queue_closed_def
      proof (intro conjI allI impI)
        fix v assume "filed_in sv v" "vs_digest v \<in> set (vs_digest h # seen)" "trusted v"
        with False same kept show "v \<in> set hs" by (auto dest: same)
      next
        fix v w assume v: "filed_in sv v" "vs_digest v \<in> set (vs_digest h # seen)" "\<not> trusted v"
          and w: "w \<in> set (shown_parents sv v)"
        show "vs_digest w \<in> set (vs_digest h # seen) \<union> vs_digest ` set (queue @ shown_parents sv h)"
          using open' [OF v(1) _ v(3) w] same [OF v(1)] v(2) w by auto
      qed
      moreover have "\<And>v. v \<in> set (queue @ shown_parents sv h) \<Longrightarrow> filed_in sv v"
        using "2.prems"(2,3) h by auto
      ultimately obtain all where "set (vs_digest h # seen) \<union> vs_digest ` set (queue @ shown_parents sv h) \<subseteq> all"
          "queue_closed trusted sv all {} (set (trusted_queue trusted sv (queue @ shown_parents sv h) (vs_digest h # seen) hs))"
        using "2.IH"(3) [OF new False] "2.prems"(3) by blast
      with False new show ?thesis
        by (intro exI [of _ all]) (auto simp: trusted_queue.simps(2))
    qed
  qed
qed

context revision_view
begin

lemma shown_parents_filed: "filed_in sv v \<Longrightarrow> w \<in> set (shown_parents sv v) \<Longrightarrow> filed_in sv w"
  by (simp add: shown_parents_iff)

text \<open>Every revision is reached from a head; the last trusted one on the way stands for it.\<close>

lemma queue_found:
  assumes acyc: "acyclic (parent_rel (sv_graph sv))" and v: "filed_in sv v" "trusted v"
    and top: "\<And>w. filed_in sv w \<Longrightarrow> trusted w \<Longrightarrow> (vs_digest w, vs_digest v) \<notin> (parent_rel (sv_graph sv))\<^sup>+"
  shows "v \<in> set (trusted_queue trusted sv (sv_heads sv) [] [])"
proof -
  have "\<And>h. h \<in> set (sv_heads sv) \<Longrightarrow> filed_in sv h"
    by (simp add: heads_filed)
  then obtain all where heads_in: "vs_digest ` set (sv_heads sv) \<subseteq> all"
    and closed: "queue_closed trusted sv all {} (set (trusted_queue trusted sv (sv_heads sv) [] []))"
    using trusted_queue_closed [of trusted sv "[]" "sv_heads sv" "[]"] shown_parents_filed
    by (auto simp: queue_closed_def)
  obtain d where d: "d \<in> set (graph_heads (sv_graph sv))" "(d, vs_digest v) \<in> (parent_rel (sv_graph sv))\<^sup>*"
    using heads_cover [OF graph acyc filed_has [OF v(1)]] by (auto simp: ancestors_iff)
  then have "graph_has (sv_graph sv) d" "\<forall>c. (c, d) \<notin> parent_rel (sv_graph sv)"
    by (simp_all add: set_graph_heads [OF graph])
  then obtain h where h: "h \<in> set (sv_heads sv)" "vs_digest h = d"
    using has_filed [of d] by (auto simp: heads_filed)
  have "x \<in> all" if "(d, x) \<in> (parent_rel (sv_graph sv))\<^sup>*" "(x, vs_digest v) \<in> (parent_rel (sv_graph sv))\<^sup>*" for x
    using that
  proof (induction rule: rtrancl_induct)
    case base
    show ?case using h heads_in by auto
  next
    case (step y x)
    then have yv: "(y, vs_digest v) \<in> (parent_rel (sv_graph sv))\<^sup>+"
      by auto
    then have "y \<in> all"
      by (intro step.IH trancl_into_rtrancl)
    have "graph_has (sv_graph sv) y" "graph_has (sv_graph sv) x"
      using parent_rel_has [OF step.hyps(2)] by simp_all
    then obtain w u where w: "filed_in sv w" "vs_digest w = y" and u: "filed_in sv u" "vs_digest u = x"
      using has_filed by meson
    then have "u \<in> set (shown_parents sv w)"
      using step.hyps(2) by (simp add: shown_parents_iff)
    moreover have "\<not> trusted w"
      using top [OF w(1)] w(2) yv by blast
    ultimately show ?case
      using closed w u(2) \<open>y \<in> all\<close> unfolding queue_closed_def by fastforce
  qed
  then have "vs_digest v \<in> all"
    using d(2) by blast
  with closed v show ?thesis
    unfolding queue_closed_def by simp
qed

lemma queue_trusted:
  assumes "v \<in> set (trusted_queue trusted sv (sv_heads sv) [] [])"
  shows "filed_in sv v \<and> trusted v"
  using subsetD [OF trusted_queue_sub assms] get_filed by (auto simp: heads_filed)

lemma trusted_top:
  assumes "acyclic (parent_rel (sv_graph sv))" and "filed_in sv v" "trusted v"
  shows "\<exists>w. filed_in sv w \<and> trusted w \<and> (vs_digest w, vs_digest v) \<in> (parent_rel (sv_graph sv))\<^sup>*
    \<and> (\<forall>u. filed_in sv u \<longrightarrow> trusted u \<longrightarrow> (vs_digest u, vs_digest w) \<notin> (parent_rel (sv_graph sv))\<^sup>+)"
proof -
  let ?R = "parent_rel (sv_graph sv)"
  let ?T = "{vs_digest w | w. filed_in sv w \<and> trusted w}"
  let ?r = "?R\<^sup>+ \<inter> ?T \<times> ?T"
  have fin: "finite ?T"
    by (rule finite_subset [OF _ finite_has [of "sv_graph sv"]]) (auto dest: filed_has)
  have acy: "acyclic ?r"
    using assms(1) acyclic_subset [of "?R\<^sup>+" ?r] by (simp add: acyclic_def)
  obtain m where m: "m \<in> ?T" "(m, vs_digest v) \<in> ?r\<^sup>*" "\<forall>y. (y, m) \<notin> ?r"
    using finite_acyclic_top [OF fin acy, of "vs_digest v"] assms(2,3) by auto
  have "?r\<^sup>* \<subseteq> (?R\<^sup>+)\<^sup>*"
    by (rule rtrancl_mono) blast
  then have "(m, vs_digest v) \<in> ?R\<^sup>*"
    using m(2) by auto
  then show ?thesis
    using m(1,3) by blast
qed

lemma trusted_heads_top:
  assumes acyc: "acyclic (parent_rel (sv_graph sv))"
  shows "set (trusted_heads lib ss sv acc) =
      {v. filed_in sv v \<and> trusted_state lib ss sv acc v \<and> (\<forall>w. filed_in sv w \<longrightarrow> trusted_state lib ss sv acc w
          \<longrightarrow> (vs_digest w, vs_digest v) \<notin> (parent_rel (sv_graph sv))\<^sup>+)}" (is "?H = ?M")
    and "distinct (map vs_digest (trusted_heads lib ss sv acc))" and "sorted (map vs_digest (trusted_heads lib ss sv acc))"
proof -
  let ?R = "parent_rel (sv_graph sv)" and ?t = "trusted_state lib ss sv acc"
  define q where "q = trusted_queue ?t sv (sv_heads sv) [] []"
  have H: "?H = {v \<in> set q. \<not> covered_by (sv_graph sv) q v}"
    by (simp add: trusted_heads_def q_def Let_def)
  have q_ok: "filed_in sv v \<and> ?t v" if "v \<in> set q" for v
    using queue_trusted that unfolding q_def by blast
  have covered: "covered_by (sv_graph sv) q v \<longleftrightarrow> (\<exists>w\<in>set q. (vs_digest w, vs_digest v) \<in> ?R\<^sup>+)" for v
  proof -
    have "vs_digest v \<in> set (ancestors (sv_graph sv) (vs_digest w)) \<and> vs_digest w \<noteq> vs_digest v
        \<longleftrightarrow> (vs_digest w, vs_digest v) \<in> ?R\<^sup>+" if "w \<in> set q" for w
      using q_ok [OF that] filed_has acyc by (auto simp: ancestors_iff rtrancl_eq_or_trancl acyclic_def)
    then show ?thesis
      unfolding covered_by_def list_ex_iff by blast
  qed
  show "?H = ?M"
  proof (intro set_eqI iffI)
    fix v assume "v \<in> ?H"
    then have v: "v \<in> set q" "\<And>w. w \<in> set q \<Longrightarrow> (vs_digest w, vs_digest v) \<notin> ?R\<^sup>+"
      by (auto simp: H covered)
    have "(vs_digest w, vs_digest v) \<notin> ?R\<^sup>+" if w: "filed_in sv w" "?t w" for w
    proof
      assume wv: "(vs_digest w, vs_digest v) \<in> ?R\<^sup>+"
      from trusted_top [OF acyc, of w ?t] w obtain u where u: "filed_in sv u" "?t u" "(vs_digest u, vs_digest w) \<in> ?R\<^sup>*"
          "\<And>x. filed_in sv x \<Longrightarrow> ?t x \<Longrightarrow> (vs_digest x, vs_digest u) \<notin> ?R\<^sup>+" by blast
      have "u \<in> set q"
        unfolding q_def using queue_found [OF acyc, of u ?t] u(1,2,4) by blast
      moreover have "(vs_digest u, vs_digest v) \<in> ?R\<^sup>+"
        using u(3) wv by (rule rtrancl_trancl_trancl)
      ultimately show False using v(2) by blast
    qed
    with q_ok [OF v(1)] show "v \<in> ?M" by blast
  next
    fix v assume v: "v \<in> ?M"
    then have "v \<in> set q"
      unfolding q_def using queue_found [OF acyc, of v ?t] by blast
    with v q_ok show "v \<in> ?H"
      by (auto simp: H covered)
  qed
  have "distinct (map vs_digest q)"
    unfolding q_def by (rule trusted_queue_distinct) simp_all
  then have "distinct (map vs_digest (filter (\<lambda>v. \<not> covered_by (sv_graph sv) q v) q))"
    by (rule distinct_map_filter)
  then show "distinct (map vs_digest (trusted_heads lib ss sv acc))" "sorted (map vs_digest (trusted_heads lib ss sv acc))"
    by (simp_all add: trusted_heads_def q_def [symmetric] Let_def distinct_map)
qed

lemma trusted_heads_cover:
  assumes acyc: "acyclic (parent_rel (sv_graph sv))" and v: "filed_in sv v" "trusted_state lib ss sv acc v"
  shows "\<exists>h\<in>set (trusted_heads lib ss sv acc). vs_digest v \<in> set (ancestors (sv_graph sv) (vs_digest h))"
proof -
  from trusted_top [OF acyc, of v "trusted_state lib ss sv acc"] v
  obtain u where "filed_in sv u" "trusted_state lib ss sv acc u" "(vs_digest u, vs_digest v) \<in> (parent_rel (sv_graph sv))\<^sup>*"
      "\<And>x. filed_in sv x \<Longrightarrow> trusted_state lib ss sv acc x \<Longrightarrow> (vs_digest x, vs_digest u) \<notin> (parent_rel (sv_graph sv))\<^sup>+"
    by blast
  then show ?thesis
    using filed_has by (intro bexI [of _ u]) (auto simp: ancestors_iff trusted_heads_top [OF acyc])
qed

end

subsection \<open>The views of a session\<close>

definition view_ok :: "wsp_lib \<Rightarrow> control_view \<Rightarrow> string \<Rightarrow> string \<Rightarrow> state_view \<Rightarrow> bool" where
  "view_ok lib view ws res sv \<longleftrightarrow> sv_sound lib view ws res sv \<and> sv_heads sv = head_states (sv_graph sv) (sv_states sv)"

lemma load_records_same:
  "load_records lib ss res sv s = (s', Inr sv') \<Longrightarrow> \<exists>c. sv' = sv\<lparr>sv_compacted := c\<rparr>"
  by (auto simp: load_records_def act_bind_Inr split: if_splits) (metis state_view.surjective state_view.update_convs(5))

lemma load_records_ok:
  "load_records lib ss res sv s = (s', Inr sv') \<Longrightarrow> view_ok lib view ws res' sv \<Longrightarrow> view_ok lib view ws res' sv'"
  using load_records_same [of lib ss res sv s s' sv'] by (auto simp: view_ok_def sv_sound_def)

lemma load_states_view: "load_states lib ops view ws res also1 s = (s', Inr sv) \<Longrightarrow> view_ok lib view ws res sv"
  unfolding view_ok_def by (intro conjI load_states_sound)

lemma load_resource_loop_ok:
  "load_resource_loop lib ss res retries also1 s = (s', Inr sv) \<Longrightarrow> view_ok lib (ss_view ss) (ss_workspace ss) res sv"
proof (induction retries arbitrary: also1 s)
  case less: (Suc k)
  obtain s1 sv1 where l: "load_states lib (ss_store ss) (ss_view ss) (ss_workspace ss) res also1 s = (s1, Inr sv1)"
    using less.prems by (subst (asm) load_resource_loop.simps) (auto simp: act_bind_Inr)
  have ok: "view_ok lib (ss_view ss) (ss_workspace ss) res sv2" if "load_records lib ss res sv1 t = (t', Inr sv2)" for t t' sv2
    using load_records_ok [OF that load_states_view [OF l]] .
  show ?case
    using less.prems l unfolding load_resource_loop.simps [of lib ss res "Suc k"]
    apply (auto simp: act_bind_Inr split: if_splits sum.splits intro: ok less.IH)
    subgoal for t x t' r by (cases r) (auto intro: less.IH)
    done
next
  case 0
  obtain s1 sv1 where l: "load_states lib (ss_store ss) (ss_view ss) (ss_workspace ss) res also1 s = (s1, Inr sv1)"
    using 0 by (subst (asm) load_resource_loop.simps) (auto simp: act_bind_Inr)
  have ok: "view_ok lib (ss_view ss) (ss_workspace ss) res sv2" if "load_records lib ss res sv1 t = (t', Inr sv2)" for t t' sv2
    using load_records_ok [OF that load_states_view [OF l]] .
  show ?case
    using 0 l unfolding load_resource_loop.simps [of lib ss res 0]
    apply (auto simp: act_bind_Inr split: if_splits sum.splits intro: ok)
    subgoal for t x r by (cases r) auto
    done
qed

lemma load_resource_ok: "load_resource lib ss res also1 s = (s', Inr sv) \<Longrightarrow> view_ok lib (ss_view ss) (ss_workspace ss) res sv"
  unfolding load_resource_def by (rule load_resource_loop_ok)

lemma view_ok_empty: "view_ok lib view ws res empty_state_view"
  by (simp add: view_ok_def sv_sound_empty) (simp add: empty_state_view_def head_states_def graph_heads_def new_graph_def sort_digests_def)

text \<open>What a read of a resource gives, and an empty view when it fails.\<close>

definition loaded_revisions ::
  "wsp_lib \<Rightarrow> ('s, 'z) control_session_scheme \<Rightarrow> string \<Rightarrow> digest list \<Rightarrow> 's \<Rightarrow> state_view" where
  "loaded_revisions lib ss res also1 s = (case snd (load_resource lib ss res also1 s) of Inl e \<Rightarrow> empty_state_view | Inr sv \<Rightarrow> sv)"

lemma loaded_revisions_ok: "view_ok lib (ss_view ss) (ss_workspace ss) res (loaded_revisions lib ss res also1 s)"
  using load_resource_ok [of lib ss res also1 s] view_ok_empty
  by (cases "load_resource lib ss res also1 s") (auto simp: loaded_revisions_def split: sum.split)

lemma loaded_revisions_eq: "load_resource lib ss res also1 s = (s', Inr sv) \<Longrightarrow> loaded_revisions lib ss res also1 s = sv"
  by (simp add: loaded_revisions_def)

lemma view_ok_locale: "view_ok lib view ws res sv \<Longrightarrow> revision_view sv"
  unfolding view_ok_def sv_sound_def by unfold_locales (auto simp: signed_revision_def)

interpretation loaded_rev: revision_view "loaded_revisions lib ss res also1 s"
  for lib ss res also1 s
  by (rule view_ok_locale [OF loaded_revisions_ok])

subsection \<open>Properties\<close>

text \<open>
  C19: where the content of an environment comes from.  For a resource that a session read, and whose revisions
  form no cycle (they name their parents by digest), the trusted heads are exactly the trusted revisions that
  no other trusted revision descends from, each once, in increasing order of their digests; and every trusted
  revision is one of them or an ancestor of one, so nothing that a current member wrote is left out.
\<close>

theorem trusted_heads_exact:
  assumes "load_resource lib ss res also1 s = (s', Inr sv)" and "acyclic (parent_rel (sv_graph sv))"
  shows "set (trusted_heads lib ss sv acc) =
      {v. filed_in sv v \<and> trusted_state lib ss sv acc v \<and> (\<forall>w. filed_in sv w \<longrightarrow> trusted_state lib ss sv acc w
          \<longrightarrow> (vs_digest w, vs_digest v) \<notin> (parent_rel (sv_graph sv))\<^sup>+)}
    \<and> distinct (map vs_digest (trusted_heads lib ss sv acc)) \<and> sorted (map vs_digest (trusted_heads lib ss sv acc))
    \<and> (\<forall>v. filed_in sv v \<longrightarrow> trusted_state lib ss sv acc v \<longrightarrow>
         (\<exists>h\<in>set (trusted_heads lib ss sv acc). vs_digest v \<in> set (ancestors (sv_graph sv) (vs_digest h))))"
  using loaded_rev.trusted_heads_top [of lib ss res also1 s] loaded_rev.trusted_heads_cover [of lib ss res also1 s]
    assms(2) unfolding loaded_revisions_eq [OF assms(1)] by blast

definition sample_cps :: "unit cps_ops" where
  "sample_cps = \<lparr>co_control = (\<lambda>s. (s, Inr [])), co_accepted = (\<lambda>res s. (s, Inr \<lparr>ac_heads = [], ac_control = []\<rparr>)),
     co_accept_control = (\<lambda>v s. (s, Inr ())), co_check_states = (\<lambda>res g ex s. (s, Inr ())),
     co_accept_states = (\<lambda>res g ex hs c s. (s, Inr ()))\<rparr>"

definition sample_cfg :: project_config where
  "sample_cfg = sample_project\<lparr>pc_workspace_id := ''w'', pc_control_genesis := genesis_digest\<rparr>"

definition sample_session :: "unit session" where
  "sample_session = \<lparr>ss_store = state_store, ss_cfg = sample_cfg, ss_workspace = ''w'', ss_view = sample_view,
     ss_head = Some child_verified, ss_cps = sample_cps, ss_replaced = zero_root,
     ss_decrypt = Inr, ss_signer = sample_signer\<rparr>"

lemma sample_load_resource:
  "load_resource sample_lib sample_session ''secrets/dev'' [] () = ((), Inr sample_sv)"
proof -
  have "load_states sample_lib (ss_store sample_session) (ss_view sample_session) (ss_workspace sample_session) ''secrets/dev'' [] ()
      = ((), Inr sample_sv)"
    using sample_load_states by (simp add: sample_session_def)
  moreover have "graph_len (sv_graph sample_sv) = 1"
    by (simp add: sample_sv_def graph_len_def graph_add_def new_graph_def gm_put_def)
  moreover have "load_records sample_lib sample_session ''secrets/dev'' sample_sv () = ((), Inr sample_sv)"
    by (simp add: load_records_def needs_records_def sample_session_def sample_cps_def sample_sv_def missing_def
        graph_add_def new_graph_def gm_put_def sort_digests_def act_defs)
  ultimately show ?thesis
    unfolding load_resource_def load_resource_loop.simps [of _ _ _ accepted_retries]
    by (simp add: act_defs sample_session_def sample_cps_def)
qed

theorem trusted_heads_exact_witness:
  "trusted_heads sample_lib sample_session sample_sv \<lparr>ac_heads = [], ac_control = []\<rparr> \<noteq> []"
proof -
  let ?acc = "\<lparr>ac_heads = [], ac_control = []\<rparr>"
  have g: "sv_graph sample_sv = [(state_digest, [])]"
    by (simp add: sample_sv_def graph_add_def new_graph_def gm_put_def)
  then have none: "parent_rel (sv_graph sample_sv) = {}"
    by (auto simp: parent_rel_def graph_parents_def gm_get_def)
  have "filed_in sample_sv sample_revision"
    by (simp add: filed_in_def sample_sv_def gm_get_def sample_revision_def)
  moreover have "trusted_state sample_lib sample_session sample_sv ?acc sample_revision"
  proof -
    have e: "vf_digest child_verified = child_digest" "vf_control child_verified = child_control"
      "st_control (vs_state sample_revision) = genesis_digest" "st_author (vs_state sample_revision) = pr_id founder"
      by (simp_all add: child_verified_def sample_revision_def sample_state_def)
    have "author_is_current sample_view child_verified sample_revision = Inr ()"
      by (simp add: author_is_current_def e sample_walk)
    then show ?thesis
      by (simp add: trusted_state_def sample_session_def the_head_def above_floors_def sample_sv_def no_compaction_def)
  qed
  ultimately show ?thesis
    using trusted_heads_exact [OF sample_load_resource, of ?acc] none by (auto simp: acyclic_def)
qed

lemma verify_control_facts:
  assumes "verify_control ap st cfg ws False founded fr s = (s', Inr (cps, view, head, replaced))"
  shows "\<exists>cp t t' u u' v v'. load_control (ap_lib ap) st ws (pc_control_genesis cfg) cp t = (t', Inr view)
    \<and> pc_control_genesis cfg \<noteq> [] \<and> head = (if cv_forked view then None else Some (cv_heads view ! 0))
    \<and> to_check (ap_trust ap ws) \<lparr>rt_workspace = ws, rt_genesis = pc_control_genesis cfg\<rparr> u = (u', Inr ())
    \<and> co_accept_control cps view v = (v', Inr ())"
proof -
  have "\<exists>u'. to_check t root u = (u', Inr ())" if "check_pins root ((t, False, e) # ps) u = (u2, Inr ())" for t root e ps u u2
    using that by (auto simp: act_bind_Inr)
  with assms show ?thesis
    by (fastforce simp: verify_control_def trust_pins_def act_bind_Inr Let_def simp del: check_pins.simps split: if_splits)
qed

lemma open_session_facts:
  assumes "open_session ap s = (s', Inr ss)"
  shows "\<exists>cp t t' u u' v v'.
    load_control (ap_lib ap) (ss_store ss) (ss_workspace ss) (pc_control_genesis (ss_cfg ss)) cp t = (t', Inr (ss_view ss))
    \<and> ss_workspace ss = pc_workspace_id (ss_cfg ss) \<and> pc_control_genesis (ss_cfg ss) \<noteq> []
    \<and> cv_heads (ss_view ss) = [the_head ss]
    \<and> control_principal (vf_control (the_head ss)) (ss_self (ap_lib ap) ss) \<noteq> None
    \<and> to_check (ap_trust ap (ss_workspace ss)) \<lparr>rt_workspace = ss_workspace ss, rt_genesis = pc_control_genesis (ss_cfg ss)\<rparr> u = (u', Inr ())
    \<and> co_accept_control (ss_cps ss) (ss_view ss) v = (v', Inr ())"
proof -
  obtain s1 ss0 where o: "open_control ap s = (s1, Inr ss0)"
    and c: "control_principal (vf_control (the_head ss0)) (ss_self (ap_lib ap) ss) \<noteq> None"
    and eq: "ss_store ss = ss_store ss0" "ss_cfg ss = ss_cfg ss0" "ss_workspace ss = ss_workspace ss0" "ss_view ss = ss_view ss0"
      "ss_head ss = ss_head ss0" "ss_cps ss = ss_cps ss0"
    using assms
    by (auto simp: open_session_def act_bind_Inr Let_def ss_self_def control_session.defs session.defs split: if_splits)
  have view: "open_control_view ap s = (s1, Inr ss0)" and head: "ss_head ss0 \<noteq> None"
    using o by (auto simp: open_control_def act_bind_Inr split: if_splits)
  from view obtain cps v h r t t' where vc: "verify_control ap (ss_store ss0) (ss_cfg ss0) (ss_workspace ss0) False False None t
      = (t', Inr (cps, v, h, r))"
    and eq0: "ss_workspace ss0 = pc_workspace_id (ss_cfg ss0)" "ss_view ss0 = v" "ss_head ss0 = h" "ss_cps ss0 = cps"
    by (auto simp: open_control_view_def act_bind_Inr split: if_splits)
  obtain cp a b where l: "load_control (ap_lib ap) (ss_store ss0) (ss_workspace ss0) (pc_control_genesis (ss_cfg ss0)) cp a = (b, Inr v)"
    and facts: "pc_control_genesis (ss_cfg ss0) \<noteq> []" "h = (if cv_forked v then None else Some (cv_heads v ! 0))"
      "\<exists>u u'. to_check (ap_trust ap (ss_workspace ss0)) \<lparr>rt_workspace = ss_workspace ss0, rt_genesis = pc_control_genesis (ss_cfg ss0)\<rparr> u = (u', Inr ())"
      "\<exists>u u'. co_accept_control cps v u = (u', Inr ())"
    using verify_control_facts [OF vc] by blast
  have "cv_heads v \<noteq> []"
    using load_control_heads_facts [OF l] by blast
  then have "cv_heads v = [the_head ss]"
    using head eq eq0 facts(2) by (cases "cv_heads v") (auto simp: cv_forked_def the_head_def split: if_splits)
  moreover have "the_head ss = the_head ss0"
    unfolding the_head_def eq ..
  ultimately show ?thesis
    using c l facts(1,3,4) eq eq0 by auto
qed


text \<open>A store that lists no revision but serves the sample revision by its name.\<close>

definition member_store :: "unit store_ops" where
  "member_store = genesis_store\<lparr>so_fetch_head := (\<lambda>k sc rv s.
        if k = KindState then (s, if rv = state_digest then Inr state_blob else Inl SNotFound)
        else so_fetch_head genesis_store k sc rv s)\<rparr>"

lemma member_load: "load_control sample_lib member_store ''w'' genesis_digest [] () = ((), Inr genesis_view)"
  using genesis_load
  by (simp add: load_control_def member_store_def genesis_store_def sample_store_def sort_digests_def
      split: if_splits sum.splits)

definition sample_app :: "unit app" where
  "sample_app = \<lparr>ap_lib = sample_lib, ap_load_project = act_ok sample_cfg, ap_save_project = (\<lambda>c. act_ok ()),
     ap_uuid_ok = (\<lambda>w. True), ap_open_store = (\<lambda>cfg. Inr member_store), ap_checkpoints = (\<lambda>ws g. sample_cps),
     ap_trust = (\<lambda>ws. \<lparr>to_pinned = (\<lambda>s. (s, Inr zero_root)), to_check = (\<lambda>r s. (s, Inr ())),
        to_pin = (\<lambda>r b s. (s, Inr r)), to_pin_replacing = (\<lambda>r x s. (s, Inr r))\<rparr>),
     ap_repo_trust = None, ap_load_signer = (\<lambda>ws. act_ok sample_signer), ap_load_identities = (\<lambda>ws. act_ok Inr),
     ap_key_updater = None, ap_encrypt = (\<lambda>b rs. act_ok genesis_blob), ap_now = (\<lambda>s. (s, 0)),
     ap_marshal = (\<lambda>m. []), ap_unmarshal = (\<lambda>b. Inr (Some []))\<rparr>"

definition opened_session :: "unit session" where
  "opened_session = \<lparr>ss_store = member_store, ss_cfg = sample_cfg, ss_workspace = ''w'', ss_view = genesis_view,
     ss_head = Some genesis_verified, ss_cps = sample_cps, ss_replaced = zero_root, ss_decrypt = Inr, ss_signer = sample_signer\<rparr>"

lemma sample_cfg_sel: "pc_workspace_id sample_cfg = ''w''" "pc_control_genesis sample_cfg = genesis_digest"
  by (simp_all add: sample_cfg_def)

lemma genesis_digest_nonempty: "genesis_digest \<noteq> []"
  by (simp add: genesis_digest_def sample_digest_lib_def)

lemma sample_open: "open_session sample_app () = ((), Inr opened_session)"
proof -
  have v: "cv_forked genesis_view \<longleftrightarrow> False" "cv_heads genesis_view ! 0 = genesis_verified"
    by (simp_all add: genesis_view_def cv_forked_def)
  have c: "verify_control sample_app member_store sample_cfg ''w'' False False None ()
      = ((), Inr (sample_cps, genesis_view, Some genesis_verified, zero_root))"
    using member_load genesis_digest_nonempty v
    by (simp add: verify_control_def trust_pins_def sample_app_def sample_cfg_sel act_defs Let_def sample_cps_def)
  have p: "control_principal (vf_control genesis_verified) (pr_id founder) \<noteq> None"
    by (simp add: genesis_verified_def genesis_control_def control_principal_def)
  have "open_control sample_app () = ((), Inr \<lparr>ss_store = member_store, ss_cfg = sample_cfg, ss_workspace = ''w'',
      ss_view = genesis_view, ss_head = Some genesis_verified, ss_cps = sample_cps, ss_replaced = zero_root\<rparr>)"
    using c by (simp add: open_control_def open_control_view_def sample_app_def sample_cfg_sel act_defs)
  then show ?thesis
    using p by (simp add: open_session_def act_defs Let_def the_head_def sample_app_def sample_signer_def
        promote_approved_key_def control_session.defs session.defs opened_session_def)
qed


lemma sign_state_decodes:
  assumes "sign_state lib s sg = Inr blob" and "\<And>x. codec_round (wl_state lib) x"
    and "\<And>body sig. sg_sign sg domain_state body = Inr sig \<Longrightarrow> codec_round (wl_signed lib) \<lparr>sd_body = body, sd_signature = sig\<rparr>"
    and "decode_signed lib blob = Inr sd" and "decode_canonical (wl_state lib) (sd_body sd) = Inr st"
  shows "st = sorted_state s"
proof -
  obtain body sig where body: "cd_marshal (wl_state lib) (sorted_state s) = Some body"
    and sig: "sg_sign sg domain_state body = Inr sig"
    and blob: "cd_marshal (wl_signed lib) \<lparr>sd_body = body, sd_signature = sig\<rparr> = Some blob"
    using assms(1)
    by (auto simp: sign_state_def Let_def res_simps marshal_def signer_sign_def encode_signed_def sorted_state_def
        split: if_splits option.splits sum.splits)
  have "sd = \<lparr>sd_body = body, sd_signature = sig\<rparr>"
    using codec_round_decode [OF assms(3) [OF sig] blob] assms(4) by (auto simp: decode_signed_Inr decode_canonical_Inr)
  with codec_round_decode [OF assms(2) body] assms(5) show ?thesis by simp
qed

lemma write_state_facts:
  assumes "write_state ap ss res secrets parents s = (s', Some st, r)"
    and "\<And>x. codec_round (wl_state (ap_lib ap)) x"
    and "\<And>body sig. sg_sign (ss_signer ss) domain_state body = Inr sig \<Longrightarrow>
           codec_round (wl_signed (ap_lib ap)) \<lparr>sd_body = body, sd_signature = sig\<rparr>"
  shows "\<exists>ct now blob s1 s2 s3 s4.
    ap_encrypt ap (ap_marshal ap secrets) (control_recipients (vf_control (the_head ss))) s = (s1, Inr ct)
    \<and> control_unchanged (ap_lib ap) ss s1 = (s2, Inr ())
    \<and> vs_state st = \<lparr>st_workspace = ss_workspace ss, st_resource = res, st_parents = sort parents,
         st_control = vf_digest (the_head ss), st_ciphertext = dl_from_bytes (wl_digest (ap_lib ap)) ct,
         st_author = ss_self (ap_lib ap) ss, st_created_at = now\<rparr>
    \<and> verify_revision (ap_lib ap) (ss_view ss) (ss_workspace ss) res (vs_digest st) blob = Inr st
    \<and> so_publish (ss_store ss) \<lparr>ob_kind = KindState, ob_scope = st_scope (ap_lib ap) (vs_state st), ob_rv = vs_digest st,
         ob_head = blob, ob_blobs = [ct]\<rparr> s3 = (s4, Inr ())
    \<and> control_unchanged (ap_lib ap) ss s4 = (s', r)"
proof -
  let ?lib = "ap_lib ap"
  let ?n = "\<lambda>ct now. \<lparr>st_workspace = ss_workspace ss, st_resource = res, st_parents = parents,
         st_control = vf_digest (the_head ss), st_ciphertext = dl_from_bytes (wl_digest ?lib) ct,
         st_author = ss_self ?lib ss, st_created_at = now\<rparr>"
  obtain ct now blob s1 s2 s3 s4 where e: "ap_encrypt ap (ap_marshal ap secrets) (control_recipients (vf_control (the_head ss))) s = (s1, Inr ct)"
    and u: "control_unchanged ?lib ss s1 = (s2, Inr ())"
    and sign: "sign_state ?lib (?n ct now) (ss_signer ss) = Inr blob"
    and v: "verify_revision ?lib (ss_view ss) (ss_workspace ss) res (dl_from_bytes (wl_digest ?lib) blob) blob = Inr st"
    and p: "so_publish (ss_store ss) (state_object ?lib (?n ct now) blob ct) s3 = (s4, Inr ())"
    and u2: "control_unchanged ?lib ss s4 = (s', r)"
    using assms(1) unfolding write_state_def
    by (auto simp: act_bind_Inr Let_def split: prod.splits sum.splits)
  have dig: "vs_digest st = dl_from_bytes (wl_digest ?lib) blob"
    using verify_revision_Inr [OF v] by (auto simp: signed_revision_def)
  have state: "vs_state st = sorted_state (?n ct now)"
    using sign_state_decodes [OF sign assms(2,3)] verify_revision_Inr [OF v] by (auto simp: signed_revision_def)
  have "st_scope ?lib (vs_state st) = st_scope ?lib (?n ct now)"
    by (simp add: state sorted_state_def st_scope_def)
  with e u v p u2 state show ?thesis
    by (auto simp: state_object_def dig sorted_state_def sort_digests_def)
qed


lemma sample_written:
  "write_state sample_app opened_session ''secrets/dev'' (Some []) [] () = ((), Some sample_revision, Inr ())"
proof -
  have head: "the_head opened_session = genesis_verified" "vf_digest genesis_verified = genesis_digest"
    by (simp_all add: the_head_def opened_session_def genesis_verified_def)
  have u: "control_unchanged sample_lib opened_session () = ((), Inr ())"
    using member_load by (simp add: control_unchanged_def act_defs head)
      (simp add: opened_session_def sample_cfg_sel genesis_view_def cv_forked_def head)
  have n: "\<lparr>st_workspace = ''w'', st_resource = ''secrets/dev'', st_parents = [], st_control = genesis_digest,
      st_ciphertext = dl_from_bytes sample_digest_lib genesis_blob, st_author = pr_id founder, st_created_at = 0\<rparr> = sample_state"
    by (simp add: sample_state_def genesis_digest_def)
  have v: "verify_revision sample_lib genesis_view ''w'' ''secrets/dev'' (dl_from_bytes sample_digest_lib state_blob) state_blob
      = Inr sample_revision"
    using sample_state_signed unfolding verify_revision_iff
    by (auto simp: signed_revision_def state_digest_def sample_revision_def genesis_view_def cv_get_def gm_get_def sample_state_sel
        sample_view_def)
  have self: "ss_self sample_lib opened_session = pr_id founder" "ss_signer opened_session = sample_signer"
    "ss_view opened_session = genesis_view" "ss_workspace opened_session = ''w''"
    by (simp_all add: ss_self_def opened_session_def sample_signer_def)
  have p: "so_publish (ss_store opened_session) x () = ((), Inr ())" for x
    by (simp add: opened_session_def member_store_def genesis_store_def sample_store_def)
  have app: "ap_lib sample_app = sample_lib" "ap_encrypt sample_app b rs () = ((), Inr genesis_blob)" "ap_now sample_app () = ((), 0)" for b rs
    by (simp_all add: sample_app_def act_ok_def)
  show ?thesis
    by (simp add: write_state_def act_bind_def app u self head n sample_sign_state v p lift_wsp_def lift_storage_def act_map_err_def
        act_ok_def Let_def)
qed

lemma sample_codecs:
  "codec_round (wl_state (ap_lib sample_app)) x"
  "sg_sign (ss_signer opened_session) domain_state body = Inr sig \<Longrightarrow>
     codec_round (wl_signed (ap_lib sample_app)) \<lparr>sd_body = body, sd_signature = sig\<rparr>"
  by (auto simp: sample_app_def sample_lib_def one_codec_def codec_round_def opened_session_def sample_signer_def
      split: if_splits)




end
