(* ===== verification/Secrets.thy ===== *)
theory Secrets
  imports Session Dotenv
begin

text \<open>
  Reading and changing the secrets of an environment: \<open>app/secrets.go\<close> (without the pull into a file, which
  is in \<open>Pull\<close>) and \<open>app/import.go\<close>.  A change acts on the decrypted map; it gives the map after it and
  possibly an error, as a Go closure does that changes its argument and returns an error.
\<close>

type_synonym change = "env_map \<Rightarrow> env_map \<times> unit app_result"

definition max_retries :: nat where "max_retries = 3"
definition sync_retries :: nat where "sync_retries = 5"

text \<open>An assignment to a nil map panics; deleting from one does nothing.\<close>

definition map_put :: "string \<Rightarrow> string \<Rightarrow> env_map \<Rightarrow> env_map \<times> unit app_result" where
  "map_put k v m = (case m of None \<Rightarrow> (m, Inl (Plain CausePanic)) | Some es \<Rightarrow> (Some (gm_put k v es), Inr ()))"

definition map_has :: "env_map \<Rightarrow> string \<Rightarrow> bool" where
  "map_has m k \<longleftrightarrow> gm_has (map_entries m) k"

definition key_error :: "app_code \<Rightarrow> string \<Rightarrow> go_error" where
  "key_error k key = app_new k [(''key'', key)]"

subsection \<open>Changes\<close>

definition add_change :: "string \<Rightarrow> string \<Rightarrow> change" where
  "add_change key v m = (if map_has m key then (m, Inl (key_error CodeSecretExists key)) else map_put key v m)"

definition edit_change :: "string \<Rightarrow> string \<Rightarrow> change" where
  "edit_change key v m = (if \<not> map_has m key then (m, Inl (key_error CodeSecretMissing key)) else map_put key v m)"

definition delete_change :: "string \<Rightarrow> change" where
  "delete_change key m =
     (if \<not> map_has m key then (m, Inl (Plain CauseNoChange)) else (map_option (gm_del key) m, Inr ()))"

definition no_change :: change where
  "no_change m = (m, Inr ())"

text \<open>\<open>RestoreHistory\<close>: \<open>clear\<close>, then the entries of the snapshot.\<close>

fun put_all :: "secrets \<Rightarrow> change" where
  "put_all [] m = (m, Inr ())"
| "put_all ((k, v) # es) m = (case map_put k v m of (m', Inl e) \<Rightarrow> (m', Inl e) | (m', Inr _) \<Rightarrow> put_all es m')"

definition restore_change :: "env_map \<Rightarrow> change" where
  "restore_change snapshot m = put_all (map_entries snapshot) (map_option (\<lambda>_. []) m)"

record import_result =
  ir_added :: "string list"
  ir_updated :: "string list"
  ir_unchanged :: "string list"

text \<open>What the loop over the imported secrets finds: added, updated, unchanged and conflicting keys.\<close>

fun import_keys ::
  "bool \<Rightarrow> env_map \<Rightarrow> secrets \<Rightarrow> import_result \<Rightarrow> string list \<Rightarrow> import_result \<times> string list" where
  "import_keys overwrite current [] r conflicts = (r, conflicts)"
| "import_keys overwrite current ((k, v) # es) r conflicts =
     (case gm_get (map_entries current) k of
        None \<Rightarrow> import_keys overwrite current es (r\<lparr>ir_added := ir_added r @ [k]\<rparr>) conflicts
      | Some old \<Rightarrow>
          if old = v then import_keys overwrite current es (r\<lparr>ir_unchanged := ir_unchanged r @ [k]\<rparr>) conflicts
          else if overwrite then import_keys overwrite current es (r\<lparr>ir_updated := ir_updated r @ [k]\<rparr>) conflicts
          else import_keys overwrite current es r (conflicts @ [k]))"

fun join_comma :: "string list \<Rightarrow> string" where
  "join_comma [] = []"
| "join_comma [s] = s"
| "join_comma (s # ss) = s @ '', '' @ join_comma ss"

definition import_outcome :: "secrets \<Rightarrow> bool \<Rightarrow> env_map \<Rightarrow> import_result \<times> string list" where
  "import_outcome given overwrite m =
     import_keys overwrite m given \<lparr>ir_added = [], ir_updated = [], ir_unchanged = []\<rparr> []"

definition import_change :: "secrets \<Rightarrow> bool \<Rightarrow> change" where
  "import_change given overwrite m =
     (case import_outcome given overwrite m of
        (r, conflicts) \<Rightarrow>
          let cs = sort conflicts in
          if length cs > 1
          then (m, Inl (app_new CodeImportConflict [(''count'', show_nat (length cs)), (''keys'', join_comma cs)]))
          else if cs \<noteq> [] then (m, Inl (key_error CodeSecretExists (join_comma cs)))
          else (case put_all given m of
                  (m', Inl e) \<Rightarrow> (m', Inl e)
                | (m', Inr _) \<Rightarrow>
                    (m', if ir_added r = [] \<and> ir_updated r = [] then Inl (Plain CauseNoChange) else Inr ())))"

subsection \<open>Conflicts\<close>

definition conflict_error :: "conflict list \<Rightarrow> go_error option" where
  "conflict_error cs =
     (if cs = [] then None else Some (app_new CodeSecretConflict [(''keys'', join_comma (map cf_key cs))]))"

definition head_names :: "wsp_lib \<Rightarrow> digest list \<Rightarrow> string list" where
  "head_names lib heads = sort (map (dl_encoded (wl_digest lib)) heads)"

fun join_lines :: "string list \<Rightarrow> string" where
  "join_lines [] = []"
| "join_lines [s] = s"
| "join_lines (s # ss) = s @ newline # join_lines ss"

definition conflict_id :: "crypto \<Rightarrow> string list \<Rightarrow> string" where
  "conflict_id cr heads = take 12 (hex_encode (cr_sha256 cr (join_lines heads)))"

record conflict_candidate =
  cc_value :: string
  cc_deleted :: bool

record secret_conflict =
  sc_key :: string
  sc_candidates :: "conflict_candidate list"

record conflict_set =
  cs_id :: string
  cs_heads :: "string list"
  cs_conflicts :: "secret_conflict list"

definition to_secret_conflicts :: "conflict list \<Rightarrow> secret_conflict list" where
  "to_secret_conflicts cs =
     map (\<lambda>c. \<lparr>sc_key = cf_key c,
               sc_candidates = map (\<lambda>v. \<lparr>cc_value = mv_text v, cc_deleted = mv_deleted v\<rparr>) (cf_candidates c)\<rparr>) cs"

subsection \<open>Changing a resource\<close>

definition published_in_read :: "resource_read option \<Rightarrow> digest list \<Rightarrow> bool" where
  "published_in_read rd published \<longleftrightarrow>
     (case rd of
        None \<Rightarrow> False
      | Some r \<Rightarrow>
          list_ex (\<lambda>h. list_ex (\<lambda>d. d \<in> set (ancestors (sv_graph (rr_view r)) (vs_digest h))) published) (rr_heads r))"

definition same_heads :: "verified_state list \<Rightarrow> verified_state list \<Rightarrow> bool" where
  "same_heads a b \<longleftrightarrow> length a = length b \<and> list_all (\<lambda>i. vs_digest (a ! i) = vs_digest (b ! i)) [0..<length a]"

text \<open>What a read leads to: an end of the call, or a map with the heads it was read from.\<close>

datatype start = Stop "unit app_result" | Go "resource_read option" env_map "digest list"

definition start_change :: "wsp_lib \<Rightarrow> string \<Rightarrow> string list option \<Rightarrow> resource_read app_result \<Rightarrow> start" where
  "start_change lib op1 seen cur =
     (case cur of
        Inl e \<Rightarrow>
          if \<not> is_not_found_error e then Stop (Inl (Wrapping [e]))
          else if op1 = ''sync'' \<or> op1 = ''delete'' then Stop (Inr ())
          else if op1 = ''edit'' \<or> op1 = ''resolve'' then Stop (Inl e)
          else Go None (Some []) []
      | Inr r \<Rightarrow>
          if (case seen of None \<Rightarrow> False | Some names \<Rightarrow> head_names lib (rr_parents r) \<noteq> names)
          then Stop (Inl (app_new CodeConflict []))
          else (case conflict_error (rr_conflicts r) of
                  Some e \<Rightarrow> Stop (Inl e)
                | None \<Rightarrow> Go (Some r) (rr_secrets r) (rr_parents r)))"

definition apply_change :: "change \<Rightarrow> resource_read option \<Rightarrow> digest list \<Rightarrow> env_map \<Rightarrow> digest list \<Rightarrow> start" where
  "apply_change change cur published secrets parents =
     (if published_in_read cur published then Go cur secrets parents
      else case change secrets of
        (m, Inr _) \<Rightarrow> Go cur m parents
      | (m, Inl e) \<Rightarrow>
          if e = Plain CauseNoChange
          then (if length parents \<le> 1 then Stop (Inr ()) else Go cur m parents)
          else Stop (Inl e))"

text \<open>Whether the trusted heads are still those that were read.\<close>

definition still_current :: "'s app \<Rightarrow> 's session \<Rightarrow> string \<Rightarrow> resource_read option \<Rightarrow> digest list \<Rightarrow> ('s, bool) act" where
  "still_current ap ss res cur published =
     (case cur of
        None \<Rightarrow> act_ok True
      | Some r \<Rightarrow>
          act_bind (load_resource (ap_lib ap) ss res published) (\<lambda>latest.
          act_bind (lift_wsp (co_accepted (ss_cps ss) res)) (\<lambda>accepted.
            act_ok (same_heads (trusted_heads (ap_lib ap) ss latest accepted) (rr_heads r)))))"

text \<open>The loop of \<open>changeResource\<close>, with the attempts that are left.\<close>

fun change_loop ::
  "'s app \<Rightarrow> string \<Rightarrow> string \<Rightarrow> (string, choice) gomap \<Rightarrow> string list option \<Rightarrow> change
    \<Rightarrow> nat \<Rightarrow> 's session \<Rightarrow> digest list \<Rightarrow> ('s, unit) act" where
  "change_loop ap res op1 choices seen change 0 ss published = act_fail (app_new CodeConflict [])"
| "change_loop ap res op1 choices seen change (Suc k) ss published =
     act_bind (act_try (read_resource ap ss res choices True published)) (\<lambda>cur.
       case start_change (ap_lib ap) op1 seen cur of
         Stop r \<Rightarrow> act_pure r
       | Go rd secrets parents \<Rightarrow>
           (case apply_change change rd published secrets parents of
              Stop r \<Rightarrow> act_pure r
            | Go rd secrets parents \<Rightarrow>
                act_bind (still_current ap ss res rd published) (\<lambda>still.
                  if \<not> still then change_loop ap res op1 choices seen change k ss published
                  else (\<lambda>s. case write_state ap ss res secrets parents s of
                     (s1, st, r) \<Rightarrow>
                       let published = published @ (case st of None \<Rightarrow> [] | Some v \<Rightarrow> [vs_digest v]) in
                       (case r of
                          Inl e \<Rightarrow>
                            if errors_is CauseControlMoved e
                            then act_bind (open_session ap) (\<lambda>ss.
                                   if k = 0 then act_fail (Wrapping [Plain CauseControlMoved])
                                   else change_loop ap res op1 choices seen change k ss published) s1
                            else if errors_is_not_found e
                            then (if k = 0 then (s1, Inl (Wrapping []))
                                  else change_loop ap res op1 choices seen change k ss published s1)
                            else (s1, Inl (Wrapping [e]))
                        | Inr _ \<Rightarrow>
                            (case st of
                               None \<Rightarrow> (s1, Inl (Plain CausePanic))
                             | Some v \<Rightarrow> accept_published ap ss res v s1))))))"

declare change_loop.simps [simp del]

definition change_resource ::
  "'s app \<Rightarrow> 's session \<Rightarrow> string \<Rightarrow> string \<Rightarrow> (string, choice) gomap \<Rightarrow> string list option \<Rightarrow> change \<Rightarrow> ('s, unit) act" where
  "change_resource ap ss res op1 choices seen change =
     change_loop ap res op1 choices seen change (if op1 = ''sync'' then sync_retries else max_retries) ss []"

definition resolve_env :: "'s app \<Rightarrow> string \<Rightarrow> ('s, resolved_env) act" where
  "resolve_env ap name = act_bind (act_try (ap_load_project ap)) (\<lambda>loaded. act_pure (resolve_environment loaded name))"

definition change_secret_with ::
  "'s app \<Rightarrow> string \<Rightarrow> string \<Rightarrow> (string, choice) gomap \<Rightarrow> string list option \<Rightarrow> change \<Rightarrow> ('s, unit) act" where
  "change_secret_with ap env op1 choices seen change =
     act_bind (resolve_env ap env) (\<lambda>resolved.
     act_bind (open_session ap) (\<lambda>ss.
       change_resource ap ss (ss_resource ss (re_name resolved)) op1 choices seen change))"

definition change_secret :: "'s app \<Rightarrow> string \<Rightarrow> string \<Rightarrow> change \<Rightarrow> ('s, unit) act" where
  "change_secret ap env op1 change = change_secret_with ap env op1 [] None change"

subsection \<open>The operations\<close>

definition normalized :: "('s, 'a) act \<Rightarrow> ('s, 'a) act" where
  "normalized = act_map_err normalize_err"

definition list_secrets :: "'s app \<Rightarrow> string \<Rightarrow> ('s, env_map) act" where
  "list_secrets ap env =
     normalized (act_bind (resolve_env ap env) (\<lambda>resolved.
       act_bind (open_session ap) (\<lambda>ss.
       act_bind (act_try (read_resource ap ss (ss_resource ss (re_name resolved)) [] True [])) (\<lambda>rd.
         case rd of
           Inl e \<Rightarrow> if is_not_found_error e then act_ok (Some []) else act_fail e
         | Inr r \<Rightarrow> (case conflict_error (rr_conflicts r) of Some e \<Rightarrow> act_fail e | None \<Rightarrow> act_ok (rr_secrets r))))))"

definition add_secret :: "'s app \<Rightarrow> string \<Rightarrow> string \<Rightarrow> string \<Rightarrow> ('s, unit) act" where
  "add_secret ap env key v = normalized (change_secret ap env ''add'' (add_change key v))"

definition edit_secret :: "'s app \<Rightarrow> string \<Rightarrow> string \<Rightarrow> string \<Rightarrow> ('s, unit) act" where
  "edit_secret ap env key v = normalized (change_secret ap env ''edit'' (edit_change key v))"

definition delete_secret :: "'s app \<Rightarrow> string \<Rightarrow> string \<Rightarrow> ('s, unit) act" where
  "delete_secret ap env key = normalized (change_secret ap env ''delete'' (delete_change key))"

definition sync_secrets :: "'s app \<Rightarrow> string \<Rightarrow> ('s, unit) act" where
  "sync_secrets ap env = normalized (change_secret ap env ''sync'' no_change)"

definition list_conflicts :: "'s app \<Rightarrow> string \<Rightarrow> ('s, conflict_set) act" where
  "list_conflicts ap env =
     normalized (act_bind (resolve_env ap env) (\<lambda>resolved.
       act_bind (open_session ap) (\<lambda>ss.
       act_bind (act_try (read_resource ap ss (ss_resource ss (re_name resolved)) [] True [])) (\<lambda>rd.
         case rd of
           Inl e \<Rightarrow> if is_not_found_error e then act_ok \<lparr>cs_id = [], cs_heads = [], cs_conflicts = []\<rparr> else act_fail e
         | Inr r \<Rightarrow>
             let heads = head_names (ap_lib ap) (rr_parents r)
             in act_ok \<lparr>cs_id = conflict_id (wl_crypto (ap_lib ap)) heads, cs_heads = heads,
                        cs_conflicts = to_secret_conflicts (rr_conflicts r)\<rparr>))))"

definition resolve_secrets ::
  "'s app \<Rightarrow> string \<Rightarrow> string list \<Rightarrow> (string, choice) gomap \<Rightarrow> ('s, unit) act" where
  "resolve_secrets ap env seen choices =
     normalized (if seen = [] then act_fail (app_new CodeInvalidArgument [])
       else change_secret_with ap env ''resolve'' choices (Some (sort seen)) no_change)"

text \<open>
  \<open>ImportSecrets\<close>.  The closure fills the result each time it runs; here the result is worked out from the map the
  closure saw, which the model does not return, so only the effect is modelled.
\<close>

definition import_secrets :: "'s app \<Rightarrow> string \<Rightarrow> secrets \<Rightarrow> bool \<Rightarrow> ('s, unit) act" where
  "import_secrets ap env given overwrite =
     normalized (if given = [] then act_fail (app_new CodeInvalidArgument [])
       else act_bind (resolve_env ap env) (\<lambda>_. change_secret ap env ''import'' (import_change given overwrite)))"

end
