(* ===== verification/Secrets_Props.thy ===== *)
theory Secrets_Props
  imports Secrets Session_Props
begin

text \<open>What a successful change of an environment has done, and what an import changes.\<close>

text \<open>
  The last round of the loop of \<open>changeResource\<close>: it read the resource in state \<open>t\<close>, and either had nothing to do
  or wrote the changed secrets on top of the heads it read, which were still the trusted ones.
\<close>

definition committed ::
  "'s app \<Rightarrow> 's session \<Rightarrow> string \<Rightarrow> string \<Rightarrow> (string, choice) gomap \<Rightarrow> string list option \<Rightarrow> change
    \<Rightarrow> digest list \<Rightarrow> 's \<Rightarrow> 's \<Rightarrow> bool" where
  "committed ap ss res op1 choices seen change published t s' \<longleftrightarrow>
     (\<exists>cur t1. read_resource ap ss res choices True published t = (t1, cur) \<and>
       (start_change (ap_lib ap) op1 seen cur = Stop (Inr ()) \<and> s' = t1
        \<or> (\<exists>rd old parents. start_change (ap_lib ap) op1 seen cur = Go rd old parents \<and>
            (apply_change change rd published old parents = Stop (Inr ()) \<and> s' = t1
             \<or> (\<exists>new t2 t3 st. apply_change change rd published old parents = Go rd new parents
                \<and> still_current ap ss res rd published t1 = (t2, Inr True)
                \<and> write_state ap ss res new parents t2 = (t3, Some st, Inr ())
                \<and> accept_published ap ss res st t3 = (s', Inr ()))))))"

lemma apply_change_same:
  "apply_change change rd published old parents = Go rd' new parents' \<Longrightarrow> rd' = rd \<and> parents' = parents"
  by (auto simp: apply_change_def split: if_splits prod.splits sum.splits)

lemma committed_publish:
  assumes "read_resource ap ss res choices True published t = (t1, cur)"
    and "start_change (ap_lib ap) op1 seen cur = Go rd old parents"
    and "apply_change change rd published old parents = Go rd new parents"
    and "still_current ap ss res rd published t1 = (t2, Inr True)"
    and "write_state ap ss res new parents t2 = (t3, Some st, Inr ())" and "accept_published ap ss res st t3 = (s', Inr ())"
  shows "committed ap ss res op1 choices seen change published t s'"
  unfolding committed_def
  apply (rule exI [of _ cur], rule exI [of _ t1], rule conjI [OF assms(1)], rule disjI2)
  apply (rule exI [of _ rd], rule exI [of _ old], rule exI [of _ parents], rule conjI [OF assms(2)], rule disjI2)
  apply (rule exI [of _ new], rule exI [of _ t2], rule exI [of _ t3], rule exI [of _ st])
  by (intro conjI assms(3-6))

text \<open>The session of a call, or one that was opened since.\<close>

definition session_of :: "'s app \<Rightarrow> 's session \<Rightarrow> 's session \<Rightarrow> bool" where
  "session_of ap ss ss' \<longleftrightarrow> ss' = ss \<or> (\<exists>u u'. open_session ap u = (u', Inr ss'))"

lemma session_of_refl [simp]: "session_of ap ss ss"
  by (simp add: session_of_def)

lemma session_of_opened: "open_session ap u = (u', Inr ss') \<Longrightarrow> session_of ap ss ss'"
  by (auto simp: session_of_def)

lemma session_of_trans: "session_of ap ss ss' \<Longrightarrow> session_of ap ss' ss'' \<Longrightarrow> session_of ap ss ss''"
  by (auto simp: session_of_def)

text \<open>A revision that a call starting with session \<open>ss\<close> wrote.\<close>

definition written_by :: "'s app \<Rightarrow> 's session \<Rightarrow> string \<Rightarrow> digest \<Rightarrow> bool" where
  "written_by ap ss res d \<longleftrightarrow>
     (\<exists>ss' new parents t t' st r. session_of ap ss ss' \<and> write_state ap ss' res new parents t = (t', Some st, r) \<and> vs_digest st = d)"

lemma written_byI:
  "session_of ap ss ss' \<Longrightarrow> write_state ap ss' res new parents t = (t', Some st, r) \<Longrightarrow> written_by ap ss res (vs_digest st)"
  unfolding written_by_def by blast

text \<open>The part of a round after the change.\<close>

definition publish_round ::
  "'s app \<Rightarrow> string \<Rightarrow> string \<Rightarrow> (string, choice) gomap \<Rightarrow> string list option \<Rightarrow> change \<Rightarrow> nat \<Rightarrow> 's session
    \<Rightarrow> digest list \<Rightarrow> resource_read option \<Rightarrow> env_map \<Rightarrow> digest list \<Rightarrow> ('s, unit) act" where
  "publish_round ap res op1 choices seen change k ss published rd secrets parents =
     act_bind (still_current ap ss res rd published) (\<lambda>still.
       if \<not> still then change_loop ap res op1 choices seen change k ss published
       else (\<lambda>s. case write_state ap ss res secrets parents s of
          (s1, st, r) \<Rightarrow>
            let published = published @ (case st of None \<Rightarrow> [] | Some v \<Rightarrow> [vs_digest v]) in
            (case r of
               Inl e \<Rightarrow>
                 if errors_is CauseControlMoved e
                 then act_bind (open_session ap) (\<lambda>ss.
                        if k = 0 then act_fail (Wrapping [Plain CauseControlMoved])
                        else change_loop ap res op1 choices seen change k ss published) s1
                 else if errors_is_not_found e
                 then (if k = 0 then (s1, Inl (Wrapping []))
                       else change_loop ap res op1 choices seen change k ss published s1)
                 else (s1, Inl (Wrapping [e]))
             | Inr _ \<Rightarrow>
                 (case st of
                    None \<Rightarrow> (s1, Inl (Plain CausePanic))
                  | Some v \<Rightarrow> accept_published ap ss res v s1))))"

lemma publish_round_cases:
  assumes "publish_round ap res op1 choices seen change k ss published rd new parents t1 = (s', Inr ())"
    and "session_of ap ss0 ss" and "\<forall>d\<in>set published. written_by ap ss0 res d"
  shows "(\<exists>ss' published' u. change_loop ap res op1 choices seen change k ss' published' u = (s', Inr ())
       \<and> session_of ap ss0 ss' \<and> (\<forall>d\<in>set published'. written_by ap ss0 res d))
    \<or> (\<exists>t2 t3 st. still_current ap ss res rd published t1 = (t2, Inr True)
       \<and> write_state ap ss res new parents t2 = (t3, Some st, Inr ()) \<and> accept_published ap ss res st t3 = (s', Inr ()))"
proof -
  obtain t2 still where st: "still_current ap ss res rd published t1 = (t2, Inr still)"
    using assms unfolding publish_round_def by (auto simp: act_bind_Inr)
  show ?thesis
  proof (cases still)
    case False
    with assms(1) st have "change_loop ap res op1 choices seen change k ss published t2 = (s', Inr ())"
      unfolding publish_round_def by (simp add: act_bind_def)
    then show ?thesis using assms(2,3) by blast
  next
    case True
    obtain t3 v r where w: "write_state ap ss res new parents t2 = (t3, v, r)"
      by (metis prod_cases3)
    let ?pub = "published @ (case v of None \<Rightarrow> [] | Some v \<Rightarrow> [vs_digest v])"
    have pub: "\<forall>d\<in>set ?pub. written_by ap ss0 res d"
      using assms(3) w written_byI [OF assms(2)] by (auto split: option.splits)
    show ?thesis
    proof (cases r)
      case (Inl e)
      with assms(1) st True w have "(\<exists>u u' ss'. open_session ap u = (u', Inr ss') \<and> change_loop ap res op1 choices seen change k ss' ?pub u' = (s', Inr ()))
          \<or> change_loop ap res op1 choices seen change k ss ?pub t3 = (s', Inr ())"
        unfolding publish_round_def by (auto simp: act_bind_def Let_def split: if_splits prod.splits sum.splits)
      then show ?thesis
        using pub assms(2) by (elim disjE exE conjE) (blast intro: session_of_opened)+
    next
      case (Inr x)
      with assms(1) st True w show ?thesis
        unfolding publish_round_def by (auto simp: act_bind_def Let_def split: option.splits)
    qed
  qed
qed

lemma change_loop_committed:
  assumes "change_loop ap res op1 choices seen change k ss published s = (s', Inr ())"
    and "session_of ap ss0 ss" and "\<forall>d\<in>set published. written_by ap ss0 res d"
  shows "\<exists>ss' published' t. session_of ap ss0 ss' \<and> (\<forall>d\<in>set published'. written_by ap ss0 res d)
    \<and> committed ap ss' res op1 choices seen change published' t s'"
  using assms
proof (induction k arbitrary: ss published s)
  case 0
  then show ?case by (simp add: change_loop.simps)
next
  case (Suc k)
  obtain t1 cur where r: "read_resource ap ss res choices True published s = (t1, cur)"
    by fastforce
  have prems: "(case start_change (ap_lib ap) op1 seen cur of
       Stop r \<Rightarrow> act_pure r
     | Go rd secrets parents \<Rightarrow>
         (case apply_change change rd published secrets parents of
            Stop r \<Rightarrow> act_pure r
          | Go rd secrets parents \<Rightarrow> publish_round ap res op1 choices seen change k ss published rd secrets parents)) t1
     = (s', Inr ())"
    using Suc.prems(1) r unfolding change_loop.simps publish_round_def by (simp add: act_bind_def act_try_def)
  show ?case
  proof (cases "start_change (ap_lib ap) op1 seen cur")
    case (Stop r')
    with prems have "committed ap ss res op1 choices seen change published s s'"
      using r by (auto simp: committed_def)
    then show ?thesis using Suc.prems(2,3) by blast
  next
    case (Go rd old parents)
    show ?thesis
    proof (cases "apply_change change rd published old parents")
      case (Stop r')
      with prems Go have "committed ap ss res op1 choices seen change published s s'"
        using r by (auto simp: committed_def)
      then show ?thesis using Suc.prems(2,3) by blast
    next
      case same: (Go rd' new parents')
      then have eq: "rd' = rd" "parents' = parents"
        using apply_change_same by blast+
      with prems Go same have p: "publish_round ap res op1 choices seen change k ss published rd new parents t1 = (s', Inr ())"
        by simp
      from publish_round_cases [OF p Suc.prems(2,3)] show ?thesis
      proof (elim disjE exE conjE)
        fix ss' published' u assume l: "change_loop ap res op1 choices seen change k ss' published' u = (s', Inr ())"
          and "session_of ap ss0 ss'" "\<forall>d\<in>set published'. written_by ap ss0 res d"
        then show ?thesis using Suc.IH [OF l] by blast
      next
        fix t2 t3 st assume "still_current ap ss res rd published t1 = (t2, Inr True)"
          "write_state ap ss res new parents t2 = (t3, Some st, Inr ())" "accept_published ap ss res st t3 = (s', Inr ())"
        then have "committed ap ss res op1 choices seen change published s s'"
          using committed_publish [OF r Go same [unfolded eq]] by blast
        then show ?thesis using Suc.prems(2,3) by blast
      qed
    qed
  qed
qed

lemma change_secret_committed:
  assumes "change_secret_with ap env op1 choices seen change s = (s', Inr ())"
  shows "\<exists>ss res ss0 published t. (\<exists>u u'. open_session ap u = (u', Inr ss0)) \<and> (\<exists>u u'. open_session ap u = (u', Inr ss))
    \<and> (\<forall>d\<in>set published. written_by ap ss0 res d) \<and> committed ap ss res op1 choices seen change published t s'"
proof -
  obtain ss0 u u' res k where o: "open_session ap u = (u', Inr ss0)"
    and l: "change_loop ap res op1 choices seen change k ss0 [] u' = (s', Inr ())"
    using assms by (auto simp: change_secret_with_def act_bind_Inr change_resource_def)
  from change_loop_committed [OF l session_of_refl] obtain ss published t where
    "session_of ap ss0 ss" "\<forall>d\<in>set published. written_by ap ss0 res d" "committed ap ss res op1 choices seen change published t s'"
    by auto
  with o show ?thesis unfolding session_of_def by blast
qed

subsection \<open>Adding a secret\<close>

lemma add_change_Inr: "add_change key v m = (m', Inr ()) \<longleftrightarrow> (\<exists>es. m = Some es \<and> \<not> gm_has es key \<and> m' = Some (gm_put key v es))"
  by (auto simp: add_change_def map_put_def map_has_def map_entries_def split: option.splits if_splits)

lemma add_change_error: "add_change key v m = (m', Inl e) \<Longrightarrow> e \<noteq> Plain CauseNoChange"
  by (auto simp: add_change_def key_error_def app_new_def map_put_def split: option.splits if_splits)

text \<open>What an add that succeeded has published, in one of its sessions, for the content \<open>cur\<close> it read.\<close>

definition add_done :: "string \<Rightarrow> string \<Rightarrow> digest list \<Rightarrow> resource_read app_result \<Rightarrow> env_map \<Rightarrow> digest list \<Rightarrow> bool" where
  "add_done key v published cur new parents \<longleftrightarrow>
     (case cur of
        Inl e \<Rightarrow> is_not_found_error e \<and> parents = [] \<and> new = Some [(key, v)]
      | Inr rd \<Rightarrow> rr_conflicts rd = [] \<and> parents = rr_parents rd \<and>
          (if published_in_read (Some rd) published then new = rr_secrets rd
           else \<exists>es. rr_secrets rd = Some es \<and> \<not> gm_has es key \<and> new = Some (gm_put key v es)))"

lemma add_committed:
  assumes "committed ap ss res ''add'' [] None (add_change key v) published t s'"
  shows "\<exists>cur t1 t2 t3 new parents st. read_resource ap ss res [] True published t = (t1, cur)
    \<and> add_done key v published cur new parents
    \<and> write_state ap ss res new parents t2 = (t3, Some st, Inr ()) \<and> accept_published ap ss res st t3 = (s', Inr ())"
proof -
  obtain cur t1 where r: "read_resource ap ss res [] True published t = (t1, cur)"
    and c: "start_change (ap_lib ap) ''add'' None cur = Stop (Inr ()) \<and> s' = t1
        \<or> (\<exists>rd old parents. start_change (ap_lib ap) ''add'' None cur = Go rd old parents \<and>
            (apply_change (add_change key v) rd published old parents = Stop (Inr ()) \<and> s' = t1
             \<or> (\<exists>new t2 t3 st. apply_change (add_change key v) rd published old parents = Go rd new parents
                \<and> still_current ap ss res rd published t1 = (t2, Inr True)
                \<and> write_state ap ss res new parents t2 = (t3, Some st, Inr ())
                \<and> accept_published ap ss res st t3 = (s', Inr ()))))"
    using assms unfolding committed_def by blast
  have nostop: "start_change (ap_lib ap) ''add'' None cur \<noteq> Stop (Inr ())"
    by (auto simp: start_change_def split: sum.splits option.splits if_splits)
  have noop: "apply_change (add_change key v) rd published old parents \<noteq> Stop (Inr ())" for rd old parents
    by (auto simp: apply_change_def dest: add_change_error split: prod.splits sum.splits if_splits)
  from c nostop noop obtain rd old parents new t2 t3 st where g: "start_change (ap_lib ap) ''add'' None cur = Go rd old parents"
    "apply_change (add_change key v) rd published old parents = Go rd new parents"
    "write_state ap ss res new parents t2 = (t3, Some st, Inr ())" "accept_published ap ss res st t3 = (s', Inr ())"
    by blast
  have "add_done key v published cur new parents"
    using g(1,2)
    by (auto simp: add_done_def start_change_def apply_change_def conflict_error_def published_in_read_def add_change_Inr
        gm_put_def dest: add_change_error split: sum.splits option.splits if_splits prod.splits)
  with r g(3,4) show ?thesis by blast
qed

text \<open>
  An add that succeeds has published.  When \<open>AddSecret\<close> returns without an error, a session of this call
  read the environment, found no conflict in it, and wrote a revision whose parents are all the heads it read
  and whose secrets are those it read with the key added, which none of them had; on an environment without
  revisions the new secret alone.  The only exception is a read that already contains a revision this call
  wrote in an earlier attempt: then the content read is written as it is, so a retry never adds twice.  The
  revision was then accepted into the checkpoint.
\<close>

theorem add_secret_publishes:
  assumes "add_secret ap env key v s = (s', Inr ())"
  shows "\<exists>ss ss0 res published cur t t1 t2 t3 new parents st.
    (\<exists>u u'. open_session ap u = (u', Inr ss)) \<and> (\<forall>d\<in>set published. written_by ap ss0 res d)
    \<and> read_resource ap ss res [] True published t = (t1, cur) \<and> add_done key v published cur new parents
    \<and> write_state ap ss res new parents t2 = (t3, Some st, Inr ()) \<and> accept_published ap ss res st t3 = (s', Inr ())"
proof -
  have "change_secret_with ap env ''add'' [] None (add_change key v) s = (s', Inr ())"
    using assms by (simp add: add_secret_def normalized_def change_secret_def)
  from change_secret_committed [OF this] obtain ss res ss0 published t where
    "\<exists>u u'. open_session ap u = (u', Inr ss)" "\<forall>d\<in>set published. written_by ap ss0 res d"
    and c: "committed ap ss res ''add'' [] None (add_change key v) published t s'"
    by blast
  with add_committed [OF c] show ?thesis by meson
qed

lemma sample_resolve: "resolve_env sample_app ''dev'' () = ((), Inr \<lparr>re_name = ''dev'', re_output = ''.env.dev''\<rparr>)"
  by (simp add: resolve_env_def sample_app_def act_defs resolve_environment_def sample_cfg_def sample_project_def
      valid_environment_name_def env_name_char_def in_range_def code_def cfg_environment_def gm_get_def Let_def)

lemma sample_resource: "ss_resource opened_session ''dev'' = ''secrets/dev''"
  by (simp add: ss_resource_def opened_session_def sample_cfg_def sample_project_def cfg_resource_def incarnation_of_def gm_get_def)

lemma sample_read_nothing:
  "read_resource sample_app opened_session ''secrets/dev'' [] True [] () = ((), Inl (storage_error_app (storage_cause SNotFound)))"
proof -
  have "load_states sample_lib (ss_store opened_session) (ss_view opened_session) (ss_workspace opened_session) ''secrets/dev'' [] ()
      = ((), Inr (empty_state_view\<lparr>sv_heads := []\<rparr>))"
    by (simp add: load_states_def opened_session_def member_store_def genesis_store_def sample_store_def load_states_loop.simps
        head_states_def empty_state_view_def graph_heads_def new_graph_def sort_digests_def)
  moreover have "graph_len (sv_graph (empty_state_view\<lparr>sv_heads := []\<rparr>)) = 0"
    by (simp add: empty_state_view_def graph_len_def new_graph_def)
  ultimately have "load_resource sample_lib opened_session ''secrets/dev'' [] () = ((), Inl (storage_error_app (storage_cause SNotFound)))"
    unfolding load_resource_def load_resource_loop.simps [of _ _ _ accepted_retries]
    by (simp add: act_defs co_state_def opened_session_def sample_cps_def)
  then show ?thesis
    by (simp add: read_resource_def read_resource_loop.simps act_defs sample_app_def)
qed

text \<open>The sample application writes the same text for every map, so what was written before is what an add writes.\<close>

lemma sample_written_any:
  "write_state sample_app opened_session ''secrets/dev'' m [] () = ((), Some sample_revision, Inr ())"
proof -
  have "write_state sample_app opened_session ''secrets/dev'' m [] () = write_state sample_app opened_session ''secrets/dev'' (Some []) [] ()"
    by (simp add: write_state_def sample_app_def)
  then show ?thesis by (simp add: sample_written)
qed

lemma sample_accept: "accept_published sample_app opened_session ''secrets/dev'' sample_revision () = ((), Inr ())"
proof -
  have d: "vs_digest sample_revision = state_digest"
    by (simp add: sample_revision_def)
  have v: "verify_revision sample_lib genesis_view ''w'' ''secrets/dev'' state_digest state_blob = Inr sample_revision"
    using sample_state_signed unfolding verify_revision_iff
    by (auto simp: signed_revision_def state_digest_def sample_revision_def genesis_view_def cv_get_def gm_get_def sample_state_sel
        sample_view_def)
  have len: "length state_blob = 65" by (simp add: state_blob_def)
  have ps: "st_parents (vs_state sample_revision) = []"
    by (simp add: sample_revision_def sample_state_def)
  have fetch: "so_fetch_head member_store KindState sc state_digest () = ((), Inr state_blob)"
    "so_discover member_store KindState sc () = ((), Inr [])" for sc
    by (simp_all add: member_store_def genesis_store_def sample_store_def)
  have "load_states_loop sample_lib member_store genesis_view ''w'' ''secrets/dev'' [state_digest] [] empty_state_view 0 ()
      = ((), Inr (empty_state_view\<lparr>sv_states := [(state_digest, sample_revision)],
            sv_graph := graph_add new_graph state_digest []\<rparr>))"
    by (subst load_states_loop.simps, subst load_states_loop.simps)
      (simp add: head_fetches_def max_revisions_def fetch len max_state_bytes_def v ps gm_put_def gm_get_def empty_state_view_def)
  moreover have "graph_heads (graph_add new_graph state_digest []) = [state_digest]"
    by (simp add: graph_heads_def graph_add_def new_graph_def gm_put_def sort_digests_def gm_has_def gm_get_def)
  ultimately have l: "load_states sample_lib member_store genesis_view ''w'' ''secrets/dev'' [state_digest] () = ((), Inr sample_sv)"
    by (simp add: load_states_def fetch max_revisions_def sample_sv_def empty_state_view_def head_states_def gm_get_def)
  have sel: "ss_store opened_session = member_store" "ss_view opened_session = genesis_view" "ss_workspace opened_session = ''w''"
    "ss_cps opened_session = sample_cps" "ap_lib sample_app = sample_lib"
    by (simp_all add: opened_session_def sample_app_def)
  have "graph_len (sv_graph sample_sv) = 1"
    by (simp add: sample_sv_def graph_len_def graph_add_def new_graph_def gm_put_def)
  moreover have "load_records sample_lib opened_session ''secrets/dev'' sample_sv () = ((), Inr sample_sv)"
    by (simp add: load_records_def needs_records_def opened_session_def sample_cps_def sample_sv_def missing_def
        graph_add_def new_graph_def gm_put_def sort_digests_def act_defs)
  ultimately have "load_resource sample_lib opened_session ''secrets/dev'' [state_digest] () = ((), Inr sample_sv)"
    using l unfolding load_resource_def load_resource_loop.simps [of _ _ _ accepted_retries]
    by (simp add: act_defs sel) (simp add: sample_cps_def)
  then show ?thesis
    unfolding accept_published_def accept_published_loop.simps [of _ _ _ _ accepted_retries]
    by (simp add: act_defs sel d accept_view_def) (simp add: sample_cps_def)
qed

lemma sample_add: "add_secret sample_app ''dev'' ''K'' ''v'' () = ((), Inr ())"
proof -
  have start: "start_change sample_lib ''add'' None (Inl (storage_error_app (storage_cause SNotFound))) = Go None (Some []) []"
    by (simp add: start_change_def is_not_found_error_def storage_error_app_def storage_cause_def app_is_def
        errors_is_def app_wrap_def)
  have ap: "apply_change (add_change ''K'' ''v'') None [] (Some []) [] = Go None (Some [(''K'', ''v'')]) []"
    by (simp add: apply_change_def published_in_read_def add_change_def map_has_def map_entries_def map_put_def gm_put_def)
  have lib: "ap_lib sample_app = sample_lib"
    by (simp add: sample_app_def)
  have "change_loop sample_app ''secrets/dev'' ''add'' [] None (add_change ''K'' ''v'') (Suc k) opened_session [] () = ((), Inr ())" for k
    unfolding change_loop.simps
    by (simp add: act_bind_def act_try_def sample_read_nothing lib start ap still_current_def act_ok_def sample_written_any
        sample_accept Let_def)
  from this [of 2] show ?thesis
    by (simp add: add_secret_def normalized_def act_map_err_def change_secret_def change_secret_with_def act_bind_def
        sample_resolve sample_open sample_resource change_resource_def max_retries_def numeral_3_eq_3)
qed

theorem add_secret_publishes_witness:
  "\<exists>ss res cur published new parents st. open_session sample_app () = ((), Inr ss)
     \<and> add_done ''K'' ''v'' published cur new parents \<and> write_state sample_app ss res new parents () = ((), Some st, Inr ())"
  using add_secret_publishes [OF sample_add] by fastforce

subsection \<open>Importing\<close>

definition import_conflicts :: "bool \<Rightarrow> secrets \<Rightarrow> secrets \<Rightarrow> string list" where
  "import_conflicts overwrite m given =
     map fst (filter (\<lambda>(k, v). \<not> overwrite \<and> gm_get m k \<noteq> None \<and> gm_get m k \<noteq> Some v) given)"

lemma import_keys_spec:
  "import_keys overwrite (Some m) given r conflicts =
     (r\<lparr>ir_added := ir_added r @ map fst (filter (\<lambda>(k, v). gm_get m k = None) given),
        ir_updated := ir_updated r @ map fst (filter (\<lambda>(k, v). overwrite \<and> gm_get m k \<noteq> None \<and> gm_get m k \<noteq> Some v) given),
        ir_unchanged := ir_unchanged r @ map fst (filter (\<lambda>(k, v). gm_get m k = Some v) given)\<rparr>,
      conflicts @ import_conflicts overwrite m given)"
proof (induction given arbitrary: r conflicts)
  case Nil
  then show ?case by (simp add: import_conflicts_def)
next
  case (Cons kv given)
  obtain k v where "kv = (k, v)" by fastforce
  then show ?case
    using Cons.IH by (auto simp: import_conflicts_def map_entries_def split: option.split)
qed

lemma put_all_some:
  "\<exists>es. put_all given (Some m) = (Some es, Inr ())
     \<and> (\<forall>k. gm_get es k = (case map_of (rev given) k of None \<Rightarrow> gm_get m k | Some v \<Rightarrow> Some v))"
proof (induction given arbitrary: m)
  case (Cons kv given)
  obtain k v where kv: "kv = (k, v)" by fastforce
  obtain es where es: "put_all given (Some (gm_put k v m)) = (Some es, Inr ())"
    "\<And>j. gm_get es j = (case map_of (rev given) j of None \<Rightarrow> gm_get (gm_put k v m) j | Some v \<Rightarrow> Some v)"
    using Cons.IH [of "gm_put k v m"] by blast
  then show ?case
    unfolding kv by (intro exI [of _ es]) (auto simp: map_put_def map_add_def split: option.split)
qed simp

text \<open>
  What an import does.  Given secrets (a Go map, so no key twice) and a bundle that is not nil: without
  \<open>overwrite\<close>, if some given key is stored with another value the import is refused with an error and the bundle
  is left as it was; otherwise the result holds every given secret and, for every other key, what was stored;
  and it counts as no change exactly when every given secret was already stored with its value.
\<close>

theorem import_change_exact:
  assumes "gm_ok given"
  shows "\<exists>m' r. import_change given overwrite (Some m) = (m', r) \<and>
    (if \<not> overwrite \<and> (\<exists>k v old. gm_get given k = Some v \<and> gm_get m k = Some old \<and> old \<noteq> v)
     then m' = Some m \<and> (\<exists>e. r = Inl e \<and> code_of e \<in> {CodeImportConflict, CodeSecretExists})
     else (\<exists>es. m' = Some es \<and> (\<forall>k. gm_get es k = (case gm_get given k of None \<Rightarrow> gm_get m k | Some v \<Rightarrow> Some v)))
       \<and> r = (if \<forall>k v. gm_get given k = Some v \<longrightarrow> gm_get m k = Some v then Inl (Plain CauseNoChange) else Inr ()))"
proof -
  have get: "gm_get given k = Some v \<longleftrightarrow> (k, v) \<in> set given" for k v
    using assms by (rule gm_get_in)
  have rev: "map_of (rev given) = gm_get given"
  proof
    fix k
    have "gm_get (rev given) k = Some v \<longleftrightarrow> gm_get given k = Some v" for v
      using assms gm_get_in [of "rev given"] by (simp add: get rev_map [symmetric])
    then have "gm_get (rev given) k = gm_get given k"
      by (metis not_None_eq)
    then show "map_of (rev given) k = gm_get given k"
      by (simp add: gm_get_is_map_of)
  qed
  obtain es where es: "put_all given (Some m) = (Some es, Inr ())"
    "\<And>k. gm_get es k = (case gm_get given k of None \<Rightarrow> gm_get m k | Some v \<Rightarrow> Some v)"
    using put_all_some [of given m] unfolding rev by blast
  have conf: "import_conflicts overwrite m given = []
      \<longleftrightarrow> \<not> (\<not> overwrite \<and> (\<exists>k v old. gm_get given k = Some v \<and> gm_get m k = Some old \<and> old \<noteq> v))"
    by (auto simp: import_conflicts_def filter_empty_conv get)
  show ?thesis
  proof (cases "import_conflicts overwrite m given = []")
    case False
    then have "sort (import_conflicts overwrite m given) \<noteq> []"
      by (metis length_0_conv length_sort)
    then show ?thesis
      using conf False
      by (auto simp: import_change_def import_outcome_def import_keys_spec Let_def key_error_def app_new_def code_of_def)
  next
    case True
    have "filter (\<lambda>(k, v). gm_get m k = None) given = [] \<and>
        filter (\<lambda>(k, v). overwrite \<and> gm_get m k \<noteq> None \<and> gm_get m k \<noteq> Some v) given = []
      \<longleftrightarrow> (\<forall>k v. gm_get given k = Some v \<longrightarrow> gm_get m k = Some v)"
      using True by (fastforce simp: import_conflicts_def filter_empty_conv get)
    then show ?thesis
      using conf True es by (auto simp: import_change_def import_outcome_def import_keys_spec Let_def)
  qed
qed

theorem import_change_exact_witness:
  "\<exists>m' r. import_change [(''A'', ''1'')] False (Some [(''A'', ''2''), (''B'', ''3'')]) = (m', r)
     \<and> m' = Some [(''A'', ''2''), (''B'', ''3'')] \<and> (\<exists>e. r = Inl e \<and> code_of e \<in> {CodeImportConflict, CodeSecretExists})"
proof -
  have "gm_ok [(''A'', ''1'')]" by simp
  moreover have "\<exists>k v old. gm_get [(''A'', ''1'')] k = Some v \<and> gm_get [(''A'', ''2''), (''B'', ''3'')] k = Some old \<and> old \<noteq> v"
    by (intro exI [of _ "''A''"] exI [of _ "''1''"] exI [of _ "''2''"]) (simp add: gm_get_def)
  ultimately show ?thesis
    using import_change_exact [of "[(''A'', ''1'')]" False "[(''A'', ''2''), (''B'', ''3'')]"] by simp
qed

end
