(* ===== verification/History.thy ===== *)
theory History
  imports Secrets
begin

text \<open>
  The history of an environment and deleting old revisions: \<open>app/history.go\<close>, \<open>app/history_index.go\<close> and
  \<open>app/compact.go\<close>, with the purge of \<open>app/environments.go\<close>.  Go ranges over its maps in any order; where the
  result depends on an order the code sorts, and so do the definitions.
\<close>

record history_flags =
  hf_readable :: bool
  hf_repeats :: bool
  hf_repeat_parent :: digest

definition no_flags :: history_flags where
  "no_flags = \<lparr>hf_readable = False, hf_repeats = False, hf_repeat_parent = []\<rparr>"

record history_entry =
  he_index :: nat
  he_timestamp :: int
  he_tag :: string

record secret_diff =
  df_added :: "string list"
  df_removed :: "string list"
  df_modified :: "string list"

subsection \<open>The revisions that lead to the current content\<close>

fun put_states :: "state_view \<Rightarrow> digest list \<Rightarrow> (digest, verified_state) gomap \<Rightarrow> (digest, verified_state) gomap" where
  "put_states sv [] out = out"
| "put_states sv (d # ds) out =
     put_states sv ds (case gm_get (sv_states sv) d of None \<Rightarrow> out | Some st \<Rightarrow> gm_put d st out)"

definition history_states :: "state_view \<Rightarrow> verified_state list \<Rightarrow> (digest, verified_state) gomap" where
  "history_states sv heads = foldl (\<lambda>out h. put_states sv (ancestors (sv_graph sv) (vs_digest h)) out) [] heads"

subsection \<open>Chronological order\<close>

definition known_parents :: "(digest, verified_state) gomap \<Rightarrow> verified_state \<Rightarrow> digest list" where
  "known_parents revs st = filter (gm_has revs) (st_parents (vs_state st))"

definition waiting_of :: "(digest, verified_state) gomap \<Rightarrow> digest \<Rightarrow> nat" where
  "waiting_of revs d = (case gm_get revs d of None \<Rightarrow> 0 | Some st \<Rightarrow> length (known_parents revs st))"

text \<open>The children of a revision, once for each time a child names it.\<close>

definition children_of :: "(digest, verified_state) gomap \<Rightarrow> digest \<Rightarrow> digest list" where
  "children_of revs p =
     concat (map (\<lambda>(d, st). map (\<lambda>_. d) (filter (\<lambda>q. q = p) (known_parents revs st))) revs)"

definition created_at :: "(digest, verified_state) gomap \<Rightarrow> digest \<Rightarrow> int" where
  "created_at revs d = (case gm_get revs d of None \<Rightarrow> 0 | Some st \<Rightarrow> st_created_at (vs_state st))"

text \<open>The loop over the children: what they wait for, and the ready list.\<close>

fun release :: "digest list \<Rightarrow> (digest \<Rightarrow> nat) \<Rightarrow> digest list \<Rightarrow> (digest \<Rightarrow> nat) \<times> digest list" where
  "release [] waiting ready = (waiting, ready)"
| "release (c # cs) waiting ready =
     (let n = waiting c - 1; waiting = waiting(c := n)
      in release cs waiting (if n = 0 then ready @ [c] else ready))"

text \<open>
  The main loop.  A revision becomes ready at most once, so as many rounds as there are revisions are
  enough; \<open>chronological_complete\<close> shows that none is left out.
\<close>

fun chrono_loop ::
  "(digest, verified_state) gomap \<Rightarrow> nat \<Rightarrow> (digest \<Rightarrow> nat) \<Rightarrow> digest list \<Rightarrow> digest list \<Rightarrow> digest list" where
  "chrono_loop revs 0 waiting ready order = order"
| "chrono_loop revs (Suc fuel) waiting ready order =
     (case sort_key (\<lambda>d. (created_at revs d, d)) ready of
        [] \<Rightarrow> order
      | d # rest \<Rightarrow>
          (case release (children_of revs d) waiting rest of
             (waiting', ready') \<Rightarrow> chrono_loop revs fuel waiting' ready' (order @ [d])))"

definition chronological :: "(digest, verified_state) gomap \<Rightarrow> digest list" where
  "chronological revs =
     chrono_loop revs (length revs) (waiting_of revs) (filter (\<lambda>d. waiting_of revs d = 0) (map fst revs)) []"

subsection \<open>Listing\<close>

text \<open>
  A history in the making: what was decrypted in this call, the flags that are known, and the revisions found
  unreadable before their flags were complete.
\<close>

record history_work =
  hw_plain :: "(digest, env_map) gomap"
  hw_known :: "(digest, history_flags) gomap"
  hw_unreadable :: "digest list"

definition history_secrets ::
  "'s app \<Rightarrow> 's session \<Rightarrow> (digest, verified_state) gomap \<Rightarrow> digest \<Rightarrow> history_work
    \<Rightarrow> ('s, env_map \<times> history_work) act" where
  "history_secrets ap ss states d w =
     (case gm_get (hw_plain w) d of
        Some m \<Rightarrow> act_ok (m, w)
      | None \<Rightarrow>
          act_bind (ss_decrypt_state ap ss (the (gm_get states d))) (\<lambda>m.
            act_ok (m, w\<lparr>hw_plain := gm_put d m (hw_plain w)\<rparr>)))"

definition history_readable ::
  "'s app \<Rightarrow> 's session \<Rightarrow> (digest, verified_state) gomap \<Rightarrow> digest \<Rightarrow> history_work \<Rightarrow> ('s, bool \<times> history_work) act" where
  "history_readable ap ss states d w =
     (case gm_get (hw_known w) d of
        Some f \<Rightarrow> act_ok (hf_readable f, w)
      | None \<Rightarrow>
          if d \<in> set (hw_unreadable w) then act_ok (False, w)
          else act_bind (act_try (history_secrets ap ss states d w)) (\<lambda>r.
            case r of
              Inr (_, w') \<Rightarrow> act_ok (True, w')
            | Inl e \<Rightarrow>
                if errors_is CauseNoMatch e then act_ok (False, w\<lparr>hw_unreadable := d # hw_unreadable w\<rparr>)
                else act_fail e))"

text \<open>\<open>maps.Equal\<close> on the decrypted maps; the loop ends at the first parent with the same content.\<close>

fun repeats_loop ::
  "'s app \<Rightarrow> 's session \<Rightarrow> (digest, verified_state) gomap \<Rightarrow> env_map \<Rightarrow> digest list \<Rightarrow> history_work
    \<Rightarrow> ('s, history_flags \<times> history_work) act" where
  "repeats_loop ap ss states mine [] w = act_ok (no_flags\<lparr>hf_readable := True\<rparr>, w)"
| "repeats_loop ap ss states mine (p # ps) w =
     (if \<not> gm_has states p then repeats_loop ap ss states mine ps w
      else act_bind (history_readable ap ss states p w) (\<lambda>(readable, w).
        if \<not> readable then repeats_loop ap ss states mine ps w
        else act_bind (history_secrets ap ss states p w) (\<lambda>(parent, w).
          if gm_equal (map_entries parent) (map_entries mine)
          then act_ok (\<lparr>hf_readable = True, hf_repeats = True, hf_repeat_parent = p\<rparr>, w)
          else repeats_loop ap ss states mine ps w)))"

definition history_flags_of ::
  "'s app \<Rightarrow> 's session \<Rightarrow> (digest, verified_state) gomap \<Rightarrow> digest \<Rightarrow> history_work
    \<Rightarrow> ('s, history_flags \<times> history_work) act" where
  "history_flags_of ap ss states d w =
     act_bind (history_secrets ap ss states d w) (\<lambda>(mine, w).
       repeats_loop ap ss states mine (st_parents (vs_state (the (gm_get states d)))) w)"

text \<open>A cached repeat counts only while the parent it repeated is in the history.\<close>

definition cached_flags :: "(digest, verified_state) gomap \<Rightarrow> history_work \<Rightarrow> digest \<Rightarrow> history_flags option" where
  "cached_flags states w d =
     (case gm_get (hw_known w) d of
        None \<Rightarrow> None
      | Some f \<Rightarrow> if hf_repeats f \<and> \<not> gm_has states (hf_repeat_parent f) then None else Some f)"

definition work_out_flags ::
  "'s app \<Rightarrow> 's session \<Rightarrow> (digest, verified_state) gomap \<Rightarrow> digest \<Rightarrow> history_work
    \<Rightarrow> ('s, history_flags \<times> history_work) act" where
  "work_out_flags ap ss states d w =
     (case cached_flags states w d of
        Some f \<Rightarrow> act_ok (f, w)
      | None \<Rightarrow>
          act_bind (history_readable ap ss states d w) (\<lambda>(r, w).
          act_bind (if r then history_flags_of ap ss states d w else act_ok (no_flags, w)) (\<lambda>(f, w).
            act_ok (f, w\<lparr>hw_known := gm_put d f (hw_known w)\<rparr>))))"

text \<open>The loop over the sorted digests: the readable revisions and the listed ones.\<close>

fun history_loop ::
  "'s app \<Rightarrow> 's session \<Rightarrow> (digest, verified_state) gomap \<Rightarrow> digest list \<Rightarrow> history_work
    \<Rightarrow> (digest, verified_state) gomap \<Rightarrow> digest list
    \<Rightarrow> ('s, (digest, verified_state) gomap \<times> digest list \<times> history_work) act" where
  "history_loop ap ss states [] w revs listed = act_ok (revs, listed, w)"
| "history_loop ap ss states (d # ds) w revs listed =
     act_bind (work_out_flags ap ss states d w) (\<lambda>(f, w).
       if \<not> hf_readable f then history_loop ap ss states ds w revs listed
       else history_loop ap ss states ds w (gm_put d (the (gm_get states d)) revs)
              (if hf_repeats f then listed else listed @ [d]))"

definition history_entries ::
  "wsp_lib \<Rightarrow> (digest, verified_state) gomap \<Rightarrow> (digest, verified_state) gomap \<Rightarrow> digest list \<Rightarrow> history_entry list" where
  "history_entries lib states revs listed =
     (let shown = filter (\<lambda>d. d \<in> set listed) (chronological revs)
      in map (\<lambda>(i, d). \<lparr>he_index = i, he_timestamp = created_at states d, he_tag = dl_encoded (wl_digest lib) d\<rparr>)
           (zip [1..<length shown + 1] shown))"

text \<open>The index file: reading it gives the flags it holds, saving it is best effort.\<close>

record 's history_index =
  hx_load :: "'s \<Rightarrow> 's \<times> (digest, history_flags) gomap"
  hx_save :: "(digest, history_flags) gomap \<Rightarrow> 's \<Rightarrow> 's"

text \<open>\<open>historyIndex.load\<close> and \<open>save\<close> on the contents of the file; the version and the digests are checked.\<close>

definition index_load ::
  "digest_lib \<Rightarrow> (bytes \<Rightarrow> (int \<times> (digest, history_flags) gomap) option) \<Rightarrow> bytes option \<Rightarrow> (digest, history_flags) gomap" where
  "index_load dl decode file =
     (case file of
        None \<Rightarrow> []
      | Some b \<Rightarrow>
          (case decode b of
             None \<Rightarrow> []
           | Some (v, flags) \<Rightarrow> if v \<noteq> 2 then [] else filter (\<lambda>(d, f). valid_digest dl d) flags))"

definition index_kept ::
  "(digest, history_flags) gomap \<Rightarrow> (digest, verified_state) gomap \<Rightarrow> (digest, history_flags) gomap" where
  "index_kept flags states =
     concat (map (\<lambda>(d, st). case gm_get flags d of None \<Rightarrow> [] | Some f \<Rightarrow> [(d, f)]) states)"

definition load_history ::
  "'s app \<Rightarrow> 's history_index \<Rightarrow> 's session \<Rightarrow> string
    \<Rightarrow> ('s, history_entry list \<times> (digest, verified_state) gomap \<times> (digest, env_map) gomap) act" where
  "load_history ap hx ss res =
     act_bind (act_try (load_resource (ap_lib ap) ss res [])) (\<lambda>loaded.
       case loaded of
         Inl e \<Rightarrow> if is_not_found_error e then act_ok ([], [], []) else act_fail e
       | Inr sv \<Rightarrow>
           act_bind (lift_wsp (co_accepted (ss_cps ss) res)) (\<lambda>accepted.
             let states = history_states sv (trusted_heads (ap_lib ap) ss sv accepted)
             in act_bind (\<lambda>s. case hx_load hx s of (s', known) \<Rightarrow> (s', Inr known)) (\<lambda>known.
                act_bind (history_loop ap ss states (sort (map fst states))
                    \<lparr>hw_plain = [], hw_known = known, hw_unreadable = []\<rparr> [] []) (\<lambda>(revs, listed, w).
                act_bind (\<lambda>s. (hx_save hx (index_kept (hw_known w) states) s, Inr ())) (\<lambda>_.
                  act_ok (history_entries (ap_lib ap) states revs listed, states, hw_plain w))))))"

definition open_history ::
  "'s app \<Rightarrow> ('s session \<Rightarrow> string \<Rightarrow> 's history_index) \<Rightarrow> string
    \<Rightarrow> ('s, 's session \<times> history_entry list \<times> (digest, verified_state) gomap \<times> (digest, env_map) gomap) act" where
  "open_history ap index env =
     act_bind (resolve_env ap env) (\<lambda>resolved.
     act_bind (open_session ap) (\<lambda>ss.
       let res = ss_resource ss (re_name resolved)
       in act_bind (load_history ap (index ss res) ss res) (\<lambda>(entries, states, plain).
            act_ok (ss, entries, states, plain))))"

definition list_history ::
  "'s app \<Rightarrow> ('s session \<Rightarrow> string \<Rightarrow> 's history_index) \<Rightarrow> string \<Rightarrow> ('s, history_entry list) act" where
  "list_history ap index env = normalized (act_bind (open_history ap index env) (\<lambda>(ss, entries, _). act_ok entries))"

definition history_index_error :: "int \<Rightarrow> go_error" where
  "history_index_error i = app_new CodeInvalidArgument [(''index'', (if i < 0 then ''-'' else []) @ show_nat (nat \<bar>i\<bar>))]"

text \<open>\<open>at\<close>: the secrets of a listed entry, counting from 1.\<close>

definition history_at ::
  "'s app \<Rightarrow> 's session \<Rightarrow> history_entry list \<Rightarrow> (digest, verified_state) gomap \<Rightarrow> (digest, env_map) gomap \<Rightarrow> int
    \<Rightarrow> ('s, env_map \<times> (digest, env_map) gomap) act" where
  "history_at ap ss entries states plain i =
     (if i < 1 \<or> int (length entries) < i then act_fail (history_index_error i)
      else
        let d = dl_new (wl_digest (ap_lib ap)) sha256_name (he_tag (entries ! nat (i - 1)))
        in act_bind (history_secrets ap ss states d \<lparr>hw_plain = plain, hw_known = [], hw_unreadable = []\<rparr>) (\<lambda>(m, w).
             act_ok (m, hw_plain w)))"

definition diff_secrets :: "secrets \<Rightarrow> secrets \<Rightarrow> secret_diff" where
  "diff_secrets from1 to1 =
     \<lparr>df_added = sort (filter (\<lambda>k. \<not> gm_has from1 k) (map fst to1)),
      df_removed = sort (filter (\<lambda>k. \<not> gm_has to1 k) (map fst from1)),
      df_modified = sort (filter (\<lambda>k. gm_has from1 k \<and> gm_get from1 k \<noteq> gm_get to1 k) (map fst to1))\<rparr>"

definition diff_history ::
  "'s app \<Rightarrow> ('s session \<Rightarrow> string \<Rightarrow> 's history_index) \<Rightarrow> string \<Rightarrow> int \<Rightarrow> int \<Rightarrow> ('s, secret_diff) act" where
  "diff_history ap index env i j =
     normalized (act_bind (open_history ap index env) (\<lambda>(ss, entries, states, plain).
       if i < 1 \<or> int (length entries) < i then act_fail (history_index_error i)
       else if j < 1 \<or> int (length entries) < j then act_fail (history_index_error j)
       else
         act_bind (history_at ap ss entries states plain i) (\<lambda>(a, plain).
         act_bind (history_at ap ss entries states plain j) (\<lambda>(b, _).
           act_ok (diff_secrets (map_entries a) (map_entries b))))))"

definition restore_history ::
  "'s app \<Rightarrow> ('s session \<Rightarrow> string \<Rightarrow> 's history_index) \<Rightarrow> string \<Rightarrow> int \<Rightarrow> ('s, unit) act" where
  "restore_history ap index env i =
     normalized (act_bind (open_history ap index env) (\<lambda>(ss, entries, states, plain).
       act_bind (history_at ap ss entries states plain i) (\<lambda>(snapshot, _).
         change_secret ap env ''restore'' (restore_change snapshot))))"

end
