(* ===== verification/History_Props.thy ===== *)
theory History_Props
  imports History
begin

text \<open>
  The order of the history.  The loop of \<open>chronological\<close> keeps, next to the revisions it has listed, what each of
  the others still waits for; the invariant says that this is the number of parents that are not listed yet.
\<close>

subsection \<open>Counting parents\<close>

definition hist_rel :: "(digest, verified_state) gomap \<Rightarrow> (digest \<times> digest) set" where
  "hist_rel revs = {(d, p). \<exists>st. gm_get revs d = Some st \<and> p \<in> set (known_parents revs st)}"

definition parents_of :: "(digest, verified_state) gomap \<Rightarrow> digest \<Rightarrow> digest list" where
  "parents_of revs d = (case gm_get revs d of None \<Rightarrow> [] | Some st \<Rightarrow> known_parents revs st)"

definition still_waiting :: "(digest, verified_state) gomap \<Rightarrow> digest list \<Rightarrow> digest \<Rightarrow> nat" where
  "still_waiting revs order d = length (filter (\<lambda>q. q \<notin> set order) (parents_of revs d))"

lemma parents_of_rel: "p \<in> set (parents_of revs d) \<longleftrightarrow> (d, p) \<in> hist_rel revs"
  by (cases "gm_get revs d") (auto simp: parents_of_def hist_rel_def)

lemma hist_rel_keys: "(d, p) \<in> hist_rel revs \<Longrightarrow> d \<in> fst ` set revs \<and> p \<in> fst ` set revs"
  by (auto simp: hist_rel_def known_parents_def simp flip: gm_has_iff) (auto simp: gm_has_get)

lemma waiting_start: "waiting_of revs d = still_waiting revs [] d"
  by (simp add: waiting_of_def still_waiting_def parents_of_def split: option.split)

lemma count_filter: "length (filter (\<lambda>q. q = p) xs) = count_list xs p"
  by (induction xs) auto

lemma count_replicate: "count_list (map (\<lambda>_. d) xs) c = (if d = c then length xs else 0)"
  by (induction xs) auto

lemma count_entries:
  "distinct (map fst xs) \<Longrightarrow>
     count_list (concat (map (\<lambda>(d, st). map (\<lambda>_. d) (filter (\<lambda>q. q = p) (K st))) xs)) c
     = (case map_of xs c of None \<Rightarrow> 0 | Some st \<Rightarrow> count_list (K st) p)"
proof (induction xs)
  case (Cons x xs)
  obtain d st where x: "x = (d, st)" by fastforce
  have "map_of xs d = None" if "d = c"
    using Cons.prems x that by (simp add: map_of_eq_None_iff)
  then show ?case
    using Cons x by (auto simp: count_replicate count_filter)
qed simp

lemma count_children: "gm_ok revs \<Longrightarrow> count_list (children_of revs p) c = count_list (parents_of revs c) p"
  by (auto simp: children_of_def count_entries parents_of_def gm_get_is_map_of split: option.split)

lemma still_waiting_step:
  assumes "d \<notin> set order"
  shows "still_waiting revs (order @ [d]) c = still_waiting revs order c - count_list (parents_of revs c) d"
    and "count_list (parents_of revs c) d \<le> still_waiting revs order c"
proof -
  have "length (filter (\<lambda>q. q \<notin> set order) xs) = length (filter (\<lambda>q. q \<notin> set (order @ [d])) xs) + count_list xs d" for xs
    using assms by (induction xs) auto
  from this [of "parents_of revs c"] show "still_waiting revs (order @ [d]) c = still_waiting revs order c - count_list (parents_of revs c) d"
    and "count_list (parents_of revs c) d \<le> still_waiting revs order c"
    by (simp_all add: still_waiting_def)
qed

subsection \<open>The loop\<close>

lemma release_spec:
  assumes "\<And>c. count_list cs c \<le> w c" and "distinct ready" and "\<And>c. c \<in> set cs \<Longrightarrow> c \<notin> set ready"
  shows "fst (release cs w ready) = (\<lambda>c. w c - count_list cs c)
    \<and> set (snd (release cs w ready)) = set ready \<union> {c \<in> set cs. count_list cs c = w c}
    \<and> distinct (snd (release cs w ready))"
  using assms
proof (induction cs arbitrary: w ready)
  case (Cons c cs)
  let ?w = "w(c := w c - 1)" and ?r = "if w c - 1 = 0 then ready @ [c] else ready"
  have pos: "0 < w c" "count_list cs c \<le> w c - 1"
    using Cons.prems(1) [of c] by auto
  have "count_list cs x \<le> ?w x" for x
    using Cons.prems(1) [of x] by (auto split: if_splits)
  moreover have "distinct ?r"
    using Cons.prems(2,3) by auto
  moreover have "x \<notin> set ?r" if "x \<in> set cs" for x
  proof (cases "x = c")
    case True
    then have "0 < count_list cs c"
      using that by (metis count_list_0_iff neq0_conv)
    with pos True Cons.prems(3) show ?thesis by auto
  next
    case False
    then show ?thesis using Cons.prems(3) that by auto
  qed
  ultimately have IH: "fst (release cs ?w ?r) = (\<lambda>x. ?w x - count_list cs x)"
      "set (snd (release cs ?w ?r)) = set ?r \<union> {x \<in> set cs. count_list cs x = ?w x}" "distinct (snd (release cs ?w ?r))"
    using Cons.IH [of ?w ?r] by blast+
  have eq: "release (c # cs) w ready = release cs ?w ?r"
    by (simp add: Let_def)
  have "x \<in> set ?r \<or> x \<in> set cs \<and> count_list cs x = ?w x \<longleftrightarrow> x \<in> set ready \<or> x \<in> set (c # cs) \<and> count_list (c # cs) x = w x" for x
  proof (cases "x = c")
    case True
    have nr: "c \<notin> set ready" using Cons.prems(3) by simp
    show ?thesis
    proof (cases "w c - 1 = 0")
      case one: True
      then show ?thesis using pos nr True by simp
    next
      case False
      have "c \<in> set cs" if "count_list cs c = w c - 1"
        using that False count_list_0_iff by metis
      then show ?thesis using pos nr True False by auto
    qed
  next
    case False
    then show ?thesis by simp
  qed
  then have "set ?r \<union> {x \<in> set cs. count_list cs x = ?w x} = set ready \<union> {x \<in> set (c # cs). count_list (c # cs) x = w x}"
    by blast
  with IH eq pos show ?case
    by (auto simp: fun_eq_iff)
qed simp

text \<open>What the loop keeps: what is listed has its parents listed before, and what is ready is what waits for nothing.\<close>

definition parents_before :: "(digest, verified_state) gomap \<Rightarrow> digest list \<Rightarrow> bool" where
  "parents_before revs order \<longleftrightarrow> (\<forall>i<length order. \<forall>p. (order ! i, p) \<in> hist_rel revs \<longrightarrow> p \<in> set (take i order))"

definition chrono_inv :: "(digest, verified_state) gomap \<Rightarrow> (digest \<Rightarrow> nat) \<Rightarrow> digest list \<Rightarrow> digest list \<Rightarrow> bool" where
  "chrono_inv revs w ready order \<longleftrightarrow> distinct order \<and> set order \<subseteq> fst ` set revs \<and> w = still_waiting revs order
     \<and> distinct ready \<and> set ready = {d \<in> fst ` set revs. d \<notin> set order \<and> still_waiting revs order d = 0}
     \<and> parents_before revs order"

lemma parents_before_closed:
  "parents_before revs order \<Longrightarrow> d \<in> set order \<Longrightarrow> (d, p) \<in> hist_rel revs \<Longrightarrow> p \<in> set order"
  unfolding parents_before_def in_set_conv_nth [of d] by (meson in_set_takeD)

lemma still_waiting_0: "still_waiting revs order d = 0 \<longleftrightarrow> (\<forall>p. (d, p) \<in> hist_rel revs \<longrightarrow> p \<in> set order)"
  by (auto simp: still_waiting_def filter_empty_conv simp flip: parents_of_rel)

lemma chrono_step:
  assumes "gm_ok revs" and inv: "chrono_inv revs w ready order"
    and ready: "sort_key (\<lambda>d. (created_at revs d, d)) ready = d # rest"
  shows "chrono_inv revs (fst (release (children_of revs d) w rest)) (snd (release (children_of revs d) w rest)) (order @ [d])"
    and "d \<in> set ready" and "\<forall>x\<in>set ready. created_at revs d \<le> created_at revs x"
proof -
  let ?cs = "children_of revs d" and ?w = "still_waiting revs order"
  have w: "w = ?w" and before: "parents_before revs order"
    and rdy: "set ready = {d \<in> fst ` set revs. d \<notin> set order \<and> ?w d = 0}" and order: "distinct order" "set order \<subseteq> fst ` set revs"
    using inv by (auto simp: chrono_inv_def)
  have set: "set ready = set (d # rest)" and dist: "distinct (d # rest)"
    unfolding ready [symmetric] using inv by (simp_all add: chrono_inv_def)
  then show "d \<in> set ready" by simp
  then have d: "d \<in> fst ` set revs" "d \<notin> set order" "?w d = 0"
    using rdy by auto
  have "sorted (map (\<lambda>d. (created_at revs d, d)) (d # rest))"
    unfolding ready [symmetric] by simp
  then show "\<forall>x\<in>set ready. created_at revs d \<le> created_at revs x"
    unfolding set by (auto simp: less_eq_prod_def less_imp_le)
  have count: "count_list ?cs c = count_list (parents_of revs c) d" for c
    using count_children [OF assms(1)] .
  have mem: "c \<in> set ?cs \<longleftrightarrow> (c, d) \<in> hist_rel revs" for c
    using count [of c] by (metis count_list_0_iff parents_of_rel)
  have waits: "?w c \<noteq> 0" if "c \<in> set ?cs" for c
    using that d(2) by (auto simp: mem still_waiting_0)
  have le: "count_list ?cs c \<le> w c" for c
    unfolding count w using still_waiting_step(2) [OF d(2)] .
  have disj: "c \<notin> set rest" if "c \<in> set ?cs" for c
  proof
    assume "c \<in> set rest"
    then have "c \<in> set ready" by (simp add: set)
    then show False using waits [OF that] unfolding rdy by simp
  qed
  have spec: "fst (release ?cs w rest) = still_waiting revs (order @ [d])"
    "set (snd (release ?cs w rest)) = set rest \<union> {c \<in> set ?cs. count_list ?cs c = w c}" "distinct (snd (release ?cs w rest))"
    using release_spec [of ?cs w rest, OF le _ disj] dist
    by (simp_all add: count w fun_eq_iff still_waiting_step(1) [OF d(2)])
  have sw: "still_waiting revs (order @ [d]) x = 0 \<longleftrightarrow> count_list ?cs x = w x" for x
    unfolding still_waiting_step(1) [OF d(2)] count w using still_waiting_step(2) [OF d(2), of revs x] by linarith
  have "set (snd (release ?cs w rest)) = {x \<in> fst ` set revs. x \<notin> set (order @ [d]) \<and> still_waiting revs (order @ [d]) x = 0}"
  proof (intro set_eqI iffI)
    fix x assume "x \<in> set (snd (release ?cs w rest))"
    then consider "x \<in> set rest" | "x \<in> set ?cs" "count_list ?cs x = w x"
      unfolding spec by blast
    then show "x \<in> {x \<in> fst ` set revs. x \<notin> set (order @ [d]) \<and> still_waiting revs (order @ [d]) x = 0}"
    proof cases
      case 1
      then have "x \<in> set ready" "x \<noteq> d" using set dist by auto
      then show ?thesis using rdy by (auto simp: still_waiting_0)
    next
      case 2
      then have "(x, d) \<in> hist_rel revs" by (simp add: mem)
      with before d waits [OF 2(1)] have "x \<in> fst ` set revs" "x \<notin> set order" "x \<noteq> d"
        using hist_rel_keys parents_before_closed by blast+
      with 2(2) show ?thesis using sw by simp
    qed
  next
    fix x assume "x \<in> {x \<in> fst ` set revs. x \<notin> set (order @ [d]) \<and> still_waiting revs (order @ [d]) x = 0}"
    then have x: "x \<in> fst ` set revs" "x \<notin> set order" "x \<noteq> d" "count_list ?cs x = w x"
      using sw by auto
    show "x \<in> set (snd (release ?cs w rest))"
    proof (cases "x \<in> set ?cs")
      case False
      then have "w x = 0" using x(4) by simp
      then have "x \<in> set ready" using x rdy w by auto
      then show ?thesis using x(3) set spec(2) by auto
    qed (use x(4) spec(2) in auto)
  qed
  moreover have "parents_before revs (order @ [d])"
    using before d(3) unfolding parents_before_def by (auto simp: nth_append less_Suc_eq still_waiting_0)
  ultimately show "chrono_inv revs (fst (release ?cs w rest)) (snd (release ?cs w rest)) (order @ [d])"
    using order d spec by (simp add: chrono_inv_def)
qed

lemma ready_below:
  assumes "acyclic (hist_rel revs)" and "y \<in> fst ` set revs" "y \<notin> set order"
  shows "\<exists>r\<in>fst ` set revs. r \<notin> set order \<and> still_waiting revs order r = 0 \<and> (y, r) \<in> (hist_rel revs)\<^sup>*"
proof -
  let ?V = "fst ` set revs - set order"
  let ?r = "hist_rel revs \<inter> ?V \<times> ?V"
  have "acyclic (?r\<inverse>)"
    using acyclic_subset [OF assms(1), of ?r] by (simp add: acyclic_converse)
  then obtain m where m: "m \<in> ?V" "(m, y) \<in> (?r\<inverse>)\<^sup>*" "\<forall>z. (z, m) \<notin> ?r\<inverse>"
    using finite_acyclic_top [of ?V "?r\<inverse>" y] assms(2,3) by auto
  have "(y, m) \<in> ?r\<^sup>*"
    using m(2) by (simp add: rtrancl_converse)
  then have "(y, m) \<in> (hist_rel revs)\<^sup>*"
    by (rule rtrancl_mono [THEN subsetD, rotated]) blast
  moreover have "still_waiting revs order m = 0"
    using m(1,3) hist_rel_keys unfolding still_waiting_0 by blast
  ultimately show ?thesis using m(1) by blast
qed

text \<open>Whether every child was created no earlier than its parents.\<close>

definition clock_ok :: "(digest, verified_state) gomap \<Rightarrow> bool" where
  "clock_ok revs \<longleftrightarrow> (\<forall>d p. (d, p) \<in> hist_rel revs \<longrightarrow> created_at revs p \<le> created_at revs d)"

definition clock_inv :: "(digest, verified_state) gomap \<Rightarrow> digest list \<Rightarrow> bool" where
  "clock_inv revs order \<longleftrightarrow> sorted (map (created_at revs) order)
     \<and> (\<forall>x\<in>set order. \<forall>y\<in>fst ` set revs - set order. created_at revs x \<le> created_at revs y)"

lemma clock_rtrancl: "clock_ok revs \<Longrightarrow> (y, r) \<in> (hist_rel revs)\<^sup>* \<Longrightarrow> created_at revs r \<le> created_at revs y"
  by (rotate_tac, induction rule: rtrancl_induct) (auto simp: clock_ok_def intro: order_trans)

lemma clock_step:
  assumes "acyclic (hist_rel revs)" "clock_ok revs" "clock_inv revs order" "chrono_inv revs w ready order"
    and d: "d \<in> set ready" "\<forall>x\<in>set ready. created_at revs d \<le> created_at revs x"
  shows "clock_inv revs (order @ [d])"
proof -
  have rdy: "set ready = {d \<in> fst ` set revs. d \<notin> set order \<and> still_waiting revs order d = 0}"
    using assms(4) by (simp add: chrono_inv_def)
  then have dV: "d \<in> fst ` set revs - set order" using d(1) by simp
  have "created_at revs d \<le> created_at revs y" if y: "y \<in> fst ` set revs" "y \<notin> set order" for y
  proof -
    obtain r where r: "r \<in> set ready" "(y, r) \<in> (hist_rel revs)\<^sup>*"
      using ready_below [OF assms(1) y] rdy by blast
    then show ?thesis
      using d(2) clock_rtrancl [OF assms(2) r(2)] by (meson order_trans)
  qed
  then show ?thesis
    using assms(3) dV by (auto simp: clock_inv_def sorted_append)
qed

lemma chrono_loop_spec:
  assumes "gm_ok revs" "acyclic (hist_rel revs)" "chrono_inv revs w ready order"
    and "length order + fuel = length revs"
  shows "\<exists>w' ready'. chrono_inv revs w' ready' (chrono_loop revs fuel w ready order)
    \<and> set (chrono_loop revs fuel w ready order) = fst ` set revs
    \<and> (clock_ok revs \<longrightarrow> clock_inv revs order \<longrightarrow> clock_inv revs (chrono_loop revs fuel w ready order))"
  using assms(3,4)
proof (induction fuel arbitrary: w ready order)
  case 0
  have "card (fst ` set revs) = length revs"
    using assms(1) by (metis distinct_card length_map list.set_map)
  moreover have "card (set order) = length order" "set order \<subseteq> fst ` set revs"
    using 0(1) by (simp_all add: chrono_inv_def distinct_card)
  ultimately have "set order = fst ` set revs"
    using 0(2) by (intro card_subset_eq) auto
  with 0 show ?case by auto
next
  case (Suc fuel)
  show ?case
  proof (cases "sort_key (\<lambda>d. (created_at revs d, d)) ready")
    case Nil
    then have "ready = []"
      by (metis length_0_conv length_sort)
    then have "fst ` set revs \<subseteq> set order"
      using ready_below [OF assms(2), of _ order] Suc.prems(1) by (fastforce simp: chrono_inv_def)
    then have "set order = fst ` set revs"
      using Suc.prems(1) by (auto simp: chrono_inv_def)
    with Nil Suc.prems(1) show ?thesis by auto
  next
    case (Cons d rest)
    note step = chrono_step [OF assms(1) Suc.prems(1) Cons]
    have eq: "chrono_loop revs (Suc fuel) w ready order
        = chrono_loop revs fuel (fst (release (children_of revs d) w rest)) (snd (release (children_of revs d) w rest)) (order @ [d])"
      by (simp add: Cons split: prod.split)
    have "clock_inv revs (order @ [d])" if "clock_ok revs" "clock_inv revs order"
      using clock_step [OF assms(2) that Suc.prems(1) step(2,3)] .
    with Suc.IH [OF step(1)] Suc.prems(2) show ?thesis
      unfolding eq by auto
  qed
qed

subsection \<open>Properties\<close>

text \<open>
  The listed order of a history.  For revisions whose parent links form no cycle, \<open>chronological\<close> lists
  each of them exactly once, and none before a parent it has in the history; and when every revision was
  created no earlier than its parents (clocks that agree), the times never go back.  A revision whose clock was
  wrong therefore never hides another, nor moves before what it was based on.
\<close>

theorem chronological_complete:
  assumes "gm_ok revs" and "acyclic (hist_rel revs)"
  shows "distinct (chronological revs) \<and> set (chronological revs) = fst ` set revs
    \<and> (\<forall>i<length (chronological revs). \<forall>p. (chronological revs ! i, p) \<in> hist_rel revs \<longrightarrow> p \<in> set (take i (chronological revs)))
    \<and> (clock_ok revs \<longrightarrow> sorted (map (created_at revs) (chronological revs)))"
proof -
  have "chrono_inv revs (waiting_of revs) (filter (\<lambda>d. waiting_of revs d = 0) (map fst revs)) []"
    using assms(1) by (auto simp: chrono_inv_def parents_before_def fun_eq_iff waiting_start)
  from chrono_loop_spec [OF assms this, of "length revs"] show ?thesis
    by (auto simp: chronological_def chrono_inv_def parents_before_def clock_inv_def)
qed

definition sample_history :: "(digest, verified_state) gomap" where
  "sample_history =
     [(''b'', \<lparr>vs_state = sample_state\<lparr>st_parents := [''a''], st_created_at := 1\<rparr>, vs_digest = ''b''\<rparr>),
      (''c'', \<lparr>vs_state = sample_state\<lparr>st_parents := [''a'', ''x''], st_created_at := 0\<rparr>, vs_digest = ''c''\<rparr>),
      (''a'', \<lparr>vs_state = sample_state\<lparr>st_parents := [''x''], st_created_at := 5\<rparr>, vs_digest = ''a''\<rparr>)]"

theorem chronological_complete_witness:
  "distinct (chronological sample_history) \<and> set (chronological sample_history) = {''a'', ''b'', ''c''}"
proof -
  have rel: "hist_rel sample_history = {(''b'', ''a''), (''c'', ''a'')}"
    by (auto simp: hist_rel_def sample_history_def gm_get_def known_parents_def gm_has_iff split: if_splits)
  have "(x, x) \<notin> {(''b'', ''a''), (''c'', ''a'')}\<^sup>+" for x
  proof
    assume "(x, x) \<in> {(''b'', ''a''), (''c'', ''a'')}\<^sup>+"
    then show False by (auto elim: tranclE dest: tranclD)
  qed
  then have "acyclic (hist_rel sample_history)"
    by (simp add: rel acyclic_def)
  moreover have "gm_ok sample_history" by (simp add: sample_history_def)
  moreover have "fst ` set sample_history = {''a'', ''b'', ''c''}"
    by (auto simp: sample_history_def)
  ultimately show ?thesis
    using chronological_complete [of sample_history] by simp
qed

end
