(* ===== verification/Compact.thy ===== *)
theory Compact
  imports History
begin

text \<open>
  Deleting stored revisions: \<open>app/compact.go\<close> and the purge of \<open>app/environments.go\<close>.
\<close>

subsection \<open>What a compaction keeps\<close>

definition kept_children :: "graph \<Rightarrow> digest list \<Rightarrow> digest \<Rightarrow> digest list" where
  "kept_children g anc p = filter (\<lambda>d. p \<in> set (graph_parents g d)) anc"

text \<open>The loop over the children of a revision: the kept ones, and the stack with its top first.\<close>

fun push_children :: "digest list \<Rightarrow> digest list \<Rightarrow> digest list \<Rightarrow> digest list \<times> digest list" where
  "push_children [] kept stack = (kept, stack)"
| "push_children (c # cs) kept stack =
     (if c \<in> set kept then push_children cs kept stack else push_children cs (c # kept) (c # stack))"

lemma push_children_spec:
  "push_children cs kept stack = (kept', stack') \<Longrightarrow>
     set kept' = set kept \<union> set cs \<and> (\<exists>new. kept' = new @ kept \<and> stack' = new @ stack \<and> set new = set cs - set kept)"
proof (induction cs kept stack rule: push_children.induct)
  case (2 c cs kept stack)
  show ?case
  proof (cases "c \<in> set kept")
    case True
    with 2 show ?thesis by auto
  next
    case False
    with 2 obtain new where "set kept' = set (c # kept) \<union> set cs" "kept' = new @ c # kept" "stack' = new @ c # stack"
      "set new = set cs - set (c # kept)" by auto
    with False show ?thesis
      by (intro conjI exI [of _ "new @ [c]"]) auto
  qed
qed auto

lemma push_children_grows:
  assumes "push_children (kept_children g anc cur) kept stack = (kept', stack')"
  shows "card (set anc - set kept') < card (set anc - set kept) \<or> kept' = kept \<and> stack' = stack"
proof -
  from push_children_spec [OF assms] obtain new where n: "kept' = new @ kept" "stack' = new @ stack"
    "set new = set (kept_children g anc cur) - set kept" by auto
  show ?thesis
  proof (cases "new = []")
    case False
    then obtain c where c: "c \<in> set new" by (cases new) auto
    then have "c \<in> set anc" "c \<notin> set kept"
      using n(3) by (auto simp: kept_children_def)
    then show ?thesis
      using n(1) c by (intro disjI1 psubset_card_mono) auto
  qed (use n in simp)
qed

function kept_loop :: "graph \<Rightarrow> digest list \<Rightarrow> digest list \<Rightarrow> digest list \<Rightarrow> digest list" where
  "kept_loop g anc kept [] = kept"
| "kept_loop g anc kept (cur # stack) =
     (case push_children (kept_children g anc cur) kept stack of (kept', stack') \<Rightarrow> kept_loop g anc kept' stack')"
  by pat_completeness auto
termination
  by (relation "measures [\<lambda>(g, anc, kept, stack). card (set anc - set kept), \<lambda>(g, anc, kept, stack). length stack]")
    (auto split: prod.splits dest!: push_children_grows)

declare kept_loop.simps [simp del]

definition kept_revisions :: "graph \<Rightarrow> digest \<Rightarrow> digest \<Rightarrow> digest list" where
  "kept_revisions g head flr = kept_loop g (ancestors g head) [flr] [flr]"

text \<open>\<open>compactionFloor\<close>: the steps that are left, along first parents that are shown.\<close>

fun floor_steps :: "graph \<Rightarrow> nat \<Rightarrow> digest \<Rightarrow> digest" where
  "floor_steps g 0 flr = flr"
| "floor_steps g (Suc n) flr =
     (case find (graph_has g) (graph_parents g flr) of
        None \<Rightarrow> flr
      | Some p \<Rightarrow> if p = [] then flr else floor_steps g n p)"

definition compaction_floor :: "graph \<Rightarrow> digest \<Rightarrow> int \<Rightarrow> digest" where
  "compaction_floor g head keep = floor_steps g (nat (keep - 1)) head"

subsection \<open>Publishing the records\<close>

definition compaction_object :: "wsp_lib \<Rightarrow> compaction \<Rightarrow> bytes \<Rightarrow> object" where
  "compaction_object lib c blob =
     \<lparr>ob_kind = KindCompaction, ob_scope = state_scope (wl_crypto lib) (cp_workspace c) (cp_resource c),
      ob_rv = dl_from_bytes (wl_digest lib) blob, ob_head = blob, ob_blobs = []\<rparr>"

definition publish_record ::
  "'s app \<Rightarrow> 's session \<Rightarrow> string \<Rightarrow> digest \<Rightarrow> digest list \<Rightarrow> ('s, unit) act" where
  "publish_record ap ss res flr removed =
     act_bind (\<lambda>s. case ap_now ap s of (s', t) \<Rightarrow> (s', Inr t)) (\<lambda>now.
       let lib = ap_lib ap;
           c = \<lparr>cp_workspace = ss_workspace ss, cp_resource = res, cp_floor = flr, cp_removed = removed,
                cp_control = vf_digest (the_head ss), cp_author = ss_self lib ss, cp_created_at = now\<rparr>
       in act_bind (lift_wsp (\<lambda>s. (s, sign_compaction lib c (ss_signer ss)))) (\<lambda>blob.
          act_bind (lift_wsp (\<lambda>s. (s, verify_compaction lib (ss_view ss) (ss_workspace ss) res
              (dl_from_bytes (wl_digest lib) blob) blob))) (\<lambda>_.
            act_map_err (\<lambda>e. Wrapping [storage_error_app e])
              (lift_storage (so_publish (ss_store ss) (compaction_object lib c blob))))))"

function publish_records ::
  "'s app \<Rightarrow> 's session \<Rightarrow> string \<Rightarrow> digest \<Rightarrow> digest list \<Rightarrow> ('s, unit) act" where
  "publish_records ap ss res flr removed =
     (if removed = [] then act_ok ()
      else act_bind (publish_record ap ss res flr (take max_compaction_removed removed)) (\<lambda>_.
             publish_records ap ss res flr (drop max_compaction_removed removed)))"
  by pat_completeness auto
termination
  by (relation "measure (\<lambda>(ap, ss, res, flr, removed). length removed)") (auto simp: max_compaction_removed_def)

declare publish_records.simps [simp del]

definition publish_compaction ::
  "'s app \<Rightarrow> 's session \<Rightarrow> string \<Rightarrow> digest \<Rightarrow> digest list \<Rightarrow> ('s, unit) act" where
  "publish_compaction ap ss res flr removed = publish_records ap ss res flr (sort_digests removed)"

subsection \<open>Compacting\<close>

definition unverifiable ::
  "'s app \<Rightarrow> 's session \<Rightarrow> string \<Rightarrow> string \<Rightarrow> digest \<Rightarrow> ('s, bool) act" where
  "unverifiable ap ss res scope rv s =
     (case so_fetch_head (ss_store ss) KindState scope rv s of
        (s', Inl e) \<Rightarrow>
          if e = SNotFound \<or> e = SCorrupt then (s', Inr False) else (s', Inl (storage_error_app (storage_cause e)))
      | (s', Inr head) \<Rightarrow>
          (s', Inr (case verify_revision (ap_lib ap) (ss_view ss) (ss_workspace ss) res rv head of
                      Inl e \<Rightarrow> e \<noteq> ErrRollback | Inr _ \<Rightarrow> False)))"

fun find_junk ::
  "'s app \<Rightarrow> 's session \<Rightarrow> string \<Rightarrow> string \<Rightarrow> (digest \<Rightarrow> bool) \<Rightarrow> digest list \<Rightarrow> digest list \<Rightarrow> ('s, digest list) act" where
  "find_junk ap ss res scope known [] junk = act_ok junk"
| "find_junk ap ss res scope known (d # ds) junk =
     (if known d then find_junk ap ss res scope known ds junk
      else act_bind (unverifiable ap ss res scope d) (\<lambda>bad.
             find_junk ap ss res scope known ds (if bad then junk @ [d] else junk)))"

text \<open>The loop that deletes: the number deleted, and the error that ended it.\<close>

fun delete_loop ::
  "'s store_ops \<Rightarrow> string \<Rightarrow> digest list \<Rightarrow> nat \<Rightarrow> 's \<Rightarrow> 's \<times> nat \<times> unit app_result" where
  "delete_loop ops scope [] n s = (s, n, Inr ())"
| "delete_loop ops scope (d # ds) n s =
     (case so_delete ops KindState scope d s of
        (s', Inl e) \<Rightarrow>
          if e \<noteq> SNotFound then (s', n, Inl (Wrapping [storage_error_app (storage_cause e)]))
          else delete_loop ops scope ds (n + 1) s'
      | (s', Inr _) \<Rightarrow> delete_loop ops scope ds (n + 1) s')"

record compact_result =
  cr_kept :: nat
  cr_removed :: nat

text \<open>\<open>openPurgeSession\<close>: only an admin, on a backend that can delete.\<close>

definition open_purge_session :: "'s app \<Rightarrow> ('s, 's session) act" where
  "open_purge_session ap =
     act_bind (open_session ap) (\<lambda>ss.
       case control_principal (vf_control (the_head ss)) (ss_self (ap_lib ap) ss) of
         None \<Rightarrow> act_fail (app_new CodeAccessDenied [])
       | Some p \<Rightarrow>
           if \<not> pr_admin p then act_fail (app_new CodeAccessDenied [])
           else if \<not> so_capabilities (ss_store ss) then act_fail (app_new CodeInvalidArgument [])
           else act_ok ss)"

text \<open>
  What \<open>CompactHistory\<close> does once the environment was read with one head.  The result comes with the error that
  ended the deletion.
\<close>

definition compact_read ::
  "'s app \<Rightarrow> 's session \<Rightarrow> string \<Rightarrow> int \<Rightarrow> resource_read \<Rightarrow> 's \<Rightarrow> 's \<times> compact_result option \<times> unit app_result" where
  "compact_read ap ss res keep r s =
     (let sv = rr_view r; g = sv_graph sv; head = vs_digest (rr_heads r ! 0);
          flr = compaction_floor g head keep; kept = kept_revisions g head flr;
          removed = sort_digests (filter (\<lambda>d. d \<notin> set kept) (map fst (sv_states sv)));
          scope = state_scope (wl_crypto (ap_lib ap)) (ss_workspace ss) res
      in case act_bind (act_map_err storage_error_app (lift_storage (so_discover (ss_store ss) KindState scope))) (\<lambda>listed.
             act_bind (find_junk ap ss res scope (\<lambda>d. gm_has (sv_states sv) d \<or> d \<in> set kept) listed []) (\<lambda>junk.
               if removed @ junk = [] then act_ok []
               else act_bind (publish_compaction ap ss res flr removed) (\<lambda>_. act_ok (removed @ junk)))) s of
           (s1, Inl e) \<Rightarrow> (s1, None, Inl e)
         | (s1, Inr gone) \<Rightarrow>
             (case delete_loop (ss_store ss) scope gone 0 s1 of
                (s2, n, r) \<Rightarrow> (s2, Some \<lparr>cr_kept = length (remdups kept), cr_removed = n\<rparr>, r)))"

definition compact_history ::
  "'s app \<Rightarrow> string \<Rightarrow> int \<Rightarrow> 's \<Rightarrow> 's \<times> compact_result option \<times> unit app_result" where
  "compact_history ap env keep s =
     (if keep < 1 then (s, None, Inl (app_new CodeInvalidArgument []))
      else case act_bind (resolve_env ap env) (\<lambda>resolved.
                act_bind (open_purge_session ap) (\<lambda>ss.
                  let res = ss_resource ss (re_name resolved)
                  in act_bind (act_try (read_resource ap ss res [] True [])) (\<lambda>rd. act_ok (ss, res, rd)))) s of
        (s1, Inl e) \<Rightarrow> (s1, None, Inl (normalize_err e))
      | (s1, Inr (ss, res, Inl e)) \<Rightarrow>
          if is_not_found_error e then (s1, Some \<lparr>cr_kept = 0, cr_removed = 0\<rparr>, Inr ())
          else (s1, None, Inl (normalize_err e))
      | (s1, Inr (ss, res, Inr r)) \<Rightarrow>
          (case conflict_error (rr_conflicts r) of
             Some e \<Rightarrow> (s1, None, Inl e)
           | None \<Rightarrow>
               if length (rr_heads r) \<noteq> 1 then (s1, None, Inl (app_new CodeConflict []))
               else (case compact_read ap ss res keep r s1 of (s2, out, q) \<Rightarrow> (s2, out, normalize_into q))))"

subsection \<open>Purging an environment\<close>

definition purge_resource :: "'s app \<Rightarrow> 's session \<Rightarrow> string \<Rightarrow> 's \<Rightarrow> 's \<times> nat \<times> unit app_result" where
  "purge_resource ap ss res s =
     (let scope = state_scope (wl_crypto (ap_lib ap)) (ss_workspace ss) res
      in case so_discover (ss_store ss) KindState scope s of
           (s1, Inl e) \<Rightarrow> (s1, 0, Inl (storage_error_app (storage_cause e)))
         | (s1, Inr revs) \<Rightarrow> delete_loop (ss_store ss) scope revs 0 s1)"

definition delete_environment_purging :: "'s app \<Rightarrow> string \<Rightarrow> 's \<Rightarrow> 's \<times> nat \<times> unit app_result" where
  "delete_environment_purging ap name s =
     (case act_bind (ap_load_project ap) (\<lambda>cfg.
           act_bind (act_pure (check_deletable cfg name)) (\<lambda>_.
           act_bind (open_purge_session ap) (\<lambda>ss. act_ok (cfg, ss)))) s of
        (s1, Inl e) \<Rightarrow> (s1, 0, Inl (normalize_err e))
      | (s1, Inr (cfg, ss)) \<Rightarrow>
          (case purge_resource ap ss (cfg_resource cfg name) s1 of
             (s2, n, Inl e) \<Rightarrow> (s2, n, Inl (normalize_err e))
           | (s2, n, Inr _) \<Rightarrow>
               (case normalized (act_bind (act_pure (remove_environment name cfg)) (ap_save_project ap)) s2 of
                  (s3, r) \<Rightarrow> (s3, n, r))))"

definition purge_incarnation :: "'s app \<Rightarrow> string \<Rightarrow> 's \<Rightarrow> 's \<times> nat \<times> unit app_result" where
  "purge_incarnation ap inc s =
     (if \<not> ap_uuid_ok ap inc then (s, 0, Inl (app_new CodeInvalidArgument []))
      else case act_bind (ap_load_project ap) (\<lambda>cfg.
           act_bind (act_pure (check_all (\<lambda>(name, env).
               if ec_incarnation env = inc then Inl (name_error CodeInvalidArgument name) else Inr ())
               (pc_environments cfg))) (\<lambda>_. open_purge_session ap)) s of
        (s1, Inl e) \<Rightarrow> (s1, 0, Inl (normalize_err e))
      | (s1, Inr ss) \<Rightarrow>
          (case purge_resource ap ss (''secrets/'' @ inc) s1 of (s2, n, r) \<Rightarrow> (s2, n, normalize_into r)))"

end
