(* ===== verification/Compact_Props.thy ===== *)
theory Compact_Props
  imports Compact Session_Props
begin

text \<open>What a compaction keeps, and that every device still accepts the environment after it.\<close>

subsection \<open>The kept revisions\<close>

text \<open>What is not on the stack of the loop has its children kept; and what is kept is linked to the floor.\<close>

lemma kept_loop_closed:
  assumes "set stack \<subseteq> set kept" and "\<forall>p\<in>set kept. p \<in> set stack \<or> set (kept_children g anc p) \<subseteq> set kept"
  shows "set kept \<subseteq> set (kept_loop g anc kept stack)
    \<and> (\<forall>p\<in>set (kept_loop g anc kept stack). set (kept_children g anc p) \<subseteq> set (kept_loop g anc kept stack))"
  using assms
proof (induction g anc kept stack rule: kept_loop.induct)
  case (1 g anc kept)
  then show ?case by (auto simp: kept_loop.simps)
next
  case (2 g anc kept cur stack)
  obtain kept' stack' where p: "push_children (kept_children g anc cur) kept stack = (kept', stack')" by fastforce
  from push_children_spec [OF p] obtain new where n: "set kept' = set kept \<union> set (kept_children g anc cur)"
    "kept' = new @ kept" "stack' = new @ stack" by auto
  have "set stack' \<subseteq> set kept'"
    using n "2.prems"(1) by auto
  moreover have "\<forall>p\<in>set kept'. p \<in> set stack' \<or> set (kept_children g anc p) \<subseteq> set kept'"
    using n "2.prems"(2) by auto
  moreover have "kept_loop g anc kept (cur # stack) = kept_loop g anc kept' stack'"
    by (simp add: kept_loop.simps(2) p)
  ultimately show ?case
    using "2.IH" [OF p [symmetric]] n(1) by auto
qed

lemma kept_loop_sound:
  assumes "set stack \<subseteq> set kept" "\<And>d. d \<in> set kept \<Longrightarrow> P d"
    and "\<And>p c. P p \<Longrightarrow> c \<in> set (kept_children g anc p) \<Longrightarrow> P c"
  shows "d \<in> set (kept_loop g anc kept stack) \<Longrightarrow> P d"
  using assms
proof (induction g anc kept stack rule: kept_loop.induct)
  case (1 g anc kept)
  then show ?case by (auto simp: kept_loop.simps)
next
  case (2 g anc kept cur stack)
  obtain kept' stack' where p: "push_children (kept_children g anc cur) kept stack = (kept', stack')" by fastforce
  from push_children_spec [OF p] obtain new where n: "set kept' = set kept \<union> set (kept_children g anc cur)"
    "kept' = new @ kept" "stack' = new @ stack" by auto
  have P: "P x" if "x \<in> set kept'" for x
    using that n(1) "2.prems"(2,3) "2.prems"(4) [of cur x] by auto
  have "set stack' \<subseteq> set kept'"
    using n "2.prems"(2) by auto
  moreover have "d \<in> set (kept_loop g anc kept' stack')"
    using "2.prems"(1) by (simp add: kept_loop.simps(2) p)
  ultimately show ?case
    using "2.IH" [OF p [symmetric]] P "2.prems"(4) by blast
qed

lemma kept_exact:
  assumes "flr \<in> set (ancestors g head)"
  shows "d \<in> set (kept_revisions g head flr) \<longleftrightarrow> d \<in> set (ancestors g head) \<and> flr \<in> set (ancestors g d)"
proof -
  let ?anc = "ancestors g head" and ?K = "set (kept_revisions g head flr)"
  have spec: "flr \<in> ?K" "\<And>p c. p \<in> ?K \<Longrightarrow> c \<in> set (kept_children g ?anc p) \<Longrightarrow> c \<in> ?K"
    using kept_loop_closed [of "[flr]" "[flr]" g ?anc] by (auto simp: kept_revisions_def)
  have child: "c \<in> set (kept_children g ?anc p) \<longleftrightarrow> c \<in> set ?anc \<and> p \<in> set (graph_parents g c)" for c p
    by (auto simp: kept_children_def)
  have up: "c \<in> set ?anc" if "(head, c) \<in> (parent_rel g)\<^sup>*" for c
    using that assms by (auto simp: ancestors_iff)
  show ?thesis
  proof
    assume d: "d \<in> set ?anc \<and> flr \<in> set (ancestors g d)"
    then have "(d, flr) \<in> (parent_rel g)\<^sup>*" "(head, d) \<in> (parent_rel g)\<^sup>*"
      by (simp_all add: ancestors_iff)
    then show "d \<in> ?K"
    proof (induction rule: converse_rtrancl_induct)
      case (step y z)
      then have "z \<in> ?K" by (meson rtrancl.rtrancl_into_rtrancl)
      moreover have "y \<in> set (kept_children g ?anc z)"
        using step up by (auto simp: child parent_rel_iff)
      ultimately show ?case by (rule spec(2))
    qed (rule spec(1))
  next
    assume d: "d \<in> ?K"
    show "d \<in> set ?anc \<and> flr \<in> set (ancestors g d)"
      using d unfolding kept_revisions_def
    proof (rule kept_loop_sound [rotated -1])
      show "x \<in> set [flr] \<Longrightarrow> x \<in> set ?anc \<and> flr \<in> set (ancestors g x)" for x
        using assms ancestors_has by auto
      show "c \<in> set ?anc \<and> flr \<in> set (ancestors g c)"
        if "p \<in> set ?anc \<and> flr \<in> set (ancestors g p)" "c \<in> set (kept_children g ?anc p)" for p c
      proof -
        have "graph_has g c" "graph_has g p" "p \<in> set (graph_parents g c)" "c \<in> set ?anc"
          using that ancestors_has by (auto simp: child)
        then have "p \<in> set (ancestors g c)"
          by (auto simp: ancestors_iff parent_rel_iff)
        with that \<open>c \<in> set ?anc\<close> show ?thesis
          using ancestors_trans by blast
      qed
    qed simp
  qed
qed

lemma floor_ancestor: "graph_has g head \<Longrightarrow> flr \<in> set (ancestors g head) \<Longrightarrow> floor_steps g n flr \<in> set (ancestors g head)"
proof (induction n arbitrary: flr)
  case (Suc n)
  show ?case
  proof (cases "find (graph_has g) (graph_parents g flr)")
    case None
    with Suc show ?thesis by simp
  next
    case (Some p)
    then have "p \<in> set (graph_parents g flr)" "graph_has g p"
      by (auto simp: find_Some_iff)
    then have p: "p \<in> set (ancestors g flr)"
      using Suc.prems(2) ancestors_has [of flr g head] by (auto simp: ancestors_iff parent_rel_iff)
    show ?thesis
      using Suc.IH [OF Suc.prems(1) ancestors_trans [OF Suc.prems(2) p]] Some Suc.prems(2) by simp
  qed
qed simp

lemma compaction_floor_ancestor: "graph_has g head \<Longrightarrow> compaction_floor g head keep \<in> set (ancestors g head)"
  by (simp add: compaction_floor_def floor_ancestor)

subsection \<open>What storage shows after a compaction\<close>

definition restricted :: "graph \<Rightarrow> digest list \<Rightarrow> graph" where
  "restricted g kept = filter (\<lambda>(d, ps). d \<in> set kept) g"

lemma restricted_get: "gm_get (restricted g kept) d = (if d \<in> set kept then gm_get g d else None)"
  unfolding restricted_def gm_get_is_map_of by (induction g) auto

lemma restricted_has: "graph_has (restricted g kept) d \<longleftrightarrow> d \<in> set kept \<and> graph_has g d"
  by (auto simp: graph_has_def gm_has_get restricted_get)

lemma restricted_parents: "d \<in> set kept \<Longrightarrow> graph_parents (restricted g kept) d = graph_parents g d"
  by (simp add: graph_parents_def restricted_get)

lemma restricted_ok: "graph_ok g \<Longrightarrow> graph_ok (restricted g kept)"
  unfolding graph_ok_def restricted_def by (rule distinct_map_filter)

lemma restricted_rel: "(d, p) \<in> parent_rel (restricted g kept) \<longleftrightarrow> d \<in> set kept \<and> p \<in> set kept \<and> (d, p) \<in> parent_rel g"
  by (auto simp: parent_rel_iff restricted_has restricted_parents)

lemma kept_link:
  assumes "flr \<in> set (ancestors g head)" and "d \<in> set (kept_revisions g head flr)" and "flr \<in> set (ancestors g p)"
    and "(d, p) \<in> parent_rel g"
  shows "(d, p) \<in> parent_rel (restricted g (kept_revisions g head flr))"
  using assms unfolding restricted_rel kept_exact [OF assms(1)]
  by (auto simp: ancestors_iff dest: parent_rel_has intro: rtrancl.rtrancl_into_rtrancl)

lemma kept_path:
  assumes flr: "flr \<in> set (ancestors g head)" and "d \<in> set (kept_revisions g head flr)"
    and "(d, p) \<in> (parent_rel g)\<^sup>*" and "flr \<in> set (ancestors g p)"
  shows "(d, p) \<in> (parent_rel (restricted g (kept_revisions g head flr)))\<^sup>*"
  using assms(3,2)
proof (induction rule: converse_rtrancl_induct)
  case (step y z)
  have "flr \<in> set (ancestors g z)"
    using step.hyps assms(4) parent_rel_has [OF step.hyps(1)] by (auto simp: ancestors_iff)
  with kept_link [OF flr step.prems _ step.hyps(1)] step.IH show ?case
    by (auto simp: restricted_rel intro: converse_rtrancl_into_rtrancl)
qed simp

lemma restricted_floor:
  assumes flr: "flr \<in> set (ancestors g head)" and d: "d \<in> set (kept_revisions g head flr)"
  shows "flr \<in> set (ancestors (restricted g (kept_revisions g head flr)) d)"
proof -
  have "flr \<in> set (ancestors g flr)" "(d, flr) \<in> (parent_rel g)\<^sup>*" "graph_has g d"
    using d ancestors_has [OF flr] ancestors_has by (auto simp: kept_exact [OF flr] ancestors_iff)
  then show ?thesis
    using kept_path [OF flr d] d by (simp add: ancestors_iff restricted_has)
qed

lemma restricted_head:
  assumes flr: "flr \<in> set (ancestors g head)" and ok: "graph_ok g" and acyc: "acyclic (parent_rel g)"
  shows "set (graph_heads (restricted g (kept_revisions g head flr))) = {head}"
proof -
  let ?K = "kept_revisions g head flr"
  have has: "graph_has g head" using flr by (auto simp: ancestors_iff)
  then have headK: "head \<in> set ?K" by (simp add: kept_exact [OF flr] flr)
  have "(c, head) \<notin> parent_rel (restricted g ?K)" for c
  proof
    assume "(c, head) \<in> parent_rel (restricted g ?K)"
    then have "(head, c) \<in> (parent_rel g)\<^sup>*" "(c, head) \<in> parent_rel g"
      by (auto simp: restricted_rel kept_exact [OF flr] ancestors_iff)
    then have "(head, head) \<in> (parent_rel g)\<^sup>+"
      by (rule rtrancl_into_trancl1)
    with acyc show False by (simp add: acyclic_def)
  qed
  moreover have "\<exists>c. (c, d) \<in> parent_rel (restricted g ?K)" if d: "d \<in> set ?K" "d \<noteq> head" for d
  proof -
    have path: "(head, d) \<in> (parent_rel g)\<^sup>*" "flr \<in> set (ancestors g d)"
      using d by (auto simp: kept_exact [OF flr] ancestors_iff)
    from kept_path [OF flr headK path] d(2) show ?thesis
      by (metis rtranclE)
  qed
  ultimately show ?thesis
    using headK has by (auto simp: set_graph_heads [OF restricted_ok [OF ok]] restricted_has)
qed

subsection \<open>Properties\<close>

text \<open>
  C28: an environment reads the same after a compaction.  The floor is an ancestor of the head, and what is
  kept are exactly the revisions between the two.  Once storage shows only those, and the records of the
  compaction list everything else under that floor, every device finds: the head is the only head; every kept revision
  is above the floors; a revision that is gone is excused, so a checkpoint that holds it is no rollback; and no
  parent is missing that was not missing before.
\<close>

theorem compaction_leaves_readable:
  assumes "graph_ok g" and "acyclic (parent_rel g)" and "graph_has g head"
    and "flr = compaction_floor g head keep" and "kept = kept_revisions g head flr"
    and "\<forall>r\<in>set records. cp_floor (vc_compaction r) = flr"
    and "\<forall>d. graph_has g d \<longrightarrow> d \<notin> set kept \<longrightarrow> (\<exists>r\<in>set records. d \<in> set (cp_removed (vc_compaction r)))"
  shows "(\<forall>d. d \<in> set kept \<longleftrightarrow> d \<in> set (ancestors g head) \<and> flr \<in> set (ancestors g d))
    \<and> set (graph_heads (restricted g kept)) = {head}
    \<and> (\<forall>d\<in>set kept. above_floors (compute records (restricted g kept)) (restricted g kept) d)
    \<and> (\<forall>d. graph_has g d \<longrightarrow> d \<notin> set kept \<longrightarrow> excuses (compute records (restricted g kept)) d)
    \<and> (\<forall>d\<in>set (missing (restricted g kept)). excuses (compute records (restricted g kept)) d \<or> d \<in> set (missing g))"
proof -
  have flr: "flr \<in> set (ancestors g head)"
    unfolding assms(4) using assms(3) by (rule compaction_floor_ancestor)
  note exact = kept_exact [OF flr, folded assms(5)]
  have "graph_has g flr"
    using ancestors_has [OF flr] .
  then have shown: "graph_has (restricted g kept) flr"
    using flr by (simp add: restricted_has exact)
  have gone: "excuses (compute records (restricted g kept)) d" if d: "graph_has g d" "d \<notin> set kept" for d
  proof -
    obtain r where r: "r \<in> set records" "d \<in> set (cp_removed (vc_compaction r))"
      using assms(7) d by blast
    then show ?thesis
      using excused.excused_shown [of r records "restricted g kept" d] assms(6) shown d(2)
      by (simp add: excuses_iff restricted_has)
  qed
  have "above_floors (compute records (restricted g kept)) (restricted g kept) d" if "d \<in> set kept" for d
    using restricted_floor [OF flr] that assms(6)
    by (auto simp: above_floors_def compute_floors assms(5) Let_def)
  moreover have "excuses (compute records (restricted g kept)) d \<or> d \<in> set (missing g)" if d: "d \<in> set (missing (restricted g kept))" for d
  proof -
    obtain c where c: "\<not> graph_has (restricted g kept) d" "c \<in> set kept" "graph_has g c" "d \<in> set (graph_parents g c)"
      using d by (auto simp: restricted_parents missing_correct [OF restricted_ok [OF assms(1)]] restricted_has)
    then show ?thesis
      using gone [of d] by (auto simp: missing_correct [OF assms(1)] restricted_has)
  qed
  ultimately show ?thesis
    using exact gone restricted_head [OF flr assms(1,2)] by (simp add: assms(5))
qed

definition diamond_record :: verified_compaction where
  "diamond_record = \<lparr>vc_compaction = sample_compaction\<lparr>cp_floor := ''d'', cp_removed := [''a'', ''b'', ''c'']\<rparr>, vc_digest = ''r''\<rparr>"

theorem compaction_leaves_readable_witness:
  "set (graph_heads (restricted diamond (kept_revisions diamond ''d'' ''d''))) = {''d''}
    \<and> excuses (compute [diamond_record] (restricted diamond (kept_revisions diamond ''d'' ''d''))) ''a''"
proof -
  have has: "graph_has diamond x \<longleftrightarrow> x \<in> {''a'', ''b'', ''c'', ''d''}" for x
    by (auto simp: graph_has_def gm_has_iff diamond_eq)
  have flr: "compaction_floor diamond ''d'' 1 = ''d''"
    by (simp add: compaction_floor_def)
  have up: "x = ''d''" if "(x, ''d'') \<in> (parent_rel diamond)\<^sup>*" for x
    using that by (cases rule: rtranclE) (auto simp: parent_rel_iff graph_parents_def diamond_eq gm_get_def split: if_splits)
  have kept: "x \<in> set (kept_revisions diamond ''d'' ''d'') \<longleftrightarrow> x = ''d''" for x
    using kept_exact [of "''d''" diamond "''d''" x] up has by (auto simp: ancestors_iff)
  have "\<forall>r\<in>set [diamond_record]. cp_floor (vc_compaction r) = ''d''"
    "\<forall>x. graph_has diamond x \<longrightarrow> x \<notin> set (kept_revisions diamond ''d'' ''d'') \<longrightarrow>
       (\<exists>r\<in>set [diamond_record]. x \<in> set (cp_removed (vc_compaction r)))"
    by (simp_all add: diamond_record_def has kept)
  from compaction_leaves_readable [OF diamond_acyclic _ flr [symmetric] refl this] show ?thesis
    using kept has by simp
qed

subsection \<open>The records come first\<close>

text \<open>The records that \<open>publishCompaction\<close> publishes list every removed revision, in parts that fit a record.\<close>

definition record_published :: "'s app \<Rightarrow> 's session \<Rightarrow> string \<Rightarrow> digest \<Rightarrow> digest list \<Rightarrow> bool" where
  "record_published ap ss res flr part \<longleftrightarrow>
     (\<exists>c blob v t t'. cp_floor c = flr \<and> cp_removed c = part \<and> cp_control c = vf_digest (the_head ss)
        \<and> cp_author c = ss_self (ap_lib ap) ss \<and> sign_compaction (ap_lib ap) c (ss_signer ss) = Inr blob
        \<and> verify_compaction (ap_lib ap) (ss_view ss) (ss_workspace ss) res (dl_from_bytes (wl_digest (ap_lib ap)) blob) blob = Inr v
        \<and> so_publish (ss_store ss) (compaction_object (ap_lib ap) c blob) t = (t', Inr ()))"

lemma publish_record_published:
  "publish_record ap ss res flr part s = (s', Inr ()) \<Longrightarrow> record_published ap ss res flr part"
  unfolding record_published_def
  by (auto simp: publish_record_def act_bind_Inr Let_def) (intro exI conjI; (assumption | simp))

lemma publish_records_published:
  "publish_records ap ss res flr removed s = (s', Inr ()) \<Longrightarrow>
     \<forall>d\<in>set removed. \<exists>part. d \<in> set part \<and> length part \<le> max_compaction_removed \<and> record_published ap ss res flr part"
proof (induction ap ss res flr removed arbitrary: s rule: publish_records.induct)
  case (1 ap ss res flr removed)
  show ?case
  proof (cases "removed = []")
    case False
    then obtain s1 where p: "publish_record ap ss res flr (take max_compaction_removed removed) s = (s1, Inr ())"
      and r: "publish_records ap ss res flr (drop max_compaction_removed removed) s1 = (s', Inr ())"
      using "1.prems" by (subst (asm) publish_records.simps) (auto simp: act_bind_Inr)
    have "set removed = set (take max_compaction_removed removed) \<union> set (drop max_compaction_removed removed)"
      by (metis append_take_drop_id set_append)
    then show ?thesis
      using "1.IH" [OF False r] publish_record_published [OF p] by (metis Un_iff length_take min.cobounded2)
  qed simp
qed

lemma find_junk_bad:
  "find_junk ap ss res scope known ds junk s = (s', Inr out) \<Longrightarrow>
     \<forall>d\<in>set out. d \<in> set junk \<or> \<not> known d \<and> (\<exists>t t'. unverifiable ap ss res scope d t = (t', Inr True))"
proof (induction ap ss res scope known ds junk arbitrary: s rule: find_junk.induct)
  case (2 ap ss res scope known d ds junk)
  show ?case
  proof (cases "known d")
    case True
    with 2 show ?thesis by simp
  next
    case False
    then obtain s1 bad where u: "unverifiable ap ss res scope d s = (s1, Inr bad)"
      and j: "find_junk ap ss res scope known ds (if bad then junk @ [d] else junk) s1 = (s', Inr out)"
      using "2.prems" by (auto simp: act_bind_Inr)
    from "2.IH"(2) [OF False j] u False show ?thesis
      by (cases bad) (simp_all, metis)
  qed
qed simp

text \<open>
  Nothing is deleted before it is accounted for.  Whatever \<open>CompactHistory\<close> deletes, once it has read the
  environment, is either a verified revision that is not kept, which a signed record names that was
  published before the first deletion, or a stored object that does not verify as a revision at all.
\<close>

theorem compaction_records_first:
  assumes "compact_read ap ss res keep r s = (s', Some result, q)"
  shows "\<exists>gone s1. delete_loop (ss_store ss) (state_scope (wl_crypto (ap_lib ap)) (ss_workspace ss) res) gone 0 s1
      = (s', cr_removed result, q) \<and>
    (\<forall>d\<in>set gone. d \<notin> set (kept_revisions (sv_graph (rr_view r)) (vs_digest (rr_heads r ! 0))
          (compaction_floor (sv_graph (rr_view r)) (vs_digest (rr_heads r ! 0)) keep)) \<and>
       (if gm_has (sv_states (rr_view r)) d
        then \<exists>part. d \<in> set part \<and> length part \<le> max_compaction_removed \<and> record_published ap ss res
               (compaction_floor (sv_graph (rr_view r)) (vs_digest (rr_heads r ! 0)) keep) part
        else \<exists>t t'. unverifiable ap ss res (state_scope (wl_crypto (ap_lib ap)) (ss_workspace ss) res) d t = (t', Inr True)))"
proof -
  let ?g = "sv_graph (rr_view r)" and ?st = "sv_states (rr_view r)" and ?head = "vs_digest (rr_heads r ! 0)"
  let ?flr = "compaction_floor ?g ?head keep"
  let ?kept = "kept_revisions ?g ?head ?flr" and ?scope = "state_scope (wl_crypto (ap_lib ap)) (ss_workspace ss) res"
  let ?removed = "sort_digests (filter (\<lambda>d. d \<notin> set ?kept) (map fst ?st))"
  obtain gone s1 where act: "act_bind (act_map_err storage_error_app (lift_storage (so_discover (ss_store ss) KindState ?scope))) (\<lambda>listed.
      act_bind (find_junk ap ss res ?scope (\<lambda>d. gm_has ?st d \<or> d \<in> set ?kept) listed []) (\<lambda>junk.
        if ?removed @ junk = [] then act_ok []
        else act_bind (publish_compaction ap ss res ?flr ?removed) (\<lambda>_. act_ok (?removed @ junk)))) s = (s1, Inr gone)"
    and del: "delete_loop (ss_store ss) ?scope gone 0 s1 = (s', cr_removed result, q)"
    using assms unfolding compact_read_def Let_def by (auto split: prod.splits sum.splits)
  obtain listed t junk t2 where j: "find_junk ap ss res ?scope (\<lambda>d. gm_has ?st d \<or> d \<in> set ?kept) listed [] t = (t2, Inr junk)"
    and rest: "(if ?removed @ junk = [] then act_ok []
        else act_bind (publish_compaction ap ss res ?flr ?removed) (\<lambda>_. act_ok (?removed @ junk))) t2 = (s1, Inr gone)"
    using act by (auto simp: act_bind_Inr simp del: append_is_Nil_conv)
  have cases: "gone = [] \<or> gone = ?removed @ junk \<and> (\<exists>u. publish_records ap ss res ?flr (sort_digests ?removed) t2 = (u, Inr ()))"
    using rest by (auto simp: act_bind_Inr publish_compaction_def split: if_splits)
  have junk: "\<not> gm_has ?st d \<and> d \<notin> set ?kept \<and> (\<exists>t t'. unverifiable ap ss res ?scope d t = (t', Inr True))" if "d \<in> set junk" for d
    using find_junk_bad [OF j] that by auto
  have removed: "gm_has ?st d \<and> d \<notin> set ?kept" if "d \<in> set ?removed" for d
    using that by (auto simp: sort_digests_def gm_has_iff)
  show ?thesis
  proof (rule exI [of _ gone], rule exI [of _ s1], rule conjI [OF del], intro ballI)
    fix d assume d: "d \<in> set gone"
    with cases obtain u where gone: "gone = ?removed @ junk"
      and p: "publish_records ap ss res ?flr (sort_digests ?removed) t2 = (u, Inr ())"
      by auto
    have rec: "\<exists>part. d \<in> set part \<and> length part \<le> max_compaction_removed \<and> record_published ap ss res ?flr part"
      if "d \<in> set ?removed"
      using publish_records_published [OF p] that by (simp add: sort_digests_def)
    show "d \<notin> set ?kept \<and> (if gm_has ?st d
        then \<exists>part. d \<in> set part \<and> length part \<le> max_compaction_removed \<and> record_published ap ss res ?flr part
        else \<exists>t t'. unverifiable ap ss res ?scope d t = (t', Inr True))"
      using d unfolding gone set_append
    proof
      assume "d \<in> set ?removed"
      with removed [OF this] rec show ?thesis by simp
    next
      assume "d \<in> set junk"
      with junk [OF this] show ?thesis by simp
    qed
  qed
qed

definition record_blob :: bytes where "record_blob = sample_sig @ ''3''"

lemma sample_record_signed:
  "sign_compaction sample_lib sample_compaction sample_signer = Inr record_blob"
  "verify_compaction sample_lib genesis_view ''w'' ''secrets/dev'' rv record_blob
     = (if dl_from_bytes sample_digest_lib record_blob = rv then Inr \<lparr>vc_compaction = sample_compaction, vc_digest = rv\<rparr> else Inl ErrInvalid)"
proof -
  have ok: "compaction_validate sample_lib sample_compaction = Inr ()"
    using founder_valid digests_differ valid_digest_from_bytes [OF sample_digest_lib_ok]
    by (simp add: compaction_validate_def sample_compaction_def max_compaction_removed_def genesis_digest_def child_digest_def)
  have sel: "cp_removed sample_compaction = [child_digest]" "cp_author sample_compaction = pr_id founder"
    "cp_control sample_compaction = genesis_digest" "cp_workspace sample_compaction = ''w''"
    "cp_resource sample_compaction = ''secrets/dev''"
    by (simp_all add: sample_compaction_def)
  have same: "sample_compaction\<lparr>cp_removed := [child_digest]\<rparr> = sample_compaction"
    by (simp add: sample_compaction_def)
  have m: "cd_marshal (wl_compaction sample_lib) sample_compaction = Some ''3''"
    "decode_canonical (wl_compaction sample_lib) ''3'' = Inr sample_compaction"
    by (simp_all add: sample_lib_def one_codec_def decode_canonical_Inr)
  show "sign_compaction sample_lib sample_compaction sample_signer = Inr record_blob"
    by (simp add: sign_compaction_def sel same sort_digests_def ok marshal_def m sample_signer_def signer_sign_def
        sample_encode record_blob_def)
  have g: "cv_get genesis_view genesis_digest = Some genesis_verified"
    by (simp add: genesis_view_def cv_get_def gm_get_def)
  have p: "control_principal (vf_control genesis_verified) (pr_id founder) = Some founder"
    by (simp add: genesis_verified_def genesis_control_def control_principal_def)
  have f: "pr_admin founder" "pr_signing founder = sample_key"
    by (simp_all add: founder_def del: sample_device)
  show "verify_compaction sample_lib genesis_view ''w'' ''secrets/dev'' rv record_blob
     = (if dl_from_bytes sample_digest_lib record_blob = rv then Inr \<lparr>vc_compaction = sample_compaction, vc_digest = rv\<rparr> else Inl ErrInvalid)"
    by (simp add: verify_compaction_def record_blob_def m ok sel g p f)
qed

text \<open>A view of two revisions without parents, read with the first as its only head.\<close>

definition two_read :: resource_read where
  "two_read = \<lparr>rr_view = sample_sv\<lparr>sv_graph := [(genesis_digest, []), (child_digest, [])],
       sv_states := [(genesis_digest, sample_revision), (child_digest, sample_revision)]\<rparr>,
     rr_heads = [sample_revision\<lparr>vs_digest := genesis_digest\<rparr>], rr_secrets = Some [], rr_conflicts = []\<rparr>"

lemma two_read_compacted:
  "compact_read sample_app opened_session ''secrets/dev'' 1 two_read ()
     = ((), Some \<lparr>cr_kept = 1, cr_removed = 0\<rparr>, Inl (Wrapping [storage_error_app (storage_cause SUnsupported)]))"
proof -
  have kept: "kept_revisions [(genesis_digest, []), (child_digest, [])] genesis_digest genesis_digest = [genesis_digest]"
    using digests_differ
    by (simp add: kept_revisions_def kept_loop.simps ancestors_def anc_loop.simps graph_has_def gm_has_def graph_parents_def
        gm_get_def kept_children_def)
  have sel: "ap_lib sample_app = sample_lib" "ss_store opened_session = member_store" "ss_workspace opened_session = ''w''"
    "ss_view opened_session = genesis_view" "ss_signer opened_session = sample_signer" "the_head opened_session = genesis_verified"
    "vf_digest genesis_verified = genesis_digest" "ss_self sample_lib opened_session = pr_id founder" "ap_now sample_app () = ((), 0)"
    by (simp_all add: sample_app_def opened_session_def the_head_def genesis_verified_def ss_self_def sample_signer_def)
  have c: "\<lparr>cp_workspace = ''w'', cp_resource = ''secrets/dev'', cp_floor = genesis_digest, cp_removed = [child_digest],
      cp_control = genesis_digest, cp_author = pr_id founder, cp_created_at = 0\<rparr> = sample_compaction"
    by (simp add: sample_compaction_def)
  have store: "so_discover member_store k sc () = ((), Inr [])" "so_publish member_store ob () = ((), Inr ())"
    "so_delete member_store k sc rv () = ((), Inl SUnsupported)" for k sc ob rv
    by (simp_all add: member_store_def genesis_store_def sample_store_def)
  have "publish_record sample_app opened_session ''secrets/dev'' genesis_digest [child_digest] () = ((), Inr ())"
    by (simp add: publish_record_def act_defs sel c sample_record_signed store Let_def)
  then have "publish_records sample_app opened_session ''secrets/dev'' genesis_digest [child_digest] () = ((), Inr ())"
    by (subst publish_records.simps, subst publish_records.simps) (simp add: max_compaction_removed_def act_defs)
  then have "publish_compaction sample_app opened_session ''secrets/dev'' genesis_digest [child_digest] () = ((), Inr ())"
    by (simp add: publish_compaction_def sort_digests_def)
  then show ?thesis
    using digests_differ
    by (simp add: compact_read_def two_read_def compaction_floor_def kept sel act_defs store sort_digests_def Let_def)
qed

theorem compaction_records_first_witness:
  "\<exists>gone s1. delete_loop member_store (state_scope sample_crypto ''w'' ''secrets/dev'') gone 0 s1
     = ((), 0, Inl (Wrapping [storage_error_app (storage_cause SUnsupported)])) \<and> gone \<noteq> []"
proof -
  have "ap_lib sample_app = sample_lib" "ss_store opened_session = member_store" "ss_workspace opened_session = ''w''"
    by (simp_all add: sample_app_def opened_session_def)
  then obtain gone s1 where d: "delete_loop member_store (state_scope sample_crypto ''w'' ''secrets/dev'') gone 0 s1
     = ((), 0, Inl (Wrapping [storage_error_app (storage_cause SUnsupported)]))"
    using compaction_records_first [OF two_read_compacted] by auto
  then have "gone \<noteq> []" by auto
  with d show ?thesis by blast
qed

end
