(* ===== verification/Pull.thy ===== *)
theory Pull
  imports History
begin

text \<open>
  Pulling the secrets of an environment into its output file, the second half of \<open>app/secrets.go\<close>.  The
  output file is its bytes or nothing; whether it can be read and written is given with it.
\<close>

text \<open>\<open>keptMarker\<close>.\<close>

definition kept_marker :: string where
  "kept_marker = ''# Local variables below are kept by enbu pull; enbu does not store them (pull --replace drops them):''"

text \<open>\<open>strings.SplitAfter(s, "\n")\<close>: the lines with their line ends; the last one has none.\<close>

fun split_after_loop :: "bytes \<Rightarrow> bytes \<Rightarrow> bytes list" where
  "split_after_loop [] cur = [cur]"
| "split_after_loop (c # s) cur =
     (if c = newline then (cur @ [c]) # split_after_loop s [] else split_after_loop s (cur @ [c]))"

definition split_after :: "bytes \<Rightarrow> bytes list" where
  "split_after s = split_after_loop s []"

definition is_marker :: "bytes \<Rightarrow> bool" where
  "is_marker line \<longleftrightarrow> trim_right [carriage_return, newline] line = kept_marker"

text \<open>The loop over the lines, with the lines before.\<close>

fun marker_loop :: "bytes list \<Rightarrow> bytes list \<Rightarrow> (bytes \<times> bytes) option" where
  "marker_loop past [] = None"
| "marker_loop past (l # ls) =
     (if is_marker l then Some (concat past, concat ls) else marker_loop (past @ [l]) ls)"

definition split_at_marker :: "bytes \<Rightarrow> bytes \<times> bytes \<times> bool" where
  "split_at_marker file =
     (case marker_loop [] (split_after file) of
        None \<Rightarrow> ([], file, False)
      | Some (pulled, local1) \<Rightarrow> (pulled, local1, True))"

definition pulled_text :: "bytes \<Rightarrow> bytes" where
  "pulled_text dotenv = dotenv @ newline # kept_marker @ [newline]"

definition unreadable_error :: "string \<Rightarrow> go_error" where
  "unreadable_error name = app_wrap CodeOutputUnreadable (Some (Plain CauseOther)) [(''file'', name)]"

text \<open>
  The variables of the file that is there: those that an earlier pull wrote, those that are local, and
  whether it has a marker.
\<close>

definition existing_vars :: "string \<Rightarrow> bytes \<Rightarrow> (secrets \<times> secrets \<times> bool) app_result" where
  "existing_vars name existing =
     (case split_at_marker existing of
        (pulled, local1, marked) \<Rightarrow>
          (case import_dotenv pulled of
             Inl e \<Rightarrow> Inl (unreadable_error name)
           | Inr previous \<Rightarrow>
               (case import_dotenv local1 of
                  Inl e \<Rightarrow> Inl (unreadable_error name)
                | Inr vars \<Rightarrow> Inr (previous, vars, marked))))"

text \<open>Without a marker, the keys that enbu once held move from the local ones to the earlier ones.\<close>

definition move_stored :: "secrets \<Rightarrow> string list \<Rightarrow> secrets \<times> secrets \<Rightarrow> secrets \<times> secrets" where
  "move_stored secrets ever pv =
     (case pv of (previous, vars) \<Rightarrow>
        (foldl (\<lambda>m (k, v). gm_put k v m) previous
           (filter (\<lambda>(k, v). \<not> gm_has secrets k \<and> k \<in> set ever) vars),
         filter (\<lambda>(k, v). gm_has secrets k \<or> k \<notin> set ever) vars))"

definition sort_out_vars ::
  "secrets \<Rightarrow> ('s, string list) act \<Rightarrow> secrets \<times> secrets \<times> bool \<Rightarrow> ('s, secrets \<times> secrets) act" where
  "sort_out_vars secrets ever_stored pvm =
     (case pvm of (previous, vars, marked) \<Rightarrow>
        if marked \<or> list_all (\<lambda>(k, v). gm_has secrets k) vars then act_ok (previous, vars)
        else act_bind (act_try ever_stored) (\<lambda>r.
               act_ok (move_stored secrets (case r of Inl e \<Rightarrow> [] | Inr ks \<Rightarrow> ks) (previous, vars))))"

record pulled_file =
  pf_data :: bytes
  pf_kept :: "string list"
  pf_removed :: "string list"

text \<open>The file that is written for the variables that were sorted out.\<close>

definition render_local :: "bytes \<Rightarrow> secrets \<Rightarrow> secrets \<times> secrets \<Rightarrow> pulled_file app_result" where
  "render_local data secrets pv =
     (case pv of (previous, vars) \<Rightarrow>
        let removed = sort (filter (\<lambda>k. \<not> gm_has secrets k) (map fst previous));
            keep = filter (\<lambda>(k, v). \<not> gm_has secrets k) vars
        in if keep = [] then Inr \<lparr>pf_data = data, pf_kept = [], pf_removed = removed\<rparr>
           else case to_dot_env keep of
             None \<Rightarrow> Inl (Plain CauseOther)
           | Some extra \<Rightarrow> Inr \<lparr>pf_data = data @ extra, pf_kept = sort (map fst keep), pf_removed = removed\<rparr>)"

definition dotenv_with_local ::
  "string \<Rightarrow> local_file app_result \<Rightarrow> secrets \<Rightarrow> bool \<Rightarrow> ('s, string list) act \<Rightarrow> ('s, pulled_file) act" where
  "dotenv_with_local name file secrets replace ever_stored =
     (case to_dot_env secrets of
        None \<Rightarrow> act_fail (Plain CauseOther)
      | Some dotenv \<Rightarrow>
          let data = pulled_text dotenv; alone = \<lparr>pf_data = data, pf_kept = [], pf_removed = []\<rparr>
          in if replace then act_ok alone
             else case file of
               Inl e \<Rightarrow> act_fail (Wrapping [e])
             | Inr None \<Rightarrow> act_ok alone
             | Inr (Some existing) \<Rightarrow>
                 act_bind (act_pure (existing_vars name existing)) (\<lambda>pvm.
                 act_bind (sort_out_vars secrets ever_stored pvm) (\<lambda>pv. act_pure (render_local data secrets pv))))"

subsection \<open>The operations\<close>

record pulled_secrets =
  ps_environment :: string
  ps_output :: string
  ps_secrets :: env_map

definition pull_secrets_data :: "'s app \<Rightarrow> string \<Rightarrow> ('s, pulled_secrets) act" where
  "pull_secrets_data ap env =
     act_bind (resolve_env ap env) (\<lambda>resolved.
     act_bind (open_session ap) (\<lambda>ss.
     act_bind (act_map_err (\<lambda>e. Wrapping [e]) (read_resource ap ss (ss_resource ss (re_name resolved)) [] True [])) (\<lambda>rd.
       case conflict_error (rr_conflicts rd) of
         Some e \<Rightarrow> act_fail e
       | None \<Rightarrow> act_ok \<lparr>ps_environment = re_name resolved, ps_output = re_output resolved, ps_secrets = rr_secrets rd\<rparr>)))"

definition pull_secrets :: "'s app \<Rightarrow> string \<Rightarrow> ('s, bytes \<times> string \<times> nat) act" where
  "pull_secrets ap env =
     normalized (act_bind (pull_secrets_data ap env) (\<lambda>r.
       case to_dot_env (map_entries (ps_secrets r)) of
         None \<Rightarrow> act_fail (Plain CauseOther)
       | Some dotenv \<Rightarrow> act_ok (dotenv, ps_output r, length (map_entries (ps_secrets r)))))"

text \<open>Every key that a retained revision held, as far as this device can decrypt.\<close>

fun collect_keys :: "'s app \<Rightarrow> 's session \<Rightarrow> (digest, verified_state) gomap \<Rightarrow> digest list \<Rightarrow> string list \<Rightarrow> ('s, string list) act" where
  "collect_keys ap ss history [] keys = act_ok keys"
| "collect_keys ap ss history (d # ds) keys =
     act_bind (act_try (ss_decrypt_state ap ss (the (gm_get history d)))) (\<lambda>r.
       case r of
         Inr m \<Rightarrow> collect_keys ap ss history ds (keys @ map fst (map_entries m))
       | Inl e \<Rightarrow> if errors_is CauseNoMatch e then collect_keys ap ss history ds keys else act_fail e)"

definition stored_keys :: "'s app \<Rightarrow> string \<Rightarrow> ('s, string list) act" where
  "stored_keys ap env =
     act_bind (resolve_env ap env) (\<lambda>resolved.
     act_bind (open_session ap) (\<lambda>ss.
       let res = ss_resource ss (re_name resolved)
       in act_bind (load_resource (ap_lib ap) ss res []) (\<lambda>sv.
          act_bind (lift_wsp (co_accepted (ss_cps ss) res)) (\<lambda>accepted.
            let history = history_states sv (trusted_heads (ap_lib ap) ss sv accepted)
            in collect_keys ap ss history (sort (map fst history)) []))))"

record written_file =
  wf_output :: string
  wf_count :: nat
  wf_kept :: "string list"
  wf_removed :: "string list"

text \<open>The output files: their contents by path, and writing one (\<open>Inl\<close> with what a failure leaves).\<close>

record 's output_files =
  of_read :: "string \<Rightarrow> ('s, local_file) act"
  of_write :: "string \<Rightarrow> bytes \<Rightarrow> ('s, unit) act"

definition output_path :: "string \<Rightarrow> string \<Rightarrow> string" where
  "output_path repo output = (if repo \<noteq> [] \<and> \<not> is_abs output then join_path repo output else output)"

definition pull_to_file_with ::
  "'s app \<Rightarrow> 's output_files \<Rightarrow> string \<Rightarrow> string \<Rightarrow> bool \<Rightarrow> ('s, written_file) act" where
  "pull_to_file_with ap files repo env replace =
     normalized (act_bind (pull_secrets_data ap env) (\<lambda>result.
       let path = output_path repo (ps_output result); secrets = map_entries (ps_secrets result)
       in act_bind (if replace then act_ok (Inr None) else act_try (of_read files path)) (\<lambda>file.
          act_bind (dotenv_with_local path file secrets replace (stored_keys ap (ps_environment result))) (\<lambda>out.
          act_bind (act_map_err (\<lambda>e. Wrapping [e]) (of_write files path (pf_data out))) (\<lambda>_.
            act_ok \<lparr>wf_output = ps_output result, wf_count = length secrets,
                    wf_kept = pf_kept out, wf_removed = pf_removed out\<rparr>)))))"

end
