(* ===== verification/Members.thy ===== *)
theory Members
  imports Secrets
begin

text \<open>
  The members of a workspace, \<open>app/members.go\<close> and \<open>app/upgrade.go\<close>: listing them and the requests to join,
  approving, removing, granting and revoking, joining a fork, and re-encrypting every environment for
  the new members.
\<close>

definition max_join_requests :: nat where "max_join_requests = 256"
definition max_examined_scopes :: nat where "max_examined_scopes = 256"
definition max_resource_probes :: nat where "max_resource_probes = 16"

record member_info =
  mi_device :: string
  mi_fingerprint :: string
  mi_recipient :: string
  mi_algorithm :: string
  mi_admin :: bool
  mi_self :: bool
  mi_post_quantum :: bool

record join_request_info =
  ji_device :: string
  ji_fingerprint :: string
  ji_recipient :: string
  ji_algorithm :: string
  ji_requested_at :: int
  ji_key_update :: bool

subsection \<open>Listing\<close>

text \<open>\<open>self\<close> is this device's id, or empty when it cannot be read (\<open>selfDevice\<close>).\<close>

definition list_members :: "'s app \<Rightarrow> string \<Rightarrow> ('s, member_info list) act" where
  "list_members ap self =
     normalized (act_bind (open_control ap) (\<lambda>ss.
       act_ok (map (\<lambda>p. \<lparr>mi_device = pr_id p, mi_fingerprint = fingerprint (pr_id p), mi_recipient = pr_recipient p,
           mi_algorithm = pk_alg (pr_signing p), mi_admin = pr_admin p, mi_self = (pr_id p = self),
           mi_post_quantum = is_post_quantum (pr_recipient p)\<rparr>)
         (ct_principals (vf_control (the_head ss))))))"

definition pq_device :: "wsp_lib \<Rightarrow> pending_request \<Rightarrow> string" where
  "pq_device lib p = request_device lib (pq_request p)"

text \<open>
  Whether a request is pending: one of a device that is no member and asks to join, or a member's update of
  the recipient it has now.
\<close>

definition is_pending :: "wsp_lib \<Rightarrow> control \<Rightarrow> pending_request \<Rightarrow> bool" where
  "is_pending lib c p \<longleftrightarrow>
     (case control_principal c (pq_device lib p) of
        Some current \<Rightarrow> jr_replaces (pq_request p) \<noteq> [] \<and> jr_replaces (pq_request p) = pr_recipient current
      | None \<Rightarrow> jr_replaces (pq_request p) = [])"

fun pending_loop ::
  "wsp_lib \<Rightarrow> control \<Rightarrow> pending_request list \<Rightarrow> (string \<times> string) list \<Rightarrow> pending_request list \<Rightarrow> pending_request list" where
  "pending_loop lib c [] seen out = out"
| "pending_loop lib c (p # ps) seen out =
     (let k = (pq_device lib p, jr_recipient (pq_request p))
      in if \<not> is_pending lib c p \<or> k \<in> set seen then pending_loop lib c ps seen out
         else pending_loop lib c ps (k # seen) (out @ [p]))"

definition pending_requests :: "wsp_lib \<Rightarrow> ('s, 'z) control_session_scheme \<Rightarrow> ('s, pending_request list) act" where
  "pending_requests lib ss =
     act_bind (act_map_err wsp_error_app (lift_wsp (list_join_requests lib (ss_store ss) (ss_workspace ss)))) (\<lambda>all.
       act_ok (pending_loop lib (vf_control (the_head ss)) all [] []))"

definition request_info :: "wsp_lib \<Rightarrow> pending_request \<Rightarrow> join_request_info" where
  "request_info lib p =
     \<lparr>ji_device = pq_device lib p, ji_fingerprint = fingerprint (pq_device lib p), ji_recipient = jr_recipient (pq_request p),
      ji_algorithm = pk_alg (jr_signing (pq_request p)), ji_requested_at = jr_created_at (pq_request p),
      ji_key_update = (jr_replaces (pq_request p) \<noteq> [])\<rparr>"

definition list_join_infos :: "'s app \<Rightarrow> ('s, join_request_info list) act" where
  "list_join_infos ap =
     normalized (act_bind (open_control ap) (\<lambda>ss.
       act_bind (pending_requests (ap_lib ap) ss) (\<lambda>pending.
         act_ok (sort_key (\<lambda>i. (- ji_requested_at i, ji_device i, ji_recipient i))
           (map (request_info (ap_lib ap)) (take max_join_requests pending))))))"

definition request_for ::
  "wsp_lib \<Rightarrow> ('s, 'z) control_session_scheme \<Rightarrow> string \<Rightarrow> ('s, pending_request) act" where
  "request_for lib ss device =
     act_bind (pending_requests lib ss) (\<lambda>pending.
       case filter (\<lambda>p. pq_device lib p = device) pending of
         [] \<Rightarrow> act_fail (AppErr CodeInvalidArgument [] [Plain CauseNoRequest])
       | [p] \<Rightarrow> act_ok p
       | _ \<Rightarrow> act_fail (app_new CodeInvalidArgument []))"

subsection \<open>The environments to re-encrypt\<close>

record environment_resource =
  er_name :: string
  er_resource :: string

fun probe_scope ::
  "wsp_lib \<Rightarrow> ('s, 'z) control_session_scheme \<Rightarrow> string \<Rightarrow> digest list \<Rightarrow> ('s, string) act" where
  "probe_scope lib ss scope [] s = (s, Inr [])"
| "probe_scope lib ss scope (rv # rvs) s =
     (case so_fetch_head (ss_store ss) KindState scope rv s of
        (s', Inl e) \<Rightarrow>
          if e = SNotFound \<or> e = SCorrupt then probe_scope lib ss scope rvs s'
          else (s', Inl (storage_error_app (storage_cause e)))
      | (s', Inr head) \<Rightarrow>
          (case state_resource lib head of
             Inl e \<Rightarrow> probe_scope lib ss scope rvs s'
           | Inr (ws, res) \<Rightarrow>
               if ws \<noteq> ss_workspace ss \<or> \<not> starts_with ''secrets/'' res \<or> state_scope (wl_crypto lib) ws res \<noteq> scope
               then probe_scope lib ss scope rvs s' else (s', Inr res)))"

definition scope_resource ::
  "wsp_lib \<Rightarrow> ('s, 'z) control_session_scheme \<Rightarrow> string \<Rightarrow> ('s, string) act" where
  "scope_resource lib ss scope =
     act_bind (act_map_err storage_error_app (lift_storage (so_discover (ss_store ss) KindState scope))) (\<lambda>revs.
       probe_scope lib ss scope (take max_resource_probes revs))"

definition has_trusted_head :: "wsp_lib \<Rightarrow> 's session \<Rightarrow> string \<Rightarrow> ('s, bool) act" where
  "has_trusted_head lib ss res =
     act_bind (act_map_err wsp_error_app
         (lift_wsp (load_states lib (ss_store ss) (ss_view ss) (ss_workspace ss) res []))) (\<lambda>sv.
     act_bind (lift_wsp (co_accepted (ss_cps ss) res)) (\<lambda>accepted.
       act_ok (trusted_heads lib ss sv accepted \<noteq> [])))"

text \<open>The loop over the scopes: those examined, those left unexamined, and the resources found.\<close>

fun examine_scopes ::
  "wsp_lib \<Rightarrow> 's session \<Rightarrow> string list \<Rightarrow> string list \<Rightarrow> nat \<Rightarrow> nat \<Rightarrow> environment_resource list
    \<Rightarrow> ('s, environment_resource list \<times> nat) act" where
  "examine_scopes lib ss known [] examined unexamined out = act_ok (out, unexamined)"
| "examine_scopes lib ss known (sc # scs) examined unexamined out =
     (if sc \<in> set known then examine_scopes lib ss known scs examined unexamined out
      else if examined \<ge> max_examined_scopes then examine_scopes lib ss known scs examined (unexamined + 1) out
      else act_bind (scope_resource lib ss sc) (\<lambda>res.
             if res = [] then examine_scopes lib ss known scs (examined + 1) unexamined out
             else act_bind (has_trusted_head lib ss res) (\<lambda>trusted.
                    examine_scopes lib ss known scs (examined + 1) unexamined
                      (if trusted then out @ [\<lparr>er_name = res, er_resource = res\<rparr>] else out))))"

definition environment_resources ::
  "wsp_lib \<Rightarrow> 's session \<Rightarrow> ('s, environment_resource list \<times> nat) act" where
  "environment_resources lib ss =
     (let named = map (\<lambda>env. \<lparr>er_name = env, er_resource = ss_resource ss env\<rparr>) (environment_names (ss_cfg ss));
          known = map (\<lambda>r. state_scope (wl_crypto lib) (ss_workspace ss) (er_resource r)) named
      in act_bind (act_map_err storage_error_app (lift_storage (so_scopes (ss_store ss)))) (\<lambda>scopes.
           examine_scopes lib ss known scopes 0 0 named))"

text \<open>The loop of \<open>reencryptAll\<close> goes on after a failure and collects the errors.\<close>

fun reencrypt_loop :: "'s app \<Rightarrow> environment_resource list \<Rightarrow> go_error list \<Rightarrow> ('s, go_error list) act" where
  "reencrypt_loop ap [] errs = act_ok errs"
| "reencrypt_loop ap (t # ts) errs =
     act_bind (act_try (act_bind (open_session ap) (\<lambda>ss.
         change_resource ap ss (er_resource t) ''sync'' [] None no_change))) (\<lambda>r.
       reencrypt_loop ap ts (case r of Inl e \<Rightarrow> errs @ [Wrapping [e]] | Inr _ \<Rightarrow> errs))"

definition reencrypt_all :: "'s app \<Rightarrow> ('s, unit) act" where
  "reencrypt_all ap =
     act_bind (open_session ap) (\<lambda>ss.
     act_bind (environment_resources (ap_lib ap) ss) (\<lambda>(targets, unexamined).
     act_bind (reencrypt_loop ap targets (if unexamined > 0 then [Plain CauseOther] else [])) (\<lambda>errs.
       if errs \<noteq> [] then act_fail (Wrapping errs) else act_ok ())))"

fun accept_loop_states :: "'s app \<Rightarrow> 's session \<Rightarrow> environment_resource list \<Rightarrow> 's \<Rightarrow> 's" where
  "accept_loop_states ap ss [] s = s"
| "accept_loop_states ap ss (t # ts) s =
     accept_loop_states ap ss ts (fst (read_resource ap ss (er_resource t) [] True [] s))"

definition accept_current_states :: "'s app \<Rightarrow> 's \<Rightarrow> 's" where
  "accept_current_states ap s =
     (case act_bind (open_session ap) (\<lambda>ss.
           act_bind (environment_resources (ap_lib ap) ss) (\<lambda>(targets, _). act_ok (ss, targets))) s of
        (s', Inl e) \<Rightarrow> s'
      | (s', Inr (ss, targets)) \<Rightarrow> accept_loop_states ap ss targets s')"

subsection \<open>Changing the members\<close>

definition require_admin :: "control \<Rightarrow> control app_result" where
  "require_admin c = (if list_ex pr_admin (ct_principals c) then Inr c else Inl (app_new CodeInvalidArgument []))"

definition accept_control_head :: "'s app \<Rightarrow> verified \<Rightarrow> ('s, unit) act" where
  "accept_control_head ap v =
     act_bind (open_control_view ap) (\<lambda>ss.
       if cv_get (ss_view ss) (vf_digest v) = None then act_fail (wsp_error_app rollback_error) else act_ok ())"

text \<open>An \<open>*apperr.Error\<close> of the change keeps its code.\<close>

definition member_error :: "go_error \<Rightarrow> go_error" where
  "member_error e = (if find_app e \<noteq> None then e else wsp_error_app e)"

text \<open>
  \<open>changeMembers\<close>.  \<open>UpdateControl\<close> runs \<open>mutate\<close> on the next Control after checks that \<open>openSession\<close> and the
  check here have made already; the only effect of a \<open>mutate\<close> is to read the requests, so it is run first
  and its principals are put into the next Control.
\<close>

definition change_members ::
  "'s app \<Rightarrow> bool \<Rightarrow> ('s session \<Rightarrow> control \<Rightarrow> ('s, control) act) \<Rightarrow> ('s, unit) act" where
  "change_members ap reencrypt mutate =
     act_bind (open_session ap) (\<lambda>ss.
       case control_principal (vf_control (the_head ss)) (ss_self (ap_lib ap) ss) of
         None \<Rightarrow> act_fail (app_new CodeAccessDenied [])
       | Some p \<Rightarrow>
           if \<not> pr_admin p then act_fail (app_new CodeAccessDenied [])
           else
             act_bind (act_map_err member_error
                (act_bind (mutate ss (vf_control (the_head ss))) (\<lambda>c.
                   lift_wsp (update_control (ap_lib ap) (ss_store ss) (ss_view ss) (ss_signer ss)
                     (\<lambda>nxt. Inr (nxt\<lparr>ct_principals := ct_principals c\<rparr>)))))) (\<lambda>v.
             act_bind (accept_control_head ap v) (\<lambda>_.
               if \<not> reencrypt then act_ok ()
               else act_map_err (\<lambda>e. app_wrap CodeReencryptIncomplete (Some e) []) (reencrypt_all ap))))"

definition set_recipient :: "string \<Rightarrow> string \<Rightarrow> control \<Rightarrow> control" where
  "set_recipient device recipient c =
     c\<lparr>ct_principals := map (\<lambda>p. if pr_id p = device then p\<lparr>pr_recipient := recipient\<rparr> else p) (ct_principals c)\<rparr>"

definition approve_mutate :: "wsp_lib \<Rightarrow> string \<Rightarrow> 's session \<Rightarrow> control \<Rightarrow> ('s, control) act" where
  "approve_mutate lib device ss c =
     (let member = control_principal c device \<noteq> None
      in act_bind (act_map_err (\<lambda>e. if errors_is CauseNoRequest e \<and> member then app_new CodeInvalidArgument [] else e)
             (request_for lib ss device)) (\<lambda>req.
           if member then act_ok (set_recipient device (jr_recipient (pq_request req)) c)
           else act_ok (c\<lparr>ct_principals := ct_principals c @
               [\<lparr>pr_id = device, pr_signing = jr_signing (pq_request req), pr_recipient = jr_recipient (pq_request req),
                 pr_admin = False\<rparr>]\<rparr>)))"

definition approve_member :: "'s app \<Rightarrow> string \<Rightarrow> ('s, unit) act" where
  "approve_member ap device =
     normalized (if \<not> device_id_validate device then act_fail (app_new CodeInvalidArgument [])
       else change_members ap True (approve_mutate (ap_lib ap) device))"

definition remove_principal :: "string \<Rightarrow> control \<Rightarrow> control app_result" where
  "remove_principal device c =
     (let kept = filter (\<lambda>p. pr_id p \<noteq> device) (ct_principals c)
      in if length kept = length (ct_principals c) then Inl (app_new CodeInvalidArgument [])
         else require_admin (c\<lparr>ct_principals := kept\<rparr>))"

definition remove_member :: "'s app \<Rightarrow> string \<Rightarrow> ('s, unit) act" where
  "remove_member ap device =
     normalized (act_bind (\<lambda>s. (accept_current_states ap s, Inr ())) (\<lambda>_.
       change_members ap True (\<lambda>ss c. act_pure (remove_principal device c))))"

text \<open>The flag is set on the first principal with the id; ids are unique in a verified Control.\<close>

fun set_admin_loop :: "string \<Rightarrow> bool \<Rightarrow> principal list \<Rightarrow> principal list option" where
  "set_admin_loop device adm [] = None"
| "set_admin_loop device adm (p # ps) =
     (if pr_id p = device then Some (p\<lparr>pr_admin := adm\<rparr> # ps) else map_option ((#) p) (set_admin_loop device adm ps))"

definition set_admin_principal :: "string \<Rightarrow> bool \<Rightarrow> control \<Rightarrow> control app_result" where
  "set_admin_principal device adm c =
     (case set_admin_loop device adm (ct_principals c) of
        None \<Rightarrow> Inl (app_new CodeInvalidArgument [])
      | Some ps \<Rightarrow> require_admin (c\<lparr>ct_principals := ps\<rparr>))"

definition set_admin :: "'s app \<Rightarrow> string \<Rightarrow> bool \<Rightarrow> ('s, unit) act" where
  "set_admin ap device adm =
     normalized (change_members ap False (\<lambda>ss c. act_pure (set_admin_principal device adm c)))"

subsection \<open>Joining a fork\<close>

text \<open>What every head agrees on: the principals all of them list, admin where all of them say so.\<close>

definition common_principals :: "verified list \<Rightarrow> principal list \<Rightarrow> principal list" where
  "common_principals heads ps =
     concat (map (\<lambda>p.
       if list_all (\<lambda>h. control_principal (vf_control h) (pr_id p) \<noteq> None) heads
       then [p\<lparr>pr_admin := list_all (\<lambda>h. case control_principal (vf_control h) (pr_id p) of
                                          None \<Rightarrow> False | Some q \<Rightarrow> pr_admin q) heads\<rparr>]
       else []) ps)"

text \<open>The change that \<open>ResolveFork\<close> is given fails with \<open>ErrOther\<close> when no admin is left; \<open>wspError\<close> keeps it apart.\<close>

definition join_heads :: "verified list \<Rightarrow> control \<Rightarrow> wsp_error + control" where
  "join_heads heads c =
     (case require_admin (c\<lparr>ct_principals := common_principals heads (ct_principals c)\<rparr>) of
        Inl e \<Rightarrow> Inl ErrOther | Inr c' \<Rightarrow> Inr c')"

definition resolve_control_fork :: "'s app \<Rightarrow> ('s, unit) act" where
  "resolve_control_fork ap =
     normalized (act_bind (open_control_view ap) (\<lambda>ss.
       if ss_head ss \<noteq> None then act_fail (app_new CodeInvalidArgument [])
       else
         act_bind (act_map_err (\<lambda>e. identity_error_app (Wrapping [e])) (ap_load_signer ap (ss_workspace ss))) (\<lambda>sg.
           let author = device_id (wl_crypto (ap_lib ap)) (sg_public sg); heads = cv_heads (ss_view ss)
           in if \<not> list_all (\<lambda>h. case control_principal (vf_control h) author of
                                None \<Rightarrow> False | Some p \<Rightarrow> pr_admin p) heads
              then act_fail (app_new CodeAccessDenied [])
              else
                act_bind (act_map_err wsp_error_app (lift_wsp
                    (resolve_fork (ap_lib ap) (ss_store ss) (ss_view ss) sg (join_heads heads)))) (\<lambda>_.
                  act_map_err (\<lambda>e. app_wrap CodeReencryptIncomplete (Some e) []) (reencrypt_all ap)))))"

end
