(* ===== verification/Founding.thy ===== *)
theory Founding
  imports Members
begin

text \<open>
  Setting up a repository, \<open>app/init.go\<close>: founding a workspace so that an interrupted founding can be resumed,
  verifying the one that \<open>enbu.toml\<close> names, and asking to join it; the storage that is opened
  (\<open>openStorage\<close> of \<open>app/app.go\<close>); and changing this device's key (\<open>UpgradeIdentity\<close> of
  \<open>app/upgrade.go\<close>).

  \<open>init_env\<close> adds to \<open>app\<close> what only these operations use: the founding records (files named by
  \<open>pendingGenesisPath\<close>, replaced atomically through a synced temporary file), their JSON codec, new
  identifiers and new keys.
\<close>

subsection \<open>The storage\<close>

text \<open>The parts of a parsed URL that the code reads; parsing is \<open>net/url\<close>'s.\<close>

record storage_url =
  ur_scheme :: string
  ur_host :: string
  ur_path :: string
  ur_user :: bool
  ur_query :: string
  ur_fragment :: string

text \<open>Which store is opened: a directory, a bucket with its prefix, or a registry repository.\<close>

datatype storage_choice =
  UseLocal storage_url
| UseS3 string string string string bool
| UseOci string bool bool bool

definition trim_slashes :: "string \<Rightarrow> string" where
  "trim_slashes s = rev (dropWhile (\<lambda>c. c = CHR ''/'') (rev (dropWhile (\<lambda>c. c = CHR ''/'') s)))"

text \<open>\<open>GHCRPackagesFor\<close>: whether versions can be deleted, and of which owner's package.\<close>

definition ghcr_packages_for :: "string \<Rightarrow> (string \<times> string) option" where
  "ghcr_packages_for ref =
     (let host = before CHR ''/'' ref; path = after CHR ''/'' ref;
          owner = before CHR ''/'' path; pkg = after CHR ''/'' path
      in if CHR ''/'' \<notin> set ref \<or> host \<noteq> ''ghcr.io'' then None
         else if CHR ''/'' \<notin> set path \<or> owner = [] \<or> pkg = [] then None
         else Some (owner, pkg))"

text \<open>\<open>s3_ok\<close> is the result of \<open>NewS3Client\<close>.\<close>

definition open_storage ::
  "(string \<Rightarrow> storage_url option) \<Rightarrow> (storage_config \<Rightarrow> bool) \<Rightarrow> string \<Rightarrow> storage_config \<Rightarrow> storage_choice app_result" where
  "open_storage parse s3_ok flag_url settings0 =
     (let settings = (if flag_url \<noteq> [] then settings0\<lparr>sc_url := flag_url\<rparr> else settings0)
      in case parse (sc_url settings) of
           None \<Rightarrow> Inl (Plain CauseOther)
         | Some u \<Rightarrow>
             if ur_user u \<or> ur_query u \<noteq> [] \<or> ur_fragment u \<noteq> [] then Inl (app_new CodeInvalidArgument [])
             else if ur_scheme u = ''local'' then Inr (UseLocal u)
             else if ur_scheme u = ''s3''
             then (if ur_host u = [] then Inl (app_new CodeInvalidArgument [])
                   else if \<not> s3_ok settings then Inl (app_wrap CodeInvalidArgument (Some (Plain CauseOther)) [])
                   else Inr (UseS3 (ur_host u) (trim_slashes (ur_path u)) (sc_endpoint settings) (sc_region settings)
                          (sc_path_style settings)))
             else if ur_scheme u = ''oci''
             then Inr (UseOci (ur_host u @ ur_path u) (sc_plain_http settings) (ur_host u = ''ghcr.io'')
                    (ur_host u = ''ghcr.io'' \<and> ghcr_packages_for (ur_host u @ ur_path u) \<noteq> None))
             else Inl (app_new CodeInvalidArgument []))"

subsection \<open>The storage of a new workspace\<close>

definition lower_char :: "char \<Rightarrow> char" where
  "lower_char c = (if in_range (code CHR ''A'') (code CHR ''Z'') c then char_of (code c + 32) else c)"

definition repo_char :: "char \<Rightarrow> bool" where
  "repo_char c \<longleftrightarrow> in_range (code CHR ''a'') (code CHR ''z'') c \<or> in_range (code CHR ''0'') (code CHR ''9'') c"

text \<open>
  \<open>ociRepositoryName\<close>.  The state of the match: at the start of a path element, inside a run of letters and
  digits, or after one of the separators of an element, of which a dot, one or two underscores and any number
  of hyphens are allowed between two runs.
\<close>

datatype repo_state = RepoStart | RepoRun | RepoDot | RepoUnder | RepoUnder2 | RepoHyphen

fun repo_step :: "repo_state \<Rightarrow> char \<Rightarrow> repo_state option" where
  "repo_step RepoStart c = (if repo_char c then Some RepoRun else None)"
| "repo_step RepoRun c =
     (if repo_char c then Some RepoRun
      else if c = CHR ''.'' then Some RepoDot
      else if c = CHR ''_'' then Some RepoUnder
      else if c = CHR ''-'' then Some RepoHyphen
      else if c = CHR ''/'' then Some RepoStart else None)"
| "repo_step RepoDot c = (if repo_char c then Some RepoRun else None)"
| "repo_step RepoUnder c = (if repo_char c then Some RepoRun else if c = CHR ''_'' then Some RepoUnder2 else None)"
| "repo_step RepoUnder2 c = (if repo_char c then Some RepoRun else None)"
| "repo_step RepoHyphen c = (if repo_char c then Some RepoRun else if c = CHR ''-'' then Some RepoHyphen else None)"

fun repo_match :: "repo_state \<Rightarrow> string \<Rightarrow> bool" where
  "repo_match q [] = (q = RepoRun)"
| "repo_match q (c # s) = (case repo_step q c of None \<Rightarrow> False | Some q' \<Rightarrow> repo_match q' s)"

definition oci_repository_name :: "string \<Rightarrow> bool" where
  "oci_repository_name s = repo_match RepoStart s"

text \<open>\<open>strings.ToLower\<close> on ASCII; \<open>found\<close> is what the origin remote names.\<close>

definition default_storage_url :: "(string \<times> string) app_result \<Rightarrow> string app_result" where
  "default_storage_url found =
     (case found of
        Inl e \<Rightarrow> Inl (app_wrap CodeInvalidArgument (Some e) [])
      | Inr (owner, repo) \<Rightarrow>
          let path = map lower_char owner @ ''/'' @ map lower_char repo @ ''-enbu''
          in if \<not> oci_repository_name path then Inl (app_new CodeInvalidArgument [])
             else Inr (''oci://ghcr.io/'' @ path))"

subsection \<open>What setting up uses\<close>

record pending_founding =
  pn_root :: root
  pn_repository :: string
  pn_previous_repo :: root
  pn_genesis :: bytes

record new_identity =
  ni_recipient :: string
  ni_created :: bool
  ni_warning :: string
  ni_decrypt :: "bytes \<Rightarrow> bytes app_result"

record 's init_env =
  su_app :: "'s app"
  su_accept_new :: bool
  su_new_id :: "'s \<Rightarrow> 's \<times> string"
  su_store :: "project_config \<Rightarrow> 's store_ops app_result"
  su_init_storage :: "storage_config option"
  su_storage_url :: string
  su_load_repo :: "('s, string \<times> string) act"
  su_config_path :: "string app_result"
  su_checkpoint_dir :: string
  su_read_pending :: "string \<Rightarrow> ('s, local_file) act"
  su_write_pending :: "string \<Rightarrow> bytes \<Rightarrow> ('s, unit) act"
  su_remove_pending :: "string \<Rightarrow> 's \<Rightarrow> 's"
  su_encode :: "pending_founding \<Rightarrow> bytes option"
  su_decode :: "bytes \<Rightarrow> pending_founding option"
  su_create_identity :: "string \<Rightarrow> ('s, new_identity) act"
  su_create_signer :: "string \<Rightarrow> ('s, signer \<times> string) act"

definition su_lib :: "'s init_env \<Rightarrow> wsp_lib" where
  "su_lib su = ap_lib (su_app su)"

definition pending_genesis_path :: "'s init_env \<Rightarrow> string \<Rightarrow> digest \<Rightarrow> string app_result" where
  "pending_genesis_path su ws genesis =
     res_bind (su_config_path su) (\<lambda>path.
       Inr (su_checkpoint_dir su @ ''/founding/''
         @ hex_encode (cr_sha256 (wl_crypto (su_lib su)) (ws @ [CHR 0x00] @ path @ [CHR 0x00] @ genesis)) @ ''.json''))"

text \<open>The pin of the checkout, or no root when its path is not known.\<close>

definition repo_pinned :: "'s init_env \<Rightarrow> ('s, root) act" where
  "repo_pinned su =
     (case ap_repo_trust (su_app su) of None \<Rightarrow> act_ok zero_root | Some t \<Rightarrow> lift_trust (to_pinned t))"

definition root_changed :: "root \<Rightarrow> root \<Rightarrow> go_error" where
  "root_changed pinned configured = wsp_error_app (trust_cause (TrustRootChanged pinned configured))"

subsection \<open>Founding\<close>

text \<open>The storage may hold no workspace yet.\<close>

fun storage_unused :: "'s store_ops \<Rightarrow> kind list \<Rightarrow> ('s, unit) act" where
  "storage_unused st [] = act_ok ()"
| "storage_unused st (k # ks) =
     act_bind (act_map_err storage_error_app (lift_storage (so_discover st k []))) (\<lambda>revs.
       if revs \<noteq> [] then act_fail (app_new CodeIncompatibleStorage []) else storage_unused st ks)"

text \<open>
  The first part of \<open>ensureControl\<close>: sign a genesis, keep its exact bytes in a founding record, and only
  then name it in \<open>enbu.toml\<close>.  Nothing is published here.
\<close>

definition found_workspace ::
  "'s init_env \<Rightarrow> 's store_ops \<Rightarrow> project_config \<Rightarrow> string \<Rightarrow> principal \<Rightarrow> signer \<Rightarrow> ('s, project_config) act" where
  "found_workspace su st cfg ws fnd sg =
     (if su_accept_new su then act_fail (app_new CodeInvalidArgument [])
      else
        act_bind (lift_trust (to_pinned (ap_trust (su_app su) ws))) (\<lambda>pinned.
        if pinned \<noteq> zero_root then act_fail (root_changed pinned \<lparr>rt_workspace = ws, rt_genesis = []\<rparr>)
        else
          act_bind (storage_unused st [KindControl, KindRequest]) (\<lambda>_.
          act_bind (lift_wsp (\<lambda>s. (s, new_genesis (su_lib su) ws fnd sg))) (\<lambda>(blob, genesis).
          act_bind (act_pure (pending_genesis_path su ws genesis)) (\<lambda>path.
          act_bind (repo_pinned su) (\<lambda>previous_repo.
          act_bind (act_pure (su_config_path su)) (\<lambda>repository.
          act_bind (act_pure (case su_encode su \<lparr>pn_root = \<lparr>rt_workspace = ws, rt_genesis = genesis\<rparr>, pn_repository = repository,
                 pn_previous_repo = previous_repo, pn_genesis = blob\<rparr> of
               None \<Rightarrow> Inl (Plain CauseOther) | Some b \<Rightarrow> Inr b)) (\<lambda>pending.
          act_bind (su_write_pending su path pending) (\<lambda>_.
            let cfg = cfg\<lparr>pc_control_genesis := genesis\<rparr>
            in act_bind (ap_save_project (su_app su) cfg) (\<lambda>_. act_ok cfg))))))))))"

text \<open>
  The second part: a founding record of this workspace in this checkout authorizes publishing the genesis it
  holds, and moving the pin of the checkout from the root it names.  The result says whether there was a
  record, whether this founds, and the root the pin of the checkout must still be.
\<close>

definition resume_founding ::
  "'s init_env \<Rightarrow> 's store_ops \<Rightarrow> string \<Rightarrow> digest \<Rightarrow> bytes \<Rightarrow> ('s, bool \<times> root option) act" where
  "resume_founding su st ws genesis data =
     (let root = \<lparr>rt_workspace = ws, rt_genesis = genesis\<rparr>
      in act_bind (act_pure (su_config_path su)) (\<lambda>repository.
         case su_decode su data of
           None \<Rightarrow> act_fail (app_new CodeUntrusted [])
         | Some pending \<Rightarrow>
             if pn_root pending \<noteq> root \<or> pn_repository pending \<noteq> repository then act_fail (app_new CodeUntrusted [])
             else
               act_bind (act_map_err wsp_error_app
                  (lift_wsp (\<lambda>s. (s, verify_genesis (su_lib su) ws (pn_genesis pending) genesis)))) (\<lambda>_.
               act_bind (lift_trust (to_pinned (ap_trust (su_app su) ws))) (\<lambda>pinned.
               if \<not> su_accept_new su \<and> pinned \<noteq> zero_root \<and> pinned \<noteq> root then act_fail (root_changed pinned root)
               else
                 act_bind (repo_pinned su) (\<lambda>repo_pin.
                 if \<not> su_accept_new su \<and> repo_pin \<noteq> root \<and> repo_pin \<noteq> pn_previous_repo pending
                 then act_fail (root_changed repo_pin root)
                 else
                   act_bind
                     (if pinned \<noteq> root
                      then act_map_err storage_error_app (lift_wsp (publish_control (su_lib su) st (pn_genesis pending)))
                      else act_ok ()) (\<lambda>_.
                   let founded = \<not> su_accept_new su \<and> (pinned \<noteq> root \<or> repo_pin \<noteq> root)
                   in act_ok (founded, if founded then Some (pn_previous_repo pending) else None)))))))"

record 's ensured =
  en_cfg :: project_config
  en_cps :: "'s cps_ops"
  en_view :: control_view
  en_head :: "verified option"
  en_founded :: bool
  en_replaced :: root

definition ensure_control ::
  "'s init_env \<Rightarrow> 's store_ops \<Rightarrow> project_config \<Rightarrow> string \<Rightarrow> principal \<Rightarrow> signer \<Rightarrow> ('s, 's ensured) act" where
  "ensure_control su st cfg0 ws fnd sg =
     act_bind (if pc_control_genesis cfg0 = [] then found_workspace su st cfg0 ws fnd sg else act_ok cfg0) (\<lambda>cfg.
     act_bind (act_pure (pending_genesis_path su ws (pc_control_genesis cfg))) (\<lambda>path.
     act_bind (su_read_pending su path) (\<lambda>file.
     act_bind (case file of
         None \<Rightarrow> act_ok (pc_control_genesis cfg0 = [], None)
       | Some data \<Rightarrow> resume_founding su st ws (pc_control_genesis cfg) data) (\<lambda>(founded, founding_repo).
     act_bind (verify_control (su_app su) st cfg ws (su_accept_new su) founded founding_repo) (\<lambda>(cps, view, head, replaced).
     act_bind (\<lambda>s. (if file \<noteq> None then su_remove_pending su path s else s, Inr ())) (\<lambda>_.
       act_ok \<lparr>en_cfg = cfg, en_cps = cps, en_view = view, en_head = head, en_founded = founded,
               en_replaced = replaced\<rparr>))))))"

subsection \<open>Setting up a repository\<close>

datatype init_mode = ModeInitialize | ModeJoin

record init_result =
  in_public_key :: string
  in_environment :: string
  in_workspace :: string
  in_genesis :: digest
  in_storage :: string
  in_key_created :: bool
  in_mode :: init_mode
  in_has_secrets :: bool
  in_can_decrypt :: "bool option"
  in_device :: string
  in_founded :: bool
  in_pending :: bool
  in_replaced :: digest
  in_warnings :: "string list"

text \<open>The configuration to start from: a new project with \<open>True\<close> when there is no \<open>enbu.toml\<close>, else its contents.\<close>

definition init_config :: "'s init_env \<Rightarrow> ('s, bool \<times> project_config) act" where
  "init_config su =
     act_bind (act_try (ap_load_project (su_app su))) (\<lambda>r.
     act_bind (case r of
         Inr cfg \<Rightarrow> act_ok (False, cfg)
       | Inl e \<Rightarrow>
           if \<not> app_is e CodeConfigNotFound then act_fail e
           else (\<lambda>s. case su_new_id su s of (s1, env_id) \<Rightarrow> case su_new_id su s1 of (s2, ws_id) \<Rightarrow>
                  (s2, Inr (True, new_project env_id ws_id ''default'')))) (\<lambda>(fresh, cfg).
       let cfg = (case su_init_storage su of None \<Rightarrow> cfg | Some sc \<Rightarrow> cfg\<lparr>pc_storage := sc\<rparr>);
           cfg = (if su_storage_url su \<noteq> [] then cfg\<lparr>pc_storage := (pc_storage cfg)\<lparr>sc_url := su_storage_url su\<rparr>\<rparr> else cfg)
       in if sc_url (pc_storage cfg) \<noteq> [] then act_ok (fresh, cfg)
          else act_bind (act_try (su_load_repo su)) (\<lambda>found.
               act_bind (act_pure (default_storage_url found)) (\<lambda>url.
                 act_ok (fresh, cfg\<lparr>pc_storage := (pc_storage cfg)\<lparr>sc_url := url\<rparr>\<rparr>)))))"

text \<open>A device that is not listed removes its own requests for other recipients, and asks again.\<close>

definition obsolete_request :: "wsp_lib \<Rightarrow> string \<Rightarrow> string \<Rightarrow> pending_request \<Rightarrow> bool" where
  "obsolete_request lib device recipient p \<longleftrightarrow>
     pq_device lib p = device \<and> jr_replaces (pq_request p) = [] \<and> jr_recipient (pq_request p) \<noteq> recipient"

fun delete_requests :: "'s store_ops \<Rightarrow> pending_request list \<Rightarrow> ('s, unit) act" where
  "delete_requests st [] s = (s, Inr ())"
| "delete_requests st (p # ps) s =
     (case so_delete st KindRequest [] (pq_rv p) s of
        (s', Inl e) \<Rightarrow>
          if e = SUnsupported \<or> e = SNotFound then delete_requests st ps s'
          else (s', Inl (storage_error_app (storage_cause e)))
      | (s', Inr _) \<Rightarrow> delete_requests st ps s')"

definition publish_request :: "wsp_lib \<Rightarrow> 's store_ops \<Rightarrow> bytes \<Rightarrow> ('s, unit) act" where
  "publish_request lib st blob =
     act_map_err storage_error_app (lift_wsp (\<lambda>s. case publish_join_request lib st blob s of (s', rv, r) \<Rightarrow> (s', r)))"

definition ask_to_join :: "'s init_env \<Rightarrow> 's store_ops \<Rightarrow> string \<Rightarrow> string \<Rightarrow> signer \<Rightarrow> ('s, unit) act" where
  "ask_to_join su st ws recipient sg =
     (let lib = su_lib su; device = device_id (wl_crypto lib) (sg_public sg)
      in act_bind (act_map_err wsp_error_app (lift_wsp (list_join_requests lib st ws))) (\<lambda>requests.
         act_bind (delete_requests st (filter (obsolete_request lib device recipient) requests)) (\<lambda>_.
         act_bind (\<lambda>s. case ap_now (su_app su) s of (s', t) \<Rightarrow> (s', Inr t)) (\<lambda>now.
         act_bind (lift_wsp (\<lambda>s. (s, new_join_request lib ws recipient now sg))) (\<lambda>blob.
           publish_request lib st blob)))))"

definition has_revisions :: "'s init_env \<Rightarrow> 's store_ops \<Rightarrow> string \<Rightarrow> string \<Rightarrow> ('s, bool) act" where
  "has_revisions su st ws res =
     act_bind (act_try (lift_storage (so_discover st KindState (state_scope (wl_crypto (su_lib su)) ws res)))) (\<lambda>r.
       act_ok (case r of Inl e \<Rightarrow> False | Inr revs \<Rightarrow> revs \<noteq> []))"

definition init_session ::
  "'s store_ops \<Rightarrow> 's ensured \<Rightarrow> string \<Rightarrow> (bytes \<Rightarrow> bytes app_result) \<Rightarrow> signer \<Rightarrow> 's session" where
  "init_session st en ws dec sg =
     \<lparr>ss_store = st, ss_cfg = en_cfg en, ss_workspace = ws, ss_view = en_view en, ss_head = en_head en, ss_cps = en_cps en,
      ss_replaced = en_replaced en, ss_decrypt = dec, ss_signer = sg\<rparr>"

text \<open>What a member finds in the current environment.\<close>

definition init_read :: "'s init_env \<Rightarrow> 's session \<Rightarrow> init_result \<Rightarrow> ('s, init_result) act" where
  "init_read su ss result =
     act_bind (act_try (read_resource (su_app su) ss (ss_resource ss (current_environment (ss_cfg ss))) [] True [])) (\<lambda>r.
       case r of
         Inr _ \<Rightarrow> act_ok (result\<lparr>in_mode := ModeJoin, in_has_secrets := True, in_can_decrypt := Some True\<rparr>)
       | Inl e \<Rightarrow>
           if is_not_found_error e then act_ok result
           else if errors_is CauseNoMatch e
           then act_ok (result\<lparr>in_mode := ModeJoin, in_has_secrets := True, in_can_decrypt := Some False\<rparr>)
           else act_fail e)"

text \<open>
  The rest of \<open>InitializeRepository\<close>, once the Control is verified.  While it is forked there is no head, and
  the code reads the members of the head through a nil pointer.
\<close>

definition init_member ::
  "'s init_env \<Rightarrow> 's store_ops \<Rightarrow> new_identity \<Rightarrow> signer \<Rightarrow> string \<Rightarrow> 's ensured \<Rightarrow> ('s, init_result) act" where
  "init_member su st ni sg signer_warning en =
     (let cfg = en_cfg en; ws = pc_workspace_id cfg; device = device_id (wl_crypto (su_lib su)) (sg_public sg);
          result = \<lparr>in_public_key = ni_recipient ni, in_environment = current_environment cfg, in_workspace = ws,
            in_genesis = pc_control_genesis cfg, in_storage = sc_url (pc_storage cfg), in_key_created = ni_created ni,
            in_mode = ModeInitialize, in_has_secrets = False, in_can_decrypt = None, in_device = device,
            in_founded = en_founded en, in_pending = False, in_replaced = rt_genesis (en_replaced en),
            in_warnings = filter (\<lambda>w. w \<noteq> []) [ni_warning ni, signer_warning]\<rparr>
      in case en_head en of
           None \<Rightarrow> act_fail (Plain CausePanic)
         | Some head \<Rightarrow>
             (case control_principal (vf_control head) device of
                None \<Rightarrow>
                  act_bind (ask_to_join su st ws (ni_recipient ni) sg) (\<lambda>_.
                  act_bind (has_revisions su st ws (cfg_resource cfg (current_environment cfg))) (\<lambda>found.
                    act_ok (result\<lparr>in_mode := ModeJoin, in_pending := True, in_has_secrets := found\<rparr>)))
              | Some p \<Rightarrow> init_read su (init_session st en ws (ni_decrypt ni) sg) result))"

definition initialize_repository :: "'s init_env \<Rightarrow> ('s, init_result) act" where
  "initialize_repository su =
     normalized (act_bind (init_config su) (\<lambda>(fresh, cfg).
       act_bind (act_pure (su_store su cfg)) (\<lambda>st.
       act_bind (\<lambda>s. if \<not> fresh \<or> pc_workspace_id cfg \<noteq> [] then (s, Inr cfg)
                     else case su_new_id su s of (s', i) \<Rightarrow> (s', Inr (cfg\<lparr>pc_workspace_id := i\<rparr>))) (\<lambda>cfg.
         let ws = pc_workspace_id cfg
         in if \<not> ap_uuid_ok (su_app su) ws then act_fail (Wrapping [Plain CauseOther])
            else
              act_bind (ap_save_project (su_app su) cfg) (\<lambda>_.
              act_bind (act_map_err identity_error_app (su_create_identity su ws)) (\<lambda>ni.
              act_bind (act_map_err identity_error_app (su_create_signer su ws)) (\<lambda>(sg, signer_warning).
              act_bind (ensure_control su st cfg ws
                 \<lparr>pr_id = device_id (wl_crypto (su_lib su)) (sg_public sg), pr_signing = sg_public sg,
                  pr_recipient = ni_recipient ni, pr_admin = True\<rparr> sg) (\<lambda>en.
                init_member su st ni sg signer_warning en))))))))"

subsection \<open>Changing this device's key\<close>

record 's key_update =
  ke_create_pending :: "string \<Rightarrow> ('s, string \<times> string) act"
  ke_promote :: "string \<Rightarrow> ('s, unit) act"

record key_update_result =
  kr_recipient :: string
  kr_device :: string
  kr_pending :: bool
  kr_warnings :: "string list"

text \<open>
  \<open>UpgradeIdentity\<close>.  \<open>ku\<close> is the identity store as a \<open>keyUpdater\<close>, if it is one; a new pending key comes with
  a warning.  A missing pending key at the promotion was promoted by a session of the approval.
\<close>

definition request_update :: "'s app \<Rightarrow> 's session \<Rightarrow> string \<Rightarrow> string \<Rightarrow> ('s, unit) act" where
  "request_update ap ss recipient current =
     act_bind (\<lambda>s. case ap_now ap s of (s', t) \<Rightarrow> (s', Inr t)) (\<lambda>now.
     act_bind (lift_wsp (\<lambda>s. (s, new_key_update_request (ap_lib ap) (ss_workspace ss) recipient current now (ss_signer ss)))) (\<lambda>blob.
       publish_request (ap_lib ap) (ss_store ss) blob))"

definition upgrade_identity :: "'s app \<Rightarrow> 's key_update option \<Rightarrow> ('s, key_update_result) act" where
  "upgrade_identity ap ku =
     normalized (case ku of
       None \<Rightarrow> act_fail (Plain CauseOther)
     | Some ku \<Rightarrow>
         act_bind (open_session ap) (\<lambda>ss.
           case control_principal (vf_control (the_head ss)) (ss_self (ap_lib ap) ss) of
             None \<Rightarrow> act_fail (app_new CodeNotMember [])
           | Some self \<Rightarrow>
               if is_post_quantum (pr_recipient self) then act_fail (app_new CodeInvalidArgument [])
               else
                 act_bind (act_map_err identity_error_app (ke_create_pending ku (ss_workspace ss))) (\<lambda>(recipient, warning).
                 act_bind (request_update ap ss recipient (pr_recipient self)) (\<lambda>_.
                 let result = \<lparr>kr_recipient = recipient, kr_device = pr_id self, kr_pending = True,
                                kr_warnings = (if warning \<noteq> [] then [warning] else [])\<rparr>
                 in if \<not> pr_admin self then act_ok result
                    else
                      act_bind (approve_member ap (pr_id self)) (\<lambda>_.
                      act_bind (act_try (ke_promote ku (ss_workspace ss))) (\<lambda>r.
                        case r of
                          Inl e \<Rightarrow> if errors_is CauseNotExist e then act_ok (result\<lparr>kr_pending := False\<rparr>)
                                   else act_fail (identity_error_app e)
                        | Inr _ \<Rightarrow> act_ok (result\<lparr>kr_pending := False\<rparr>)))))))"

end
