(* ===== verification/Founding_Props.thy ===== *)
theory Founding_Props
  imports Founding Session_Props
begin

text \<open>
  Founding a workspace survives interruptions.  A device is modelled with its files: the directory of the
  local data (trust roots, checkpoints and founding records, each under the name the code gives it) and the
  storage, a local store; any step may fail.  What an interrupted founding leaves behind can be resumed
  (\<open>founding_interrupted\<close>), and resuming it without faults finishes it (\<open>founding_resumes\<close>).
\<close>

subsection \<open>A device with its files\<close>

record device =
  dv_config :: "project_config option"
  dv_files :: "string \<Rightarrow> local_file"
  dv_dir :: local_dir

text \<open>What the operating system does to each file during a command; \<open>Some\<close> is what a failed save of \<open>enbu.toml\<close> leaves.\<close>

record device_faults =
  df_pin :: local_env
  df_repo :: local_env
  df_checkpoint :: local_env
  df_pending_read :: bool
  df_pending_write :: bool
  df_save :: "project_config option option"

definition put_file :: "string \<Rightarrow> local_file \<Rightarrow> device \<Rightarrow> device" where
  "put_file n c w = w\<lparr>dv_files := (dv_files w)(n := c)\<rparr>"

text \<open>The operations of a store on a state that holds the store.\<close>

definition lift_store :: "('w \<Rightarrow> 'b) \<Rightarrow> ('b \<Rightarrow> 'w \<Rightarrow> 'w) \<Rightarrow> 'b store_ops \<Rightarrow> 'w store_ops" where
  "lift_store rd wr ops =
     \<lparr>so_publish = (\<lambda>obj w. case so_publish ops obj (rd w) of (b, r) \<Rightarrow> (wr b w, r)),
      so_fetch_head = (\<lambda>k sc rv w. case so_fetch_head ops k sc rv (rd w) of (b, r) \<Rightarrow> (wr b w, r)),
      so_open_blob = (\<lambda>k sc rv i w. case so_open_blob ops k sc rv i (rd w) of (b, r) \<Rightarrow> (wr b w, r)),
      so_discover = (\<lambda>k sc w. case so_discover ops k sc (rd w) of (b, r) \<Rightarrow> (wr b w, r)),
      so_scopes = (\<lambda>w. case so_scopes ops (rd w) of (b, r) \<Rightarrow> (wr b w, r)),
      so_delete = (\<lambda>k sc rv w. case so_delete ops k sc rv (rd w) of (b, r) \<Rightarrow> (wr b w, r)),
      so_capabilities = so_capabilities ops\<rparr>"

definition device_store :: "wsp_lib \<Rightarrow> device store_ops" where
  "device_store lib = lift_store dv_dir (\<lambda>d w. w\<lparr>dv_dir := d\<rparr>) (local_ops (wl_digest lib))"

record founding_libs =
  fl_trust :: trust_json
  fl_checkpoint :: checkpoint_json
  fl_encode :: "pending_founding \<Rightarrow> bytes option"
  fl_decode :: "bytes \<Rightarrow> pending_founding option"

text \<open>The device as the collaborators of \<open>init_env\<close>; \<open>su\<close> gives those that \<open>ensureControl\<close> does not use.\<close>

definition on_device ::
  "device init_env \<Rightarrow> founding_libs \<Rightarrow> device_faults \<Rightarrow> string \<Rightarrow> device init_env" where
  "on_device su fl ff config_path =
     (let lib = su_lib su; cr = wl_crypto lib
      in su\<lparr>su_app := (su_app su)\<lparr>
             ap_save_project := (\<lambda>cfg w. case df_save ff of
                None \<Rightarrow> (w\<lparr>dv_config := Some cfg\<rparr>, Inr ())
              | Some left \<Rightarrow> (w\<lparr>dv_config := left\<rparr>, Inl (Plain CauseOther))),
             ap_checkpoints := (\<lambda>ws g. checkpoint_ops (fl_checkpoint fl) (df_checkpoint ff)
                (\<lambda>w. dv_files w (checkpoint_name cr ws g)) (put_file (checkpoint_name cr ws g))),
             ap_trust := (\<lambda>ws. trust_root_ops lib (fl_trust fl) (df_pin ff)
                (\<lambda>w. dv_files w (workspace_trust_name cr ws)) (put_file (workspace_trust_name cr ws))),
             ap_repo_trust := Some (trust_root_ops lib (fl_trust fl) (df_repo ff)
                (\<lambda>w. dv_files w (repository_trust_name cr config_path)) (put_file (repository_trust_name cr config_path)))\<rparr>,
           su_accept_new := False,
           su_config_path := Inr config_path,
           su_read_pending := (\<lambda>p w. (w, if df_pending_read ff then Inl (Plain CauseOther) else Inr (dv_files w p))),
           su_write_pending := (\<lambda>p b w. if df_pending_write ff then (w, Inl (Plain CauseOther))
                                        else (put_file p (Some b) w, Inr ())),
           su_remove_pending := (\<lambda>p w. put_file p None w),
           su_encode := fl_encode fl, su_decode := fl_decode fl\<rparr>)"

lemma on_device_sel [simp]:
  "su_accept_new (on_device su fl ff cp) = False" "su_config_path (on_device su fl ff cp) = Inr cp"
  "su_lib (on_device su fl ff cp) = su_lib su" "su_checkpoint_dir (on_device su fl ff cp) = su_checkpoint_dir su"
  "su_encode (on_device su fl ff cp) = fl_encode fl" "su_decode (on_device su fl ff cp) = fl_decode fl"
  "ap_lib (su_app (on_device su fl ff cp)) = su_lib su"
  by (simp_all add: on_device_def Let_def su_lib_def)

lemma put_file_sel [simp]:
  "dv_dir (put_file n c w) = dv_dir w" "dv_config (put_file n c w) = dv_config w"
  "dv_files (put_file n c w) = (dv_files w)(n := c)"
  by (simp_all add: put_file_def)

subsection \<open>The names of the files\<close>

definition founding_name :: "device init_env \<Rightarrow> string \<Rightarrow> string \<Rightarrow> digest \<Rightarrow> string" where
  "founding_name su cp ws g = su_checkpoint_dir su @ ''/founding/''
     @ hex_encode (cr_sha256 (wl_crypto (su_lib su)) (ws @ [CHR 0x00] @ cp @ [CHR 0x00] @ g)) @ ''.json''"

lemma pending_path [simp]: "pending_genesis_path (on_device su fl ff cp) ws g = Inr (founding_name su cp ws g)"
  by (simp add: pending_genesis_path_def founding_name_def)

lemma slash_hex: "CHR ''/'' \<notin> set (hex_encode b)" "CHR ''t'' \<notin> set (hex_encode b)" "CHR ''r'' \<notin> set (hex_encode b)"
  using hex_encode_hex [of _ b] by (auto simp: hex_chars_def)

lemma hex_json_first:
  "hex_encode b @ ''.json'' = c # rest \<Longrightarrow> c \<in> set (hex_encode b) \<or> c = CHR ''.''"
  by (cases "hex_encode b") auto

lemma names_apart [simp]:
  "workspace_trust_name cr ws \<noteq> repository_trust_name cr p"
  "workspace_trust_name cr ws \<noteq> checkpoint_name cr ws' g" "repository_trust_name cr p \<noteq> checkpoint_name cr ws' g"
  "founding_name su cp ws g' \<noteq> workspace_trust_name cr ws'" "founding_name su cp ws g' \<noteq> repository_trust_name cr p"
  "founding_name su cp ws g' \<noteq> checkpoint_name cr ws' g"
proof -
  have slash: "CHR ''/'' \<in> set (founding_name su cp ws g')" "CHR ''/'' \<notin> set (workspace_trust_name cr ws')"
    "CHR ''/'' \<notin> set (repository_trust_name cr p)" "CHR ''/'' \<notin> set (checkpoint_name cr ws' g)"
    using slash_hex by (simp_all add: founding_name_def workspace_trust_name_def repository_trust_name_def open_trust_root_def
        checkpoint_name_def)
  show "founding_name su cp ws g' \<noteq> workspace_trust_name cr ws'" "founding_name su cp ws g' \<noteq> repository_trust_name cr p"
    "founding_name su cp ws g' \<noteq> checkpoint_name cr ws' g"
    using slash by metis+
  show "workspace_trust_name cr ws \<noteq> repository_trust_name cr p"
    by (simp add: workspace_trust_name_def repository_trust_name_def open_trust_root_def)
  have first: "hd (checkpoint_name cr ws' g) \<noteq> CHR ''t''" "hd (checkpoint_name cr ws' g) \<noteq> CHR ''r''"
    using hex_json_first slash_hex by (cases "checkpoint_name cr ws' g"; force simp: checkpoint_name_def)+
  have "hd (workspace_trust_name cr ws) = CHR ''t''" "hd (repository_trust_name cr p) = CHR ''r''"
    by (simp_all add: workspace_trust_name_def repository_trust_name_def open_trust_root_def)
  then show "workspace_trust_name cr ws \<noteq> checkpoint_name cr ws' g" "repository_trust_name cr p \<noteq> checkpoint_name cr ws' g"
    using first by metis+
qed

lemmas names_apart_sym [simp] = names_apart [symmetric]

subsection \<open>A storage that holds at most the genesis\<close>

definition founding_storage :: "wsp_lib \<Rightarrow> digest \<Rightarrow> bytes \<Rightarrow> device \<Rightarrow> bool" where
  "founding_storage lib g blob w \<longleftrightarrow>
     local_inv (wl_digest lib) (dv_dir w)
     \<and> (\<forall>rv. local_view (wl_digest lib) (dv_dir w) (KindControl, [], rv) \<noteq> None \<longrightarrow> rv = g)
     \<and> (\<forall>hb. local_view (wl_digest lib) (dv_dir w) (KindControl, [], g) = Some hb \<longrightarrow> hb = (blob, []))"

definition genesis_stored :: "wsp_lib \<Rightarrow> digest \<Rightarrow> device \<Rightarrow> bool" where
  "genesis_stored lib g w \<longleftrightarrow> local_view (wl_digest lib) (dv_dir w) (KindControl, [], g) \<noteq> None"

lemma discover_loop_distinct:
  assumes "digest_lib_ok dl"
  shows "discover_loop dl k p ns acc = Inr rvs \<Longrightarrow> distinct ns \<Longrightarrow> distinct acc
    \<Longrightarrow> \<forall>n\<in>set ns. \<forall>r. rev_from_name dl p n = Some r \<longrightarrow> r \<notin> set acc \<Longrightarrow> distinct rvs"
proof (induction ns arbitrary: acc)
  case (Cons n ns)
  show ?case
  proof (cases "rev_from_name dl p n")
    case None
    then show ?thesis using Cons by simp
  next
    case (Some r)
    have loop: "discover_loop dl k p ns (acc @ [r]) = Inr rvs"
      using Cons.prems(1) Some by (simp split: if_splits)
    have "n' = n" if "n' \<in> set ns" "rev_from_name dl p n' = Some r" for n'
      using rev_from_name_Some [OF assms that(2)] rev_from_name_Some [OF assms Some] by simp
    then have "\<forall>n'\<in>set ns. \<forall>q. rev_from_name dl p n' = Some q \<longrightarrow> q \<notin> set (acc @ [r])"
      using Cons.prems(2,4) by auto
    moreover have "r \<notin> set acc"
      using Cons.prems(4) Some by simp
    ultimately show ?thesis
      using Cons.IH [OF loop] Cons.prems(2,3) by simp
  qed
qed simp

lemma device_discover:
  assumes "founding_storage lib g blob w" and "so_discover (device_store lib) KindControl [] w = (w', r)"
  shows "w' = w" and "r = Inr revs \<Longrightarrow> set revs \<subseteq> {g} \<and> length revs \<le> 1" and "local_calm (dv_dir w) \<Longrightarrow> \<exists>revs. r = Inr revs"
proof -
  obtain d' where d: "local_discover (wl_digest lib) KindControl [] (dv_dir w) = (d', r)" "w' = w\<lparr>dv_dir := d'\<rparr>"
    using assms(2) by (auto simp: device_store_def lift_store_def local_ops_def split: prod.splits)
  have "d' = dv_dir w"
    using d(1) by (simp add: local_discover_def)
  then show "w' = w" using d(2) by simp
  show "set revs \<subseteq> {g} \<and> length revs \<le> 1" if r: "r = Inr revs"
  proof -
    have "set revs = {rv. local_view (wl_digest lib) (dv_dir w) (KindControl, [], rv) \<noteq> None}"
      using local_discover_exact [of "wl_digest lib" "dv_dir w" KindControl "[]" d' revs] assms(1) d(1) r
      by (simp add: founding_storage_def)
    then have sub: "set revs \<subseteq> {g}"
      using assms(1) by (auto simp: founding_storage_def)
    have ok: "digest_lib_ok (wl_digest lib)" "distinct (map fst (ld_files (dv_dir w)))"
      using assms(1) by (simp_all add: founding_storage_def local_inv_def)
    obtain p rs where p: "discover_loop (wl_digest lib) KindControl p (map fst (ld_files (dv_dir w))) [] = Inr rs" "revs = sort rs"
      using d(1) unfolding r by (auto simp: local_discover_def res_simps split: if_splits)
    have "distinct revs"
      using discover_loop_distinct [OF ok(1) p(1) ok(2)] p(2) by simp
    then have "length revs = card (set revs)"
      by (simp add: distinct_card)
    with sub card_mono [of "{g}" "set revs"] show ?thesis by simp
  qed
  have loop: "\<exists>revs. discover_loop dl KindControl p ns acc = Inr revs" for dl p ns acc
    by (induction ns arbitrary: acc) (auto split: option.split)
  show "\<exists>revs. r = Inr revs" if "local_calm (dv_dir w)"
  proof -
    obtain revs where "discover_loop (wl_digest lib) KindControl ''c-'' (map fst (ld_files (dv_dir w))) [] = Inr revs"
      using loop by blast
    then show ?thesis
      using d(1) that by (auto simp: local_discover_def local_calm_def name_prefix_def valid_scope_def)
  qed
qed

lemma device_fetch:
  assumes "founding_storage lib g blob w" and "so_fetch_head (device_store lib) KindControl [] g w = (w', r)"
  shows "w' = w" and "r = Inr h \<Longrightarrow> h = blob \<and> genesis_stored lib g w"
    and "local_calm (dv_dir w) \<Longrightarrow> genesis_stored lib g w \<Longrightarrow> r = Inr blob"
proof -
  obtain d' where d: "local_fetch_head (wl_digest lib) KindControl [] g (dv_dir w) = (d', r)" "w' = w\<lparr>dv_dir := d'\<rparr>"
    using assms(2) by (auto simp: device_store_def lift_store_def local_ops_def split: prod.splits)
  have inv: "local_inv (wl_digest lib) (dv_dir w)"
    using assms(1) by (simp add: founding_storage_def)
  show "w' = w"
    using local_fetch_cases(1) [OF inv d(1)] d(2) by simp
  show got: "h = blob \<and> genesis_stored lib g w" if "r = Inr h" for h
    using local_fetch_cases(2) [OF inv d(1) that] assms(1) by (auto simp: founding_storage_def genesis_stored_def)
  show "r = Inr blob" if "local_calm (dv_dir w)" "genesis_stored lib g w"
    using local_fetch_cases(3) [OF inv d(1) _ that(1)] got that(2) by (cases r) (auto simp: genesis_stored_def)
qed

definition genesis_only :: "string \<Rightarrow> digest \<Rightarrow> verified \<Rightarrow> control_view" where
  "genesis_only ws g v = \<lparr>cv_workspace = ws, cv_genesis = g, cv_heads = [v], cv_verified = [(g, v)], cv_membership = []\<rparr>"

lemma load_queue_tried: "set revs \<subseteq> set tried \<Longrightarrow> load_queue lib ops ws revs tried tot pend s = (s, Inr pend)"
  by (induction revs) auto

lemma genesis_accept: "accept_loop lib [] [(g, v)] = [(g, v)]"
  by (subst accept_loop.simps) simp

lemma genesis_heads: "ct_parents (vf_control v) = [] \<Longrightarrow> view_heads [(g, v)] = [v]"
  by (simp add: view_heads_def sort_verified_def)

lemma device_load:
  assumes st: "founding_storage lib g blob w" and v: "verify_genesis lib ws blob g = Inr v"
    and l: "load_control lib (device_store lib) ws g cp w = (w', r)"
  shows "w' = w" and "r = Inr view \<Longrightarrow> genesis_stored lib g w \<and> view = genesis_only ws g v"
    and "local_calm (dv_dir w) \<Longrightarrow> genesis_stored lib g w \<Longrightarrow> set cp \<subseteq> {g} \<Longrightarrow> r = Inr (genesis_only ws g v)"
proof -
  note g = verify_genesis_Inr [OF v]
  have valid: "valid_digest (wl_digest lib) g"
    using st g valid_digest_from_bytes [of "wl_digest lib" blob] by (auto simp: founding_storage_def local_inv_def)
  have short: "\<not> max_control_bytes < length blob"
    using g by (auto simp: decode_signed_Inr max_signed_bytes_def max_control_bytes_def)
  obtain w1 dr where d: "so_discover (device_store lib) KindControl [] w = (w1, dr)" by fastforce
  obtain w2 fr where f: "so_fetch_head (device_store lib) KindControl [] g w = (w2, fr)" by fastforce
  note disc = device_discover [OF st d] and fetch = device_fetch [OF st f]
  have w: "w1 = w" "w2 = w" by (rule disc(1), rule fetch(1))
  have root: "(case load_queue lib (device_store lib) ws (sort_digests revs) [g] tot [] w of
      (s3, Inl e) \<Rightarrow> (s3, Inl e)
    | (s3, Inr pend) \<Rightarrow>
        let vf = accept_loop lib pend [(g, v)]
        in if \<exists>d\<in>set cp. \<not> gm_has vf d then (s3, Inl ErrRollback)
           else (s3, Inr \<lparr>cv_workspace = ws, cv_genesis = g, cv_heads = view_heads vf, cv_verified = vf, cv_membership = []\<rparr>))
    = (w, if set cp \<subseteq> {g} then Inr (genesis_only ws g v) else Inl ErrRollback)" if "set revs \<subseteq> {g}" for revs tot
  proof -
    have "load_queue lib (device_store lib) ws (sort_digests revs) [g] tot [] w = (w, Inr [])"
      by (rule load_queue_tried) (use that in \<open>simp add: sort_digests_def\<close>)
    moreover have "view_heads [(g, v)] = [v]"
      using g by (intro genesis_heads) simp
    moreover have "(\<exists>d\<in>set cp. \<not> gm_has [(g, v)] d) \<longleftrightarrow> \<not> set cp \<subseteq> {g}"
      by (auto simp: gm_has_iff)
    ultimately show ?thesis
      by (simp add: genesis_accept genesis_only_def Let_def)
  qed
  have eq: "(w', r) = (case dr of Inl e \<Rightarrow> (w, Inl (ErrStore e)) | Inr revs \<Rightarrow>
      (case fr of Inl e \<Rightarrow> (w, Inl (ErrStore e))
       | Inr h \<Rightarrow> (w, if set cp \<subseteq> {g} then Inr (genesis_only ws g v) else Inl ErrRollback)))"
  proof (cases dr)
    case (Inl e)
    then show ?thesis using l d w valid by (simp add: load_control_def)
  next
    case dr: (Inr revs)
    have few: "\<not> max_controls < length revs" "set revs \<subseteq> {g}"
      using disc(2) [OF dr] by (auto simp: max_controls_def)
    show ?thesis
    proof (cases fr)
      case (Inl e)
      then show ?thesis using l d f w valid dr few by (simp add: load_control_def)
    next
      case (Inr h)
      then have "h = blob" using fetch(2) by simp
      then show ?thesis
        using l d f w valid dr few Inr short v root [OF few(2), of "length blob"] by (simp add: load_control_def)
    qed
  qed
  then show "w' = w" by (simp split: sum.splits)
  show "genesis_stored lib g w \<and> view = genesis_only ws g v" if "r = Inr view"
    using eq that fetch(2) by (auto split: sum.splits if_splits)
  show "r = Inr (genesis_only ws g v)" if calm: "local_calm (dv_dir w)" "genesis_stored lib g w" "set cp \<subseteq> {g}"
    using eq disc(3) [OF calm(1)] fetch(3) [OF calm(1,2)] calm(3) by auto
qed

subsection \<open>Publishing the genesis\<close>

definition calm_env :: "local_env \<Rightarrow> bool" where
  "calm_env e \<longleftrightarrow> lock_file e = Inr () \<and> \<not> le_read_error e \<and> \<not> le_mkdir_error e \<and> \<not> le_write_error e"

definition calm_faults :: "device_faults \<Rightarrow> bool" where
  "calm_faults ff \<longleftrightarrow> calm_env (df_pin ff) \<and> calm_env (df_repo ff) \<and> calm_env (df_checkpoint ff)
     \<and> \<not> df_pending_read ff \<and> \<not> df_pending_write ff \<and> df_save ff = None"

definition calm_storage :: "device \<Rightarrow> bool" where
  "calm_storage w \<longleftrightarrow> local_calm (dv_dir w) \<and> \<not> ld_sync_error (dv_dir w)"

lemma local_publish_calm:
  assumes "local_inv dl d" and "local_calm d" and "\<not> ld_sync_error d" and v: "validate_object dl obj = Inr ()"
    and same: "\<And>ps. local_view dl d (obj_key obj) = Some ps \<Longrightarrow> ps = obj_parts obj"
  shows "\<exists>d'. local_publish dl obj d = (d', Inr ())"
proof -
  obtain name where n: "obj_name dl (ob_kind obj) (ob_scope obj) (ob_rv obj) = Inr name"
    using v by (rule obj_name_of_valid)
  from open_local_cases [OF assms(1) n] show ?thesis
  proof (elim disjE exE conjE)
    assume new: "gm_get (ld_files d) name = None" "read_local d name = Inl SNotFound"
    let ?d = "d\<lparr>ld_files := gm_put name (Regular (frame obj)) (ld_files d)\<rparr>"
    have "open_local ?d name = Inr (frame obj, length (frame obj))"
      using length_frame [OF v] by (simp add: open_local_def)
    moreover obtain l where "read_head dl (frame obj) (ob_rv obj) = Inr (ob_head obj, l)"
      using read_head_frame [OF v] by blast
    ultimately show ?thesis
      using v n new assms(2,3) by (simp add: local_publish_def Let_def local_calm_def commit_local_file_def)
  next
    fix o' l
    assume o': "validate_object dl o' = Inr ()" "obj_key o' = (ob_kind obj, ob_scope obj, ob_rv obj)"
      "read_local d name = Inr (frame o')"
      "local_view dl d (ob_kind obj, ob_scope obj, ob_rv obj) = Some (obj_parts o')"
    have "obj_parts o' = obj_parts obj"
      by (rule same) (use o'(4) in \<open>simp add: obj_key_def\<close>)
    then have "frame o' = frame obj"
      by (simp add: frame_def obj_parts_def)
    then show ?thesis
      using v n o'(3) assms(2) by (simp add: local_publish_def Let_def local_calm_def)
  qed
qed

lemma device_publish:
  assumes st: "founding_storage lib g blob w" and g: "dl_from_bytes (wl_digest lib) blob = g"
    and p: "publish_control lib (device_store lib) blob w = (w', r)"
  obtains d where "w' = w\<lparr>dv_dir := d\<rparr>" "founding_storage lib g blob w'" "local_calm d = local_calm (dv_dir w)"
    "genesis_stored lib g w \<or> r = Inr () \<Longrightarrow> genesis_stored lib g w'"
    "calm_storage w \<Longrightarrow> blob \<noteq> [] \<Longrightarrow> length blob \<le> max_signed_bytes \<Longrightarrow> r = Inr ()"
proof -
  let ?dl = "wl_digest lib" and ?o = "control_object lib blob"
  obtain d pr where d: "local_publish ?dl ?o (dv_dir w) = (d, pr)" "w' = w\<lparr>dv_dir := d\<rparr>"
    "r = (case pr of Inl e \<Rightarrow> Inl (ErrStore e) | Inr u \<Rightarrow> Inr u)"
    using p by (auto simp: publish_control_def device_store_def lift_store_def local_ops_def split: prod.splits sum.splits)
  have inv: "local_inv ?dl (dv_dir w)" using st by (simp add: founding_storage_def)
  have key: "obj_key ?o = (KindControl, [], g)" "obj_parts ?o = (blob, [])"
    by (simp_all add: obj_key_def obj_parts_def control_object_def g)
  note any = local_publish_any [OF inv d(1)]
  have st': "founding_storage lib g blob w'"
    using any(1,2) st d(2) key by (auto simp: founding_storage_def split: if_splits)
  have keep: "genesis_stored lib g w'" if "genesis_stored lib g w \<or> r = Inr ()"
    using that
  proof
    assume "r = Inr ()"
    then have "pr = Inr ()" using d(3) by (auto split: sum.splits)
    then show ?thesis
      using local_publish_ok(2) [OF inv, of ?o d "()"] d(1,2) key by (simp add: genesis_stored_def)
  qed (use any(1) d(2) key in \<open>auto simp: genesis_stored_def\<close>)
  have ok: "r = Inr ()" if calm: "calm_storage w" "blob \<noteq> []" "length blob \<le> max_signed_bytes"
  proof -
    have "valid_digest ?dl g"
      using inv valid_digest_from_bytes [of ?dl blob] g by (auto simp: local_inv_def)
    then have "validate_object ?dl ?o = Inr ()"
      using calm g by (simp add: validate_object_def control_object_def validate_ref_Inr valid_scope_def max_signed_bytes_def
          storage_limits)
    then obtain d' where "local_publish ?dl ?o (dv_dir w) = (d', Inr ())"
      using local_publish_calm [OF inv, of ?o] calm(1) st key by (auto simp: calm_storage_def founding_storage_def)
    then show ?thesis using d by simp
  qed
  show thesis
    using that [OF d(2) st' any(3) keep ok] by blast
qed

subsection \<open>What an interrupted founding leaves behind\<close>

definition founding_root :: "string \<Rightarrow> digest \<Rightarrow> root" where
  "founding_root ws g = \<lparr>rt_workspace = ws, rt_genesis = g\<rparr>"

text \<open>
  The documented behaviour of the JSON libraries, that an empty text is no signed object, and that a digest is
  never the empty string.
\<close>

definition founding_laws :: "wsp_lib \<Rightarrow> founding_libs \<Rightarrow> bool" where
  "founding_laws lib fl \<longleftrightarrow> trust_json_ok (fl_trust fl)
     \<and> json_round (fl_checkpoint fl) (\<lambda>f. cf_version f = checkpoint_version)
     \<and> (\<forall>p b. fl_encode fl p = Some b \<longrightarrow> fl_decode fl b = Some p)
     \<and> \<not> is_ok (decode_signed lib []) \<and> (\<forall>b. dl_from_bytes (wl_digest lib) b \<noteq> [])"

definition pin_of :: "wsp_lib \<Rightarrow> founding_libs \<Rightarrow> string \<Rightarrow> device \<Rightarrow> root option" where
  "pin_of lib fl ws w = pinned_in lib (fl_trust fl) (dv_files w (workspace_trust_name (wl_crypto lib) ws))"

definition repo_pin_of :: "wsp_lib \<Rightarrow> founding_libs \<Rightarrow> string \<Rightarrow> device \<Rightarrow> root option" where
  "repo_pin_of lib fl cp w = pinned_in lib (fl_trust fl) (dv_files w (repository_trust_name (wl_crypto lib) cp))"

text \<open>The checkpoint accepts at most the genesis.\<close>

definition founding_checkpoint :: "wsp_lib \<Rightarrow> founding_libs \<Rightarrow> string \<Rightarrow> digest \<Rightarrow> device \<Rightarrow> bool" where
  "founding_checkpoint lib fl ws g w \<longleftrightarrow>
     (\<exists>f. checkpoint_of (fl_checkpoint fl) (dv_files w (checkpoint_name (wl_crypto lib) ws g)) = Some f
        \<and> cf_version f = checkpoint_version \<and> set (cf_control f) \<subseteq> {g})"

text \<open>
  The founding of \<open>ws\<close> with the genesis \<open>g\<close>, kept as \<open>blob\<close>, can be resumed: the record is there, the pins are the
  new root or what they were before, and nothing but the genesis is stored, which is there once it is pinned.
\<close>

definition resumable ::
  "device init_env \<Rightarrow> founding_libs \<Rightarrow> string \<Rightarrow> string \<Rightarrow> digest \<Rightarrow> root \<Rightarrow> bytes \<Rightarrow> verified \<Rightarrow> device \<Rightarrow> bool" where
  "resumable su fl cp ws g prev blob v w \<longleftrightarrow>
     (\<exists>data. dv_files w (founding_name su cp ws g) = Some data
        \<and> fl_decode fl data = Some \<lparr>pn_root = founding_root ws g, pn_repository = cp, pn_previous_repo = prev, pn_genesis = blob\<rparr>)
     \<and> verify_genesis (su_lib su) ws blob g = Inr v
     \<and> pin_of (su_lib su) fl ws w \<in> {Some zero_root, Some (founding_root ws g)}
     \<and> repo_pin_of (su_lib su) fl cp w \<in> {Some prev, Some (founding_root ws g)}
     \<and> founding_checkpoint (su_lib su) fl ws g w
     \<and> founding_storage (su_lib su) g blob w
     \<and> (pin_of (su_lib su) fl ws w = Some (founding_root ws g) \<longrightarrow> genesis_stored (su_lib su) g w)"

lemma founding_root_sel [simp]:
  "rt_workspace (founding_root ws g) = ws" "rt_genesis (founding_root ws g) = g" "ws \<noteq> [] \<Longrightarrow> founding_root ws g \<noteq> zero_root"
  by (auto simp: founding_root_def zero_root_def)

text \<open>The files of the device are apart, so writing one leaves what the others say.\<close>

lemma put_pin [simp]:
  "pin_of lib fl ws (put_file (workspace_trust_name (wl_crypto lib) ws) c w) = pinned_in lib (fl_trust fl) c"
  "repo_pin_of lib fl cp (put_file (workspace_trust_name (wl_crypto lib) ws) c w) = repo_pin_of lib fl cp w"
  "founding_checkpoint lib fl ws g (put_file (workspace_trust_name (wl_crypto lib) ws') c w) = founding_checkpoint lib fl ws g w"
  "pin_of lib fl ws (put_file (repository_trust_name (wl_crypto lib) cp) c w) = pin_of lib fl ws w"
  "repo_pin_of lib fl cp (put_file (repository_trust_name (wl_crypto lib) cp) c w) = pinned_in lib (fl_trust fl) c"
  "founding_checkpoint lib fl ws g (put_file (repository_trust_name (wl_crypto lib) cp) c w) = founding_checkpoint lib fl ws g w"
  "pin_of lib fl ws (put_file (checkpoint_name (wl_crypto lib) ws' g) c w) = pin_of lib fl ws w"
  "repo_pin_of lib fl cp (put_file (checkpoint_name (wl_crypto lib) ws' g) c w) = repo_pin_of lib fl cp w"
  by (simp_all add: pin_of_def repo_pin_of_def founding_checkpoint_def)

lemma put_storage [simp]:
  "founding_storage lib g blob (put_file n c w) = founding_storage lib g blob w"
  "genesis_stored lib g (put_file n c w) = genesis_stored lib g w"
  "calm_storage (put_file n c w) = calm_storage w"
  by (simp_all add: founding_storage_def genesis_stored_def calm_storage_def)

lemma put_same [simp]: "put_file n (dv_files w n) w = w"
  by (simp add: put_file_def)

subsection \<open>The pins\<close>

lemma trust_pin_result:
  assumes "trust_pin lib js env root replace expected content = (c, prev, r)" and "trust_json_ok js"
  shows "c = content \<or> pinned_in lib js c = Some root" and "r = Inr () \<Longrightarrow> pinned_in lib js c = Some root"
  using trust_pin_cases [OF assms] by (metis Inl_Inr_False)+

lemma trust_pin_calm:
  assumes "calm_env env" and "rt_workspace root \<noteq> []" and "wsp_valid_digest lib (rt_genesis root) = Inr ()"
    and p: "pinned_in lib js content = Some p" and "p = root \<or> (replace \<or> p = zero_root) \<and> (\<forall>x. expected = Some x \<longrightarrow> p = x)"
    and "tj_encode js \<lparr>tf_version = trust_root_version, tf_root = root\<rparr> \<noteq> None"
  shows "\<exists>c. trust_pin lib js env root replace expected content = (c, p, Inr ())"
proof -
  have rd: "trust_pinned lib js env content = Inr p" and lk: "lock_file env = Inr ()"
    using assms(1) p by (simp_all add: trust_pinned_iff calm_env_def)
  obtain b where b: "tj_encode js \<lparr>tf_version = trust_root_version, tf_root = root\<rparr> = Some b"
    using assms(6) by blast
  have wr: "write_file_atomic env b content = (Some b, Inr ())"
    using assms(1) by (simp add: write_file_atomic_def calm_env_def)
  show ?thesis
  proof (cases "p = root")
    case True
    then show ?thesis using assms(2,3) rd lk by (simp add: trust_pin_def)
  next
    case False
    then have "\<not> (case expected of None \<Rightarrow> False | Some x \<Rightarrow> p \<noteq> x)" "\<not> (p \<noteq> zero_root \<and> \<not> replace)"
      using assms(5) by (auto split: option.split)
    then show ?thesis using assms(2,3) rd lk b wr False by (simp add: trust_pin_def)
  qed
qed

lemma device_pins:
  "ap_trust (su_app (on_device su fl ff cp)) ws = trust_root_ops (su_lib su) (fl_trust fl) (df_pin ff)
     (\<lambda>w. dv_files w (workspace_trust_name (wl_crypto (su_lib su)) ws)) (put_file (workspace_trust_name (wl_crypto (su_lib su)) ws))"
  "ap_repo_trust (su_app (on_device su fl ff cp)) = Some (trust_root_ops (su_lib su) (fl_trust fl) (df_repo ff)
     (\<lambda>w. dv_files w (repository_trust_name (wl_crypto (su_lib su)) cp)) (put_file (repository_trust_name (wl_crypto (su_lib su)) cp)))"
  "ap_checkpoints (su_app (on_device su fl ff cp)) ws g = checkpoint_ops (fl_checkpoint fl) (df_checkpoint ff)
     (\<lambda>w. dv_files w (checkpoint_name (wl_crypto (su_lib su)) ws g)) (put_file (checkpoint_name (wl_crypto (su_lib su)) ws g))"
  by (simp_all add: on_device_def Let_def)

text \<open>The pins that a resumed founding checks and commits.\<close>

abbreviation founding_pins where
  "founding_pins su fl ff cp ws founded prev \<equiv>
     trust_pins (su_app (on_device su fl ff cp)) ws False founded (if founded then Some prev else None)"

lemma founding_pins_def:
  "founding_pins su fl ff cp ws founded prev =
     [(trust_root_ops (su_lib su) (fl_trust fl) (df_pin ff)
         (\<lambda>w. dv_files w (workspace_trust_name (wl_crypto (su_lib su)) ws)) (put_file (workspace_trust_name (wl_crypto (su_lib su)) ws)),
       False, None),
      (trust_root_ops (su_lib su) (fl_trust fl) (df_repo ff)
         (\<lambda>w. dv_files w (repository_trust_name (wl_crypto (su_lib su)) cp)) (put_file (repository_trust_name (wl_crypto (su_lib su)) cp)),
       founded, if founded then Some prev else None)]"
  by (simp add: trust_pins_def device_pins)

lemma trust_check_calm:
  "calm_env env \<Longrightarrow> pinned_in lib js content = Some p \<Longrightarrow> p = zero_root \<or> p = root \<Longrightarrow> trust_check lib js env root content = Inr ()"
  using trust_pinned_iff [of lib js env content p] by (auto simp: trust_check_def calm_env_def)

lemma device_check_pins:
  assumes "check_pins root (founding_pins su fl ff cp ws founded prev) w = (w', r)"
  shows "w' = w"
    and "calm_faults ff \<Longrightarrow> pin_of (su_lib su) fl ws w \<in> {Some zero_root, Some root}
      \<Longrightarrow> founded \<or> repo_pin_of (su_lib su) fl cp w = Some root \<Longrightarrow> r = Inr ()"
proof -
  show "w' = w"
    using assms unfolding founding_pins_def
    by (cases founded) (auto simp: trust_root_ops_def act_defs split: sum.splits)
  show "r = Inr ()" if "calm_faults ff" "pin_of (su_lib su) fl ws w \<in> {Some zero_root, Some root}"
    "founded \<or> repo_pin_of (su_lib su) fl cp w = Some root"
  proof -
    have "trust_check (su_lib su) (fl_trust fl) (df_pin ff) root (dv_files w (workspace_trust_name (wl_crypto (su_lib su)) ws)) = Inr ()"
      using that(1,2) by (auto simp: calm_faults_def pin_of_def intro: trust_check_calm)
    moreover have "founded \<or> trust_check (su_lib su) (fl_trust fl) (df_repo ff) root
        (dv_files w (repository_trust_name (wl_crypto (su_lib su)) cp)) = Inr ()"
      using that(1,3) by (auto simp: calm_faults_def repo_pin_of_def intro: trust_check_calm)
    ultimately show ?thesis
      using assms unfolding founding_pins_def by (cases founded) (auto simp: trust_root_ops_def act_defs)
  qed
qed

text \<open>One pin of the list, as a step of the device.\<close>

lemma resumable_pin:
  assumes "resumable su fl cp ws g prev blob v w" and "genesis_stored (su_lib su) g w"
    and "c = dv_files w (workspace_trust_name (wl_crypto (su_lib su)) ws) \<or> pinned_in (su_lib su) (fl_trust fl) c = Some (founding_root ws g)"
  shows "resumable su fl cp ws g prev blob v (put_file (workspace_trust_name (wl_crypto (su_lib su)) ws) c w)"
  using assms(3) by (elim disjE) (use assms(1,2) in \<open>auto simp: resumable_def\<close>)

lemma resumable_repo_pin:
  assumes "resumable su fl cp ws g prev blob v w"
    and "c = dv_files w (repository_trust_name (wl_crypto (su_lib su)) cp) \<or> pinned_in (su_lib su) (fl_trust fl) c = Some (founding_root ws g)"
  shows "resumable su fl cp ws g prev blob v (put_file (repository_trust_name (wl_crypto (su_lib su)) cp) c w)"
  using assms(2) by (elim disjE) (use assms(1) in \<open>auto simp: resumable_def\<close>)

lemma resumable_checkpoint:
  assumes "resumable su fl cp ws g prev blob v w"
    and "c = dv_files w (checkpoint_name (wl_crypto (su_lib su)) ws g)
      \<or> (\<exists>f. checkpoint_of (fl_checkpoint fl) c = Some f \<and> cf_version f = checkpoint_version \<and> set (cf_control f) \<subseteq> {g})"
  shows "resumable su fl cp ws g prev blob v (put_file (checkpoint_name (wl_crypto (su_lib su)) ws g) c w)"
  using assms(2)
proof (elim disjE)
  assume "\<exists>f. checkpoint_of (fl_checkpoint fl) c = Some f \<and> cf_version f = checkpoint_version \<and> set (cf_control f) \<subseteq> {g}"
  then have "founding_checkpoint (su_lib su) fl ws g (put_file (checkpoint_name (wl_crypto (su_lib su)) ws g) c w)"
    by (auto simp: founding_checkpoint_def)
  then show ?thesis
    using assms(1) by (auto simp: resumable_def)
qed (use assms(1) in simp)

lemma device_commit_pins:
  assumes w: "resumable su fl cp ws g prev blob v w" "genesis_stored (su_lib su) g w" and laws: "founding_laws (su_lib su) fl"
    and c: "commit_pins (founding_root ws g) founded (founding_pins su fl ff cp ws founded prev) zero_root w = (w', r)"
  shows "resumable su fl cp ws g prev blob v w' \<and> genesis_stored (su_lib su) g w'"
    and "r = Inr x \<Longrightarrow> pin_of (su_lib su) fl ws w' = Some (founding_root ws g) \<and> repo_pin_of (su_lib su) fl cp w' = Some (founding_root ws g)"
    and "calm_faults ff \<Longrightarrow> tj_encode (fl_trust fl) \<lparr>tf_version = trust_root_version, tf_root = founding_root ws g\<rparr> \<noteq> None
      \<Longrightarrow> founded \<or> repo_pin_of (su_lib su) fl cp w = Some (founding_root ws g) \<Longrightarrow> \<exists>x. r = Inr x"
    and "dv_files w' (checkpoint_name (wl_crypto (su_lib su)) ws g) = dv_files w (checkpoint_name (wl_crypto (su_lib su)) ws g)"
    and "dv_config w' = dv_config w"
proof -
  let ?lib = "su_lib su" and ?tj = "fl_trust fl" and ?root = "founding_root ws g"
  let ?n = "workspace_trust_name (wl_crypto ?lib) ws" and ?m = "repository_trust_name (wl_crypto ?lib) cp"
  have js: "trust_json_ok ?tj" using laws by (simp add: founding_laws_def)
  obtain c1 p1 r1 where t1: "trust_pin ?lib ?tj (df_pin ff) ?root False None (dv_files w ?n) = (c1, p1, r1)"
    by (rule prod_cases3)
  define w1 where "w1 = put_file ?n c1 w"
  have w1: "resumable su fl cp ws g prev blob v w1" "genesis_stored ?lib g w1"
    using resumable_pin [OF w] trust_pin_result(1) [OF t1 js] w(2) by (auto simp: w1_def)
  obtain c2 p2 r2 where t2: "trust_pin ?lib ?tj (df_repo ff) ?root founded (if founded then Some prev else None) (dv_files w1 ?m)
      = (c2, p2, r2)"
    by (rule prod_cases3)
  define w2 where "w2 = put_file ?m c2 w1"
  have w2: "resumable su fl cp ws g prev blob v w2" "genesis_stored ?lib g w2"
    using resumable_repo_pin [OF w1(1)] trust_pin_result(1) [OF t2 js] w1(2) by (auto simp: w2_def)
  have eq: "case (r1, r2) of (Inl e, _) \<Rightarrow> w' = w1 \<and> is_ok r = False | (Inr _, Inl e) \<Rightarrow> w' = w2 \<and> is_ok r = False
      | (Inr _, Inr _) \<Rightarrow> w' = w2 \<and> is_ok r"
  proof -
    have one: "to_pin (trust_root_ops ?lib ?tj (df_pin ff) (\<lambda>w. dv_files w ?n) (put_file ?n)) ?root False w
        = (w1, res_bind r1 (\<lambda>_. Inr p1))"
      by (simp add: trust_root_ops_def pin_root_def t1 w1_def)
    have two: "(if founded then to_pin_replacing (trust_root_ops ?lib ?tj (df_repo ff) (\<lambda>w. dv_files w ?m) (put_file ?m)) ?root prev w1
        else to_pin (trust_root_ops ?lib ?tj (df_repo ff) (\<lambda>w. dv_files w ?m) (put_file ?m)) ?root founded w1)
        = (w2, res_bind r2 (\<lambda>_. Inr p2))"
      using t2 by (cases founded) (simp_all add: trust_root_ops_def pin_root_def pin_replacing_def w2_def)
    show ?thesis
      using c one two unfolding founding_pins_def
      by (cases r1; cases r2; cases founded) (auto simp: act_defs)
  qed
  show "resumable su fl cp ws g prev blob v w' \<and> genesis_stored ?lib g w'"
    using eq w1 w2 by (auto split: sum.splits)
  show "pin_of ?lib fl ws w' = Some ?root \<and> repo_pin_of ?lib fl cp w' = Some ?root" if "r = Inr x"
  proof -
    have ok: "r1 = Inr ()" "r2 = Inr ()" "w' = w2" using eq that by (auto split: sum.splits)
    then show ?thesis
      using trust_pin_result(2) [OF t1 js] trust_pin_result(2) [OF t2 js] by (simp add: w1_def w2_def)
  qed
  show "dv_config w' = dv_config w"
    using eq by (auto simp: w1_def w2_def split: sum.splits)
  show "dv_files w' (checkpoint_name (wl_crypto ?lib) ws g) = dv_files w (checkpoint_name (wl_crypto ?lib) ws g)"
    using eq by (auto simp: w1_def w2_def split: sum.splits)
  show "\<exists>x. r = Inr x" if calm: "calm_faults ff"
    "tj_encode ?tj \<lparr>tf_version = trust_root_version, tf_root = ?root\<rparr> \<noteq> None"
    "founded \<or> repo_pin_of ?lib fl cp w = Some ?root"
  proof -
    have env: "calm_env (df_pin ff)" "calm_env (df_repo ff)" using calm(1) by (simp_all add: calm_faults_def)
    note vg = verify_genesis_Inr [of ?lib ws blob g v]
    have root: "rt_workspace ?root \<noteq> []" "wsp_valid_digest ?lib (rt_genesis ?root) = Inr ()"
      using w(1) vg valid_digest_from_bytes [of "wl_digest ?lib" blob]
      by (auto simp: resumable_def control_ok_def wsp_valid_digest_def founding_storage_def local_inv_def)
    obtain q where "pinned_in ?lib ?tj (dv_files w ?n) = Some q" "q = zero_root \<or> q = ?root"
      using w(1) by (auto simp: resumable_def pin_of_def)
    then have one: "r1 = Inr ()"
      using trust_pin_calm [OF env(1) root _ _ calm(2), where replace = False and expected = None] t1 by fastforce
    have "repo_pin_of ?lib fl cp w1 = repo_pin_of ?lib fl cp w" by (simp add: w1_def)
    then obtain q2 where "pinned_in ?lib ?tj (dv_files w1 ?m) = Some q2" "q2 = ?root \<or> founded \<and> q2 = prev"
      using w1(1) calm(3) by (auto simp: resumable_def repo_pin_of_def)
    then have "r2 = Inr ()"
      using trust_pin_calm [OF env(2) root _ _ calm(2), where replace = founded and expected = "if founded then Some prev else None"] t2
      by fastforce
    then show ?thesis
      using eq one by (cases r) auto
  qed
qed

subsection \<open>The checkpoint\<close>

lemma genesis_only_sel [simp]:
  "cv_heads (genesis_only ws g v) = [v]" "cv_get (genesis_only ws g v) d = (if d = g then Some v else None)"
  "\<not> cv_forked (genesis_only ws g v)"
  by (simp_all add: genesis_only_def cv_get_def gm_get_def cv_forked_def)

lemma accept_genesis:
  assumes "json_round js (\<lambda>f. cf_version f = checkpoint_version)" and "vf_digest v = g"
    and f: "checkpoint_of js content = Some f" "cf_version f = checkpoint_version" "set (cf_control f) \<subseteq> {g}"
    and a: "accept_control js env (genesis_only ws g v) content = (c, r)"
  shows "c = content \<or> (\<exists>f'. checkpoint_of js c = Some f' \<and> cf_version f' = checkpoint_version \<and> set (cf_control f') \<subseteq> {g})"
    and "calm_env env \<Longrightarrow> cj_encode js (f\<lparr>cf_control := [g]\<rparr>) \<noteq> None \<Longrightarrow> r = Inr ()"
proof -
  have fn: "accept_control_fn (genesis_only ws g v) f =
      (if cf_control f = [g] then Inr (f, False) else Inr (f\<lparr>cf_control := [g]\<rparr>, True))"
    using f(3) assms(2) by (auto simp: accept_control_fn_def missing_from_None same_digests_eq subset_iff Let_def)
  from a [unfolded accept_control_def]
  show "c = content \<or> (\<exists>f'. checkpoint_of js c = Some f' \<and> cf_version f' = checkpoint_version \<and> set (cf_control f') \<subseteq> {g})"
  proof (cases rule: checkpoint_update_cases)
    case (written f0 f' b)
    then have "f' = f\<lparr>cf_control := [g]\<rparr>"
      using f(1) fn by (auto split: if_splits)
    then show ?thesis
      using checkpoint_of_encoded [OF assms(1) _ written(5)] f(2) written(2) by simp
  qed auto
  show "r = Inr ()" if "calm_env env" "cj_encode js (f\<lparr>cf_control := [g]\<rparr>) \<noteq> None"
  proof -
    have "read_checkpoint js env content = Inr f"
      using that(1) f(1) by (simp add: read_checkpoint_of calm_env_def)
    then show ?thesis
      using a that fn by (auto simp: accept_control_def checkpoint_update_def calm_env_def write_checkpoint_def
          write_file_atomic_def split: if_splits option.splits)
  qed
qed

subsection \<open>Verifying the Control that is founded\<close>

definition founding_encodes :: "wsp_lib \<Rightarrow> founding_libs \<Rightarrow> string \<Rightarrow> digest \<Rightarrow> device \<Rightarrow> bool" where
  "founding_encodes lib fl ws g w \<longleftrightarrow>
     tj_encode (fl_trust fl) \<lparr>tf_version = trust_root_version, tf_root = founding_root ws g\<rparr> \<noteq> None
     \<and> (\<forall>f. checkpoint_of (fl_checkpoint fl) (dv_files w (checkpoint_name (wl_crypto lib) ws g)) = Some f
          \<longrightarrow> cj_encode (fl_checkpoint fl) (f\<lparr>cf_control := [g]\<rparr>) \<noteq> None)"

lemma device_verify:
  assumes w: "resumable su fl cp ws g prev blob v w" and laws: "founding_laws (su_lib su) fl" and g: "pc_control_genesis cfg = g"
    and vc: "verify_control (su_app (on_device su fl ff cp)) (device_store (su_lib su)) cfg ws False founded
        (if founded then Some prev else None) w = (w', r)"
  shows "resumable su fl cp ws g prev blob v w'"
    and "r = Inr (cps, view, head, replaced) \<Longrightarrow> head = Some v \<and> view = genesis_only ws g v
      \<and> pin_of (su_lib su) fl ws w' = Some (founding_root ws g) \<and> repo_pin_of (su_lib su) fl cp w' = Some (founding_root ws g)"
    and "calm_faults ff \<Longrightarrow> local_calm (dv_dir w) \<Longrightarrow> genesis_stored (su_lib su) g w \<Longrightarrow> founding_encodes (su_lib su) fl ws g w
      \<Longrightarrow> founded \<or> repo_pin_of (su_lib su) fl cp w = Some (founding_root ws g) \<Longrightarrow> \<exists>x. r = Inr x"
    and "dv_config w' = dv_config w"
proof -
  let ?lib = "su_lib su" and ?root = "founding_root ws g" and ?D = "su_app (on_device su fl ff cp)" and ?st = "device_store (su_lib su)"
  let ?cps = "ap_checkpoints ?D ws g" and ?n = "checkpoint_name (wl_crypto ?lib) ws g" and ?cj = "fl_checkpoint fl"
  let ?pins = "founding_pins su fl ff cp ws founded prev"
  have v: "verify_genesis ?lib ws blob g = Inr v" and st: "founding_storage ?lib g blob w"
    using w by (simp_all add: resumable_def)
  have vd: "vf_digest v = g" "dl_from_bytes (wl_digest ?lib) blob = g" using verify_genesis_Inr [OF v] by simp_all
  have gne: "g \<noteq> []" and cj: "json_round ?cj (\<lambda>f. cf_version f = checkpoint_version)"
    using laws vd(2) by (auto simp: founding_laws_def)
  obtain f where f: "checkpoint_of ?cj (dv_files w ?n) = Some f" "cf_version f = checkpoint_version" "set (cf_control f) \<subseteq> {g}"
    using w by (auto simp: resumable_def founding_checkpoint_def)
  obtain w1 r1 where c1: "check_pins ?root ?pins w = (w1, r1)" by fastforce
  note chk = device_check_pins [OF c1]
  obtain rc where cc: "co_control ?cps w = (w, rc)" "rc = Inr cp1 \<Longrightarrow> cp1 = cf_control f" "calm_faults ff \<Longrightarrow> rc = Inr (cf_control f)" for cp1
  proof -
    have "rc = Inr cp1 \<Longrightarrow> cp1 = cf_control f" if "rc = checkpoint_control ?cj (df_checkpoint ff) (dv_files w ?n)" for rc cp1
      using that f(1) by (auto simp: checkpoint_control_def res_simps read_checkpoint_of)
    moreover have "checkpoint_control ?cj (df_checkpoint ff) (dv_files w ?n) = Inr (cf_control f)" if "calm_faults ff"
    proof -
      have "read_checkpoint ?cj (df_checkpoint ff) (dv_files w ?n) = Inr f"
        using that f(1) by (simp add: read_checkpoint_of calm_faults_def calm_env_def)
      then show ?thesis by (simp add: checkpoint_control_def)
    qed
    ultimately show thesis
      by (intro that [of "checkpoint_control ?cj (df_checkpoint ff) (dv_files w ?n)"]) (auto simp: device_pins checkpoint_ops_def)
  qed
  obtain w2 rl where ld: "load_control ?lib ?st ws g (cf_control f) w = (w2, rl)" by fastforce
  note load = device_load [OF st v ld]
  obtain w3 rm where cm: "commit_pins ?root founded ?pins zero_root w = (w3, rm)" by fastforce
  obtain w4 ra where ac: "co_accept_control ?cps (genesis_only ws g v) w3 = (w4, ra)" by fastforce
  have vc': "act_bind (check_pins ?root ?pins) (\<lambda>_.
           act_bind (lift_wsp (co_control ?cps)) (\<lambda>cp.
           act_bind (act_map_err control_load_error (lift_wsp (load_control ?lib ?st ws g cp))) (\<lambda>view.
           act_bind (commit_pins ?root founded ?pins zero_root) (\<lambda>replaced.
           act_bind (act_map_err wsp_error_app (lift_wsp (co_accept_control ?cps view))) (\<lambda>_.
             act_ok (?cps, view, if cv_forked view then None else Some (cv_heads view ! 0), replaced)))))) w = (w', r)"
    using vc g gne by (simp add: verify_control_def Let_def founding_root_def)
  have early: "(w' = w \<and> (\<exists>e. r = Inl e)) \<or> (r1 = Inr () \<and> rc = Inr (cf_control f) \<and> rl = Inr (genesis_only ws g v)
      \<and> genesis_stored ?lib g w)"
  proof (cases "r1 = Inr () \<and> rc = Inr (cf_control f) \<and> is_ok rl")
    case True
    then show ?thesis using load(2) by (auto simp: is_ok_iff)
  next
    case False
    then show ?thesis
      using vc' c1 chk(1) cc(1,2) ld load(1)
      by (cases r1; cases rc; cases rl) (auto simp: act_bind_def lift_wsp_def act_map_err_def)
  qed
  have late: "(\<exists>e. rm = Inl e \<and> w' = w3 \<and> r = Inl e) \<or> (\<exists>q e. rm = Inr q \<and> w' = w4 \<and> r = Inl e)
      \<or> (\<exists>q. rm = Inr q \<and> ra = Inr () \<and> w' = w4 \<and> r = Inr (?cps, genesis_only ws g v, Some v, q))"
    if "r1 = Inr ()" "rc = Inr (cf_control f)" "rl = Inr (genesis_only ws g v)"
    using vc' c1 chk(1) cc(1) ld load(1) cm ac that
    by (cases rm; cases ra) (auto simp: act_bind_def lift_wsp_def act_map_err_def act_ok_def)
  have acc: "accept_control ?cj (df_checkpoint ff) (genesis_only ws g v) (dv_files w3 ?n) = (dv_files w4 ?n, ra)"
      "w4 = put_file ?n (dv_files w4 ?n) w3"
    using ac by (auto simp: device_pins checkpoint_ops_def split: prod.splits)
  have w34: "resumable su fl cp ws g prev blob v w3" "resumable su fl cp ws g prev blob v w4"
    "dv_files w3 ?n = dv_files w ?n" if "genesis_stored ?lib g w"
  proof -
    show r3: "resumable su fl cp ws g prev blob v w3" and n: "dv_files w3 ?n = dv_files w ?n"
      using device_commit_pins(1,4) [OF w that laws cm] by simp_all
    show "resumable su fl cp ws g prev blob v w4"
      using resumable_checkpoint [OF r3, of "dv_files w4 ?n"] accept_genesis(1) [OF cj vd(1) f acc(1) [unfolded n]]
        acc(2) n by auto
  qed
  show "resumable su fl cp ws g prev blob v w'"
    using early late w34 w by blast
  show "dv_config w' = dv_config w"
    using early late device_commit_pins(5) [OF w _ laws cm] acc(2) put_file_sel(2) by metis
  show "head = Some v \<and> view = genesis_only ws g v
      \<and> pin_of (su_lib su) fl ws w' = Some (founding_root ws g) \<and> repo_pin_of (su_lib su) fl cp w' = Some (founding_root ws g)"
    if ok: "r = Inr (cps, view, head, replaced)"
  proof -
    have s: "genesis_stored ?lib g w" "r1 = Inr ()" "rc = Inr (cf_control f)" "rl = Inr (genesis_only ws g v)"
      using early ok by auto
    then obtain q where q: "rm = Inr q" "w' = w4" "head = Some v" "view = genesis_only ws g v"
      using late ok by auto
    have "pin_of ?lib fl ws w3 = Some ?root" "repo_pin_of ?lib fl cp w3 = Some ?root"
      using device_commit_pins(2) [OF w s(1) laws cm q(1)] by simp_all
    then show ?thesis
      using q acc(2) put_pin(7,8) by metis
  qed
  show "\<exists>x. r = Inr x" if calm: "calm_faults ff" "local_calm (dv_dir w)" "genesis_stored ?lib g w" "founding_encodes ?lib fl ws g w"
    "founded \<or> repo_pin_of ?lib fl cp w = Some ?root"
  proof -
    have s: "r1 = Inr ()" "rc = Inr (cf_control f)" "rl = Inr (genesis_only ws g v)"
      using chk(2) [OF calm(1) _ calm(5)] cc(3) [OF calm(1)] load(3) [OF calm(2,3) f(3)] w by (auto simp: resumable_def)
    obtain q where q: "rm = Inr q"
      using device_commit_pins(3) [OF w calm(3) laws cm calm(1) _ calm(5)] calm(4) by (auto simp: founding_encodes_def)
    have "ra = Inr ()"
      using accept_genesis(2) [OF cj vd(1) f acc(1) [unfolded w34(3) [OF calm(3)]]] calm(1,4) f(1)
      by (auto simp: calm_faults_def founding_encodes_def)
    then show ?thesis
      using vc' c1 chk(1) cc(1) ld load(1) cm ac s q
      by (auto simp: act_bind_def lift_wsp_def act_map_err_def act_ok_def)
  qed
qed

subsection \<open>Resuming\<close>

lemma put_record [simp]:
  "pin_of lib fl ws (put_file (founding_name su cp ws' g) c w) = pin_of lib fl ws w"
  "repo_pin_of lib fl cp (put_file (founding_name su cp' ws' g) c w) = repo_pin_of lib fl cp w"
  "founding_checkpoint lib fl ws g (put_file (founding_name su cp ws' g') c w) = founding_checkpoint lib fl ws g w"
  by (simp_all add: pin_of_def repo_pin_of_def founding_checkpoint_def)

lemma resumable_store:
  assumes "resumable su fl cp ws g prev blob v w" and "w' = w\<lparr>dv_dir := d\<rparr>" and "founding_storage (su_lib su) g blob w'"
    and "genesis_stored (su_lib su) g w \<Longrightarrow> genesis_stored (su_lib su) g w'"
  shows "resumable su fl cp ws g prev blob v w'"
  using assms by (auto simp: resumable_def pin_of_def repo_pin_of_def founding_checkpoint_def)

lemma device_resume_founding:
  assumes w: "resumable su fl cp ws g prev blob v w" and laws: "founding_laws (su_lib su) fl"
    and data: "dv_files w (founding_name su cp ws g) = Some data"
    and rf: "resume_founding (on_device su fl ff cp) (device_store (su_lib su)) ws g data w = (w', r)"
  shows "resumable su fl cp ws g prev blob v w'"
    and "r = Inr (founded, fr) \<Longrightarrow> fr = (if founded then Some prev else None)
      \<and> (founded \<longleftrightarrow> pin_of (su_lib su) fl ws w \<noteq> Some (founding_root ws g) \<or> repo_pin_of (su_lib su) fl cp w \<noteq> Some (founding_root ws g))"
    and "dv_files w' = dv_files w" and "r = Inr x \<Longrightarrow> genesis_stored (su_lib su) g w'"
    and "calm_faults ff \<Longrightarrow> calm_storage w \<Longrightarrow> \<exists>x. r = Inr x" and "local_calm (dv_dir w') = local_calm (dv_dir w)"
    and "dv_config w' = dv_config w"
proof -
  let ?lib = "su_lib su" and ?root = "founding_root ws g" and ?st = "device_store (su_lib su)"
  have v: "verify_genesis ?lib ws blob g = Inr v" and st: "founding_storage ?lib g blob w"
    using w by (simp_all add: resumable_def)
  note vg = verify_genesis_Inr [OF v]
  have rec: "fl_decode fl data = Some \<lparr>pn_root = ?root, pn_repository = cp, pn_previous_repo = prev, pn_genesis = blob\<rparr>"
    using w data by (simp add: resumable_def)
  obtain p q where p: "pin_of ?lib fl ws w = Some p" "p = zero_root \<or> p = ?root"
    and q: "repo_pin_of ?lib fl cp w = Some q" "q = prev \<or> q = ?root"
    using w by (auto simp: resumable_def)
  have tp: "lift_trust (to_pinned (ap_trust (su_app (on_device su fl ff cp)) ws)) w
      = (w, if le_read_error (df_pin ff) then Inl (wsp_cause ErrOther) else Inr p)"
  proof -
    have "trust_pinned ?lib (fl_trust fl) (df_pin ff) (dv_files w (workspace_trust_name (wl_crypto ?lib) ws))
        = (if le_read_error (df_pin ff) then Inl (TrustFailed ErrOther) else Inr p)"
      using p(1) trust_pinned_iff [of ?lib "fl_trust fl" "df_pin ff" "dv_files w (workspace_trust_name (wl_crypto ?lib) ws)" p]
      by (auto simp: pin_of_def) (simp add: trust_pinned_def read_file_def)
    then show ?thesis by (simp add: device_pins trust_root_ops_def lift_trust_def trust_cause_def)
  qed
  have tq: "repo_pinned (on_device su fl ff cp) w = (w, if le_read_error (df_repo ff) then Inl (wsp_cause ErrOther) else Inr q)"
  proof -
    have "trust_pinned ?lib (fl_trust fl) (df_repo ff) (dv_files w (repository_trust_name (wl_crypto ?lib) cp))
        = (if le_read_error (df_repo ff) then Inl (TrustFailed ErrOther) else Inr q)"
      using q(1) trust_pinned_iff [of ?lib "fl_trust fl" "df_repo ff" "dv_files w (repository_trust_name (wl_crypto ?lib) cp)" q]
      by (auto simp: repo_pin_of_def) (simp add: trust_pinned_def read_file_def)
    then show ?thesis by (simp add: repo_pinned_def device_pins trust_root_ops_def lift_trust_def trust_cause_def)
  qed
  obtain w1 pr where pub: "publish_control ?lib ?st blob w = (w1, pr)" by fastforce
  obtain d where d: "w1 = w\<lparr>dv_dir := d\<rparr>" "founding_storage ?lib g blob w1" "local_calm d = local_calm (dv_dir w)"
    "genesis_stored ?lib g w \<or> pr = Inr () \<Longrightarrow> genesis_stored ?lib g w1"
    "calm_storage w \<Longrightarrow> blob \<noteq> [] \<Longrightarrow> length blob \<le> max_signed_bytes \<Longrightarrow> pr = Inr ()"
    using device_publish [OF st _ pub] vg by blast
  have w1: "resumable su fl cp ws g prev blob v w1"
    using resumable_store [OF w d(1,2)] d(4) by blast
  let ?f = "p \<noteq> ?root \<or> q \<noteq> ?root"
  have eq: "resume_founding (on_device su fl ff cp) ?st ws g data w =
      (if le_read_error (df_pin ff) \<or> le_read_error (df_repo ff) then (w, Inl (wsp_cause ErrOther))
       else if p \<noteq> ?root then (w1, case pr of Inl e \<Rightarrow> Inl (storage_error_app (wsp_cause e)) | Inr u \<Rightarrow> Inr (?f, if ?f then Some prev else None))
       else (w, Inr (?f, if ?f then Some prev else None)))"
  proof -
    show ?thesis
      using rec v tp tq pub p(2) q(2)
      unfolding resume_founding_def Let_def founding_root_def [symmetric]
      by (auto simp: act_bind_def act_pure_def act_map_err_def lift_wsp_def act_ok_def split: sum.split)
  qed
  show "resumable su fl cp ws g prev blob v w'" "dv_files w' = dv_files w" "local_calm (dv_dir w') = local_calm (dv_dir w)"
    "dv_config w' = dv_config w"
    using rf w w1 d(1,3) unfolding eq by (auto split: if_splits)
  show "fr = (if founded then Some prev else None)
      \<and> (founded \<longleftrightarrow> pin_of ?lib fl ws w \<noteq> Some ?root \<or> repo_pin_of ?lib fl cp w \<noteq> Some ?root)" if "r = Inr (founded, fr)"
    using rf that p(1) q(1) unfolding eq by (auto split: if_splits sum.splits)
  show "genesis_stored ?lib g w'" if "r = Inr x"
    using rf that d(4) w p(1) unfolding eq by (auto simp: resumable_def split: if_splits sum.splits)
  show "\<exists>x. r = Inr x" if calm: "calm_faults ff" "calm_storage w"
  proof -
    have "blob \<noteq> []" "length blob \<le> max_signed_bytes"
      using laws vg by (auto simp: founding_laws_def) (auto simp: decode_signed_Inr)
    then have "pr = Inr ()" using d(5) calm(2) by simp
    then show ?thesis
      using rf calm(1) unfolding eq by (auto simp: calm_faults_def calm_env_def split: if_splits)
  qed
qed

lemma device_ensure:
  assumes w: "resumable su fl cp ws g prev blob v w" and laws: "founding_laws (su_lib su) fl" and g: "pc_control_genesis cfg = g"
    and en: "ensure_control (on_device su fl ff cp) (device_store (su_lib su)) cfg ws fnd sg w = (w', r)"
  shows "r = Inl e \<Longrightarrow> resumable su fl cp ws g prev blob v w'"
    and "r = Inr x \<Longrightarrow> en_cfg x = cfg \<and> en_head x = Some v \<and> pin_of (su_lib su) fl ws w' = Some (founding_root ws g)
      \<and> repo_pin_of (su_lib su) fl cp w' = Some (founding_root ws g) \<and> dv_files w' (founding_name su cp ws g) = None
      \<and> (en_founded x \<longleftrightarrow> pin_of (su_lib su) fl ws w \<noteq> Some (founding_root ws g) \<or> repo_pin_of (su_lib su) fl cp w \<noteq> Some (founding_root ws g))"
    and "calm_faults ff \<Longrightarrow> calm_storage w \<Longrightarrow> founding_encodes (su_lib su) fl ws g w \<Longrightarrow> \<exists>x. r = Inr x"
    and "dv_config w' = dv_config w"
proof -
  let ?lib = "su_lib su" and ?root = "founding_root ws g" and ?D = "on_device su fl ff cp" and ?st = "device_store (su_lib su)"
  let ?n = "founding_name su cp ws g"
  obtain data where data: "dv_files w ?n = Some data" using w by (auto simp: resumable_def)
  have gne: "g \<noteq> []"
    using w laws verify_genesis_Inr [of ?lib ws blob g v] by (auto simp: resumable_def founding_laws_def)
  have rd: "su_read_pending ?D ?n w = (w, if df_pending_read ff then Inl (Plain CauseOther) else Inr (Some data))"
    using data by (simp add: on_device_def Let_def)
  have rm: "su_remove_pending ?D ?n w = put_file ?n None w" for w
    by (simp add: on_device_def Let_def)
  obtain w1 r1 where rf: "resume_founding ?D ?st ws g data w = (w1, r1)" by fastforce
  note res = device_resume_founding [OF w laws data rf]
  obtain founded fr where ffr: "(case r1 of Inl e \<Rightarrow> (False, None) | Inr x \<Rightarrow> x) = (founded, fr)" by fastforce
  obtain w2 r2 where vc: "verify_control (su_app ?D) ?st cfg ws False founded (if founded then Some prev else None) w1 = (w2, r2)"
    by fastforce
  note ver = device_verify [OF res(1) laws g vc]
  have eq: "(w', r) = (if df_pending_read ff then (w, Inl (Plain CauseOther))
      else case r1 of Inl e \<Rightarrow> (w1, Inl e)
      | Inr x \<Rightarrow> (case r2 of Inl e \<Rightarrow> (w2, Inl e)
        | Inr (cps, view, head, replaced) \<Rightarrow> (put_file ?n None w2, Inr \<lparr>en_cfg = cfg, en_cps = cps, en_view = view, en_head = head,
               en_founded = founded, en_replaced = replaced\<rparr>)))"
  proof (cases r1)
    case (Inl e)
    then show ?thesis
      using en g gne rd rf by (auto simp: ensure_control_def act_bind_def act_ok_def act_pure_def)
  next
    case (Inr x)
    then have x: "x = (founded, fr)" "fr = (if founded then Some prev else None)"
      using ffr res(2) by auto
    then show ?thesis
      using en g gne rd rf Inr vc rm
      by (cases r2) (auto simp: ensure_control_def act_bind_def act_ok_def act_pure_def)
  qed
  show "resumable su fl cp ws g prev blob v w'" if "r = Inl e"
    using eq that w res(1) ver(1) by (auto split: if_splits sum.splits prod.splits)
  show "dv_config w' = dv_config w"
    using eq res(7) ver(4) by (auto split: if_splits sum.splits prod.splits)
  show "en_cfg x = cfg \<and> en_head x = Some v \<and> pin_of ?lib fl ws w' = Some ?root
      \<and> repo_pin_of ?lib fl cp w' = Some ?root \<and> dv_files w' ?n = None
      \<and> (en_founded x \<longleftrightarrow> pin_of ?lib fl ws w \<noteq> Some ?root \<or> repo_pin_of ?lib fl cp w \<noteq> Some ?root)" if ok: "r = Inr x"
  proof -
    obtain y z where y: "r1 = Inr y" and z: "r2 = Inr z"
      using eq ok by (auto split: if_splits sum.splits)
    obtain cps view head replaced where zz: "z = (cps, view, head, replaced)" by (cases z) auto
    have yy: "y = (founded, fr)" using ffr y by simp
    have "w' = put_file ?n None w2" "en_cfg x = cfg" "en_head x = head" "en_founded x = founded"
      using eq ok y z zz by (auto split: if_splits)
    then show ?thesis
      using ver(2) [OF z [unfolded zz]] res(2) [OF y [unfolded yy]] by simp
  qed
  show "\<exists>x. r = Inr x" if calm: "calm_faults ff" "calm_storage w" "founding_encodes ?lib fl ws g w"
  proof -
    obtain y where y: "r1 = Inr y" using res(5) [OF calm(1,2)] by blast
    then have yy: "r1 = Inr (founded, fr)" using ffr by simp
    have "local_calm (dv_dir w1)" "genesis_stored ?lib g w1" "founding_encodes ?lib fl ws g w1"
      using res(3,6) res(4) [OF y] calm(2,3) by (simp_all add: calm_storage_def founding_encodes_def)
    moreover have "founded \<or> repo_pin_of ?lib fl cp w1 = Some ?root"
      using res(2) [OF yy] res(3) by (auto simp: repo_pin_of_def)
    ultimately obtain z where "r2 = Inr z" using ver(3) [OF calm(1)] by blast
    then show ?thesis
      using eq y calm(1) by (cases z) (auto simp: calm_faults_def split: if_splits)
  qed
qed

subsection \<open>Starting a founding\<close>

definition untouched :: "device \<Rightarrow> device \<Rightarrow> wsp_lib \<Rightarrow> founding_libs \<Rightarrow> string \<Rightarrow> string \<Rightarrow> bool" where
  "untouched w w' lib fl cp ws \<longleftrightarrow>
     dv_dir w' = dv_dir w \<and> pin_of lib fl ws w' = pin_of lib fl ws w \<and> repo_pin_of lib fl cp w' = repo_pin_of lib fl cp w"

lemma device_unused:
  assumes "storage_unused (device_store lib) ks w = (w', r)"
  shows "w' = w" and "r = Inr () \<Longrightarrow> k \<in> set ks \<Longrightarrow> local_inv (wl_digest lib) (dv_dir w)
      \<Longrightarrow> local_view (wl_digest lib) (dv_dir w) (k, [], rv) = None"
proof -
  have st: "so_discover (device_store lib) k [] w = (w, snd (local_discover (wl_digest lib) k [] (dv_dir w)))" for k
    by (simp add: device_store_def lift_store_def local_ops_def local_discover_def)
  show "w' = w"
    using assms by (induction ks) (auto simp: st act_bind_def act_map_err_def lift_storage_def split: sum.splits if_splits)
  show "local_view (wl_digest lib) (dv_dir w) (k, [], rv) = None" if "r = Inr ()" "k \<in> set ks" "local_inv (wl_digest lib) (dv_dir w)"
    using assms that(1,2)
  proof (induction ks)
    case (Cons k1 ks)
    then have "snd (local_discover (wl_digest lib) k1 [] (dv_dir w)) = Inr []"
      and rest: "storage_unused (device_store lib) ks w = (w', r)"
      by (auto simp: st act_bind_def act_map_err_def lift_storage_def split: sum.splits if_splits)
    then have "set [] = {rv. local_view (wl_digest lib) (dv_dir w) (k1, [], rv) \<noteq> None}"
      using local_discover_exact(2) [OF that(3), of k1 "[]" _ "[]"] by (metis prod.collapse)
    then show ?case
      using Cons.IH [OF rest] Cons.prems(2,3) by (cases "k = k1") (auto simp: not_Some_eq [symmetric] simp del: not_Some_eq)
  qed simp
qed

lemma device_found:
  assumes laws: "founding_laws (su_lib su) fl" and inv: "local_inv (wl_digest (su_lib su)) (dv_dir w)"
    and fresh: "\<And>g. dv_files w (checkpoint_name (wl_crypto (su_lib su)) ws g) = None"
    and fw: "found_workspace (on_device su fl ff cp) (device_store (su_lib su)) cfg ws fnd sg w = (w', r)"
  shows "untouched w w' (su_lib su) fl cp ws"
    and "r = Inl e \<Longrightarrow> dv_config w' = dv_config w \<or> df_save ff = Some (dv_config w')"
    and "r = Inr cfg' \<Longrightarrow> \<exists>g prev blob v. cfg' = cfg\<lparr>pc_control_genesis := g\<rparr> \<and> dv_config w' = Some cfg'
      \<and> repo_pin_of (su_lib su) fl cp w = Some prev \<and> resumable su fl cp ws g prev blob v w'"
proof -
  let ?lib = "su_lib su" and ?D = "on_device su fl ff cp" and ?st = "device_store (su_lib su)"
  obtain w1 ur where un: "storage_unused ?st [KindControl, KindRequest] w = (w1, ur)" by fastforce
  note unused = device_unused [OF un]
  have tp: "lift_trust (to_pinned (ap_trust (su_app ?D) ws)) w
      = (w, case trust_pinned ?lib (fl_trust fl) (df_pin ff) (dv_files w (workspace_trust_name (wl_crypto ?lib) ws)) of
          Inl e \<Rightarrow> Inl (trust_cause e) | Inr p \<Rightarrow> Inr p)"
    by (simp add: device_pins trust_root_ops_def lift_trust_def split: sum.split)
  have tq: "repo_pinned ?D w
      = (w, case trust_pinned ?lib (fl_trust fl) (df_repo ff) (dv_files w (repository_trust_name (wl_crypto ?lib) cp)) of
          Inl e \<Rightarrow> Inl (trust_cause e) | Inr p \<Rightarrow> Inr p)"
    by (simp add: repo_pinned_def device_pins trust_root_ops_def lift_trust_def split: sum.split)
  have wr: "su_write_pending ?D p b w = (if df_pending_write ff then (w, Inl (Plain CauseOther)) else (put_file p (Some b) w, Inr ()))" for p b
    by (simp add: on_device_def Let_def)
  have sv: "ap_save_project (su_app ?D) c v = (case df_save ff of None \<Rightarrow> (v\<lparr>dv_config := Some c\<rparr>, Inr ())
      | Some left \<Rightarrow> (v\<lparr>dv_config := left\<rparr>, Inl (Plain CauseOther)))" for c v
    by (simp add: on_device_def Let_def)
  define P where "P = trust_pinned ?lib (fl_trust fl) (df_pin ff) (dv_files w (workspace_trust_name (wl_crypto ?lib) ws))"
  define Q where "Q = trust_pinned ?lib (fl_trust fl) (df_repo ff) (dv_files w (repository_trust_name (wl_crypto ?lib) cp))"
  define G where "G = new_genesis ?lib ws fnd sg"
  have cases: "(w' = w \<and> (\<exists>e. r = Inl e))
    \<or> (\<exists>g blob q b. P = Inr zero_root \<and> ur = Inr () \<and> G = Inr (blob, g) \<and> Q = Inr q
        \<and> fl_encode fl \<lparr>pn_root = founding_root ws g, pn_repository = cp, pn_previous_repo = q, pn_genesis = blob\<rparr> = Some b
        \<and> (let w2 = put_file (founding_name su cp ws g) (Some b) w in
           (\<exists>left e. df_save ff = Some left \<and> w' = w2\<lparr>dv_config := left\<rparr> \<and> r = Inl e)
           \<or> w' = w2\<lparr>dv_config := Some (cfg\<lparr>pc_control_genesis := g\<rparr>)\<rparr> \<and> r = Inr (cfg\<lparr>pc_control_genesis := g\<rparr>)))"
    (is "?early \<or> ?late")
  proof (cases "P = Inr zero_root \<and> ur = Inr () \<and> is_ok G \<and> is_ok Q")
    case False
    then have ?early
      using fw tp tq un unused(1) unfolding found_workspace_def P_def [symmetric] Q_def [symmetric]
      by (cases P; cases Q; cases G; cases ur)
        (auto simp: act_bind_def act_pure_def lift_wsp_def G_def [symmetric] split: if_splits)
    then show ?thesis ..
  next
    case True
    then obtain blob g q where s: "P = Inr zero_root" "ur = Inr ()" "G = Inr (blob, g)" "Q = Inr q"
      by (auto simp: is_ok_iff)
    let ?p = "\<lparr>pn_root = founding_root ws g, pn_repository = cp, pn_previous_repo = q, pn_genesis = blob\<rparr>"
    show ?thesis
    proof (cases "fl_encode fl ?p")
      case None
      then have ?early
        using fw tp tq un unused(1) s unfolding found_workspace_def P_def [symmetric] Q_def [symmetric]
        by (auto simp: act_bind_def act_pure_def lift_wsp_def G_def [symmetric] founding_root_def)
      then show ?thesis ..
    next
      case (Some b)
      then show ?thesis
        using fw tp tq un unused(1) s wr [of "founding_name su cp ws g" b] unfolding found_workspace_def P_def [symmetric] Q_def [symmetric]
        by (cases "df_pending_write ff"; cases "df_save ff")
          (auto simp: act_bind_def act_pure_def act_ok_def lift_wsp_def G_def [symmetric] founding_root_def sv Let_def)
    qed
  qed
  have other: "pin_of ?lib fl ws (w\<lparr>dv_config := c\<rparr>) = pin_of ?lib fl ws w" "repo_pin_of ?lib fl cp (w\<lparr>dv_config := c\<rparr>) = repo_pin_of ?lib fl cp w"
    for w :: device and c by (simp_all add: pin_of_def repo_pin_of_def)
  show "untouched w w' ?lib fl cp ws"
    using cases by (auto simp: untouched_def Let_def other)
  show "dv_config w' = dv_config w \<or> df_save ff = Some (dv_config w')" if "r = Inl e"
    using cases that by (auto simp: Let_def)
  show "\<exists>g prev blob v. cfg' = cfg\<lparr>pc_control_genesis := g\<rparr> \<and> dv_config w' = Some cfg'
      \<and> repo_pin_of ?lib fl cp w = Some prev \<and> resumable su fl cp ws g prev blob v w'" if ok: "r = Inr cfg'"
  proof -
    from cases ok obtain g blob q b where s: "P = Inr zero_root" "ur = Inr ()" "G = Inr (blob, g)" "Q = Inr q"
      "fl_encode fl \<lparr>pn_root = founding_root ws g, pn_repository = cp, pn_previous_repo = q, pn_genesis = blob\<rparr> = Some b"
      and w': "w' = (put_file (founding_name su cp ws g) (Some b) w)\<lparr>dv_config := Some (cfg\<lparr>pc_control_genesis := g\<rparr>)\<rparr>"
        "cfg' = cfg\<lparr>pc_control_genesis := g\<rparr>"
      by (auto simp: Let_def)
    obtain v where v: "verify_genesis ?lib ws blob g = Inr v"
      using s(3) by (auto simp: G_def new_genesis_def Let_def res_simps)
    have none: "local_view (wl_digest ?lib) (dv_dir w) (KindControl, [], rv) = None" for rv
      using unused(2) [OF s(2) _ inv] by simp
    have chk: "founding_checkpoint ?lib fl ws g w'"
      using fresh [of g] by (simp add: founding_checkpoint_def w'(1) empty_file)
        (simp add: empty_checkpoint_def)
    have "pin_of ?lib fl ws w = Some zero_root" "repo_pin_of ?lib fl cp w = Some q"
      using s(1,4) by (auto simp: P_def Q_def pin_of_def repo_pin_of_def trust_pinned_iff)
    moreover have "fl_decode fl b = Some \<lparr>pn_root = founding_root ws g, pn_repository = cp, pn_previous_repo = q, pn_genesis = blob\<rparr>"
      using laws s(5) by (simp add: founding_laws_def)
    moreover have "ws \<noteq> []"
      using verify_genesis_Inr [OF v] by (auto simp: control_ok_def)
    ultimately have "resumable su fl cp ws g q blob v w'"
      using v chk inv none unfolding resumable_def w'(1) other
      by (auto simp: founding_storage_def genesis_stored_def zero_root_def founding_root_def)
    then show ?thesis
      using w' \<open>repo_pin_of ?lib fl cp w = Some q\<close> by auto
  qed
qed

subsection \<open>Properties\<close>

lemma ensure_founding:
  assumes "pc_control_genesis cfg = []" and "found_workspace su st cfg ws fnd sg w = (w1, Inr cfg1)"
    and "pc_control_genesis cfg1 \<noteq> []"
    and "dv_files w1 (founding_name su0 cp ws (pc_control_genesis cfg1)) = Some data" and "su = on_device su0 fl ff cp"
  shows "ensure_control su st cfg ws fnd sg w = ensure_control su st cfg1 ws fnd sg w1"
proof -
  have "su_read_pending su p w1 = (w1, if df_pending_read ff then Inl (Plain CauseOther) else Inr (dv_files w1 p))" for p
    using assms(5) by (simp add: on_device_def Let_def)
  then show ?thesis
    using assms by (cases "df_pending_read ff") (auto simp: ensure_control_def act_bind_def act_ok_def act_pure_def)
qed

lemma founding_interrupted_facts:
  assumes laws: "founding_laws (su_lib su) fl" and inv: "local_inv (wl_digest (su_lib su)) (dv_dir w)"
    and fresh: "\<And>g. dv_files w (checkpoint_name (wl_crypto (su_lib su)) ws g) = None"
    and cfg: "pc_control_genesis cfg = []"
    and en: "ensure_control (on_device su fl ff cp) (device_store (su_lib su)) cfg ws fnd sg w = (w', Inl e)"
  shows "(untouched w w' (su_lib su) fl cp ws \<and> (dv_config w' = dv_config w \<or> df_save ff = Some (dv_config w')))
    \<or> (\<exists>g prev blob v. dv_config w' = Some (cfg\<lparr>pc_control_genesis := g\<rparr>) \<and> repo_pin_of (su_lib su) fl cp w = Some prev
         \<and> resumable su fl cp ws g prev blob v w')"
proof -
  obtain w1 r1 where fw: "found_workspace (on_device su fl ff cp) (device_store (su_lib su)) cfg ws fnd sg w = (w1, r1)" by fastforce
  note found = device_found [OF laws inv fresh fw]
  show ?thesis
  proof (cases r1)
    case (Inl e1)
    then have "w' = w1" using en fw cfg by (auto simp: ensure_control_def act_bind_def)
    then show ?thesis using found(1) found(2) [OF Inl] by simp
  next
    case (Inr cfg1)
    obtain g prev blob v where s: "cfg1 = cfg\<lparr>pc_control_genesis := g\<rparr>" "dv_config w1 = Some cfg1"
      "repo_pin_of (su_lib su) fl cp w = Some prev" "resumable su fl cp ws g prev blob v w1"
      using found(3) [OF Inr] by blast
    then obtain data where data: "dv_files w1 (founding_name su cp ws (pc_control_genesis cfg1)) = Some data"
      by (auto simp: resumable_def)
    have gne: "pc_control_genesis cfg1 \<noteq> []"
      using s(1,4) laws verify_genesis_Inr [of "su_lib su" ws blob g v] by (auto simp: resumable_def founding_laws_def)
    have again: "ensure_control (on_device su fl ff cp) (device_store (su_lib su)) cfg1 ws fnd sg w1 = (w', Inl e)"
      using ensure_founding [OF cfg fw [unfolded Inr] gne data refl] en by simp
    have g: "pc_control_genesis cfg1 = g" using s(1) by simp
    have "resumable su fl cp ws g prev blob v w'" "dv_config w' = Some cfg1"
      using device_ensure(1) [OF s(4) laws g again refl] device_ensure(4) [OF s(4) laws g again] s(2) by simp_all
    then show ?thesis
      using s(1,3) by blast
  qed
qed

text \<open>
  C23: a founding that is interrupted is not lost.  When \<open>ensureControl\<close> fails while it founds a workspace, at
  whatever step and with whatever faults of the files, the locks and the storage, it has either published
  nothing, pinned nothing and left \<open>enbu.toml\<close> alone (unless saving it failed half way), or \<open>enbu.toml\<close> names the new genesis and the device can resume: the founding
  record holds the exact signed bytes of the genesis and the root the checkout trusted before, storage holds at
  most that genesis, and the pins are still what they were or the new root.
\<close>

theorem founding_interrupted:
  assumes "founding_laws (su_lib su) fl" and "local_inv (wl_digest (su_lib su)) (dv_dir w)"
    and "\<And>g. dv_files w (checkpoint_name (wl_crypto (su_lib su)) ws g) = None"
    and "pc_control_genesis cfg = []"
    and "ensure_control (on_device su fl ff cp) (device_store (su_lib su)) cfg ws fnd sg w = (w', Inl e)"
  shows "(untouched w w' (su_lib su) fl cp ws \<and> (dv_config w' = dv_config w \<or> df_save ff = Some (dv_config w')))
    \<or> (\<exists>g prev blob v. dv_config w' = Some (cfg\<lparr>pc_control_genesis := g\<rparr>) \<and> repo_pin_of (su_lib su) fl cp w = Some prev
         \<and> resumable su fl cp ws g prev blob v w')"
  using assms by (rule founding_interrupted_facts)

text \<open>
  C24: resuming a founding finishes it.  From a state that can be resumed, every further attempt that fails
  leaves a state that can be resumed, and an attempt without faults succeeds: its session has the new genesis
  as the only Control, both the workspace and the checkout are pinned to it, the founding record is gone, and
  it reports a founding exactly when one of the pins was not there yet.
\<close>

theorem founding_resumes:
  assumes "resumable su fl cp ws g prev blob v w" and "founding_laws (su_lib su) fl" and "pc_control_genesis cfg = g"
  shows "(\<forall>ff w' e. ensure_control (on_device su fl ff cp) (device_store (su_lib su)) cfg ws fnd sg w = (w', Inl e)
        \<longrightarrow> resumable su fl cp ws g prev blob v w' \<and> dv_config w' = dv_config w)
    \<and> (\<forall>ff. calm_faults ff \<longrightarrow> calm_storage w \<longrightarrow> founding_encodes (su_lib su) fl ws g w \<longrightarrow>
        (\<exists>w' en. ensure_control (on_device su fl ff cp) (device_store (su_lib su)) cfg ws fnd sg w = (w', Inr en)
           \<and> en_cfg en = cfg \<and> en_head en = Some v \<and> vf_digest v = g
           \<and> pin_of (su_lib su) fl ws w' = Some (founding_root ws g) \<and> repo_pin_of (su_lib su) fl cp w' = Some (founding_root ws g)
           \<and> dv_files w' (founding_name su cp ws g) = None
           \<and> (en_founded en \<longleftrightarrow> pin_of (su_lib su) fl ws w \<noteq> Some (founding_root ws g)
                \<or> repo_pin_of (su_lib su) fl cp w \<noteq> Some (founding_root ws g))))"
proof (intro conjI allI impI)
  fix ff w' e
  assume "ensure_control (on_device su fl ff cp) (device_store (su_lib su)) cfg ws fnd sg w = (w', Inl e)"
  then show "resumable su fl cp ws g prev blob v w'" "dv_config w' = dv_config w"
    using device_ensure(1,4) [OF assms] by blast+
next
  fix ff
  assume "calm_faults ff" "calm_storage w" "founding_encodes (su_lib su) fl ws g w"
  moreover obtain w' r where en: "ensure_control (on_device su fl ff cp) (device_store (su_lib su)) cfg ws fnd sg w = (w', r)"
    by fastforce
  ultimately obtain x where "r = Inr x"
    using device_ensure(3) [OF assms en] by blast
  moreover have "vf_digest v = g"
    using assms(1) verify_genesis_Inr [of "su_lib su" ws blob g v] by (simp add: resumable_def)
  ultimately show "\<exists>w' en. ensure_control (on_device su fl ff cp) (device_store (su_lib su)) cfg ws fnd sg w = (w', Inr en)
       \<and> en_cfg en = cfg \<and> en_head en = Some v \<and> vf_digest v = g
       \<and> pin_of (su_lib su) fl ws w' = Some (founding_root ws g) \<and> repo_pin_of (su_lib su) fl cp w' = Some (founding_root ws g)
       \<and> dv_files w' (founding_name su cp ws g) = None
       \<and> (en_founded en \<longleftrightarrow> pin_of (su_lib su) fl ws w \<noteq> Some (founding_root ws g)
            \<or> repo_pin_of (su_lib su) fl cp w \<noteq> Some (founding_root ws g))"
    using device_ensure(2) [OF assms en] en by blast
qed

subsection \<open>A device that founds\<close>

definition sample_init :: "device init_env" where
  "sample_init = \<lparr>su_app = \<lparr>ap_lib = sample_lib, ap_load_project = act_ok sample_cfg, ap_save_project = (\<lambda>c. act_ok ()),
       ap_uuid_ok = (\<lambda>w. True), ap_open_store = (\<lambda>cfg. Inr (device_store sample_lib)),
       ap_checkpoints = (\<lambda>ws g. checkpoint_ops sample_json calm (\<lambda>w. None) (\<lambda>c w. w)),
       ap_trust = (\<lambda>ws. trust_root_ops sample_lib trust_sample_json calm (\<lambda>w. None) (\<lambda>c w. w)),
       ap_repo_trust = None, ap_load_signer = (\<lambda>ws. act_ok sample_signer), ap_load_identities = (\<lambda>ws. act_ok Inr),
       ap_key_updater = None, ap_encrypt = (\<lambda>b rs. act_ok genesis_blob), ap_now = (\<lambda>s. (s, 0)),
       ap_marshal = (\<lambda>m. []), ap_unmarshal = (\<lambda>b. Inr (Some []))\<rparr>,
     su_accept_new = False, su_new_id = (\<lambda>s. (s, ''w'')), su_store = (\<lambda>cfg. Inr (device_store sample_lib)),
     su_init_storage = None, su_storage_url = [], su_load_repo = act_ok (''owner'', ''repo''), su_config_path = Inr ''enbu.toml'',
     su_checkpoint_dir = ''checkpoints'', su_read_pending = (\<lambda>p. act_ok None), su_write_pending = (\<lambda>p b. act_ok ()),
     su_remove_pending = (\<lambda>p s. s), su_encode = (\<lambda>p. None), su_decode = (\<lambda>b. None),
     su_create_identity = (\<lambda>ws. act_ok \<lparr>ni_recipient = ''age1n'', ni_created = True, ni_warning = [], ni_decrypt = Inr\<rparr>),
     su_create_signer = (\<lambda>ws. act_ok (sample_signer, []))\<rparr>"

definition sample_pending :: pending_founding where
  "sample_pending = \<lparr>pn_root = founding_root ''w'' genesis_digest, pn_repository = ''enbu.toml'', pn_previous_repo = zero_root,
     pn_genesis = genesis_blob\<rparr>"

definition sample_libs :: founding_libs where
  "sample_libs = \<lparr>fl_trust = trust_sample_json, fl_checkpoint = sample_json,
     fl_encode = (\<lambda>p. if p = sample_pending then Some ''p'' else None), fl_decode = (\<lambda>b. Some sample_pending)\<rparr>"

definition calm_device :: device_faults where
  "calm_device = \<lparr>df_pin = calm, df_repo = calm, df_checkpoint = calm, df_pending_read = False, df_pending_write = False, df_save = None\<rparr>"

definition new_device :: device where
  "new_device = \<lparr>dv_config = None, dv_files = (\<lambda>n. None), dv_dir = empty_dir\<rparr>"

definition stopped_device :: device where
  "stopped_device = (put_file (founding_name sample_init ''enbu.toml'' ''w'' genesis_digest) (Some ''p'') new_device)
     \<lparr>dv_config := Some sample_cfg\<rparr>"

lemma sample_init_lib [simp]: "su_lib sample_init = sample_lib" "wl_digest sample_lib = sample_digest_lib"
  by (simp_all add: su_lib_def sample_init_def sample_lib_def)

lemma sample_founding_laws: "founding_laws sample_lib sample_libs"
proof -
  have "\<not> is_ok (decode_signed sample_lib [])"
    by (simp add: decode_signed_def sample_lib_def decode_canonical_def)
  moreover have "dl_from_bytes sample_digest_lib b \<noteq> []" for b
    by (simp add: sample_digest_lib_def)
  ultimately show ?thesis
    using trust_sample_json_ok sample_json_round by (simp add: founding_laws_def sample_libs_def)
qed

lemma empty_dir_view: "local_view dl empty_dir key = None"
  by (cases key) (simp add: local_view_def empty_dir_def split: sum.split)

lemma empty_dir_inv: "local_inv sample_digest_lib empty_dir"
  using sample_digest_lib_ok by (simp add: local_inv_def empty_dir_def)

lemma stopped_resumable:
  "resumable sample_init sample_libs ''enbu.toml'' ''w'' genesis_digest zero_root genesis_blob genesis_verified stopped_device"
  using sample_genesis empty_dir_view empty_dir_inv
  by (simp add: resumable_def stopped_device_def new_device_def sample_libs_def sample_pending_def pin_of_def repo_pin_of_def
      pinned_in_def founding_checkpoint_def empty_file founding_storage_def genesis_stored_def)
    (simp add: empty_checkpoint_def founding_root_def zero_root_def)

theorem founding_resumes_witness:
  "\<exists>w' en. ensure_control (on_device sample_init sample_libs calm_device ''enbu.toml'') (device_store sample_lib) sample_cfg ''w'' founder
       sample_signer stopped_device = (w', Inr en) \<and> en_head en = Some genesis_verified \<and> en_founded en"
proof -
  have "calm_faults calm_device" "calm_storage stopped_device"
    by (simp_all add: calm_faults_def calm_device_def calm_env_def calm_sel lock_file_def calm_storage_def local_calm_def
        stopped_device_def new_device_def empty_dir_def)
  moreover have "founding_encodes sample_lib sample_libs ''w'' genesis_digest stopped_device"
    by (simp add: founding_encodes_def sample_libs_def stopped_device_def new_device_def empty_file)
      (simp add: trust_sample_json_def sample_json_def trust_root_version_def genesis_file_def)
  moreover have "pin_of sample_lib sample_libs ''w'' stopped_device \<noteq> Some (founding_root ''w'' genesis_digest)"
    using stopped_resumable by (auto simp: resumable_def genesis_stored_def stopped_device_def new_device_def empty_dir_view)
  moreover have "pc_control_genesis sample_cfg = genesis_digest"
    by (simp add: sample_cfg_def)
  ultimately show ?thesis
    using founding_resumes [OF stopped_resumable, of sample_cfg founder sample_signer] sample_founding_laws by auto
qed

text \<open>The first attempt of the device stops when the founding record cannot be read back.\<close>

lemma sample_new_genesis: "new_genesis sample_lib ''w'' founder sample_signer = Inr (genesis_blob, genesis_digest)"
proof -
  have f: "founder\<lparr>pr_admin := True\<rparr> = founder"
    by (simp only: founder_def principal.update_convs)
  have c: "\<lparr>ct_workspace = ''w'', ct_parents = [], ct_height = 0, ct_principals = [founder], ct_author = pr_id founder\<rparr> = genesis_control"
    by (simp add: genesis_control_def)
  have can: "control_canonical genesis_control = genesis_control" "ct_author genesis_control = pr_id founder"
    by (simp_all add: control_canonical_def genesis_control_def)
  have m: "marshal (wl_control sample_lib) genesis_control = Inr ''0''"
    by (simp add: marshal_def sample_lib_def one_codec_def)
  have v: "control_validate sample_lib genesis_control = Inr ()"
    unfolding control_validate_Inr by (rule sample_controls_ok(1))
  have "sign_control sample_lib genesis_control sample_signer = Inr genesis_blob"
    by (simp add: sign_control_def can m v sample_signer_def signer_sign_def sample_encode genesis_blob_def)
  moreover have "dl_from_bytes sample_digest_lib genesis_blob = genesis_digest"
    by (simp add: genesis_digest_def)
  ultimately show ?thesis
    using sample_genesis by (simp add: new_genesis_def f c Let_def)
qed

definition unset_cfg :: project_config where
  "unset_cfg = sample_cfg\<lparr>pc_control_genesis := []\<rparr>"

definition lost_read :: device_faults where
  "lost_read = calm_device\<lparr>df_pending_read := True\<rparr>"

lemma sample_stops:
  "ensure_control (on_device sample_init sample_libs lost_read ''enbu.toml'') (device_store sample_lib) unset_cfg ''w'' founder
     sample_signer new_device = (stopped_device, Inl (Plain CauseOther))"
proof -
  have p: "trust_pinned sample_lib trust_sample_json calm None = Inr zero_root"
    by (simp add: trust_pinned_def read_file_def calm_sel)
  have un: "storage_unused (device_store sample_lib) [KindControl, KindRequest] new_device = (new_device, Inr ())"
    by (simp add: act_defs device_store_def lift_store_def local_ops_def local_discover_def name_prefix_def valid_scope_def
        new_device_def empty_dir_def)
  have cfg: "pc_control_genesis unset_cfg = []" "unset_cfg\<lparr>pc_control_genesis := genesis_digest\<rparr> = sample_cfg"
    by (simp_all add: unset_cfg_def sample_cfg_def)
  have pins: "lift_trust (to_pinned (ap_trust (su_app (on_device sample_init sample_libs lost_read ''enbu.toml'')) ''w'')) new_device
      = (new_device, Inr zero_root)" "repo_pinned (on_device sample_init sample_libs lost_read ''enbu.toml'') new_device = (new_device, Inr zero_root)"
    using p by (simp_all add: repo_pinned_def device_pins trust_root_ops_def lift_trust_def lost_read_def calm_device_def
        sample_libs_def new_device_def)
  have enc: "fl_encode sample_libs \<lparr>pn_root = \<lparr>rt_workspace = ''w'', rt_genesis = genesis_digest\<rparr>, pn_repository = ''enbu.toml'',
      pn_previous_repo = zero_root, pn_genesis = genesis_blob\<rparr> = Some ''p''"
    by (simp add: sample_libs_def sample_pending_def founding_root_def)
  have wr: "su_write_pending (on_device sample_init sample_libs lost_read ''enbu.toml'') p b w = (put_file p (Some b) w, Inr ())" for p b w
    by (simp add: on_device_def Let_def lost_read_def calm_device_def)
  have sv: "ap_save_project (su_app (on_device sample_init sample_libs lost_read ''enbu.toml'')) c v = (v\<lparr>dv_config := Some c\<rparr>, Inr ())" for c v
    by (simp add: on_device_def Let_def lost_read_def calm_device_def)
  have found: "found_workspace (on_device sample_init sample_libs lost_read ''enbu.toml'') (device_store sample_lib) unset_cfg ''w''
      founder sample_signer new_device = (stopped_device, Inr sample_cfg)"
    unfolding found_workspace_def
    by (simp only: act_bind_def act_pure_def lift_wsp_def Let_def act_ok_def on_device_sel sample_init_lib pending_path un pins
        sample_new_genesis cfg(2) enc wr sv stopped_device_def prod.case sum.case option.case if_False if_True simp_thms)
  have "su_read_pending (on_device sample_init sample_libs lost_read ''enbu.toml'') p s = (s, Inl (Plain CauseOther))" for p s
    by (simp add: on_device_def Let_def lost_read_def)
  then show ?thesis
    using found cfg(1) by (simp add: ensure_control_def act_bind_def act_pure_def)
qed

theorem founding_interrupted_witness:
  "\<exists>g prev blob v. dv_config stopped_device = Some (unset_cfg\<lparr>pc_control_genesis := g\<rparr>)
     \<and> resumable sample_init sample_libs ''enbu.toml'' ''w'' g prev blob v stopped_device"
proof -
  have ne: "dv_config stopped_device \<noteq> dv_config new_device" "df_save lost_read = None"
    by (simp_all add: stopped_device_def new_device_def lost_read_def calm_device_def)
  have "(untouched new_device stopped_device (su_lib sample_init) sample_libs ''enbu.toml'' ''w''
        \<and> (dv_config stopped_device = dv_config new_device \<or> df_save lost_read = Some (dv_config stopped_device)))
    \<or> (\<exists>g prev blob v. dv_config stopped_device = Some (unset_cfg\<lparr>pc_control_genesis := g\<rparr>)
         \<and> repo_pin_of (su_lib sample_init) sample_libs ''enbu.toml'' new_device = Some prev
         \<and> resumable sample_init sample_libs ''enbu.toml'' ''w'' g prev blob v stopped_device)"
  proof (rule founding_interrupted)
    show "ensure_control (on_device sample_init sample_libs lost_read ''enbu.toml'') (device_store (su_lib sample_init)) unset_cfg ''w''
        founder sample_signer new_device = (stopped_device, Inl (Plain CauseOther))"
      using sample_stops by simp
  qed (use sample_founding_laws empty_dir_inv in \<open>simp_all add: new_device_def unset_cfg_def\<close>)
  then show ?thesis
    using ne by auto
qed

end
