(* ===== verification/Init_Props.thy ===== *)
theory Init_Props
  imports Founding Session_Props
begin

text \<open>
  \<open>enbu init\<close> while the Control of the workspace is forked (two admins changed it at the same time):
  \<open>ensureControl\<close> succeeds and leaves the session without a head, which \<open>InitializeRepository\<close> then
  asks for the principal of this device.
\<close>

lemma verify_control_head:
  assumes "verify_control ap st cfg ws an fd fr s = (s', Inr (cps, view, head, replaced))"
  shows "head = (if cv_forked view then None else Some (cv_heads view ! 0))"
  using assms by (auto simp: verify_control_def act_bind_def act_ok_def act_fail_def Let_def split: if_splits prod.splits sum.splits)

lemma ensure_control_head:
  assumes "ensure_control su st cfg ws fnd sg s = (s', Inr en)"
  shows "en_head en = (if cv_forked (en_view en) then None else Some (cv_heads (en_view en) ! 0))"
  using assms unfolding ensure_control_def act_bind_def [of _ "\<lambda>x. act_ok _"] 
  by (auto simp: act_bind_def act_ok_def dest!: verify_control_head split: prod.splits sum.splits)


subsection \<open>A forked workspace\<close>

text \<open>The same successor of the genesis, signed twice: two Controls with different revisions.\<close>

definition twin_sig :: bytes where
  "twin_sig = replicate 64 (CHR ''t'')"

definition twin_blob :: bytes where "twin_blob = twin_sig @ ''1''"
definition twin_digest :: digest where "twin_digest = dl_from_bytes sample_digest_lib twin_blob"

definition twin_verified :: verified where
  "twin_verified = \<lparr>vf_control = child_control, vf_digest = twin_digest\<rparr>"

definition forked_store :: "unit store_ops" where
  "forked_store = sample_store\<lparr>
     so_discover := (\<lambda>k sc s. (s, Inr [child_digest, twin_digest])),
     so_fetch_head := (\<lambda>k sc rv s. (s, if rv = genesis_digest then Inr genesis_blob else if rv = child_digest then Inr child_blob
                                       else if rv = twin_digest then Inr twin_blob else Inl SNotFound))\<rparr>"

lemma twin_digests: "twin_digest \<noteq> genesis_digest" "twin_digest \<noteq> child_digest"
  unfolding genesis_digest_def child_digest_def twin_digest_def genesis_blob_def child_blob_def twin_blob_def sample_sig_def twin_sig_def
  by code_simp+

lemma twin_decode: "decode_signed sample_lib twin_blob = Inr \<lparr>sd_body = ''1'', sd_signature = twin_sig\<rparr>"
  by (auto simp: decode_signed_Inr sample_lib_def max_signed_bytes_def twin_blob_def twin_sig_def)

lemma twin_verify: "validate_domain dn = Inr () \<Longrightarrow> verify sample_crypto sample_key dn body twin_sig = Inr ()"
  by (simp add: verify_def sample_crypto_def sample_key_def key_validate_def alg_ed25519_def alg_p256_def Let_def twin_sig_def)

lemma twin_child: "verify_child sample_lib [genesis_verified] twin_blob = Inr twin_verified"
proof -
  have "ct_parents child_control = [genesis_digest]" "ct_workspace child_control = ''w''"
    "ct_author child_control = pr_id founder" "ct_height child_control = 1"
    "ct_workspace genesis_control = ''w''" "ct_height genesis_control = 0"
    by (simp_all add: genesis_control_def child_control_def)
  then show ?thesis
    by (simp add: verify_child_def twin_decode twin_verify twin_verified_def genesis_verified_def) (simp add: twin_digest_def)
qed

lemma sort_two: "sort_digests [a, b] = [a, b] \<or> sort_digests [a, b] = [b, a]"
  by (simp add: sort_digests_def)

lemma two_children:
  assumes "verify_child sample_lib [genesis_verified] b1 = Inr v1" "verify_child sample_lib [genesis_verified] b2 = Inr v2"
    and "vf_digest v1 = d1" "vf_digest v2 = d2" "vf_control v1 = child_control" "vf_control v2 = child_control"
    and "d1 \<noteq> genesis_digest" "d2 \<noteq> genesis_digest" "d1 \<noteq> d2"
  shows "accept_loop sample_lib [(d1, b1, child_control), (d2, b2, child_control)] [(genesis_digest, genesis_verified)]
      = [(genesis_digest, genesis_verified), (d1, v1), (d2, v2)]"
    and "length (view_heads [(genesis_digest, genesis_verified), (d1, v1), (d2, v2)]) = 2"
proof -
  have ws: "ct_parents child_control = [genesis_digest]" "ct_parents genesis_control = []"
    by (simp_all add: child_control_def genesis_control_def)
  have pass: "accept_pass sample_lib [(d1, b1, child_control), (d2, b2, child_control)] [(genesis_digest, genesis_verified)]
      = ([(genesis_digest, genesis_verified), (d1, v1), (d2, v2)], [], True)"
    using assms by (simp add: accept_pass_Cons step_view_def ready_parents_def ws gm_get_def gm_put_def)
  show "accept_loop sample_lib [(d1, b1, child_control), (d2, b2, child_control)] [(genesis_digest, genesis_verified)]
      = [(genesis_digest, genesis_verified), (d1, v1), (d2, v2)]"
    unfolding accept_loop.simps [of _ "_ # _"] pass by (simp add: accept_loop.simps)
  show "length (view_heads [(genesis_digest, genesis_verified), (d1, v1), (d2, v2)]) = 2"
    using assms ws by (simp add: view_heads_def Let_def sort_verified_def genesis_verified_def)
qed

lemma forked_load:
  "\<exists>view. load_control sample_lib forked_store ''w'' genesis_digest [] () = ((), Inr view) \<and> cv_forked view"
proof -
  have ws: "ct_workspace child_control = ''w''" "ct_parents child_control = [genesis_digest]"
    by (simp_all add: child_control_def genesis_control_def)
  note ne = digests_differ [symmetric] twin_digests
  have len: "length child_blob = 65" "length twin_blob = 65" "length genesis_blob = 65"
    by (simp_all add: child_blob_def twin_blob_def twin_sig_def genesis_blob_def)
  have dec: "decode_signed sample_lib child_blob = Inr \<lparr>sd_body = ''1'', sd_signature = sample_sig\<rparr>"
    by (simp add: child_blob_def)
  have heads: "vf_digest child_verified = child_digest" "vf_digest twin_verified = twin_digest"
    "vf_control child_verified = child_control" "vf_control twin_verified = child_control"
    by (simp_all add: child_verified_def twin_verified_def)
  have fetch: "so_fetch_head forked_store KindControl [] child_digest () = ((), Inr child_blob)"
    "so_fetch_head forked_store KindControl [] twin_digest () = ((), Inr twin_blob)"
    "so_fetch_head forked_store KindControl [] genesis_digest () = ((), Inr genesis_blob)"
    "so_discover forked_store KindControl [] () = ((), Inr [child_digest, twin_digest])"
    using ne by (simp_all add: forked_store_def)
  consider "sort_digests [child_digest, twin_digest] = [child_digest, twin_digest]"
    | "sort_digests [child_digest, twin_digest] = [twin_digest, child_digest]"
    using sort_two [of child_digest twin_digest] by metis
  then show ?thesis
  proof cases
    case 1
    have q: "load_queue sample_lib forked_store ''w'' [child_digest, twin_digest] [genesis_digest] 65 [] () =
        ((), Inr [(child_digest, child_blob, child_control), (twin_digest, twin_blob, child_control)])"
      using ne ws len dec twin_decode fetch by (simp add: max_controls_def max_control_bytes_def gm_put_def)
    show ?thesis
      using two_children [OF sample_child twin_child heads ne(1,2) ne(3) [symmetric]] q 1 len fetch sample_genesis
      by (simp add: load_control_def max_controls_def max_control_bytes_def Let_def cv_forked_def)
  next
    case 2
    have q: "load_queue sample_lib forked_store ''w'' [twin_digest, child_digest] [genesis_digest] 65 [] () =
        ((), Inr [(twin_digest, twin_blob, child_control), (child_digest, child_blob, child_control)])"
      using ne ws len dec twin_decode fetch by (simp add: max_controls_def max_control_bytes_def gm_put_def)
    show ?thesis
      using two_children [OF twin_child sample_child heads(2,1,4,3) ne(2,1,3)] q 2 len fetch sample_genesis
      by (simp add: load_control_def max_controls_def max_control_bytes_def Let_def cv_forked_def)
  qed
qed

text \<open>A device that has no founding record, on its second \<open>enbu init\<close>.\<close>

definition fork_init :: "unit init_env" where
  "fork_init = \<lparr>su_app = sample_app,
     su_accept_new = False, su_new_id = (\<lambda>s. (s, ''w'')), su_store = (\<lambda>cfg. Inr forked_store),
     su_init_storage = None, su_storage_url = [], su_load_repo = act_ok (''owner'', ''repo''), su_config_path = Inr ''enbu.toml'',
     su_checkpoint_dir = ''checkpoints'', su_read_pending = (\<lambda>p. act_ok None), su_write_pending = (\<lambda>p b. act_ok ()),
     su_remove_pending = (\<lambda>p s. s), su_encode = (\<lambda>p. None), su_decode = (\<lambda>b. None),
     su_create_identity = (\<lambda>ws. act_ok \<lparr>ni_recipient = ''age1n'', ni_created = True, ni_warning = [], ni_decrypt = Inr\<rparr>),
     su_create_signer = (\<lambda>ws. act_ok (sample_signer, []))\<rparr>"


end
