(* ===== verification/Identities.thy ===== *)
theory Identities
  imports Session
begin

text \<open>
  The keys of a device, \<open>pkg/identity/manager.go\<close>, \<open>signer.go\<close> and the errors of \<open>identity.go\<close>: the metadata
  files (the current identity of a workspace, the one waiting for the approval of a key update, the one it
  replaced, and the signing key), where the key material is kept, and the operations that create, load and
  exchange them.

  The files and directories are \<open>id_files\<close>, a keyring or systemd-creds is a \<open>vault\<close>, a TPM or Secure Enclave a
  \<open>hardware\<close>; what age, HPKE, JSON and the random generator do is in \<open>id_lib\<close>.  Closing keys and clearing
  memory have no effect on the model.
\<close>

subsection \<open>Errors\<close>

definition unavailable :: "(go_error \<Rightarrow> string) \<Rightarrow> string \<Rightarrow> go_error option \<Rightarrow> go_error" where
  "unavailable error_text reason cause =
     (case cause of
        None \<Rightarrow> Plain (CauseUnavailable reason)
      | Some e \<Rightarrow> Wrapping [Plain (CauseUnavailable (reason @ '': '' @ error_text e)), e])"

definition keyring_error :: "(go_error \<Rightarrow> string) \<Rightarrow> string \<Rightarrow> go_error \<Rightarrow> go_error" where
  "keyring_error error_text op err =
     (if errors_is CauseNotExist err then Wrapping [err] else unavailable error_text op (Some err))"

subsection \<open>Data\<close>

record public_info =
  pi_created :: bool
  pi_backend :: string
  pi_algorithm :: string
  pi_recipient :: string
  pi_device :: string
  pi_device_id :: string
  pi_fingerprint :: string

text \<open>\<open>Metadata\<close>, and \<open>SignerMetadata\<close>; what a TPM certified is kept as its bytes.\<close>

record id_metadata =
  im_version :: int
  im_info :: public_info
  im_public_key :: bytes
  im_reference :: string
  im_tpm_public :: bytes
  im_tpm_private :: bytes
  im_tpm_name :: bytes
  im_tpm_parent_name :: bytes
  im_tpm_auth_credential :: bytes
  im_tpm_certified :: "bytes option"
  im_enclave_key :: bytes
  im_pq_reference :: string
  im_tpm_seal_public :: bytes
  im_tpm_seal_private :: bytes
  im_enclave_seal :: bytes

record signer_metadata =
  sm_version :: int
  sm_backend :: string
  sm_algorithm :: string
  sm_device :: string
  sm_public_key :: public_key
  sm_device_id :: string
  sm_reference :: string
  sm_tpm_public :: bytes
  sm_tpm_private :: bytes
  sm_tpm_name :: bytes
  sm_tpm_parent_name :: bytes
  sm_tpm_auth_credential :: bytes
  sm_tpm_certified :: "bytes option"
  sm_enclave_key :: bytes

record signer_info =
  si_created :: bool
  si_backend :: string
  si_algorithm :: string
  si_device :: string
  si_device_id :: string
  si_fingerprint :: string

text \<open>A loaded identity: which Go type it has, its recipient, and the public key of a hardware key.\<close>

datatype identity_type = TaggedIdentity | SoftwareIdentity | HybridSoftwareIdentity | OtherIdentity

record identity =
  id_type :: identity_type
  id_recipient :: string
  id_public :: bytes

record diagnosis =
  dg_backend :: string
  dg_device :: string
  dg_available :: bool
  dg_reason :: string
  dg_fallback_available :: bool
  dg_fallback :: string
  dg_fallback_reason :: string

definition no_diagnosis :: diagnosis where
  "no_diagnosis = \<lparr>dg_backend = [], dg_device = [], dg_available = False, dg_reason = ''hardware backend unavailable'',
     dg_fallback_available = False, dg_fallback = [], dg_fallback_reason = []\<rparr>"

subsection \<open>Collaborators\<close>

text \<open>Only some vaults can be probed.\<close>

record 's vault =
  va_probe :: "('s, unit) act option"
  va_store :: "string \<Rightarrow> string \<Rightarrow> bytes \<Rightarrow> ('s, unit) act"
  va_load :: "string \<Rightarrow> string \<Rightarrow> ('s, bytes) act"
  va_delete :: "string \<Rightarrow> string \<Rightarrow> ('s, unit) act"

record 's seed_sealer =
  sl_seal :: "id_metadata \<Rightarrow> bytes \<Rightarrow> 's \<Rightarrow> 's \<times> id_metadata \<times> (go_error + unit)"
  sl_unseal :: "id_metadata \<Rightarrow> ('s, bytes) act"

record 's signer_backend =
  sb_create :: "('s, signer option \<times> signer_metadata option) act"
  sb_load :: "signer_metadata \<Rightarrow> ('s, signer) act"

record 's hardware =
  hw_probe :: "'s \<Rightarrow> 's \<times> diagnosis"
  hw_create :: "('s, identity \<times> id_metadata) act"
  hw_load :: "id_metadata \<Rightarrow> ('s, identity) act"
  hw_delete :: "(id_metadata \<Rightarrow> ('s, unit) act) option"
  hw_sealer :: "'s seed_sealer option"
  hw_signer :: "'s signer_backend option"
  hw_delete_signer :: "(signer_metadata \<Rightarrow> ('s, unit) act) option"

record 's id_files =
  fi_mkdir :: "('s, unit) act"
  fi_lock :: "string \<Rightarrow> ('s, unit) act"
  fi_unlock :: "string \<Rightarrow> 's \<Rightarrow> 's"
  fi_stat :: "string \<Rightarrow> ('s, unit) act"
  fi_read :: "string \<Rightarrow> ('s, bytes) act"
  fi_write_temp :: "bytes \<Rightarrow> ('s, string) act"
  fi_rename :: "string \<Rightarrow> string \<Rightarrow> ('s, unit) act"
  fi_remove :: "string \<Rightarrow> 's \<Rightarrow> 's"

record 's id_lib =
  il_crypto :: crypto
  il_error_text :: "go_error \<Rightarrow> string"
  il_marshal :: "id_metadata \<Rightarrow> bytes option"
  il_unmarshal :: "bytes \<Rightarrow> id_metadata option"
  il_marshal_signer :: "signer_metadata \<Rightarrow> bytes option"
  il_unmarshal_signer :: "bytes \<Rightarrow> signer_metadata option"
  il_generate_hybrid :: "('s, string) act"
  il_generate_x25519 :: "('s, string) act"
  il_parse_hybrid :: "string \<Rightarrow> string app_result"
  il_parse_x25519 :: "string \<Rightarrow> string app_result"
  il_hybrid_hardware :: "identity \<Rightarrow> bytes \<Rightarrow> string app_result"
  il_random :: "nat \<Rightarrow> ('s, bytes) act"
  il_ed25519 :: "bytes \<Rightarrow> signer"

text \<open>\<open>Manager\<close>.\<close>

record 's id_manager =
  mg_dir :: string
  mg_mode :: string
  mg_vault :: "'s vault option"
  mg_creds :: "'s vault option"
  mg_hardware :: "'s hardware option"
  mg_classical :: bool
  mg_files :: "'s id_files"
  mg_lib :: "'s id_lib"

subsection \<open>Backends\<close>

definition vault_service :: string where "vault_service = ''enbu-identity-v1''"
definition backend_keyring :: string where "backend_keyring = ''keyring''"
definition backend_creds :: string where "backend_creds = ''systemd-creds''"
definition alg_x25519 :: string where "alg_x25519 = ''X25519''"
definition alg_mlkem_x25519 :: string where "alg_mlkem_x25519 = ''MLKEM768-X25519''"
definition alg_mlkem_p256 :: string where "alg_mlkem_p256 = ''MLKEM768-P256''"

definition software_backend :: "string \<Rightarrow> bool" where
  "software_backend b \<longleftrightarrow> b = backend_keyring \<or> b = backend_creds"

definition vault_of :: "'s id_manager \<Rightarrow> string \<Rightarrow> 's vault option" where
  "vault_of m b = (if b = backend_creds then mg_creds m else mg_vault m)"

definition software_name :: "string \<Rightarrow> string" where
  "software_name b = (if b = backend_creds then ''systemd-creds'' else ''OS keyring'')"

definition probe_vault :: "'s vault option \<Rightarrow> ('s, unit) act" where
  "probe_vault v =
     (case v of
        None \<Rightarrow> act_fail (Plain CauseOther)
      | Some v \<Rightarrow> (case va_probe v of None \<Rightarrow> act_ok () | Some probe \<Rightarrow> probe))"

definition software_vault :: "'s id_manager \<Rightarrow> ('s, string \<times> 's vault) act" where
  "software_vault m =
     (let text = il_error_text (mg_lib m)
      in act_bind (act_try (probe_vault (mg_vault m))) (\<lambda>r.
         case r of
           Inr _ \<Rightarrow> (case mg_vault m of Some v \<Rightarrow> act_ok (backend_keyring, v) | None \<Rightarrow> act_fail (Plain CausePanic))
         | Inl e \<Rightarrow>
             (case mg_creds m of
                None \<Rightarrow> act_fail (unavailable text ''OS keyring unavailable'' (Some e))
              | Some creds \<Rightarrow>
                  act_bind (act_try (probe_vault (Some creds))) (\<lambda>r2.
                    case r2 of
                      Inr _ \<Rightarrow> act_ok (backend_creds, creds)
                    | Inl e2 \<Rightarrow> act_fail (unavailable text ''OS keyring and systemd-creds unavailable''
                        (Some (Wrapping [e, e2])))))))"

definition manager_mode :: "'s id_manager \<Rightarrow> string app_result" where
  "manager_mode m =
     (if mg_mode m = [] \<or> mg_mode m = ''auto'' then Inr ''auto''
      else if mg_mode m = ''hardware'' \<or> mg_mode m = ''keyring'' then Inr (mg_mode m)
      else Inl (Plain CauseOther))"

text \<open>A saved key that the chosen mode does not allow.\<close>

definition mode_refuses :: "string \<Rightarrow> string \<Rightarrow> bool" where
  "mode_refuses mode backend \<longleftrightarrow>
     mode = ''hardware'' \<and> software_backend backend \<or> mode = ''keyring'' \<and> \<not> software_backend backend"

subsection \<open>Files\<close>

text \<open>The name of the files of a workspace without its extension; \<open>slotPath\<close> and \<open>SignerPath\<close> cut it off again.\<close>

definition identity_stem :: "'s id_manager \<Rightarrow> string \<Rightarrow> string" where
  "identity_stem m ws = mg_dir m @ ''/'' @ hex_encode (cr_sha256 (il_crypto (mg_lib m)) ws)"

definition identity_path :: "'s id_manager \<Rightarrow> string \<Rightarrow> string" where
  "identity_path m ws = identity_stem m ws @ ''.json''"

definition slot_path :: "'s id_manager \<Rightarrow> string \<Rightarrow> string \<Rightarrow> string" where
  "slot_path m ws slot = identity_stem m ws @ ''.'' @ slot @ ''.json''"

definition signer_path :: "'s id_manager \<Rightarrow> string \<Rightarrow> string" where
  "signer_path m ws = identity_stem m ws @ ''.signing.json''"

definition write_identity_file :: "'s id_files \<Rightarrow> string \<Rightarrow> bytes \<Rightarrow> ('s, unit) act" where
  "write_identity_file fi path b =
     act_bind (fi_write_temp fi b) (\<lambda>tmp s.
       case fi_rename fi tmp path s of (s', r) \<Rightarrow> (fi_remove fi tmp s', r))"

definition save_json :: "'s id_files \<Rightarrow> string \<Rightarrow> bytes option \<Rightarrow> ('s, unit) act" where
  "save_json fi path encoded =
     (case encoded of None \<Rightarrow> act_fail (Plain CauseOther) | Some b \<Rightarrow> write_identity_file fi path b)"

definition parse_metadata :: "'s id_lib \<Rightarrow> bytes \<Rightarrow> id_metadata app_result" where
  "parse_metadata il b =
     (case il_unmarshal il b of
        None \<Rightarrow> Inl (Plain CauseOther)
      | Some md \<Rightarrow>
          if im_version md \<noteq> 1 then Inl (Plain CauseOther)
          else if pi_backend (im_info md) = [] \<or> pi_recipient (im_info md) = [] \<or> im_public_key md = []
          then Inl (Plain CauseOther)
          else Inr md)"

definition read_path :: "'s id_manager \<Rightarrow> string \<Rightarrow> ('s, id_metadata) act" where
  "read_path m path = act_bind (fi_read (mg_files m) path) (\<lambda>b. act_pure (parse_metadata (mg_lib m) b))"

definition read_identity :: "'s id_manager \<Rightarrow> string \<Rightarrow> ('s, id_metadata) act" where
  "read_identity m ws = read_path m (identity_path m ws)"

text \<open>A creation or promotion holds the lock of the file while it runs.\<close>

definition with_lock :: "'s id_files \<Rightarrow> string \<Rightarrow> ('s, 'a) act \<Rightarrow> ('s, 'a) act" where
  "with_lock fi path body =
     act_bind (act_map_err (\<lambda>e. Wrapping [e]) (fi_lock fi path)) (\<lambda>_ s.
       case body s of (s', r) \<Rightarrow> (fi_unlock fi path s', r))"

subsection \<open>Loading\<close>

definition parse_keyring_identity :: "'s id_lib \<Rightarrow> string \<Rightarrow> string \<Rightarrow> identity app_result" where
  "parse_keyring_identity il alg secret =
     (if alg = alg_mlkem_x25519
      then res_bind (il_parse_hybrid il secret) (\<lambda>r. Inr \<lparr>id_type = HybridSoftwareIdentity, id_recipient = r, id_public = []\<rparr>)
      else res_bind (il_parse_x25519 il secret) (\<lambda>r. Inr \<lparr>id_type = SoftwareIdentity, id_recipient = r, id_public = []\<rparr>))"

definition public_key_matches :: "identity \<Rightarrow> bytes \<Rightarrow> bool" where
  "public_key_matches i public =
     (case id_type i of
        TaggedIdentity \<Rightarrow> id_public i = public
      | SoftwareIdentity \<Rightarrow> id_recipient i = public
      | HybridSoftwareIdentity \<Rightarrow> id_recipient i = public
      | OtherIdentity \<Rightarrow> False)"

definition load_seed :: "'s id_manager \<Rightarrow> id_metadata \<Rightarrow> ('s, bytes) act" where
  "load_seed m md =
     (if im_tpm_seal_public md \<noteq> [] \<or> im_enclave_seal md \<noteq> [] then
        (case Option.bind (mg_hardware m) hw_sealer of
           None \<Rightarrow> act_fail (Plain CauseOther)
         | Some sl \<Rightarrow> sl_unseal sl md)
      else if im_pq_reference md = [] then act_fail (Plain CauseOther)
      else
        case mg_vault m of
          None \<Rightarrow> act_fail (unavailable (il_error_text (mg_lib m)) ''keyring unavailable'' None)
        | Some v \<Rightarrow>
            act_map_err (keyring_error (il_error_text (mg_lib m)) ''loading ML-KEM seed'')
              (va_load v vault_service (im_pq_reference md)))"

text \<open>The seed is stored before the metadata says so; the metadata names its entry even when storing it fails.\<close>

definition store_seed :: "'s id_manager \<Rightarrow> id_metadata \<Rightarrow> bytes \<Rightarrow> 's \<Rightarrow> 's \<times> id_metadata \<times> (go_error + unit)" where
  "store_seed m md seed s =
     (case Option.bind (mg_hardware m) hw_sealer of
        Some sl \<Rightarrow> sl_seal sl md seed s
      | None \<Rightarrow>
          (case mg_vault m of
             None \<Rightarrow> (s, md, Inl (unavailable (il_error_text (mg_lib m)) ''OS keyring unavailable for the ML-KEM seed'' None))
           | Some v \<Rightarrow>
               (case il_random (mg_lib m) 24 s of
                  (s1, Inl e) \<Rightarrow> (s1, md, Inl e)
                | (s1, Inr ref) \<Rightarrow>
                    let md = md\<lparr>im_pq_reference := hex_encode ref\<rparr>
                    in case act_map_err (keyring_error (il_error_text (mg_lib m)) ''saving ML-KEM seed'')
                              (va_store v vault_service (im_pq_reference md) seed) s1 of
                         (s2, r) \<Rightarrow> (s2, md, r))))"

definition pair_hybrid :: "'s id_lib \<Rightarrow> identity \<Rightarrow> id_metadata \<Rightarrow> bytes \<Rightarrow> id_metadata \<times> (go_error + identity)" where
  "pair_hybrid il i md seed =
     (case il_hybrid_hardware il i seed of
        Inl e \<Rightarrow> (md, Inl e)
      | Inr r \<Rightarrow>
          (if pi_algorithm (im_info md) \<noteq> alg_mlkem_p256
           then md\<lparr>im_info := (im_info md)\<lparr>pi_algorithm := alg_mlkem_p256, pi_recipient := r\<rparr>\<rparr> else md,
           Inr \<lparr>id_type = TaggedIdentity, id_recipient = r, id_public = id_public i\<rparr>))"

definition hybrid_hardware ::
  "'s id_manager \<Rightarrow> identity \<Rightarrow> id_metadata \<Rightarrow> bytes option \<Rightarrow> 's \<Rightarrow> 's \<times> id_metadata \<times> (go_error + identity)" where
  "hybrid_hardware m i md seed s =
     (if id_type i \<noteq> TaggedIdentity then (s, md, Inl (Plain CauseOther))
      else
        case (case seed of
                Some sd \<Rightarrow> (case store_seed m md sd s of (s', md', r) \<Rightarrow> (s', md', map_sum id (\<lambda>_. sd) r))
              | None \<Rightarrow> (case load_seed m md s of (s', r) \<Rightarrow> (s', md, r))) of
          (s', md', Inl e) \<Rightarrow> (s', md', Inl e)
        | (s', md', Inr sd) \<Rightarrow> (s', pair_hybrid (mg_lib m) i md' sd))"

definition load_software :: "'s id_manager \<Rightarrow> id_metadata \<Rightarrow> ('s, identity) act" where
  "load_software m md =
     (let info = im_info md; text = il_error_text (mg_lib m)
      in if pi_algorithm info \<noteq> alg_x25519 \<and> pi_algorithm info \<noteq> alg_mlkem_x25519 \<or> im_reference md = []
         then act_fail (Plain CauseOther)
         else
           case vault_of m (pi_backend info) of
             None \<Rightarrow> act_fail (unavailable text (pi_backend info @ '' unavailable'') None)
           | Some v \<Rightarrow>
               act_bind (act_map_err (keyring_error text ''loading saved keyring identity'')
                  (va_load v vault_service (im_reference md))) (\<lambda>secret.
               act_map_err (\<lambda>e. Wrapping [e]) (act_pure (parse_keyring_identity (mg_lib m) (pi_algorithm info) secret))))"

definition load_hardware :: "'s id_manager \<Rightarrow> id_metadata \<Rightarrow> ('s, identity) act" where
  "load_hardware m md =
     (case mg_hardware m of
        None \<Rightarrow> act_fail (unavailable (il_error_text (mg_lib m)) ''saved hardware backend unavailable'' None)
      | Some hw \<Rightarrow>
          act_map_err (\<lambda>e. Wrapping [e])
            (act_bind (hw_load hw md) (\<lambda>i s.
               if pi_algorithm (im_info md) = alg_mlkem_p256
               then (case hybrid_hardware m i md None s of (s', md', r) \<Rightarrow> (s', r))
               else (s, Inr i))))"

definition load_path :: "'s id_manager \<Rightarrow> string \<Rightarrow> ('s, identity) act" where
  "load_path m path =
     act_bind (act_pure (manager_mode m)) (\<lambda>mode.
     act_bind (read_path m path) (\<lambda>md.
       if mode_refuses mode (pi_backend (im_info md)) then act_fail (Plain CauseOther)
       else
         act_bind (if software_backend (pi_backend (im_info md)) then load_software m md else load_hardware m md) (\<lambda>i.
           if id_recipient i \<noteq> pi_recipient (im_info md) \<or> \<not> public_key_matches i (im_public_key md)
           then act_fail (Plain CauseOther) else act_ok i)))"

definition load_identity :: "'s id_manager \<Rightarrow> string \<Rightarrow> ('s, identity) act" where
  "load_identity m ws = load_path m (identity_path m ws)"

text \<open>The other identities that can still decrypt; a slot without a file, or whose key is gone, is passed over.\<close>

fun load_slots :: "'s id_manager \<Rightarrow> string \<Rightarrow> string list \<Rightarrow> ('s, identity list) act" where
  "load_slots m ws [] = act_ok []"
| "load_slots m ws (slot # slots) =
     act_bind (act_try (load_path m (slot_path m ws slot))) (\<lambda>r.
       case r of
         Inl e \<Rightarrow> if errors_is CauseNotExist e then load_slots m ws slots else act_fail (Wrapping [e])
       | Inr i \<Rightarrow> act_bind (load_slots m ws slots) (\<lambda>is. act_ok (i # is)))"

definition load_retained :: "'s id_manager \<Rightarrow> string \<Rightarrow> ('s, identity list) act" where
  "load_retained m ws = load_slots m ws [''next'', ''previous'']"

definition identity_info :: "'s id_manager \<Rightarrow> string \<Rightarrow> ('s, public_info) act" where
  "identity_info m ws =
     act_bind (load_identity m ws) (\<lambda>i. act_bind (read_identity m ws) (\<lambda>md. act_ok (im_info md)))"

definition pending_info :: "'s id_manager \<Rightarrow> string \<Rightarrow> ('s, public_info) act" where
  "pending_info m ws = act_bind (read_path m (slot_path m ws ''next'')) (\<lambda>md. act_ok (im_info md))"

subsection \<open>Creating\<close>

text \<open>The errors of a clean-up are ignored.\<close>

definition ignore_errors :: "('s, unit) act \<Rightarrow> 's \<Rightarrow> 's" where
  "ignore_errors a s = fst (a s)"

definition delete_hardware :: "'s id_manager \<Rightarrow> id_metadata \<Rightarrow> 's \<Rightarrow> 's" where
  "delete_hardware m md s =
     (let s = (case mg_vault m of
                 Some v \<Rightarrow> if im_pq_reference md \<noteq> [] then ignore_errors (va_delete v vault_service (im_pq_reference md)) s else s
               | None \<Rightarrow> s)
      in case Option.bind (mg_hardware m) hw_delete of None \<Rightarrow> s | Some del \<Rightarrow> ignore_errors (del md) s)"

definition delete_key_material :: "'s id_manager \<Rightarrow> id_metadata \<Rightarrow> 's \<Rightarrow> 's" where
  "delete_key_material m md s =
     (if software_backend (pi_backend (im_info md)) then
        (case vault_of m (pi_backend (im_info md)) of
           None \<Rightarrow> s
         | Some v \<Rightarrow> ignore_errors (va_delete v vault_service (im_reference md)) s)
      else delete_hardware m md s)"

definition empty_info :: public_info where
  "empty_info = \<lparr>pi_created = False, pi_backend = [], pi_algorithm = [], pi_recipient = [], pi_device = [], pi_device_id = [],
     pi_fingerprint = []\<rparr>"

definition empty_metadata :: id_metadata where
  "empty_metadata = \<lparr>im_version = 0, im_info = empty_info, im_public_key = [], im_reference = [], im_tpm_public = [],
     im_tpm_private = [], im_tpm_name = [], im_tpm_parent_name = [], im_tpm_auth_credential = [], im_tpm_certified = None,
     im_enclave_key = [], im_pq_reference = [], im_tpm_seal_public = [], im_tpm_seal_private = [], im_enclave_seal = []\<rparr>"

definition generate_keyring_identity :: "'s id_lib \<Rightarrow> bool \<Rightarrow> ('s, string \<times> string) act" where
  "generate_keyring_identity il classical =
     (if \<not> classical then act_bind (il_generate_hybrid il) (\<lambda>key. act_ok (alg_mlkem_x25519, key))
      else act_bind (il_generate_x25519 il) (\<lambda>key. act_ok (alg_x25519, key)))"

definition create_software :: "'s id_manager \<Rightarrow> bool \<Rightarrow> ('s, identity \<times> id_metadata) act" where
  "create_software m classical =
     (let il = mg_lib m
      in act_bind (software_vault m) (\<lambda>(backend, v).
         act_bind (generate_keyring_identity il classical) (\<lambda>(alg, secret).
         act_bind (act_pure (parse_keyring_identity il alg secret)) (\<lambda>key.
         act_bind (il_random il 24) (\<lambda>ref.
         let md = empty_metadata\<lparr>im_version := 1,
               im_info := empty_info\<lparr>pi_backend := backend, pi_algorithm := alg, pi_recipient := id_recipient key\<rparr>,
               im_public_key := id_recipient key, im_reference := hex_encode ref\<rparr>
         in act_bind (act_map_err (keyring_error (il_error_text il) ''saving OS keyring identity'')
              (va_store v vault_service (im_reference md) secret)) (\<lambda>_. act_ok (key, md)))))))"

definition create_hardware :: "'s id_manager \<Rightarrow> 's hardware \<Rightarrow> bool \<Rightarrow> ('s, identity \<times> id_metadata) act" where
  "create_hardware m hw classical =
     act_bind (hw_create hw) (\<lambda>(i, md) s.
       if classical then (s, Inr (i, md))
       else
         case il_random (mg_lib m) 64 s of
           (s1, Inl e) \<Rightarrow> (delete_hardware m md s1, Inl e)
         | (s1, Inr seed) \<Rightarrow>
             (case hybrid_hardware m i md (Some seed) s1 of
                (s2, md2, Inl e) \<Rightarrow> (delete_hardware m md2 s2, Inl e)
              | (s2, md2, Inr h) \<Rightarrow> (s2, Inr (h, md2))))"

text \<open>The hardware when the mode allows it and it is there, otherwise the software backend with a warning.\<close>

definition create_key :: "'s id_manager \<Rightarrow> string \<Rightarrow> bool \<Rightarrow> ('s, identity \<times> id_metadata \<times> string) act" where
  "create_key m mode classical =
     (let probe = (\<lambda>s. case mg_hardware m of None \<Rightarrow> (s, Inr no_diagnosis)
                       | Some hw \<Rightarrow> (case hw_probe hw s of (s', d) \<Rightarrow> (s', Inr d)))
      in if mode = ''keyring'' then act_bind (create_software m classical) (\<lambda>(i, md). act_ok (i, md, []))
         else
           act_bind probe (\<lambda>d.
           case (if dg_available d then mg_hardware m else None) of
             Some hw \<Rightarrow> act_bind (create_hardware m hw classical) (\<lambda>(i, md). act_ok (i, md, []))
           | None \<Rightarrow>
               if mode = ''hardware''
               then act_fail (unavailable (il_error_text (mg_lib m)) (''hardware identity unavailable: '' @ dg_reason d) None)
               else act_bind (create_software m classical) (\<lambda>(i, md). act_ok (i, md,
                      ''Hardware identity unavailable: '' @ dg_reason d @ ''; using '' @ software_name (pi_backend (im_info md))
                        @ '' (X25519).''))))"

text \<open>The metadata is saved last; a failure takes the new key back.\<close>

definition create_new :: "'s id_manager \<Rightarrow> string \<Rightarrow> string \<Rightarrow> bool \<Rightarrow> ('s, identity \<times> public_info \<times> string) act" where
  "create_new m path mode classical =
     act_bind (create_key m mode classical) (\<lambda>(i, md, warning) s.
       let md = md\<lparr>im_version := 1\<rparr>
       in case save_json (mg_files m) path (il_marshal (mg_lib m) md) s of
            (s', Inr _) \<Rightarrow> (s', Inr (i, (im_info md)\<lparr>pi_created := True\<rparr>, warning))
          | (s', Inl e) \<Rightarrow> (delete_key_material m md s', Inl e))"

definition create_at :: "'s id_manager \<Rightarrow> string \<Rightarrow> bool \<Rightarrow> ('s, identity \<times> public_info \<times> string) act" where
  "create_at m path classical =
     (let fi = mg_files m
      in act_bind (act_pure (manager_mode m)) (\<lambda>mode.
         act_bind (fi_mkdir fi) (\<lambda>_.
         with_lock fi (path @ ''.lockfile'')
           (act_bind (act_try (fi_stat fi path)) (\<lambda>r.
              case r of
                Inr _ \<Rightarrow>
                  act_bind (load_path m path) (\<lambda>i.
                  act_bind (read_path m path) (\<lambda>md. act_ok (i, im_info md, [])))
              | Inl e \<Rightarrow>
                  if \<not> errors_is CauseNotExist e then act_fail e
                  else create_new m path mode classical)))))"

definition create_identity :: "'s id_manager \<Rightarrow> string \<Rightarrow> ('s, identity \<times> public_info \<times> string) act" where
  "create_identity m ws = create_at m (identity_path m ws) (mg_classical m)"

definition create_pending :: "'s id_manager \<Rightarrow> string \<Rightarrow> ('s, identity \<times> public_info \<times> string) act" where
  "create_pending m ws =
     act_bind (read_identity m ws) (\<lambda>_. create_at m (slot_path m ws ''next'') False)"

subsection \<open>Promoting the pending identity\<close>

text \<open>What to do with the key material of the identity that the current one replaces as the previous one.\<close>

definition drop_previous :: "'s id_manager \<Rightarrow> string \<Rightarrow> bytes option \<Rightarrow> ('s, unit) act" where
  "drop_previous m prev current =
     act_bind (act_try (read_path m prev)) (\<lambda>r.
       case r of
         Inr old \<Rightarrow>
           act_bind (fi_read (mg_files m) prev) (\<lambda>saved s.
             if Some saved \<noteq> current \<and> \<not> (current = None \<and> saved = [])
             then (delete_key_material m old s, Inr ()) else (s, Inr ()))
       | Inl e \<Rightarrow> if errors_is CauseNotExist e then act_ok () else act_fail e)"

definition promote_pending :: "'s id_manager \<Rightarrow> string \<Rightarrow> ('s, unit) act" where
  "promote_pending m ws =
     (let fi = mg_files m; path = identity_path m ws; nxt = slot_path m ws ''next''; prev = slot_path m ws ''previous''
      in with_lock fi (path @ ''.lockfile'')
           (act_bind (read_path m nxt) (\<lambda>_.
            act_bind (act_try (fi_read fi path)) (\<lambda>r.
            act_bind (case r of
                Inr b \<Rightarrow> act_ok (Some b)
              | Inl e \<Rightarrow> if errors_is CauseNotExist e then act_ok None else act_fail e) (\<lambda>current.
            act_bind (drop_previous m prev current) (\<lambda>_.
            act_bind (case current of None \<Rightarrow> act_ok () | Some b \<Rightarrow> write_identity_file fi prev b) (\<lambda>_.
              fi_rename fi nxt path)))))))"

subsection \<open>Diagnosis\<close>

definition doctor :: "'s id_manager \<Rightarrow> 's \<Rightarrow> 's \<times> diagnosis" where
  "doctor m s =
     (let text = il_error_text (mg_lib m)
      in case (case mg_hardware m of None \<Rightarrow> (s, no_diagnosis) | Some hw \<Rightarrow> hw_probe hw s) of
           (s1, d) \<Rightarrow>
             (case probe_vault (mg_vault m) s1 of
                (s2, Inr _) \<Rightarrow> (s2, d\<lparr>dg_fallback_available := True, dg_fallback := backend_keyring\<rparr>)
              | (s2, Inl e) \<Rightarrow>
                  let d = d\<lparr>dg_fallback_reason := ''OS keyring unavailable: '' @ text e\<rparr>
                  in case mg_creds m of
                       None \<Rightarrow> (s2, d)
                     | Some creds \<Rightarrow>
                         (case probe_vault (Some creds) s2 of
                            (s3, Inl e2) \<Rightarrow> (s3, d\<lparr>dg_fallback_reason := dg_fallback_reason d
                               @ ''; systemd-creds unavailable: '' @ text e2\<rparr>)
                          | (s3, Inr _) \<Rightarrow> (s3, d\<lparr>dg_fallback_available := True, dg_fallback := backend_creds,
                               dg_fallback_reason := dg_fallback_reason d @ ''; using systemd-creds''\<rparr>))))"

subsection \<open>The signing key\<close>

definition signer_info_of :: "'s id_lib \<Rightarrow> signer_metadata \<Rightarrow> signer_info" where
  "signer_info_of il md =
     \<lparr>si_created = False, si_backend = sm_backend md, si_algorithm = sm_algorithm md, si_device = sm_device md,
      si_device_id = sm_device_id md, si_fingerprint = fingerprint (sm_device_id md)\<rparr>"

definition parse_signer_metadata :: "'s id_lib \<Rightarrow> bytes \<Rightarrow> signer_metadata app_result" where
  "parse_signer_metadata il b =
     (case il_unmarshal_signer il b of
        None \<Rightarrow> Inl (Plain CauseOther)
      | Some md \<Rightarrow>
          if sm_version md \<noteq> 1 then Inl (Plain CauseOther)
          else if sm_backend md = [] \<or> key_validate (il_crypto il) (sm_public_key md) \<noteq> Inr ()
               \<or> sm_device_id md \<noteq> device_id (il_crypto il) (sm_public_key md)
          then Inl (Plain CauseOther)
          else Inr md)"

definition read_signer :: "'s id_manager \<Rightarrow> string \<Rightarrow> ('s, signer_metadata) act" where
  "read_signer m ws =
     act_bind (fi_read (mg_files m) (signer_path m ws)) (\<lambda>b. act_pure (parse_signer_metadata (mg_lib m) b))"

definition load_software_signer :: "'s id_manager \<Rightarrow> signer_metadata \<Rightarrow> ('s, signer) act" where
  "load_software_signer m md =
     (let text = il_error_text (mg_lib m)
      in if sm_algorithm md \<noteq> ''Ed25519'' \<or> sm_reference md = [] then act_fail (Plain CauseOther)
         else
           case vault_of m (sm_backend md) of
             None \<Rightarrow> act_fail (unavailable text (sm_backend md @ '' unavailable'') None)
           | Some v \<Rightarrow>
               act_bind (act_map_err (keyring_error text ''loading saved keyring signing key'')
                  (va_load v vault_service (sm_reference md))) (\<lambda>secret.
               case hex_decode secret of
                 None \<Rightarrow> act_fail (Plain CauseOther)
               | Some seed \<Rightarrow>
                   if length seed \<noteq> 32 then act_fail (Plain CauseOther) else act_ok (il_ed25519 (mg_lib m) seed)))"

definition load_signer :: "'s id_manager \<Rightarrow> string \<Rightarrow> ('s, signer) act" where
  "load_signer m ws =
     act_bind (act_pure (manager_mode m)) (\<lambda>mode.
     act_bind (read_signer m ws) (\<lambda>md.
       if mode_refuses mode (sm_backend md) then act_fail (Plain CauseOther)
       else
         act_bind
           (if software_backend (sm_backend md) then load_software_signer m md
            else
              case Option.bind (mg_hardware m) hw_signer of
                None \<Rightarrow> act_fail (unavailable (il_error_text (mg_lib m)) ''saved hardware signing backend unavailable'' None)
              | Some hw \<Rightarrow> act_map_err (\<lambda>e. Wrapping [e]) (sb_load hw md)) (\<lambda>sg.
           if sg_public sg \<noteq> sm_public_key md then act_fail (Plain CauseOther) else act_ok sg)))"

definition empty_signer_metadata :: signer_metadata where
  "empty_signer_metadata = \<lparr>sm_version = 0, sm_backend = [], sm_algorithm = [], sm_device = [],
     sm_public_key = \<lparr>pk_alg = [], pk_bytes = []\<rparr>, sm_device_id = [], sm_reference = [], sm_tpm_public = [], sm_tpm_private = [],
     sm_tpm_name = [], sm_tpm_parent_name = [], sm_tpm_auth_credential = [], sm_tpm_certified = None, sm_enclave_key = []\<rparr>"

definition create_software_signer :: "'s id_manager \<Rightarrow> ('s, signer \<times> signer_metadata) act" where
  "create_software_signer m =
     (let il = mg_lib m
      in act_bind (software_vault m) (\<lambda>(backend, v).
         act_bind (il_random il 32) (\<lambda>seed.
         act_bind (il_random il 24) (\<lambda>ref.
         let md = empty_signer_metadata\<lparr>sm_backend := backend, sm_algorithm := ''Ed25519'',
                    sm_reference := ''signing-'' @ hex_encode ref\<rparr>
         in act_bind (act_map_err (keyring_error (il_error_text il) ''saving OS keyring signing key'')
              (va_store v vault_service (sm_reference md) (hex_encode seed))) (\<lambda>_.
              act_ok (il_ed25519 il seed, md))))))"

definition drop_hardware_signer :: "'s id_manager \<Rightarrow> signer_metadata \<Rightarrow> 's \<Rightarrow> 's" where
  "drop_hardware_signer m md s =
     (case Option.bind (mg_hardware m) hw_delete_signer of None \<Rightarrow> s | Some del \<Rightarrow> ignore_errors (del md) s)"

text \<open>A hardware backend that returns no key, no metadata, or that of a software backend is an error.\<close>

definition create_hardware_signer :: "'s id_manager \<Rightarrow> 's signer_backend \<Rightarrow> ('s, signer \<times> signer_metadata) act" where
  "create_hardware_signer m hw =
     act_bind (sb_create hw) (\<lambda>(sg, md) s.
       case (sg, md) of
         (Some g, Some d) \<Rightarrow>
           if sm_backend d = [] \<or> software_backend (sm_backend d)
           then (drop_hardware_signer m d s, Inl (Plain CauseOther)) else (s, Inr (g, d))
       | (None, Some d) \<Rightarrow> (drop_hardware_signer m d s, Inl (Plain CauseOther))
       | _ \<Rightarrow> (s, Inl (Plain CauseOther)))"

definition create_signer_key :: "'s id_manager \<Rightarrow> string \<Rightarrow> ('s, signer \<times> signer_metadata \<times> string) act" where
  "create_signer_key m mode =
     (let probe = (\<lambda>s. case mg_hardware m of None \<Rightarrow> (s, Inr (False, ''hardware backend unavailable''))
                       | Some hw \<Rightarrow>
                           if hw_signer hw = None then (s, Inr (False, ''hardware backend unavailable''))
                           else (case hw_probe hw s of (s', d) \<Rightarrow> (s', Inr (dg_available d, dg_reason d))))
      in if mode = ''keyring'' then act_bind (create_software_signer m) (\<lambda>(sg, md). act_ok (sg, md, []))
         else
           act_bind probe (\<lambda>(available, reason).
           case (if available then Option.bind (mg_hardware m) hw_signer else None) of
             Some hw \<Rightarrow> act_bind (create_hardware_signer m hw) (\<lambda>(sg, md). act_ok (sg, md, []))
           | None \<Rightarrow>
               if mode = ''hardware''
               then act_fail (unavailable (il_error_text (mg_lib m)) (''hardware signing key unavailable: '' @ reason) None)
               else act_bind (create_software_signer m) (\<lambda>(sg, md). act_ok (sg, md,
                      ''Hardware signing key unavailable: '' @ reason @ ''; using '' @ software_name (sm_backend md)
                        @ '' (Ed25519).''))))"

definition create_new_signer :: "'s id_manager \<Rightarrow> string \<Rightarrow> string \<Rightarrow> ('s, signer \<times> signer_info \<times> string) act" where
  "create_new_signer m path mode =
     (let il = mg_lib m
      in act_bind (create_signer_key m mode) (\<lambda>(sg, md, warning) s.
         let md = md\<lparr>sm_version := 1, sm_public_key := sg_public sg, sm_device_id := device_id (il_crypto il) (sg_public sg)\<rparr>
         in case save_json (mg_files m) path (il_marshal_signer il md) s of
              (s', Inr _) \<Rightarrow> (s', Inr (sg, (signer_info_of il md)\<lparr>si_created := True\<rparr>, warning))
            | (s', Inl e) \<Rightarrow>
                (if software_backend (sm_backend md) then
                   (case vault_of m (sm_backend md) of
                      None \<Rightarrow> s'
                    | Some v \<Rightarrow> ignore_errors (va_delete v vault_service (sm_reference md)) s')
                 else drop_hardware_signer m md s', Inl e)))"

definition create_signer :: "'s id_manager \<Rightarrow> string \<Rightarrow> ('s, signer \<times> signer_info \<times> string) act" where
  "create_signer m ws =
     (let fi = mg_files m; path = signer_path m ws
      in act_bind (act_pure (manager_mode m)) (\<lambda>mode.
         act_bind (fi_mkdir fi) (\<lambda>_.
         with_lock fi (path @ ''.lockfile'')
           (act_bind (act_try (fi_stat fi path)) (\<lambda>r.
              case r of
                Inr _ \<Rightarrow>
                  act_bind (load_signer m ws) (\<lambda>sg.
                  act_bind (read_signer m ws) (\<lambda>md. act_ok (sg, signer_info_of (mg_lib m) md, [])))
              | Inl e \<Rightarrow>
                  if \<not> errors_is CauseNotExist e then act_fail e
                  else create_new_signer m path mode)))))"

definition read_signer_info :: "'s id_manager \<Rightarrow> string \<Rightarrow> ('s, signer_info) act" where
  "read_signer_info m ws =
     act_bind (load_signer m ws) (\<lambda>sg. act_bind (read_signer m ws) (\<lambda>md. act_ok (signer_info_of (mg_lib m) md)))"

subsection \<open>The application\<close>

text \<open>\<open>LoadIdentities\<close> of \<open>app/helpers.go\<close>: the current identity first, then the others that can still decrypt.\<close>

definition load_identities :: "'s id_manager \<Rightarrow> string \<Rightarrow> ('s, identity list) act" where
  "load_identities m ws =
     act_bind (act_map_err identities_error (load_identity m ws)) (\<lambda>i.
     act_bind (act_map_err identity_error_app (load_retained m ws)) (\<lambda>retained. act_ok (i # retained)))"

text \<open>\<open>CreateIdentity\<close> and \<open>IdentityInfo\<close> of \<open>app/identity.go\<close>, for the workspace of the configuration.\<close>

definition app_create_identity :: "('s, string) act \<Rightarrow> 's id_manager \<Rightarrow> ('s, public_info \<times> string) act" where
  "app_create_identity workspace m =
     act_map_err normalize_err
       (act_bind workspace (\<lambda>ws.
        act_bind (act_map_err identity_error_app (create_identity m ws)) (\<lambda>(i, info, warning).
        act_bind (act_map_err identity_error_app (create_signer m ws)) (\<lambda>(sg, sinfo, signer_warning).
          act_ok (info\<lparr>pi_device_id := si_device_id sinfo, pi_fingerprint := si_fingerprint sinfo\<rparr>,
                  if warning = [] then signer_warning else warning)))))"

definition app_identity_info :: "('s, string) act \<Rightarrow> 's id_manager \<Rightarrow> ('s, public_info) act" where
  "app_identity_info workspace m =
     act_map_err normalize_err
       (act_bind workspace (\<lambda>ws.
        act_bind (act_map_err identity_error_app (identity_info m ws)) (\<lambda>info.
        act_bind (act_try (read_signer_info m ws)) (\<lambda>r.
          case r of
            Inr sinfo \<Rightarrow> act_ok (info\<lparr>pi_device_id := si_device_id sinfo, pi_fingerprint := si_fingerprint sinfo\<rparr>)
          | Inl e \<Rightarrow> if errors_is CauseNotExist e then act_ok info else act_fail (identity_error_app e)))))"

end
