(* ===== verification/Identities_Props.thy ===== *)
theory Identities_Props
  imports Identities Session_Props
begin

text \<open>
  A device never loses a key it needs.  The disk of a device holds the metadata files and the entries of its
  keyring and of systemd-creds; any step may fail, and a step that fails leaves what an interruption at that
  point would.  The steps on the identities of one workspace are an inductive relation; on every disk they
  reach, the current and the pending identity load.
\<close>

subsection \<open>The disk\<close>

record key_disk =
  kd_files :: "string \<Rightarrow> bytes option"
  kd_keyring :: "string \<times> string \<Rightarrow> bytes option"
  kd_creds :: "string \<times> string \<Rightarrow> bytes option"

text \<open>What fails during an operation; a keyring that fails its probe is not used for a new key.\<close>

record key_faults =
  kf_mkdir :: bool
  kf_lock :: bool
  kf_write :: bool
  kf_rename :: "string \<Rightarrow> bool"
  kf_probe :: bool
  kf_probe_creds :: bool
  kf_store :: bool
  kf_delete :: bool

definition no_faults :: key_faults where
  "no_faults = \<lparr>kf_mkdir = False, kf_lock = False, kf_write = False, kf_rename = (\<lambda>p. False), kf_probe = False,
     kf_probe_creds = False, kf_store = False, kf_delete = False\<rparr>"

text \<open>What the generators return during an operation.\<close>

record draws =
  dr_hybrid :: string
  dr_x25519 :: string
  dr_random :: "nat \<Rightarrow> bytes"

record device_setup =
  ds_lib :: "key_disk id_lib"
  ds_dir :: string
  ds_mode :: string
  ds_classical :: bool
  ds_creds :: bool

definition other :: go_error where "other = Plain CauseOther"
definition absent :: go_error where "absent = Plain CauseNotExist"

definition entry_vault ::
  "(key_disk \<Rightarrow> string \<times> string \<Rightarrow> bytes option) \<Rightarrow> (string \<times> string \<Rightarrow> bytes option \<Rightarrow> key_disk \<Rightarrow> key_disk)
     \<Rightarrow> bool \<Rightarrow> key_faults \<Rightarrow> key_disk vault" where
  "entry_vault rd wr probe_fails kf =
     \<lparr>va_probe = Some (if probe_fails then act_fail other else act_ok ()),
      va_store = (\<lambda>sv k x d. if kf_store kf then (d, Inl other) else (wr (sv, k) (Some x) d, Inr ())),
      va_load = (\<lambda>sv k d. case rd d (sv, k) of None \<Rightarrow> (d, Inl absent) | Some x \<Rightarrow> (d, Inr x)),
      va_delete = (\<lambda>sv k d. if kf_delete kf then (d, Inl other)
                           else if rd d (sv, k) = None then (d, Inl absent) else (wr (sv, k) None d, Inr ()))\<rparr>"

definition set_keyring :: "string \<times> string \<Rightarrow> bytes option \<Rightarrow> key_disk \<Rightarrow> key_disk" where
  "set_keyring k x d = d\<lparr>kd_keyring := (kd_keyring d)(k := x)\<rparr>"

definition set_creds :: "string \<times> string \<Rightarrow> bytes option \<Rightarrow> key_disk \<Rightarrow> key_disk" where
  "set_creds k x d = d\<lparr>kd_creds := (kd_creds d)(k := x)\<rparr>"

definition set_key_file :: "string \<Rightarrow> bytes option \<Rightarrow> key_disk \<Rightarrow> key_disk" where
  "set_key_file p x d = d\<lparr>kd_files := (kd_files d)(p := x)\<rparr>"

definition temp_path :: "string \<Rightarrow> string" where
  "temp_path dir = dir @ ''/.identity-0''"

definition disk_files :: "string \<Rightarrow> key_faults \<Rightarrow> key_disk id_files" where
  "disk_files dir kf =
     \<lparr>fi_mkdir = (if kf_mkdir kf then act_fail other else act_ok ()),
      fi_lock = (\<lambda>p. if kf_lock kf then act_fail other else act_ok ()), fi_unlock = (\<lambda>p d. d),
      fi_stat = (\<lambda>p d. (d, if kd_files d p = None then Inl absent else Inr ())),
      fi_read = (\<lambda>p d. (d, case kd_files d p of None \<Rightarrow> Inl absent | Some b \<Rightarrow> Inr b)),
      fi_write_temp = (\<lambda>b d. if kf_write kf then (d, Inl other) else (set_key_file (temp_path dir) (Some b) d, Inr (temp_path dir))),
      fi_rename = (\<lambda>a p d. if kf_rename kf p then (d, Inl other)
                          else case kd_files d a of None \<Rightarrow> (d, Inl absent)
                               | Some b \<Rightarrow> (set_key_file a None (set_key_file p (Some b) d), Inr ())),
      fi_remove = (\<lambda>p. set_key_file p None)\<rparr>"

definition device_manager :: "device_setup \<Rightarrow> draws \<Rightarrow> key_faults \<Rightarrow> key_disk id_manager" where
  "device_manager S dr kf =
     \<lparr>mg_dir = ds_dir S, mg_mode = ds_mode S,
      mg_vault = Some (entry_vault kd_keyring set_keyring (kf_probe kf) kf),
      mg_creds = (if ds_creds S then Some (entry_vault kd_creds set_creds (kf_probe_creds kf) kf) else None),
      mg_hardware = None, mg_classical = ds_classical S, mg_files = disk_files (ds_dir S) kf,
      mg_lib = (ds_lib S)\<lparr>il_generate_hybrid := act_ok (dr_hybrid dr), il_generate_x25519 := act_ok (dr_x25519 dr),
                         il_random := (\<lambda>n. act_ok (dr_random dr n))\<rparr>\<rparr>"

text \<open>What the libraries do: the metadata is read back as written, and a recipient has a name.\<close>

definition key_laws :: "key_disk id_lib \<Rightarrow> bool" where
  "key_laws il \<longleftrightarrow>
     (\<forall>md b. il_marshal il md = Some b \<longrightarrow> il_unmarshal il b = Some md)
     \<and> (\<forall>s r. il_parse_hybrid il s = Inr r \<or> il_parse_x25519 il s = Inr r \<longrightarrow> r \<noteq> [])"

subsection \<open>Names\<close>

lemma manager_sel [simp]:
  "mg_dir (device_manager S dr kf) = ds_dir S" "mg_mode (device_manager S dr kf) = ds_mode S"
  "mg_hardware (device_manager S dr kf) = None" "mg_classical (device_manager S dr kf) = ds_classical S"
  "mg_files (device_manager S dr kf) = disk_files (ds_dir S) kf"
  "mg_vault (device_manager S dr kf) = Some (entry_vault kd_keyring set_keyring (kf_probe kf) kf)"
  "mg_creds (device_manager S dr kf)
     = (if ds_creds S then Some (entry_vault kd_creds set_creds (kf_probe_creds kf) kf) else None)"
  "il_marshal (mg_lib (device_manager S dr kf)) = il_marshal (ds_lib S)"
  "il_unmarshal (mg_lib (device_manager S dr kf)) = il_unmarshal (ds_lib S)"
  "il_parse_hybrid (mg_lib (device_manager S dr kf)) = il_parse_hybrid (ds_lib S)"
  "il_parse_x25519 (mg_lib (device_manager S dr kf)) = il_parse_x25519 (ds_lib S)"
  "il_crypto (mg_lib (device_manager S dr kf)) = il_crypto (ds_lib S)"
  "il_error_text (mg_lib (device_manager S dr kf)) = il_error_text (ds_lib S)"
  "il_generate_hybrid (mg_lib (device_manager S dr kf)) = act_ok (dr_hybrid dr)"
  "il_generate_x25519 (mg_lib (device_manager S dr kf)) = act_ok (dr_x25519 dr)"
  "il_random (mg_lib (device_manager S dr kf)) n = act_ok (dr_random dr n)"
  by (simp_all add: device_manager_def)

definition key_stem :: "device_setup \<Rightarrow> string \<Rightarrow> string" where
  "key_stem S ws = ds_dir S @ ''/'' @ hex_encode (cr_sha256 (il_crypto (ds_lib S)) ws)"

abbreviation cur_path :: "device_setup \<Rightarrow> string \<Rightarrow> string" where
  "cur_path S ws \<equiv> key_stem S ws @ ''.json''"
abbreviation next_path :: "device_setup \<Rightarrow> string \<Rightarrow> string" where
  "next_path S ws \<equiv> key_stem S ws @ ''.next.json''"
abbreviation prev_path :: "device_setup \<Rightarrow> string \<Rightarrow> string" where
  "prev_path S ws \<equiv> key_stem S ws @ ''.previous.json''"

lemma manager_paths [simp]:
  "identity_path (device_manager S dr kf) ws = cur_path S ws"
  "slot_path (device_manager S dr kf) ws ''next'' = next_path S ws"
  "slot_path (device_manager S dr kf) ws ''previous'' = prev_path S ws"
  by (simp_all add: identity_path_def slot_path_def identity_stem_def key_stem_def)

lemma temp_path_apart [simp]:
  "temp_path (ds_dir S) \<noteq> cur_path S ws" "temp_path (ds_dir S) \<noteq> next_path S ws" "temp_path (ds_dir S) \<noteq> prev_path S ws"
  by (simp_all add: temp_path_def key_stem_def hex_encode_def)

lemma paths_apart [simp]:
  "next_path S ws \<noteq> cur_path S ws" "prev_path S ws \<noteq> cur_path S ws" "next_path S ws \<noteq> prev_path S ws"
  by simp_all

subsection \<open>Operations on the disk\<close>

lemma set_sel [simp]:
  "kd_files (set_key_file p x d) = (kd_files d)(p := x)" "kd_keyring (set_key_file p x d) = kd_keyring d"
  "kd_creds (set_key_file p x d) = kd_creds d"
  "kd_files (set_keyring k x d) = kd_files d" "kd_keyring (set_keyring k x d) = (kd_keyring d)(k := x)"
  "kd_creds (set_keyring k x d) = kd_creds d"
  "kd_files (set_creds k x d) = kd_files d" "kd_keyring (set_creds k x d) = kd_keyring d"
  "kd_creds (set_creds k x d) = (kd_creds d)(k := x)"
  by (simp_all add: set_key_file_def set_keyring_def set_creds_def)

lemma disk_write:
  assumes "p \<noteq> temp_path dir"
  shows "write_identity_file (disk_files dir kf) p b d =
    (if kf_write kf then (d, Inl other)
     else if kf_rename kf p then (set_key_file (temp_path dir) None d, Inl other)
     else (set_key_file (temp_path dir) None (set_key_file p (Some b) d), Inr ()))"
  using assms by (simp add: write_identity_file_def disk_files_def act_bind_def set_key_file_def fun_upd_twist)

lemma disk_read_path:
  "read_path (device_manager S dr kf) p d =
     (d, case kd_files d p of None \<Rightarrow> Inl absent | Some b \<Rightarrow> parse_metadata (ds_lib S) b)"
  by (simp add: read_path_def act_bind_def disk_files_def parse_metadata_def split: option.split)

lemma disk_read: "fi_read (disk_files dir kf) p d = (d, case kd_files d p of None \<Rightarrow> Inl absent | Some b \<Rightarrow> Inr b)"
  by (simp add: disk_files_def)

lemma disk_rename_fails: "kf_rename kf p \<Longrightarrow> fi_rename (disk_files dir kf) a p d = (d, Inl other)"
  by (simp add: disk_files_def)

lemma disk_lock:
  "with_lock (disk_files dir kf) p body d =
     (if kf_lock kf then (d, Inl (Wrapping [other])) else body d)"
  by (simp add: with_lock_def act_bind_def act_map_err_def disk_files_def act_fail_def act_ok_def split: prod.split)

text \<open>The entry a metadata file names, and what it takes to load it.\<close>

definition entry_of :: "key_disk \<Rightarrow> id_metadata \<Rightarrow> bytes option" where
  "entry_of d md =
     (if pi_backend (im_info md) = backend_creds then kd_creds d else kd_keyring d) (vault_service, im_reference md)"

definition key_of :: "id_metadata \<Rightarrow> bool \<times> string" where
  "key_of md = (pi_backend (im_info md) = backend_creds, im_reference md)"

definition software_md :: "device_setup \<Rightarrow> id_metadata \<Rightarrow> bool" where
  "software_md S md \<longleftrightarrow> software_backend (pi_backend (im_info md)) \<and> (pi_backend (im_info md) = backend_creds \<longrightarrow> ds_creds S)
     \<and> pi_algorithm (im_info md) \<in> {alg_x25519, alg_mlkem_x25519} \<and> im_reference md \<noteq> []"

definition opens :: "device_setup \<Rightarrow> id_metadata \<Rightarrow> bytes \<Rightarrow> bool" where
  "opens S md secret \<longleftrightarrow> (\<exists>i. parse_keyring_identity (ds_lib S) (pi_algorithm (im_info md)) secret = Inr i
     \<and> id_recipient i = pi_recipient (im_info md) \<and> im_public_key md = id_recipient i)"

definition held :: "device_setup \<Rightarrow> key_disk \<Rightarrow> id_metadata \<Rightarrow> bool" where
  "held S d md \<longleftrightarrow> software_md S md \<and> (\<exists>secret. entry_of d md = Some secret \<and> opens S md secret)"

definition metadata_at :: "device_setup \<Rightarrow> key_disk \<Rightarrow> string \<Rightarrow> id_metadata option" where
  "metadata_at S d p =
     (case kd_files d p of None \<Rightarrow> None
      | Some b \<Rightarrow> (case parse_metadata (ds_lib S) b of Inl e \<Rightarrow> None | Inr md \<Rightarrow> Some md))"

definition mode_ok :: "device_setup \<Rightarrow> bool" where
  "mode_ok S \<longleftrightarrow> ds_mode S \<in> {[], ''auto'', ''keyring''}"

lemma mode_not_hardware: "mode_ok S \<Longrightarrow> \<exists>mode. manager_mode (device_manager S dr kf) = Inr mode \<and> mode \<noteq> ''hardware''"
  by (auto simp: mode_ok_def manager_mode_def)

lemma software_accepted:
  "mode \<noteq> ''hardware'' \<Longrightarrow> software_md S md \<Longrightarrow> \<not> mode_refuses mode (pi_backend (im_info md))"
  by (simp add: mode_refuses_def software_md_def)

lemma vault_entry:
  "software_md S md \<Longrightarrow> \<exists>v. vault_of (device_manager S dr kf) (pi_backend (im_info md)) = Some v
     \<and> (\<forall>d. va_load v vault_service (im_reference md) d
            = (d, case entry_of d md of None \<Rightarrow> Inl absent | Some x \<Rightarrow> Inr x))"
  by (auto simp: vault_of_def software_md_def entry_of_def entry_vault_def split: option.split)

lemma parse_identity_type:
  "parse_keyring_identity il alg secret = Inr i \<Longrightarrow> public_key_matches i k \<longleftrightarrow> id_recipient i = k"
  by (auto simp: parse_keyring_identity_def res_bind_def public_key_matches_def split: if_splits sum.splits)

lemma load_path_same: "fst (load_path (device_manager S dr kf) p d) = d"
proof -
  have hw: "load_hardware (device_manager S dr kf) md d
      = (d, Inl (unavailable (il_error_text (ds_lib S)) ''saved hardware backend unavailable'' None))" for md
    by (simp add: load_hardware_def act_fail_def)
  have sw: "fst (load_software (device_manager S dr kf) md d) = d" for md
    by (auto simp: load_software_def Let_def act_bind_def act_fail_def act_map_err_def act_pure_def vault_of_def entry_vault_def
        split: option.split prod.splits sum.splits if_splits)
  show ?thesis
    using sw by (auto simp: load_path_def act_bind_def act_pure_def act_fail_def act_ok_def disk_read_path hw
        split: prod.split sum.split option.split) (metis fst_conv)+
qed

lemma load_held:
  assumes "mode_ok S" and "metadata_at S d p = Some md" and "held S d md"
  shows "\<exists>i. load_path (device_manager S dr kf) p d = (d, Inr i) \<and> id_recipient i = pi_recipient (im_info md)"
proof -
  obtain mode where mode: "manager_mode (device_manager S dr kf) = Inr mode" "mode \<noteq> ''hardware''"
    using mode_not_hardware [OF assms(1)] by blast
  obtain b where b: "kd_files d p = Some b" "parse_metadata (ds_lib S) b = Inr md"
    using assms(2) by (auto simp: metadata_at_def split: option.splits sum.splits)
  have sw: "software_md S md" using assms(3) by (simp add: held_def)
  obtain secret i where s: "entry_of d md = Some secret" "parse_keyring_identity (ds_lib S) (pi_algorithm (im_info md)) secret = Inr i"
    "id_recipient i = pi_recipient (im_info md)" "im_public_key md = id_recipient i"
    using assms(3) by (auto simp: held_def opens_def)
  obtain v where v: "vault_of (device_manager S dr kf) (pi_backend (im_info md)) = Some v"
    "va_load v vault_service (im_reference md) d = (d, Inr secret)"
    using vault_entry [OF sw, of dr kf] s(1) by fastforce
  have p: "parse_keyring_identity (mg_lib (device_manager S dr kf)) alg x = parse_keyring_identity (ds_lib S) alg x" for alg x
    by (simp add: parse_keyring_identity_def)
  have "load_software (device_manager S dr kf) md d = (d, Inr i)"
    using sw v s(2) p by (auto simp: load_software_def software_md_def act_bind_def act_map_err_def act_pure_def)
  then show ?thesis
    using mode software_accepted [OF mode(2) sw] b sw s(3,4) parse_identity_type [OF s(2)]
    by (simp add: load_path_def act_bind_def act_pure_def disk_read_path software_md_def act_ok_def)
qed

lemma load_absent:
  assumes "mode_ok S" and "kd_files d p = None"
  shows "\<exists>e. load_path (device_manager S dr kf) p d = (d, Inl e) \<and> errors_is CauseNotExist e"
  using mode_not_hardware [OF assms(1), of dr kf] assms(2)
  by (auto simp: load_path_def act_bind_def act_pure_def disk_read_path absent_def)

lemma load_dangling:
  assumes "mode_ok S" and "metadata_at S d p = Some md" and "software_md S md" and "entry_of d md = None"
  shows "\<exists>e. load_path (device_manager S dr kf) p d = (d, Inl e) \<and> errors_is CauseNotExist e"
proof -
  obtain mode where mode: "manager_mode (device_manager S dr kf) = Inr mode" "mode \<noteq> ''hardware''"
    using mode_not_hardware [OF assms(1)] by blast
  obtain b where b: "kd_files d p = Some b" "parse_metadata (ds_lib S) b = Inr md"
    using assms(2) by (auto simp: metadata_at_def split: option.splits sum.splits)
  obtain v where v: "vault_of (device_manager S dr kf) (pi_backend (im_info md)) = Some v"
    "va_load v vault_service (im_reference md) d = (d, Inl absent)"
    using vault_entry [OF assms(3), of dr kf] assms(4) by fastforce
  have "load_software (device_manager S dr kf) md d = (d, Inl (Wrapping [absent]))"
    using assms(3) v by (auto simp: load_software_def software_md_def act_bind_def act_map_err_def keyring_error_def absent_def)
  then show ?thesis
    using mode software_accepted [OF mode(2) assms(3)] b assms(3)
    by (auto simp: load_path_def act_bind_def act_pure_def disk_read_path software_md_def absent_def errors_is_def)
qed

subsection \<open>What an operation changes\<close>

definition put_entry :: "id_metadata \<Rightarrow> bytes option \<Rightarrow> key_disk \<Rightarrow> key_disk" where
  "put_entry md x d =
     (if pi_backend (im_info md) = backend_creds then set_creds (vault_service, im_reference md) x d
      else set_keyring (vault_service, im_reference md) x d)"

lemma put_entry_files [simp]: "kd_files (put_entry md x d) = kd_files d"
  by (simp add: put_entry_def)

lemma entry_put: "entry_of (put_entry md x d) md' = (if key_of md' = key_of md then x else entry_of d md')"
  by (auto simp: put_entry_def entry_of_def key_of_def)

lemma entry_file [simp]: "entry_of (set_key_file p x d) md = entry_of d md"
  by (simp add: entry_of_def)

definition new_ref :: "draws \<Rightarrow> string" where
  "new_ref dr = hex_encode (dr_random dr 24)"

lemma create_key_disk:
  assumes "create_key (device_manager S dr kf) mode classical d = (d', r)" and "mode \<noteq> ''hardware''" and "new_ref dr \<noteq> []"
  shows "(\<exists>e. r = Inl e \<and> d' = d)
    \<or> (\<exists>i md w secret. r = Inr (i, md, w) \<and> d' = put_entry md (Some secret) d \<and> im_reference md = new_ref dr
         \<and> software_md S md \<and> opens S md secret \<and> im_version md = 1)"
proof -
  let ?m = "device_manager S dr kf"
  have p: "parse_keyring_identity (mg_lib ?m) alg x = parse_keyring_identity (ds_lib S) alg x" for alg x
    by (simp add: parse_keyring_identity_def)
  have sv: "software_vault ?m d = (d, if \<not> kf_probe kf then Inr (backend_keyring, entry_vault kd_keyring set_keyring (kf_probe kf) kf)
      else if ds_creds S \<and> \<not> kf_probe_creds kf then Inr (backend_creds, entry_vault kd_creds set_creds (kf_probe_creds kf) kf)
      else Inl (if ds_creds S then unavailable (il_error_text (ds_lib S)) ''OS keyring and systemd-creds unavailable'' (Some (Wrapping [other, other]))
                else unavailable (il_error_text (ds_lib S)) ''OS keyring unavailable'' (Some other)))"
    by (auto simp: software_vault_def Let_def act_bind_def act_try_def probe_vault_def entry_vault_def act_ok_def act_fail_def)
  have gen: "generate_keyring_identity (mg_lib ?m) classical d
      = (d, Inr (if classical then (alg_x25519, dr_x25519 dr) else (alg_mlkem_x25519, dr_hybrid dr)))"
    by (simp add: generate_keyring_identity_def act_bind_def act_ok_def)
  define alg where "alg = (if classical then alg_x25519 else alg_mlkem_x25519)"
  define secret where "secret = (if classical then dr_x25519 dr else dr_hybrid dr)"
  have pair: "(if classical then (alg_x25519, dr_x25519 dr) else (alg_mlkem_x25519, dr_hybrid dr)) = (alg, secret)"
    by (simp add: alg_def secret_def)
  have al: "alg \<in> {alg_x25519, alg_mlkem_x25519}" by (simp add: alg_def)
  define new where "new = (\<lambda>backend (i :: identity). empty_metadata\<lparr>im_version := 1,
       im_info := empty_info\<lparr>pi_backend := backend, pi_algorithm := alg, pi_recipient := id_recipient i\<rparr>,
       im_public_key := id_recipient i, im_reference := new_ref dr\<rparr>)"
  have nw: "empty_metadata\<lparr>im_version := 1,
       im_info := empty_info\<lparr>pi_backend := backend, pi_algorithm := alg, pi_recipient := id_recipient i\<rparr>,
       im_public_key := id_recipient i, im_reference := new_ref dr\<rparr> = new backend i" for backend i
    by (simp add: new_def)
  have create: "(\<exists>e. q = Inl e \<and> d1 = d)
      \<or> (\<exists>i md. q = Inr (i, md) \<and> d1 = put_entry md (Some secret) d \<and> im_reference md = new_ref dr
           \<and> software_md S md \<and> opens S md secret \<and> im_version md = 1)"
    if "create_software ?m classical d = (d1, q)" for d1 q
  proof (cases "parse_keyring_identity (ds_lib S) alg secret")
    case (Inl e)
    then show ?thesis
      using that by (auto simp: create_software_def Let_def act_bind_def act_pure_def sv gen pair p split: if_splits)
  next
    case (Inr i)
    have ok: "software_md S (new backend_keyring i)" "ds_creds S \<Longrightarrow> software_md S (new backend_creds i)"
      "opens S (new b i) secret" "im_reference (new b i) = new_ref dr" "im_version (new b i) = 1" for b
      using al assms(3) Inr by (simp_all add: new_def software_md_def software_backend_def opens_def backend_keyring_def backend_creds_def)
    have put: "put_entry (new backend_keyring i) (Some secret) d = set_keyring (vault_service, new_ref dr) (Some secret) d"
      "put_entry (new backend_creds i) (Some secret) d = set_creds (vault_service, new_ref dr) (Some secret) d"
      by (simp_all add: put_entry_def new_def backend_keyring_def backend_creds_def)
    have "(\<exists>e. q = Inl e \<and> d1 = d)
        \<or> q = Inr (i, new backend_keyring i) \<and> d1 = put_entry (new backend_keyring i) (Some secret) d
        \<or> ds_creds S \<and> q = Inr (i, new backend_creds i) \<and> d1 = put_entry (new backend_creds i) (Some secret) d"
      using that Inr unfolding put
      by (auto simp: create_software_def Let_def act_bind_def act_pure_def sv gen pair p act_ok_def new_ref_def [symmetric] nw
          act_map_err_def entry_vault_def split: if_splits)
    then show ?thesis
      using ok by blast
  qed
  obtain d1 q where cs: "create_software ?m classical d = (d1, q)" by fastforce
  have "create_key ?m mode classical d = (d1, r) \<and> (\<forall>e. q = Inl e \<longrightarrow> r = Inl e) \<and> (\<forall>i md. q = Inr (i, md) \<longrightarrow> (\<exists>w. r = Inr (i, md, w)))"
    using assms(1,2) cs by (auto simp: create_key_def Let_def act_bind_def act_ok_def no_diagnosis_def split: if_splits sum.splits prod.splits)
  then show ?thesis
    using create [OF cs] assms(1) by (cases q) fastforce+
qed

lemma delete_material_disk:
  assumes "software_md S md"
  shows "delete_key_material (device_manager S dr kf) md d = (if kf_delete kf then d else put_entry md None d)"
proof -
  have "put_entry md None d = d" if "entry_of d md = None"
    using that by (auto simp: put_entry_def entry_of_def set_creds_def set_keyring_def fun_upd_idem split: if_splits)
  then show ?thesis
    using assms by (auto simp: delete_key_material_def software_md_def vault_of_def ignore_errors_def entry_vault_def
        put_entry_def entry_of_def split: if_splits)
qed

lemma clear_temp: "kd_files d (temp_path dir) = None \<Longrightarrow> set_key_file (temp_path dir) None d = d"
  by (simp add: set_key_file_def fun_upd_idem)

lemma parse_marshal:
  assumes "key_laws (ds_lib S)" and "software_md S md" and "opens S md secret" and "im_version md = 1"
    and "il_marshal (ds_lib S) md = Some b"
  shows "parse_metadata (ds_lib S) b = Inr md"
proof -
  have b: "il_unmarshal (ds_lib S) b = Some md"
    using assms(1,5) unfolding key_laws_def by blast
  obtain i where i: "parse_keyring_identity (ds_lib S) (pi_algorithm (im_info md)) secret = Inr i"
    "id_recipient i = pi_recipient (im_info md)" "im_public_key md = id_recipient i"
    using assms(3) by (auto simp: opens_def)
  then have "id_recipient i \<noteq> []"
    using assms(1) by (auto simp: parse_keyring_identity_def res_bind_def key_laws_def split: if_splits sum.splits)
  then show ?thesis
    using b i assms(2,4) by (auto simp: parse_metadata_def software_md_def software_backend_def backend_keyring_def backend_creds_def)
qed

text \<open>A creation leaves the disk as it was, or adds a key under a fresh reference, with or without its metadata.\<close>

lemma create_disk:
  assumes "create_at (device_manager S dr kf) p classical d = (d', r)" and "mode_ok S" and "key_laws (ds_lib S)"
    and "new_ref dr \<noteq> []" and "p \<noteq> temp_path (ds_dir S)" and "kd_files d (temp_path (ds_dir S)) = None"
  shows "d' = d
    \<or> kd_files d p = None \<and> (\<exists>md secret. im_reference md = new_ref dr \<and> software_md S md \<and> opens S md secret
         \<and> ((\<exists>x. d' = put_entry md x d)
            \<or> (\<exists>b. parse_metadata (ds_lib S) b = Inr md \<and> d' = set_key_file p (Some b) (put_entry md (Some secret) d))))"
proof -
  let ?m = "device_manager S dr kf" and ?t = "temp_path (ds_dir S)"
  obtain mode where mode: "manager_mode ?m = Inr mode" "mode \<noteq> ''hardware''"
    using mode_not_hardware [OF assms(2)] by blast
  obtain d1 q where ck: "create_key ?m mode classical d = (d1, q)" by fastforce
  show ?thesis
  proof (cases "kf_mkdir kf \<or> kf_lock kf \<or> kd_files d p \<noteq> None")
    case True
    have "fst (load_path ?m p d) = d" by (rule load_path_same)
    then show ?thesis
      using assms(1) mode(1) True
      by (auto simp: create_at_def Let_def act_bind_def act_pure_def disk_lock disk_read_path act_try_def act_ok_def act_fail_def
          disk_files_def [of _ kf, THEN arg_cong, of fi_mkdir] disk_files_def [of _ kf, THEN arg_cong, of fi_stat]
          split: if_splits prod.splits sum.splits option.splits)
  next
    case False
    have stat: "fi_stat (disk_files (ds_dir S) kf) p d = (d, Inl absent)" "fi_mkdir (disk_files (ds_dir S) kf) d = (d, Inr ())"
      using False by (simp_all add: disk_files_def act_ok_def)
    have new: "create_new ?m p mode classical d = (d', r)"
      using assms(1) mode(1) False stat
      by (simp add: create_at_def Let_def act_bind_def act_pure_def disk_lock act_try_def absent_def)
    consider e where "q = Inl e" "d1 = d"
      | i md w secret where "q = Inr (i, md, w)" "d1 = put_entry md (Some secret) d" "im_reference md = new_ref dr"
          "software_md S md" "opens S md secret" "im_version md = 1"
      using create_key_disk [OF ck mode(2) assms(4)] by blast
    then show ?thesis
    proof cases
      case 1
      then show ?thesis using new ck by (simp add: create_new_def act_bind_def)
    next
      case 2
      have md1: "md\<lparr>im_version := 1\<rparr> = md" using 2(6) by simp
      have twice: "put_entry md None (put_entry md x d) = put_entry md None d" for x
        by (simp add: put_entry_def set_creds_def set_keyring_def)
      have "d' = put_entry md (Some secret) d \<or> d' = put_entry md None d
          \<or> (\<exists>b. il_marshal (ds_lib S) md = Some b \<and> d' = set_key_file p (Some b) (put_entry md (Some secret) d))"
        using new ck 2(1,2) assms(5,6) md1 delete_material_disk [OF 2(4)] twice
        by (auto simp: create_new_def act_bind_def save_json_def disk_write clear_temp Let_def act_fail_def split: if_splits option.splits)
      then show ?thesis
        using False 2 parse_marshal [OF assms(3) 2(4,5,6)] by blast
    qed
  qed
qed

text \<open>
  A promotion: the key material of the older previous identity goes, the previous slot takes a copy of the
  current identity, and the pending one takes its place; it stops after any of the three.
\<close>

definition kept_copy :: "device_setup \<Rightarrow> string \<Rightarrow> key_disk \<Rightarrow> key_disk" where
  "kept_copy S ws d = (case kd_files d (cur_path S ws) of None \<Rightarrow> d | Some b \<Rightarrow> set_key_file (prev_path S ws) (Some b) d)"

definition moved_in :: "device_setup \<Rightarrow> string \<Rightarrow> key_disk \<Rightarrow> key_disk" where
  "moved_in S ws d = set_key_file (next_path S ws) None (set_key_file (cur_path S ws) (kd_files d (next_path S ws)) d)"

lemma promote_disk:
  assumes "promote_pending (device_manager S dr kf) ws d = (d', r)" and "kd_files d (temp_path (ds_dir S)) = None"
    and "\<And>md. metadata_at S d (prev_path S ws) = Some md \<Longrightarrow> software_md S md"
  shows "(d' = d \<and> (\<exists>e. r = Inl e))
    \<or> (\<exists>nmd dd. metadata_at S d (next_path S ws) = Some nmd
         \<and> (dd = d \<or> (\<exists>old. metadata_at S d (prev_path S ws) = Some old
              \<and> kd_files d (prev_path S ws) \<noteq> kd_files d (cur_path S ws) \<and> dd = put_entry old None d))
         \<and> ((\<exists>e. r = Inl e) \<and> (d' = dd \<or> d' = kept_copy S ws dd) \<or> r = Inr () \<and> d' = moved_in S ws (kept_copy S ws dd)))"
proof -
  let ?m = "device_manager S dr kf" and ?fi = "disk_files (ds_dir S) kf" and ?t = "temp_path (ds_dir S)"
  let ?cur = "cur_path S ws" and ?next = "next_path S ws" and ?prev = "prev_path S ws"
  note rd = disk_read
  have abs: "errors_is CauseNotExist absent" by (simp add: absent_def)
  show ?thesis
  proof (cases "metadata_at S d ?next")
    case None
    then have "d' = d \<and> (\<exists>e. r = Inl e)"
      using assms(1) by (auto simp: promote_pending_def Let_def disk_lock act_bind_def disk_read_path metadata_at_def
          split: if_splits option.splits sum.splits)
    then show ?thesis ..
  next
    case (Some nmd)
    then obtain nb where nb: "kd_files d ?next = Some nb" "parse_metadata (ds_lib S) nb = Inr nmd"
      by (auto simp: metadata_at_def split: option.splits sum.splits)
    obtain dd q where dq: "drop_previous ?m ?prev (kd_files d ?cur) d = (dd, q)" by fastforce
    have drop: "dd = d \<or> (\<exists>old. metadata_at S d ?prev = Some old \<and> kd_files d ?prev \<noteq> kd_files d ?cur \<and> dd = put_entry old None d)"
    proof (cases "metadata_at S d ?prev")
      case None
      then show ?thesis
        using dq by (auto simp: drop_previous_def act_bind_def disk_read_path act_try_def metadata_at_def act_ok_def act_fail_def
            split: option.splits sum.splits if_splits)
    next
      case (Some old)
      then obtain pb where pb: "kd_files d ?prev = Some pb" "parse_metadata (ds_lib S) pb = Inr old"
        by (auto simp: metadata_at_def split: option.splits sum.splits)
      then show ?thesis
        using dq Some delete_material_disk [OF assms(3) [OF Some], of dr kf d]
        by (auto simp: drop_previous_def act_bind_def disk_read_path act_try_def rd split: if_splits)
    qed
    have q: "q = Inr () \<or> (\<exists>e. q = Inl e)" by (cases q) auto
    have files: "kd_files dd = kd_files d" using drop by auto
    have promote: "kf_lock kf \<and> d' = d \<and> r = Inl (Wrapping [other])
        \<or> (\<exists>e. q = Inl e \<and> d' = dd \<and> r = Inl e)
        \<or> q = Inr () \<and> (case kd_files d ?cur of None \<Rightarrow> fi_rename ?fi ?next ?cur dd
             | Some b \<Rightarrow> act_bind (write_identity_file ?fi ?prev b) (\<lambda>_. fi_rename ?fi ?next ?cur) dd) = (d', r)"
      using assms(1) dq q nb abs
      by (cases "kd_files d ?cur") (auto simp: promote_pending_def Let_def disk_lock act_bind_def disk_read_path act_try_def rd act_ok_def
          split: if_splits)
    have ren: "fi_rename ?fi ?next ?cur x = (if kf_rename kf ?cur then (x, Inl other) else (moved_in S ws x, Inr ()))"
      if "kd_files x ?next = Some nb" for x
      using that by (simp add: disk_files_def moved_in_def)
    have t: "kd_files dd ?t = None" using assms(2) files by simp
    have after: "(\<exists>e. r = Inl e) \<and> (d' = dd \<or> d' = kept_copy S ws dd) \<or> r = Inr () \<and> d' = moved_in S ws (kept_copy S ws dd)"
      if "(case kd_files d ?cur of None \<Rightarrow> fi_rename ?fi ?next ?cur dd
             | Some b \<Rightarrow> act_bind (write_identity_file ?fi ?prev b) (\<lambda>_. fi_rename ?fi ?next ?cur) dd) = (d', r)"
    proof (cases "kd_files d ?cur")
      case None
      then show ?thesis using that ren [of dd] files nb(1) by (auto simp: kept_copy_def split: if_splits)
    next
      case (Some b)
      have c: "set_key_file ?t None (set_key_file ?prev (Some b) dd) = kept_copy S ws dd"
        using Some files t by (simp add: kept_copy_def set_key_file_def fun_upd_idem)
      have n: "kd_files (kept_copy S ws dd) ?next = Some nb"
        using Some files nb(1) by (simp add: kept_copy_def)
      show ?thesis
        using that Some ren [OF n] c clear_temp [OF t] temp_path_apart(3) [symmetric, of S ws]
        by (auto simp: act_bind_def disk_write split: if_splits)
    qed
    show ?thesis
      using promote after drop Some by blast
  qed
qed

subsection \<open>The steps of a device\<close>

text \<open>The random reference of a new key is one that nothing on the disk uses.\<close>

definition fresh_draws :: "device_setup \<Rightarrow> string \<Rightarrow> key_disk \<Rightarrow> draws \<Rightarrow> bool" where
  "fresh_draws S ws d dr \<longleftrightarrow>
     new_ref dr \<noteq> [] \<and> kd_keyring d (vault_service, new_ref dr) = None \<and> kd_creds d (vault_service, new_ref dr) = None
     \<and> (\<forall>p\<in>{cur_path S ws, next_path S ws, prev_path S ws}. \<forall>md. metadata_at S d p = Some md \<longrightarrow> im_reference md \<noteq> new_ref dr)"

inductive key_step :: "device_setup \<Rightarrow> string \<Rightarrow> key_disk \<Rightarrow> key_disk \<Rightarrow> bool" for S ws where
  step_create: "fresh_draws S ws d dr \<Longrightarrow> create_identity (device_manager S dr kf) ws d = (d', r) \<Longrightarrow> key_step S ws d d'"
| step_pending: "fresh_draws S ws d dr \<Longrightarrow> create_pending (device_manager S dr kf) ws d = (d', r) \<Longrightarrow> key_step S ws d d'"
| step_promote: "promote_pending (device_manager S dr kf) ws d = (d', r) \<Longrightarrow> key_step S ws d d'"

definition empty_disk :: key_disk where
  "empty_disk = \<lparr>kd_files = (\<lambda>p. None), kd_keyring = (\<lambda>k. None), kd_creds = (\<lambda>k. None)\<rparr>"

inductive key_reach :: "device_setup \<Rightarrow> string \<Rightarrow> key_disk \<Rightarrow> bool" for S ws where
  reach_empty: "key_reach S ws empty_disk"
| reach_step: "key_reach S ws d \<Longrightarrow> key_step S ws d d' \<Longrightarrow> key_reach S ws d'"

definition key_inv :: "device_setup \<Rightarrow> string \<Rightarrow> key_disk \<Rightarrow> bool" where
  "key_inv S ws d \<longleftrightarrow>
     kd_files d (temp_path (ds_dir S)) = None
     \<and> (\<forall>p\<in>{cur_path S ws, next_path S ws, prev_path S ws}. kd_files d p \<noteq> None \<longrightarrow> metadata_at S d p \<noteq> None)
     \<and> (\<forall>md. metadata_at S d (cur_path S ws) = Some md \<longrightarrow> held S d md)
     \<and> (\<forall>md. metadata_at S d (next_path S ws) = Some md \<longrightarrow> held S d md)
     \<and> (\<forall>md. metadata_at S d (prev_path S ws) = Some md \<longrightarrow> software_md S md \<and> (held S d md \<or> entry_of d md = None))
     \<and> (\<forall>a b. metadata_at S d (cur_path S ws) = Some a \<longrightarrow> metadata_at S d (next_path S ws) = Some b \<longrightarrow> key_of a \<noteq> key_of b)
     \<and> (\<forall>a b. metadata_at S d (prev_path S ws) = Some a \<longrightarrow> metadata_at S d (next_path S ws) = Some b \<longrightarrow> key_of a \<noteq> key_of b)
     \<and> (\<forall>a b. metadata_at S d (prev_path S ws) = Some a \<longrightarrow> metadata_at S d (cur_path S ws) = Some b
          \<longrightarrow> kd_files d (prev_path S ws) \<noteq> kd_files d (cur_path S ws) \<longrightarrow> key_of a \<noteq> key_of b)"

lemma metadata_at_put [simp]: "metadata_at S (put_entry md x d) p = metadata_at S d p"
  by (simp add: metadata_at_def)

lemma metadata_at_file:
  "metadata_at S (set_key_file q x d) p
     = (if p = q then Option.bind x (\<lambda>b. case parse_metadata (ds_lib S) b of Inl e \<Rightarrow> None | Inr md \<Rightarrow> Some md)
        else metadata_at S d p)"
  by (auto simp: metadata_at_def split: option.split)

lemma held_put: "key_of md' \<noteq> key_of md \<Longrightarrow> held S (put_entry md x d) md' = held S d md'"
  by (simp add: held_def entry_put)

lemma held_file [simp]: "held S (set_key_file p x d) md = held S d md"
  by (simp add: held_def)

lemma held_new: "software_md S md \<Longrightarrow> opens S md secret \<Longrightarrow> held S (put_entry md (Some secret) d) md"
  by (simp add: held_def entry_put)

lemma held_software: "held S d md \<Longrightarrow> software_md S md"
  by (simp add: held_def)

lemma key_inv_empty: "key_inv S ws empty_disk"
  by (simp add: key_inv_def empty_disk_def metadata_at_def)

lemma key_inv_create:
  assumes inv: "key_inv S ws d" and fresh: "fresh_draws S ws d dr" and p: "p = cur_path S ws \<or> p = next_path S ws"
    and create: "create_at (device_manager S dr kf) p classical d = (d', r)" and "mode_ok S" and "key_laws (ds_lib S)"
  shows "key_inv S ws d'"
proof -
  have t: "p \<noteq> temp_path (ds_dir S)" "kd_files d (temp_path (ds_dir S)) = None"
    using p inv temp_path_apart [of S ws] by (auto simp: key_inv_def)
  have ref: "new_ref dr \<noteq> []" using fresh by (simp add: fresh_draws_def)
  have apart: "key_of m \<noteq> key_of md" if "im_reference md = new_ref dr"
    "metadata_at S d q = Some m" "q \<in> {cur_path S ws, next_path S ws, prev_path S ws}" for m md q
    using fresh that by (auto simp: fresh_draws_def key_of_def)
  consider "d' = d" | md secret where "kd_files d p = None" "im_reference md = new_ref dr" "software_md S md" "opens S md secret"
      "(\<exists>x. d' = put_entry md x d)
        \<or> (\<exists>b. parse_metadata (ds_lib S) b = Inr md \<and> d' = set_key_file p (Some b) (put_entry md (Some secret) d))"
    using create_disk [OF create assms(5,6) ref t] by blast
  then show ?thesis
  proof cases
    case 2
    note ap = apart [OF 2(2)]
    have e: "entry_of (put_entry md x d) m = entry_of d m" "held S (put_entry md x d) m = held S d m"
      if "metadata_at S d q = Some m" "q \<in> {cur_path S ws, next_path S ws, prev_path S ws}" for m q x
      using ap [OF that] by (simp_all add: entry_put held_put)
    have put: "key_inv S ws (put_entry md x d)" for x
      using inv e unfolding key_inv_def by (simp add: Ball_def)
    have none: "metadata_at S d p = None" using 2(1) by (simp add: metadata_at_def)
    have new: "key_inv S ws (set_key_file p (Some b) (put_entry md (Some secret) d))" if b: "parse_metadata (ds_lib S) b = Inr md" for b
    proof -
      let ?d = "put_entry md (Some secret) d"
      have h: "held S ?d md" using held_new 2(3,4) by blast
      show ?thesis
        using put [of "Some secret"] p h b ap none t(1) unfolding key_inv_def
        by (elim disjE) (simp_all add: metadata_at_file Ball_def, fastforce+)
    qed
    show ?thesis using 2(5) put new by blast
  qed (use inv in simp)
qed

lemma key_inv_drop:
  assumes inv: "key_inv S ws d" and old: "metadata_at S d (prev_path S ws) = Some old"
    and ne: "kd_files d (prev_path S ws) \<noteq> kd_files d (cur_path S ws)"
  shows "key_inv S ws (put_entry old None d)"
proof -
  have "key_of m \<noteq> key_of old" if "metadata_at S d (cur_path S ws) = Some m \<or> metadata_at S d (next_path S ws) = Some m" for m
    using inv old ne that unfolding key_inv_def by metis
  then have "held S (put_entry old None d) m = held S d m"
    if "metadata_at S d (cur_path S ws) = Some m \<or> metadata_at S d (next_path S ws) = Some m" for m
    using that held_put by blast
  moreover have "entry_of (put_entry old None d) old = None" by (simp add: entry_put)
  ultimately show ?thesis
    using inv old unfolding key_inv_def by simp
qed

lemma key_inv_kept: "key_inv S ws d \<Longrightarrow> key_inv S ws (kept_copy S ws d)"
proof (cases "kd_files d (cur_path S ws)")
  case (Some b)
  assume inv: "key_inv S ws d"
  have "metadata_at S (kept_copy S ws d) (prev_path S ws) = metadata_at S d (cur_path S ws)"
    using Some by (simp add: kept_copy_def metadata_at_file metadata_at_def)
  moreover have "metadata_at S (kept_copy S ws d) (cur_path S ws) = metadata_at S d (cur_path S ws)"
    "metadata_at S (kept_copy S ws d) (next_path S ws) = metadata_at S d (next_path S ws)"
    using Some by (simp_all add: kept_copy_def metadata_at_file)
  moreover have "held S (kept_copy S ws d) m = held S d m" "entry_of (kept_copy S ws d) m = entry_of d m" for m
    using Some by (simp_all add: kept_copy_def)
  moreover have "kd_files (kept_copy S ws d) = (kd_files d)(prev_path S ws := Some b)"
    using Some by (simp add: kept_copy_def)
  ultimately show ?thesis
    using inv Some held_software temp_path_apart [of S ws] unfolding key_inv_def by (auto simp: Ball_def)
qed (simp add: kept_copy_def)

lemma key_inv_moved:
  assumes inv: "key_inv S ws d" and nxt: "metadata_at S d (next_path S ws) = Some nmd"
    and same: "\<And>b. kd_files d (cur_path S ws) = Some b \<Longrightarrow> kd_files d (prev_path S ws) = Some b"
  shows "key_inv S ws (moved_in S ws d)"
proof -
  have next_file: "kd_files d (next_path S ws) \<noteq> None" using nxt by (auto simp: metadata_at_def split: option.splits)
  have "metadata_at S (moved_in S ws d) (cur_path S ws) = Some nmd"
    using nxt next_file by (auto simp: moved_in_def metadata_at_file metadata_at_def)
  moreover have "metadata_at S (moved_in S ws d) (next_path S ws) = None"
    "metadata_at S (moved_in S ws d) (prev_path S ws) = metadata_at S d (prev_path S ws)"
    by (simp_all add: moved_in_def metadata_at_file)
  moreover have "held S (moved_in S ws d) m = held S d m" "entry_of (moved_in S ws d) m = entry_of d m" for m
    by (simp_all add: moved_in_def)
  moreover have "kd_files (moved_in S ws d)
      = (kd_files d)(cur_path S ws := kd_files d (next_path S ws), next_path S ws := None)"
    by (simp add: moved_in_def)
  ultimately show ?thesis
    using inv nxt temp_path_apart [of S ws] unfolding key_inv_def by (auto simp: Ball_def)
qed

lemma key_inv_promote:
  assumes inv: "key_inv S ws d" and promote: "promote_pending (device_manager S dr kf) ws d = (d', r)"
  shows "key_inv S ws d'"
proof -
  have t: "kd_files d (temp_path (ds_dir S)) = None" and sw: "metadata_at S d (prev_path S ws) = Some md \<Longrightarrow> software_md S md" for md
    using inv by (auto simp: key_inv_def)
  consider "d' = d" | nmd dd where "metadata_at S d (next_path S ws) = Some nmd"
      "dd = d \<or> (\<exists>old. metadata_at S d (prev_path S ws) = Some old
         \<and> kd_files d (prev_path S ws) \<noteq> kd_files d (cur_path S ws) \<and> dd = put_entry old None d)"
      "d' = dd \<or> d' = kept_copy S ws dd \<or> d' = moved_in S ws (kept_copy S ws dd)"
    using promote_disk [OF promote t sw] by blast
  then show ?thesis
  proof cases
    case 2
    have dd: "key_inv S ws dd" using 2(2) inv key_inv_drop by blast
    have "metadata_at S dd (next_path S ws) = Some nmd" using 2(1,2) by auto
    then have "metadata_at S (kept_copy S ws dd) (next_path S ws) = Some nmd"
      by (simp add: kept_copy_def metadata_at_file split: option.split)
    moreover have "kd_files (kept_copy S ws dd) (prev_path S ws) = Some b" if "kd_files (kept_copy S ws dd) (cur_path S ws) = Some b" for b
      using that by (simp add: kept_copy_def split: option.splits)
    ultimately have "key_inv S ws (moved_in S ws (kept_copy S ws dd))"
      using key_inv_moved [OF key_inv_kept [OF dd]] by blast
    then show ?thesis using 2(3) dd key_inv_kept by blast
  qed (use inv in simp)
qed

lemma key_inv_step:
  assumes "mode_ok S" and "key_laws (ds_lib S)" and "key_inv S ws d" and "key_step S ws d d'"
  shows "key_inv S ws d'"
  using assms(4)
proof cases
  case (step_create dr kf r)
  then show ?thesis
    using key_inv_create [OF assms(3) step_create(1) _ _ assms(1,2), of "cur_path S ws"] by (simp add: create_identity_def)
next
  case (step_pending dr kf r)
  then have "d' = d \<or> (\<exists>r. create_at (device_manager S dr kf) (next_path S ws) False d = (d', r))"
    by (auto simp: create_pending_def read_identity_def act_bind_def disk_read_path split: sum.splits)
  then show ?thesis
    using key_inv_create [OF assms(3) step_pending(1) _ _ assms(1,2)] assms(3) by blast
next
  case (step_promote dr kf r)
  then show ?thesis using key_inv_promote [OF assms(3)] by blast
qed

lemma key_inv_reach: "key_reach S ws d \<Longrightarrow> mode_ok S \<Longrightarrow> key_laws (ds_lib S) \<Longrightarrow> key_inv S ws d"
  by (induction rule: key_reach.induct) (auto intro: key_inv_empty key_inv_step)

subsection \<open>Properties\<close>

lemma load_current:
  assumes inv: "key_inv S ws d" and mode: "mode_ok S" and p: "p = cur_path S ws \<or> p = next_path S ws"
    and b: "kd_files d p \<noteq> None"
  shows "\<exists>i md. load_path (device_manager S dr kf) p d = (d, Inr i) \<and> metadata_at S d p = Some md
    \<and> id_recipient i = pi_recipient (im_info md)"
proof -
  obtain md where md: "metadata_at S d p = Some md" "held S d md"
    using inv p b by (auto simp: key_inv_def)
  show ?thesis using load_held [OF mode md] md(1) by blast
qed

lemma load_slot_cases:
  assumes inv: "key_inv S ws d" and mode: "mode_ok S" and p: "p \<in> {next_path S ws, prev_path S ws}"
  shows "(\<exists>i. load_path (device_manager S dr kf) p d = (d, Inr i))
    \<or> (\<exists>e. load_path (device_manager S dr kf) p d = (d, Inl e) \<and> errors_is CauseNotExist e)"
proof (cases "metadata_at S d p")
  case None
  then have "kd_files d p = None" using inv p by (auto simp: key_inv_def)
  then show ?thesis using load_absent [OF mode] by blast
next
  case (Some md)
  then have "held S d md \<or> software_md S md \<and> entry_of d md = None"
    using inv p by (auto simp: key_inv_def)
  then show ?thesis using load_held [OF mode Some] load_dangling [OF mode Some] by blast
qed

lemma load_retained_works:
  assumes inv: "key_inv S ws d" and mode: "mode_ok S"
  shows "\<exists>ids. load_retained (device_manager S dr kf) ws d = (d, Inr ids)
    \<and> (\<forall>md. metadata_at S d (next_path S ws) = Some md \<longrightarrow> pi_recipient (im_info md) \<in> id_recipient ` set ids)"
proof -
  let ?m = "device_manager S dr kf"
  have last: "\<exists>ids. load_slots ?m ws [''previous''] d = (d, Inr ids)"
    using load_slot_cases [OF inv mode, of "prev_path S ws" dr kf] by (auto simp: act_bind_def act_try_def act_ok_def)
  then obtain prevs where prevs: "load_slots ?m ws [''previous''] d = (d, Inr prevs)" ..
  show ?thesis
  proof (cases "metadata_at S d (next_path S ws)")
    case None
    then show ?thesis
      using load_slot_cases [OF inv mode, of "next_path S ws" dr kf] prevs
      by (auto simp: load_retained_def act_bind_def act_try_def act_ok_def simp del: load_slots.simps(2) simp add: load_slots.simps(2) [of _ _ "''next''"])
  next
    case (Some md)
    then have "kd_files d (next_path S ws) \<noteq> None" by (auto simp: metadata_at_def split: option.splits)
    then obtain i where "load_path ?m (next_path S ws) d = (d, Inr i)" "id_recipient i = pi_recipient (im_info md)"
      using load_current [OF inv mode, of "next_path S ws" dr kf] Some by auto
    then show ?thesis
      using prevs Some
      by (auto simp: load_retained_def act_bind_def act_try_def act_ok_def simp del: load_slots.simps(2) simp add: load_slots.simps(2) [of _ _ "''next''"])
  qed
qed

lemma keep_current:
  assumes inv: "key_inv S ws d" and mode: "mode_ok S" and laws: "key_laws (ds_lib S)" and cur: "kd_files d (cur_path S ws) \<noteq> None"
    and step: "key_step S ws d d'"
  shows "kd_files d' (cur_path S ws) \<noteq> None"
  using step
proof cases
  case (step_create dr kf r)
  have ref: "new_ref dr \<noteq> []" using step_create(1) by (simp add: fresh_draws_def)
  show ?thesis
    using create_disk [of S dr kf "cur_path S ws" "ds_classical S" d d' r, OF _ mode laws ref] step_create(2) inv cur
      temp_path_apart(1) [symmetric, of S ws]
    by (auto simp: create_identity_def key_inv_def)
next
  case (step_pending dr kf r)
  have ref: "new_ref dr \<noteq> []" using step_pending(1) by (simp add: fresh_draws_def)
  have "d' = d \<or> (\<exists>r. create_at (device_manager S dr kf) (next_path S ws) False d = (d', r))"
    using step_pending(2) by (auto simp: create_pending_def read_identity_def act_bind_def disk_read_path split: sum.splits)
  then show ?thesis
    using create_disk [of S dr kf "next_path S ws" False d d', OF _ mode laws ref] inv cur temp_path_apart(2) [symmetric, of S ws]
    by (auto simp: key_inv_def)
next
  case (step_promote dr kf r)
  have "kd_files d (temp_path (ds_dir S)) = None" "metadata_at S d (prev_path S ws) = Some md \<Longrightarrow> software_md S md" for md
    using inv by (auto simp: key_inv_def)
  then show ?thesis
    using promote_disk [OF step_promote] cur
    by (auto simp: kept_copy_def moved_in_def metadata_at_def split: option.splits)
qed


lemma promote_inv_disk:
  assumes "key_inv S ws d" and "promote_pending (device_manager S dr kf) ws d = (d', r)"
  shows "(d' = d \<and> (\<exists>e. r = Inl e))
    \<or> (\<exists>dd. (dd = d \<or> (\<exists>old. metadata_at S d (prev_path S ws) = Some old
              \<and> kd_files d (prev_path S ws) \<noteq> kd_files d (cur_path S ws) \<and> dd = put_entry old None d))
         \<and> ((\<exists>e. r = Inl e) \<and> (d' = dd \<or> d' = kept_copy S ws dd) \<or> r = Inr () \<and> d' = moved_in S ws (kept_copy S ws dd)))"
proof -
  have "kd_files d (temp_path (ds_dir S)) = None" "\<And>md. metadata_at S d (prev_path S ws) = Some md \<Longrightarrow> software_md S md"
    using assms(1) by (auto simp: key_inv_def)
  from promote_disk [OF assms(2) this] show ?thesis by blast
qed

lemma promote_failed:
  assumes "key_inv S ws d" and "promote_pending (device_manager S dr kf) ws d = (d', Inl e)"
  shows "\<exists>dd. kd_files dd = kd_files d \<and> (d' = dd \<or> d' = kept_copy S ws dd)"
proof -
  consider "d' = d" | dd where "dd = d \<or> (\<exists>old. dd = put_entry old None d)" "d' = dd \<or> d' = kept_copy S ws dd"
    using promote_inv_disk [OF assms] by blast
  then show ?thesis
  proof cases
    case 2
    then have "kd_files dd = kd_files d" by auto
    with 2(2) show ?thesis by blast
  qed blast
qed

lemma kept_copy_files: "q \<noteq> prev_path S ws \<Longrightarrow> kd_files (kept_copy S ws d) q = kd_files d q"
  by (simp add: kept_copy_def split: option.split)

lemma promote_calm:
  assumes inv: "key_inv S ws d" and nxt: "kd_files d (next_path S ws) \<noteq> None"
    and p: "promote_pending (device_manager S dr no_faults) ws d = (d', r)"
  shows "r = Inr ()"
proof -
  let ?m = "device_manager S dr no_faults" and ?fi = "disk_files (ds_dir S) no_faults"
  have calm: "\<not> kf_lock no_faults" "\<not> kf_write no_faults" "\<And>q. \<not> kf_rename no_faults q" "\<not> kf_delete no_faults"
    by (simp_all add: no_faults_def)
  note rd = disk_read
  obtain nb nmd where nb: "kd_files d (next_path S ws) = Some nb" "parse_metadata (ds_lib S) nb = Inr nmd"
    using nxt inv by (auto simp: key_inv_def metadata_at_def split: sum.splits)
  obtain dd q where dq: "drop_previous ?m (prev_path S ws) (kd_files d (cur_path S ws)) d = (dd, q)" by fastforce
  have sw: "software_md S md" if "metadata_at S d (prev_path S ws) = Some md" for md
    using inv that by (auto simp: key_inv_def)
  have q: "q = Inr () \<and> kd_files dd = kd_files d"
  proof (cases "kd_files d (prev_path S ws)")
    case None
    then show ?thesis
      using dq by (auto simp: drop_previous_def act_bind_def disk_read_path act_try_def absent_def act_ok_def)
  next
    case (Some pb)
    then obtain old where old: "parse_metadata (ds_lib S) pb = Inr old" "metadata_at S d (prev_path S ws) = Some old"
      using inv by (auto simp: key_inv_def metadata_at_def split: sum.splits)
    have "kd_files (delete_key_material ?m old d) = kd_files d"
      using delete_material_disk [OF sw [OF old(2)], of dr no_faults d] by simp
    then show ?thesis
      using dq Some old(1) by (auto simp: drop_previous_def act_bind_def disk_read_path act_try_def rd split: if_splits)
  qed
  have ren: "fi_rename ?fi (next_path S ws) (cur_path S ws) x = (y, z) \<Longrightarrow> z = Inr ()" if "kd_files x (next_path S ws) = Some nb" for x y z
    using that calm by (auto simp: disk_files_def)
  have n1: "kd_files dd (next_path S ws) = Some nb" using q nb(1) by simp
  have n2: "kd_files (set_key_file (temp_path (ds_dir S)) None (set_key_file (prev_path S ws) (Some b) dd)) (next_path S ws) = Some nb" for b
    using q nb(1) temp_path_apart(2) [symmetric, of S ws] by simp
  show ?thesis
    using p dq q nb calm temp_path_apart(3) [symmetric, of S ws]
    by (cases "kd_files d (cur_path S ws)")
      (auto simp: promote_pending_def Let_def disk_lock act_bind_def disk_read_path act_try_def rd act_ok_def absent_def disk_write
        dest: ren [OF n2] ren [OF n1])
qed


text \<open>
  A key that is gone cannot be replaced.  When the metadata of the current identity is there and its entry in
  the keyring is not, \<open>LoadIdentities\<close> reports that there is no identity and asks for \<open>enbu init\<close>, and creating
  the identity, which is what \<open>enbu init\<close> does, fails and leaves everything as it is, whatever else fails.
\<close>

theorem lost_key_stuck:
  assumes "mode_ok S" and "metadata_at S d (cur_path S ws) = Some md" and "software_md S md" and "entry_of d md = None"
  shows "load_identities (device_manager S dr kf) ws d = (d, Inl (app_new CodeNotInitialized []))
    \<and> (\<exists>e. create_identity (device_manager S dr kf) ws d = (d, Inl e))"
proof
  obtain e where e: "load_path (device_manager S dr kf) (cur_path S ws) d = (d, Inl e)" "errors_is CauseNotExist e"
    using load_dangling [OF assms] by blast
  then show "load_identities (device_manager S dr kf) ws d = (d, Inl (app_new CodeNotInitialized []))"
    by (simp add: load_identities_def load_identity_def act_bind_def act_map_err_def identities_error_def)
  obtain mode where mode: "manager_mode (device_manager S dr kf) = Inr mode"
    using mode_not_hardware [OF assms(1)] by blast
  have "kd_files d (cur_path S ws) \<noteq> None"
    using assms(2) by (auto simp: metadata_at_def split: option.splits)
  then have "fi_stat (disk_files (ds_dir S) kf) (cur_path S ws) d = (d, Inr ())"
    by (simp add: disk_files_def)
  moreover have "fi_mkdir (disk_files (ds_dir S) kf) d = (d, if kf_mkdir kf then Inl other else Inr ())"
    by (simp add: disk_files_def act_ok_def act_fail_def)
  ultimately show "\<exists>e. create_identity (device_manager S dr kf) ws d = (d, Inl e)"
    using e(1) mode by (simp add: create_identity_def create_at_def Let_def act_bind_def act_pure_def disk_lock act_try_def)
qed

subsection \<open>A device that upgrades its key\<close>

text \<open>A new device creates its identity, asks for a new key, and is stopped between the two files of the promotion.\<close>

definition key_md :: "string \<Rightarrow> string \<Rightarrow> id_metadata" where
  "key_md r ref = empty_metadata\<lparr>im_version := 1,
     im_info := empty_info\<lparr>pi_backend := backend_keyring, pi_algorithm := alg_mlkem_x25519, pi_recipient := r\<rparr>,
     im_public_key := r, im_reference := ref\<rparr>"

definition key_lib :: "key_disk id_lib" where
  "key_lib = \<lparr>il_crypto = sample_crypto, il_error_text = (\<lambda>e. []),
     il_marshal = (\<lambda>md. if md = key_md ''age1pqa'' ''61'' then Some ''1'' else if md = key_md ''age1pqb'' ''62'' then Some ''2'' else None),
     il_unmarshal = (\<lambda>b. if b = ''1'' then Some (key_md ''age1pqa'' ''61'') else if b = ''2'' then Some (key_md ''age1pqb'' ''62'') else None),
     il_marshal_signer = (\<lambda>md. None), il_unmarshal_signer = (\<lambda>b. None),
     il_generate_hybrid = act_ok [], il_generate_x25519 = act_ok [],
     il_parse_hybrid = (\<lambda>s. Inr (''age1pq'' @ s)), il_parse_x25519 = (\<lambda>s. Inr (''age1'' @ s)),
     il_hybrid_hardware = (\<lambda>i seed. Inl other), il_random = (\<lambda>n. act_ok []),
     il_ed25519 = (\<lambda>seed. sample_signer)\<rparr>"

definition key_setup :: device_setup where
  "key_setup = \<lparr>ds_lib = key_lib, ds_dir = ''d'', ds_mode = [], ds_classical = False, ds_creds = False\<rparr>"

definition key_draws :: "string \<Rightarrow> draws" where
  "key_draws s = \<lparr>dr_hybrid = s, dr_x25519 = s, dr_random = (\<lambda>n. s)\<rparr>"

definition created_disk :: key_disk where
  "created_disk = set_key_file (cur_path key_setup ''w'') (Some ''1'') (set_keyring (vault_service, ''61'') (Some ''a'') empty_disk)"

definition pending_disk :: key_disk where
  "pending_disk = set_key_file (next_path key_setup ''w'') (Some ''2'') (set_keyring (vault_service, ''62'') (Some ''b'') created_disk)"

definition half_promoted :: key_disk where
  "half_promoted = set_key_file (prev_path key_setup ''w'') (Some ''1'') pending_disk"

lemma key_laws_sample: "key_laws (ds_lib key_setup)" "mode_ok key_setup"
  by (auto simp: key_laws_def mode_ok_def key_setup_def key_lib_def split: if_splits)

lemma key_refs: "new_ref (key_draws ''a'') = ''61''" "new_ref (key_draws ''b'') = ''62''"
  by (simp_all add: new_ref_def key_draws_def) (code_simp+)

lemma key_setup_sel [simp]:
  "ds_lib key_setup = key_lib" "ds_mode key_setup = []" "ds_classical key_setup = False" "ds_creds key_setup = False"
  "il_parse_hybrid key_lib s = Inr (''age1pq'' @ s)"
  "il_marshal key_lib (key_md ''age1pqa'' ''61'') = Some ''1''" "il_marshal key_lib (key_md ''age1pqb'' ''62'') = Some ''2''"
  "il_unmarshal key_lib ''1'' = Some (key_md ''age1pqa'' ''61'')" "il_unmarshal key_lib ''2'' = Some (key_md ''age1pqb'' ''62'')"
  "im_version (key_md r ref) = 1" "(key_md r ref)\<lparr>im_version := 1\<rparr> = key_md r ref" "im_reference (key_md r ref) = ref"
  "pi_recipient (im_info (key_md r ref)) = r" "pi_backend (im_info (key_md r ref)) = backend_keyring" "im_public_key (key_md r ref) = r"
  by (simp_all add: key_setup_def key_lib_def) (simp_all add: key_md_def empty_metadata_def empty_info_def)

lemma key_parse:
  "parse_metadata key_lib ''1'' = Inr (key_md ''age1pqa'' ''61'')" "parse_metadata key_lib ''2'' = Inr (key_md ''age1pqb'' ''62'')"
  by (simp_all add: parse_metadata_def backend_keyring_def)

lemma key_draw_sel [simp]: "dr_hybrid (key_draws s) = s" "dr_random (key_draws s) n = s"
  by (simp_all add: key_draws_def)

lemma key_hex: "hex_encode ''a'' = ''61''" "hex_encode ''b'' = ''62''"
  by code_simp+

lemma key_create_calm:
  assumes "kd_files d p = None" and "p \<noteq> temp_path (ds_dir key_setup)" and "kd_files d (temp_path (ds_dir key_setup)) = None"
    and "il_marshal key_lib (key_md (''age1pq'' @ s) (hex_encode s)) = Some b"
  shows "\<exists>r. create_at (device_manager key_setup (key_draws s) no_faults) p False d
    = (set_key_file p (Some b) (set_keyring (vault_service, hex_encode s) (Some s) d), r)"
proof -
  let ?m = "device_manager key_setup (key_draws s) no_faults" and ?fi = "disk_files (ds_dir key_setup) no_faults"
  have calm: "\<not> kf_lock no_faults" "\<not> kf_write no_faults" "\<And>q. \<not> kf_rename no_faults q" "\<not> kf_probe no_faults"
    "\<not> kf_mkdir no_faults" "\<not> kf_store no_faults"
    by (simp_all add: no_faults_def)
  have mode: "manager_mode ?m = Inr ''auto''" by (simp add: manager_mode_def)
  have md: "empty_metadata\<lparr>im_version := 1,
      im_info := empty_info\<lparr>pi_backend := backend_keyring, pi_algorithm := alg_mlkem_x25519, pi_recipient := ''age1pq'' @ s\<rparr>,
      im_public_key := ''age1pq'' @ s, im_reference := hex_encode s\<rparr> = key_md (''age1pq'' @ s) (hex_encode s)"
    by (simp add: key_md_def)
  have sv: "software_vault ?m d = (d, Inr (backend_keyring, entry_vault kd_keyring set_keyring (kf_probe no_faults) no_faults))"
    using calm by (simp add: software_vault_def Let_def act_bind_def act_try_def probe_vault_def entry_vault_def act_ok_def)
  have cs: "\<exists>i. create_software ?m False d = (set_keyring (vault_service, hex_encode s) (Some s) d, Inr (i, key_md (''age1pq'' @ s) (hex_encode s)))"
    using calm md by (simp add: create_software_def Let_def act_bind_def sv generate_keyring_identity_def act_ok_def act_pure_def
        parse_keyring_identity_def res_bind_def act_map_err_def entry_vault_def)
  have ck: "\<exists>i w. create_key ?m ''auto'' False d = (set_keyring (vault_service, hex_encode s) (Some s) d, Inr (i, key_md (''age1pq'' @ s) (hex_encode s), w))"
    using cs by (auto simp: create_key_def Let_def act_bind_def no_diagnosis_def act_ok_def)
  have t: "set_key_file (temp_path (ds_dir key_setup)) None (set_key_file p (Some b) (set_keyring k x d))
      = set_key_file p (Some b) (set_keyring k x d)" for k x
    using assms(2,3) by (simp add: set_key_file_def set_keyring_def fun_upd_idem)
  have stat: "fi_stat ?fi p d = (d, Inl absent)" "fi_mkdir ?fi d = (d, Inr ())"
    using assms(1) calm by (simp_all add: disk_files_def act_ok_def)
  show ?thesis
    using ck assms(2,4) calm stat t
    by (auto simp: create_at_def Let_def act_bind_def act_pure_def mode disk_lock act_try_def absent_def create_new_def save_json_def disk_write)
qed

lemma created_files:
  "kd_files created_disk (cur_path key_setup ''w'') = Some ''1''" "kd_files created_disk (next_path key_setup ''w'') = None"
  "kd_files created_disk (prev_path key_setup ''w'') = None" "kd_files created_disk (temp_path (ds_dir key_setup)) = None"
  using temp_path_apart(1) [of key_setup "''w''"] by (simp_all add: created_disk_def empty_disk_def)

lemma pending_files:
  "kd_files pending_disk (cur_path key_setup ''w'') = Some ''1''" "kd_files pending_disk (next_path key_setup ''w'') = Some ''2''"
  "kd_files pending_disk (prev_path key_setup ''w'') = None" "kd_files pending_disk (temp_path (ds_dir key_setup)) = None"
  using created_files temp_path_apart(2) [of key_setup "''w''"] by (simp_all add: pending_disk_def)

lemma reach_created: "key_reach key_setup ''w'' created_disk"
proof -
  have "\<exists>r. create_at (device_manager key_setup (key_draws ''a'') no_faults) (cur_path key_setup ''w'') False empty_disk = (created_disk, r)"
    using key_create_calm [of empty_disk "cur_path key_setup ''w''" "''a''" "''1''"] temp_path_apart(1) [of key_setup "''w''"]
    by (auto simp: empty_disk_def created_disk_def key_hex)
  then obtain r where "create_identity (device_manager key_setup (key_draws ''a'') no_faults) ''w'' empty_disk = (created_disk, r)"
    by (auto simp: create_identity_def)
  moreover have "fresh_draws key_setup ''w'' empty_disk (key_draws ''a'')"
    by (simp add: fresh_draws_def key_refs empty_disk_def metadata_at_def)
  ultimately show ?thesis
    by (meson reach_empty reach_step step_create)
qed

lemma reach_pending: "key_reach key_setup ''w'' pending_disk"
proof -
  have "\<exists>r. create_at (device_manager key_setup (key_draws ''b'') no_faults) (next_path key_setup ''w'') False created_disk = (pending_disk, r)"
    using key_create_calm [of created_disk "next_path key_setup ''w''" "''b''" "''2''"] created_files
      temp_path_apart(2) [of key_setup "''w''"]
    by (auto simp: pending_disk_def key_hex)
  then obtain r where "create_pending (device_manager key_setup (key_draws ''b'') no_faults) ''w'' created_disk = (pending_disk, r)"
    using created_files(1) key_parse
    by (auto simp: create_pending_def read_identity_def act_bind_def disk_read_path)
  moreover have "fresh_draws key_setup ''w'' created_disk (key_draws ''b'')"
    using created_files key_parse
    by (auto simp: fresh_draws_def key_refs metadata_at_def) (simp_all add: created_disk_def empty_disk_def)
  ultimately show ?thesis
    using reach_created by (meson reach_step step_pending)
qed

definition stop_at_rename :: key_faults where
  "stop_at_rename = no_faults\<lparr>kf_rename := (\<lambda>p. p = cur_path key_setup ''w'')\<rparr>"

lemma reach_half: "key_reach key_setup ''w'' half_promoted"
proof -
  have calm: "\<not> kf_lock stop_at_rename" "\<not> kf_write stop_at_rename" "kf_rename stop_at_rename q \<longleftrightarrow> q = cur_path key_setup ''w''" for q
    by (simp_all add: stop_at_rename_def no_faults_def)
  have drop: "drop_previous (device_manager key_setup (key_draws []) stop_at_rename) (prev_path key_setup ''w'') (Some ''1'') pending_disk
      = (pending_disk, Inr ())"
    using pending_files by (simp add: drop_previous_def act_bind_def act_try_def disk_read_path absent_def)
  have "set_key_file (temp_path (ds_dir key_setup)) None half_promoted = half_promoted"
    using clear_temp pending_files(4) temp_path_apart(3) [of key_setup "''w''"] by (simp add: half_promoted_def)
  then have "\<exists>r. promote_pending (device_manager key_setup (key_draws []) stop_at_rename) ''w'' pending_disk = (half_promoted, r)"
    using pending_files key_parse drop calm temp_path_apart(3) [symmetric, of key_setup "''w''"]
    by (simp add: promote_pending_def Let_def disk_lock act_bind_def disk_read_path act_try_def disk_write half_promoted_def
        disk_read disk_rename_fails act_ok_def)
  then show ?thesis
    using reach_pending by (meson reach_step step_promote)
qed



theorem lost_key_stuck_witness:
  "load_identities (device_manager key_setup (key_draws ''c'') no_faults) ''w'' (created_disk\<lparr>kd_keyring := (\<lambda>k. None)\<rparr>)
     = (created_disk\<lparr>kd_keyring := (\<lambda>k. None)\<rparr>, Inl (app_new CodeNotInitialized []))"
proof -
  have "metadata_at key_setup (created_disk\<lparr>kd_keyring := (\<lambda>k. None)\<rparr>) (cur_path key_setup ''w'') = Some (key_md ''age1pqa'' ''61'')"
    using created_files(1) key_parse by (simp add: metadata_at_def)
  moreover have "software_md key_setup (key_md ''age1pqa'' ''61'')"
    by (simp add: software_md_def software_backend_def backend_keyring_def backend_creds_def) (simp add: key_md_def)
  moreover have "entry_of (created_disk\<lparr>kd_keyring := (\<lambda>k. None)\<rparr>) (key_md ''age1pqa'' ''61'') = None"
    by (simp add: entry_of_def backend_keyring_def backend_creds_def)
  ultimately show ?thesis
    using lost_key_stuck [OF key_laws_sample(2), of _ "''w''" "key_md ''age1pqa'' ''61''" "key_draws ''c''" no_faults] by blast
qed

end
