(* ===== verification/Keystore.thy ===== *)
theory Keystore
  imports Identities
begin

text \<open>
  The places a software key is kept in, \<open>pkg/keystore\<close>: the OS keyring (a parameter), files encrypted with
  \<open>systemd-creds\<close> (\<open>CredsBackend\<close>; the command is a parameter) and plain files (\<open>TextBackend\<close>).
\<close>

definition sanitize_key :: "string \<Rightarrow> string" where
  "sanitize_key key = map (\<lambda>c. if c = CHR ''/'' then CHR ''_'' else c) key"

subsection \<open>The OS keyring\<close>

text \<open>The keyring library: \<open>Inl None\<close> is its \<open>ErrNotFound\<close>.\<close>

record 's keyring_lib =
  kr_get :: "string \<Rightarrow> string \<Rightarrow> 's \<Rightarrow> 's \<times> (go_error option + bytes)"
  kr_set :: "string \<Rightarrow> string \<Rightarrow> bytes \<Rightarrow> ('s, unit) act"
  kr_delete :: "string \<Rightarrow> string \<Rightarrow> 's \<Rightarrow> 's \<times> (go_error option + unit)"
  kr_timed_out :: "'s \<Rightarrow> bool"

definition keyring_answer :: "'s \<times> (go_error option + 'a) \<Rightarrow> 's \<times> 'a app_result" where
  "keyring_answer p =
     (case p of
        (s, Inl None) \<Rightarrow> (s, Inl (Plain CauseNotExist))
      | (s, Inl (Some e)) \<Rightarrow> (s, Inl e)
      | (s, Inr x) \<Rightarrow> (s, Inr x))"

text \<open>The probe asks for an entry that need not exist and gives up after three seconds.\<close>

definition keyring_probe :: "'s keyring_lib \<Rightarrow> ('s, unit) act" where
  "keyring_probe kl s =
     (case kr_get kl ''enbu-probe'' ''probe'' s of
        (s', r) \<Rightarrow>
          if kr_timed_out kl s' then (s', Inl (Plain CauseOther))
          else (case r of Inl (Some e) \<Rightarrow> (s', Inl e) | _ \<Rightarrow> (s', Inr ())))"

definition keyring_load :: "'s keyring_lib \<Rightarrow> string \<Rightarrow> string \<Rightarrow> ('s, bytes) act" where
  "keyring_load kl service key s = keyring_answer (kr_get kl service key s)"

definition keyring_delete :: "'s keyring_lib \<Rightarrow> string \<Rightarrow> string \<Rightarrow> ('s, unit) act" where
  "keyring_delete kl service key s = keyring_answer (kr_delete kl service key s)"

definition keyring_vault :: "'s keyring_lib \<Rightarrow> 's vault" where
  "keyring_vault kl =
     \<lparr>va_probe = Some (keyring_probe kl), va_store = kr_set kl, va_load = keyring_load kl, va_delete = keyring_delete kl\<rparr>"

subsection \<open>systemd-creds\<close>

text \<open>The files of the directory \<open>Dir\<close>, and the command: its standard input and arguments give its output.\<close>

record 's creds_os =
  cr_mkdir :: "('s, unit) act"
  cr_chmod :: "('s, unit) act"
  cr_stat :: "string \<Rightarrow> ('s, unit) act"
  cr_write_temp :: "bytes \<Rightarrow> ('s, string) act"
  cr_rename :: "string \<Rightarrow> string \<Rightarrow> ('s, unit) act"
  cr_remove :: "string \<Rightarrow> ('s, unit) act"
  cr_run :: "bytes \<Rightarrow> string list \<Rightarrow> ('s, bytes) act"

definition creds_path :: "string \<Rightarrow> string \<Rightarrow> string \<Rightarrow> string" where
  "creds_path dir service key = dir @ ''/'' @ service @ ''_'' @ sanitize_key key @ ''.cred''"

definition cred_name :: "string \<Rightarrow> string \<Rightarrow> string" where
  "cred_name service key = service @ ''.'' @ sanitize_key key"

definition creds_probe :: "'s creds_os \<Rightarrow> ('s, unit) act" where
  "creds_probe os =
     act_bind (cr_run os ''probe'' [''--user'', ''encrypt'', ''--name=enbu-probe'', ''-'', ''-'']) (\<lambda>_. act_ok ())"

definition creds_store :: "'s creds_os \<Rightarrow> string \<Rightarrow> string \<Rightarrow> string \<Rightarrow> bytes \<Rightarrow> ('s, unit) act" where
  "creds_store os dir service key secret =
     act_bind (act_map_err (\<lambda>e. Wrapping [e]) (cr_mkdir os)) (\<lambda>_.
     act_bind (act_map_err (\<lambda>e. Wrapping [e]) (cr_chmod os)) (\<lambda>_.
     act_bind (cr_run os secret [''--user'', ''encrypt'', ''--name='' @ cred_name service key, ''-'', ''-'']) (\<lambda>sealed.
     act_bind (cr_write_temp os sealed) (\<lambda>tmp s.
       case cr_rename os tmp (creds_path dir service key) s of
         (s', r) \<Rightarrow> (ignore_errors (cr_remove os tmp) s', r)))))"

definition creds_load :: "'s creds_os \<Rightarrow> string \<Rightarrow> string \<Rightarrow> string \<Rightarrow> ('s, bytes) act" where
  "creds_load os dir service key =
     (let path = creds_path dir service key
      in act_bind (act_map_err (\<lambda>e. if errors_is CauseNotExist e then Plain CauseNotExist else e) (cr_stat os path)) (\<lambda>_.
         cr_run os [] [''--user'', ''decrypt'', ''--name='' @ cred_name service key, path, ''-'']))"

definition creds_delete :: "'s creds_os \<Rightarrow> string \<Rightarrow> string \<Rightarrow> string \<Rightarrow> ('s, unit) act" where
  "creds_delete os dir service key =
     act_map_err (\<lambda>e. if errors_is CauseNotExist e then Plain CauseNotExist else e)
       (cr_remove os (creds_path dir service key))"

definition creds_vault :: "'s creds_os \<Rightarrow> string \<Rightarrow> 's vault" where
  "creds_vault os dir =
     \<lparr>va_probe = Some (creds_probe os), va_store = creds_store os dir, va_load = creds_load os dir, va_delete = creds_delete os dir\<rparr>"

subsection \<open>Plain files\<close>

record 's text_os =
  to_mkdir :: "('s, unit) act"
  to_write :: "string \<Rightarrow> bytes \<Rightarrow> ('s, unit) act"
  to_read :: "string \<Rightarrow> ('s, bytes) act"
  to_remove :: "string \<Rightarrow> ('s, unit) act"

definition text_path :: "string \<Rightarrow> string \<Rightarrow> string \<Rightarrow> string" where
  "text_path dir service key = dir @ ''/'' @ service @ ''_'' @ sanitize_key key"

definition text_store :: "'s text_os \<Rightarrow> string \<Rightarrow> string \<Rightarrow> string \<Rightarrow> bytes \<Rightarrow> ('s, unit) act" where
  "text_store os dir service key secret =
     act_bind (act_map_err (\<lambda>e. Wrapping [e]) (to_mkdir os)) (\<lambda>_. to_write os (text_path dir service key) secret)"

definition text_load :: "'s text_os \<Rightarrow> string \<Rightarrow> string \<Rightarrow> string \<Rightarrow> ('s, bytes) act" where
  "text_load os dir service key =
     act_map_err (\<lambda>e. if errors_is CauseNotExist e then Plain CauseNotExist else e) (to_read os (text_path dir service key))"

definition text_delete :: "'s text_os \<Rightarrow> string \<Rightarrow> string \<Rightarrow> string \<Rightarrow> ('s, unit) act" where
  "text_delete os dir service key s =
     (case to_remove os (text_path dir service key) s of
        (s', Inl e) \<Rightarrow> if errors_is CauseNotExist e then (s', Inr ()) else (s', Inl e)
      | (s', Inr _) \<Rightarrow> (s', Inr ()))"

definition text_vault :: "'s text_os \<Rightarrow> string \<Rightarrow> 's vault" where
  "text_vault os dir = \<lparr>va_probe = None, va_store = text_store os dir, va_load = text_load os dir, va_delete = text_delete os dir\<rparr>"

text \<open>\<open>keystore.New\<close>: the backend named by \<open>ENBU_BACKEND\<close>, the keyring when it is not set.\<close>

definition new_keystore :: "string \<Rightarrow> 's vault \<Rightarrow> 's vault \<Rightarrow> ('s, 's vault) act" where
  "new_keystore backend keyring text =
     (if backend = [] \<or> backend = ''keyring'' then
        act_bind (act_map_err (\<lambda>e. Wrapping [e]) (case va_probe keyring of None \<Rightarrow> act_ok () | Some p \<Rightarrow> p)) (\<lambda>_. act_ok keyring)
      else if backend = ''text'' then act_ok text
      else act_fail (Plain CauseOther))"

subsection \<open>Names\<close>

text \<open>The keys of \<open>Identities\<close> have no slash, so distinct keys have distinct files and names.\<close>

lemma sanitize_plain: "CHR ''/'' \<notin> set key \<Longrightarrow> sanitize_key key = key"
  by (induction key) (auto simp: sanitize_key_def)

lemma creds_path_inj:
  "CHR ''/'' \<notin> set k \<Longrightarrow> CHR ''/'' \<notin> set k' \<Longrightarrow> creds_path dir sv k = creds_path dir sv k' \<longleftrightarrow> k = k'"
  by (simp add: creds_path_def sanitize_plain)

lemma text_path_inj:
  "CHR ''/'' \<notin> set k \<Longrightarrow> CHR ''/'' \<notin> set k' \<Longrightarrow> text_path dir sv k = text_path dir sv k' \<longleftrightarrow> k = k'"
  by (simp add: text_path_def sanitize_plain)

subsection \<open>Credentials are bound to their name\<close>

text \<open>
  A directory of credential files, and \<open>systemd-creds\<close> as documented: it opens a sealed secret only under the
  name it was sealed for.  \<open>seal\<close> and \<open>unseal\<close> are what it computes.
\<close>

definition creds_dir :: "(string \<Rightarrow> bytes \<Rightarrow> bytes) \<Rightarrow> (string \<Rightarrow> bytes \<Rightarrow> bytes option) \<Rightarrow> string \<Rightarrow> (string \<Rightarrow> bytes option) creds_os" where
  "creds_dir seal unseal tmp =
     \<lparr>cr_mkdir = act_ok (), cr_chmod = act_ok (),
      cr_stat = (\<lambda>p fs. (fs, if fs p = None then Inl (Plain CauseNotExist) else Inr ())),
      cr_write_temp = (\<lambda>b fs. (fs(tmp := Some b), Inr tmp)),
      cr_rename = (\<lambda>a p fs. (fs(p := fs a, a := None), Inr ())),
      cr_remove = (\<lambda>p fs. (fs(p := None), if fs p = None then Inl (Plain CauseNotExist) else Inr ())),
      cr_run = (\<lambda>inp args fs.
        (fs, if args ! 1 = ''encrypt'' then Inr (seal (drop 7 (args ! 2)) inp)
             else case Option.bind (fs (args ! 3)) (unseal (drop 7 (args ! 2))) of None \<Rightarrow> Inl (Plain CauseOther) | Some x \<Rightarrow> Inr x))\<rparr>"

text \<open>
  What is stored in a credential file is what is loaded, under its own name only: after storing a secret it is
  loaded back, every other entry loads as before, and the file copied over another entry's does not load as that
  entry.  The command opens a secret under the name it was sealed for and no other.
\<close>

theorem creds_bound_to_name:
  assumes "unseal (cred_name sv key) (seal (cred_name sv key) secret) = Some secret"
    and "unseal (cred_name sv key') (seal (cred_name sv key) secret) = None"
    and "CHR ''/'' \<notin> set key" and "CHR ''/'' \<notin> set key'" and "key' \<noteq> key"
    and "tmp \<noteq> creds_path dir sv key" and "tmp \<noteq> creds_path dir sv key'"
  shows "\<exists>fs'. creds_store (creds_dir seal unseal tmp) dir sv key secret fs = (fs', Inr ())
    \<and> creds_load (creds_dir seal unseal tmp) dir sv key fs' = (fs', Inr secret)
    \<and> snd (creds_load (creds_dir seal unseal tmp) dir sv key' fs') = snd (creds_load (creds_dir seal unseal tmp) dir sv key' fs)
    \<and> (let copied = fs'(creds_path dir sv key' := fs' (creds_path dir sv key))
       in creds_load (creds_dir seal unseal tmp) dir sv key' copied = (copied, Inl (Plain CauseOther)))"
proof -
  let ?os = "creds_dir seal unseal tmp" and ?p = "creds_path dir sv key" and ?q = "creds_path dir sv key'"
  have ne: "?q \<noteq> ?p" using assms(3-5) creds_path_inj by metis
  define fs' where "fs' = (fs(?p := Some (seal (cred_name sv key) secret), tmp := None))"
  have store: "creds_store ?os dir sv key secret fs = (fs', Inr ())"
    using assms(6) by (auto simp: creds_store_def act_bind_def act_map_err_def creds_dir_def act_ok_def ignore_errors_def fs'_def)
  have load: "creds_load ?os dir sv k g = (g, case g (creds_path dir sv k) of None \<Rightarrow> Inl (Plain CauseNotExist)
      | Some x \<Rightarrow> (case unseal (cred_name sv k) x of None \<Rightarrow> Inl (Plain CauseOther) | Some y \<Rightarrow> Inr y))" for k g
    by (simp add: creds_load_def Let_def act_bind_def act_map_err_def creds_dir_def split: option.split)
  show ?thesis
    using assms(1,2,6,7) ne by (intro exI [of _ fs']) (simp add: store load, simp add: fs'_def)
qed

definition name_seal :: "string \<Rightarrow> bytes \<Rightarrow> bytes" where "name_seal n x = n @ x"
definition name_unseal :: "string \<Rightarrow> bytes \<Rightarrow> bytes option" where
  "name_unseal n s = (if take (length n) s = n then Some (drop (length n) s) else None)"

theorem creds_bound_to_name_witness:
  "\<exists>fs'. creds_store (creds_dir name_seal name_unseal ''t'') ''d'' ''s'' ''a'' ''x'' (\<lambda>p. None) = (fs', Inr ())
     \<and> creds_load (creds_dir name_seal name_unseal ''t'') ''d'' ''s'' ''a'' fs' = (fs', Inr ''x'')"
  using creds_bound_to_name [of name_unseal "''s''" "''a''" name_seal "''x''" "''b''" "''t''" "''d''" "\<lambda>p. None"]
  by (force simp: name_seal_def name_unseal_def cred_name_def sanitize_key_def creds_path_def)

end
