(* ===== verification/Artifacts.thy ===== *)
theory Artifacts
  imports Dotenv Digests Storage_Format
begin

text \<open>
  Artifacts and their payloads: \<open>pkg/artifact\<close> (what a value is: its schema, metadata and payload references,
  with one wire form), \<open>pkg/content\<close> (\<open>VerifyCopy\<close>), \<open>pkg/schema/secretmap\<close> and \<open>pkg/schema/opaque\<close> (the two
  schemas), and \<open>pkg/export/awssecrets\<close> (the plan of an export and its application).

  CBOR, Unicode normalization and the media type parser are the fields of \<open>artifact_lib\<close>; the regular
  expressions of the source are written out as functions.
\<close>

datatype content_error =
  ErrInvalidArtifact | ErrNonCanonicalArtifact | ErrArtifactDecode | ErrSizeMismatch | ErrDigestMismatch | ErrNoProgress
| ErrShortWrite | ErrReadPayload | ErrWritePayload | ErrCanceled | ErrUnsupportedOpaque | ErrInvalidOpaque
| ErrSecretMap secretmap_error | ErrInvalidPlan

subsection \<open>Patterns\<close>

definition upper :: "char \<Rightarrow> bool" where "upper c \<longleftrightarrow> in_range 65 90 c"
definition lower :: "char \<Rightarrow> bool" where "lower c \<longleftrightarrow> in_range 97 122 c"
definition digit :: "char \<Rightarrow> bool" where "digit c \<longleftrightarrow> in_range 48 57 c"
definition alnum :: "char \<Rightarrow> bool" where "alnum c \<longleftrightarrow> upper c \<or> lower c \<or> digit c"

text \<open>\<open>^e(?:m*e)?$\<close>: at least one character, the first and the last match \<open>e\<close>, those between match \<open>m\<close>.\<close>

definition ends_and_middle :: "(char \<Rightarrow> bool) \<Rightarrow> (char \<Rightarrow> bool) \<Rightarrow> string \<Rightarrow> bool" where
  "ends_and_middle e m s \<longleftrightarrow> s \<noteq> [] \<and> e (hd s) \<and> e (last s) \<and> list_all m (butlast (tl s))"

definition name_middle :: "char \<Rightarrow> bool" where
  "name_middle c \<longleftrightarrow> alnum c \<or> c \<in> set ''-_.''"

definition qualified_name_part :: "string \<Rightarrow> bool" where
  "qualified_name_part s = ends_and_middle alnum name_middle s"

definition label_value :: "string \<Rightarrow> bool" where
  "label_value s \<longleftrightarrow> s = [] \<or> ends_and_middle alnum name_middle s"

definition dns_label :: "string \<Rightarrow> bool" where
  "dns_label s = ends_and_middle (\<lambda>c. lower c \<or> digit c) (\<lambda>c. lower c \<or> digit c \<or> c = CHR ''-'') s"

text \<open>\<open>[1-9][0-9]*\<close> at the start: what follows it.\<close>

definition after_number :: "string \<Rightarrow> string option" where
  "after_number s = (case s of c # cs \<Rightarrow> if in_range 49 57 c then Some (dropWhile digit cs) else None | [] \<Rightarrow> None)"

definition version_pattern :: "string \<Rightarrow> bool" where
  "version_pattern s =
     (case s of
        c # cs \<Rightarrow> c = CHR ''v'' \<and>
          (case after_number cs of
             None \<Rightarrow> False
           | Some rest \<Rightarrow>
               rest = []
               \<or> take 5 rest = ''alpha'' \<and> after_number (drop 5 rest) = Some []
               \<or> take 4 rest = ''beta'' \<and> after_number (drop 4 rest) = Some [])
      | [] \<Rightarrow> False)"

definition kind_pattern :: "string \<Rightarrow> bool" where
  "kind_pattern s = (case s of c # cs \<Rightarrow> upper c \<and> length cs \<le> 62 \<and> list_all alnum cs | [] \<Rightarrow> False)"

text \<open>\<open>strings.Split\<close> on one character.\<close>

fun split_char :: "char \<Rightarrow> string \<Rightarrow> string list" where
  "split_char c [] = [[]]"
| "split_char c (x # xs) =
     (if x = c then [] # split_char c xs
      else case split_char c xs of p # ps \<Rightarrow> (x # p) # ps | [] \<Rightarrow> [[x]])"

subsection \<open>Types\<close>

definition api_version :: string where "api_version = ''artifacts.enbu.net/v2alpha1''"
definition max_metadata_bytes :: nat where "max_metadata_bytes = 256 * 1024"
definition max_metadata_entries :: nat where "max_metadata_entries = 4 * 1024"
definition max_media_type_bytes :: nat where "max_media_type_bytes = 1024"
definition max_payloads :: nat where "max_payloads = 1024"
definition max_artifact_bytes :: nat where "max_artifact_bytes = 16 * 1024 * 1024"

record type_ref =
  ty_group :: string
  ty_version :: string
  ty_kind :: string

record metadata =
  me_name :: string
  me_labels :: "(string, string) gomap"
  me_annotations :: "(string, string) gomap"

text \<open>The size is a \<open>uint64\<close>.\<close>

record payload_ref =
  pr_name :: string
  pr_media_type :: string
  pr_digest :: digest
  pr_size :: "64 word"

record artifact =
  ar_api_version :: string
  ar_uid :: string
  ar_schema :: type_ref
  ar_metadata :: metadata
  ar_payloads :: "payload_ref list"

text \<open>A decoded CBOR value, as far as \<open>validateWireValue\<close> tells values apart.\<close>

datatype wire = WireNull | WireFloat | WireText string | WireMap "wire_entry list" | WireArray "wire list" | WireOther
and wire_entry = WireEntry wire wire

record artifact_lib =
  al_digest :: digest_lib
  al_nfc :: "string \<Rightarrow> bool"
  al_media_type :: "string \<Rightarrow> bool"
  al_encode_metadata :: "metadata \<Rightarrow> bytes option"
  al_encode :: "artifact \<Rightarrow> bytes option"
  al_wire :: "bytes \<Rightarrow> wire option"
  al_decode :: "bytes \<Rightarrow> artifact option"

subsection \<open>Validation\<close>

definition uuid_hyphens :: "nat set" where "uuid_hyphens = {8, 13, 18, 23}"

text \<open>The hexadecimal digits, in order; bytes 6 and 8 of the value are its 13th and 14th, 17th and 18th digits.\<close>

definition parse_uuid :: "string \<Rightarrow> content_error + string" where
  "parse_uuid s =
     (if length s \<noteq> 36 \<or> \<not> (\<forall>i\<in>uuid_hyphens. s ! i = CHR ''-'') then Inl ErrInvalidArtifact
      else if \<not> list_all (\<lambda>i. i \<in> uuid_hyphens \<or> digit (s ! i) \<or> in_range 97 102 (s ! i)) [0..<36] then Inl ErrInvalidArtifact
      else
        case hex_decode (filter (\<lambda>c. c \<noteq> CHR ''-'') s) of
          None \<Rightarrow> Inl ErrInvalidArtifact
        | Some raw \<Rightarrow>
            let version = code (raw ! 6) div 16
            in if list_all (\<lambda>b. code b = 0) raw then Inl ErrInvalidArtifact
               else if version < 1 \<or> version > 8 then Inl ErrInvalidArtifact
               else if code (raw ! 8) div 64 \<noteq> 2 then Inl ErrInvalidArtifact
               else Inr s)"

definition validate_dns_subdomain :: "string \<Rightarrow> bool" where
  "validate_dns_subdomain s \<longleftrightarrow>
     s \<noteq> [] \<and> length s \<le> 253 \<and> list_all (\<lambda>l. l \<noteq> [] \<and> length l \<le> 63 \<and> dns_label l) (split_char CHR ''.'' s)"

definition type_ref_validate :: "type_ref \<Rightarrow> content_error + unit" where
  "type_ref_validate r =
     (if \<not> validate_dns_subdomain (ty_group r) then Inl ErrInvalidArtifact
      else if length (ty_version r) > 63 \<or> \<not> version_pattern (ty_version r) then Inl ErrInvalidArtifact
      else if \<not> kind_pattern (ty_kind r) then Inl ErrInvalidArtifact
      else Inr ())"

definition parse_type_ref :: "string \<Rightarrow> content_error + type_ref" where
  "parse_type_ref s =
     (case split_char CHR ''/'' s of
        [g, v, k] \<Rightarrow> let r = \<lparr>ty_group = g, ty_version = v, ty_kind = k\<rparr> in res_bind (type_ref_validate r) (\<lambda>_. Inr r)
      | _ \<Rightarrow> Inl ErrInvalidArtifact)"

definition type_ref_string :: "type_ref \<Rightarrow> string" where
  "type_ref_string r = ty_group r @ ''/'' @ ty_version r @ ''/'' @ ty_kind r"

definition validate_qualified_name :: "string \<Rightarrow> bool" where
  "validate_qualified_name s =
     (let qualified = CHR ''/'' \<in> set s; prefix = (if qualified then before CHR ''/'' s else []);
          name = (if qualified then after CHR ''/'' s else s)
      in (prefix = [] \<or> validate_dns_subdomain prefix) \<and> name \<noteq> [] \<and> length name \<le> 63 \<and> qualified_name_part name)"

text \<open>The characters \<open>validateDisplayName\<close> rejects are ASCII, so looking at bytes is looking at runes.\<close>

definition validate_display_name :: "artifact_lib \<Rightarrow> string \<Rightarrow> bool" where
  "validate_display_name al s \<longleftrightarrow>
     s \<noteq> [] \<and> length s \<le> 253 \<and> utf8_valid s \<and> al_nfc al s
     \<and> list_all (\<lambda>c. \<not> (code c < 0x20 \<or> code c = 0x7F \<or> c = CHR ''/'' \<or> c = backslash)) s"

definition metadata_validate :: "artifact_lib \<Rightarrow> metadata \<Rightarrow> content_error + unit" where
  "metadata_validate al m =
     (if \<not> validate_display_name al (me_name m) then Inl ErrInvalidArtifact
      else if length (me_labels m) + length (me_annotations m) > max_metadata_entries then Inl ErrInvalidArtifact
      else if \<not> list_all (\<lambda>(k, v). validate_qualified_name k \<and> length v \<le> 63 \<and> label_value v) (me_labels m)
      then Inl ErrInvalidArtifact
      else if \<not> list_all (\<lambda>(k, v). validate_qualified_name k \<and> utf8_valid v \<and> CHR 0x00 \<notin> set v \<and> al_nfc al v) (me_annotations m)
      then Inl ErrInvalidArtifact
      else case al_encode_metadata al m of
             None \<Rightarrow> Inl ErrInvalidArtifact
           | Some b \<Rightarrow> if length b > max_metadata_bytes then Inl ErrInvalidArtifact else Inr ())"

definition payload_ref_validate :: "artifact_lib \<Rightarrow> payload_ref \<Rightarrow> content_error + unit" where
  "payload_ref_validate al p =
     (if pr_name p = [] \<or> length (pr_name p) > 253 \<or> \<not> qualified_name_part (pr_name p) then Inl ErrInvalidArtifact
      else if pr_media_type p = [] \<or> length (pr_media_type p) > max_media_type_bytes \<or> \<not> utf8_valid (pr_media_type p)
           \<or> \<not> al_nfc al (pr_media_type p) then Inl ErrInvalidArtifact
      else if \<not> al_media_type al (pr_media_type p) then Inl ErrInvalidArtifact
      else if \<not> valid_digest (al_digest al) (pr_digest p) then Inl ErrInvalidArtifact
      else Inr ())"

fun payloads_loop :: "artifact_lib \<Rightarrow> payload_ref list \<Rightarrow> string list \<Rightarrow> content_error + unit" where
  "payloads_loop al [] names = Inr ()"
| "payloads_loop al (p # ps) names =
     res_bind (payload_ref_validate al p) (\<lambda>_.
       if pr_name p \<in> set names then Inl ErrInvalidArtifact else payloads_loop al ps (pr_name p # names))"

definition artifact_validate :: "artifact_lib \<Rightarrow> artifact \<Rightarrow> content_error + unit" where
  "artifact_validate al a =
     (if ar_api_version a \<noteq> api_version then Inl ErrInvalidArtifact
      else
        res_bind (parse_uuid (ar_uid a)) (\<lambda>_.
        res_bind (type_ref_validate (ar_schema a)) (\<lambda>_.
        res_bind (metadata_validate al (ar_metadata a)) (\<lambda>_.
          if length (ar_payloads a) > max_payloads then Inl ErrInvalidArtifact
          else payloads_loop al (ar_payloads a) []))))"

subsection \<open>The wire form\<close>

definition canonical_artifact :: "artifact \<Rightarrow> artifact" where
  "canonical_artifact a = a\<lparr>ar_payloads := sort_key pr_name (ar_payloads a)\<rparr>"

definition encode_artifact :: "artifact_lib \<Rightarrow> artifact \<Rightarrow> content_error + bytes" where
  "encode_artifact al a =
     res_bind (artifact_validate al a) (\<lambda>_.
       case al_encode al (canonical_artifact a) of
         None \<Rightarrow> Inl ErrInvalidArtifact
       | Some b \<Rightarrow> if length b > max_artifact_bytes then Inl ErrInvalidArtifact else Inr b)"

fun validate_wire :: "artifact_lib \<Rightarrow> wire \<Rightarrow> bool"
and validate_wire_entries :: "artifact_lib \<Rightarrow> wire_entry list \<Rightarrow> bool"
and validate_wire_items :: "artifact_lib \<Rightarrow> wire list \<Rightarrow> bool" where
  "validate_wire al WireNull = False"
| "validate_wire al WireFloat = False"
| "validate_wire al (WireText s) = (utf8_valid s \<and> al_nfc al s)"
| "validate_wire al (WireMap kvs) = validate_wire_entries al kvs"
| "validate_wire al (WireArray vs) = validate_wire_items al vs"
| "validate_wire al WireOther = True"
| "validate_wire_entries al [] = True"
| "validate_wire_entries al (WireEntry k v # kvs) =
     ((case k of WireText s \<Rightarrow> True | _ \<Rightarrow> False) \<and> validate_wire al k \<and> validate_wire al v \<and> validate_wire_entries al kvs)"
| "validate_wire_items al [] = True"
| "validate_wire_items al (v # vs) = (validate_wire al v \<and> validate_wire_items al vs)"

text \<open>\<open>null\<close> is looked for before typed decoding, which takes it for a zero value.\<close>

definition unmarshal_strict :: "artifact_lib \<Rightarrow> bytes \<Rightarrow> content_error + artifact" where
  "unmarshal_strict al b =
     (case al_wire al b of
        None \<Rightarrow> Inl ErrArtifactDecode
      | Some w \<Rightarrow>
          if \<not> validate_wire al w then Inl ErrInvalidArtifact
          else (case al_decode al b of None \<Rightarrow> Inl ErrArtifactDecode | Some a \<Rightarrow> Inr a))"

definition decode_artifact :: "artifact_lib \<Rightarrow> bytes \<Rightarrow> content_error + artifact" where
  "decode_artifact al b =
     (if length b > max_artifact_bytes then Inl ErrInvalidArtifact
      else
        res_bind (unmarshal_strict al b) (\<lambda>a.
        res_bind (encode_artifact al a) (\<lambda>canonical.
          if b \<noteq> canonical then Inl ErrNonCanonicalArtifact else Inr a)))"

definition canonical_digest :: "artifact_lib \<Rightarrow> artifact \<Rightarrow> content_error + digest" where
  "canonical_digest al a = res_bind (encode_artifact al a) (\<lambda>b. Inr (dl_from_bytes (al_digest al) b))"

subsection \<open>Verified copies\<close>

text \<open>
  The streams of \<open>VerifyCopy\<close>: a read of at most \<open>n\<close> bytes gives bytes and how it ended, a write the number
  of bytes written and whether it failed, and the context may be cancelled at any time.
\<close>

datatype read_end = ReadMore | ReadEof | ReadFailed

record 's streams =
  st_read :: "nat \<Rightarrow> 's \<Rightarrow> 's \<times> bytes \<times> read_end"
  st_write :: "bytes \<Rightarrow> 's \<Rightarrow> 's \<times> nat \<times> bool"
  st_canceled :: "'s \<Rightarrow> bool"

definition copy_buffer :: nat where "copy_buffer = 32 * 1024"
definition max_empty_reads :: nat where "max_empty_reads = 100"

text \<open>
  One round, with the bytes hashed so far.  A reader returns at most what it is asked for; one byte more than
  is left is asked for, so that excess content shows.
\<close>

datatype copy_next = CopyStop "content_error + bytes" | CopyMore "64 word" nat bytes

definition copy_write :: "'s streams \<Rightarrow> bytes \<Rightarrow> 's \<Rightarrow> 's \<times> (content_error + unit)" where
  "copy_write io data s =
     (case st_write io data s of
        (s', written, failed) \<Rightarrow>
          (s', if failed then Inl ErrWritePayload else if written \<noteq> length data then Inl ErrShortWrite else Inr ()))"

definition copy_end :: "artifact_lib \<Rightarrow> 's streams \<Rightarrow> digest \<Rightarrow> read_end \<Rightarrow> 64 word \<Rightarrow> nat \<Rightarrow> bytes \<Rightarrow> 's \<Rightarrow> copy_next" where
  "copy_end al io want ended remaining idle hashed s =
     (case ended of
        ReadMore \<Rightarrow> CopyMore remaining idle hashed
      | ReadFailed \<Rightarrow> CopyStop (Inl ErrReadPayload)
      | ReadEof \<Rightarrow>
          CopyStop (if remaining \<noteq> 0 then Inl ErrSizeMismatch
            else if dl_from_bytes (al_digest al) hashed \<noteq> want then Inl ErrDigestMismatch
            else if st_canceled io s then Inl ErrCanceled else Inr hashed))"

definition copy_received ::
  "artifact_lib \<Rightarrow> 's streams \<Rightarrow> digest \<Rightarrow> 64 word \<Rightarrow> nat \<Rightarrow> bytes \<Rightarrow> bytes \<Rightarrow> read_end \<Rightarrow> 's \<Rightarrow> 's \<times> copy_next" where
  "copy_received al io want remaining idle hashed data ended s =
     (let n = length data
      in if n > unat remaining then (s, CopyStop (Inl ErrSizeMismatch))
         else if st_canceled io s then (s, CopyStop (Inl ErrCanceled))
         else if n > 0 then
           (case copy_write io data s of
              (s', Inl e) \<Rightarrow> (s', CopyStop (Inl e))
            | (s', Inr _) \<Rightarrow> (s', copy_end al io want ended (remaining - word_of_nat n) 0 (hashed @ data) s'))
         else if ended = ReadMore then
           (if idle + 1 \<ge> max_empty_reads then (s, CopyStop (Inl ErrNoProgress))
            else (s, CopyMore remaining (idle + 1) hashed))
         else (s, copy_end al io want ended remaining idle hashed s))"

definition copy_step :: "artifact_lib \<Rightarrow> 's streams \<Rightarrow> digest \<Rightarrow> 64 word \<Rightarrow> nat \<Rightarrow> bytes \<Rightarrow> 's \<Rightarrow> 's \<times> copy_next" where
  "copy_step al io want remaining idle hashed s =
     (if st_canceled io s then (s, CopyStop (Inl ErrCanceled))
      else
        let chunk = (if unat remaining < copy_buffer then unat remaining + 1 else copy_buffer)
        in case st_read io chunk s of
             (s1, given, ended) \<Rightarrow> copy_received al io want remaining idle hashed (take chunk given) ended s1)"

lemma word_minus_nat:
  assumes "n \<le> unat (w :: 64 word)"
  shows "unat (w - word_of_nat n) = unat w - n"
proof -
  have "unat w < 2 ^ LENGTH(64)" by (rule unsigned_less)
  then have "n < 2 ^ 64" using assms by simp
  then have n: "unat (word_of_nat n :: 64 word) = n"
    by (simp add: unsigned_of_nat take_bit_nat_eq_self)
  then show ?thesis using assms by (simp add: unat_sub word_le_nat_alt)
qed

text \<open>The loop ends: a read that gives bytes lowers \<open>remaining\<close>, and fewer than a hundred in a row give none.\<close>

lemma copy_received_smaller:
  assumes "copy_received al io want remaining idle hashed data ended s = (s', CopyMore remaining' idle' hashed')"
  shows "unat remaining' < unat remaining \<or> unat remaining' = unat remaining \<and> max_empty_reads - idle' < max_empty_reads - idle"
proof -
  have sub: "unat (remaining - word_of_nat n) < unat remaining" if "0 < n" "n \<le> unat remaining" for n
    using that word_minus_nat [OF that(2)] by simp
  show ?thesis
    using assms sub [of "length data"]
    by (auto simp: copy_received_def copy_end_def Let_def split: if_splits prod.splits sum.splits read_end.splits)
qed

lemma copy_step_smaller:
  assumes "copy_step al io want remaining idle hashed s = (s', CopyMore remaining' idle' hashed')"
  shows "unat remaining' < unat remaining \<or> unat remaining' = unat remaining \<and> max_empty_reads - idle' < max_empty_reads - idle"
  using assms by (auto simp: copy_step_def Let_def split: if_splits prod.splits dest: copy_received_smaller)

function copy_loop ::
  "artifact_lib \<Rightarrow> 's streams \<Rightarrow> digest \<Rightarrow> 64 word \<Rightarrow> nat \<Rightarrow> bytes \<Rightarrow> 's \<Rightarrow> 's \<times> (content_error + bytes)" where
  "copy_loop al io want remaining idle hashed s =
     (case copy_step al io want remaining idle hashed s of
        (s', CopyStop r) \<Rightarrow> (s', r)
      | (s', CopyMore remaining' idle' hashed') \<Rightarrow> copy_loop al io want remaining' idle' hashed' s')"
  by pat_completeness auto
termination
  by (relation "measures [\<lambda>(al, io, want, remaining, idle, hashed, s). unat remaining,
        \<lambda>(al, io, want, remaining, idle, hashed, s). max_empty_reads - idle]")
    (auto dest!: copy_step_smaller [OF sym])

declare copy_loop.simps [simp del]

text \<open>\<open>VerifyCopy\<close>; a success returns the bytes copied.\<close>

definition verify_copy :: "artifact_lib \<Rightarrow> 's streams \<Rightarrow> payload_ref \<Rightarrow> 's \<Rightarrow> 's \<times> (content_error + bytes)" where
  "verify_copy al io ref s =
     (case payload_ref_validate al ref of
        Inl e \<Rightarrow> (s, Inl e)
      | Inr _ \<Rightarrow> if st_canceled io s then (s, Inl ErrCanceled)
                else copy_loop al io (pr_digest ref) (pr_size ref) 0 [] s)"

subsection \<open>The opaque schema\<close>

definition payload_name :: string where "payload_name = ''content''"

definition opaque_schema :: type_ref where
  "opaque_schema = \<lparr>ty_group = ''schemas.enbu.net'', ty_version = ''v1'', ty_kind = ''Opaque''\<rparr>"

definition opaque_payload_ref :: "artifact_lib \<Rightarrow> string \<Rightarrow> 64 word \<Rightarrow> digest \<Rightarrow> content_error + payload_ref" where
  "opaque_payload_ref al media len hash =
     (let ref = \<lparr>pr_name = payload_name, pr_media_type = media, pr_digest = hash, pr_size = len\<rparr>
      in res_bind (payload_ref_validate al ref) (\<lambda>_. Inr ref))"

definition opaque_verify :: "artifact_lib \<Rightarrow> 's streams \<Rightarrow> artifact \<Rightarrow> 's \<Rightarrow> 's \<times> (content_error + bytes)" where
  "opaque_verify al io a s =
     (case artifact_validate al a of
        Inl e \<Rightarrow> (s, Inl e)
      | Inr _ \<Rightarrow>
          if ar_schema a \<noteq> opaque_schema then (s, Inl ErrUnsupportedOpaque)
          else
            case ar_payloads a of
              [p] \<Rightarrow> if pr_name p \<noteq> payload_name then (s, Inl ErrInvalidOpaque) else verify_copy al io p s
            | _ \<Rightarrow> (s, Inl ErrInvalidOpaque))"

subsection \<open>The secret map schema\<close>

definition secret_map_schema :: type_ref where
  "secret_map_schema = \<lparr>ty_group = ''schemas.enbu.net'', ty_version = ''v1'', ty_kind = ''SecretMap''\<rparr>"

definition secret_map_media :: string where
  "secret_map_media = ''application/vnd.enbu.secret-map+cbor''"

text \<open>CBOR maps of text; a decoded \<open>nil\<close> map is \<open>None\<close>.\<close>

record map_codec =
  mc_encode :: "secret_map \<Rightarrow> bytes option"
  mc_decode :: "bytes \<Rightarrow> secret_map option option"

definition encode_secrets :: "map_codec \<Rightarrow> secret_map option \<Rightarrow> secretmap_error + bytes" where
  "encode_secrets mc m =
     (let m = (case m of None \<Rightarrow> [] | Some es \<Rightarrow> es)
      in res_bind (secret_map_validate m) (\<lambda>_.
           case mc_encode mc m of
             None \<Rightarrow> Inl ErrInvalidSecretMap
           | Some b \<Rightarrow> if length b > sm_max_payload_bytes then Inl ErrInvalidSecretMap else Inr b))"

definition decode_secrets :: "map_codec \<Rightarrow> bytes \<Rightarrow> secretmap_error + secret_map option" where
  "decode_secrets mc b =
     (if length b > sm_max_payload_bytes then Inl ErrInvalidSecretMap
      else
        case mc_decode mc b of
          None \<Rightarrow> Inl ErrInvalidSecretMap
        | Some m \<Rightarrow>
            res_bind (encode_secrets mc m) (\<lambda>canonical.
              if b \<noteq> canonical then Inl ErrNonCanonicalEncoding else Inr m))"

definition sm_result :: "secretmap_error + 'a \<Rightarrow> content_error + 'a" where
  "sm_result r = (case r of Inl e \<Rightarrow> Inl (ErrSecretMap e) | Inr x \<Rightarrow> Inr x)"

definition new_secret_artifact ::
  "artifact_lib \<Rightarrow> map_codec \<Rightarrow> string \<Rightarrow> metadata \<Rightarrow> secret_map option \<Rightarrow> content_error + artifact \<times> bytes" where
  "new_secret_artifact al mc uid m secrets =
     res_bind (sm_result (encode_secrets mc secrets)) (\<lambda>data.
       let a = \<lparr>ar_api_version = api_version, ar_uid = uid, ar_schema = secret_map_schema, ar_metadata = m,
                ar_payloads = [\<lparr>pr_name = payload_name, pr_media_type = secret_map_media,
                  pr_digest = dl_from_bytes (al_digest al) data, pr_size = word_of_nat (length data)\<rparr>]\<rparr>
       in res_bind (artifact_validate al a) (\<lambda>_. Inr (a, data)))"

text \<open>The content is verified into a buffer, the \<open>st_write\<close> of the streams, before it is decoded.\<close>

definition read_secret_artifact ::
  "artifact_lib \<Rightarrow> map_codec \<Rightarrow> 's streams \<Rightarrow> artifact \<Rightarrow> 's \<Rightarrow> 's \<times> (content_error + secret_map option)" where
  "read_secret_artifact al mc io a s =
     (case artifact_validate al a of
        Inl e \<Rightarrow> (s, Inl e)
      | Inr _ \<Rightarrow>
          if ar_schema a \<noteq> secret_map_schema then (s, Inl (ErrSecretMap ErrUnsupportedSchema))
          else
            case ar_payloads a of
              [p] \<Rightarrow>
                if pr_name p \<noteq> payload_name \<or> pr_media_type p \<noteq> secret_map_media then (s, Inl (ErrSecretMap ErrInvalidSecretMap))
                else if unat (pr_size p) > sm_max_payload_bytes then (s, Inl (ErrSecretMap ErrInvalidSecretMap))
                else
                  (case verify_copy al io p s of
                     (s', Inl e) \<Rightarrow> (s', Inl e)
                   | (s', Inr data) \<Rightarrow> (s', sm_result (decode_secrets mc data)))
            | _ \<Rightarrow> (s, Inl (ErrSecretMap ErrInvalidSecretMap)))"

subsection \<open>Exporting to AWS Secrets Manager\<close>

definition max_name_bytes :: nat where "max_name_bytes = 512"
definition max_value_bytes :: nat where "max_value_bytes = 65536"

definition aws_name_pattern :: "string \<Rightarrow> bool" where
  "aws_name_pattern s \<longleftrightarrow> s \<noteq> [] \<and> list_all (\<lambda>c. alnum c \<or> c \<in> set ''/_+=.@-'') s"

type_synonym aws_plan = "(string \<times> string) list"

fun plan_loop :: "aws_plan \<Rightarrow> string list \<Rightarrow> content_error + unit" where
  "plan_loop [] seen = Inr ()"
| "plan_loop ((name, value) # ss) seen =
     (if name = [] \<or> length name > max_name_bytes \<or> \<not> aws_name_pattern name then Inl ErrInvalidPlan
      else if value = [] \<or> length value > max_value_bytes \<or> \<not> utf8_valid value then Inl ErrInvalidPlan
      else if name \<in> set seen then Inl ErrInvalidPlan
      else plan_loop ss (name # seen))"

definition plan_validate :: "aws_plan \<Rightarrow> content_error + unit" where
  "plan_validate p = plan_loop p []"

definition prefix_segment_bad :: "string \<Rightarrow> string \<Rightarrow> bool" where
  "prefix_segment_bad prefix part \<longleftrightarrow> part = [] \<and> prefix \<noteq> ''/'' \<or> part = ''.'' \<or> part = ''..''"

fun double_slash :: "string \<Rightarrow> bool" where
  "double_slash (a # b # cs) = (a = CHR ''/'' \<and> b = CHR ''/'' \<or> double_slash (b # cs))"
| "double_slash _ = False"

definition plan_prefix :: "string \<Rightarrow> content_error + string" where
  "plan_prefix prefix =
     (if prefix = [] then Inr []
      else if length prefix > max_name_bytes \<or> \<not> aws_name_pattern prefix then Inl ErrInvalidPlan
      else if list_ex (prefix_segment_bad prefix) (split_char CHR ''/'' (trim_right ''/'' (trim_left ''/'' prefix)))
      then Inl ErrInvalidPlan
      else if double_slash prefix then Inl ErrInvalidPlan
      else Inr (if last prefix = CHR ''/'' then prefix else prefix @ ''/''))"

definition build_plan :: "secret_map \<Rightarrow> string \<Rightarrow> content_error + aws_plan" where
  "build_plan secrets prefix =
     res_bind (sm_result (secret_map_validate secrets)) (\<lambda>_.
     res_bind (plan_prefix prefix) (\<lambda>p.
       let plan = sort_key fst (map (\<lambda>(k, v). (p @ k, v)) secrets)
       in res_bind (plan_validate plan) (\<lambda>_. Inr plan)))"

text \<open>The two operations of the client; a creation tells when the secret exists already.\<close>

datatype create_answer = Created | AlreadyExists | CreateFailed

record 's aws_client =
  aw_create :: "string \<Rightarrow> string \<Rightarrow> 's \<Rightarrow> 's \<times> create_answer"
  aw_put :: "string \<Rightarrow> string \<Rightarrow> 's \<Rightarrow> 's \<times> bool"
  aw_canceled :: "'s \<Rightarrow> bool"

datatype apply_error = PlanInvalid content_error | ApplyCanceled | CreateAt nat | UpdateAt nat

fun aws_apply_loop :: "'s aws_client \<Rightarrow> aws_plan \<Rightarrow> nat \<Rightarrow> 's \<Rightarrow> 's \<times> (apply_error + unit)" where
  "aws_apply_loop cl [] i s = (s, Inr ())"
| "aws_apply_loop cl ((name, value) # ss) i s =
     (if aw_canceled cl s then (s, Inl ApplyCanceled)
      else
        case aw_create cl name value s of
          (s1, Created) \<Rightarrow> aws_apply_loop cl ss (i + 1) s1
        | (s1, CreateFailed) \<Rightarrow> (s1, Inl (CreateAt i))
        | (s1, AlreadyExists) \<Rightarrow>
            if aw_canceled cl s1 then (s1, Inl ApplyCanceled)
            else
              (case aw_put cl name value s1 of
                 (s2, False) \<Rightarrow> (s2, Inl (UpdateAt i))
               | (s2, True) \<Rightarrow> aws_apply_loop cl ss (i + 1) s2))"

definition apply_plan :: "'s aws_client \<Rightarrow> aws_plan \<Rightarrow> 's \<Rightarrow> 's \<times> (apply_error + unit)" where
  "apply_plan cl plan s =
     (case plan_validate plan of
        Inl e \<Rightarrow> (s, Inl (PlanInvalid e))
      | Inr _ \<Rightarrow> if aw_canceled cl s then (s, Inl ApplyCanceled) else aws_apply_loop cl plan 0 s)"

end
