(* ===== verification/Artifacts_Props.thy ===== *)
theory Artifacts_Props
  imports Artifacts
begin

text \<open>
  What the artifact layer guarantees: one wire form for each artifact, copies that are exactly the payload the
  reference names however the stream delivers it, and exports that name every secret once.
\<close>

subsection \<open>One wire form\<close>

lemma payloads_loop_Inr:
  "payloads_loop al ps names = Inr () \<longleftrightarrow>
     (\<forall>p\<in>set ps. payload_ref_validate al p = Inr ()) \<and> distinct (map pr_name ps) \<and> pr_name ` set ps \<inter> set names = {}"
  by (induction ps arbitrary: names) (auto simp: res_bind_Inr)

lemma payloads_perm:
  "mset ps = mset qs \<Longrightarrow> payloads_loop al ps [] = Inr () \<longleftrightarrow> payloads_loop al qs [] = Inr ()"
  unfolding payloads_loop_Inr
  by (metis mset_eq_setD mset_eq_imp_distinct_iff mset_map)

lemma artifact_validate_Inr:
  "artifact_validate al a = Inr () \<longleftrightarrow>
     ar_api_version a = api_version \<and> (\<exists>u. parse_uuid (ar_uid a) = Inr u) \<and> type_ref_validate (ar_schema a) = Inr ()
     \<and> metadata_validate al (ar_metadata a) = Inr () \<and> length (ar_payloads a) \<le> max_payloads
     \<and> payloads_loop al (ar_payloads a) [] = Inr ()"
  by (auto simp: artifact_validate_def res_bind_Inr)

lemma sort_key_perm:
  assumes "mset xs = mset ys" and "distinct (map f xs)"
  shows "sort_key f xs = sort_key f ys"
proof (rule sort_key_inj_key_eq)
  show "mset xs = mset (sort_key f ys)" using assms(1) by simp
  show "inj_on f (set xs)" using assms(2) by (simp add: distinct_map)
qed simp

lemma canonical_perm:
  assumes "mset ps = mset (ar_payloads a)" and "artifact_validate al a = Inr ()"
  shows "canonical_artifact (a\<lparr>ar_payloads := ps\<rparr>) = canonical_artifact a"
proof -
  have "distinct (map pr_name (ar_payloads a))"
    using assms(2) by (simp add: artifact_validate_Inr payloads_loop_Inr)
  then have "sort_key pr_name (ar_payloads a) = sort_key pr_name ps"
    using sort_key_perm assms(1) by metis
  then show ?thesis by (simp add: canonical_artifact_def)
qed

lemma validate_perm_payloads:
  assumes "mset ps = mset (ar_payloads a)"
  shows "artifact_validate al (a\<lparr>ar_payloads := ps\<rparr>) = Inr () \<longleftrightarrow> artifact_validate al a = Inr ()"
  using payloads_perm [OF assms] mset_eq_length [OF assms] by (simp add: artifact_validate_Inr)

lemma encode_artifact_Inr:
  "encode_artifact al a = Inr b \<longleftrightarrow>
     artifact_validate al a = Inr () \<and> al_encode al (canonical_artifact a) = Some b \<and> length b \<le> max_artifact_bytes"
  by (auto simp: encode_artifact_def res_bind_Inr split: option.split)

lemma decode_artifact_Inr:
  "decode_artifact al b = Inr a \<longleftrightarrow>
     length b \<le> max_artifact_bytes \<and> unmarshal_strict al b = Inr a \<and> encode_artifact al a = Inr b"
  by (auto simp: decode_artifact_def res_bind_Inr)

text \<open>
  An artifact has one wire form.  Bytes that decode to an artifact are the ones it is encoded as, no other
  bytes decode to it, and reordering its payloads changes neither the bytes nor the digest; its payloads have
  distinct names and all their references are valid.
\<close>

theorem artifact_one_form:
  assumes "decode_artifact al b = Inr a"
  shows "encode_artifact al a = Inr b \<and> canonical_digest al a = Inr (dl_from_bytes (al_digest al) b)
    \<and> (\<forall>b'. decode_artifact al b' = Inr a \<longrightarrow> b' = b)
    \<and> (\<forall>ps. mset ps = mset (ar_payloads a) \<longrightarrow> encode_artifact al (a\<lparr>ar_payloads := ps\<rparr>) = Inr b)
    \<and> distinct (map pr_name (ar_payloads a)) \<and> (\<forall>p\<in>set (ar_payloads a). payload_ref_validate al p = Inr ())"
proof -
  have enc: "encode_artifact al a = Inr b" using assms by (simp add: decode_artifact_Inr)
  then have ok: "artifact_validate al a = Inr ()" by (simp add: encode_artifact_Inr)
  have "encode_artifact al (a\<lparr>ar_payloads := ps\<rparr>) = Inr b" if "mset ps = mset (ar_payloads a)" for ps
    using enc canonical_perm [OF that ok] validate_perm_payloads [OF that, of al] by (simp add: encode_artifact_Inr)
  moreover have "b' = b" if "decode_artifact al b' = Inr a" for b'
    using that enc by (simp add: decode_artifact_Inr)
  ultimately show ?thesis
    using enc ok by (simp add: canonical_digest_def artifact_validate_Inr payloads_loop_Inr)
qed

subsection \<open>Copies\<close>

text \<open>
  What \<open>VerifyCopy\<close> relies on: reading does not write, and a write appends what it says it wrote (an
  \<open>io.Writer\<close>).  \<open>log\<close> is what the destination holds.
\<close>

locale logging_streams =
  fixes io :: "'s streams" and log :: "'s \<Rightarrow> bytes"
  assumes read_log: "log (fst (st_read io n s)) = log s"
    and write_log: "\<exists>k\<le>length d. log (fst (st_write io d s)) = log s @ take k d
      \<and> (fst (snd (st_write io d s)) = length d \<longrightarrow> k = length d)"
begin

lemma copy_write_log:
  assumes "copy_write io data s = (s', r)"
  shows "(\<exists>x. log s' = log s @ x \<and> length x \<le> length data) \<and> (r = Inr () \<longrightarrow> log s' = log s @ data)"
proof -
  obtain k where "k \<le> length data" "log (fst (st_write io data s)) = log s @ take k data"
    "fst (snd (st_write io data s)) = length data \<longrightarrow> k = length data"
    using write_log by blast
  then show ?thesis
    using assms by (auto simp: copy_write_def split: prod.splits if_splits)
qed

lemma copy_received_log:
  assumes "copy_received al io want remaining idle hashed data ended s = (s', out)"
  shows "\<exists>x. log s' = log s @ x \<and> length x \<le> unat remaining
    \<and> (\<forall>d. out = CopyStop (Inr d) \<longrightarrow> d = hashed @ x \<and> length x = unat remaining \<and> dl_from_bytes (al_digest al) d = want)
    \<and> (\<forall>remaining' idle' hashed'. out = CopyMore remaining' idle' hashed' \<longrightarrow>
         hashed' = hashed @ x \<and> unat remaining = length x + unat remaining')"
proof (cases "length data > unat remaining \<or> st_canceled io s \<or> data = []")
  case True
  then show ?thesis
    using assms by (intro exI [of _ "[]"])
      (auto simp: copy_received_def copy_end_def Let_def split: if_splits read_end.splits)
next
  case False
  obtain s2 r where w: "copy_write io data s = (s2, r)" by fastforce
  note lg = copy_write_log [OF w]
  show ?thesis
  proof (cases r)
    case (Inl e)
    then have "s' = s2" "out = CopyStop (Inl e)"
      using assms False w by (auto simp: copy_received_def Let_def)
    then show ?thesis using lg False by fastforce
  next
    case (Inr u)
    then have l: "log s2 = log s @ data" using lg by simp
    have o: "s' = s2" "out = copy_end al io want ended (remaining - word_of_nat (length data)) 0 (hashed @ data) s2"
      using assms False w Inr by (auto simp: copy_received_def Let_def)
    have n: "unat (remaining - word_of_nat (length data)) = unat remaining - length data"
      using word_minus_nat False by simp
    have z: "remaining - word_of_nat (length data) = 0 \<longleftrightarrow> length data = unat remaining"
      using n False by (metis diff_is_0_eq le_antisym not_less unsigned_0 unsigned_eq_0_iff diff_self_eq_0)
    show ?thesis
      using l o n z False by (intro exI [of _ data]) (auto simp: copy_end_def split: read_end.splits if_splits)
  qed
qed

lemma copy_step_log:
  assumes "copy_step al io want remaining idle hashed s = (s', out)"
  shows "\<exists>x. log s' = log s @ x \<and> length x \<le> unat remaining
    \<and> (\<forall>d. out = CopyStop (Inr d) \<longrightarrow> d = hashed @ x \<and> length x = unat remaining \<and> dl_from_bytes (al_digest al) d = want)
    \<and> (\<forall>remaining' idle' hashed'. out = CopyMore remaining' idle' hashed' \<longrightarrow>
         hashed' = hashed @ x \<and> unat remaining = length x + unat remaining')"
proof (cases "st_canceled io s")
  case True
  then show ?thesis using assms by (auto simp: copy_step_def)
next
  case False
  obtain s1 given ended where r: "st_read io (if unat remaining < copy_buffer then unat remaining + 1 else copy_buffer) s = (s1, given, ended)"
    using prod_cases3 by blast
  have lg: "log s1 = log s"
    using read_log [of "if unat remaining < copy_buffer then unat remaining + 1 else copy_buffer" s] unfolding r by simp
  have "copy_received al io want remaining idle hashed
      (take (if unat remaining < copy_buffer then unat remaining + 1 else copy_buffer) given) ended s1 = (s', out)"
    using assms False r by (simp add: copy_step_def Let_def)
  from copy_received_log [OF this] show ?thesis unfolding lg .
qed

lemma copy_loop_log:
  "copy_loop al io' want remaining idle hashed s = (s', r) \<Longrightarrow> io' = io \<Longrightarrow>
     \<exists>x. log s' = log s @ x \<and> length x \<le> unat remaining
       \<and> (\<forall>d. r = Inr d \<longrightarrow> d = hashed @ x \<and> length x = unat remaining \<and> dl_from_bytes (al_digest al) d = want)"
proof (induction al io' want remaining idle hashed s rule: copy_loop.induct)
  case (1 al io' want remaining idle hashed s)
  obtain s1 out where st: "copy_step al io want remaining idle hashed s = (s1, out)" by fastforce
  obtain x where x: "log s1 = log s @ x" "length x \<le> unat remaining"
    "\<And>d. out = CopyStop (Inr d) \<Longrightarrow> d = hashed @ x \<and> length x = unat remaining \<and> dl_from_bytes (al_digest al) d = want"
    "\<And>remaining' idle' hashed'. out = CopyMore remaining' idle' hashed' \<Longrightarrow>
       hashed' = hashed @ x \<and> unat remaining = length x + unat remaining'"
    using copy_step_log [OF st] by blast
  show ?case
  proof (cases out)
    case (CopyStop r1)
    then have "s' = s1" "r = r1"
      using 1(2,3) st by (simp_all add: copy_loop.simps [of al io want remaining idle hashed s])
    then show ?thesis using x CopyStop by blast
  next
    case (CopyMore remaining' idle' hashed')
    have "copy_loop al io want remaining' idle' hashed' s1 = (s', r)"
      using 1(2,3) st CopyMore by (simp add: copy_loop.simps [of al io want remaining idle hashed s])
    then obtain y where y: "log s' = log s1 @ y" "length y \<le> unat remaining'"
      "\<And>d. r = Inr d \<Longrightarrow> d = hashed' @ y \<and> length y = unat remaining' \<and> dl_from_bytes (al_digest al) d = want"
      using 1(1) [OF _ CopyMore] 1(3) st by fastforce
    show ?thesis
      using x(1) x(4) [OF CopyMore] y by (intro exI [of _ "x @ y"]) auto
  qed
qed

lemma verify_copy_log:
  assumes "verify_copy al io ref s = (s', r)"
  shows "\<exists>x. log s' = log s @ x \<and> length x \<le> unat (pr_size ref)
    \<and> (\<forall>d. r = Inr d \<longrightarrow> d = x \<and> length x = unat (pr_size ref) \<and> dl_from_bytes (al_digest al) x = pr_digest ref)"
proof (cases "payload_ref_validate al ref = Inr () \<and> \<not> st_canceled io s")
  case True
  then have "copy_loop al io (pr_digest ref) (pr_size ref) 0 [] s = (s', r)"
    using assms by (simp add: verify_copy_def)
  from copy_loop_log [OF this refl] show ?thesis by auto
next
  case False
  then show ?thesis using assms by (auto simp: verify_copy_def split: sum.splits if_splits)
qed

end

text \<open>A buffer as the destination, and a source that delivers its content in the given pieces.\<close>

definition chunk_read :: "nat \<Rightarrow> bytes list \<times> bytes \<Rightarrow> (bytes list \<times> bytes) \<times> bytes \<times> read_end" where
  "chunk_read n s =
     (case s of
        ([], buf) \<Rightarrow> (([], buf), [], ReadEof)
      | (c # cs, buf) \<Rightarrow>
          if length c \<le> n then ((cs, buf), c, ReadMore) else ((drop n c # cs, buf), take n c, ReadMore))"

definition buffer_streams :: "(bytes list \<times> bytes) streams" where
  "buffer_streams = \<lparr>st_read = chunk_read, st_write = (\<lambda>d (cs, buf). ((cs, buf @ d), length d, False)), st_canceled = (\<lambda>s. False)\<rparr>"

interpretation buffer: logging_streams buffer_streams snd
proof
  show "snd (fst (st_read buffer_streams n s)) = snd s" for n s
    by (auto simp: buffer_streams_def chunk_read_def split: prod.split list.split)
  show "\<exists>k\<le>length d. snd (fst (st_write buffer_streams d s)) = snd s @ take k d
      \<and> (fst (snd (st_write buffer_streams d s)) = length d \<longrightarrow> k = length d)" for d s
    by (rule exI [of _ "length d"]) (simp add: buffer_streams_def split: prod.split)
qed

text \<open>
  C29: a verified copy is exactly the payload.  Whatever the source delivers and the destination does, no more
  than the declared size is ever written, and when \<open>VerifyCopy\<close> succeeds what was written is what it returns,
  has the declared size and the declared digest.  The destination appends what it says it wrote.
\<close>

theorem verify_copy_safe:
  assumes "logging_streams io log" and "verify_copy al io ref s = (s', r)"
  shows "\<exists>x. log s' = log s @ x \<and> length x \<le> unat (pr_size ref)
    \<and> (\<forall>d. r = Inr d \<longrightarrow> d = x \<and> length x = unat (pr_size ref) \<and> dl_from_bytes (al_digest al) x = pr_digest ref)"
  using logging_streams.verify_copy_log [OF assms] .

lemma copy_loop_chunks:
  assumes "\<forall>c\<in>set cs. c \<noteq> []" and "length (concat cs) = unat remaining"
    and "dl_from_bytes (al_digest al) (hashed @ concat cs) = want"
  shows "copy_loop al buffer_streams want remaining idle hashed (cs, buf) = (([], buf @ concat cs), Inr (hashed @ concat cs))"
  using assms
proof (induction "length (concat cs)" arbitrary: cs remaining idle hashed buf rule: less_induct)
  case less
  let ?n = "if unat remaining < copy_buffer then unat remaining + 1 else copy_buffer"
  show ?case
  proof (cases cs)
    case Nil
    then have z: "remaining = 0" using less.prems(2) by (simp add: unsigned_eq_0_iff)
    have "copy_step al buffer_streams want 0 idle hashed ([], buf) = (([], buf), CopyStop (Inr hashed))"
      using Nil less.prems(3)
      by (simp add: copy_step_def copy_received_def copy_end_def Let_def buffer_streams_def chunk_read_def)
    then show ?thesis
      using Nil z by (simp add: copy_loop.simps [of al buffer_streams want 0 idle hashed "([], buf)"])
  next
    case (Cons c rest)
    have c: "c \<noteq> []" using less.prems(1) Cons by simp
    have n0: "0 < ?n" by (simp add: copy_buffer_def)
    define d where "d = take ?n c"
    define cs' where "cs' = (if length c \<le> ?n then rest else drop ?n c # rest)"
    have read: "st_read buffer_streams ?n (cs, buf) = ((cs', buf), d, ReadMore)"
      by (simp add: buffer_streams_def chunk_read_def Cons cs'_def d_def)
    have dn: "d \<noteq> []" "take ?n d = d" using c n0 by (simp_all add: d_def)
    have split: "concat cs = d @ concat cs'"
      by (simp add: Cons cs'_def d_def)
    have le: "length d \<le> unat remaining" using less.prems(2) split by simp
    have step: "copy_step al buffer_streams want remaining idle hashed (cs, buf)
        = ((cs', buf @ d), CopyMore (remaining - word_of_nat (length d)) 0 (hashed @ d))"
      using read dn le
      by (simp add: copy_step_def Let_def copy_received_def copy_write_def copy_end_def) (simp add: buffer_streams_def)
    have "\<forall>c\<in>set cs'. c \<noteq> []" using less.prems(1) Cons by (auto simp: cs'_def)
    moreover have "length (concat cs') = unat (remaining - word_of_nat (length d))"
      using word_minus_nat [OF le] less.prems(2) split by simp
    moreover have "dl_from_bytes (al_digest al) ((hashed @ d) @ concat cs') = want"
      using less.prems(3) split by simp
    moreover have "length (concat cs') < length (concat cs)" using split dn by simp
    ultimately have "copy_loop al buffer_streams want (remaining - word_of_nat (length d)) 0 (hashed @ d) (cs', buf @ d)
        = (([], (buf @ d) @ concat cs'), Inr ((hashed @ d) @ concat cs'))"
      using less.hyps [of cs'] by blast
    then show ?thesis
      using step split by (simp add: copy_loop.simps [of al buffer_streams want remaining idle hashed "(cs, buf)"])
  qed
qed

lemma encode_secrets_Inr:
  "encode_secrets mc m = Inr b \<longleftrightarrow>
     secret_map_validate (case m of None \<Rightarrow> [] | Some es \<Rightarrow> es) = Inr ()
     \<and> mc_encode mc (case m of None \<Rightarrow> [] | Some es \<Rightarrow> es) = Some b \<and> length b \<le> sm_max_payload_bytes"
  by (auto simp: encode_secrets_def Let_def res_bind_Inr split: option.split)

text \<open>
  What \<open>NewArtifact\<close> packs, \<open>ReadArtifact\<close> unpacks.  A secret map packed as an artifact and its payload is read
  back, however the stream cuts the payload into pieces, and the buffer then holds the payload.  The codec reads
  what it wrote.
\<close>

theorem secret_artifact_roundtrip:
  assumes "new_secret_artifact al mc uid m secrets = Inr (a, data)"
    and "\<And>es b. mc_encode mc es = Some b \<Longrightarrow> mc_decode mc b = Some (Some es)"
    and "\<forall>c\<in>set cs. c \<noteq> []" and "concat cs = data"
  shows "read_secret_artifact al mc buffer_streams a (cs, [])
    = (([], data), Inr (Some (case secrets of None \<Rightarrow> [] | Some es \<Rightarrow> es)))"
proof -
  let ?es = "case secrets of None \<Rightarrow> [] | Some es \<Rightarrow> es"
  have enc: "encode_secrets mc secrets = Inr data" and ok: "artifact_validate al a = Inr ()"
    and a: "ar_schema a = secret_map_schema" "ar_payloads a = [\<lparr>pr_name = payload_name, pr_media_type = secret_map_media,
      pr_digest = dl_from_bytes (al_digest al) data, pr_size = word_of_nat (length data)\<rparr>]"
    using assms(1) by (auto simp: new_secret_artifact_def Let_def res_bind_Inr sm_result_def split: sum.splits)
  note e = enc [unfolded encode_secrets_Inr]
  have len: "length data \<le> sm_max_payload_bytes" using e by simp
  then have u: "unat (word_of_nat (length data) :: 64 word) = length data"
    by (simp add: unsigned_of_nat take_bit_nat_eq_self sm_max_payload_bytes_def)
  have v: "payload_ref_validate al (hd (ar_payloads a)) = Inr ()"
    using ok a by (simp add: artifact_validate_Inr payloads_loop_Inr)
  have copy: "verify_copy al buffer_streams (hd (ar_payloads a)) (cs, []) = (([], data), Inr data)"
    using v a copy_loop_chunks [OF assms(3), of "word_of_nat (length data)" al "[]" "dl_from_bytes (al_digest al) data" 0 "[]"] u assms(4)
    by (simp add: verify_copy_def) (simp add: buffer_streams_def)
  have dec: "decode_secrets mc data = Inr (Some ?es)"
    using assms(2) [of ?es data] e len by (simp add: decode_secrets_def res_bind_def encode_secrets_def Let_def)
  show ?thesis
    using ok a copy dec u len by (simp add: read_secret_artifact_def sm_result_def)
qed

subsection \<open>Examples\<close>

definition sample_artifact_lib :: artifact_lib where
  "sample_artifact_lib = \<lparr>al_digest = sample_digest_lib, al_nfc = (\<lambda>s. True), al_media_type = (\<lambda>s. True),
     al_encode_metadata = (\<lambda>m. Some []), al_encode = (\<lambda>a. if ar_uid a = ''11111111-1111-1111-8111-111111111111'' then Some ''a'' else None),
     al_wire = (\<lambda>b. Some WireOther),
     al_decode = (\<lambda>b. Some \<lparr>ar_api_version = api_version, ar_uid = ''11111111-1111-1111-8111-111111111111'', ar_schema = opaque_schema,
        ar_metadata = \<lparr>me_name = ''n'', me_labels = [], me_annotations = []\<rparr>, ar_payloads = []\<rparr>)\<rparr>"

definition sample_map_codec :: map_codec where
  "sample_map_codec = \<lparr>mc_encode = (\<lambda>m. if m = [(''K'', ''v'')] then Some ''xy'' else None),
     mc_decode = (\<lambda>b. if b = ''xy'' then Some (Some [(''K'', ''v'')]) else None)\<rparr>"

lemma sample_uuid: "parse_uuid ''11111111-1111-1111-8111-111111111111'' = Inr ''11111111-1111-1111-8111-111111111111''"
  by code_simp

lemma sample_schemas: "type_ref_validate opaque_schema = Inr ()" "type_ref_validate secret_map_schema = Inr ()"
  by code_simp+

definition opaque_sample :: artifact where
  "opaque_sample = \<lparr>ar_api_version = api_version, ar_uid = ''11111111-1111-1111-8111-111111111111'', ar_schema = opaque_schema,
     ar_metadata = \<lparr>me_name = ''n'', me_labels = [], me_annotations = []\<rparr>, ar_payloads = []\<rparr>"

lemma sample_metadata: "metadata_validate sample_artifact_lib \<lparr>me_name = ''n'', me_labels = [], me_annotations = []\<rparr> = Inr ()"
  by (simp add: metadata_validate_def validate_display_name_def sample_artifact_lib_def max_metadata_entries_def backslash_def code_def)
    (code_simp)

lemma sample_decode_artifact: "decode_artifact sample_artifact_lib ''a'' = Inr opaque_sample"
proof -
  have "artifact_validate sample_artifact_lib opaque_sample = Inr ()"
    using sample_uuid sample_schemas(1) sample_metadata by (simp add: artifact_validate_Inr opaque_sample_def payloads_loop_Inr)
  then have "encode_artifact sample_artifact_lib opaque_sample = Inr ''a''"
    by (simp add: encode_artifact_Inr) (simp add: sample_artifact_lib_def canonical_artifact_def opaque_sample_def max_artifact_bytes_def)
  moreover have "unmarshal_strict sample_artifact_lib ''a'' = Inr opaque_sample"
    by (simp add: unmarshal_strict_def sample_artifact_lib_def opaque_sample_def)
  ultimately show ?thesis
    by (simp add: decode_artifact_Inr max_artifact_bytes_def)
qed

theorem artifact_one_form_witness:
  "encode_artifact sample_artifact_lib opaque_sample = Inr ''a''"
  using artifact_one_form [OF sample_decode_artifact] by blast

definition secret_payload :: payload_ref where
  "secret_payload = \<lparr>pr_name = payload_name, pr_media_type = secret_map_media, pr_digest = dl_from_bytes sample_digest_lib ''xy'', pr_size = 2\<rparr>"

lemma secret_payload_ok: "payload_ref_validate sample_artifact_lib secret_payload = Inr ()"
proof -
  have "utf8_valid secret_map_media" unfolding secret_map_media_def by code_simp
  moreover have "valid_digest sample_digest_lib (dl_from_bytes sample_digest_lib ''xy'')"
    using valid_digest_from_bytes [OF sample_digest_lib_ok] .
  moreover have "qualified_name_part payload_name" unfolding payload_name_def by code_simp
  ultimately show ?thesis
    by (simp add: payload_ref_validate_def secret_payload_def sample_artifact_lib_def)
      (simp add: payload_name_def secret_map_media_def max_media_type_bytes_def)
qed

theorem verify_copy_safe_witness:
  "verify_copy sample_artifact_lib buffer_streams secret_payload ([''x'', ''y''], []) = (([], ''xy''), Inr ''xy'')
     \<and> dl_from_bytes sample_digest_lib ''xy'' = pr_digest secret_payload"
proof -
  have v: "verify_copy sample_artifact_lib buffer_streams secret_payload ([''x'', ''y''], []) = (([], ''xy''), Inr ''xy'')"
    using secret_payload_ok copy_loop_chunks [of "[''x'', ''y'']" "2" sample_artifact_lib "[]" "pr_digest secret_payload" 0 "[]"]
    by (simp add: verify_copy_def secret_payload_def sample_artifact_lib_def) (simp add: buffer_streams_def)
  then show ?thesis
    using verify_copy_safe [OF buffer.logging_streams_axioms v] by (auto simp: sample_artifact_lib_def)
qed

definition secret_sample :: artifact where
  "secret_sample = \<lparr>ar_api_version = api_version, ar_uid = ''11111111-1111-1111-8111-111111111111'', ar_schema = secret_map_schema,
     ar_metadata = \<lparr>me_name = ''n'', me_labels = [], me_annotations = []\<rparr>, ar_payloads = [secret_payload]\<rparr>"

lemma secret_sample_new:
  "new_secret_artifact sample_artifact_lib sample_map_codec ''11111111-1111-1111-8111-111111111111''
     \<lparr>me_name = ''n'', me_labels = [], me_annotations = []\<rparr> (Some [(''K'', ''v'')]) = Inr (secret_sample, ''xy'')"
proof -
  have "utf8_valid ''K''" "utf8_valid ''v''" by code_simp+
  then have "secret_map_validate [(''K'', ''v'')] = Inr ()"
    by (simp add: secret_map_validate_def max_entries_def max_key_bytes_def sm_max_payload_bytes_def)
  then have "encode_secrets sample_map_codec (Some [(''K'', ''v'')]) = Inr ''xy''"
    by (simp add: encode_secrets_Inr sample_map_codec_def sm_max_payload_bytes_def)
  moreover have "artifact_validate sample_artifact_lib secret_sample = Inr ()"
    using sample_uuid sample_schemas(2) sample_metadata secret_payload_ok
    by (simp add: artifact_validate_Inr secret_sample_def payloads_loop_Inr max_payloads_def)
  moreover have "\<lparr>ar_api_version = api_version, ar_uid = ''11111111-1111-1111-8111-111111111111'', ar_schema = secret_map_schema,
      ar_metadata = \<lparr>me_name = ''n'', me_labels = [], me_annotations = []\<rparr>,
      ar_payloads = [\<lparr>pr_name = payload_name, pr_media_type = secret_map_media,
        pr_digest = dl_from_bytes (al_digest sample_artifact_lib) ''xy'', pr_size = word_of_nat (length ''xy'')\<rparr>]\<rparr> = secret_sample"
    by (simp add: secret_sample_def secret_payload_def sample_artifact_lib_def)
  ultimately show ?thesis
    by (simp add: new_secret_artifact_def sm_result_def Let_def)
qed

theorem secret_artifact_roundtrip_witness:
  "read_secret_artifact sample_artifact_lib sample_map_codec buffer_streams secret_sample ([''x'', ''y''], [])
     = (([], ''xy''), Inr (Some [(''K'', ''v'')]))"
proof -
  have "mc_decode sample_map_codec b = Some (Some es)" if "mc_encode sample_map_codec es = Some b" for es b
    using that by (auto simp: sample_map_codec_def split: if_splits)
  then show ?thesis
    using secret_artifact_roundtrip [OF secret_sample_new, of "[''x'', ''y'']"] by simp
qed

subsection \<open>Export plans\<close>

lemma plan_loop_Inr:
  "plan_loop p seen = Inr () \<longleftrightarrow>
     (\<forall>(name, x)\<in>set p. aws_name_pattern name \<and> length name \<le> max_name_bytes \<and> x \<noteq> [] \<and> length x \<le> max_value_bytes
        \<and> utf8_valid x) \<and> distinct (map fst p) \<and> fst ` set p \<inter> set seen = {}"
proof (induction p arbitrary: seen)
  case (Cons nv p)
  obtain name x where "nv = (name, x)" by (cases nv)
  then show ?case using Cons by (auto simp: aws_name_pattern_def)
qed simp

lemma sorted_distinct_strict: "sorted xs \<Longrightarrow> distinct xs \<Longrightarrow> sorted_wrt (<) xs"
  by (simp add: strict_sorted_iff)

text \<open>
  An export names every secret once.  A plan that \<open>Build\<close> returns has its names in strict order, each the
  prefix followed by a key of the map with the value of that key, and every key is there; names and values
  respect the limits of the service.  A prefix that is accepted is empty or ends with a slash.
\<close>

theorem build_plan_exact:
  assumes "build_plan secrets prefix = Inr plan" and "gm_ok secrets"
  shows "\<exists>p. plan_prefix prefix = Inr p \<and> (p = [] \<or> last p = CHR ''/'')
    \<and> (\<forall>name x. (name, x) \<in> set plan \<longleftrightarrow> (\<exists>k. name = p @ k \<and> gm_get secrets k = Some x))
    \<and> sorted_wrt (<) (map fst plan)
    \<and> (\<forall>(name, x)\<in>set plan. 0 < length name \<and> length name \<le> max_name_bytes \<and> 0 < length x \<and> length x \<le> max_value_bytes)"
proof -
  obtain p where p: "plan_prefix prefix = Inr p" "plan = sort_key fst (map (\<lambda>(k, v). (p @ k, v)) secrets)" "plan_loop plan [] = Inr ()"
    using assms(1) by (auto simp: build_plan_def Let_def res_bind_Inr plan_validate_def)
  have "last p = CHR ''/''" if "p \<noteq> []"
    using p(1) that by (auto simp: plan_prefix_def split: if_splits)
  moreover have "(name, x) \<in> set plan \<longleftrightarrow> (\<exists>k. name = p @ k \<and> gm_get secrets k = Some x)" for name x
  proof -
    have "(name, x) \<in> set plan \<longleftrightarrow> (\<exists>k. name = p @ k \<and> (k, x) \<in> set secrets)"
      by (auto simp: p(2) image_iff Bex_def)
    then show ?thesis by (simp add: gm_get_in [OF assms(2)])
  qed
  moreover have "sorted_wrt (<) (map fst plan)"
    using p(2,3) by (intro sorted_distinct_strict) (simp_all add: plan_loop_Inr)
  moreover have "\<forall>(name, x)\<in>set plan. 0 < length name \<and> length name \<le> max_name_bytes \<and> 0 < length x \<and> length x \<le> max_value_bytes"
    using p(3) by (auto simp: plan_loop_Inr aws_name_pattern_def)
  ultimately show ?thesis using p(1) by blast
qed

theorem build_plan_exact_witness:
  "\<exists>plan. build_plan [(''K'', ''v''), (''A'', ''w'')] ''team'' = Inr plan \<and> (''team/A'', ''w'') \<in> set plan"
proof -
  have b: "build_plan [(''K'', ''v''), (''A'', ''w'')] ''team'' = Inr [(''team/A'', ''w''), (''team/K'', ''v'')]"
  proof -
    have u: "utf8_valid ''A''" "utf8_valid ''K''" "utf8_valid ''v''" "utf8_valid ''w''" by code_simp+
    have "secret_map_validate [(''K'', ''v''), (''A'', ''w'')] = Inr ()"
      using u by (simp add: secret_map_validate_def max_entries_def max_key_bytes_def sm_max_payload_bytes_def)
    moreover have "aws_name_pattern ''team''" "aws_name_pattern ''team/A''" "aws_name_pattern ''team/K''" by code_simp+
    moreover have "split_char CHR ''/'' (trim_right ''/'' (trim_left ''/'' ''team'')) = [''team'']" "\<not> double_slash ''team''" by code_simp+
    moreover have "sort_key fst [(''team/K'', ''v''), (''team/A'', ''w'')] = [(''team/A'', ''w''), (''team/K'', ''v'')]" by code_simp
    ultimately show ?thesis
      using u by (simp add: build_plan_def sm_result_def plan_prefix_def prefix_segment_bad_def plan_validate_def max_name_bytes_def
          max_value_bytes_def)
  qed
  then show ?thesis
    using build_plan_exact [OF b] by auto
qed

end
