(* ===== verification/Clock.thy ===== *)
theory Clock
  imports Session
begin

text \<open>
  Time and cancellation, \<open>pkg/clock/clock.go\<close>, and the HTTP helpers of \<open>pkg/auth\<close> that every login uses
  (\<open>requestJSON\<close>, \<open>doJSON\<close>, \<open>decodeJSON\<close>, \<open>postForm\<close>).  Times and durations are nanoseconds; a duration is an
  \<open>int64\<close> whose products wrap around.  Time passes in the actions of the world \<open>'s\<close>: a clock reads it off the state.
\<close>

subsection \<open>Durations\<close>

definition int64 :: "int \<Rightarrow> int" where
  "int64 i = signed_take_bit 63 i"

lemma int64_id: "- (2 ^ 63) \<le> i \<Longrightarrow> i < 2 ^ 63 \<Longrightarrow> int64 i = i"
  unfolding int64_def by (rule signed_take_bit_int_eq_self) simp_all

definition second :: int where "second = 1000000000"
definition millisecond :: int where "millisecond = 1000000"
definition minute :: int where "minute = 60 * second"

lemma minute_eq: "minute = 60000000000"
  by (simp add: minute_def second_def)

text \<open>\<open>Time.Sub\<close>: the difference as a duration, cut off at the ends of its range.\<close>

definition time_sub :: "int \<Rightarrow> int \<Rightarrow> int" where
  "time_sub t u = max (- (2 ^ 63)) (min (2 ^ 63 - 1) (t - u))"

subsection \<open>Contexts\<close>

datatype ctx_error = Canceled | DeadlineExceeded

text \<open>\<open>cx_err\<close> is \<open>Err()\<close>: it tells the error of the context in a state, once it is done.\<close>

record 's go_ctx =
  cx_err :: "'s \<Rightarrow> ctx_error option"
  cx_deadline :: "int option"

definition ctx_fail :: "ctx_error \<Rightarrow> go_error" where
  "ctx_fail e = Plain CauseOther"

text \<open>
  A clock.  \<open>ck_await cx d\<close> passes the time until the context is done or a timer of \<open>d\<close> has fired;
  \<open>ck_watch parent deadline\<close> is the error the goroutine of \<open>WithDeadline\<close> has stored by a state.
\<close>

record 's clock =
  ck_now :: "'s \<Rightarrow> int"
  ck_await :: "'s go_ctx \<Rightarrow> int \<Rightarrow> 's \<Rightarrow> 's"
  ck_watch :: "'s go_ctx \<Rightarrow> int \<Rightarrow> 's \<Rightarrow> ctx_error option"

definition clock_wait :: "'s clock \<Rightarrow> 's go_ctx \<Rightarrow> int \<Rightarrow> 's \<Rightarrow> 's \<times> (ctx_error + unit)" where
  "clock_wait ck cx d s =
     (case cx_err cx s of
        Some e \<Rightarrow> (s, Inl e)
      | None \<Rightarrow>
          let s' = ck_await ck cx d s
          in (s', case cx_err cx s' of Some e \<Rightarrow> Inl e | None \<Rightarrow> Inr ()))"

definition with_deadline :: "'s clock \<Rightarrow> 's go_ctx \<Rightarrow> int \<Rightarrow> 's \<Rightarrow> 's go_ctx" where
  "with_deadline ck parent wanted s =
     (let deadline = (case cx_deadline parent of
                        Some earlier \<Rightarrow> if earlier < wanted then earlier else wanted
                      | None \<Rightarrow> wanted)
      in \<lparr>cx_err = (case cx_err parent s of
                      Some e \<Rightarrow> (\<lambda>_. Some e)
                    | None \<Rightarrow>
                        if time_sub deadline (ck_now ck s) \<le> 0 then (\<lambda>_. Some DeadlineExceeded)
                        else ck_watch ck parent deadline),
          cx_deadline = Some deadline\<rparr>)"

definition with_timeout :: "'s clock \<Rightarrow> 's go_ctx \<Rightarrow> int \<Rightarrow> 's \<Rightarrow> 's go_ctx" where
  "with_timeout ck parent d s = with_deadline ck parent (ck_now ck s + d) s"

text \<open>
  What the code relies on.  A wait that ends without an error has lasted, and the context it waited on was
  not derived from one that was done when the wait began: a done parent ends its children.
\<close>

definition steady_clock :: "'s clock \<Rightarrow> 's go_ctx \<Rightarrow> bool" where
  "steady_clock ck parent \<longleftrightarrow>
     (\<forall>cx d s. cx_err cx (ck_await ck cx d s) = None \<longrightarrow> ck_now ck s + d \<le> ck_now ck (ck_await ck cx d s))
     \<and> (\<forall>deadline dl d s. 0 < d \<longrightarrow> cx_err parent s \<noteq> None \<longrightarrow>
          ck_watch ck parent deadline (ck_await ck \<lparr>cx_err = ck_watch ck parent deadline, cx_deadline = dl\<rparr> d s) \<noteq> None)"

lemma clock_wait_lasts:
  assumes "steady_clock ck parent" and "clock_wait ck cx d s = (s', Inr u)"
  shows "ck_now ck s + d \<le> ck_now ck s'"
proof -
  have "s' = ck_await ck cx d s" "cx_err cx s' = None"
    using assms(2) by (auto simp: clock_wait_def Let_def split: option.splits)
  then show ?thesis using assms(1) by (auto simp: steady_clock_def)
qed

lemma clock_wait_parent:
  assumes "steady_clock ck parent" and "clock_wait ck (with_deadline ck parent wanted s0) d s = (s', Inr u)" and "0 < d"
  shows "cx_err parent s = None"
proof (rule ccontr)
  let ?cx = "with_deadline ck parent wanted s0"
  assume ended: "cx_err parent s \<noteq> None"
  have ok: "cx_err ?cx (ck_await ck ?cx d s) = None" "cx_err ?cx s = None"
    using assms(2) by (auto simp: clock_wait_def Let_def split: option.splits)
  obtain dl where "?cx = \<lparr>cx_err = ck_watch ck parent dl, cx_deadline = Some dl\<rparr>"
    using ok(2) by (auto simp: with_deadline_def Let_def split: option.splits if_splits)
  moreover have "ck_watch ck parent dl (ck_await ck \<lparr>cx_err = ck_watch ck parent dl, cx_deadline = Some dl\<rparr> d s) \<noteq> None"
    using assms(1,3) ended unfolding steady_clock_def by blast
  ultimately show False using ok(1) by simp
qed

lemma with_deadline_le: "cx_deadline (with_deadline ck parent wanted s) = Some d \<Longrightarrow> d \<le> wanted"
  by (auto simp: with_deadline_def Let_def split: option.splits if_splits)

lemma with_deadline_le_parent:
  "cx_deadline (with_deadline ck parent wanted s) = Some d \<Longrightarrow> cx_deadline parent = Some p \<Longrightarrow> d \<le> p"
  by (auto simp: with_deadline_def Let_def split: if_splits)

subsection \<open>HTTP\<close>

datatype request_body = NoBody | JsonBody bytes | FormBody "(string \<times> string) list"

record request =
  rq_method :: string
  rq_url :: string
  rq_headers :: "(string \<times> string) list"
  rq_body :: request_body

text \<open>
  A response: the body is what can be read, and whether reading on fails.  \<open>rs_retry_after\<close> and
  \<open>rs_content_type\<close> are the values of these headers, empty when they are missing.
\<close>

record response =
  rs_status :: int
  rs_retry_after :: string
  rs_content_type :: string
  rs_body :: bytes
  rs_body_fails :: bool

text \<open>
  The HTTP client (\<open>Client.Do\<close>, an invalid URL included), \<open>mime.ParseMediaType\<close>, and whether a JSON decoder that
  has read a value is at the end of its input.
\<close>

record 's http =
  ht_do :: "'s go_ctx \<Rightarrow> request \<Rightarrow> ('s, response) act"
  ht_media_type :: "string \<Rightarrow> string option"
  ht_at_end :: "bytes \<Rightarrow> bool"

definition max_response_bytes :: nat where "max_response_bytes = 4 * 1024"

text \<open>\<open>decode\<close> reads a value of the wanted type with no unknown field, and gives what follows it.\<close>

definition decode_json :: "'s http \<Rightarrow> (bytes \<Rightarrow> ('a \<times> bytes) option) \<Rightarrow> response \<Rightarrow> 'a app_result" where
  "decode_json ht decode resp =
     (if ht_media_type ht (rs_content_type resp) \<noteq> Some ''application/json'' then Inl (Plain CauseOther)
      else
        let data = take (max_response_bytes + 1) (rs_body resp)
        in if rs_body_fails resp \<and> length data < max_response_bytes + 1 then Inl (Plain CauseOther)
           else if length data > max_response_bytes then Inl (Plain CauseOther)
           else (case decode data of
                   None \<Rightarrow> Inl (Plain CauseOther)
                 | Some (x, rest) \<Rightarrow> if \<not> ht_at_end ht rest then Inl (Plain CauseOther) else Inr x))"

definition request_json ::
  "'s http \<Rightarrow> string \<Rightarrow> 's go_ctx \<Rightarrow> string \<Rightarrow> string \<Rightarrow> bytes option option \<Rightarrow> ('s, response) act" where
  "request_json ht base cx meth path body =
     (case body of
        Some None \<Rightarrow> act_fail (Plain CauseOther)
      | _ \<Rightarrow>
          let accept = (''Accept'', ''application/json'');
              sent = (case body of Some (Some b) \<Rightarrow> JsonBody b | _ \<Rightarrow> NoBody);
              headers = (if sent = NoBody then [accept] else [(''Content-Type'', ''application/json''), accept])
          in ht_do ht cx \<lparr>rq_method = meth, rq_url = base @ path, rq_headers = headers, rq_body = sent\<rparr>)"

definition do_json ::
  "'s http \<Rightarrow> string \<Rightarrow> 's go_ctx \<Rightarrow> string \<Rightarrow> string \<Rightarrow> bytes option option \<Rightarrow> int
    \<Rightarrow> (bytes \<Rightarrow> ('a \<times> bytes) option) \<Rightarrow> ('s, 'a) act" where
  "do_json ht base cx meth path body want decode =
     act_bind (request_json ht base cx meth path body) (\<lambda>resp.
       if rs_status resp \<noteq> want then act_fail (Plain CauseOther)
       else act_pure (decode_json ht decode resp))"

definition post_form ::
  "'s http \<Rightarrow> 's go_ctx \<Rightarrow> string \<Rightarrow> (string \<times> string) list \<Rightarrow> (bytes \<Rightarrow> ('a \<times> bytes) option) \<Rightarrow> ('s, 'a) act" where
  "post_form ht cx endpoint form decode =
     act_bind (ht_do ht cx \<lparr>rq_method = ''POST'', rq_url = endpoint,
                 rq_headers = [(''Accept'', ''application/json''), (''Content-Type'', ''application/x-www-form-urlencoded'')],
                 rq_body = FormBody form\<rparr>) (\<lambda>resp.
       if rs_status resp \<noteq> 200 then act_fail (Plain CauseOther)
       else act_pure (decode_json ht decode resp))"

text \<open>A request takes time, and a context that is done stays done.\<close>

definition steady_http :: "'s clock \<Rightarrow> 's http \<Rightarrow> 's go_ctx \<Rightarrow> bool" where
  "steady_http ck ht parent \<longleftrightarrow>
     (\<forall>cx rq s. ck_now ck s \<le> ck_now ck (fst (ht_do ht cx rq s))
        \<and> (cx_err parent s \<noteq> None \<longrightarrow> cx_err parent (fst (ht_do ht cx rq s)) \<noteq> None))"

lemma decode_json_bounded: "decode_json ht decode resp = Inr x \<Longrightarrow> length (rs_body resp) \<le> max_response_bytes"
  by (auto simp: decode_json_def Let_def split: if_splits)

end
