(* ===== verification/Auth.thy ===== *)
theory Auth
  imports Clock Keystore
begin

text \<open>
  Signing in to GitHub, \<open>pkg/auth\<close>: the stored token (\<open>token_store.go\<close>), the browser login with its callback
  server (\<open>oauth.go\<close>) and the device flow (\<open>device_flow.go\<close>).  The HTTP client, the JSON codec, URL parsing and
  GitHub's user API are parameters (\<open>web\<close>).  A loop that asks again is a partial function into an option:
  \<open>None\<close> is a login that never returns.
\<close>

subsection \<open>The stored token\<close>

record stored_token =
  tk_access :: string
  tk_username :: string
  tk_user :: int

definition token_service :: string where "token_service = ''enbu''"
definition token_account :: string where "token_account = ''github-oauth''"

definition validate_stored_token :: "stored_token \<Rightarrow> unit app_result" where
  "validate_stored_token t =
     (if tk_access t = [] \<or> length (tk_access t) > 2048 then Inl (Plain CauseOther)
      else if tk_username t = [] \<or> length (tk_username t) > 256 \<or> tk_user t \<le> 0 then Inl (Plain CauseOther)
      else Inr ())"

text \<open>The JSON form of a token; \<open>tc_unmarshal\<close> refuses unknown fields and gives what follows the value.\<close>

record token_codec =
  tc_marshal :: "stored_token \<Rightarrow> bytes option"
  tc_unmarshal :: "bytes \<Rightarrow> (stored_token \<times> bytes) option"
  tc_at_end :: "bytes \<Rightarrow> bool"

definition save_token :: "token_codec \<Rightarrow> 's vault \<Rightarrow> stored_token \<Rightarrow> ('s, unit) act" where
  "save_token tc va t =
     (case validate_stored_token t of
        Inl e \<Rightarrow> act_fail e
      | Inr _ \<Rightarrow>
          (case tc_marshal tc t of
             None \<Rightarrow> act_fail (Plain CauseOther)
           | Some data \<Rightarrow>
               act_bind (act_map_err (\<lambda>e. Wrapping [e]) (va_store va token_service token_account data)) (\<lambda>_.
               act_bind (act_try (va_load va token_service token_account)) (\<lambda>stored.
                 if stored = Inr data then act_ok () else act_fail (Plain CauseOther)))))"

definition not_logged_in_error :: go_error where
  "not_logged_in_error = app_new CodeNotAuthenticated []"

text \<open>\<open>env\<close> is \<open>os.Getenv\<close>.\<close>

definition load_token :: "token_codec \<Rightarrow> (string \<Rightarrow> string) \<Rightarrow> 's vault \<Rightarrow> ('s, stored_token) act" where
  "load_token tc env va =
     (if env ''GITHUB_TOKEN'' \<noteq> [] then
        act_ok \<lparr>tk_access = env ''GITHUB_TOKEN'',
                tk_username = (if env ''GITHUB_ACTOR'' = [] then ''github-actions'' else env ''GITHUB_ACTOR''),
                tk_user = 0\<rparr>
      else
        act_bind (act_map_err (\<lambda>e. if errors_is CauseNotExist e then not_logged_in_error else Wrapping [e])
                   (va_load va token_service token_account)) (\<lambda>data.
          (case tc_unmarshal tc data of
             None \<Rightarrow> act_fail (Plain CauseOther)
           | Some (t, rest) \<Rightarrow>
               if \<not> tc_at_end tc rest then act_fail (Plain CauseOther)
               else (case validate_stored_token t of
                       Inl e \<Rightarrow> act_fail (Wrapping [e])
                     | Inr _ \<Rightarrow> act_ok t))))"

definition delete_token :: "'s vault \<Rightarrow> ('s, unit) act" where
  "delete_token va s =
     (case va_delete va token_service token_account s of
        (s', Inl e) \<Rightarrow> (s', if errors_is CauseNotExist e then Inr () else Inl (Wrapping [e]))
      | (s', Inr _) \<Rightarrow> (s', Inr ()))"

subsection \<open>The token of a response\<close>

record exchange_response =
  er_access :: string
  er_type :: string
  er_scope :: string

definition lower_ascii :: "char \<Rightarrow> char" where
  "lower_ascii c = (if in_range 65 90 c then char_of (code c + 32 :: nat) else c)"

definition scope_separator :: "char \<Rightarrow> bool" where
  "scope_separator c \<longleftrightarrow> c = CHR '','' \<or> c = CHR '' '' \<or> code c = 9 \<or> code c = 10"

fun scope_fields :: "string \<Rightarrow> string \<Rightarrow> string list" where
  "scope_fields field [] = (if field = [] then [] else [field])"
| "scope_fields field (c # s) =
     (if scope_separator c then (if field = [] then [] else [field]) @ scope_fields [] s
      else scope_fields (field @ [c]) s)"

definition required_scopes :: "string list" where
  "required_scopes = [''repo'', ''read:org'', ''write:packages'']"

text \<open>No character outside ASCII folds to a letter of \<open>bearer\<close>.\<close>

definition validate_token :: "exchange_response \<Rightarrow> unit app_result" where
  "validate_token t =
     (if er_access t = [] \<or> length (er_access t) > 2048 then Inl (Plain CauseOther)
      else if map lower_ascii (er_type t) \<noteq> ''bearer'' then Inl (Plain CauseOther)
      else if length (er_scope t) > 4096 then Inl (Plain CauseOther)
      else if \<not> list_all (\<lambda>r. r \<in> set (scope_fields [] (er_scope t))) required_scopes then Inl (Plain CauseOther)
      else Inr ())"

subsection \<open>The callback server\<close>

definition single_value :: "(string, string list) gomap \<Rightarrow> string \<Rightarrow> nat \<Rightarrow> string option" where
  "single_value vals key limit =
     (case gm_get vals key of
        Some [x] \<Rightarrow> if x \<noteq> [] \<and> length x \<le> limit then Some x else None
      | _ \<Rightarrow> None)"

record callback_request =
  cr_method :: string
  cr_path :: string
  cr_remote :: string
  cr_query :: "(string, string list) gomap"

text \<open>The host of \<open>net.SplitHostPort\<close>, and the four bytes of an address \<open>net.ParseIP\<close> reads and \<open>To4\<close> accepts.\<close>

record net_lib =
  nl_host :: "string \<Rightarrow> string option"
  nl_ip4 :: "string \<Rightarrow> nat list option"

definition callback_path :: string where "callback_path = ''/oauth/callback''"
definition max_oauth_code_length :: nat where "max_oauth_code_length = 1024"

definition valid_callback_request :: "net_lib \<Rightarrow> callback_request \<Rightarrow> bool" where
  "valid_callback_request nl r \<longleftrightarrow>
     cr_method r = ''GET'' \<and> cr_path r = callback_path
     \<and> (case nl_host nl (cr_remote r) of
          None \<Rightarrow> False
        | Some host \<Rightarrow> (case nl_ip4 nl host of Some (a # _) \<Rightarrow> a = 127 | _ \<Rightarrow> False))"

datatype callback_result = CallbackCode string | CallbackDenied

text \<open>The state of the handler is what \<open>once\<close> has delivered; a response is its status.\<close>

definition callback_deliver :: "callback_result \<Rightarrow> callback_result option \<Rightarrow> callback_result option \<times> nat" where
  "callback_deliver r st = (case st of None \<Rightarrow> (Some r, 200) | Some _ \<Rightarrow> (st, 409))"

definition callback_step ::
  "net_lib \<Rightarrow> string \<Rightarrow> callback_request \<Rightarrow> callback_result option \<Rightarrow> callback_result option \<times> nat" where
  "callback_step nl expected r st =
     (if \<not> valid_callback_request nl r then (st, 400)
      else if single_value (cr_query r) ''state'' (length expected) \<noteq> Some expected then (st, 400)
      else if single_value (cr_query r) ''error'' 256 \<noteq> None then
        (if gm_has (cr_query r) ''code'' then (st, 400) else callback_deliver CallbackDenied st)
      else if gm_has (cr_query r) ''error'' then (st, 400)
      else (case single_value (cr_query r) ''code'' max_oauth_code_length of
              None \<Rightarrow> (st, 400)
            | Some c \<Rightarrow> callback_deliver (CallbackCode c) st))"

fun callback_run ::
  "net_lib \<Rightarrow> string \<Rightarrow> callback_request list \<Rightarrow> callback_result option \<Rightarrow> callback_result option \<times> nat list" where
  "callback_run nl expected [] st = (st, [])"
| "callback_run nl expected (r # rs) st =
     (case callback_step nl expected r st of
        (st', status) \<Rightarrow> (case callback_run nl expected rs st' of (st'', statuses) \<Rightarrow> (st'', status # statuses)))"

subsection \<open>The world of a login\<close>

record authorize_request =
  ar_challenge :: string
  ar_redirect :: string

record authorize_response =
  as_url :: string
  as_state :: string

record exchange_request =
  xr_code :: string
  xr_verifier :: string
  xr_redirect :: string

record parsed_url =
  pu_scheme :: string
  pu_host :: string
  pu_path :: string
  pu_has_user :: bool
  pu_fragment :: string
  pu_query :: "(string, string list) gomap"

record device_code =
  dv_code :: string
  dv_user_code :: string
  dv_uri :: string
  dv_expires :: int
  dv_interval :: int

record device_token =
  dt_access :: string
  dt_type :: string
  dt_scope :: string
  dt_error :: string
  dt_description :: string
  dt_error_uri :: string
  dt_interval :: int

text \<open>
  What the select of a browser login takes: the context is done, the server failed, or a callback came.  \<open>wb_serve\<close>
  serves requests until then.
\<close>

datatype wait_end = WaitDone ctx_error | ServeFailed | CallbackCame

record 's web =
  wb_clock :: "'s clock"
  wb_http :: "'s http"
  wb_net :: net_lib
  wb_codec :: token_codec
  wb_vault :: "'s vault"
  wb_parse_url :: "string \<Rightarrow> parsed_url option"
  wb_http_time :: "string \<Rightarrow> int option"
  wb_listen :: "('s, nat) act"
  wb_random :: "nat \<Rightarrow> ('s, bytes) act"
  wb_sha256 :: "bytes \<Rightarrow> bytes"
  wb_serve :: "'s go_ctx \<Rightarrow> 's \<Rightarrow> 's \<times> callback_request list \<times> wait_end"
  wb_user :: "'s go_ctx \<Rightarrow> string \<Rightarrow> ('s, string \<times> int) act"
  wb_authorize_body :: "authorize_request \<Rightarrow> bytes option"
  wb_exchange_body :: "exchange_request \<Rightarrow> bytes option"
  wb_authorize_answer :: "bytes \<Rightarrow> (authorize_response \<times> bytes) option"
  wb_exchange_answer :: "bytes \<Rightarrow> (exchange_response \<times> bytes) option"
  wb_device_answer :: "bytes \<Rightarrow> (device_code \<times> bytes) option"
  wb_token_answer :: "bytes \<Rightarrow> (device_token \<times> bytes) option"

subsection \<open>The browser login\<close>

definition base64_char :: "nat \<Rightarrow> char" where
  "base64_char n = ''ABCDEFGHIJKLMNOPQRSTUVWXYZabcdefghijklmnopqrstuvwxyz0123456789-_'' ! n"

text \<open>\<open>base64.RawURLEncoding\<close>.\<close>

fun raw_url_base64 :: "bytes \<Rightarrow> string" where
  "raw_url_base64 [] = []"
| "raw_url_base64 [a] = map base64_char [code a div 4, code a mod 4 * 16]"
| "raw_url_base64 [a, b] = map base64_char [code a div 4, code a mod 4 * 16 + code b div 16, code b mod 16 * 4]"
| "raw_url_base64 (a # b # c # s) =
     map base64_char [code a div 4, code a mod 4 * 16 + code b div 16, code b mod 16 * 4 + code c div 64, code c mod 64]
     @ raw_url_base64 s"

definition new_pkce :: "'s web \<Rightarrow> ('s, string \<times> string) act" where
  "new_pkce w =
     act_bind (act_map_err (\<lambda>e. Wrapping [e]) (wb_random w 32)) (\<lambda>raw.
       let verifier = raw_url_base64 raw
       in act_ok (verifier, raw_url_base64 (wb_sha256 w verifier)))"

definition state_pattern :: "string \<Rightarrow> bool" where
  "state_pattern s \<longleftrightarrow> length s = 64 \<and> list_all (\<lambda>c. in_range 97 102 c \<or> in_range 48 57 c) s"

definition valid_authorize_url :: "'s web \<Rightarrow> string \<Rightarrow> string \<Rightarrow> string \<Rightarrow> string \<Rightarrow> bool" where
  "valid_authorize_url w raw expected_state expected_challenge expected_redirect \<longleftrightarrow>
     (case wb_parse_url w raw of
        None \<Rightarrow> False
      | Some u \<Rightarrow>
          pu_scheme u = ''https'' \<and> pu_host u = ''github.com'' \<and> pu_path u = ''/login/oauth/authorize''
          \<and> \<not> pu_has_user u \<and> pu_fragment u = []
          \<and> single_value (pu_query u) ''state'' (length expected_state) = Some expected_state
          \<and> single_value (pu_query u) ''code_challenge'' (length expected_challenge) = Some expected_challenge
          \<and> single_value (pu_query u) ''redirect_uri'' (length expected_redirect) = Some expected_redirect
          \<and> single_value (pu_query u) ''code_challenge_method'' 4 = Some ''S256'')"

definition authorize :: "'s web \<Rightarrow> string \<Rightarrow> 's go_ctx \<Rightarrow> authorize_request \<Rightarrow> ('s, authorize_response) act" where
  "authorize w base cx body =
     act_bind (act_map_err (\<lambda>e. Wrapping [e])
                 (do_json (wb_http w) base cx ''POST'' ''/v1/oauth/authorize'' (Some (wb_authorize_body w body)) 200
                    (wb_authorize_answer w))) (\<lambda>answer.
       if \<not> state_pattern (as_state answer) then act_fail (Plain CauseOther)
       else if \<not> valid_authorize_url w (as_url answer) (as_state answer) (ar_challenge body) (ar_redirect body)
       then act_fail (Plain CauseOther)
       else act_ok answer)"

definition retry_backoff_start :: int where "retry_backoff_start = 100 * millisecond"
definition retry_backoff_max :: int where "retry_backoff_max = 5 * second"

text \<open>The minimum after \<open>n\<close> more attempts.\<close>

fun backoff :: "nat \<Rightarrow> int \<Rightarrow> int" where
  "backoff 0 least = least"
| "backoff (Suc n) least = (if least \<ge> retry_backoff_max div 2 then retry_backoff_max else backoff n (2 * least))"

definition retry_delay :: "int \<Rightarrow> nat \<Rightarrow> int" where
  "retry_delay server_delay attempt =
     (let least = backoff attempt retry_backoff_start in if server_delay > least then server_delay else least)"

text \<open>\<open>strconv.Atoi\<close>: an optional sign and decimal digits, within an \<open>int64\<close>.\<close>

fun read_digits :: "int \<Rightarrow> string \<Rightarrow> int option" where
  "read_digits n [] = Some n"
| "read_digits n (c # s) = (if in_range 48 57 c then read_digits (10 * n + int (code c) - 48) s else None)"

definition atoi :: "string \<Rightarrow> int option" where
  "atoi s =
     (let (sign, body) = (case s of c # r \<Rightarrow> if c = CHR ''-'' then (-1, r) else if c = CHR ''+'' then (1, r) else (1, s)
                          | [] \<Rightarrow> (1, []))
      in if body = [] then None
         else case read_digits 0 body of
           None \<Rightarrow> None
         | Some n \<Rightarrow> let x = sign * n in if - (2 ^ 63) \<le> x \<and> x < 2 ^ 63 then Some x else None)"

definition retry_after :: "'s web \<Rightarrow> string \<Rightarrow> int \<Rightarrow> int \<times> bool" where
  "retry_after w v now =
     (case atoi v of
        Some secs \<Rightarrow> if secs \<ge> 0 then (int64 (secs * second), True)
          else (case wb_http_time w v of
                  None \<Rightarrow> (0, False)
                | Some instant \<Rightarrow> if instant < now then (0, True) else (time_sub instant now, True))
      | None \<Rightarrow>
          (case wb_http_time w v of
             None \<Rightarrow> (0, False)
           | Some instant \<Rightarrow> if instant < now then (0, True) else (time_sub instant now, True)))"

text \<open>What \<open>exchange\<close> makes of a response that is not a rate limit.\<close>

definition exchange_answer :: "'s web \<Rightarrow> response \<Rightarrow> exchange_response app_result" where
  "exchange_answer w resp =
     (if rs_status resp \<noteq> 200 then Inl (Plain CauseOther)
      else case decode_json (wb_http w) (wb_exchange_answer w) resp of
        Inl e \<Rightarrow> Inl (Wrapping [e])
      | Inr t \<Rightarrow> (case validate_token t of Inl e \<Rightarrow> Inl (Wrapping [e]) | Inr _ \<Rightarrow> Inr t))"

text \<open>A rate limit: how long to wait, or an error when it is not worth it.\<close>

definition rate_limited :: "'s web \<Rightarrow> 's go_ctx \<Rightarrow> response \<Rightarrow> nat \<Rightarrow> 's \<Rightarrow> int app_result" where
  "rate_limited w cx resp attempt s =
     (let now = ck_now (wb_clock w) s;
          (server_delay, ok) = retry_after w (rs_retry_after resp) now;
          delay = retry_delay server_delay attempt
      in if \<not> ok \<or> (case cx_deadline cx of None \<Rightarrow> False | Some deadline \<Rightarrow> \<not> now + delay < deadline)
         then Inl (Plain CauseOther) else Inr delay)"

partial_function (option) exchange ::
  "'s web \<Rightarrow> string \<Rightarrow> 's go_ctx \<Rightarrow> exchange_request \<Rightarrow> nat \<Rightarrow> 's \<Rightarrow> ('s \<times> exchange_response app_result) option" where
  "exchange w base cx body attempt s =
     (case request_json (wb_http w) base cx ''POST'' ''/v1/oauth/exchange'' (Some (wb_exchange_body w body)) s of
        (s1, Inl e) \<Rightarrow> Some (s1, Inl (Wrapping [e]))
      | (s1, Inr resp) \<Rightarrow>
          if rs_status resp = 429 then
            (case rate_limited w cx resp attempt s1 of
               Inl e \<Rightarrow> Some (s1, Inl e)
             | Inr delay \<Rightarrow>
                 (case clock_wait (wb_clock w) cx delay s1 of
                    (s2, Inl e) \<Rightarrow> Some (s2, Inl (Wrapping [ctx_fail e]))
                  | (s2, Inr _) \<Rightarrow> exchange w base cx body (attempt + 1) s2))
          else Some (s1, exchange_answer w resp))"

text \<open>What both logins do with the access token: whose it is, and keeping it.\<close>

definition store_device_token :: "'s web \<Rightarrow> 's go_ctx \<Rightarrow> string \<Rightarrow> ('s, stored_token) act" where
  "store_device_token w cx access =
     act_bind (act_map_err (\<lambda>e. Wrapping [e]) (wb_user w cx access)) (\<lambda>(name, uid).
       if name = [] \<or> uid \<le> 0 then act_fail (Plain CauseOther)
       else let t = \<lparr>tk_access = access, tk_username = name, tk_user = uid\<rparr>
            in act_bind (act_map_err (\<lambda>e. Wrapping [e]) (save_token (wb_codec w) (wb_vault w) t)) (\<lambda>_. act_ok t))"

definition login_timeout :: int where "login_timeout = 10 * minute"

definition redirect_uri :: "nat \<Rightarrow> string" where
  "redirect_uri port = ''http://127.0.0.1:'' @ show_nat port @ callback_path"

text \<open>The part of \<open>login\<close> up to the select: the browser shows the page of an authorization that was checked.\<close>

definition login_open ::
  "'s web \<Rightarrow> string \<Rightarrow> 's go_ctx \<Rightarrow> (string \<Rightarrow> ('s, unit) act) option
    \<Rightarrow> ('s, string \<times> string \<times> authorize_response) act" where
  "login_open w base cx browser =
     act_bind (act_map_err (\<lambda>e. Wrapping [e]) (wb_listen w)) (\<lambda>port.
     act_bind (new_pkce w) (\<lambda>(verifier, challenge).
     act_bind (authorize w base cx \<lparr>ar_challenge = challenge, ar_redirect = redirect_uri port\<rparr>) (\<lambda>authorization.
       case browser of
         None \<Rightarrow> act_fail (Plain CauseOther)
       | Some open_browser \<Rightarrow>
           act_bind (act_map_err (\<lambda>_. Plain CauseOther) (open_browser (as_url authorization))) (\<lambda>_.
             act_ok (verifier, redirect_uri port, authorization)))))"

text \<open>A receive from the channel while nothing was delivered blocks.\<close>

definition login_callback ::
  "'s web \<Rightarrow> 's go_ctx \<Rightarrow> string \<Rightarrow> 's \<Rightarrow> ('s \<times> callback_result app_result) option" where
  "login_callback w cx expected s =
     (case wb_serve w cx s of
        (s', rs, WaitDone e) \<Rightarrow> Some (s', Inl (Wrapping [ctx_fail e]))
      | (s', rs, ServeFailed) \<Rightarrow> Some (s', Inl (Wrapping [Plain CauseOther]))
      | (s', rs, CallbackCame) \<Rightarrow>
          (case fst (callback_run (wb_net w) expected rs None) of
             None \<Rightarrow> None
           | Some c \<Rightarrow> Some (s', Inr c)))"

definition login_browser ::
  "'s web \<Rightarrow> string \<Rightarrow> 's go_ctx \<Rightarrow> (string \<Rightarrow> ('s, unit) act) option \<Rightarrow> 's \<Rightarrow> ('s \<times> stored_token app_result) option" where
  "login_browser w base parent browser s =
     (let cx = with_timeout (wb_clock w) parent login_timeout s
      in case login_open w base cx browser s of
           (s1, Inl e) \<Rightarrow> Some (s1, Inl e)
         | (s1, Inr (verifier, redirect, authorization)) \<Rightarrow>
             Option.bind (login_callback w cx (as_state authorization) s1) (\<lambda>(s2, came).
               case came of
                 Inl e \<Rightarrow> Some (s2, Inl e)
               | Inr CallbackDenied \<Rightarrow> Some (s2, Inl (app_new CodeAccessDenied []))
               | Inr (CallbackCode c) \<Rightarrow>
                   Option.bind (exchange w base cx \<lparr>xr_code = c, xr_verifier = verifier, xr_redirect = redirect\<rparr> 0 s2)
                     (\<lambda>(s3, answer).
                        case answer of
                          Inl e \<Rightarrow> Some (s3, Inl e)
                        | Inr t \<Rightarrow> Some (store_device_token w cx (er_access t) s3))))"

subsection \<open>The device flow\<close>

definition device_grant_type :: string where "device_grant_type = ''urn:ietf:params:oauth:grant-type:device_code''"
definition device_scopes :: string where "device_scopes = ''repo read:org write:packages''"
definition max_device_value_size :: nat where "max_device_value_size = 2048"
definition github_device_code_url :: string where "github_device_code_url = ''https://github.com/login/device/code''"
definition github_token_url :: string where "github_token_url = ''https://github.com/login/oauth/access_token''"
definition github_device_url :: string where "github_device_url = ''https://github.com/login/device''"

definition request_device_code :: "'s web \<Rightarrow> 's go_ctx \<Rightarrow> string \<Rightarrow> ('s, device_code) act" where
  "request_device_code w cx client_id =
     act_bind (act_map_err (\<lambda>e. Wrapping [e])
                 (post_form (wb_http w) cx github_device_code_url
                    [(''client_id'', client_id), (''scope'', device_scopes)] (wb_device_answer w))) (\<lambda>d.
       if dv_code d = [] \<or> length (dv_code d) > max_device_value_size
          \<or> dv_user_code d = [] \<or> length (dv_user_code d) > 64
          \<or> dv_uri d \<noteq> github_device_url
          \<or> dv_expires d \<le> 0 \<or> dv_expires d > 3600
          \<or> dv_interval d \<le> 0 \<or> dv_interval d > 300
       then act_fail (Plain CauseOther) else act_ok d)"

definition request_token :: "'s web \<Rightarrow> 's go_ctx \<Rightarrow> string \<Rightarrow> string \<Rightarrow> ('s, device_token) act" where
  "request_token w cx client_id device =
     act_bind (act_map_err (\<lambda>e. Wrapping [e])
                 (post_form (wb_http w) cx github_token_url
                    [(''client_id'', client_id), (''device_code'', device), (''grant_type'', device_grant_type)]
                    (wb_token_answer w))) (\<lambda>r.
       if length (dt_error r) > 256 \<or> length (dt_description r) > max_device_value_size
          \<or> length (dt_error_uri r) > max_device_value_size
       then act_fail (Plain CauseOther) else act_ok r)"

definition auth_expired :: go_error where "auth_expired = app_new CodeAuthExpired []"

text \<open>The next interval after \<open>slow_down\<close>.\<close>

definition slower :: "int \<Rightarrow> int \<Rightarrow> int" where
  "slower interval wanted =
     (let interval = int64 (interval + 5 * second)
      in if wanted > 0 then
           let server = int64 (wanted * second)
           in if server > interval \<and> server \<le> 5 * minute then server else interval
         else interval)"

text \<open>The outcome of an answer: an access token, an error, or to ask again after an interval.\<close>

datatype poll = PollToken string | PollFailed go_error | PollAgain int

definition poll_answer :: "device_token \<Rightarrow> int \<Rightarrow> poll" where
  "poll_answer r interval =
     (if dt_error r = [] then
        (case validate_token \<lparr>er_access = dt_access r, er_type = dt_type r, er_scope = dt_scope r\<rparr> of
           Inl e \<Rightarrow> PollFailed (Wrapping [e])
         | Inr _ \<Rightarrow> PollToken (dt_access r))
      else if dt_error r = ''authorization_pending'' then PollAgain interval
      else if dt_error r = ''slow_down'' then PollAgain (slower interval (dt_interval r))
      else if dt_error r \<in> {''expired_token'', ''token_expired''} then PollFailed auth_expired
      else if dt_error r = ''access_denied'' then PollFailed (app_new CodeAccessDenied [])
      else PollFailed (Plain CauseOther))"

partial_function (option) device_loop ::
  "'s web \<Rightarrow> 's go_ctx \<Rightarrow> 's go_ctx \<Rightarrow> int \<Rightarrow> string \<Rightarrow> string \<Rightarrow> int \<Rightarrow> 's \<Rightarrow> ('s \<times> stored_token app_result) option" where
  "device_loop w parent cx expires client_id device interval s =
     (case clock_wait (wb_clock w) cx interval s of
        (s1, Inl e) \<Rightarrow>
          Some (s1, Inl (if e = DeadlineExceeded \<and> cx_err parent s1 = None then auth_expired else Wrapping [ctx_fail e]))
      | (s1, Inr _) \<Rightarrow>
          if \<not> ck_now (wb_clock w) s1 < expires \<and> cx_err parent s1 = None then Some (s1, Inl auth_expired)
          else (case request_token w cx client_id device s1 of
                  (s2, Inl e) \<Rightarrow> Some (s2, Inl e)
                | (s2, Inr r) \<Rightarrow>
                    (case poll_answer r interval of
                       PollToken access \<Rightarrow> Some (store_device_token w cx access s2)
                     | PollFailed e \<Rightarrow> Some (s2, Inl e)
                     | PollAgain interval' \<Rightarrow> device_loop w parent cx expires client_id device interval' s2)))"

definition login_device ::
  "'s web \<Rightarrow> 's go_ctx \<Rightarrow> string \<Rightarrow> (string \<times> string \<Rightarrow> ('s, unit) act) option \<Rightarrow> 's
    \<Rightarrow> ('s \<times> stored_token app_result) option" where
  "login_device w parent client_id prompt s =
     (if client_id = [] \<or> length client_id > 256 then Some (s, Inl (Plain CauseOther))
      else case prompt of
        None \<Rightarrow> Some (s, Inl (Plain CauseOther))
      | Some show_code \<Rightarrow>
          (case act_bind (request_device_code w parent client_id) (\<lambda>d.
                  act_bind (act_map_err (\<lambda>e. Wrapping [e]) (show_code (dv_user_code d, dv_uri d))) (\<lambda>_. act_ok d)) s of
             (s1, Inl e) \<Rightarrow> Some (s1, Inl e)
           | (s1, Inr d) \<Rightarrow>
               let expires = ck_now (wb_clock w) s1 + int64 (dv_expires d * second);
                   cx = with_deadline (wb_clock w) parent expires s1
               in device_loop w parent cx expires client_id (dv_code d) (int64 (dv_interval d * second)) s1))"

end
