(* ===== verification/Auth_Props.thy ===== *)
theory Auth_Props
  imports Auth
begin

text \<open>
  What the logins guarantee: the callback server lets one authentic callback through, a login that
  succeeds has stored a checked token that is read back, and both loops end.
\<close>

subsection \<open>The callback server\<close>

text \<open>What a request is worth: the result it would deliver as the first.\<close>

definition offered :: "net_lib \<Rightarrow> string \<Rightarrow> callback_request \<Rightarrow> callback_result option" where
  "offered nl expected r = fst (callback_step nl expected r None)"

lemmas callback_defs = callback_step_def callback_deliver_def

lemma callback_step_offered:
  "callback_step nl expected r st =
     (case offered nl expected r of
        None \<Rightarrow> (st, 400)
      | Some x \<Rightarrow> (case st of None \<Rightarrow> (Some x, 200) | Some y \<Rightarrow> (Some y, 409)))"
  by (auto simp: offered_def callback_defs split: option.splits)

lemma offered_authentic:
  "offered nl expected r = Some x \<Longrightarrow>
     valid_callback_request nl r \<and> gm_get (cr_query r) ''state'' = Some [expected]
     \<and> (\<forall>c. x = CallbackCode c \<longrightarrow> gm_get (cr_query r) ''code'' = Some [c] \<and> \<not> gm_has (cr_query r) ''error'')"
  by (auto simp: offered_def callback_defs single_value_def split: if_splits option.splits list.splits)

lemma callback_run_later:
  "callback_run nl expected rs (Some y) = (st, statuses) \<Longrightarrow> st = Some y \<and> set statuses \<subseteq> {400, 409} \<and> length statuses = length rs"
  by (induction rs arbitrary: st statuses)
    (auto simp: callback_step_offered split: prod.splits option.splits)

lemma callback_run_some: "fst (callback_run nl expected rs None) = Some x \<Longrightarrow> \<exists>r\<in>set rs. offered nl expected r = Some x"
proof (induction rs)
  case (Cons r rs)
  show ?case
  proof (cases "offered nl expected r")
    case None
    then show ?thesis using Cons by (simp add: callback_step_offered split: prod.splits)
  next
    case (Some y)
    have "fst (callback_run nl expected rs (Some y)) = Some y"
      by (metis callback_run_later prod.collapse)
    then show ?thesis using Some Cons.prems by (simp add: callback_step_offered split: prod.splits)
  qed
qed simp

text \<open>
  C30: one authentic callback.  Whatever requests reach the callback server, at most one is answered with 200, and
  only that one reaches the login: a GET of the callback path from a loopback address with exactly the state of
  this login, and for a code with that one code and no error.  All requests before it get 400.
\<close>

theorem callback_once:
  assumes "callback_run nl expected rs None = (st, statuses)"
  shows "(case st of
      None \<Rightarrow> set statuses \<subseteq> {400}
    | Some x \<Rightarrow> \<exists>before r later. rs = before @ r # later
        \<and> take (length before) statuses = replicate (length before) 400
        \<and> statuses ! length before = 200 \<and> set (drop (Suc (length before)) statuses) \<subseteq> {400, 409}
        \<and> valid_callback_request nl r \<and> gm_get (cr_query r) ''state'' = Some [expected]
        \<and> (\<forall>c. x = CallbackCode c \<longrightarrow> gm_get (cr_query r) ''code'' = Some [c] \<and> \<not> gm_has (cr_query r) ''error''))"
  using assms
proof (induction rs arbitrary: st statuses)
  case (Cons r rs)
  show ?case
  proof (cases "offered nl expected r")
    case None
    then obtain later where l: "callback_run nl expected rs None = (st, later)" "statuses = 400 # later"
      using Cons.prems by (auto simp: callback_step_offered split: prod.splits)
    show ?thesis
    proof (cases st)
      case None
      then show ?thesis using Cons.IH [OF l(1)] l(2) by simp
    next
      case (Some x)
      then obtain before q rest where "rs = before @ q # rest"
        "take (length before) later = replicate (length before) 400 \<and> later ! length before = 200
          \<and> set (drop (Suc (length before)) later) \<subseteq> {400, 409} \<and> valid_callback_request nl q
          \<and> gm_get (cr_query q) ''state'' = Some [expected]
          \<and> (\<forall>c. x = CallbackCode c \<longrightarrow> gm_get (cr_query q) ''code'' = Some [c] \<and> \<not> gm_has (cr_query q) ''error'')"
        using Cons.IH [OF l(1)] by auto
      then show ?thesis using Some l(2) by (auto intro!: exI [of _ "r # before"])
    qed
  next
    case (Some x)
    then obtain later where l: "callback_run nl expected rs (Some x) = (st, later)" "statuses = 200 # later"
      using Cons.prems by (auto simp: callback_step_offered split: prod.splits)
    then show ?thesis
      using callback_run_later [OF l(1)] offered_authentic [OF Some] by (auto intro!: exI [of _ "[]"])
  qed
qed simp

definition sample_net :: net_lib where
  "sample_net = \<lparr>nl_host = (\<lambda>_. Some ''127.0.0.1''), nl_ip4 = (\<lambda>_. Some [127, 0, 0, 1])\<rparr>"

definition sample_callback :: "string \<Rightarrow> string \<Rightarrow> callback_request" where
  "sample_callback st c = \<lparr>cr_method = ''GET'', cr_path = callback_path, cr_remote = ''127.0.0.1:5000'',
     cr_query = [(''state'', [st]), (''code'', [c])]\<rparr>"

lemmas sample_callback_simps = callback_defs valid_callback_request_def single_value_def sample_callback_def sample_net_def
  callback_path_def max_oauth_code_length_def gm_get_def gm_has_def

theorem callback_once_witness:
  "\<exists>statuses. callback_run sample_net ''s'' [sample_callback ''x'' ''c'', sample_callback ''s'' ''d'', sample_callback ''s'' ''e''] None
     = (Some (CallbackCode ''d''), statuses) \<and> statuses ! 0 = 400"
proof -
  let ?rs = "[sample_callback ''x'' ''c'', sample_callback ''s'' ''d'', sample_callback ''s'' ''e'']"
  have run: "callback_run sample_net ''s'' ?rs None = (Some (CallbackCode ''d''), [400, 200, 409])"
    by (simp add: sample_callback_simps)
  show ?thesis
    using callback_once [OF run] run by simp
qed

subsection \<open>The token that is kept\<close>

text \<open>Reading an entry of the keystore a second time reads the same.\<close>

definition rereads :: "'s vault \<Rightarrow> string \<Rightarrow> string \<Rightarrow> bool" where
  "rereads va service key \<longleftrightarrow>
     (\<forall>s s1 r. va_load va service key s = (s1, r) \<longrightarrow> snd (va_load va service key s1) = r)"

lemma save_token_Inr:
  assumes "save_token tc va t s = (s', Inr u)"
  obtains data s1 where "validate_stored_token t = Inr ()" and "tc_marshal tc t = Some data"
    and "va_load va token_service token_account s1 = (s', Inr data)"
  using assms by (auto simp: save_token_def act_defs split: sum.splits option.splits prod.splits if_splits)

lemma save_then_load:
  assumes "save_token tc va t s = (s', Inr u)" and "rereads va token_service token_account"
    and "env ''GITHUB_TOKEN'' = []"
    and "\<And>data. tc_marshal tc t = Some data \<Longrightarrow> \<exists>rest. tc_unmarshal tc data = Some (t, rest) \<and> tc_at_end tc rest"
  shows "validate_stored_token t = Inr ()" and "snd (load_token tc env va s') = Inr t"
proof -
  obtain data s1 where d: "validate_stored_token t = Inr ()" "tc_marshal tc t = Some data"
    "va_load va token_service token_account s1 = (s', Inr data)"
    using save_token_Inr [OF assms(1)] .
  obtain s2 where "va_load va token_service token_account s' = (s2, Inr data)"
    using assms(2) d(3) unfolding rereads_def by (metis prod.collapse)
  then show "snd (load_token tc env va s') = Inr t"
    using assms(3) assms(4) [OF d(2)] d(1) by (auto simp: load_token_def act_defs)
  show "validate_stored_token t = Inr ()" by (rule d(1))
qed

lemma store_device_token_Inr:
  assumes "store_device_token w cx access s = (s', Inr t)"
  obtains s1 u where "tk_access t = access" and "save_token (wb_codec w) (wb_vault w) t s1 = (s', Inr u)"
  using assms by (auto simp: store_device_token_def act_defs Let_def split: prod.splits sum.splits if_splits)

lemma exchange_answer_valid: "exchange_answer w resp = Inr x \<Longrightarrow> validate_token x = Inr ()"
  by (auto simp: exchange_answer_def split: if_splits sum.splits)

lemma exchange_valid:
  "exchange w base cx body n s = Some y \<Longrightarrow> snd y = Inr x \<Longrightarrow> validate_token x = Inr ()"
proof (induction rule: exchange.raw_induct [rotated 1, consumes 1])
  case (1 exchange w base cx body attempt s y)
  then show ?case
    by (auto simp: exchange_answer_valid split: prod.splits sum.splits if_splits)
qed

lemma authorize_Inr:
  assumes "authorize w base cx body s = (s', Inr (au :: authorize_response))"
  shows "state_pattern (as_state au) \<and> valid_authorize_url w (as_url au) (as_state au) (ar_challenge body) (ar_redirect body)"
  using assms by (auto simp: authorize_def act_defs split: prod.splits sum.splits if_splits)

lemma login_open_Inr:
  assumes "login_open w base cx browser s = (s', Inr (verifier, redirect, au))"
  shows "state_pattern (as_state au)
    \<and> valid_authorize_url w (as_url au) (as_state au) (raw_url_base64 (wb_sha256 w verifier)) redirect"
  using assms
  by (auto simp: login_open_def new_pkce_def act_defs Let_def split: prod.splits sum.splits option.splits dest!: authorize_Inr)

lemma login_callback_code:
  assumes "login_callback w cx expected s = Some (s', Inr (CallbackCode c))"
  obtains rs r where "wb_serve w cx s = (s', rs, CallbackCame)" and "r \<in> set rs"
    and "valid_callback_request (wb_net w) r" and "gm_get (cr_query r) ''state'' = Some [expected]"
    and "gm_get (cr_query r) ''code'' = Some [c]"
proof -
  obtain rs where rs: "wb_serve w cx s = (s', rs, CallbackCame)"
    "fst (callback_run (wb_net w) expected rs None) = Some (CallbackCode c)"
    using assms by (auto simp: login_callback_def split: prod.splits wait_end.splits option.splits)
  obtain r where r: "r \<in> set rs" "offered (wb_net w) expected r = Some (CallbackCode c)"
    using callback_run_some [OF rs(2)] by blast
  show ?thesis
    using that [OF rs(1) r(1)] offered_authentic [OF r(2)] by blast
qed

lemma login_browser_Inr:
  assumes "login_browser w base parent browser s = Some (s', Inr t)"
  defines "cx \<equiv> with_timeout (wb_clock w) parent login_timeout s"
  shows "\<exists>s1 verifier redirect au s2 c s3 x.
    login_open w base cx browser s = (s1, Inr (verifier, redirect, au))
    \<and> login_callback w cx (as_state au) s1 = Some (s2, Inr (CallbackCode c))
    \<and> exchange w base cx \<lparr>xr_code = c, xr_verifier = verifier, xr_redirect = redirect\<rparr> 0 s2 = Some (s3, Inr x)
    \<and> store_device_token w cx (er_access x) s3 = (s', Inr t)"
proof -
  obtain s1 verifier redirect au where o: "login_open w base cx browser s = (s1, Inr (verifier, redirect, au))"
    using assms(1) by (auto simp: login_browser_def cx_def [symmetric] Let_def split: prod.splits sum.splits)
  note run = assms(1) [unfolded login_browser_def, folded cx_def, unfolded Let_def, unfolded o, simplified]
  obtain s2 came where l: "login_callback w cx (as_state au) s1 = Some (s2, came)"
    using run by (cases "login_callback w cx (as_state au) s1") auto
  obtain c where c: "came = Inr (CallbackCode c)"
    using run l by (auto split: sum.splits callback_result.splits)
  obtain s3 answer where x: "exchange w base cx \<lparr>xr_code = c, xr_verifier = verifier, xr_redirect = redirect\<rparr> 0 s2 = Some (s3, answer)"
    using run l c by (cases "exchange w base cx \<lparr>xr_code = c, xr_verifier = verifier, xr_redirect = redirect\<rparr> 0 s2") auto
  show ?thesis
    using run l c x o by (cases answer) auto
qed

text \<open>
  A browser login that succeeds has kept a checked token.  The browser was shown a page of github.com
  that carries this login's state, challenge and redirect; the code came in one authentic callback and was exchanged
  together with the verifier of the challenge; the token has every required scope; and \<open>LoadToken\<close> now reads
  exactly the token returned, unless \<open>GITHUB_TOKEN\<close> overrides it.
\<close>

theorem login_keeps_checked_token:
  assumes "login_browser w base parent browser s = Some (s', Inr t)"
    and "rereads (wb_vault w) token_service token_account" and "env ''GITHUB_TOKEN'' = []"
    and "\<And>data. tc_marshal (wb_codec w) t = Some data \<Longrightarrow>
      \<exists>rest. tc_unmarshal (wb_codec w) data = Some (t, rest) \<and> tc_at_end (wb_codec w) rest"
  shows "validate_stored_token t = Inr () \<and> snd (load_token (wb_codec w) env (wb_vault w) s') = Inr t
    \<and> (\<exists>cx verifier redirect (au :: authorize_response) s1 s2 s3 rs r c x.
         valid_authorize_url w (as_url au) (as_state au) (raw_url_base64 (wb_sha256 w verifier)) redirect
         \<and> wb_serve w cx s1 = (s2, rs, CallbackCame) \<and> r \<in> set rs \<and> valid_callback_request (wb_net w) r
         \<and> gm_get (cr_query r) ''state'' = Some [as_state au] \<and> gm_get (cr_query r) ''code'' = Some [c]
         \<and> exchange w base cx \<lparr>xr_code = c, xr_verifier = verifier, xr_redirect = redirect\<rparr> 0 s2 = Some (s3, Inr x)
         \<and> er_access x = tk_access t \<and> validate_token x = Inr ())"
proof -
  define cx where "cx = with_timeout (wb_clock w) parent login_timeout s"
  obtain s1 verifier redirect au s2 c s3 x where run:
    "login_open w base cx browser s = (s1, Inr (verifier, redirect, au))"
    "login_callback w cx (as_state au) s1 = Some (s2, Inr (CallbackCode c))"
    "exchange w base cx \<lparr>xr_code = c, xr_verifier = verifier, xr_redirect = redirect\<rparr> 0 s2 = Some (s3, Inr x)"
    "store_device_token w cx (er_access x) s3 = (s', Inr t)"
    using login_browser_Inr [OF assms(1)] unfolding cx_def by blast
  obtain rs r where cb: "wb_serve w cx s1 = (s2, rs, CallbackCame)" "r \<in> set rs" "valid_callback_request (wb_net w) r"
    "gm_get (cr_query r) ''state'' = Some [as_state au]" "gm_get (cr_query r) ''code'' = Some [c]"
    using login_callback_code [OF run(2)] .
  obtain s4 u where kept: "tk_access t = er_access x" "save_token (wb_codec w) (wb_vault w) t s4 = (s', Inr u)"
    using store_device_token_Inr [OF run(4)] .
  have valid: "validate_token x = Inr ()"
    using exchange_valid [OF run(3)] by simp
  have page: "valid_authorize_url w (as_url au) (as_state au) (raw_url_base64 (wb_sha256 w verifier)) redirect"
    using login_open_Inr [OF run(1)] by blast
  have loaded: "snd (load_token (wb_codec w) env (wb_vault w) s') = Inr t"
    by (rule save_then_load(2) [OF kept(2) assms(2)]) (fact assms)+
  have stored: "validate_stored_token t = Inr ()"
    using save_token_Inr [OF kept(2)] by blast
  show ?thesis
    by (rule conjI, rule stored, rule conjI, rule loaded, rule exI [of _ cx], rule exI [of _ verifier], rule exI [of _ redirect],
        rule exI [of _ au], rule exI [of _ s1], rule exI [of _ s2], rule exI [of _ s3], rule exI [of _ rs], rule exI [of _ r],
        rule exI [of _ c], rule exI [of _ x]) (simp add: page cb run(3) kept(1) valid)
qed

subsection \<open>The loops end\<close>

lemma retry_delay_least: "100 * millisecond \<le> retry_delay d n"
proof -
  have "100 * millisecond \<le> backoff n least" if "100 * millisecond \<le> least" for least
    using that by (induction n arbitrary: least) (auto simp: retry_backoff_max_def second_def millisecond_def)
  from this [of "100 * millisecond"] show ?thesis
    by (simp add: retry_delay_def retry_backoff_start_def Let_def)
qed

lemma request_json_time:
  "steady_http ck ht parent \<Longrightarrow> request_json ht base cx meth path body s = (s1, r) \<Longrightarrow> ck_now ck s \<le> ck_now ck s1"
  by (auto simp: request_json_def act_defs steady_http_def Let_def split: option.splits if_splits)
    (metis fst_conv)+

lemma exchange_returns:
  assumes "steady_clock (wb_clock w) parent" and "steady_http (wb_clock w) (wb_http w) parent"
    and "cx_deadline cx = Some deadline"
  shows "\<exists>y. exchange w base cx body n s = Some y"
proof (induction "nat (deadline - ck_now (wb_clock w) s)" arbitrary: n s rule: less_induct)
  case less
  obtain s1 a where rq: "request_json (wb_http w) base cx ''POST'' ''/v1/oauth/exchange'' (Some (wb_exchange_body w body)) s = (s1, a)"
    by (rule prod.exhaust)
  have t1: "ck_now (wb_clock w) s \<le> ck_now (wb_clock w) s1"
    using request_json_time [OF assms(2) rq] .
  have again: "\<exists>y. exchange w base cx body (n + 1) s2 = Some y"
    if "rate_limited w cx resp n s1 = Inr delay" "clock_wait (wb_clock w) cx delay s1 = (s2, Inr u)" for resp delay s2 u
  proof (rule less)
    have "ck_now (wb_clock w) s1 + delay < deadline" "100 * millisecond \<le> delay"
      using that(1) assms(3) by (auto simp: rate_limited_def Let_def retry_delay_least split: prod.splits if_splits)
    then show "nat (deadline - ck_now (wb_clock w) s2) < nat (deadline - ck_now (wb_clock w) s)"
      using clock_wait_lasts [OF assms(1) that(2)] t1 by (simp add: millisecond_def)
  qed
  show ?case
  proof (cases a)
    case (Inr resp)
    show ?thesis
      using again rq Inr
      by (subst exchange.simps) (auto split: sum.splits prod.splits)
  qed (subst exchange.simps, simp add: rq)
qed

lemma request_token_time:
  assumes "steady_http ck (wb_http w) parent" and "request_token w cx client device s = (s1, r)"
  shows "ck_now ck s \<le> ck_now ck s1 \<and> (cx_err parent s \<noteq> None \<longrightarrow> cx_err parent s1 \<noteq> None)"
proof -
  have "\<exists>rq. s1 = fst (ht_do (wb_http w) cx rq s)"
    using assms(2) by (auto simp: request_token_def post_form_def act_defs split: prod.splits sum.splits if_splits) (metis fst_conv)+
  then show ?thesis using assms(1) by (auto simp: steady_http_def)
qed

lemma slower_bounds:
  assumes "second \<le> interval" and "interval \<le> 2 ^ 62"
  shows "second \<le> slower interval wanted" and "slower interval wanted \<le> max (interval + 5 * second) (5 * minute)"
proof -
  have i: "int64 (interval + 5 * second) = interval + 5 * second"
    using assms by (intro int64_id) (simp_all add: second_def)
  show "second \<le> slower interval wanted" "slower interval wanted \<le> max (interval + 5 * second) (5 * minute)"
    unfolding slower_def Let_def i using assms(1) by (auto simp: second_def minute_def)
qed

lemma poll_again:
  assumes "poll_answer r interval = PollAgain interval'" and "second \<le> interval" and "interval \<le> 2 ^ 62"
  shows "second \<le> interval'" and "interval' \<le> max (interval + 5 * second) (5 * minute)"
proof -
  have "interval' = interval \<or> interval' = slower interval (dt_interval r)"
    using assms(1) by (auto simp: poll_answer_def split: if_splits sum.splits)
  then show "second \<le> interval'" "interval' \<le> max (interval + 5 * second) (5 * minute)"
    using slower_bounds [OF assms(2,3), of "dt_interval r"] assms(2) by (auto simp: second_def)
qed

lemma device_loop_done:
  assumes "steady_clock (wb_clock w) parent" and "cx_err parent s \<noteq> None" and "0 < interval"
  shows "\<exists>y. device_loop w parent (with_deadline (wb_clock w) parent wanted s0) expires client device interval s = Some y"
proof -
  let ?cx = "with_deadline (wb_clock w) parent wanted s0"
  obtain s1 r where "clock_wait (wb_clock w) ?cx interval s = (s1, r)"
    by (rule prod.exhaust)
  with clock_wait_parent [OF assms(1) _ assms(3)] assms(2) obtain e where "clock_wait (wb_clock w) ?cx interval s = (s1, Inl e)"
    by (cases r) auto
  then show ?thesis by (subst device_loop.simps) simp
qed

lemma device_loop_returns:
  assumes "steady_clock (wb_clock w) parent" and "steady_http (wb_clock w) (wb_http w) parent"
    and "second \<le> interval" and "interval \<le> 2 ^ 61" and "expires - ck_now (wb_clock w) s \<le> 2 ^ 60"
  shows "\<exists>y. device_loop w parent (with_deadline (wb_clock w) parent wanted s0) expires client device interval s = Some y"
  using assms(3,4,5)
proof (induction "nat (expires - ck_now (wb_clock w) s)" arbitrary: interval s rule: less_induct)
  case less
  let ?ck = "wb_clock w"
  let ?cx = "with_deadline ?ck parent wanted s0"
  let ?again = "\<lambda>i s. device_loop w parent ?cx expires client device i s"
  have again: "\<exists>y. ?again interval' s2 = Some y"
    if w: "clock_wait ?ck ?cx interval s = (s1, Inr u)" and on: "ck_now ?ck s1 < expires \<or> cx_err parent s1 \<noteq> None"
      and rq: "request_token w ?cx client device s1 = (s2, Inr r)" and p: "poll_answer r interval = PollAgain interval'"
    for s1 u s2 r interval'
  proof -
    have i': "second \<le> interval'" "interval' \<le> max (interval + 5 * second) (5 * minute)"
      using poll_again [OF p] less.prems(1,2) by auto
    have t1: "ck_now ?ck s + interval \<le> ck_now ?ck s1"
      using clock_wait_lasts [OF assms(1) w] .
    have t2: "ck_now ?ck s1 \<le> ck_now ?ck s2" "cx_err parent s1 \<noteq> None \<longrightarrow> cx_err parent s2 \<noteq> None"
      using request_token_time [OF assms(2) rq] by auto
    show ?thesis
    proof (cases "cx_err parent s2 = None")
      case False
      then show ?thesis
        using device_loop_done [OF assms(1), of s2 interval' wanted s0 expires client device] i'(1) by (simp add: second_def)
    next
      case True
      then have before: "ck_now ?ck s1 < expires" using on t2(2) by auto
      have "interval' \<le> 2 ^ 61"
        using i'(2) t1 before less.prems(3) by (auto simp: second_def minute_def)
      then show ?thesis
        using i'(1) t1 t2(1) before less.prems(1,3) by (intro less.hyps) (auto simp: second_def)
    qed
  qed
  show ?case
    using again by (subst device_loop.simps) (auto split: prod.splits sum.splits poll.splits)
qed

lemma request_device_code_Inr:
  assumes "request_device_code w cx client s = (s', Inr d)"
  shows "0 < dv_expires d \<and> dv_expires d \<le> 3600 \<and> 0 < dv_interval d \<and> dv_interval d \<le> 300"
  using assms by (auto simp: request_device_code_def act_defs split: prod.splits sum.splits if_splits)

text \<open>
  C31: a login does not wait for ever.  With a clock whose waits last, polling for a device token returns, however
  often GitHub answers "pending" or "slow down" and whatever intervals it asks for, because every poll waits at
  least a second and the code expires within the hour; and exchanging the code of a browser login returns, however
  often the server limits the rate, because every retry waits at least 100 ms and fits the deadline.
\<close>

theorem logins_return:
  assumes "steady_clock (wb_clock w) parent" and "steady_http (wb_clock w) (wb_http w) parent"
  shows "(\<exists>y. login_device w parent client prompt s = Some y)
    \<and> (\<exists>y. exchange w base (with_timeout (wb_clock w) parent login_timeout s0) body 0 s = Some y)"
proof (rule conjI)
  obtain deadline where "cx_deadline (with_timeout (wb_clock w) parent login_timeout s0) = Some deadline"
    by (simp add: with_timeout_def with_deadline_def Let_def)
  then show "\<exists>y. exchange w base (with_timeout (wb_clock w) parent login_timeout s0) body 0 s = Some y"
    by (rule exchange_returns [OF assms])
  have loop: "\<exists>y. device_loop w parent (with_deadline (wb_clock w) parent (ck_now (wb_clock w) s1 + int64 (dv_expires d * second)) s1)
      (ck_now (wb_clock w) s1 + int64 (dv_expires d * second)) client (dv_code d) (int64 (dv_interval d * second)) s1 = Some y"
    if "request_device_code w parent client s2 = (s3, Inr d)" for s1 s2 s3 d
  proof (rule device_loop_returns [OF assms])
    have d: "0 < dv_expires d" "dv_expires d \<le> 3600" "0 < dv_interval d" "dv_interval d \<le> 300"
      using request_device_code_Inr [OF that] by auto
    have i: "int64 (dv_interval d * second) = dv_interval d * second" "int64 (dv_expires d * second) = dv_expires d * second"
      using d by (intro int64_id; simp add: second_def)+
    show "second \<le> int64 (dv_interval d * second)" "int64 (dv_interval d * second) \<le> 2 ^ 61"
      "ck_now (wb_clock w) s1 + int64 (dv_expires d * second) - ck_now (wb_clock w) s1 \<le> 2 ^ 60"
      unfolding i using d by (simp_all add: second_def)
  qed
  show "\<exists>y. login_device w parent client prompt s = Some y"
    using loop by (auto simp: login_device_def act_defs Let_def split: option.splits prod.splits sum.splits)
qed

text \<open>
  A server that asks for a pause of more than 292 years gets one of a third of a second: the product with
  \<open>time.Second\<close> wraps around before the deadline check sees it.
\<close>

lemma retry_after_wraps: "retry_after w ''18446744074'' now = (290448384, True)"
  by (simp add: retry_after_def atoi_def in_range_def code_def int64_def second_def Let_def)

subsection \<open>A world to sign in to\<close>

text \<open>The state is the time and the keyring entry.  The first exchange is rate limited, the second poll succeeds.\<close>

type_synonym sample_world = "int \<times> bytes option"

definition sample_clock :: "sample_world clock" where
  "sample_clock = \<lparr>ck_now = fst, ck_await = (\<lambda>cx d (t, v). (t + d, v)),
     ck_watch = (\<lambda>parent deadline s. case cx_err parent s of Some e \<Rightarrow> Some e
       | None \<Rightarrow> if deadline \<le> fst s then Some DeadlineExceeded else None)\<rparr>"

definition background :: "sample_world go_ctx" where
  "background = \<lparr>cx_err = (\<lambda>_. None), cx_deadline = None\<rparr>"

definition sample_answer :: "int \<Rightarrow> bytes \<Rightarrow> response" where
  "sample_answer status body = \<lparr>rs_status = status, rs_retry_after = ''1'', rs_content_type = ''application/json'',
     rs_body = body, rs_body_fails = False\<rparr>"

definition sample_http :: "sample_world http" where
  "sample_http = \<lparr>ht_do = (\<lambda>cx rq (t, v). ((t, v), Inr (
       if rq_url rq = ''/v1/oauth/authorize'' then sample_answer 200 ''A''
       else if rq_url rq = ''/v1/oauth/exchange'' then sample_answer (if t = 0 then 429 else 200) ''X''
       else if rq_url rq = github_device_code_url then sample_answer 200 ''D''
       else sample_answer 200 (if t < 2 * second then ''P'' else ''T'')))),
     ht_media_type = Some, ht_at_end = (\<lambda>b. b = [])\<rparr>"

definition sample_token :: stored_token where
  "sample_token = \<lparr>tk_access = ''t'', tk_username = ''u'', tk_user = 1\<rparr>"

definition sample_codec :: token_codec where
  "sample_codec = \<lparr>tc_marshal = (\<lambda>_. Some ''J''), tc_unmarshal = (\<lambda>_. Some (sample_token, [])), tc_at_end = (\<lambda>b. b = [])\<rparr>"

definition sample_vault :: "sample_world vault" where
  "sample_vault = \<lparr>va_probe = None, va_store = (\<lambda>_ _ b (t, v). ((t, Some b), Inr ())),
     va_load = (\<lambda>_ _ (t, v). ((t, v), case v of None \<Rightarrow> Inl (Plain CauseNotExist) | Some b \<Rightarrow> Inr b)),
     va_delete = (\<lambda>_ _ (t, v). ((t, None), Inr ()))\<rparr>"

definition sample_state :: string where
  "sample_state = replicate 64 CHR ''0''"

definition sample_page :: parsed_url where
  "sample_page = \<lparr>pu_scheme = ''https'', pu_host = ''github.com'', pu_path = ''/login/oauth/authorize'', pu_has_user = False,
     pu_fragment = [], pu_query = [(''state'', [sample_state]), (''code_challenge'', [raw_url_base64 ''h'']),
       (''redirect_uri'', [redirect_uri 80]), (''code_challenge_method'', [''S256''])]\<rparr>"

definition sample_scope :: string where "sample_scope = ''repo,read:org write:packages''"

definition sample_web :: "sample_world web" where
  "sample_web = \<lparr>wb_clock = sample_clock, wb_http = sample_http, wb_net = sample_net, wb_codec = sample_codec,
     wb_vault = sample_vault, wb_parse_url = (\<lambda>_. Some sample_page), wb_http_time = (\<lambda>_. None),
     wb_listen = act_ok 80, wb_random = (\<lambda>n. act_ok ''r''), wb_sha256 = (\<lambda>_. ''h''),
     wb_serve = (\<lambda>cx s. (s, [sample_callback sample_state ''c''], CallbackCame)),
     wb_user = (\<lambda>cx access. act_ok (''u'', 1)),
     wb_authorize_body = (\<lambda>_. Some ''a''), wb_exchange_body = (\<lambda>_. Some ''x''),
     wb_authorize_answer = (\<lambda>_. Some (\<lparr>as_url = ''U'', as_state = sample_state\<rparr>, [])),
     wb_exchange_answer = (\<lambda>_. Some (\<lparr>er_access = ''t'', er_type = ''Bearer'', er_scope = sample_scope\<rparr>, [])),
     wb_device_answer = (\<lambda>_. Some (\<lparr>dv_code = ''d'', dv_user_code = ''c'', dv_uri = github_device_url,
        dv_expires = 900, dv_interval = 1\<rparr>, [])),
     wb_token_answer = (\<lambda>b. Some (\<lparr>dt_access = ''t'', dt_type = ''bearer'', dt_scope = sample_scope,
        dt_error = (if b = ''P'' then ''authorization_pending'' else []), dt_description = [], dt_error_uri = [],
        dt_interval = 0\<rparr>, []))\<rparr>"

lemma sample_web_simps:
  "wb_clock sample_web = sample_clock" "wb_http sample_web = sample_http"
  "wb_exchange_body sample_web body = Some ''x''"
  "wb_exchange_answer sample_web b = Some (\<lparr>er_access = ''t'', er_type = ''Bearer'', er_scope = sample_scope\<rparr>, [])"
  "wb_authorize_body sample_web q = Some ''a''"
  "wb_authorize_answer sample_web b = Some (\<lparr>as_url = ''U'', as_state = sample_state\<rparr>, [])"
  "wb_listen sample_web = act_ok 80" "wb_random sample_web n = act_ok ''r''" "wb_sha256 sample_web b = ''h''"
  by (simp_all add: sample_web_def)

lemma sample_http_simps [simp]:
  "ht_media_type sample_http = Some" "ht_at_end sample_http b \<longleftrightarrow> b = []"
  by (simp_all add: sample_http_def)

lemma sample_steady: "steady_clock sample_clock background" "steady_http sample_clock sample_http background"
  by (auto simp: steady_clock_def steady_http_def sample_clock_def sample_http_def background_def split: option.splits)

lemma sample_validate_token:
  "validate_token \<lparr>er_access = ''t'', er_type = ''Bearer'', er_scope = sample_scope\<rparr> = Inr ()"
  "validate_token \<lparr>er_access = ''t'', er_type = ''bearer'', er_scope = sample_scope\<rparr> = Inr ()"
  by code_simp+

lemma sample_store:
  "store_device_token sample_web cx ''t'' (t, v) = ((t, Some ''J''), Inr sample_token)"
  by (simp add: store_device_token_def save_token_def validate_stored_token_def act_defs sample_web_def sample_vault_def
      sample_codec_def sample_token_def)

definition sample_ctx :: "sample_world go_ctx" where
  "sample_ctx = with_timeout sample_clock background login_timeout (0, None)"

lemma sample_ctx_err: "cx_err sample_ctx s = (if 600000000000 \<le> fst s then Some DeadlineExceeded else None)"
  and sample_ctx_deadline: "cx_deadline sample_ctx = Some 600000000000"
  by (simp_all add: sample_ctx_def with_timeout_def with_deadline_def sample_clock_def background_def login_timeout_def
      minute_def second_def time_sub_def Let_def)

lemma sample_request:
  "request_json sample_http [] cx ''POST'' ''/v1/oauth/exchange'' (Some (Some b)) (t, v)
     = ((t, v), Inr (sample_answer (if t = 0 then 429 else 200) ''X''))"
  by (simp add: request_json_def sample_http_def Let_def)

lemma sample_exchange:
  "exchange sample_web [] sample_ctx body 0 (0, None)
     = Some ((second, None), Inr \<lparr>er_access = ''t'', er_type = ''Bearer'', er_scope = sample_scope\<rparr>)"
proof -
  have later: "exchange sample_web [] sample_ctx body n (second, None)
      = Some ((second, None), Inr \<lparr>er_access = ''t'', er_type = ''Bearer'', er_scope = sample_scope\<rparr>)" for n
    using sample_validate_token
    by (subst exchange.simps)
      (simp add: sample_request sample_web_simps sample_answer_def exchange_answer_def decode_json_def second_def
        max_response_bytes_def)
  have "rate_limited sample_web sample_ctx (sample_answer 429 ''X'') 0 (0, None) = Inr second"
    by (simp add: rate_limited_def retry_after_def retry_delay_def sample_ctx_deadline sample_web_def sample_clock_def sample_answer_def
        atoi_def in_range_def code_def retry_backoff_start_def millisecond_def second_def int64_def Let_def)
  moreover have "clock_wait sample_clock sample_ctx second (0, None) = ((second, None), Inr ())"
    by (simp add: clock_wait_def sample_ctx_err sample_clock_def second_def)
  ultimately show ?thesis
    by (subst exchange.simps) (simp add: sample_request later sample_web_simps sample_answer_def)
qed

lemma sample_login:
  "login_browser sample_web [] background (Some (\<lambda>_. act_ok ())) (0, None) = Some ((second, Some ''J''), Inr sample_token)"
proof -
  have st: "state_pattern sample_state" by code_simp
  have b: "raw_url_base64 ''h'' = ''aA''" "raw_url_base64 ''r'' = ''cg''" by code_simp+
  have page: "valid_authorize_url sample_web ''U'' sample_state ''aA'' (redirect_uri 80)"
    by (simp add: valid_authorize_url_def sample_web_def sample_page_def single_value_def gm_get_def sample_state_def b redirect_uri_def
        del: raw_url_base64.simps)
  have "login_open sample_web [] cx (Some (\<lambda>_. act_ok ())) (0, None)
      = ((0, None), Inr (''cg'', redirect_uri 80, \<lparr>as_url = ''U'', as_state = sample_state\<rparr>))" for cx
    using st page
    by (simp add: login_open_def new_pkce_def authorize_def do_json_def request_json_def act_defs sample_web_simps sample_http_def
        sample_answer_def decode_json_def max_response_bytes_def b Let_def del: raw_url_base64.simps)
  moreover have "login_callback sample_web cx sample_state s = Some (s, Inr (CallbackCode ''c''))" for cx s
    by (simp add: login_callback_def sample_web_def sample_callback_simps)
      (simp add: sample_state_def)
  ultimately show ?thesis
    using sample_exchange [unfolded sample_ctx_def] sample_store
    by (simp add: login_browser_def Let_def sample_web_def)
qed

theorem login_keeps_checked_token_witness:
  "login_browser sample_web [] background (Some (\<lambda>_. act_ok ())) (0, None) = Some ((second, Some ''J''), Inr sample_token)
   \<and> snd (load_token sample_codec (\<lambda>_. []) sample_vault (second, Some ''J'')) = Inr sample_token"
proof -
  have "rereads (wb_vault sample_web) token_service token_account"
    by (auto simp: rereads_def sample_web_def sample_vault_def)
  moreover have "tc_unmarshal (wb_codec sample_web) data = Some (sample_token, []) \<and> tc_at_end (wb_codec sample_web) []" for data
    by (simp add: sample_web_def sample_codec_def)
  ultimately have "snd (load_token (wb_codec sample_web) (\<lambda>_. []) (wb_vault sample_web) (second, Some ''J'')) = Inr sample_token"
    by (intro login_keeps_checked_token [OF sample_login, THEN conjunct2, THEN conjunct1]) auto
  then show ?thesis using sample_login by (simp add: sample_web_def)
qed

theorem logins_return_witness:
  "\<exists>y. login_device sample_web background ''id'' (Some (\<lambda>_. act_ok ())) (0, None) = Some y"
  using logins_return [of sample_web background] sample_steady by (simp add: sample_web_def)

end
