(* ===== verification/Remote.thy ===== *)
theory Remote
  imports Storage Clock
begin

text \<open>
  The remote backends of \<open>pkg/storage\<close>: objects of an S3 bucket (\<open>s3.go\<close>), manifests of an OCI registry
  (\<open>oci.go\<close>), and deleting tags through the GitHub Packages API (\<open>ghcr.go\<close>).  The clients of the services are
  parameters; what they promise is stated where it is used.
\<close>

definition trim_prefix :: "string \<Rightarrow> string \<Rightarrow> string" where
  "trim_prefix s p = (if has_prefix s p then drop (length p) s else s)"

subsection \<open>S3\<close>

text \<open>The code of an error response, or any other error.\<close>

datatype s3_error = S3Code string | S3Failed

text \<open>
  The client.  \<open>mc_open\<close> is \<open>GetObject\<close> and \<open>Stat\<close>: the bytes of the object, its size their number, and whether reading
  them fails.  \<open>mc_put\<close> puts an object unless the key is taken; \<open>mc_list\<close> lists keys until an error.
\<close>

record 's s3_client =
  mc_open :: "string \<Rightarrow> 's \<Rightarrow> 's \<times> (s3_error + bytes \<times> bool)"
  mc_put :: "string \<Rightarrow> bytes \<Rightarrow> 's \<Rightarrow> 's \<times> s3_error option"
  mc_list :: "string \<Rightarrow> 's \<Rightarrow> 's \<times> string list \<times> s3_error option"
  mc_remove :: "string \<Rightarrow> 's \<Rightarrow> 's \<times> s3_error option"
  mc_done :: "'s \<Rightarrow> bool"

definition s3_err :: "s3_error \<Rightarrow> storage_error" where
  "s3_err e = (if e = S3Code ''NoSuchKey'' \<or> e = S3Code ''NotFound'' then SNotFound else SBackend)"

definition is_exists :: "s3_error \<Rightarrow> bool" where
  "is_exists e \<longleftrightarrow> e = S3Code ''PreconditionFailed'' \<or> e = S3Code ''ConditionalRequestConflict''"

definition s3_base :: "string \<Rightarrow> string" where
  "s3_base pre =
     (let p = trim_right ''/'' (trim_left ''/'' pre) in if p = [] then [] else p @ ''/'')"

definition s3_key :: "string \<Rightarrow> string \<Rightarrow> string" where
  "s3_key pre name = s3_base pre @ ''revisions/'' @ name"

definition s3_open :: "'s s3_client \<Rightarrow> string \<Rightarrow> string \<Rightarrow> 's \<Rightarrow> 's \<times> (storage_error + bytes \<times> bool)" where
  "s3_open mc pre name s =
     (case mc_open mc (s3_key pre name) s of
        (s', Inl e) \<Rightarrow> (s', Inl (s3_err e))
      | (s', Inr (data, fails)) \<Rightarrow>
          (s', if length data > max_frame_bytes then Inl STooLarge else Inr (data, fails)))"

definition s3_read_all :: "'s s3_client \<Rightarrow> string \<Rightarrow> string \<Rightarrow> 's \<Rightarrow> 's \<times> (storage_error + bytes)" where
  "s3_read_all mc pre name s =
     (case s3_open mc pre name s of
        (s', Inl e) \<Rightarrow> (s', Inl e)
      | (s', Inr (data, fails)) \<Rightarrow> (s', if fails then Inl SBackend else Inr data))"

text \<open>\<open>readHead\<close> on an open object.\<close>

definition s3_read_head :: "digest_lib \<Rightarrow> bytes \<times> bool \<Rightarrow> digest \<Rightarrow> storage_error + bytes \<times> frame_layout" where
  "s3_read_head dl obj rv = (if snd obj then Inl SBackend else read_head dl (fst obj) rv)"

definition s3_publish :: "digest_lib \<Rightarrow> 's s3_client \<Rightarrow> string \<Rightarrow> object \<Rightarrow> 's \<Rightarrow> 's \<times> (storage_error + unit)" where
  "s3_publish dl mc pre obj s =
     (case validate_object dl obj of
        Inl e \<Rightarrow> (s, Inl e)
      | Inr _ \<Rightarrow>
      case obj_name dl (ob_kind obj) (ob_scope obj) (ob_rv obj) of
        Inl e \<Rightarrow> (s, Inl e)
      | Inr name \<Rightarrow>
          let data = frame obj in
          case mc_put mc (s3_key pre name) data s of
            (s1, Some e) \<Rightarrow>
              if \<not> is_exists e then (s1, Inl (s3_err e))
              else (case s3_read_all mc pre name s1 of
                      (s2, Inl e) \<Rightarrow> (s2, Inl e)
                    | (s2, Inr got) \<Rightarrow> (s2, if got = data then Inr () else Inl SCorrupt))
          | (s1, None) \<Rightarrow>
              (case s3_open mc pre name s1 of
                 (s2, Inl e) \<Rightarrow> (s2, Inl e)
               | (s2, Inr got) \<Rightarrow>
                   (s2, if length (fst got) \<noteq> length data then Inl SCorrupt
                        else res_bind (s3_read_head dl got (ob_rv obj)) (\<lambda>_. Inr ()))))"

definition s3_fetch_head ::
  "digest_lib \<Rightarrow> 's s3_client \<Rightarrow> string \<Rightarrow> kind \<Rightarrow> string \<Rightarrow> digest \<Rightarrow> 's \<Rightarrow> 's \<times> (storage_error + bytes)" where
  "s3_fetch_head dl mc pre k sc rv s =
     (case obj_name dl k sc rv of
        Inl e \<Rightarrow> (s, Inl e)
      | Inr name \<Rightarrow>
          (case s3_open mc pre name s of
             (s', Inl e) \<Rightarrow> (s', Inl e)
           | (s', Inr got) \<Rightarrow> (s', res_bind (s3_read_head dl got rv) (\<lambda>(head, _). Inr head))))"

definition s3_open_blob ::
  "digest_lib \<Rightarrow> 's s3_client \<Rightarrow> string \<Rightarrow> kind \<Rightarrow> string \<Rightarrow> digest \<Rightarrow> int \<Rightarrow> 's \<Rightarrow> 's \<times> (storage_error + bytes)" where
  "s3_open_blob dl mc pre k sc rv index s =
     (case obj_name dl k sc rv of
        Inl e \<Rightarrow> (s, Inl e)
      | Inr name \<Rightarrow>
          (case s3_open mc pre name s of
             (s', Inl e) \<Rightarrow> (s', Inl e)
           | (s', Inr got) \<Rightarrow>
               (s', res_bind (s3_read_head dl got rv) (\<lambda>(_, layout). blob_section (fst got) layout index))))"

definition s3_discover ::
  "digest_lib \<Rightarrow> 's s3_client \<Rightarrow> string \<Rightarrow> kind \<Rightarrow> string \<Rightarrow> 's \<Rightarrow> 's \<times> (storage_error + digest list)" where
  "s3_discover dl mc pre k sc s =
     (case name_prefix k sc of
        Inl e \<Rightarrow> (s, Inl e)
      | Inr p \<Rightarrow>
          let base = s3_key pre [] in
          case mc_list mc (base @ p) s of
            (s', keys, failed) \<Rightarrow>
              (s', res_bind (discover_loop dl k p (map (\<lambda>key. trim_prefix key base) keys) []) (\<lambda>revs.
                     case failed of
                       Some e \<Rightarrow> Inl (s3_err e)
                     | None \<Rightarrow> if mc_done mc s' then Inl SBackend else Inr (sort revs))))"

definition s3_scopes :: "digest_lib \<Rightarrow> 's s3_client \<Rightarrow> string \<Rightarrow> 's \<Rightarrow> 's \<times> (storage_error + string list)" where
  "s3_scopes dl mc pre s =
     (let base = s3_key pre [] in
      case mc_list mc (base @ the (kind_letter KindState) @ ''-'') s of
        (s', keys, failed) \<Rightarrow>
          (s', case failed of
                 Some e \<Rightarrow> Inl (s3_err e)
               | None \<Rightarrow> if mc_done mc s' then Inl SBackend
                         else Inr (sorted_scopes dl (map (\<lambda>key. trim_prefix key base) keys))))"

definition s3_delete ::
  "digest_lib \<Rightarrow> 's s3_client \<Rightarrow> string \<Rightarrow> kind \<Rightarrow> string \<Rightarrow> digest \<Rightarrow> 's \<Rightarrow> 's \<times> (storage_error + unit)" where
  "s3_delete dl mc pre k sc rv s =
     (case obj_name dl k sc rv of
        Inl e \<Rightarrow> (s, Inl e)
      | Inr name \<Rightarrow>
          (case mc_remove mc (s3_key pre name) s of
             (s', Some e) \<Rightarrow> (s', Inl (s3_err e))
           | (s', None) \<Rightarrow> (s', Inr ())))"

definition s3_ops :: "digest_lib \<Rightarrow> 's s3_client \<Rightarrow> string \<Rightarrow> 's store_ops" where
  "s3_ops dl mc pre = \<lparr>
     so_publish = s3_publish dl mc pre, so_fetch_head = s3_fetch_head dl mc pre,
     so_open_blob = s3_open_blob dl mc pre, so_discover = s3_discover dl mc pre,
     so_scopes = s3_scopes dl mc pre, so_delete = s3_delete dl mc pre, so_capabilities = True\<rparr>"

subsection \<open>OCI\<close>

record descriptor =
  de_media :: string
  de_digest :: digest
  de_size :: int

record manifest =
  mf_config :: descriptor
  mf_layers :: "descriptor list"

text \<open>\<open>errdef.ErrNotFound\<close>, \<open>errdef.ErrAlreadyExists\<close>, an error response with status 404, and any other error.\<close>

datatype oci_error = OciNotFound | OciExists | OciResponse404 | OciFailed

text \<open>
  The repository.  \<open>oc_fetch\<close> gives a reader: the pieces it returns, and whether it then fails; \<open>oc_tags\<close> lists all tags,
  until an error.  The JSON codec of a manifest is part of the parameter.
\<close>

record 's oci_repo =
  oc_resolve :: "string \<Rightarrow> 's \<Rightarrow> 's \<times> (oci_error + descriptor)"
  oc_exists :: "descriptor \<Rightarrow> 's \<Rightarrow> 's \<times> (oci_error + bool)"
  oc_push :: "descriptor \<Rightarrow> bytes \<Rightarrow> 's \<Rightarrow> 's \<times> oci_error option"
  oc_push_reference :: "descriptor \<Rightarrow> bytes \<Rightarrow> string \<Rightarrow> 's \<Rightarrow> 's \<times> oci_error option"
  oc_fetch :: "descriptor \<Rightarrow> 's \<Rightarrow> 's \<times> (oci_error + bytes list \<times> bool)"
  oc_tags :: "'s \<Rightarrow> 's \<times> string list \<times> oci_error option"
  oc_marshal :: "manifest \<Rightarrow> bytes option"
  oc_unmarshal :: "bytes \<Rightarrow> manifest option"

definition oci_head_media_type :: string where "oci_head_media_type = ''application/vnd.enbu.head.v1''"
definition oci_blob_media_type :: string where "oci_blob_media_type = ''application/vnd.enbu.blob.v1''"
definition oci_config_media_type :: string where "oci_config_media_type = ''application/vnd.enbu.config.v1+json''"
definition oci_manifest_media_type :: string where "oci_manifest_media_type = ''application/vnd.oci.image.manifest.v1+json''"

definition remote_error :: "oci_error \<Rightarrow> storage_error" where
  "remote_error e = (if e = OciNotFound then SNotFound else SBackend)"

definition blob_descriptor :: "digest_lib \<Rightarrow> string \<Rightarrow> bytes \<Rightarrow> descriptor" where
  "blob_descriptor dl media data = \<lparr>de_media = media, de_digest = dl_from_bytes dl data, de_size = int (length data)\<rparr>"

definition object_layers :: "digest_lib \<Rightarrow> object \<Rightarrow> descriptor list" where
  "object_layers dl obj = blob_descriptor dl oci_head_media_type (ob_head obj)
     # map (blob_descriptor dl oci_blob_media_type) (ob_blobs obj)"

definition config_descriptor :: "digest_lib \<Rightarrow> descriptor" where
  "config_descriptor dl = blob_descriptor dl oci_config_media_type ''{}''"

definition manifest_for ::
  "digest_lib \<Rightarrow> 's oci_repo \<Rightarrow> object \<Rightarrow> storage_error + descriptor \<times> descriptor list \<times> bytes \<times> descriptor" where
  "manifest_for dl oc obj =
     (case oc_marshal oc \<lparr>mf_config = config_descriptor dl, mf_layers = object_layers dl obj\<rparr> of
        None \<Rightarrow> Inl SBackend
      | Some body \<Rightarrow>
          Inr (config_descriptor dl, object_layers dl obj, body, blob_descriptor dl oci_manifest_media_type body))"

definition push_blob :: "'s oci_repo \<Rightarrow> descriptor \<Rightarrow> bytes \<Rightarrow> 's \<Rightarrow> 's \<times> (storage_error + unit)" where
  "push_blob oc d data s =
     (case oc_exists oc d s of
        (s1, Inl e) \<Rightarrow> (s1, Inl (remote_error e))
      | (s1, Inr True) \<Rightarrow> (s1, Inr ())
      | (s1, Inr False) \<Rightarrow>
          (case oc_push oc d data s1 of
             (s2, Some e) \<Rightarrow> (s2, if e = OciExists then Inr () else Inl (remote_error e))
           | (s2, None) \<Rightarrow> (s2, Inr ())))"

fun push_blobs :: "'s oci_repo \<Rightarrow> (descriptor \<times> bytes) list \<Rightarrow> 's \<Rightarrow> 's \<times> (storage_error + unit)" where
  "push_blobs oc [] s = (s, Inr ())"
| "push_blobs oc ((d, data) # ds) s =
     (case push_blob oc d data s of
        (s1, Inl e) \<Rightarrow> (s1, Inl e)
      | (s1, Inr _) \<Rightarrow> push_blobs oc ds s1)"

text \<open>The last loop of \<open>Publish\<close>: every blob of the manifest is still there.\<close>

fun check_blobs :: "'s oci_repo \<Rightarrow> descriptor list \<Rightarrow> 's \<Rightarrow> 's \<times> (storage_error + unit)" where
  "check_blobs oc [] s = (s, Inr ())"
| "check_blobs oc (d # ds) s =
     (case oc_exists oc d s of
        (s1, Inl e) \<Rightarrow> (s1, Inl (remote_error e))
      | (s1, Inr False) \<Rightarrow> (s1, Inl SNotFound)
      | (s1, Inr True) \<Rightarrow> check_blobs oc ds s1)"

text \<open>Acknowledging a publication: reading the tag back.\<close>

definition oci_acknowledge ::
  "'s oci_repo \<Rightarrow> string \<Rightarrow> descriptor \<Rightarrow> descriptor list \<Rightarrow> 's \<Rightarrow> 's \<times> (storage_error + unit)" where
  "oci_acknowledge oc name md blobs s =
     (case oc_resolve oc name s of
        (s1, Inl e) \<Rightarrow> (s1, Inl (remote_error e))
      | (s1, Inr back) \<Rightarrow>
          if de_digest back \<noteq> de_digest md then (s1, Inl SCorrupt) else check_blobs oc blobs s1)"

definition oci_publish :: "digest_lib \<Rightarrow> 's oci_repo \<Rightarrow> object \<Rightarrow> 's \<Rightarrow> 's \<times> (storage_error + unit)" where
  "oci_publish dl oc obj s =
     (case validate_object dl obj of
        Inl e \<Rightarrow> (s, Inl e)
      | Inr _ \<Rightarrow>
      case obj_name dl (ob_kind obj) (ob_scope obj) (ob_rv obj) of
        Inl e \<Rightarrow> (s, Inl e)
      | Inr name \<Rightarrow>
      case manifest_for dl oc obj of
        Inl e \<Rightarrow> (s, Inl e)
      | Inr (cfg, layers, body, md) \<Rightarrow>
          (case oc_resolve oc name s of
             (s1, Inr current) \<Rightarrow>
               if de_digest current \<noteq> de_digest md then (s1, Inl SCorrupt)
               else oci_acknowledge oc name md (cfg # layers) s1
           | (s1, Inl e) \<Rightarrow>
               if e \<noteq> OciNotFound then (s1, Inl (remote_error e))
               else case push_blobs oc ((cfg, ''{}'') # zip layers (ob_head obj # ob_blobs obj)) s1 of
                 (s2, Inl e) \<Rightarrow> (s2, Inl e)
               | (s2, Inr _) \<Rightarrow>
                   (case oc_push_reference oc md body name s2 of
                      (s3, Some e) \<Rightarrow> (s3, Inl (remote_error e))
                    | (s3, None) \<Rightarrow> oci_acknowledge oc name md (cfg # layers) s3)))"

text \<open>\<open>io.ReadAll\<close> of the first \<open>limit + 1\<close> bytes: a failure that comes later does not show.\<close>

definition fetch_limited ::
  "digest_lib \<Rightarrow> 's oci_repo \<Rightarrow> descriptor \<Rightarrow> nat \<Rightarrow> 's \<Rightarrow> 's \<times> (storage_error + bytes)" where
  "fetch_limited dl oc d limit s =
     (if de_size d < 0 \<or> de_size d > int limit then (s, Inl STooLarge)
      else case oc_fetch oc d s of
        (s1, Inl e) \<Rightarrow> (s1, Inl (remote_error e))
      | (s1, Inr (chunks, fails)) \<Rightarrow>
          let b = take (limit + 1) (concat chunks)
          in (s1, if fails \<and> length b < limit + 1 then Inl SBackend
                  else if int (length b) \<noteq> de_size d \<or> dl_from_bytes dl b \<noteq> de_digest d then Inl SCorrupt
                  else Inr b))"

definition oci_manifest ::
  "digest_lib \<Rightarrow> 's oci_repo \<Rightarrow> kind \<Rightarrow> string \<Rightarrow> digest \<Rightarrow> 's \<Rightarrow> 's \<times> (storage_error + manifest)" where
  "oci_manifest dl oc k sc rv s =
     (case obj_name dl k sc rv of
        Inl e \<Rightarrow> (s, Inl e)
      | Inr name \<Rightarrow>
          (case oc_resolve oc name s of
             (s1, Inl e) \<Rightarrow> (s1, Inl (remote_error e))
           | (s1, Inr d) \<Rightarrow>
               (case fetch_limited dl oc d max_head_bytes s1 of
                  (s2, Inl e) \<Rightarrow> (s2, Inl e)
                | (s2, Inr raw) \<Rightarrow>
                    (s2, case oc_unmarshal oc raw of
                           None \<Rightarrow> Inl SCorrupt
                         | Some m \<Rightarrow>
                             if mf_layers m = [] \<or> length (mf_layers m) > max_blobs + 1
                                \<or> de_media (mf_layers m ! 0) \<noteq> oci_head_media_type \<or> de_digest (mf_layers m ! 0) \<noteq> rv
                             then Inl SCorrupt else Inr m))))"

definition oci_fetch_head ::
  "digest_lib \<Rightarrow> 's oci_repo \<Rightarrow> kind \<Rightarrow> string \<Rightarrow> digest \<Rightarrow> 's \<Rightarrow> 's \<times> (storage_error + bytes)" where
  "oci_fetch_head dl oc k sc rv s =
     (case oci_manifest dl oc k sc rv s of
        (s1, Inl e) \<Rightarrow> (s1, Inl e)
      | (s1, Inr m) \<Rightarrow> fetch_limited dl oc (mf_layers m ! 0) max_head_bytes s1)"

text \<open>
  \<open>verifyReader\<close>: the bytes seen so far.  A read is given what the reader below returns, \<open>None\<close> at its end; a reader
  read to its end gives its bytes or fails.
\<close>

definition verify_read :: "digest_lib \<Rightarrow> descriptor \<Rightarrow> bytes option \<Rightarrow> bytes \<Rightarrow> storage_error + bytes" where
  "verify_read dl d piece seen =
     (let seen' = (case piece of None \<Rightarrow> seen | Some c \<Rightarrow> seen @ c)
      in if int (length seen') > de_size d then Inl SCorrupt
         else if piece = None \<and> (int (length seen') \<noteq> de_size d \<or> dl_from_bytes dl seen' \<noteq> de_digest d) then Inl SCorrupt
         else Inr seen')"

fun verify_reader :: "digest_lib \<Rightarrow> descriptor \<Rightarrow> bytes list \<Rightarrow> bool \<Rightarrow> bytes \<Rightarrow> storage_error + bytes" where
  "verify_reader dl d [] fails seen = (if fails then Inl SBackend else verify_read dl d None seen)"
| "verify_reader dl d (c # cs) fails seen = res_bind (verify_read dl d (Some c) seen) (verify_reader dl d cs fails)"

definition oci_open_blob ::
  "digest_lib \<Rightarrow> 's oci_repo \<Rightarrow> kind \<Rightarrow> string \<Rightarrow> digest \<Rightarrow> int \<Rightarrow> 's \<Rightarrow> 's \<times> (storage_error + bytes)" where
  "oci_open_blob dl oc k sc rv index s =
     (case oci_manifest dl oc k sc rv s of
        (s1, Inl e) \<Rightarrow> (s1, Inl e)
      | (s1, Inr m) \<Rightarrow>
          if index < 0 \<or> index + 1 \<ge> int (length (mf_layers m))
             \<or> de_media (mf_layers m ! nat (index + 1)) \<noteq> oci_blob_media_type then (s1, Inl SNotFound)
          else
            let layer = mf_layers m ! nat (index + 1)
            in if de_size layer < 0 \<or> de_size layer > int max_payload_bytes then (s1, Inl STooLarge)
               else case oc_fetch oc layer s1 of
                 (s2, Inl e) \<Rightarrow> (s2, Inl (remote_error e))
               | (s2, Inr (chunks, fails)) \<Rightarrow> (s2, verify_reader dl layer chunks fails []))"

definition repository_unknown :: "oci_error \<Rightarrow> bool" where
  "repository_unknown e \<longleftrightarrow> e = OciResponse404"

text \<open>A tag cannot hold a slash, and neither does a name.\<close>

definition oci_discover ::
  "digest_lib \<Rightarrow> 's oci_repo \<Rightarrow> kind \<Rightarrow> string \<Rightarrow> 's \<Rightarrow> 's \<times> (storage_error + digest list)" where
  "oci_discover dl oc k sc s =
     (case name_prefix k sc of
        Inl e \<Rightarrow> (s, Inl e)
      | Inr p \<Rightarrow>
          (case oc_tags oc s of
             (s', tags, failed) \<Rightarrow>
               (s', case discover_loop dl k p (filter (\<lambda>t. CHR ''/'' \<notin> set t) tags) [] of
                      Inl e \<Rightarrow> Inl e
                    | Inr revs \<Rightarrow>
                        (case failed of
                           None \<Rightarrow> Inr (sort revs)
                         | Some e \<Rightarrow> if e = OciNotFound \<or> repository_unknown e then Inr [] else Inl (remote_error e)))))"

definition oci_scopes :: "digest_lib \<Rightarrow> 's oci_repo \<Rightarrow> 's \<Rightarrow> 's \<times> (storage_error + string list)" where
  "oci_scopes dl oc s =
     (case oc_tags oc s of
        (s', tags, failed) \<Rightarrow>
          (s', case failed of
                 None \<Rightarrow> Inr (sorted_scopes dl tags)
               | Some e \<Rightarrow> if e = OciNotFound \<or> repository_unknown e then Inr [] else Inl (remote_error e)))"

type_synonym 's tag_deleter = "string \<Rightarrow> 's \<Rightarrow> 's \<times> (storage_error + unit)"

definition oci_delete ::
  "digest_lib \<Rightarrow> 's tag_deleter option \<Rightarrow> kind \<Rightarrow> string \<Rightarrow> digest \<Rightarrow> 's \<Rightarrow> 's \<times> (storage_error + unit)" where
  "oci_delete dl deleter k sc rv s =
     (case deleter of
        None \<Rightarrow> (s, Inl SUnsupported)
      | Some delete_tag \<Rightarrow>
          (case obj_name dl k sc rv of
             Inl e \<Rightarrow> (s, Inl e)
           | Inr name \<Rightarrow> delete_tag name s))"

definition oci_ops :: "digest_lib \<Rightarrow> 's oci_repo \<Rightarrow> 's tag_deleter option \<Rightarrow> 's store_ops" where
  "oci_ops dl oc deleter = \<lparr>
     so_publish = oci_publish dl oc, so_fetch_head = oci_fetch_head dl oc,
     so_open_blob = oci_open_blob dl oc, so_discover = oci_discover dl oc,
     so_scopes = oci_scopes dl oc, so_delete = oci_delete dl deleter, so_capabilities = (deleter \<noteq> None)\<rparr>"

subsection \<open>GitHub packages\<close>

text \<open>
  A deleter of package versions of \<open>ghcr.io\<close>.  The HTTP client, the credential and the JSON decoders of the answers are
  parameters; \<open>gp_owner_type\<close> reads the type of an account, \<open>gp_versions\<close> the identifiers and tags of a page of versions.
\<close>

record 's ghcr_packages =
  gp_owner :: string
  gp_package :: string
  gp_base_url :: string
  gp_token :: "'s \<Rightarrow> 's \<times> string option"
  gp_http :: "request \<Rightarrow> 's \<Rightarrow> 's \<times> response option"
  gp_owner_type :: "bytes \<Rightarrow> string option"
  gp_versions :: "bytes \<Rightarrow> (int \<times> string list) list option"

definition ghcr_base :: "'s ghcr_packages \<Rightarrow> string" where
  "ghcr_base gp = (if gp_base_url gp \<noteq> [] then trim_right ''/'' (gp_base_url gp) else ''https://api.github.com'')"

definition max_ghcr_body :: nat where "max_ghcr_body = 8 * 1024 * 1024"

text \<open>\<open>decode\<close> is missing when the caller wants no body.\<close>

definition ghcr_do ::
  "'s ghcr_packages \<Rightarrow> string \<Rightarrow> string \<Rightarrow> (bytes \<Rightarrow> 'a option) \<Rightarrow> 's \<Rightarrow> 's \<times> (storage_error + 'a)" where
  "ghcr_do gp meth path decode s =
     (case gp_token gp s of
        (s1, None) \<Rightarrow> (s1, Inl SBackend)
      | (s1, Some token) \<Rightarrow>
          (case gp_http gp \<lparr>rq_method = meth, rq_url = ghcr_base gp @ path,
                  rq_headers = [(''Authorization'', ''Bearer '' @ token), (''Accept'', ''application/vnd.github+json''),
                                (''X-GitHub-Api-Version'', ''2022-11-28'')],
                  rq_body = NoBody\<rparr> s1 of
             (s2, None) \<Rightarrow> (s2, Inl SBackend)
           | (s2, Some resp) \<Rightarrow>
               (s2, let body = take max_ghcr_body (rs_body resp)
                    in if rs_body_fails resp \<and> length body < max_ghcr_body then Inl SBackend
                       else if rs_status resp \<ge> 300 then Inl SBackend
                       else (case decode body of None \<Rightarrow> Inl SBackend | Some x \<Rightarrow> Inr x))))"

text \<open>\<open>url.PathEscape\<close>.\<close>

definition path_unreserved :: "char \<Rightarrow> bool" where
  "path_unreserved c \<longleftrightarrow> in_range 97 122 c \<or> in_range 65 90 c \<or> in_range 48 57 c \<or> c \<in> set ''-_.~$&+=:@''"

definition upper_hex :: "nat \<Rightarrow> char" where "upper_hex n = ''0123456789ABCDEF'' ! n"

definition path_escape :: "string \<Rightarrow> string" where
  "path_escape s = concat (map (\<lambda>c. if path_unreserved c then [c] else [CHR ''%'', upper_hex (code c div 16), upper_hex (code c mod 16)]) s)"

definition ghcr_package_path :: "'s ghcr_packages \<Rightarrow> 's \<Rightarrow> 's \<times> (storage_error + string)" where
  "ghcr_package_path gp s =
     (case ghcr_do gp ''GET'' (''/users/'' @ path_escape (gp_owner gp)) (gp_owner_type gp) s of
        (s1, Inl e) \<Rightarrow> (s1, Inl e)
      | (s1, Inr owner_type) \<Rightarrow>
          (s1, Inr (''/'' @ (if owner_type = ''Organization'' then ''orgs/'' else ''users/'') @ path_escape (gp_owner gp)
             @ ''/packages/container/'' @ path_escape (gp_package gp))))"

definition show_int :: "int \<Rightarrow> string" where
  "show_int i = (if i < 0 then CHR ''-'' # show_nat (nat (- i)) else show_nat (nat i))"

text \<open>What a page of versions decides: the version to delete, a refusal, or to look at the next page.\<close>

datatype page = PageDelete int | PageRefuse | PageNext | PageMissing

definition ghcr_page :: "string \<Rightarrow> (int \<times> string list) list \<Rightarrow> page" where
  "ghcr_page tag versions =
     (case List.find (\<lambda>(vid, tags). tags \<noteq> [] \<and> tag \<in> set tags) versions of
        Some (vid, tags) \<Rightarrow> if length tags > 1 then PageRefuse else PageDelete vid
      | None \<Rightarrow> if length versions < 100 then PageMissing else PageNext)"

partial_function (option) ghcr_pages ::
  "'s ghcr_packages \<Rightarrow> string \<Rightarrow> string \<Rightarrow> nat \<Rightarrow> 's \<Rightarrow> ('s \<times> (storage_error + unit)) option" where
  "ghcr_pages gp pkg tag page s =
     (case ghcr_do gp ''GET'' (pkg @ ''/versions?per_page=100&page='' @ show_nat page) (gp_versions gp) s of
        (s1, Inl e) \<Rightarrow> Some (s1, Inl e)
      | (s1, Inr versions) \<Rightarrow>
          (case ghcr_page tag versions of
             PageDelete vid \<Rightarrow> Some (ghcr_do gp ''DELETE'' (pkg @ ''/versions/'' @ show_int vid) (\<lambda>_. Some ()) s1)
           | PageRefuse \<Rightarrow> Some (s1, Inl SBackend)
           | PageMissing \<Rightarrow> Some (s1, Inl SNotFound)
           | PageNext \<Rightarrow> ghcr_pages gp pkg tag (page + 1) s1))"

definition ghcr_delete_tag :: "'s ghcr_packages \<Rightarrow> string \<Rightarrow> 's \<Rightarrow> ('s \<times> (storage_error + unit)) option" where
  "ghcr_delete_tag gp tag s =
     (case ghcr_package_path gp s of
        (s1, Inl e) \<Rightarrow> Some (s1, Inl e)
      | (s1, Inr pkg) \<Rightarrow> ghcr_pages gp pkg tag 1 s1)"

end
