(* ===== verification/Remote_Props.thy ===== *)
theory Remote_Props
  imports Remote
begin

text \<open>
  What the remote backends guarantee.  An S3 bucket keeps the contract of a store; what an OCI registry acknowledged
  can be read, and whatever a registry answers, a reader gets the bytes that were named; a tag is deleted only when it is
  the only one of its version.
\<close>

subsection \<open>An S3 bucket keeps the contract of a store\<close>

text \<open>
  The documented behaviour of the service: an object is read back whole or not at all, a conditional put never replaces an
  object, a listing shows objects that are there, and a request that fails has taken effect or not.  While the service is
  \<open>up\<close>, reading works.
\<close>

definition s3_reads :: "'s s3_client \<Rightarrow> ('s \<Rightarrow> string \<Rightarrow> bytes option) \<Rightarrow> ('s \<Rightarrow> bool) \<Rightarrow> bool" where
  "s3_reads mc bucket up \<longleftrightarrow>
     (\<forall>key s. case mc_open mc key s of (s', r) \<Rightarrow> bucket s' = bucket s \<and> (up s' \<longleftrightarrow> up s)
        \<and> (case r of Inr (data, fails) \<Rightarrow> bucket s key = Some data \<and> (up s \<longrightarrow> \<not> fails) | Inl e \<Rightarrow> up s \<longrightarrow> bucket s key = None))"

definition s3_writes :: "'s s3_client \<Rightarrow> ('s \<Rightarrow> string \<Rightarrow> bytes option) \<Rightarrow> ('s \<Rightarrow> bool) \<Rightarrow> bool" where
  "s3_writes mc bucket up \<longleftrightarrow>
     (\<forall>key data s. case mc_put mc key data s of (s', r) \<Rightarrow> (up s' \<longleftrightarrow> up s)
        \<and> (bucket s' = bucket s \<and> r \<noteq> None \<or> bucket s key = None \<and> bucket s' = (bucket s)(key \<mapsto> data)))
     \<and> (\<forall>key s. case mc_remove mc key s of (s', r) \<Rightarrow> (up s' \<longleftrightarrow> up s)
        \<and> (bucket s' = bucket s \<and> r \<noteq> None \<or> bucket s' = (bucket s)(key := None)))"

definition s3_lists :: "'s s3_client \<Rightarrow> ('s \<Rightarrow> string \<Rightarrow> bytes option) \<Rightarrow> ('s \<Rightarrow> bool) \<Rightarrow> bool" where
  "s3_lists mc bucket up \<longleftrightarrow>
     (\<forall>p s. case mc_list mc p s of (s', keys, failed) \<Rightarrow> bucket s' = bucket s \<and> (up s' \<longleftrightarrow> up s)
        \<and> (\<forall>key\<in>set keys. has_prefix key p \<and> bucket s key \<noteq> None))"

definition s3_service :: "'s s3_client \<Rightarrow> ('s \<Rightarrow> string \<Rightarrow> bytes option) \<Rightarrow> ('s \<Rightarrow> bool) \<Rightarrow> bool" where
  "s3_service mc bucket up \<longleftrightarrow> s3_reads mc bucket up \<and> s3_writes mc bucket up \<and> s3_lists mc bucket up"

lemma s3_service_open:
  assumes "s3_service mc bucket up" and "mc_open mc key s = (s', r)"
  shows "bucket s' = bucket s \<and> (up s' \<longleftrightarrow> up s)
    \<and> (case r of Inr (data, fails) \<Rightarrow> bucket s key = Some data \<and> (up s \<longrightarrow> \<not> fails) | Inl e \<Rightarrow> up s \<longrightarrow> bucket s key = None)"
proof -
  have "s3_reads mc bucket up" using assms(1) by (simp add: s3_service_def)
  from this [unfolded s3_reads_def, THEN spec [of _ key], THEN spec [of _ s]] assms(2) show ?thesis by simp
qed

lemma s3_service_put:
  assumes "s3_service mc bucket up" and "mc_put mc key data s = (s', r)"
  shows "up s' \<longleftrightarrow> up s" and "bucket s' = bucket s \<and> r \<noteq> None \<or> bucket s key = None \<and> bucket s' = (bucket s)(key \<mapsto> data)"
proof -
  have "s3_writes mc bucket up" using assms(1) by (simp add: s3_service_def)
  from this [unfolded s3_writes_def, THEN conjunct1, THEN spec [of _ key], THEN spec [of _ data], THEN spec [of _ s]] assms(2)
  show "up s' \<longleftrightarrow> up s" "bucket s' = bucket s \<and> r \<noteq> None \<or> bucket s key = None \<and> bucket s' = (bucket s)(key \<mapsto> data)"
    by simp_all
qed

lemma s3_service_list:
  assumes "s3_service mc bucket up" and "mc_list mc p s = (s', keys, failed)"
  shows "bucket s' = bucket s" and "up s' \<longleftrightarrow> up s" and "\<forall>key\<in>set keys. has_prefix key p \<and> bucket s key \<noteq> None"
proof -
  have "s3_lists mc bucket up" using assms(1) by (simp add: s3_service_def)
  from this [unfolded s3_lists_def, THEN spec [of _ p], THEN spec [of _ s]] assms(2)
  show "bucket s' = bucket s" "up s' \<longleftrightarrow> up s" "\<forall>key\<in>set keys. has_prefix key p \<and> bucket s key \<noteq> None"
    by simp_all
qed

lemma s3_service_remove:
  assumes "s3_service mc bucket up" and "mc_remove mc key s = (s', r)"
  shows "up s' \<longleftrightarrow> up s" and "bucket s' = bucket s \<and> r \<noteq> None \<or> bucket s' = (bucket s)(key := None)"
proof -
  have "s3_writes mc bucket up" using assms(1) by (simp add: s3_service_def)
  from this [unfolded s3_writes_def, THEN conjunct2, THEN spec [of _ key], THEN spec [of _ s]] assms(2)
  show "up s' \<longleftrightarrow> up s" "bucket s' = bucket s \<and> r \<noteq> None \<or> bucket s' = (bucket s)(key := None)"
    by simp_all
qed

text \<open>What a bucket holds, and that everything with the name of an object was written by \<open>Publish\<close>.\<close>

definition s3_view :: "digest_lib \<Rightarrow> string \<Rightarrow> (string \<Rightarrow> bytes option) \<Rightarrow> obj_key \<Rightarrow> (bytes \<times> bytes list) option" where
  "s3_view dl pre b = (\<lambda>(k, sc, rv).
     case obj_name dl k sc rv of
       Inl e \<Rightarrow> None
     | Inr name \<Rightarrow> (case b (s3_key pre name) of None \<Rightarrow> None | Some data \<Rightarrow> parse_frame dl data rv))"

definition s3_inv :: "digest_lib \<Rightarrow> string \<Rightarrow> (string \<Rightarrow> bytes option) \<Rightarrow> bool" where
  "s3_inv dl pre b \<longleftrightarrow> digest_lib_ok dl \<and>
     (\<forall>k sc rv name data. obj_name dl k sc rv = Inr name \<longrightarrow> b (s3_key pre name) = Some data \<longrightarrow>
        (\<exists>obj. validate_object dl obj = Inr () \<and> obj_key obj = (k, sc, rv) \<and> data = frame obj))"

lemma s3_key_inject [simp]: "s3_key pre n = s3_key pre m \<longleftrightarrow> n = m"
  by (simp add: s3_key_def)

lemma s3_object:
  assumes "s3_inv dl pre b" and "obj_name dl k sc rv = Inr name" and "b (s3_key pre name) = Some data"
  obtains obj l where "validate_object dl obj = Inr ()" "obj_key obj = (k, sc, rv)" "data = frame obj"
    "read_head dl data rv = Inr (ob_head obj, l)" "s3_view dl pre b (k, sc, rv) = Some (obj_parts obj)"
    "length data \<le> max_frame_bytes"
proof -
  obtain obj where obj: "validate_object dl obj = Inr ()" "obj_key obj = (k, sc, rv)" "data = frame obj"
    using assms unfolding s3_inv_def by blast
  then have "ob_rv obj = rv" by (simp add: obj_key_def)
  then show thesis
    using that [OF obj] obj assms(2,3) read_head_frame [OF obj(1)] length_frame [OF obj(1)]
    by (auto simp: s3_view_def parse_frame_valid)
qed

lemma s3_view_put:
  assumes "s3_inv dl pre b" and "validate_object dl obj = Inr ()"
    and "obj_name dl (ob_kind obj) (ob_scope obj) (ob_rv obj) = Inr name"
  defines "b' \<equiv> b(s3_key pre name \<mapsto> frame obj)"
  shows "s3_view dl pre b' = (s3_view dl pre b)(obj_key obj \<mapsto> obj_parts obj)" and "s3_inv dl pre b'"
proof -
  have ok: "digest_lib_ok dl"
    using assms(1) by (simp add: s3_inv_def)
  have uniq: "(k, sc, rv) = obj_key obj" if "obj_name dl k sc rv = Inr name" for k sc rv
    using obj_key_unique [OF ok assms(3) that] by (simp add: obj_key_def)
  show "s3_view dl pre b' = (s3_view dl pre b)(obj_key obj \<mapsto> obj_parts obj)"
  proof (rule ext)
    fix key :: obj_key
    obtain k sc rv where key: "key = (k, sc, rv)" by (rule prod_cases3)
    show "s3_view dl pre b' key = ((s3_view dl pre b)(obj_key obj \<mapsto> obj_parts obj)) key"
    proof (cases "obj_name dl k sc rv = Inr name")
      case True
      with uniq key have "key = obj_key obj" "rv = ob_rv obj" by (auto simp: obj_key_def)
      with True key show ?thesis
        by (simp add: s3_view_def b'_def parse_frame_valid [OF assms(2)])
    next
      case False
      then have "key \<noteq> obj_key obj"
        using assms(3) key by (auto simp: obj_key_def)
      with False key show ?thesis
        by (auto simp: s3_view_def b'_def split: sum.split)
    qed
  qed
  show "s3_inv dl pre b'"
    using assms(1,2) uniq unfolding s3_inv_def b'_def by (auto split: if_splits)
qed

lemma s3_view_del:
  assumes "s3_inv dl pre b" and "obj_name dl k sc rv = Inr name"
  shows "s3_view dl pre (b(s3_key pre name := None)) = (s3_view dl pre b)((k, sc, rv) := None)"
    and "s3_inv dl pre (b(s3_key pre name := None))"
proof -
  have ok: "digest_lib_ok dl"
    using assms(1) by (simp add: s3_inv_def)
  show "s3_view dl pre (b(s3_key pre name := None)) = (s3_view dl pre b)((k, sc, rv) := None)"
  proof (rule ext)
    fix key :: obj_key
    obtain k' sc' rv' where key: "key = (k', sc', rv')" by (rule prod_cases3)
    show "s3_view dl pre (b(s3_key pre name := None)) key = ((s3_view dl pre b)((k, sc, rv) := None)) key"
    proof (cases "obj_name dl k' sc' rv' = Inr name")
      case True
      then have "(k', sc', rv') = (k, sc, rv)"
        using obj_key_unique [OF ok assms(2)] by blast
      with True key show ?thesis by (simp add: s3_view_def)
    next
      case False
      then have "(k', sc', rv') \<noteq> (k, sc, rv)"
        using assms(2) by auto
      with False key show ?thesis
        by (auto simp: s3_view_def split: sum.split)
    qed
  qed
  show "s3_inv dl pre (b(s3_key pre name := None))"
    using assms(1) unfolding s3_inv_def by (auto split: if_splits)
qed

lemma s3_open_cases:
  assumes "s3_service mc bucket up" and "s3_inv dl pre (bucket s)" and "obj_name dl k sc rv = Inr name"
    and "s3_open mc pre name s = (s', r)"
  shows "bucket s' = bucket s \<and> (up s' \<longleftrightarrow> up s)
    \<and> (case r of
         Inl e \<Rightarrow> up s \<longrightarrow> s3_view dl pre (bucket s) (k, sc, rv) = None
       | Inr (data, fails) \<Rightarrow> (up s \<longrightarrow> \<not> fails)
           \<and> (\<exists>obj l. validate_object dl obj = Inr () \<and> obj_key obj = (k, sc, rv) \<and> data = frame obj
                \<and> read_head dl data rv = Inr (ob_head obj, l) \<and> s3_view dl pre (bucket s) (k, sc, rv) = Some (obj_parts obj)))"
proof -
  obtain s1 got where o: "mc_open mc (s3_key pre name) s = (s1, got)" by (rule prod.exhaust)
  note law = s3_service_open [OF assms(1) o]
  show ?thesis
  proof (cases got)
    case (Inl e)
    then have "s' = s1" "r = Inl (s3_err e)"
      using assms(4) o by (simp_all add: s3_open_def)
    then show ?thesis using law Inl assms(3) by (auto simp: s3_view_def)
  next
    case (Inr df)
    then obtain data fails where df: "got = Inr (data, fails)" by (cases df) simp
    then have b: "bucket s (s3_key pre name) = Some data" using law by simp
    obtain obj l where obj: "validate_object dl obj = Inr ()" "obj_key obj = (k, sc, rv)" "data = frame obj"
      "read_head dl data rv = Inr (ob_head obj, l)" "s3_view dl pre (bucket s) (k, sc, rv) = Some (obj_parts obj)"
      "length data \<le> max_frame_bytes"
      using s3_object [OF assms(2,3) b] by blast
    then have "s' = s1" "r = Inr (data, fails)"
      using assms(4) o df by (simp_all add: s3_open_def)
    then show ?thesis using law df obj by auto
  qed
qed

lemma s3_fetch_cases:
  assumes "s3_service mc bucket up" and "s3_inv dl pre (bucket s)" and "s3_fetch_head dl mc pre k sc rv s = (s', r)"
  shows "bucket s' = bucket s \<and> (up s' \<longleftrightarrow> up s)
    \<and> (case r of
         Inl e \<Rightarrow> up s \<longrightarrow> s3_view dl pre (bucket s) (k, sc, rv) = None
       | Inr h \<Rightarrow> dl_from_bytes dl h = rv \<and> (\<exists>bs. s3_view dl pre (bucket s) (k, sc, rv) = Some (h, bs)))"
proof (cases "obj_name dl k sc rv")
  case (Inl e)
  then have "s' = s" "r = Inl e" using assms(3) by (simp_all add: s3_fetch_head_def)
  then show ?thesis using Inl by (simp add: s3_view_def)
next
  case (Inr name)
  obtain s1 got where o: "s3_open mc pre name s = (s1, got)" by (rule prod.exhaust)
  show ?thesis
    using s3_open_cases [OF assms(1,2) Inr o] assms(3) Inr o
    by (auto simp: s3_fetch_head_def s3_read_head_def obj_parts_def split: sum.splits prod.splits if_splits dest: read_head_rv)
qed

lemma s3_open_blob_cases:
  assumes "s3_service mc bucket up" and "s3_inv dl pre (bucket s)" and "s3_open_blob dl mc pre k sc rv i s = (s', r)"
  shows "bucket s' = bucket s \<and> (up s' \<longleftrightarrow> up s)
    \<and> (case r of
         Inl e \<Rightarrow> up s \<longrightarrow> (\<forall>h bs. s3_view dl pre (bucket s) (k, sc, rv) = Some (h, bs) \<longrightarrow> \<not> (0 \<le> i \<and> i < int (length bs)))
       | Inr b \<Rightarrow> \<exists>h bs. s3_view dl pre (bucket s) (k, sc, rv) = Some (h, bs) \<and> 0 \<le> i \<and> i < int (length bs) \<and> b = bs ! nat i)"
proof (cases "obj_name dl k sc rv")
  case (Inl e)
  then have "s' = s" "r = Inl e" using assms(3) by (simp_all add: s3_open_blob_def)
  then show ?thesis using Inl by (simp add: s3_view_def)
next
  case (Inr name)
  obtain s1 got where o: "s3_open mc pre name s = (s1, got)" by (rule prod.exhaust)
  have sec: "blob_section (frame obj) l i =
      (if 0 \<le> i \<and> i < int (length (ob_blobs obj)) then Inr (ob_blobs obj ! nat i) else Inl SNotFound)"
    if "validate_object dl obj = Inr ()" "read_head dl (frame obj) (ob_rv obj) = Inr (ob_head obj, l)" for obj l
    using read_head_parse [OF that(2)] parse_frame_valid [OF that(1)] by (auto simp: obj_parts_def)
  show ?thesis
  proof (cases got)
    case (Inl e)
    then show ?thesis
      using s3_open_cases [OF assms(1,2) Inr o] assms(3) Inr o by (auto simp: s3_open_blob_def)
  next
    case got: (Inr df)
    obtain data fails where df: "df = (data, fails)" by (rule prod.exhaust)
    obtain obj l where obj: "validate_object dl obj = Inr ()" "obj_key obj = (k, sc, rv)" "data = frame obj"
      "read_head dl data rv = Inr (ob_head obj, l)" "s3_view dl pre (bucket s) (k, sc, rv) = Some (obj_parts obj)"
      "bucket s1 = bucket s" "up s1 \<longleftrightarrow> up s" "up s \<longrightarrow> \<not> fails"
      using s3_open_cases [OF assms(1,2) Inr o] got df by auto
    have rv: "ob_rv obj = rv" using obj(2) by (simp add: obj_key_def)
    have r: "s' = s1" "r = (if fails then Inl SBackend else blob_section (frame obj) l i)"
      using assms(3) Inr o got df obj(3,4) by (auto simp: s3_open_blob_def s3_read_head_def)
    show ?thesis
      using r sec [OF obj(1), of l] obj rv by (auto simp: obj_parts_def)
  qed
qed

lemma s3_publish_cases:
  assumes "s3_service mc bucket up" and "s3_inv dl pre (bucket s)" and "s3_publish dl mc pre obj s = (s', r)"
  defines "view \<equiv> \<lambda>s. s3_view dl pre (bucket s)"
  shows "s3_inv dl pre (bucket s')" and "up s' \<longleftrightarrow> up s"
    and "view s' = view s \<or> view s' = (view s)(obj_key obj \<mapsto> obj_parts obj)"
    and "r = Inr u \<Longrightarrow> validate_object dl obj = Inr () \<and> view s' = (view s)(obj_key obj \<mapsto> obj_parts obj)"
proof -
  have "s3_inv dl pre (bucket s') \<and> (up s' \<longleftrightarrow> up s)
      \<and> (view s' = view s \<and> (r = Inr () \<longrightarrow> validate_object dl obj = Inr () \<and> view s (obj_key obj) = Some (obj_parts obj))
         \<or> validate_object dl obj = Inr () \<and> view s' = (view s)(obj_key obj \<mapsto> obj_parts obj))"
  proof (cases "validate_object dl obj")
    case (Inl e)
    then have "s' = s" "r = Inl e" using assms(3) by (simp_all add: s3_publish_def)
    then show ?thesis using assms(2) by simp
  next
    case (Inr u)
    then have ok: "validate_object dl obj = Inr ()" by simp
    then obtain name where n: "obj_name dl (ob_kind obj) (ob_scope obj) (ob_rv obj) = Inr name"
      by (rule obj_name_of_valid)
    let ?key = "s3_key pre name"
    obtain s1 failed where p: "mc_put mc ?key (frame obj) s = (s1, failed)" by (rule prod.exhaust)
    note put = s3_service_put [OF assms(1) p]
    have key: "(ob_kind obj, ob_scope obj, ob_rv obj) = obj_key obj" by (simp add: obj_key_def)
    have one: "s3_inv dl pre (bucket s1) \<and> (view s1 = view s \<and> failed \<noteq> None \<or> view s1 = (view s)(obj_key obj \<mapsto> obj_parts obj))"
      using put(2) s3_view_put [OF assms(2) ok n] assms(2) by (auto simp: view_def)
    obtain s2 got where o: "s3_open mc pre name s1 = (s2, got)" by (rule prod.exhaust)
    note opened = s3_open_cases [OF assms(1) conjunct1 [OF one] n o, unfolded key]
    have rest: "view s1 (obj_key obj) = Some (obj_parts obj)" if got: "got = Inr (frame obj, fails)" for fails
    proof -
      obtain o' where o': "validate_object dl o' = Inr ()" "obj_key o' = obj_key obj" "frame obj = frame o'"
        "s3_view dl pre (bucket s1) (obj_key obj) = Some (obj_parts o')"
        using opened [unfolded got] by auto
      then have "ob_rv o' = ob_rv obj" by (simp add: obj_key_def)
      then have "obj_parts o' = obj_parts obj"
        using parse_frame_valid [OF ok] parse_frame_valid [OF o'(1)] o'(3) by simp
      then show ?thesis using o'(4) by (simp add: view_def)
    qed
    show ?thesis
    proof (cases failed)
      case None
      then have "s' = s2"
        using assms(3) ok n p o by (auto simp: s3_publish_def Let_def split: sum.splits)
      moreover have "bucket s2 = bucket s1" "up s2 \<longleftrightarrow> up s1"
        using opened by blast+
      ultimately show ?thesis using one put(1) ok None by (simp add: view_def)
    next
      case (Some e)
      show ?thesis
      proof (cases "is_exists e")
        case False
        then have "s' = s1 \<and> r = Inl (s3_err e)"
          using assms(3) ok n p Some by (simp add: s3_publish_def Let_def)
        then show ?thesis using one put(1) ok by (auto simp: view_def)
      next
        case True
        then have "s' = s2 \<and> (r = Inr () \<longrightarrow> (\<exists>fails. got = Inr (frame obj, fails)))"
          using assms(3) ok n p o Some by (auto simp: s3_publish_def s3_read_all_def Let_def split: sum.splits if_splits)
        moreover have "bucket s2 = bucket s1" "up s2 \<longleftrightarrow> up s1"
          using opened by blast+
        moreover have "view s2 = view s1" using \<open>bucket s2 = bucket s1\<close> by (simp add: view_def)
        ultimately show ?thesis using one put(1) ok rest by metis
      qed
    qed
  qed
  note cases = this
  show "s3_inv dl pre (bucket s')" and "up s' \<longleftrightarrow> up s"
    and "view s' = view s \<or> view s' = (view s)(obj_key obj \<mapsto> obj_parts obj)"
    using cases by blast+
  show "validate_object dl obj = Inr () \<and> view s' = (view s)(obj_key obj \<mapsto> obj_parts obj)" if "r = Inr u"
  proof -
    have "r = Inr ()" using that by simp
    moreover have "(view s)(obj_key obj \<mapsto> obj_parts obj) = view s" if "view s (obj_key obj) = Some (obj_parts obj)"
      using that by (rule fun_upd_idem)
    ultimately show ?thesis using cases by metis
  qed
qed

lemma s3_delete_cases:
  assumes "s3_service mc bucket up" and "s3_inv dl pre (bucket s)" and "s3_delete dl mc pre k sc rv s = (s', r)"
  defines "view \<equiv> \<lambda>s. s3_view dl pre (bucket s)"
  shows "s3_inv dl pre (bucket s') \<and> (up s' \<longleftrightarrow> up s)
    \<and> (view s' = view s \<and> r \<noteq> Inr () \<or> view s' = (view s)((k, sc, rv) := None))"
proof (cases "obj_name dl k sc rv")
  case (Inl e)
  then have "s' = s" "r = Inl e" using assms(3) by (simp_all add: s3_delete_def)
  then show ?thesis using assms(2) by simp
next
  case (Inr name)
  obtain s1 failed where d: "mc_remove mc (s3_key pre name) s = (s1, failed)" by (rule prod.exhaust)
  have "s' = s1" "r = Inr () \<longleftrightarrow> failed = None"
    using assms(3) Inr d by (auto simp: s3_delete_def split: option.splits)
  then show ?thesis
    using s3_service_remove [OF assms(1) d] s3_view_del [OF assms(2) Inr] assms(2) by (auto simp: view_def)
qed

lemma trim_prefix_append:
  assumes "has_prefix key (b @ p)"
  shows "b @ trim_prefix key b = key"
proof -
  have "take (length b) (take (length b + length p) key) = take (length b) (b @ p)"
    using assms by (simp add: has_prefix_def)
  then have "take (length b) key = b" by (simp add: min_def)
  then show ?thesis
    using append_take_drop_id [of "length b" key] by (simp add: trim_prefix_def has_prefix_def)
qed

lemma s3_discover_cases:
  assumes "s3_service mc bucket up" and "s3_inv dl pre (bucket s)" and "s3_discover dl mc pre k sc s = (s', r)"
  shows "bucket s' = bucket s \<and> (up s' \<longleftrightarrow> up s)
    \<and> (\<forall>rvs. r = Inr rvs \<longrightarrow> (\<forall>rv\<in>set rvs. s3_view dl pre (bucket s) (k, sc, rv) \<noteq> None))"
proof (cases "name_prefix k sc")
  case (Inl e)
  then show ?thesis using assms(3) by (auto simp: s3_discover_def)
next
  case (Inr p)
  let ?base = "s3_key pre []"
  obtain s1 keys failed where l: "mc_list mc (?base @ p) s = (s1, keys, failed)" by (rule prod_cases3)
  note law = s3_service_list [OF assms(1) l]
  have s': "s' = s1" using assms(3) Inr l by (simp add: s3_discover_def Let_def)
  have ok: "digest_lib_ok dl" using assms(2) by (simp add: s3_inv_def)
  have "s3_view dl pre (bucket s) (k, sc, rv) \<noteq> None" if r: "r = Inr rvs" "rv \<in> set rvs" for rvs rv
  proof -
    obtain ls where "discover_loop dl k p (map (\<lambda>key. trim_prefix key ?base) keys) [] = Inr ls" "set rvs = set ls"
      using assms(3) Inr l r(1) by (auto simp: s3_discover_def Let_def res_simps split: option.splits if_splits)
    then obtain key where key: "key \<in> set keys" "rev_from_name dl p (trim_prefix key ?base) = Some rv"
      using set_discover_loop r(2) by fastforce
    have pre: "has_prefix key (?base @ p)" "bucket s key \<noteq> None" using law(3) key(1) by auto
    then have name: "key = s3_key pre (trim_prefix key ?base)"
      using trim_prefix_append [of key ?base p] by (simp add: s3_key_def)
    have n: "obj_name dl k sc rv = Inr (trim_prefix key ?base)"
      by (rule rev_from_name_object [OF ok Inr key(2)])
    obtain data where "bucket s (s3_key pre (trim_prefix key ?base)) = Some data" using pre(2) name by auto
    then show ?thesis using s3_object [OF assms(2) n] by blast
  qed
  then show ?thesis using law s' by blast
qed

lemma s3_view_named:
  assumes "s3_inv dl pre b" and "s3_view dl pre b (k, sc, rv) = Some (h, bs)"
  shows "dl_from_bytes dl h = rv \<and> validate_ref dl k sc rv = Inr ()"
proof -
  obtain name where n: "obj_name dl k sc rv = Inr name"
    using assms(2) by (cases "obj_name dl k sc rv") (auto simp: s3_view_def)
  then obtain data where d: "b (s3_key pre name) = Some data"
    using assms(2) by (cases "b (s3_key pre name)") (auto simp: s3_view_def)
  obtain obj l where "read_head dl data rv = Inr (ob_head obj, l)" "s3_view dl pre b (k, sc, rv) = Some (obj_parts obj)"
    using s3_object [OF assms(1) n d] by blast
  then show ?thesis
    using assms(2) n by (auto simp: obj_parts_def obj_name_Inr dest: read_head_rv)
qed

lemma s3_contract:
  assumes s: "s3_service mc bucket up"
  shows "store_contract dl (s3_ops dl mc pre) (\<lambda>s. s3_inv dl pre (bucket s)) (\<lambda>s. s3_view dl pre (bucket s)) up"
proof (unfold_locales, goal_cases)
  case (1 st k sc rv h bs)
  then show ?case by (rule s3_view_named)
next
  case (2 st obj st' r)
  then show ?case
    using s3_publish_cases(1,2) [OF s, of dl pre st obj st' r] by (simp add: s3_ops_def)
next
  case (3 st obj st' u)
  then show ?case
    using s3_publish_cases(4) [OF s, of dl pre st obj st' "Inr u" u] by (simp add: s3_ops_def)
next
  case (4 st obj st' e)
  then show ?case
    using s3_publish_cases(3) [OF s, of dl pre st obj st' "Inl e"] by (simp add: s3_ops_def)
next
  case (5 st k sc rv st' r)
  then show ?case
    using s3_fetch_cases [OF s, of dl pre st k sc rv st' r] by (simp add: s3_ops_def)
next
  case (6 st k sc rv st' h)
  then show ?case
    using s3_fetch_cases [OF s, of dl pre st k sc rv st' "Inr h"] by (auto simp: s3_ops_def)
next
  case (7 st k sc rv st' e)
  then show ?case
    using s3_fetch_cases [OF s, of dl pre st k sc rv st' "Inl e"] by (auto simp: s3_ops_def)
next
  case (8 st k sc rv i st' r)
  then show ?case
    using s3_open_blob_cases [OF s, of dl pre st k sc rv i st' r] by (simp add: s3_ops_def)
next
  case (9 st k sc rv i st' b)
  then show ?case
    using s3_open_blob_cases [OF s, of dl pre st k sc rv i st' "Inr b"] by (auto simp: s3_ops_def)
next
  case (10 st k sc rv i st' e h bs)
  then show ?case
    using s3_open_blob_cases [OF s, of dl pre st k sc rv i st' "Inl e"] by (auto simp: s3_ops_def)
next
  case (11 st k sc st' r)
  then show ?case
    using s3_discover_cases [OF s, of dl pre st k sc st' r] by (simp add: s3_ops_def)
next
  case (12 st k sc st' rvs)
  then show ?case
    using s3_discover_cases [OF s, of dl pre st k sc st' "Inr rvs"] by (simp add: s3_ops_def)
next
  case (13 st k sc rv st' r)
  then show ?case
    using s3_delete_cases [OF s, of dl pre st k sc rv st' r] by (simp add: s3_ops_def)
next
  case (14 st k sc rv st' u)
  then show ?case
    using s3_delete_cases [OF s, of dl pre st k sc rv st' "Inr u"] by (simp add: s3_ops_def)
next
  case (15 st k sc rv st' e)
  then show ?case
    using s3_delete_cases [OF s, of dl pre st k sc rv st' "Inl e"] by (auto simp: s3_ops_def)
qed

text \<open>
  C32: an S3 bucket is a map of whole objects.  Over a service that behaves as documented, and with nothing under the names of
  objects but what \<open>Publish\<close> wrote: a successful \<open>Publish\<close> adds exactly the object, even when a lost answer made it
  run twice, and a failed one adds it whole or not at all; \<open>FetchHead\<close> returns exactly the head of an object that is there,
  and fails for one that is there only while the service is not reachable; \<open>Discover\<close> lists only what is there; \<open>Delete\<close>
  removes exactly its object, and one that fails may have removed it.
\<close>

theorem s3_refines_map:
  assumes "s3_service mc bucket up" and "s3_inv dl pre (bucket s)"
  defines "view \<equiv> \<lambda>s. s3_view dl pre (bucket s)"
  shows "(\<forall>obj s' r. s3_publish dl mc pre obj s = (s', r) \<longrightarrow> s3_inv dl pre (bucket s')
        \<and> (r = Inr () \<longrightarrow> view s' = (view s)(obj_key obj \<mapsto> obj_parts obj))
        \<and> (view s' = view s \<or> view s' = (view s)(obj_key obj \<mapsto> obj_parts obj)))
    \<and> (\<forall>k sc rv s' h. s3_fetch_head dl mc pre k sc rv s = (s', Inr h) \<longrightarrow>
        view s' = view s \<and> dl_from_bytes dl h = rv \<and> (\<exists>bs. view s (k, sc, rv) = Some (h, bs)))
    \<and> (\<forall>k sc rv s' e. s3_fetch_head dl mc pre k sc rv s = (s', Inl e) \<longrightarrow> up s \<longrightarrow> view s (k, sc, rv) = None)
    \<and> (\<forall>k sc s' rvs. s3_discover dl mc pre k sc s = (s', Inr rvs) \<longrightarrow> (\<forall>rv\<in>set rvs. view s (k, sc, rv) \<noteq> None))
    \<and> (\<forall>k sc rv s' r. s3_delete dl mc pre k sc rv s = (s', r) \<longrightarrow> s3_inv dl pre (bucket s')
        \<and> (r = Inr () \<longrightarrow> view s' = (view s)((k, sc, rv) := None))
        \<and> (view s' = view s \<or> view s' = (view s)((k, sc, rv) := None)))"
proof (intro conjI allI impI ballI)
  note contract = s3_contract [OF assms(1), of dl pre]
  note pub = s3_publish_cases [OF assms(1,2)] and del = s3_delete_cases [OF assms(1,2)]
  show "s3_inv dl pre (bucket s')" if "s3_publish dl mc pre obj s = (s', r)" for obj s' r
    by (rule pub(1) [OF that])
  show "view s' = (view s)(obj_key obj \<mapsto> obj_parts obj)" if "s3_publish dl mc pre obj s = (s', r)" "r = Inr ()" for obj s' r
    using pub(4) [OF that] by (simp add: view_def)
  show "view s' = view s \<or> view s' = (view s)(obj_key obj \<mapsto> obj_parts obj)" if "s3_publish dl mc pre obj s = (s', r)" for obj s' r
    using pub(3) [OF that] by (simp add: view_def)
  show "view s' = view s" "dl_from_bytes dl h = rv" "\<exists>bs. view s (k, sc, rv) = Some (h, bs)"
    if "s3_fetch_head dl mc pre k sc rv s = (s', Inr h)" for k sc rv s' h
    using s3_fetch_cases [OF assms(1,2) that] by (auto simp: view_def)
  show "view s (k, sc, rv) = None" if "s3_fetch_head dl mc pre k sc rv s = (s', Inl e)" "up s" for k sc rv s' e
    using s3_fetch_cases [OF assms(1,2) that(1)] that(2) by (auto simp: view_def)
  show "view s (k, sc, rv) \<noteq> None" if "s3_discover dl mc pre k sc s = (s', Inr rvs)" "rv \<in> set rvs" for k sc s' rvs rv
    using s3_discover_cases [OF assms(1,2) that(1)] that(2) by (auto simp: view_def)
  show "s3_inv dl pre (bucket s')" if "s3_delete dl mc pre k sc rv s = (s', r)" for k sc rv s' r
    using del [OF that] by blast
  show "view s' = (view s)((k, sc, rv) := None)" if "s3_delete dl mc pre k sc rv s = (s', r)" "r = Inr ()" for k sc rv s' r
    using del [OF that(1)] that(2) by (simp add: view_def)
  show "view s' = view s \<or> view s' = (view s)((k, sc, rv) := None)" if "s3_delete dl mc pre k sc rv s = (s', r)" for k sc rv s' r
    using del [OF that] by (auto simp: view_def)
qed

text \<open>A bucket in memory; with \<open>True\<close>, the answer to a removal is lost.\<close>

definition sample_s3 :: "((string, bytes) gomap \<times> bool) s3_client" where
  "sample_s3 = \<lparr>
     mc_open = (\<lambda>key (m, lost). ((m, lost), case gm_get m key of None \<Rightarrow> Inl (S3Code ''NoSuchKey'') | Some d \<Rightarrow> Inr (d, False))),
     mc_put = (\<lambda>key d (m, lost). if gm_has m key then ((m, lost), Some (S3Code ''PreconditionFailed'')) else ((gm_put key d m, lost), None)),
     mc_list = (\<lambda>p (m, lost). ((m, lost), filter (\<lambda>n. has_prefix n p) (map fst m), None)),
     mc_remove = (\<lambda>key (m, lost). ((gm_del key m, lost), if lost then Some S3Failed else None)),
     mc_done = (\<lambda>_. False)\<rparr>"

definition sample_bucket :: "(string, bytes) gomap \<times> bool \<Rightarrow> string \<Rightarrow> bytes option" where
  "sample_bucket s = gm_get (fst s)"

lemma sample_s3_service: "s3_service sample_s3 sample_bucket (\<lambda>_. True)"
  by (auto simp: s3_service_def s3_reads_def s3_writes_def s3_lists_def sample_s3_def sample_bucket_def fun_eq_iff gm_has_get
      split: option.splits) (simp add: gm_get_is_map_of weak_map_of_SomeI)

lemma sample_bucket_inv: "s3_inv sample_digest_lib pre (sample_bucket ([], lost))"
  by (simp add: s3_inv_def sample_bucket_def sample_digest_lib_ok gm_get_def)

lemma sample_s3_publish:
  "\<exists>name. obj_name sample_digest_lib KindRequest [] (ob_rv sample_object) = Inr name
     \<and> s3_publish sample_digest_lib sample_s3 pre sample_object ([], lost)
         = (([(s3_key pre name, frame sample_object)], lost), Inr ())"
proof -
  obtain name where n: "obj_name sample_digest_lib (ob_kind sample_object) (ob_scope sample_object) (ob_rv sample_object) = Inr name"
    by (rule obj_name_of_valid [OF sample_object_valid])
  obtain l where "read_head sample_digest_lib (frame sample_object) (ob_rv sample_object) = Inr (ob_head sample_object, l)"
    using read_head_frame [OF sample_object_valid] by blast
  moreover have "gm_put (s3_key pre name) (frame sample_object) [] = [(s3_key pre name, frame sample_object)]"
    by (simp add: gm_put_fresh)
  ultimately have "s3_publish sample_digest_lib sample_s3 pre sample_object ([], lost)
      = (([(s3_key pre name, frame sample_object)], lost), Inr ())"
    using length_frame [OF sample_object_valid] sample_object_valid n
    by (simp add: s3_publish_def s3_open_def s3_read_head_def sample_s3_def Let_def gm_get_def)
  then show ?thesis using n by (simp add: sample_object_def)
qed

theorem s3_refines_map_witness:
  "\<exists>s1. s3_publish sample_digest_lib sample_s3 ''p'' sample_object ([], False) = (s1, Inr ())
     \<and> s3_view sample_digest_lib ''p'' (sample_bucket s1) (obj_key sample_object) = Some (''head'', [''ab'', ''c''])"
proof -
  obtain s1 where p: "s3_publish sample_digest_lib sample_s3 ''p'' sample_object ([], False) = (s1, Inr ())"
    using sample_s3_publish by blast
  from s3_refines_map [OF sample_s3_service sample_bucket_inv, THEN conjunct1, THEN spec, THEN spec, THEN spec, THEN mp, OF p]
  have "s3_view sample_digest_lib ''p'' (sample_bucket s1)
      = (s3_view sample_digest_lib ''p'' (sample_bucket ([], False)))(obj_key sample_object \<mapsto> obj_parts sample_object)"
    by blast
  then show ?thesis using p by (simp add: obj_parts_def sample_object_def)
qed

text \<open>
  The head cache needs a store that is told of the outcome.  Here the removal takes effect and its answer is lost: the store
  no longer has the revision, and the cache still answers for it.
\<close>

lemma cache_serves_removed:
  assumes n: "obj_name sample_digest_lib KindRequest [] (ob_rv sample_object) = Inr name"
  defines "ops \<equiv> s3_ops sample_digest_lib sample_s3 ''p''"
    and "c0 \<equiv> \<lparr>hc_store = ([(s3_key ''p'' name, frame sample_object)], True),
          hc_files = [(hc_path sample_digest_lib (ob_rv sample_object), ''head'')],
          hc_listed = [((KindRequest, []), [ob_rv sample_object])], hc_writable = True\<rparr>"
  shows "\<exists>c1 c2. hc_delete sample_digest_lib ops KindRequest [] (ob_rv sample_object) c0 = (c1, Inl SBackend)
     \<and> s3_view sample_digest_lib ''p'' (sample_bucket (hc_store c1)) (obj_key sample_object) = None
     \<and> hc_fetch_head sample_digest_lib ops KindRequest [] (ob_rv sample_object) c1 = (c2, Inr ''head'')"
proof -
  let ?c1 = "c0\<lparr>hc_store := ([], True)\<rparr>"
  have "validate_ref sample_digest_lib KindRequest [] (ob_rv sample_object) = Inr ()"
    using n by (simp add: obj_name_Inr)
  moreover have "dl_from_bytes sample_digest_lib ''head'' = ob_rv sample_object" by (simp add: sample_object_def)
  ultimately have "hc_fetch_head sample_digest_lib ops KindRequest [] (ob_rv sample_object) ?c1 = (?c1, Inr ''head'')"
    by (simp add: hc_fetch_head_def hc_read_def was_listed_def c0_def gm_get_def max_head_bytes_def Let_def)
  moreover have "hc_delete sample_digest_lib ops KindRequest [] (ob_rv sample_object) c0 = (?c1, Inl SBackend)"
    using n by (simp add: hc_delete_def c0_def ops_def s3_ops_def s3_delete_def sample_s3_def s3_err_def gm_del_def Let_def)
  moreover have "s3_view sample_digest_lib ''p'' (sample_bucket (hc_store ?c1)) (obj_key sample_object) = None"
    by (auto simp: s3_view_def sample_bucket_def obj_key_def split: sum.splits)
  ultimately show ?thesis by blast
qed

subsection \<open>What a registry acknowledged can be read\<close>

text \<open>A reader that is read to its end gives the bytes of the layer, or fails, however they come in pieces.\<close>

lemma verify_reader_Inr:
  "verify_reader dl d cs fails seen = Inr b \<longleftrightarrow>
     \<not> fails \<and> b = seen @ concat cs \<and> int (length b) = de_size d \<and> dl_from_bytes dl b = de_digest d"
proof (induction cs arbitrary: seen)
  case (Cons c cs)
  then show ?case by (auto simp: verify_read_def res_simps Let_def)
qed (auto simp: verify_read_def Let_def)

lemma fetch_limited_Inr:
  assumes "fetch_limited dl oc d limit s = (s', Inr b)"
  shows "length b \<le> limit \<and> int (length b) = de_size d \<and> dl_from_bytes dl b = de_digest d"
  using assms by (auto simp: fetch_limited_def Let_def split: prod.splits sum.splits if_splits)

lemma oci_manifest_Inr:
  assumes "oci_manifest dl oc k sc rv s = (s', Inr m)"
  shows "mf_layers m \<noteq> [] \<and> de_digest (mf_layers m ! 0) = rv"
  using assms by (auto simp: oci_manifest_def split: prod.splits sum.splits option.splits if_splits)

text \<open>Whatever a registry answers.\<close>

lemma oci_reads_checked:
  "oci_fetch_head dl oc k sc rv s = (s', Inr h) \<Longrightarrow> dl_from_bytes dl h = rv \<and> length h \<le> max_head_bytes"
  "oci_open_blob dl oc k sc rv i s = (s', Inr b) \<Longrightarrow> length b \<le> max_payload_bytes"
proof -
  show "dl_from_bytes dl h = rv \<and> length h \<le> max_head_bytes" if "oci_fetch_head dl oc k sc rv s = (s', Inr h)"
    using that oci_manifest_Inr [of dl oc k sc rv s] fetch_limited_Inr [of dl oc]
    by (auto simp: oci_fetch_head_def split: prod.splits sum.splits)
  show "length b \<le> max_payload_bytes" if "oci_open_blob dl oc k sc rv i s = (s', Inr b)"
    using that by (auto simp: oci_open_blob_def verify_reader_Inr Let_def split: prod.splits sum.splits if_splits)
qed

text \<open>
  The documented behaviour of a registry: reading changes nothing, a tag resolves to the descriptor it was given, a blob that
  exists is stored, and while the registry is \<open>up\<close> a tag resolves and stored content is read whole.  Content is addressed by
  its digest, and a descriptor a tag resolves to has its size.
\<close>

definition registry ::
  "digest_lib \<Rightarrow> 's oci_repo \<Rightarrow> ('s \<Rightarrow> string \<Rightarrow> descriptor option) \<Rightarrow> ('s \<Rightarrow> digest \<Rightarrow> bytes option) \<Rightarrow> ('s \<Rightarrow> bool) \<Rightarrow> bool" where
  "registry dl oc tags content up \<longleftrightarrow>
     (\<forall>t s. tags (fst (oc_resolve oc t s)) = tags s \<and> content (fst (oc_resolve oc t s)) = content s
        \<and> (up s \<longrightarrow> up (fst (oc_resolve oc t s)))
        \<and> (\<forall>d. snd (oc_resolve oc t s) = Inr d \<longrightarrow> tags s t = Some d)
        \<and> (\<forall>d. up s \<longrightarrow> tags s t = Some d \<longrightarrow> snd (oc_resolve oc t s) = Inr d))
     \<and> (\<forall>d s. tags (fst (oc_exists oc d s)) = tags s \<and> content (fst (oc_exists oc d s)) = content s
        \<and> (snd (oc_exists oc d s) = Inr True \<longrightarrow> content s (de_digest d) \<noteq> None))
     \<and> (\<forall>d s b. up s \<longrightarrow> content s (de_digest d) = Some b \<longrightarrow>
          (\<exists>s' chunks. oc_fetch oc d s = (s', Inr (chunks, False)) \<and> concat chunks = b
             \<and> tags s' = tags s \<and> content s' = content s \<and> up s'))
     \<and> (\<forall>s t d. tags s t = Some d \<longrightarrow> (\<exists>b. content s (de_digest d) = Some b \<and> de_size d = int (length b)))
     \<and> (\<forall>s dg b. content s dg = Some b \<longrightarrow> dl_from_bytes dl b = dg)"

lemma registry_resolve:
  assumes "registry dl oc tags content up" and "oc_resolve oc t s = (s', r)"
  shows "tags s' = tags s" and "content s' = content s" and "up s \<Longrightarrow> up s'" and "r = Inr d \<Longrightarrow> tags s t = Some d"
    and "up s \<Longrightarrow> tags s t = Some d \<Longrightarrow> r = Inr d"
proof -
  note law = assms(1) [unfolded registry_def, THEN conjunct1, THEN spec [of _ t], THEN spec [of _ s], unfolded assms(2) fst_conv snd_conv]
  show "tags s' = tags s" "content s' = content s" "up s \<Longrightarrow> up s'" "r = Inr d \<Longrightarrow> tags s t = Some d"
    "up s \<Longrightarrow> tags s t = Some d \<Longrightarrow> r = Inr d"
    using law by blast+
qed

lemma registry_exists:
  assumes "registry dl oc tags content up" and "oc_exists oc d s = (s', r)"
  shows "tags s' = tags s" and "content s' = content s" and "r = Inr True \<Longrightarrow> content s (de_digest d) \<noteq> None"
proof -
  note law = assms(1) [unfolded registry_def, THEN conjunct2, THEN conjunct1, THEN spec [of _ d], THEN spec [of _ s], unfolded assms(2) fst_conv snd_conv]
  show "tags s' = tags s" "content s' = content s" "r = Inr True \<Longrightarrow> content s (de_digest d) \<noteq> None"
    using law by blast+
qed

lemma registry_fetch:
  assumes "registry dl oc tags content up" and "up s" and "content s (de_digest d) = Some b"
  obtains s' chunks where "oc_fetch oc d s = (s', Inr (chunks, False))" and "concat chunks = b"
    and "tags s' = tags s" and "content s' = content s" and "up s'"
proof -
  note law = assms(1) [unfolded registry_def, THEN conjunct2, THEN conjunct2, THEN conjunct1, THEN spec [of _ d], THEN spec [of _ s],
      THEN spec [of _ b], THEN mp, OF assms(2), THEN mp, OF assms(3)]
  then show thesis using that by blast
qed

lemma registry_content:
  assumes "registry dl oc tags content up"
  shows "tags s t = Some d \<Longrightarrow> \<exists>b. content s (de_digest d) = Some b \<and> de_size d = int (length b)"
    and "content s dg = Some b \<Longrightarrow> dl_from_bytes dl b = dg"
  using assms unfolding registry_def by (elim conjE; blast)+

lemma check_blobs_Inr:
  assumes "registry dl oc tags content up" and "check_blobs oc ds s = (s', Inr u)"
  shows "tags s' = tags s \<and> content s' = content s \<and> (\<forall>d\<in>set ds. content s (de_digest d) \<noteq> None)"
  using assms(2)
proof (induction ds arbitrary: s)
  case (Cons d ds)
  obtain s1 where e: "oc_exists oc d s = (s1, Inr True)" "check_blobs oc ds s1 = (s', Inr u)"
    using Cons.prems by (auto split: prod.splits sum.splits bool.splits)
  show ?case
    using Cons.IH [OF e(2)] registry_exists [OF assms(1) e(1)] by auto
qed simp

lemma oci_acknowledge_Inr:
  assumes "registry dl oc tags content up" and "oci_acknowledge oc name md ds s = (s', Inr u)"
  shows "\<exists>d. tags s' name = Some d \<and> de_digest d = de_digest md" and "\<forall>d\<in>set ds. content s' (de_digest d) \<noteq> None"
proof -
  obtain s1 found where r: "oc_resolve oc name s = (s1, Inr found)" "de_digest found = de_digest md" "check_blobs oc ds s1 = (s', Inr u)"
    using assms(2) by (auto simp: oci_acknowledge_def split: prod.splits sum.splits if_splits)
  show "\<exists>d. tags s' name = Some d \<and> de_digest d = de_digest md" "\<forall>d\<in>set ds. content s' (de_digest d) \<noteq> None"
    using registry_resolve(1,4) [OF assms(1) r(1)] check_blobs_Inr [OF assms(1) r(3)] r(2) by auto
qed

lemma oci_publish_Inr:
  assumes "oci_publish dl oc obj s = (s', Inr u)"
  obtains name body s1 where "validate_object dl obj = Inr ()" and "obj_name dl (ob_kind obj) (ob_scope obj) (ob_rv obj) = Inr name"
    and "oc_marshal oc \<lparr>mf_config = config_descriptor dl, mf_layers = object_layers dl obj\<rparr> = Some body"
    and "oci_acknowledge oc name (blob_descriptor dl oci_manifest_media_type body) (config_descriptor dl # object_layers dl obj) s1 = (s', Inr u)"
  using assms by (auto simp: oci_publish_def manifest_for_def split: sum.splits prod.splits option.splits if_splits)

lemma fetch_limited_ok:
  assumes "registry dl oc tags content up" and "up s" and "content s (de_digest d) = Some b"
    and "de_size d = int (length b)" and "length b \<le> limit"
  obtains s' where "fetch_limited dl oc d limit s = (s', Inr b)" and "tags s' = tags s" and "content s' = content s" and "up s'"
proof -
  obtain s' chunks where f: "oc_fetch oc d s = (s', Inr (chunks, False))" "concat chunks = b"
    "tags s' = tags s" "content s' = content s" "up s'"
    using registry_fetch [OF assms(1,2,3)] by blast
  have "fetch_limited dl oc d limit s = (s', Inr b)"
    using assms(4,5) f(1,2) registry_content(2) [OF assms(1,3)] by (simp add: fetch_limited_def Let_def)
  then show thesis using that f(3,4,5) by blast
qed

lemma verify_reader_ok:
  assumes "registry dl oc tags content up" and "content s (de_digest d) = Some b" and "de_size d = int (length b)" and "concat cs = b"
  shows "verify_reader dl d cs False [] = Inr b"
  using assms(3,4) registry_content(2) [OF assms(1,2)] by (simp add: verify_reader_Inr)

text \<open>
  C33: what a registry acknowledged can be read.  When \<open>Publish\<close> has succeeded on a registry that behaves as documented, and
  while it is reachable, \<open>FetchHead\<close> gives the head and \<open>OpenBlob\<close> every blob of the object, however the registry cuts
  the content into pieces.  The manifest is one the reader accepts (at most 1 MiB, decoded as it was encoded), and no
  other content the registry holds has the digest of a part.
\<close>

theorem oci_acknowledged:
  assumes reg: "registry dl oc tags content up" and pub: "oci_publish dl oc obj s = (s', Inr ())" and up: "up s'"
    and codec: "\<And>body. oc_marshal oc \<lparr>mf_config = config_descriptor dl, mf_layers = object_layers dl obj\<rparr> = Some body \<Longrightarrow>
      length body \<le> max_head_bytes
      \<and> oc_unmarshal oc body = Some \<lparr>mf_config = config_descriptor dl, mf_layers = object_layers dl obj\<rparr>
      \<and> (\<forall>x\<in>set (body # ob_head obj # ob_blobs obj). \<forall>y. content s' (dl_from_bytes dl x) = Some y \<longrightarrow> y = x)"
  shows "(\<exists>s1. oci_fetch_head dl oc (ob_kind obj) (ob_scope obj) (ob_rv obj) s' = (s1, Inr (ob_head obj)))
    \<and> (\<forall>i<length (ob_blobs obj).
         \<exists>s1. oci_open_blob dl oc (ob_kind obj) (ob_scope obj) (ob_rv obj) (int i) s' = (s1, Inr (ob_blobs obj ! i)))"
proof -
  let ?m = "\<lparr>mf_config = config_descriptor dl, mf_layers = object_layers dl obj\<rparr>"
  obtain name body s0 where p: "validate_object dl obj = Inr ()"
    "obj_name dl (ob_kind obj) (ob_scope obj) (ob_rv obj) = Inr name" "oc_marshal oc ?m = Some body"
    "oci_acknowledge oc name (blob_descriptor dl oci_manifest_media_type body) (config_descriptor dl # object_layers dl obj) s0 = (s', Inr ())"
    using oci_publish_Inr [OF pub] by blast
  note v = validate_object_Inr [OF p(1)] and cod = codec [OF p(3)]
  have stored: "content s' (dl_from_bytes dl x) = Some x" if x: "x \<in> set (ob_head obj # ob_blobs obj)" for x
  proof -
    have "content s' (dl_from_bytes dl x) \<noteq> None"
      using oci_acknowledge_Inr(2) [OF reg p(4)] x by (auto simp: object_layers_def blob_descriptor_def)
    then obtain y where y: "content s' (dl_from_bytes dl x) = Some y" by blast
    then have "y = x" using cod x by auto
    then show ?thesis using y by simp
  qed
  obtain d where d: "tags s' name = Some d" "de_digest d = dl_from_bytes dl body"
    using oci_acknowledge_Inr(1) [OF reg p(4)] by (auto simp: blob_descriptor_def)
  then have dc: "content s' (de_digest d) = Some body" "de_size d = int (length body)"
    using registry_content(1) [OF reg d(1)] cod by auto
  obtain s1 where r: "oc_resolve oc name s' = (s1, Inr d)" "content s1 = content s'" "up s1"
    using registry_resolve [OF reg, of name s'] up d(1) by (metis prod.collapse)
  obtain s2 where f: "fetch_limited dl oc d max_head_bytes s1 = (s2, Inr body)" "content s2 = content s'" "up s2"
    using fetch_limited_ok [OF reg r(3), of d body] dc cod r(2) by (metis)
  have rv: "dl_from_bytes dl (ob_head obj) = ob_rv obj" using v by blast
  have m: "oci_manifest dl oc (ob_kind obj) (ob_scope obj) (ob_rv obj) s' = (s2, Inr ?m)"
    using p(2) r(1) f(1) cod rv v by (simp add: oci_manifest_def object_layers_def blob_descriptor_def)
  have "\<exists>s3. fetch_limited dl oc (blob_descriptor dl oci_head_media_type (ob_head obj)) max_head_bytes s2 = (s3, Inr (ob_head obj))"
    using fetch_limited_ok [OF reg f(3), of "blob_descriptor dl oci_head_media_type (ob_head obj)" "ob_head obj" max_head_bytes]
      stored [of "ob_head obj"] f(2) v by (auto simp: blob_descriptor_def)
  then have head: "\<exists>s3. oci_fetch_head dl oc (ob_kind obj) (ob_scope obj) (ob_rv obj) s' = (s3, Inr (ob_head obj))"
    using m by (simp add: oci_fetch_head_def object_layers_def)
  have blob: "\<exists>s3. oci_open_blob dl oc (ob_kind obj) (ob_scope obj) (ob_rv obj) (int i) s' = (s3, Inr (ob_blobs obj ! i))"
    if i: "i < length (ob_blobs obj)" for i
  proof -
    let ?d = "blob_descriptor dl oci_blob_media_type (ob_blobs obj ! i)"
    have c: "content s2 (de_digest ?d) = Some (ob_blobs obj ! i)"
      using stored [of "ob_blobs obj ! i"] i f(2) by (simp add: blob_descriptor_def)
    obtain s3 chunks where "oc_fetch oc ?d s2 = (s3, Inr (chunks, False))" "concat chunks = ob_blobs obj ! i"
      using registry_fetch [OF reg f(3) c] by blast
    moreover have "verify_reader dl ?d chunks False [] = Inr (ob_blobs obj ! i)"
      using calculation(2) by (intro verify_reader_ok [OF reg c]) (simp_all add: blob_descriptor_def)
    moreover have "nat (int i + 1) = Suc i" by simp
    moreover have "length (ob_blobs obj ! i) \<le> max_payload_bytes" using v i by simp
    moreover have "object_layers dl obj ! Suc i = ?d" "length (object_layers dl obj) = Suc (length (ob_blobs obj))"
      using i by (simp_all add: object_layers_def)
    ultimately show ?thesis
      using m i by (simp add: oci_open_blob_def Let_def) (simp add: blob_descriptor_def)
  qed
  show ?thesis using head blob by blast
qed

text \<open>A registry in memory: what its tags and its content are worth, and the operations on them.\<close>

type_synonym sample_registry = "(string, descriptor) gomap \<times> (digest, bytes) gomap"

definition sample_content :: "sample_registry \<Rightarrow> digest \<Rightarrow> bytes option" where
  "sample_content s dg = (case gm_get (snd s) dg of None \<Rightarrow> None
     | Some b \<Rightarrow> if dl_from_bytes sample_digest_lib b = dg then Some b else None)"

definition sample_tags :: "sample_registry \<Rightarrow> string \<Rightarrow> descriptor option" where
  "sample_tags s t = (case gm_get (fst s) t of None \<Rightarrow> None
     | Some d \<Rightarrow> (case sample_content s (de_digest d) of None \<Rightarrow> None
                | Some b \<Rightarrow> if de_size d = int (length b) then Some d else None))"

definition sample_manifest :: manifest where
  "sample_manifest = \<lparr>mf_config = config_descriptor sample_digest_lib, mf_layers = object_layers sample_digest_lib sample_object\<rparr>"

definition sample_oci :: "sample_registry oci_repo" where
  "sample_oci = \<lparr>
     oc_resolve = (\<lambda>t s. (s, case sample_tags s t of None \<Rightarrow> Inl OciNotFound | Some d \<Rightarrow> Inr d)),
     oc_exists = (\<lambda>d s. (s, Inr (sample_content s (de_digest d) \<noteq> None))),
     oc_push = (\<lambda>d b s. ((fst s, gm_put (de_digest d) b (snd s)), None)),
     oc_push_reference = (\<lambda>d b t s. ((gm_put t d (fst s), gm_put (de_digest d) b (snd s)), None)),
     oc_fetch = (\<lambda>d s. (s, case sample_content s (de_digest d) of None \<Rightarrow> Inl OciNotFound
       | Some b \<Rightarrow> Inr (map (\<lambda>c. [c]) b, False))),
     oc_tags = (\<lambda>s. (s, map fst (fst s), None)),
     oc_marshal = (\<lambda>_. Some ''M''), oc_unmarshal = (\<lambda>_. Some sample_manifest)\<rparr>"

lemma concat_singletons [simp]: "concat (map (\<lambda>c. [c]) b) = b"
  by (induction b) simp_all

lemma sample_registry_ok: "registry sample_digest_lib sample_oci sample_tags sample_content (\<lambda>_. True)"
  unfolding registry_def sample_oci_def
  by (auto simp: sample_tags_def sample_content_def split: option.splits if_splits)

lemma sample_digests_differ:
  "distinct (map (dl_from_bytes sample_digest_lib) [''M'', ''{}'', ''head'', ''ab'', ''c''])"
  by code_simp

lemma sample_oci_publish:
  defines "D \<equiv> dl_from_bytes sample_digest_lib"
  shows "\<exists>tags. oci_publish sample_digest_lib sample_oci sample_object ([], [])
     = ((tags, [(D ''{}'', ''{}''), (D ''head'', ''head''), (D ''ab'', ''ab''), (D ''c'', ''c''), (D ''M'', ''M'')]), Inr ())"
proof -
  obtain name where n: "obj_name sample_digest_lib (ob_kind sample_object) (ob_scope sample_object) (ob_rv sample_object) = Inr name"
    by (rule obj_name_of_valid [OF sample_object_valid])
  have ne: "D ''M'' \<noteq> D ''{}''" "D ''M'' \<noteq> D ''head''" "D ''M'' \<noteq> D ''ab''" "D ''M'' \<noteq> D ''c''" "D ''{}'' \<noteq> D ''head''"
    "D ''{}'' \<noteq> D ''ab''" "D ''{}'' \<noteq> D ''c''" "D ''head'' \<noteq> D ''ab''" "D ''head'' \<noteq> D ''c''" "D ''ab'' \<noteq> D ''c''"
    using sample_digests_differ by (simp_all add: D_def)
  note digests = ne ne [symmetric]
  have parts: "ob_head sample_object = ''head''" "ob_blobs sample_object = [''ab'', ''c'']" by (simp_all add: sample_object_def)
  have m: "manifest_for sample_digest_lib sample_oci sample_object
      = Inr (config_descriptor sample_digest_lib, object_layers sample_digest_lib sample_object, ''M'',
          blob_descriptor sample_digest_lib oci_manifest_media_type ''M'')"
    by (simp add: manifest_for_def sample_oci_def)
  show ?thesis
    using sample_object_valid n digests
    by (simp add: oci_publish_def m) (simp add: push_blob_def oci_acknowledge_def config_descriptor_def object_layers_def blob_descriptor_def
        parts sample_oci_def sample_tags_def sample_content_def gm_get_def gm_put_def flip: D_def)
qed

theorem oci_acknowledged_witness:
  "\<exists>s' s1 s2. oci_publish sample_digest_lib sample_oci sample_object ([], []) = (s', Inr ())
     \<and> oci_fetch_head sample_digest_lib sample_oci KindRequest [] (ob_rv sample_object) s' = (s1, Inr ''head'')
     \<and> oci_open_blob sample_digest_lib sample_oci KindRequest [] (ob_rv sample_object) 1 s' = (s2, Inr ''c'')"
proof -
  let ?D = "dl_from_bytes sample_digest_lib"
  let ?ct = "[(?D ''{}'', ''{}''), (?D ''head'', ''head''), (?D ''ab'', ''ab''), (?D ''c'', ''c''), (?D ''M'', ''M'')]"
  obtain tags where p: "oci_publish sample_digest_lib sample_oci sample_object ([], []) = ((tags, ?ct), Inr ())"
    using sample_oci_publish by blast
  have differ: "sample_content (tags, ?ct) (?D x) = Some y \<longrightarrow> y = x" if "x \<in> {''M'', ''head'', ''ab'', ''c''}" for x y
    using that sample_digests_differ by (auto simp: sample_content_def gm_get_def)
  have codec: "length body \<le> max_head_bytes
      \<and> oc_unmarshal sample_oci body = Some \<lparr>mf_config = config_descriptor sample_digest_lib,
          mf_layers = object_layers sample_digest_lib sample_object\<rparr>
      \<and> (\<forall>x\<in>set (body # ob_head sample_object # ob_blobs sample_object). \<forall>y. sample_content (tags, ?ct) (?D x) = Some y \<longrightarrow> y = x)"
    if "oc_marshal sample_oci \<lparr>mf_config = config_descriptor sample_digest_lib,
        mf_layers = object_layers sample_digest_lib sample_object\<rparr> = Some body" for body
  proof -
    have body: "body = ''M''" using that by (simp add: sample_oci_def)
    have "set (body # ob_head sample_object # ob_blobs sample_object) = {''M'', ''head'', ''ab'', ''c''}"
      by (simp add: body sample_object_def)
    then show ?thesis
      using differ by (simp only: body) (simp add: sample_oci_def sample_manifest_def max_head_bytes_def)
  qed
  note r = oci_acknowledged [OF sample_registry_ok p TrueI codec]
  obtain s1 where h: "oci_fetch_head sample_digest_lib sample_oci KindRequest [] (ob_rv sample_object) (tags, ?ct) = (s1, Inr ''head'')"
    using r [THEN conjunct1] by (auto simp: sample_object_def)
  obtain s2 where "oci_open_blob sample_digest_lib sample_oci KindRequest [] (ob_rv sample_object) 1 (tags, ?ct) = (s2, Inr ''c'')"
    using r [THEN conjunct2, THEN spec [of _ 1]] by (auto simp: sample_object_def)
  then show ?thesis using p h by blast
qed

subsection \<open>Deleting a tag\<close>

text \<open>A version to delete carries the tag and no other.\<close>

lemma ghcr_page_delete:
  assumes "ghcr_page tag versions = PageDelete vid"
  shows "(vid, [tag]) \<in> set versions"
proof -
  obtain tags where f: "List.find (\<lambda>(vid, tags). tags \<noteq> [] \<and> tag \<in> set tags) versions = Some (vid, tags)" "\<not> length tags > 1"
    using assms by (auto simp: ghcr_page_def split: option.splits if_splits)
  then have "(vid, tags) \<in> set versions" "tag \<in> set tags"
    by (auto simp: find_Some_iff) (metis nth_mem)
  moreover have "tags = [tag]"
    using calculation(2) f(2) by (cases tags) auto
  ultimately show ?thesis by simp
qed

text \<open>
  The requests a deletion sends, as a trace kept by the HTTP client: \<open>sent s\<close> are the requests answered so far, the last
  first, each with the answer.
\<close>

definition traced :: "'s ghcr_packages \<Rightarrow> ('s \<Rightarrow> (request \<times> response option) list) \<Rightarrow> bool" where
  "traced gp sent \<longleftrightarrow>
     (\<forall>s. sent (fst (gp_token gp s)) = sent s)
     \<and> (\<forall>rq s. sent (fst (gp_http gp rq s)) = (rq, snd (gp_http gp rq s)) # sent s)"

lemma ghcr_do_trace:
  assumes "traced gp sent" and "ghcr_do gp meth path decode s = (s', r)"
  shows "\<exists>new. sent s' = new @ sent s \<and> length new \<le> 1 \<and> (\<forall>(rq, a)\<in>set new. rq_method rq = meth \<and> rq_url rq = ghcr_base gp @ path)
    \<and> (\<forall>x. r = Inr x \<longrightarrow> (\<exists>rq resp. new = [(rq, Some resp)] \<and> decode (take max_ghcr_body (rs_body resp)) = Some x))"
proof -
  obtain s1 token where t: "gp_token gp s = (s1, token)" by (rule prod.exhaust)
  then have s1: "sent s1 = sent s" using assms(1) unfolding traced_def by (metis fst_conv)
  show ?thesis
  proof (cases token)
    case None
    then show ?thesis using assms(2) t s1 by (auto simp: ghcr_do_def)
  next
    case (Some tok)
    let ?rq = "\<lparr>rq_method = meth, rq_url = ghcr_base gp @ path,
      rq_headers = [(''Authorization'', ''Bearer '' @ tok), (''Accept'', ''application/vnd.github+json''), (''X-GitHub-Api-Version'', ''2022-11-28'')],
      rq_body = NoBody\<rparr>"
    obtain s2 a where h: "gp_http gp ?rq s1 = (s2, a)" by (rule prod.exhaust)
    then have s2: "sent s2 = (?rq, a) # sent s" using assms(1) s1 unfolding traced_def by (metis fst_conv snd_conv)
    have "s' = s2" "\<forall>x. r = Inr x \<longrightarrow> (\<exists>resp. a = Some resp \<and> decode (take max_ghcr_body (rs_body resp)) = Some x)"
      using assms(2) t Some h by (auto simp: ghcr_do_def Let_def split: option.splits if_splits)
    then show ?thesis
      using s2 by (intro exI [of _ "[(?rq, a)]"]) auto
  qed
qed

text \<open>
  What the requests \<open>new\<close> of a deletion may be: reads, and after them at most one \<open>DELETE\<close>, of a version that one of the
  answers showed with this tag and no other; success needs the \<open>DELETE\<close>.
\<close>

definition deletes_only :: "'s ghcr_packages \<Rightarrow> string \<Rightarrow> (request \<times> response option) list \<Rightarrow> (storage_error + unit) \<Rightarrow> bool" where
  "deletes_only gp tag new r \<longleftrightarrow>
     (\<exists>dels gets. new = dels @ gets \<and> length dels \<le> 1 \<and> (\<forall>(rq, a)\<in>set gets. rq_method rq = ''GET'') \<and> (r = Inr () \<longrightarrow> dels \<noteq> [])
        \<and> (\<forall>(rq, a)\<in>set dels. rq_method rq = ''DELETE'' \<and> (\<exists>pkg vid resp versions rq'.
             rq_url rq = ghcr_base gp @ pkg @ ''/versions/'' @ show_int vid
             \<and> (rq', Some resp) \<in> set gets \<and> gp_versions gp (take max_ghcr_body (rs_body resp)) = Some versions
             \<and> (vid, [tag]) \<in> set versions)))"

lemma deletes_only_gets:
  "(\<forall>(rq, a)\<in>set new. rq_method rq = ''GET'') \<Longrightarrow> r \<noteq> Inr () \<Longrightarrow> deletes_only gp tag new r"
  unfolding deletes_only_def by (intro exI [of _ "[]"] exI [of _ new]) auto

lemma deletes_only_more:
  assumes "deletes_only gp tag new r" and "\<forall>(rq, a)\<in>set first. rq_method rq = ''GET''"
  shows "deletes_only gp tag (new @ first) r"
proof -
  obtain dels gets where d: "new = dels @ gets" "length dels \<le> 1" "\<forall>(rq, a)\<in>set gets. rq_method rq = ''GET''" "r = Inr () \<longrightarrow> dels \<noteq> []"
    "\<forall>(rq, a)\<in>set dels. rq_method rq = ''DELETE'' \<and> (\<exists>pkg vid resp versions rq'.
       rq_url rq = ghcr_base gp @ pkg @ ''/versions/'' @ show_int vid
       \<and> (rq', Some resp) \<in> set gets \<and> gp_versions gp (take max_ghcr_body (rs_body resp)) = Some versions
       \<and> (vid, [tag]) \<in> set versions)"
    using assms(1) unfolding deletes_only_def by blast
  show ?thesis
    unfolding deletes_only_def
    using d assms(2) by (intro exI [of _ dels] exI [of _ "gets @ first"]) (simp add: d(1), fastforce)
qed

lemma ghcr_do_gets:
  assumes "traced gp sent" and "ghcr_do gp ''GET'' path decode s = (s', r)"
  obtains new where "sent s' = new @ sent s" and "\<forall>(rq, a)\<in>set new. rq_method rq = ''GET''"
    and "\<And>x. r = Inr x \<Longrightarrow> \<exists>rq resp. (rq, Some resp) \<in> set new \<and> decode (take max_ghcr_body (rs_body resp)) = Some x"
proof -
  obtain new where n: "sent s' = new @ sent s" "\<forall>(rq, a)\<in>set new. rq_method rq = ''GET'' \<and> rq_url rq = ghcr_base gp @ path"
    "\<forall>x. r = Inr x \<longrightarrow> (\<exists>rq resp. new = [(rq, Some resp)] \<and> decode (take max_ghcr_body (rs_body resp)) = Some x)"
    using ghcr_do_trace [OF assms] by (elim exE conjE)
  show thesis
  proof (rule that [OF n(1)])
    show "\<forall>(rq, a)\<in>set new. rq_method rq = ''GET''" using n(2) by auto
    show "\<exists>rq resp. (rq, Some resp) \<in> set new \<and> decode (take max_ghcr_body (rs_body resp)) = Some x" if "r = Inr x" for x
      using n(3) that by fastforce
  qed
qed

lemma ghcr_delete_trace:
  assumes "traced gp sent" and "ghcr_do gp ''DELETE'' (pkg @ ''/versions/'' @ show_int vid) (\<lambda>_. Some ()) s = (s', r)"
    and gets: "\<forall>(rq, a)\<in>set gets. rq_method rq = ''GET''" and seen: "(rq', Some resp) \<in> set gets"
    "gp_versions gp (take max_ghcr_body (rs_body resp)) = Some versions" "(vid, [tag]) \<in> set versions"
  shows "\<exists>dels. sent s' = dels @ sent s \<and> deletes_only gp tag (dels @ gets) r"
proof -
  obtain dels where d: "sent s' = dels @ sent s" "length dels \<le> 1"
    "\<forall>(rq, a)\<in>set dels. rq_method rq = ''DELETE'' \<and> rq_url rq = ghcr_base gp @ (pkg @ ''/versions/'' @ show_int vid)"
    "\<forall>x. r = Inr x \<longrightarrow> (\<exists>rq resp. dels = [(rq, Some resp)] \<and> Some () = Some x)"
    using ghcr_do_trace [OF assms(1,2)] by (elim exE conjE)
  have success: "r = Inr () \<longrightarrow> dels \<noteq> []" using d(4) by blast
  have "\<forall>(rq, a)\<in>set dels. rq_method rq = ''DELETE'' \<and> (\<exists>pkg vid resp versions rq'.
      rq_url rq = ghcr_base gp @ pkg @ ''/versions/'' @ show_int vid
      \<and> (rq', Some resp) \<in> set gets \<and> gp_versions gp (take max_ghcr_body (rs_body resp)) = Some versions
      \<and> (vid, [tag]) \<in> set versions)"
    using d(3) seen by blast
  then have "deletes_only gp tag (dels @ gets) r"
    unfolding deletes_only_def using d(2) gets success by blast
  then show ?thesis using d(1) by blast
qed

lemma ghcr_pages_trace:
  "ghcr_pages gp pkg tag n s = Some y \<Longrightarrow> traced gp sent \<Longrightarrow>
    \<exists>new. sent (fst y) = new @ sent s \<and> deletes_only gp tag new (snd y)"
proof (induction rule: ghcr_pages.raw_induct [rotated 1, consumes 1])
  case (1 pages gp pkg tag n s y)
  obtain s1 a where g: "ghcr_do gp ''GET'' (pkg @ ''/versions?per_page=100&page='' @ show_nat n) (gp_versions gp) s = (s1, a)"
    by (rule prod.exhaust)
  obtain gets where gets: "sent s1 = gets @ sent s" "\<forall>(rq, a)\<in>set gets. rq_method rq = ''GET''"
    "\<And>x. a = Inr x \<Longrightarrow> \<exists>rq resp. (rq, Some resp) \<in> set gets \<and> gp_versions gp (take max_ghcr_body (rs_body resp)) = Some x"
    using ghcr_do_gets [OF 1(3) g] by metis
  have stop: ?case if "y = (s1, Inl e)" for e
    using that gets(1) deletes_only_gets [OF gets(2), of "Inl e" gp tag] by (intro exI [of _ gets]) simp
  show ?case
  proof (cases a)
    case (Inl e)
    then have "y = (s1, Inl e)" using 1(2) g by simp
    then show ?thesis by (rule stop)
  next
    case (Inr versions)
    note step = 1(2) [unfolded g Inr, simplified]
    show ?thesis
    proof (cases "ghcr_page tag versions")
      case (PageDelete vid)
      obtain rq resp where seen: "(rq, Some resp) \<in> set gets" "gp_versions gp (take max_ghcr_body (rs_body resp)) = Some versions"
        using gets(3) [OF Inr] by blast
      have "ghcr_do gp ''DELETE'' (pkg @ ''/versions/'' @ show_int vid) (\<lambda>_. Some ()) s1 = (fst y, snd y)"
        using step PageDelete by simp
      from ghcr_delete_trace [OF 1(3) this gets(2) seen ghcr_page_delete [OF PageDelete]]
      show ?thesis using gets(1) by auto
    next
      case PageNext
      then have "pages gp pkg tag (n + 1) s1 = Some y" using step by simp
      then obtain new where "sent (fst y) = new @ sent s1" "deletes_only gp tag new (snd y)"
        using 1(1) 1(3) by blast
      then show ?thesis
        using gets(1) deletes_only_more [OF _ gets(2)] by (intro exI [of _ "new @ gets"]) simp
    next
      case PageRefuse
      then have "y = (s1, Inl SBackend)" using step by simp
      then show ?thesis by (rule stop)
    next
      case PageMissing
      then have "y = (s1, Inl SNotFound)" using step by simp
      then show ?thesis by (rule stop)
    qed
  qed
qed

lemma delete_tag_trace:
  assumes "traced gp sent" and "ghcr_delete_tag gp tag s = Some (s', r)"
  shows "\<exists>new. sent s' = new @ sent s \<and> deletes_only gp tag new r"
proof -
  obtain s1 a where p: "ghcr_package_path gp s = (s1, a)" by (rule prod.exhaust)
  then obtain b where "ghcr_do gp ''GET'' (''/users/'' @ path_escape (gp_owner gp)) (gp_owner_type gp) s = (s1, b)"
    by (auto simp: ghcr_package_path_def split: prod.splits sum.splits)
  then obtain gets where gets: "sent s1 = gets @ sent s" "\<forall>(rq, a)\<in>set gets. rq_method rq = ''GET''"
    using ghcr_do_gets [OF assms(1)] by metis
  show ?thesis
  proof (cases a)
    case (Inl e)
    then have "s' = s1" "r = Inl e" using assms(2) p by (simp_all add: ghcr_delete_tag_def)
    then show ?thesis using gets deletes_only_gets [of gets r gp tag] by auto
  next
    case (Inr pkg)
    then have "ghcr_pages gp pkg tag 1 s1 = Some (s', r)" using assms(2) p by (simp add: ghcr_delete_tag_def)
    from ghcr_pages_trace [OF this assms(1)] obtain new where "sent s' = new @ sent s1" "deletes_only gp tag new r"
      by auto
    then show ?thesis
      using gets(1) deletes_only_more [OF _ gets(2)] by (intro exI [of _ "new @ gets"]) simp
  qed
qed
text \<open>
  A package that has fewer than a hundred versions on every page from page \<open>n\<close> on, whatever happens meanwhile.
\<close>

definition short_from :: "'s ghcr_packages \<Rightarrow> nat \<Rightarrow> bool" where
  "short_from gp n \<longleftrightarrow> (\<forall>pkg page s s' versions. n \<le> page \<longrightarrow>
     ghcr_do gp ''GET'' (pkg @ ''/versions?per_page=100&page='' @ show_nat page) (gp_versions gp) s = (s', Inr versions) \<longrightarrow>
     length versions < 100)"

lemma ghcr_pages_last:
  assumes "short_from gp n" and "n \<le> page"
  shows "\<exists>y. ghcr_pages gp pkg tag page s = Some y"
proof -
  obtain s1 a where g: "ghcr_do gp ''GET'' (pkg @ ''/versions?per_page=100&page='' @ show_nat page) (gp_versions gp) s = (s1, a)"
    by (rule prod.exhaust)
  show ?thesis
  proof (cases a)
    case (Inl e)
    then show ?thesis using g by (subst ghcr_pages.simps) simp
  next
    case (Inr versions)
    then have "length versions < 100" using assms g unfolding short_from_def by blast
    then have "ghcr_page tag versions \<noteq> PageNext" by (simp add: ghcr_page_def split: option.splits prod.splits)
    then show ?thesis using g Inr by (subst ghcr_pages.simps) (simp split: page.split)
  qed
qed

lemma ghcr_pages_returns:
  assumes "short_from gp n"
  shows "\<exists>y. ghcr_pages gp pkg tag page s = Some y"
proof (induction "n - page" arbitrary: page s)
  case 0
  then show ?case using ghcr_pages_last [OF assms] by simp
next
  case (Suc m)
  obtain s1 a where g: "ghcr_do gp ''GET'' (pkg @ ''/versions?per_page=100&page='' @ show_nat page) (gp_versions gp) s = (s1, a)"
    by (rule prod.exhaust)
  have "m = n - (page + 1)" using Suc.hyps(2) by simp
  then have IH: "\<exists>y. ghcr_pages gp pkg tag (page + 1) s1 = Some y" by (rule Suc.hyps(1))
  show ?case
    using g IH by (subst ghcr_pages.simps) (simp split: sum.split page.split)
qed

lemma delete_tag_returns: "short_from gp n \<Longrightarrow> \<exists>s' r. ghcr_delete_tag gp tag s = Some (s', r)"
  using ghcr_pages_returns [of gp n] by (simp add: ghcr_delete_tag_def split: prod.split sum.split)

text \<open>
  C34: a deletion touches one version, and returns.  The requests of \<open>DeleteTag\<close> are reads and after them at most one
  \<open>DELETE\<close>.  It names a version that an answer of this run showed to carry the tag and no other tag, so no other tag is
  lost, and the call reports success only when that request was sent and answered.  It returns as soon as the pages end.
\<close>

theorem delete_tag_exact:
  assumes "traced gp sent"
  shows "(\<forall>s' r. ghcr_delete_tag gp tag s = Some (s', r) \<longrightarrow> (\<exists>new. sent s' = new @ sent s \<and> deletes_only gp tag new r))
    \<and> (short_from gp n \<longrightarrow> (\<exists>s' r. ghcr_delete_tag gp tag s = Some (s', r)))"
proof (intro conjI allI impI)
  show "\<exists>new. sent s' = new @ sent s \<and> deletes_only gp tag new r" if "ghcr_delete_tag gp tag s = Some (s', r)" for s' r
    using that by (rule delete_tag_trace [OF assms])
  show "\<exists>s' r. ghcr_delete_tag gp tag s = Some (s', r)" if "short_from gp n"
    using that by (rule delete_tag_returns)
qed

text \<open>Packages of a user whose only version carries the one tag; the state is the list of requests.\<close>

definition sample_ghcr_answer :: "request \<Rightarrow> response" where
  "sample_ghcr_answer rq = \<lparr>rs_status = (if rq_method rq = ''DELETE'' then 204 else 200), rs_retry_after = [], rs_content_type = [],
     rs_body = ''v'', rs_body_fails = False\<rparr>"

definition sample_packages :: "(request \<times> response option) list ghcr_packages" where
  "sample_packages = \<lparr>gp_owner = ''o'', gp_package = ''p'', gp_base_url = ''http://h'', gp_token = (\<lambda>s. (s, Some ''t'')),
     gp_http = (\<lambda>rq s. ((rq, Some (sample_ghcr_answer rq)) # s, Some (sample_ghcr_answer rq))),
     gp_owner_type = (\<lambda>_. Some ''User''), gp_versions = (\<lambda>_. Some [(7, [''x'', ''y'']), (8, [''a''])])\<rparr>"

lemma sample_packages_traced: "traced sample_packages (\<lambda>s. s)"
  by (simp add: traced_def sample_packages_def)

lemma sample_packages_do:
  "\<exists>rq. rq_method rq = meth \<and> ghcr_do sample_packages meth path decode s
     = ((rq, Some (sample_ghcr_answer rq)) # s, case decode ''v'' of None \<Rightarrow> Inl SBackend | Some x \<Rightarrow> Inr x)"
  by (simp add: ghcr_do_def sample_packages_def sample_ghcr_answer_def max_ghcr_body_def)

lemma sample_packages_page: "ghcr_page ''a'' [(7, [''x'', ''y'']), (8, [''a''])] = PageDelete 8"
  by (simp add: ghcr_page_def)

theorem delete_tag_exact_witness:
  "\<exists>new. ghcr_delete_tag sample_packages ''a'' [] = Some (new, Inr ()) \<and> deletes_only sample_packages ''a'' new (Inr ())
     \<and> map (\<lambda>(rq, _). rq_method rq) new = [''DELETE'', ''GET'', ''GET''] \<and> short_from sample_packages 1"
proof -
  have dec: "gp_owner_type sample_packages ''v'' = Some ''User''" "gp_versions sample_packages ''v'' = Some [(7, [''x'', ''y'']), (8, [''a''])]"
    by (simp_all add: sample_packages_def)
  obtain rq1 where p: "rq_method rq1 = ''GET''" "ghcr_do sample_packages ''GET'' (''/users/'' @ path_escape (gp_owner sample_packages))
      (gp_owner_type sample_packages) [] = ([(rq1, Some (sample_ghcr_answer rq1))], Inr ''User'')"
    using sample_packages_do [of "''GET''" "''/users/'' @ path_escape (gp_owner sample_packages)" "gp_owner_type sample_packages" "[]"]
    by (auto simp: dec)
  obtain pkg where pkg: "ghcr_package_path sample_packages [] = ([(rq1, Some (sample_ghcr_answer rq1))], Inr pkg)"
    using p(2) unfolding ghcr_package_path_def by (simp only: prod.case sum.case)
  let ?path = "pkg @ ''/versions?per_page=100&page='' @ show_nat 1"
  obtain rq2 where l: "rq_method rq2 = ''GET''" "ghcr_do sample_packages ''GET'' ?path (gp_versions sample_packages) [(rq1, Some (sample_ghcr_answer rq1))]
      = ([(rq2, Some (sample_ghcr_answer rq2)), (rq1, Some (sample_ghcr_answer rq1))], Inr [(7, [''x'', ''y'']), (8, [''a''])])"
    using sample_packages_do [of "''GET''" ?path "gp_versions sample_packages" "[(rq1, Some (sample_ghcr_answer rq1))]"] by (auto simp: dec)
  obtain rq3 where d: "rq_method rq3 = ''DELETE''" "ghcr_do sample_packages ''DELETE'' (pkg @ ''/versions/'' @ show_int 8) (\<lambda>_. Some ())
        [(rq2, Some (sample_ghcr_answer rq2)), (rq1, Some (sample_ghcr_answer rq1))]
      = ([(rq3, Some (sample_ghcr_answer rq3)), (rq2, Some (sample_ghcr_answer rq2)), (rq1, Some (sample_ghcr_answer rq1))], Inr ())"
    using sample_packages_do [of "''DELETE''" "pkg @ ''/versions/'' @ show_int 8" "\<lambda>_. Some ()" "[(rq2, Some (sample_ghcr_answer rq2)), (rq1, Some (sample_ghcr_answer rq1))]"]
    by auto
  have "ghcr_pages sample_packages pkg ''a'' 1 [(rq1, Some (sample_ghcr_answer rq1))]
      = Some ([(rq3, Some (sample_ghcr_answer rq3)), (rq2, Some (sample_ghcr_answer rq2)), (rq1, Some (sample_ghcr_answer rq1))], Inr ())"
    by (subst ghcr_pages.simps) (simp only: l(2) prod.case sum.case sample_packages_page page.case d(2))
  then have "ghcr_delete_tag sample_packages ''a'' []
      = Some ([(rq3, Some (sample_ghcr_answer rq3)), (rq2, Some (sample_ghcr_answer rq2)), (rq1, Some (sample_ghcr_answer rq1))], Inr ())"
    by (simp only: ghcr_delete_tag_def pkg prod.case sum.case)
  moreover have "map (\<lambda>(rq, _). rq_method rq) [(rq3, Some (sample_ghcr_answer rq3)), (rq2, Some (sample_ghcr_answer rq2)), (rq1, Some (sample_ghcr_answer rq1))]
      = [''DELETE'', ''GET'', ''GET'']"
    by (simp only: list.map prod.case p(1) l(1) d(1))
  ultimately obtain new where n: "ghcr_delete_tag sample_packages ''a'' [] = Some (new, Inr ())"
    "map (\<lambda>(rq, _). rq_method rq) new = [''DELETE'', ''GET'', ''GET'']" by (rule that)
  have short: "short_from sample_packages 1"
    unfolding short_from_def by (auto simp: ghcr_do_def sample_packages_def sample_ghcr_answer_def Let_def split: if_splits)
  have "deletes_only sample_packages ''a'' new (Inr ())"
    using delete_tag_exact [OF sample_packages_traced, of "''a''" "[]" 1] n(1) short by simp
  then show ?thesis using n short by (intro exI [of _ new] conjI)
qed

end
