(* ===== verification/Cli.thy ===== *)
theory Cli
  imports Secrets
begin

text \<open>
  The parts of the command line that work on values: the environment of a command and its exit status
  (\<open>cli/run.go\<close>), the decisions given to \<open>enbu resolve\<close> (\<open>cli/resolve.go\<close>) and the value given to \<open>add\<close> and
  \<open>edit\<close> (\<open>cli/value.go\<close>).
\<close>

subsection \<open>The environment of a command\<close>

record env_variable =
  ev_name :: string
  ev_value :: string

text \<open>\<open>cutEnv\<close>: a leading equals sign is part of the name.\<close>

definition cut_env :: "string \<Rightarrow> env_variable option" where
  "cut_env kv =
     (case kv of
        [] \<Rightarrow> None
      | c # rest \<Rightarrow>
          if CHR ''='' \<notin> set rest then None
          else Some \<lparr>ev_name = c # before CHR ''='' rest, ev_value = after CHR ''='' rest\<rparr>)"

definition upper_char :: "char \<Rightarrow> char" where
  "upper_char c = (if in_range (code CHR ''a'') (code CHR ''z'') c then char_of (code c - 32) else c)"

text \<open>
  \<open>strings.ToUpper\<close> on ASCII names; other letters are left alone here, and only Windows folds.
\<close>

definition env_key :: "bool \<Rightarrow> string \<Rightarrow> string" where
  "env_key fold_case name = (if fold_case then map upper_char name else name)"

fun base_env :: "bool \<Rightarrow> string list \<Rightarrow> (string, env_variable) gomap \<Rightarrow> (string, env_variable) gomap" where
  "base_env fc [] env = env"
| "base_env fc (kv # kvs) env =
     base_env fc kvs (case cut_env kv of None \<Rightarrow> env | Some v \<Rightarrow> gm_put (env_key fc (ev_name v)) v env)"

fun secret_env ::
  "bool \<Rightarrow> bool \<Rightarrow> secrets \<Rightarrow> string list \<Rightarrow> (string, env_variable) gomap \<Rightarrow> (string, env_variable) gomap" where
  "secret_env preserve fc secrets [] env = env"
| "secret_env preserve fc secrets (name # names) env =
     secret_env preserve fc secrets names
       (if gm_has env (env_key fc name) \<and> preserve then env
        else gm_put (env_key fc name)
               \<lparr>ev_name = name, ev_value = (case gm_get secrets name of None \<Rightarrow> [] | Some v \<Rightarrow> v)\<rparr> env)"

definition merge_env :: "string list \<Rightarrow> secrets \<Rightarrow> bool \<Rightarrow> bool \<Rightarrow> string list" where
  "merge_env base secrets preserve fc =
     sort (map (\<lambda>(k, v). ev_name v @ CHR ''='' # ev_value v)
       (secret_env preserve fc secrets (sort (map fst secrets)) (base_env fc base [])))"

subsection \<open>Exit statuses\<close>

text \<open>How a command ended: its exit code, a signal, or another error.\<close>

datatype wait_result = Exited int | Signalled int | WaitFailed

definition command_exit_code :: "wait_result \<Rightarrow> int option" where
  "command_exit_code w = (case w of Exited n \<Rightarrow> Some n | Signalled n \<Rightarrow> Some (128 + n) | WaitFailed \<Rightarrow> None)"

definition start_failure_code :: "bool \<Rightarrow> int" where
  "start_failure_code not_found = (if not_found then 127 else 126)"

subsection \<open>Decisions\<close>

record secret_choice =
  sh_value :: string
  sh_delete :: bool

definition find_conflict :: "secret_conflict list \<Rightarrow> string \<Rightarrow> secret_conflict option" where
  "find_conflict conflicts key = find (\<lambda>c. sc_key c = key) (rev conflicts)"

definition set_choice ::
  "secret_conflict list \<Rightarrow> string \<Rightarrow> secret_choice \<Rightarrow> (string, secret_choice) gomap \<Rightarrow> (string, secret_choice) gomap app_result" where
  "set_choice conflicts key choice choices =
     (if find_conflict conflicts key = None then Inl (key_error CodeInvalidArgument key)
      else if gm_has choices key then Inl (key_error CodeInvalidArgument key)
      else Inr (gm_put key choice choices))"

fun parse_values ::
  "secret_conflict list \<Rightarrow> string list \<Rightarrow> (string, secret_choice) gomap \<Rightarrow> (string, secret_choice) gomap app_result" where
  "parse_values conflicts [] choices = Inr choices"
| "parse_values conflicts (kv # kvs) choices =
     (if CHR ''='' \<notin> set kv \<or> before CHR ''='' kv = [] then Inl (app_new CodeInvalidArgument [])
      else res_bind (set_choice conflicts (before CHR ''='' kv) \<lparr>sh_value = after CHR ''='' kv, sh_delete = False\<rparr> choices)
             (parse_values conflicts kvs))"

text \<open>\<open>strconv.Atoi\<close> is a parameter: the number a text spells, if it does.\<close>

fun parse_picks ::
  "(string \<Rightarrow> int option) \<Rightarrow> secret_conflict list \<Rightarrow> string list \<Rightarrow> (string, secret_choice) gomap
    \<Rightarrow> (string, secret_choice) gomap app_result" where
  "parse_picks atoi conflicts [] choices = Inr choices"
| "parse_picks atoi conflicts (kn # kns) choices =
     (let key = before CHR ''='' kn
      in case (find_conflict conflicts key, atoi (after CHR ''='' kn)) of
           (Some c, Some idx) \<Rightarrow>
             if CHR ''='' \<notin> set kn \<or> idx < 1 \<or> int (length (sc_candidates c)) < idx
             then Inl (app_new CodeInvalidArgument [])
             else let cand = sc_candidates c ! nat (idx - 1)
                  in res_bind (set_choice conflicts key \<lparr>sh_value = cc_value cand, sh_delete = cc_deleted cand\<rparr> choices)
                       (parse_picks atoi conflicts kns)
         | _ \<Rightarrow> Inl (app_new CodeInvalidArgument []))"

fun parse_deletes ::
  "secret_conflict list \<Rightarrow> string list \<Rightarrow> (string, secret_choice) gomap \<Rightarrow> (string, secret_choice) gomap app_result" where
  "parse_deletes conflicts [] choices = Inr choices"
| "parse_deletes conflicts (key # keys) choices =
     res_bind (set_choice conflicts key \<lparr>sh_value = [], sh_delete = True\<rparr> choices) (parse_deletes conflicts keys)"

definition parse_choices ::
  "(string \<Rightarrow> int option) \<Rightarrow> secret_conflict list \<Rightarrow> string list \<Rightarrow> string list \<Rightarrow> string list
    \<Rightarrow> (string, secret_choice) gomap app_result" where
  "parse_choices atoi conflicts vals picks deletes =
     res_bind (parse_values conflicts vals []) (\<lambda>choices.
     res_bind (parse_picks atoi conflicts picks choices) (parse_deletes conflicts deletes))"

text \<open>What \<open>ResolveSecrets\<close> passes on.\<close>

definition to_merge_choices :: "(string, secret_choice) gomap \<Rightarrow> (string, choice) gomap" where
  "to_merge_choices cs = map (\<lambda>(k, c). (k, \<lparr>ch_value = sh_value c, ch_delete = sh_delete c\<rparr>)) cs"

subsection \<open>The value of a secret\<close>

text \<open>One line end is taken off: \<open>\n\<close>, and a \<open>\r\<close> before it (or at the very end).\<close>

definition trim_suffix :: "string \<Rightarrow> string \<Rightarrow> string" where
  "trim_suffix suf s =
     (if length suf \<le> length s \<and> drop (length s - length suf) s = suf then take (length s - length suf) s else s)"

datatype value_source = ValueArgument string | ValueBoth | ValueInput "bytes app_result"

definition secret_value :: "value_source \<Rightarrow> string app_result" where
  "secret_value src =
     (case src of
        ValueBoth \<Rightarrow> Inl (app_new CodeInvalidArgument [])
      | ValueArgument v \<Rightarrow> Inr v
      | ValueInput (Inl e) \<Rightarrow> Inl (app_wrap CodeInvalidArgument (Some e) [])
      | ValueInput (Inr data) \<Rightarrow>
          let v = trim_suffix [carriage_return] (trim_suffix [newline] data)
          in if v = [] then Inl (app_new CodeInvalidArgument []) else Inr v)"

end
