(* ===== verification/Rpc.thy ===== *)
theory Rpc
  imports App_Error
begin

text \<open>
  The JSON-RPC server for editor extensions, \<open>desktop/rpc/server.go\<close>: reading one message per line, decoding and
  answering requests that run concurrently, and the requests the server sends to its client.  The JSON codec and the methods
  of \<open>desktop.Service\<close> are parameters.  The state of a connection changes in steps; the goroutines of the handlers and the
  reading loop interleave between them.
\<close>

subsection \<open>Lines\<close>

text \<open>The stream: the bytes still to come, and whether it ends or fails after them.\<close>

datatype stream_end = StreamEof | StreamFails

definition reader_size :: nat where "reader_size = 64 * 1024"
definition max_message_size :: nat where "max_message_size = 16 * 1024 * 1024"

text \<open>
  \<open>bufio.Reader.ReadSlice\<close>: up to and with the delimiter when it is in the first \<open>reader_size\<close> bytes, a full buffer otherwise,
  and what is left with the error of the stream.
\<close>

datatype slice_err = SliceFull | SliceEnd stream_end

definition read_slice :: "stream_end \<Rightarrow> bytes \<Rightarrow> bytes \<times> slice_err option \<times> bytes" where
  "read_slice e s =
     (if newline \<in> set (take reader_size s)
      then let n = length (takeWhile (\<lambda>c. c \<noteq> newline) s) + 1 in (take n s, None, drop n s)
      else if length s \<ge> reader_size then (take reader_size s, Some SliceFull, drop reader_size s)
      else (s, Some (SliceEnd e), []))"

datatype line = LineIs bytes | LineTooLong | LineStop stream_end

lemma reader_size_pos [simp]: "0 < reader_size"
  by (simp add: reader_size_def)

lemma read_slice_less:
  "read_slice e s = (chunk, err, rest) \<Longrightarrow> err = None \<or> err = Some SliceFull \<Longrightarrow> length rest < length s"
  using reader_size_pos
  by (auto simp: read_slice_def Let_def simp del: reader_size_pos split: if_splits dest!: in_set_takeD length_pos_if_in_set)

text \<open>What has been read of a message after a chunk: nothing is kept of one that is too long.\<close>

definition take_chunk :: "nat \<Rightarrow> bool \<times> bytes \<Rightarrow> bytes \<Rightarrow> bool \<times> bytes" where
  "take_chunk limit got chunk =
     (if fst got then got
      else if length (snd got) + length chunk > limit then (True, []) else (False, snd got @ chunk))"

function read_line_loop :: "nat \<Rightarrow> stream_end \<Rightarrow> bool \<times> bytes \<Rightarrow> bytes \<Rightarrow> line \<times> bytes" where
  "read_line_loop limit e got s =
     (case read_slice e s of
        (chunk, Some SliceFull, rest) \<Rightarrow> read_line_loop limit e (take_chunk limit got chunk) rest
      | (chunk, Some (SliceEnd x), rest) \<Rightarrow>
          (let (too_long, acc) = take_chunk limit got chunk
           in if acc = [] \<or> x \<noteq> StreamEof then LineStop x
              else if too_long then LineTooLong else LineIs (trim_space acc), rest)
      | (chunk, None, rest) \<Rightarrow>
          (let (too_long, acc) = take_chunk limit got chunk
           in if too_long then LineTooLong else LineIs (trim_space acc), rest))"
  by pat_completeness auto
termination
  by (relation "measure (\<lambda>(limit, e, got, s). length s)") (auto dest!: sym [of _ "read_slice _ _"] read_slice_less)

declare read_line_loop.simps [simp del]

definition read_line :: "nat \<Rightarrow> stream_end \<Rightarrow> bytes \<Rightarrow> line \<times> bytes" where
  "read_line limit e s = read_line_loop limit e (False, []) s"

subsection \<open>Messages\<close>

text \<open>The data of an error: an error of this program, or JSON of the client that reads as one.\<close>

datatype error_data = OwnPayload payload | ClientPayload bytes

record rpc_error =
  er_code :: int
  er_message :: string
  er_data :: "error_data option"

text \<open>\<open>None\<close> is a nil raw message: a member that is missing.  The JSON value \<open>null\<close> is not.\<close>

record rpc_message =
  rm_version :: string
  rm_id :: "bytes option"
  rm_method :: string
  rm_params :: "bytes option"
  rm_result :: "bytes option"
  rm_error :: "rpc_error option"

definition code_parse_error :: int where "code_parse_error = - 32700"
definition code_invalid_request :: int where "code_invalid_request = - 32600"
definition code_method_not_found :: int where "code_method_not_found = - 32601"
definition code_invalid_params :: int where "code_invalid_params = - 32602"
definition code_application :: int where "code_application = - 32000"

definition protocol_version :: int where "protocol_version = 1"

definition method_initialize :: string where "method_initialize = ''initialize''"
definition method_event :: string where "method_event = ''event''"
definition method_pick_dir :: string where "method_pick_dir = ''pickDirectory''"
definition method_open_url :: string where "method_open_url = ''openExternal''"

definition event_names :: "string list" where
  "event_names = [''enbu:progress'', ''enbu:progress_message'', ''enbu:conflict_retry'']"

definition rpc_methods :: "string list" where
  "rpc_methods =
     [''GetAuthStatus'', ''StartOAuthLogin'', ''GetOAuthLoginStatus'', ''CancelOAuthLogin'', ''Logout'',
      ''BrowseRepository'', ''SelectRepository'', ''GetRepoStatus'', ''Initialize'', ''SuggestStorage'',
      ''ListEnvironments'', ''CreateEnvironment'', ''SwitchEnvironment'', ''RenameEnvironment'', ''DeleteEnvironment'',
      ''PurgeIncarnation'', ''ListSecrets'', ''AddSecret'', ''EditSecret'', ''DeleteSecret'', ''PullSecrets'',
      ''SyncSecrets'', ''ListConflicts'', ''ResolveConflicts'', ''ImportSecrets'', ''ListHistory'', ''DiffHistory'',
      ''RestoreHistory'', ''ListRepositories'', ''RemoveRepository'', ''ListMembers'', ''ListJoinRequests'',
      ''ApproveMember'', ''RemoveMember'', ''SetAdmin'', ''ResolveMemberFork'', ''GetIdentity'', ''DiagnoseIdentity'',
      ''UpgradeIdentity'', ''ReadConfig'', ''WriteConfig'', ''GetAppVersion'']"

text \<open>
  The JSON codec: the members of a message with its error as it stands, the members of an error, the code of a value that
  reads as a payload, an array, a string, and a string written out.
\<close>

record hello_result =
  in_version :: int
  in_app_version :: string
  in_methods :: "string list"
  in_events :: "string list"

record rpc_json =
  rj_message :: "bytes \<Rightarrow> (rpc_message \<times> bytes option) option"
  rj_error :: "bytes \<Rightarrow> (int \<times> string \<times> bytes) option"
  rj_payload_code :: "bytes \<Rightarrow> string option"
  rj_array :: "bytes \<Rightarrow> bytes list option"
  rj_string :: "bytes \<Rightarrow> string option"
  rj_quote :: "string \<Rightarrow> bytes"
  rj_init :: "hello_result \<Rightarrow> bytes option"

definition unmarshal_error :: "rpc_json \<Rightarrow> bytes \<Rightarrow> rpc_error option" where
  "unmarshal_error rj data =
     (case rj_error rj data of
        None \<Rightarrow> None
      | Some (c, text, raw) \<Rightarrow>
          Some \<lparr>er_code = c, er_message = text,
            er_data = (if raw \<noteq> [] \<and> rj_payload_code rj raw \<notin> {None, Some []} then Some (ClientPayload raw) else None)\<rparr>)"

definition unmarshal_message :: "rpc_json \<Rightarrow> bytes \<Rightarrow> rpc_message option" where
  "unmarshal_message rj data =
     (case rj_message rj data of
        None \<Rightarrow> None
      | Some (m, None) \<Rightarrow> Some (m\<lparr>rm_error := None\<rparr>)
      | Some (m, Some raw) \<Rightarrow>
          (case unmarshal_error rj raw of None \<Rightarrow> None | Some e \<Rightarrow> Some (m\<lparr>rm_error := Some e\<rparr>)))"

subsection \<open>Answering a request\<close>

text \<open>
  The service: whether it has a method, how many arguments the method takes, how an argument is decoded, its zero value and the
  name of its type; and the version of the program.
\<close>

record 'v rpc_service =
  sv_has :: "string \<Rightarrow> bool"
  sv_arity :: "string \<Rightarrow> nat"
  sv_decode :: "string \<Rightarrow> nat \<Rightarrow> bytes \<Rightarrow> 'v option"
  sv_zero :: "string \<Rightarrow> nat \<Rightarrow> 'v"
  sv_type :: "string \<Rightarrow> nat \<Rightarrow> string"
  sv_app_version :: string

text \<open>What a call of a method comes to: its result as JSON (\<open>None\<close> when it cannot be encoded), its error, or a panic.\<close>

datatype outcome = Returns "bytes option" | Fails go_error | Panics

text \<open>\<open>NewServer\<close>: the table of the methods; a name the service lacks is a panic.\<close>

definition new_server :: "'v rpc_service \<Rightarrow> string list option" where
  "new_server sv = (if list_all (sv_has sv) rpc_methods then Some rpc_methods else None)"

definition application_error :: "go_error \<Rightarrow> rpc_error" where
  "application_error e =
     (let p = payload_of (normalize_err e)
      in \<lparr>er_code = code_application, er_message = pl_message p, er_data = Some (OwnPayload p)\<rparr>)"

definition rpc_fail :: "int \<Rightarrow> string \<Rightarrow> rpc_error" where
  "rpc_fail c text = \<lparr>er_code = c, er_message = text, er_data = None\<rparr>"

text \<open>\<open>Server.reply\<close>: the messages it writes.  \<open>Inl\<close> is an error, \<open>Inr\<close> the result as JSON.\<close>

definition reply :: "bytes option \<Rightarrow> rpc_error + bytes option \<Rightarrow> rpc_message list" where
  "reply rid r =
     (case (rid, r) of
        (None, Inr _) \<Rightarrow> []
      | _ \<Rightarrow>
          let m = \<lparr>rm_version = ''2.0'', rm_id = (if rid = None then Some ''null'' else rid), rm_method = [],
                   rm_params = None, rm_result = None, rm_error = None\<rparr>
          in (case r of
                Inl e \<Rightarrow> [m\<lparr>rm_error := Some e\<rparr>]
              | Inr None \<Rightarrow> [m\<lparr>rm_error := Some (application_error (Plain CauseOther))\<rparr>]
              | Inr (Some data) \<Rightarrow> [m\<lparr>rm_result := Some data\<rparr>]))"

text \<open>The arguments from position \<open>i\<close> on, out of the \<open>n\<close> the method takes.\<close>

function decode_args :: "'v rpc_service \<Rightarrow> string \<Rightarrow> bytes list \<Rightarrow> nat \<Rightarrow> string + 'v list" where
  "decode_args sv name params i =
     (if i \<ge> sv_arity sv name then Inr []
      else if i < length params then
        (case sv_decode sv name i (params ! i) of
           None \<Rightarrow> Inl (''param '' @ show_nat i @ '': invalid '' @ sv_type sv name i)
         | Some v \<Rightarrow> res_bind (decode_args sv name params (i + 1)) (\<lambda>vs. Inr (v # vs)))
      else res_bind (decode_args sv name params (i + 1)) (\<lambda>vs. Inr (sv_zero sv name i # vs)))"
  by pat_completeness auto
termination
  by (relation "measure (\<lambda>(sv, name, params, i). sv_arity sv name - i)") auto

declare decode_args.simps [simp del]

definition decode_params :: "rpc_json \<Rightarrow> 'v rpc_service \<Rightarrow> string \<Rightarrow> bytes option \<Rightarrow> string + 'v list" where
  "decode_params rj sv name raw =
     (let params = (case raw of
                      None \<Rightarrow> Some []
                    | Some data \<Rightarrow> if data = [] \<or> data = ''null'' then Some [] else rj_array rj data)
      in case params of
           None \<Rightarrow> Inl ''params must be an array''
         | Some ps \<Rightarrow>
             if length ps > sv_arity sv name
             then Inl (''expected at most '' @ show_nat (sv_arity sv name) @ '' params, got '' @ show_nat (length ps))
             else decode_args sv name ps 0)"

text \<open>\<open>run\<close> is what calling a method with its arguments comes to.\<close>

definition handle ::
  "rpc_json \<Rightarrow> 'v rpc_service \<Rightarrow> (string \<Rightarrow> 'v list \<Rightarrow> outcome) \<Rightarrow> rpc_message \<Rightarrow> rpc_message list" where
  "handle rj sv run msg =
     (if rm_version msg \<noteq> ''2.0'' then reply (rm_id msg) (Inl (rpc_fail code_invalid_request ''jsonrpc must be 2.0''))
      else if rm_method msg = method_initialize then
        reply (rm_id msg) (Inr (rj_init rj \<lparr>in_version = protocol_version, in_app_version = sv_app_version sv,
          in_methods = rpc_methods, in_events = event_names\<rparr>))
      else if rm_method msg \<notin> set rpc_methods then
        reply (rm_id msg) (Inl (rpc_fail code_method_not_found (''method not found: '' @ rm_method msg)))
      else
        (case decode_params rj sv (rm_method msg) (rm_params msg) of
           Inl text \<Rightarrow> reply (rm_id msg) (Inl (rpc_fail code_invalid_params text))
         | Inr args \<Rightarrow>
             (case run (rm_method msg) args of
                Panics \<Rightarrow> reply (rm_id msg) (Inl (application_error (Plain CauseOther)))
              | Fails e \<Rightarrow> reply (rm_id msg) (Inl (application_error e))
              | Returns data \<Rightarrow> reply (rm_id msg) (Inr data))))"

subsection \<open>Requests to the client\<close>

text \<open>
  The channel of a call holds one message.  A send waits while it is full and panics once it is closed, and closing it twice
  panics; both are \<open>None\<close>.
\<close>

datatype chan = ChanEmpty | ChanHolds rpc_message | ChanClosed

fun chan_send :: "rpc_message \<Rightarrow> chan \<Rightarrow> chan option" where
  "chan_send m ChanEmpty = Some (ChanHolds m)"
| "chan_send m _ = None"

fun chan_close :: "chan \<Rightarrow> chan option" where
  "chan_close ChanClosed = None"
| "chan_close c = Some ChanClosed"

text \<open>
  A connection.  \<open>sr_pending\<close> gives the channel of a call by its identifier, as an address in \<open>sr_chans\<close>; \<open>sr_calls\<close> are the
  calls that have not returned, with the request that is still to be written; \<open>sr_running\<close> are the requests whose handler has
  not answered; \<open>sr_out\<close> is what has been written.
\<close>

record call =
  ca_id :: string
  ca_chan :: nat
  ca_request :: "rpc_message option"

record server =
  sr_input :: bytes
  sr_out :: "rpc_message list"
  sr_running :: "rpc_message list"
  sr_next :: nat
  sr_pending :: "(string, nat) gomap"
  sr_chans :: "chan list"
  sr_calls :: "call list"
  sr_cancelled :: bool
  sr_stopped :: bool

definition start_server :: "bytes \<Rightarrow> server" where
  "start_server input = \<lparr>sr_input = input, sr_out = [], sr_running = [], sr_next = 0, sr_pending = [], sr_chans = [],
     sr_calls = [], sr_cancelled = False, sr_stopped = False\<rparr>"

definition write_out :: "rpc_message list \<Rightarrow> server \<Rightarrow> server" where
  "write_out ms s = s\<lparr>sr_out := sr_out s @ ms\<rparr>"

definition notification :: "string \<Rightarrow> bytes \<Rightarrow> rpc_message" where
  "notification name data = \<lparr>rm_version = ''2.0'', rm_id = None, rm_method = name, rm_params = Some data, rm_result = None,
     rm_error = None\<rparr>"

text \<open>\<open>Server.notify\<close>; \<open>None\<close> are parameters that cannot be encoded.\<close>

definition notify :: "string \<Rightarrow> bytes option \<Rightarrow> server \<Rightarrow> server" where
  "notify name data s = (case data of None \<Rightarrow> s | Some d \<Rightarrow> write_out [notification name d] s)"

text \<open>\<open>Server.call\<close>: registering the call, writing its request, and its two ways to return.\<close>

definition call_id :: "nat \<Rightarrow> string" where "call_id n = ''s'' @ show_nat n"

definition call_register :: "rpc_json \<Rightarrow> string \<Rightarrow> bytes \<Rightarrow> server \<Rightarrow> server" where
  "call_register rj name data s =
     (let n = sr_next s + 1; cid = call_id n; ch = length (sr_chans s)
      in s\<lparr>sr_next := n, sr_chans := sr_chans s @ [ChanEmpty], sr_pending := gm_put cid ch (sr_pending s),
           sr_calls := sr_calls s @ [\<lparr>ca_id = cid, ca_chan = ch,
             ca_request = Some ((notification name data)\<lparr>rm_id := Some (rj_quote rj cid)\<rparr>)\<rparr>]\<rparr>)"

definition call_write :: "call \<Rightarrow> server \<Rightarrow> server" where
  "call_write c s =
     (case ca_request c of
        None \<Rightarrow> s
      | Some m \<Rightarrow> (write_out [m] s)\<lparr>sr_calls := map (\<lambda>d. if d = c then c\<lparr>ca_request := None\<rparr> else d) (sr_calls s)\<rparr>)"

definition call_leave :: "call \<Rightarrow> server \<Rightarrow> server" where
  "call_leave c s = s\<lparr>sr_pending := gm_del (ca_id c) (sr_pending s), sr_calls := filter (\<lambda>d. d \<noteq> c) (sr_calls s)\<rparr>"

datatype call_error = CallCancelled | CallDisconnected | CallRefused rpc_error | CallMalformed

text \<open>The branch of the channel.  \<open>decode\<close> reads the result, when the caller wants one; \<open>None\<close> is to go on waiting.\<close>

definition call_receive :: "(bytes \<Rightarrow> 'a option) option \<Rightarrow> call \<Rightarrow> server \<Rightarrow> ((call_error + 'a option) \<times> server) option" where
  "call_receive decode c s =
     (if ca_request c \<noteq> None then None
      else
        case sr_chans s ! ca_chan c of
          ChanEmpty \<Rightarrow> None
        | ChanClosed \<Rightarrow> Some (Inl CallDisconnected, call_leave c s)
        | ChanHolds m \<Rightarrow>
            Some (case rm_error m of
                    Some e \<Rightarrow> Inl (CallRefused e)
                  | None \<Rightarrow>
                      (case (decode, rm_result m) of
                         (Some f, Some data) \<Rightarrow>
                           if data = [] then Inr None
                           else (case f data of None \<Rightarrow> Inl CallMalformed | Some x \<Rightarrow> Inr (Some x))
                       | _ \<Rightarrow> Inr None),
                  (call_leave c s)\<lparr>sr_chans := (sr_chans s)[ca_chan c := ChanEmpty]\<rparr>))"

text \<open>The branch of the context.\<close>

definition call_cancel :: "call \<Rightarrow> server \<Rightarrow> (call_error \<times> server) option" where
  "call_cancel c s = (if ca_request c = None \<and> sr_cancelled s then Some (CallCancelled, call_leave c s) else None)"

text \<open>
  \<open>resolve\<close> and \<open>failPending\<close> run in the reading loop.  Between taking a channel out of the pending ones and sending on it
  nobody else sends on it or closes it.
\<close>

definition resolve :: "rpc_json \<Rightarrow> rpc_message \<Rightarrow> server \<Rightarrow> server option" where
  "resolve rj msg s =
     (case (case rm_id msg of None \<Rightarrow> None | Some raw \<Rightarrow> rj_string rj raw) of
        None \<Rightarrow> Some s
      | Some cid \<Rightarrow>
          let s1 = s\<lparr>sr_pending := gm_del cid (sr_pending s)\<rparr>
          in (case gm_get (sr_pending s) cid of
                None \<Rightarrow> Some s1
              | Some ch \<Rightarrow>
                  (case chan_send msg (sr_chans s ! ch) of
                     None \<Rightarrow> None
                   | Some full \<Rightarrow> Some (s1\<lparr>sr_chans := (sr_chans s)[ch := full]\<rparr>))))"

fun close_all :: "nat list \<Rightarrow> chan list \<Rightarrow> chan list option" where
  "close_all [] chans = Some chans"
| "close_all (ch # chs) chans =
     (case chan_close (chans ! ch) of None \<Rightarrow> None | Some c \<Rightarrow> close_all chs (chans[ch := c]))"

definition fail_pending :: "server \<Rightarrow> server option" where
  "fail_pending s =
     (case close_all (map snd (sr_pending s)) (sr_chans s) of
        None \<Rightarrow> None
      | Some chans \<Rightarrow> Some (s\<lparr>sr_chans := chans, sr_pending := []\<rparr>))"

subsection \<open>The reading loop\<close>

text \<open>One round of \<open>Serve\<close>: what it does with the next line, and the request it starts a handler for.\<close>

definition serve_line :: "rpc_json \<Rightarrow> nat \<Rightarrow> stream_end \<Rightarrow> server \<Rightarrow> (server \<times> rpc_message list) option" where
  "serve_line rj limit e s =
     (case read_line limit e (sr_input s) of
        (l, rest) \<Rightarrow>
          let s1 = s\<lparr>sr_input := rest\<rparr>
          in (case l of
                LineTooLong \<Rightarrow> Some (write_out (reply None (Inl (rpc_fail code_invalid_request ''message too large''))) s1, [])
              | LineStop x \<Rightarrow>
                  (case fail_pending (s1\<lparr>sr_cancelled := True\<rparr>) of
                     None \<Rightarrow> None
                   | Some s2 \<Rightarrow> Some (s2\<lparr>sr_stopped := True\<rparr>, []))
              | LineIs data \<Rightarrow>
                  if data = [] then Some (s1, [])
                  else (case unmarshal_message rj data of
                          None \<Rightarrow> Some (write_out (reply None (Inl (rpc_fail code_parse_error ''invalid JSON''))) s1, [])
                        | Some msg \<Rightarrow>
                            if rm_method msg = [] then map_option (\<lambda>s2. (s2, [])) (resolve rj msg s1)
                            else Some (s1\<lparr>sr_running := sr_running s1 @ [msg]\<rparr>, [msg]))))"

text \<open>
  The states of a connection and the requests it has received.  In a step the loop reads a line, a handler answers, the
  service emits an event or calls the client, a call goes on, or the context of the connection is cancelled from outside.
\<close>

inductive serving ::
  "rpc_json \<Rightarrow> 'v rpc_service \<Rightarrow> nat \<Rightarrow> stream_end \<Rightarrow> bytes \<Rightarrow> rpc_message list \<Rightarrow> server \<Rightarrow> bool"
  for rj :: rpc_json and sv :: "'v rpc_service" and limit :: nat and e :: stream_end and input :: bytes where
  serving_start: "serving rj sv limit e input [] (start_server input)"
| serving_line: "serving rj sv limit e input got s \<Longrightarrow> \<not> sr_stopped s \<Longrightarrow> serve_line rj limit e s = Some (s', new) \<Longrightarrow>
    serving rj sv limit e input (got @ new) s'"
| serving_answer: "serving rj sv limit e input got s \<Longrightarrow> msg \<in> set (sr_running s) \<Longrightarrow>
    serving rj sv limit e input got (write_out (handle rj sv run msg) (s\<lparr>sr_running := remove1 msg (sr_running s)\<rparr>))"
| serving_event: "serving rj sv limit e input got s \<Longrightarrow> serving rj sv limit e input got (notify method_event data s)"
| serving_call: "serving rj sv limit e input got s \<Longrightarrow> name \<in> {method_pick_dir, method_open_url} \<Longrightarrow>
    serving rj sv limit e input got (call_register rj name data s)"
| serving_write: "serving rj sv limit e input got s \<Longrightarrow> c \<in> set (sr_calls s) \<Longrightarrow> serving rj sv limit e input got (call_write c s)"
| serving_receive: "serving rj sv limit e input got s \<Longrightarrow> c \<in> set (sr_calls s) \<Longrightarrow>
    call_receive (decode :: (bytes \<Rightarrow> string option) option) c s = Some (r, s') \<Longrightarrow> serving rj sv limit e input got s'"
| serving_cancel: "serving rj sv limit e input got s \<Longrightarrow> c \<in> set (sr_calls s) \<Longrightarrow>
    call_cancel c s = Some (x, s') \<Longrightarrow> serving rj sv limit e input got s'"
| serving_end: "serving rj sv limit e input got s \<Longrightarrow> serving rj sv limit e input got (s\<lparr>sr_cancelled := True\<rparr>)"

inductive_cases serving_cases: "serving rj sv limit e input got s"

end
