(* ===== verification/Rpc_Props.thy ===== *)
theory Rpc_Props
  imports Rpc Artifacts
begin

text \<open>
  What the JSON-RPC server promises: the messages it reads are the lines of its input, whatever the size of its buffer
  (\<open>rpc_lines_framed\<close>); a method is only called with arguments of its types (\<open>rpc_calls_typed\<close>); a request with an identifier gets one response (\<open>rpc_requests_answered\<close>); and the requests to the
  client never block or crash the reading loop, get the response with their own identifier, and all return
  (\<open>rpc_calls_matched\<close>).
\<close>

subsection \<open>Reading lines\<close>

text \<open>What the loop keeps after it has read \<open>p\<close> of a message.\<close>

definition taken :: "nat \<Rightarrow> bytes \<Rightarrow> bool \<times> bytes" where
  "taken limit p = (if length p > limit then (True, []) else (False, p))"

lemma take_chunk_taken: "take_chunk limit (taken limit p) c = taken limit (p @ c)"
  by (auto simp: take_chunk_def taken_def)

lemma read_slice_line:
  "newline \<notin> set l \<Longrightarrow> length l < reader_size \<Longrightarrow> read_slice e (l @ newline # rest) = (l @ [newline], None, rest)"
proof -
  assume l: "newline \<notin> set l" "length l < reader_size"
  then have "newline \<in> set (take reader_size (l @ newline # rest))"
    by (simp add: take_Cons')
  moreover have "takeWhile (\<lambda>c. c \<noteq> newline) (l @ newline # rest) = l"
    using l(1) by (induction l) auto
  ultimately show "read_slice e (l @ newline # rest) = (l @ [newline], None, rest)"
    by (simp add: read_slice_def Let_def)
qed

lemma read_slice_full:
  "newline \<notin> set l \<Longrightarrow> reader_size \<le> length l \<Longrightarrow>
   read_slice e (l @ s) = (take reader_size l, Some SliceFull, drop reader_size l @ s)"
  by (auto simp: read_slice_def dest: in_set_takeD)

lemma read_slice_rest:
  "newline \<notin> set l \<Longrightarrow> length l < reader_size \<Longrightarrow> read_slice e l = (l, Some (SliceEnd e), [])"
  by (simp add: read_slice_def)

lemma read_line_loop_line:
  assumes "newline \<notin> set l"
  shows "read_line_loop limit e (taken limit p) (l @ newline # rest)
    = (if length p + length l + 1 > limit then LineTooLong else LineIs (trim_space (p @ l @ [newline])), rest)"
  using assms
proof (induction l arbitrary: p rule: length_induct)
  case (1 l)
  show ?case
  proof (cases "length l < reader_size")
    case True
    then show ?thesis
      using 1(2) by (subst read_line_loop.simps) (simp add: read_slice_line take_chunk_taken, simp add: taken_def)
  next
    case False
    then have "length (drop reader_size l) < length l" "newline \<notin> set (drop reader_size l)"
      using 1(2) reader_size_pos by (auto dest: in_set_dropD intro!: diff_less simp del: reader_size_pos)
    note ih = 1(1) [rule_format, OF this, of "p @ take reader_size l"]
    have "read_line_loop limit e (taken limit p) (l @ newline # rest)
        = read_line_loop limit e (taken limit (p @ take reader_size l)) (drop reader_size l @ newline # rest)"
      using False 1(2) by (subst read_line_loop.simps) (simp add: read_slice_full take_chunk_taken)
    moreover have "(p @ take reader_size l) @ drop reader_size l @ [newline] = p @ l @ [newline]"
      by (metis append_assoc append_take_drop_id)
    moreover have "length (p @ take reader_size l) + length (drop reader_size l) = length p + length l"
      using False by simp
    ultimately show ?thesis using ih by (simp only:)
  qed
qed

lemma read_line_loop_rest:
  assumes "newline \<notin> set l"
  shows "read_line_loop limit e (taken limit p) l
    = (if p @ l = [] \<or> length (p @ l) > limit \<or> e \<noteq> StreamEof then LineStop e else LineIs (trim_space (p @ l)), [])"
  using assms
proof (induction l arbitrary: p rule: length_induct)
  case (1 l)
  show ?case
  proof (cases "length l < reader_size")
    case True
    then show ?thesis
      using 1(2) by (subst read_line_loop.simps) (simp add: read_slice_rest take_chunk_taken, simp add: taken_def)
  next
    case False
    then have "length (drop reader_size l) < length l" "newline \<notin> set (drop reader_size l)"
      using 1(2) reader_size_pos by (auto dest: in_set_dropD intro!: diff_less simp del: reader_size_pos)
    note ih = 1(1) [rule_format, OF this, of "p @ take reader_size l"]
    have "read_line_loop limit e (taken limit p) l
        = read_line_loop limit e (taken limit (p @ take reader_size l)) (drop reader_size l)"
      using False 1(2) read_slice_full [of l e "[]"]
      by (subst read_line_loop.simps) (simp add: take_chunk_taken)
    then show ?thesis using ih by (simp only: append_assoc append_take_drop_id)
  qed
qed

lemma taken_Nil: "taken limit [] = (False, [])"
  by (simp add: taken_def)

lemmas read_line_line = read_line_loop_line [where p = "[]", unfolded taken_Nil, folded read_line_def, simplified]
lemmas read_line_rest = read_line_loop_rest [where p = "[]", unfolded taken_Nil, folded read_line_def, simplified]

lemma read_line_less:
  assumes "read_line limit e s = (l, rest)" and "\<And>x. l \<noteq> LineStop x"
  shows "length rest < length s"
proof (cases "newline \<in> set s")
  case True
  then obtain a b where "s = a @ newline # b" "newline \<notin> set a" by (meson split_list_first)
  then show ?thesis using assms(1) by (simp add: read_line_line)
next
  case False
  then show ?thesis using assms by (auto simp: read_line_rest split: if_splits)
qed

text \<open>The lines the loop of \<open>Serve\<close> goes through until it stops.\<close>

function read_lines :: "nat \<Rightarrow> stream_end \<Rightarrow> bytes \<Rightarrow> line list" where
  "read_lines limit e s =
     (case read_line limit e s of
        (LineStop x, rest) \<Rightarrow> []
      | (l, rest) \<Rightarrow> l # read_lines limit e rest)"
  by pat_completeness auto
termination
  by (relation "measure (\<lambda>(limit, e, s). length s)") (auto dest!: sym [of _ "read_line _ _ _"] read_line_less)

declare read_lines.simps [simp del]

text \<open>The reference: the input cut at its newlines, and a limit on each piece.\<close>

fun frame_lines :: "nat \<Rightarrow> stream_end \<Rightarrow> bytes list \<Rightarrow> line list" where
  "frame_lines limit e [] = []"
| "frame_lines limit e [l] = (if l = [] \<or> length l > limit \<or> e \<noteq> StreamEof then [] else [LineIs (trim_space l)])"
| "frame_lines limit e (l # m # ls) =
     (if length l + 1 > limit then LineTooLong else LineIs (trim_space (l @ [newline]))) # frame_lines limit e (m # ls)"

lemma split_char_ne: "split_char c s \<noteq> []"
  by (induction s) (auto split: list.splits)

lemma split_char_line: "c \<notin> set l \<Longrightarrow> split_char c (l @ c # s) = l # split_char c s"
  by (induction l) (auto)

lemma split_char_last: "c \<notin> set l \<Longrightarrow> split_char c l = [l]"
  by (induction l) auto

lemma frame_lines_Cons: "ls \<noteq> [] \<Longrightarrow> frame_lines limit e (l # ls) =
   (if length l + 1 > limit then LineTooLong else LineIs (trim_space (l @ [newline]))) # frame_lines limit e ls"
  by (cases ls) auto


subsection \<open>Calls to the client\<close>

text \<open>
  How the pending calls, the channels and the waiting calls fit: identifiers and channels are not shared, a pending channel is
  open and empty, and a call that waits is pending until its channel holds the response with its identifier or is closed.
\<close>

definition issued :: "nat \<Rightarrow> string \<Rightarrow> bool" where
  "issued n i \<longleftrightarrow> (\<exists>m\<le>n. i = call_id m)"

lemma issued_Suc: "issued n i \<Longrightarrow> issued (n + 1) i" "issued (n + 1) (call_id (n + 1))" "\<not> issued n (call_id (n + 1))"
proof -
  show "issued n i \<Longrightarrow> issued (n + 1) i"
  proof -
    assume "issued n i"
    then obtain m where "m \<le> n" "i = call_id m" unfolding issued_def by blast
    then show ?thesis unfolding issued_def by (intro exI [of _ m]) simp
  qed
  show "issued (n + 1) (call_id (n + 1))" unfolding issued_def by blast
  have "call_id (n + 1) \<noteq> call_id m" if "m \<le> n" for m
    using show_nat_inject [of "n + 1" m] that unfolding call_id_def by auto
  then show "\<not> issued n (call_id (n + 1))" unfolding issued_def by blast
qed

definition call_wired :: "rpc_json \<Rightarrow> server \<Rightarrow> call \<Rightarrow> bool" where
  "call_wired rj s c \<longleftrightarrow>
     ca_chan c < length (sr_chans s)
     \<and> issued (sr_next s) (ca_id c)
     \<and> (\<forall>m. ca_request c = Some m \<longrightarrow> rm_method m \<noteq> [])
     \<and> (\<forall>m. sr_chans s ! ca_chan c = ChanHolds m \<longrightarrow> (\<exists>raw. rm_id m = Some raw \<and> rj_string rj raw = Some (ca_id c)))
     \<and> (sr_chans s ! ca_chan c = ChanEmpty \<longrightarrow> (ca_id c, ca_chan c) \<in> set (sr_pending s))
     \<and> (\<forall>i. (i, ca_chan c) \<in> set (sr_pending s) \<longrightarrow> i = ca_id c)"

definition pending_wired :: "server \<Rightarrow> bool" where
  "pending_wired s \<longleftrightarrow>
     gm_ok (sr_pending s) \<and> distinct (map snd (sr_pending s))
     \<and> (\<forall>(i, ch)\<in>set (sr_pending s). ch < length (sr_chans s) \<and> sr_chans s ! ch = ChanEmpty
          \<and> issued (sr_next s) i)"

definition wired :: "rpc_json \<Rightarrow> server \<Rightarrow> bool" where
  "wired rj s \<longleftrightarrow> pending_wired s \<and> distinct (map ca_id (sr_calls s)) \<and> distinct (map ca_chan (sr_calls s))
     \<and> (\<forall>c\<in>set (sr_calls s). call_wired rj s c) \<and> (sr_stopped s \<longrightarrow> sr_cancelled s)"

text \<open>A step that leaves the calls alone.\<close>

lemma wired_frame:
  assumes "wired rj s" and "sr_next s' = sr_next s" "sr_pending s' = sr_pending s" "sr_chans s' = sr_chans s"
    "sr_calls s' = sr_calls s" "sr_stopped s' = sr_stopped s" "sr_cancelled s \<longrightarrow> sr_cancelled s'"
  shows "wired rj s'"
  using assms by (auto simp: wired_def pending_wired_def call_wired_def)

lemma gm_del_set: "gm_ok m \<Longrightarrow> set (gm_del k m) = {(i, v) \<in> set m. i \<noteq> k}"
  by (auto simp: gm_del_def AList.delete_eq)

lemma distinct_snd_del: "distinct (map snd m) \<Longrightarrow> distinct (map snd (gm_del k m))"
  by (simp add: gm_del_def AList.delete_eq distinct_map_filter)

lemma distinct_snd_eq: "distinct (map snd m) \<Longrightarrow> (i, ch) \<in> set m \<Longrightarrow> (j, ch) \<in> set m \<Longrightarrow> i = j"
  by (induction m) (auto simp: image_iff)

lemma wired_pending:
  assumes "wired rj s" and "(i, ch) \<in> set (sr_pending s)"
  shows "ch < length (sr_chans s)" and "sr_chans s ! ch = ChanEmpty" and "issued (sr_next s) i"
  using assms unfolding wired_def pending_wired_def by blast+

lemma wired_ok: "wired rj s \<Longrightarrow> gm_ok (sr_pending s)" "wired rj s \<Longrightarrow> distinct (map snd (sr_pending s))"
  by (simp_all add: wired_def pending_wired_def)

lemma wired_distinct:
  "wired rj s \<Longrightarrow> distinct (map ca_id (sr_calls s))" "wired rj s \<Longrightarrow> distinct (map ca_chan (sr_calls s))"
  by (simp_all add: wired_def)

lemma wired_call: "wired rj s \<Longrightarrow> c \<in> set (sr_calls s) \<Longrightarrow> call_wired rj s c"
  by (simp add: wired_def)

lemma call_wiredD:
  assumes "call_wired rj s c"
  shows "ca_chan c < length (sr_chans s)" and "issued (sr_next s) (ca_id c)"
    and "ca_request c = Some m \<Longrightarrow> rm_method m \<noteq> []"
    and "sr_chans s ! ca_chan c = ChanHolds m \<Longrightarrow> \<exists>raw. rm_id m = Some raw \<and> rj_string rj raw = Some (ca_id c)"
    and "sr_chans s ! ca_chan c = ChanEmpty \<Longrightarrow> (ca_id c, ca_chan c) \<in> set (sr_pending s)"
    and "(i, ca_chan c) \<in> set (sr_pending s) \<Longrightarrow> i = ca_id c"
  using assms unfolding call_wired_def by blast+

lemma wiredI:
  assumes "pending_wired s" "distinct (map ca_id (sr_calls s))" "distinct (map ca_chan (sr_calls s))"
    and "\<And>c. c \<in> set (sr_calls s) \<Longrightarrow> call_wired rj s c" and "sr_stopped s \<Longrightarrow> sr_cancelled s"
  shows "wired rj s"
  using assms by (simp add: wired_def)

lemma pending_wiredI:
  assumes "gm_ok (sr_pending s)" "distinct (map snd (sr_pending s))"
    and "\<And>i ch. (i, ch) \<in> set (sr_pending s) \<Longrightarrow> ch < length (sr_chans s) \<and> sr_chans s ! ch = ChanEmpty \<and> issued (sr_next s) i"
  shows "pending_wired s"
  using assms unfolding pending_wired_def by blast

lemma register_wired:
  assumes w: "wired rj s" and "name \<noteq> []"
  shows "wired rj (call_register rj name data s)"
proof -
  let ?s = "call_register rj name data s"
  let ?cid = "call_id (sr_next s + 1)" and ?ch = "length (sr_chans s)"
  let ?c = "\<lparr>ca_id = ?cid, ca_chan = ?ch, ca_request = Some ((notification name data)\<lparr>rm_id := Some (rj_quote rj ?cid)\<rparr>)\<rparr>"
  have ch: "ch < ?ch" "i \<noteq> ?cid" if "(i, ch) \<in> set (sr_pending s)" for i ch
    using wired_pending [OF w that] issued_Suc(3) by metis+
  then have notin: "?cid \<notin> fst ` set (sr_pending s)" by force
  have s: "sr_next ?s = sr_next s + 1" "sr_chans ?s = sr_chans s @ [ChanEmpty]" "sr_calls ?s = sr_calls s @ [?c]"
    "sr_stopped ?s = sr_stopped s" "sr_cancelled ?s = sr_cancelled s" "sr_pending ?s = sr_pending s @ [(?cid, ?ch)]"
    using gm_put_fresh [OF notin] by (simp_all add: call_register_def Let_def)
  have notin_ch: "?ch \<notin> snd ` set (sr_pending s)" using ch(1) by force
  have p: "pending_wired ?s"
  proof (rule pending_wiredI)
    show "gm_ok (sr_pending ?s)" "distinct (map snd (sr_pending ?s))"
      using wired_ok [OF w] notin notin_ch unfolding s by simp_all
    fix i ch'
    assume "(i, ch') \<in> set (sr_pending ?s)"
    then consider "(i, ch') \<in> set (sr_pending s)" | "i = ?cid" "ch' = ?ch" unfolding s by auto
    then show "ch' < length (sr_chans ?s) \<and> sr_chans ?s ! ch' = ChanEmpty \<and> issued (sr_next ?s) i"
    proof cases
      case 1
      then show ?thesis using wired_pending [OF w 1] issued_Suc(1) unfolding s by (simp add: nth_append)
    next
      case 2
      then show ?thesis using issued_Suc(2) unfolding s by simp
    qed
  qed
  have old: "call_wired rj ?s c" if "c \<in> set (sr_calls s)" for c
  proof -
    note c = call_wiredD [OF wired_call [OF w that]]
    have "(i, ca_chan c) \<in> set (sr_pending ?s) \<longleftrightarrow> (i, ca_chan c) \<in> set (sr_pending s)" for i
      using c(1) unfolding s by auto
    moreover have "sr_chans ?s ! ca_chan c = sr_chans s ! ca_chan c" using c(1) unfolding s by (simp add: nth_append)
    moreover have "ca_chan c < length (sr_chans ?s)" "issued (sr_next ?s) (ca_id c)"
      using c(1) issued_Suc(1) [OF c(2)] unfolding s by simp_all
    ultimately show ?thesis using c(3-6) unfolding call_wired_def by simp
  qed
  have only: "i = ?cid" if "(i, ?ch) \<in> set (sr_pending ?s)" for i
    using that notin_ch unfolding s by force
  have there: "(?cid, ?ch) \<in> set (sr_pending ?s)" "sr_chans ?s ! ?ch = ChanEmpty" "?ch < length (sr_chans ?s)"
    "issued (sr_next ?s) ?cid"
    using issued_Suc(2) unfolding s by simp_all
  have new: "call_wired rj ?s ?c"
    unfolding call_wired_def call.select_convs
  proof (intro conjI allI impI)
    show "rm_method m \<noteq> []" if "Some ((notification name data)\<lparr>rm_id := Some (rj_quote rj ?cid)\<rparr>) = Some m" for m
      using that assms(2) by (auto simp: notification_def)
    show "\<exists>raw. rm_id m = Some raw \<and> rj_string rj raw = Some ?cid" if "sr_chans ?s ! ?ch = ChanHolds m" for m
      using that there(2) by simp
    show "i = ?cid" if "(i, ?ch) \<in> set (sr_pending ?s)" for i by (rule only [OF that])
  qed (rule there)+
  show ?thesis
  proof (rule wiredI [OF p])
    have "ca_id c \<noteq> ?cid" "ca_chan c \<noteq> ?ch" if "c \<in> set (sr_calls s)" for c
      using call_wiredD(1,2) [OF wired_call [OF w that]] issued_Suc(3) by (metis less_irrefl)+
    then have "?cid \<notin> ca_id ` set (sr_calls s)" "?ch \<notin> ca_chan ` set (sr_calls s)"
      unfolding image_iff by metis+
    then show "distinct (map ca_id (sr_calls ?s))" "distinct (map ca_chan (sr_calls ?s))"
      using wired_distinct [OF w] unfolding s by simp_all
    show "call_wired rj ?s c" if "c \<in> set (sr_calls ?s)" for c
      using that old new unfolding s by auto
    show "sr_stopped ?s \<Longrightarrow> sr_cancelled ?s" using w unfolding s wired_def by simp
  qed
qed

lemma call_write_wired:
  assumes "wired rj s" and "c \<in> set (sr_calls s)"
  shows "wired rj (call_write c s)"
proof (cases "ca_request c")
  case None
  then show ?thesis using assms by (simp add: call_write_def)
next
  case (Some m)
  let ?f = "\<lambda>d. if d = c then c\<lparr>ca_request := None\<rparr> else d"
  have s: "sr_calls (call_write c s) = map ?f (sr_calls s)" "sr_chans (call_write c s) = sr_chans s"
    "sr_pending (call_write c s) = sr_pending s" "sr_next (call_write c s) = sr_next s"
    "sr_stopped (call_write c s) = sr_stopped s" "sr_cancelled (call_write c s) = sr_cancelled s"
    using Some by (simp_all add: call_write_def write_out_def)
  have same: "map ca_id (map ?f (sr_calls s)) = map ca_id (sr_calls s)" "map ca_chan (map ?f (sr_calls s)) = map ca_chan (sr_calls s)"
    by auto
  show ?thesis
  proof (rule wiredI)
    show "pending_wired (call_write c s)" using assms(1) unfolding wired_def pending_wired_def s by blast
    show "distinct (map ca_id (sr_calls (call_write c s)))" "distinct (map ca_chan (sr_calls (call_write c s)))"
      using assms(1) unfolding s(1) same wired_def by blast+
    fix d
    assume "d \<in> set (sr_calls (call_write c s))"
    then obtain d0 where "d0 \<in> set (sr_calls s)" "d = ?f d0" unfolding s by auto
    then show "call_wired rj (call_write c s) d"
      using wired_call [OF assms(1), of d0] unfolding call_wired_def s by (auto split: if_splits)
  next
    assume "sr_stopped (call_write c s)"
    then show "sr_cancelled (call_write c s)" using assms(1) unfolding wired_def s by blast
  qed
qed

text \<open>A call returns: its entry goes, and its channel may have been emptied.\<close>

lemma leave_wired:
  assumes w: "wired rj s" and c: "c \<in> set (sr_calls s)" and chans: "chans = sr_chans s \<or> chans = (sr_chans s)[ca_chan c := ChanEmpty]"
  shows "wired rj ((call_leave c s)\<lparr>sr_chans := chans\<rparr>)"
proof (rule wiredI)
  let ?s = "(call_leave c s)\<lparr>sr_chans := chans\<rparr>"
  have s: "sr_next ?s = sr_next s" "sr_calls ?s = filter (\<lambda>d. d \<noteq> c) (sr_calls s)" "sr_stopped ?s = sr_stopped s"
    "sr_cancelled ?s = sr_cancelled s" "sr_chans ?s = chans" "sr_pending ?s = gm_del (ca_id c) (sr_pending s)"
    by (simp_all add: call_leave_def)
  have set: "set (sr_pending ?s) = {(i, v) \<in> set (sr_pending s). i \<noteq> ca_id c}"
    unfolding s by (rule gm_del_set [OF wired_ok(1) [OF w]])
  have len: "length chans = length (sr_chans s)" using chans by auto
  show "pending_wired ?s"
  proof (rule pending_wiredI)
    show "gm_ok (sr_pending ?s)" "distinct (map snd (sr_pending ?s))"
      using wired_ok [OF w] unfolding s by (simp_all add: distinct_snd_del)
    fix i ch
    assume "(i, ch) \<in> set (sr_pending ?s)"
    then have "(i, ch) \<in> set (sr_pending s)" unfolding set by simp
    note old = wired_pending [OF w this]
    then have "chans ! ch = ChanEmpty" using chans by (cases "ch = ca_chan c") auto
    then show "ch < length (sr_chans ?s) \<and> sr_chans ?s ! ch = ChanEmpty \<and> issued (sr_next ?s) i"
      using old unfolding s len by simp
  qed
  show "distinct (map ca_id (sr_calls ?s))" "distinct (map ca_chan (sr_calls ?s))"
    using w unfolding s wired_def by (auto intro: distinct_map_filter)
  show "sr_stopped ?s \<Longrightarrow> sr_cancelled ?s" using w unfolding s wired_def by blast
  fix d
  assume "d \<in> set (sr_calls ?s)"
  then have d: "d \<in> set (sr_calls s)" "d \<noteq> c" unfolding s by auto
  have inj: "inj_on ca_id (set (sr_calls s))" "inj_on ca_chan (set (sr_calls s))"
    using w unfolding wired_def distinct_map by blast+
  have others: "ca_id d \<noteq> ca_id c" "ca_chan d \<noteq> ca_chan c"
    using inj_onD [OF inj(1) _ d(1) c] inj_onD [OF inj(2) _ d(1) c] d(2) by blast+
  have "chans ! ca_chan d = sr_chans s ! ca_chan d" using chans others(2) by auto
  then show "call_wired rj ?s d"
    using call_wiredD [OF wired_call [OF w d(1)]] others(1) unfolding call_wired_def set s(1,5) len by auto
qed

lemma resolve_wired:
  assumes w: "wired rj s"
  shows "\<exists>s'. resolve rj msg s = Some s' \<and> wired rj s'"
proof (cases "case rm_id msg of None \<Rightarrow> None | Some raw \<Rightarrow> rj_string rj raw")
  case None
  then show ?thesis using assms by (simp add: resolve_def)
next
  case (Some cid)
  then obtain raw where raw: "rm_id msg = Some raw" "rj_string rj raw = Some cid" by (auto split: option.splits)
  show ?thesis
  proof (cases "gm_get (sr_pending s) cid")
    case missing: None
    then have "gm_del cid (sr_pending s) = sr_pending s"
      by (simp add: gm_del_def gm_get_def delete_idem map_of_eq_None_iff)
    then show ?thesis using assms raw missing by (simp add: resolve_def)
  next
    case found: (Some ch)
    then have m: "(cid, ch) \<in> set (sr_pending s)" by (rule gm_get_set)
    note ch = wired_pending [OF w m]
    let ?chans = "(sr_chans s)[ch := ChanHolds msg]"
    let ?s = "s\<lparr>sr_pending := gm_del cid (sr_pending s), sr_chans := ?chans\<rparr>"
    have set: "set (sr_pending ?s) = {(i, v) \<in> set (sr_pending s). i \<noteq> cid}"
      using gm_del_set [OF wired_ok(1) [OF w]] by simp
    have "wired rj ?s"
    proof (rule wiredI)
      show "pending_wired ?s"
      proof (rule pending_wiredI)
        show "gm_ok (sr_pending ?s)" "distinct (map snd (sr_pending ?s))"
          using wired_ok [OF w] by (simp_all add: distinct_snd_del)
        fix i ch'
        assume "(i, ch') \<in> set (sr_pending ?s)"
        then have i: "(i, ch') \<in> set (sr_pending s)" "i \<noteq> cid" unfolding set by simp_all
        then have "ch' \<noteq> ch" using distinct_snd_eq [OF wired_ok(2) [OF w] m] by blast
        then show "ch' < length (sr_chans ?s) \<and> sr_chans ?s ! ch' = ChanEmpty \<and> issued (sr_next ?s) i"
          using wired_pending [OF w i(1)] by simp
      qed
      show "distinct (map ca_id (sr_calls ?s))" "distinct (map ca_chan (sr_calls ?s))" "sr_stopped ?s \<Longrightarrow> sr_cancelled ?s"
        using w by (simp_all add: wired_def)
      fix c
      assume "c \<in> set (sr_calls ?s)"
      then have "call_wired rj s c" using wired_call [OF w] by simp
      note c = call_wiredD [OF this]
      show "call_wired rj ?s c"
      proof (cases "ca_chan c = ch")
        case True
        then have "ca_id c = cid" using c(6) [of cid] m by simp
        then show ?thesis
          using True c(1,2,3) raw distinct_snd_eq [OF wired_ok(2) [OF w] m] unfolding call_wired_def set by auto
      next
        case False
        then have chan: "?chans ! ca_chan c = sr_chans s ! ca_chan c" by simp
        have pend: "(ca_id c, ca_chan c) \<in> set (sr_pending ?s)" if "(ca_id c, ca_chan c) \<in> set (sr_pending s)"
          using that found False iffD2 [OF gm_get_in [OF wired_ok(1) [OF w]] that] unfolding set by auto
        have "i = ca_id c" if "(i, ca_chan c) \<in> set (sr_pending ?s)" for i
          using that c(6) unfolding set by simp
        then show ?thesis using c(1-5) pend chan unfolding call_wired_def by simp
      qed
    qed
    moreover have "resolve rj msg s = Some ?s" using raw found ch(2) by (simp add: resolve_def)
    ultimately show ?thesis by blast
  qed
qed

lemma close_all_empty:
  "distinct chs \<Longrightarrow> \<forall>ch\<in>set chs. ch < length chans \<and> chans ! ch = ChanEmpty \<Longrightarrow>
   \<exists>chans'. close_all chs chans = Some chans' \<and> length chans' = length chans
     \<and> (\<forall>i. chans' ! i = (if i \<in> set chs then ChanClosed else chans ! i))"
proof (induction chs arbitrary: chans)
  case (Cons ch chs)
  let ?chans = "chans[ch := ChanClosed]"
  have "\<forall>i\<in>set chs. i < length ?chans \<and> ?chans ! i = ChanEmpty"
  proof
    fix i
    assume "i \<in> set chs"
    then have "i \<noteq> ch" "i < length chans" "chans ! i = ChanEmpty" using Cons.prems by auto
    then show "i < length ?chans \<and> ?chans ! i = ChanEmpty" by simp
  qed
  then obtain chans' where c: "close_all chs ?chans = Some chans'" "length chans' = length ?chans"
    "\<forall>i. chans' ! i = (if i \<in> set chs then ChanClosed else ?chans ! i)"
    using Cons.IH [of ?chans] Cons.prems(1) by auto
  have "chans' ! i = (if i \<in> set (ch # chs) then ChanClosed else chans ! i)" for i
    using c(3) Cons.prems(2) by (cases "i = ch") auto
  then show ?case using c(1,2) Cons.prems(2) by simp
qed simp

lemma fail_pending_wired:
  assumes w: "wired rj s"
  shows "\<exists>s'. fail_pending s = Some s' \<and> wired rj s' \<and> (\<forall>c\<in>set (sr_calls s'). sr_chans s' ! ca_chan c \<noteq> ChanEmpty)
     \<and> sr_cancelled s' = sr_cancelled s \<and> sr_calls s' = sr_calls s \<and> sr_running s' = sr_running s \<and> sr_out s' = sr_out s"
proof -
  let ?chs = "map snd (sr_pending s)"
  have "\<forall>ch\<in>set ?chs. ch < length (sr_chans s) \<and> sr_chans s ! ch = ChanEmpty"
    using wired_pending [OF w] by auto
  then obtain chans' where c: "close_all ?chs (sr_chans s) = Some chans'" "length chans' = length (sr_chans s)"
    "\<forall>i. chans' ! i = (if i \<in> set ?chs then ChanClosed else sr_chans s ! i)"
    using close_all_empty [OF wired_ok(2) [OF w]] by blast
  let ?s = "s\<lparr>sr_chans := chans', sr_pending := []\<rparr>"
  have full: "chans' ! ca_chan d \<noteq> ChanEmpty" if "d \<in> set (sr_calls s)" for d
  proof (cases "ca_chan d \<in> set ?chs")
    case False
    then have "(ca_id d, ca_chan d) \<notin> set (sr_pending s)" by force
    then show ?thesis using call_wiredD(5) [OF wired_call [OF w that]] False c(3) by auto
  qed (simp add: c(3))
  have "wired rj ?s"
  proof (rule wiredI)
    show "pending_wired ?s" by (simp add: pending_wired_def)
    show "distinct (map ca_id (sr_calls ?s))" "distinct (map ca_chan (sr_calls ?s))" "sr_stopped ?s \<Longrightarrow> sr_cancelled ?s"
      using w by (simp_all add: wired_def)
    fix d
    assume "d \<in> set (sr_calls ?s)"
    then have d: "d \<in> set (sr_calls s)" by simp
    note old = call_wiredD [OF wired_call [OF w d]]
    have "chans' ! ca_chan d = ChanHolds m \<Longrightarrow> sr_chans s ! ca_chan d = ChanHolds m" for m
      using c(3) by (simp split: if_splits)
    then show "call_wired rj ?s d" using old(1-4) full [OF d] c(2) unfolding call_wired_def by simp
  qed
  then show ?thesis using c(1) full by (simp add: fail_pending_def)
qed

lemma serve_line_wired:
  assumes "wired rj s"
  shows "\<exists>s' new. serve_line rj limit e s = Some (s', new) \<and> wired rj s'"
proof -
  obtain l rest where r: "read_line limit e (sr_input s) = (l, rest)" by (rule prod.exhaust)
  let ?s = "s\<lparr>sr_input := rest\<rparr>"
  have w: "wired rj ?s" by (rule wired_frame [OF assms]) simp_all
  have out: "wired rj (write_out ms ?s)" "wired rj (?s\<lparr>sr_running := ms\<rparr>)" for ms
    by (rule wired_frame [OF assms]; simp add: write_out_def)+
  show ?thesis
  proof (cases l)
    case (LineStop x)
    have "wired rj (?s\<lparr>sr_cancelled := True\<rparr>)" by (rule wired_frame [OF assms]) simp_all
    from fail_pending_wired [OF this] obtain s2 where f: "fail_pending (?s\<lparr>sr_cancelled := True\<rparr>) = Some s2"
      "wired rj s2" "sr_cancelled s2" by auto
    then have "wired rj (s2\<lparr>sr_stopped := True\<rparr>)" by (simp add: wired_def pending_wired_def call_wired_def)
    then show ?thesis using r f(1) LineStop by (simp add: serve_line_def Let_def)
  next
    case LineTooLong
    then show ?thesis using r out(1) by (simp add: serve_line_def Let_def)
  next
    case (LineIs data)
    show ?thesis
    proof (cases "data = [] \<or> unmarshal_message rj data = None")
      case True
      then show ?thesis using r LineIs w out(1) by (auto simp: serve_line_def Let_def)
    next
      case False
      then obtain msg where m: "unmarshal_message rj data = Some msg" "data \<noteq> []" by auto
      show ?thesis
        using r LineIs m resolve_wired [OF w, of msg] out(2) by (auto simp: serve_line_def Let_def)
    qed
  qed
qed

lemma serving_wired: "serving rj sv limit e input got s \<Longrightarrow> wired rj s"
proof (induction rule: serving.induct)
  case serving_start
  show ?case by (simp add: wired_def pending_wired_def start_server_def)
next
  case (serving_line got s s' new)
  then obtain s2 new2 where "serve_line rj limit e s = Some (s2, new2)" "wired rj s2"
    using serve_line_wired by blast
  then show ?case using serving_line.hyps(3) by simp
next
  case (serving_answer got s msg run)
  show ?case by (rule wired_frame [OF serving_answer.IH]) (simp_all add: write_out_def)
next
  case (serving_event got s data)
  show ?case by (rule wired_frame [OF serving_event.IH]) (simp_all add: notify_def write_out_def split: option.split)
next
  case (serving_call got s name data)
  then show ?case by (intro register_wired) (auto simp: method_pick_dir_def method_open_url_def)
next
  case (serving_write got s c)
  then show ?case by (intro call_write_wired)
next
  case (serving_receive got s c decode r s')
  then show ?case
    using leave_wired [of rj s c "sr_chans s"] leave_wired [of rj s c "(sr_chans s)[ca_chan c := ChanEmpty]"]
    by (auto simp: call_receive_def call_leave_def split: if_splits chan.splits)
next
  case (serving_cancel got s c x s')
  then show ?case
    using leave_wired [of rj s c "sr_chans s"] by (auto simp: call_cancel_def call_leave_def split: if_splits)
next
  case (serving_end got s)
  show ?case by (rule wired_frame [OF serving_end.IH]) simp_all
qed

text \<open>
  C38: calls to the client.  In every state of a connection the reading loop can take its next step: it never sends on a channel that
  is full or closed, and never closes one twice.  A message in the channel of a call has the identifier of that call, which no
  other call has; a call without one is still registered, so that its response will reach it.  Once the stream has ended,
  every call can return.
\<close>

theorem rpc_calls_matched:
  assumes "serving rj sv limit e input got s"
  shows "serve_line rj limit e s \<noteq> None
    \<and> (\<forall>c\<in>set (sr_calls s). \<forall>m. sr_chans s ! ca_chan c = ChanHolds m \<longrightarrow>
          (\<exists>raw. rm_id m = Some raw \<and> rj_string rj raw = Some (ca_id c)))
    \<and> (\<forall>c\<in>set (sr_calls s). \<forall>d\<in>set (sr_calls s). ca_id c = ca_id d \<longrightarrow> c = d)
    \<and> (\<forall>c\<in>set (sr_calls s). sr_chans s ! ca_chan c = ChanEmpty \<longrightarrow> gm_get (sr_pending s) (ca_id c) = Some (ca_chan c))
    \<and> (sr_stopped s \<longrightarrow> (\<forall>c\<in>set (sr_calls s). ca_request c = None \<longrightarrow> call_cancel c s \<noteq> None))"
proof (intro conjI ballI allI impI)
  have w: "wired rj s" by (rule serving_wired [OF assms])
  obtain s' new where "serve_line rj limit e s = Some (s', new)" using serve_line_wired [OF w] by blast
  then show "serve_line rj limit e s \<noteq> None" by simp
  fix c
  assume c: "c \<in> set (sr_calls s)"
  note own = call_wiredD [OF wired_call [OF w c]]
  show "\<exists>raw. rm_id m = Some raw \<and> rj_string rj raw = Some (ca_id c)" if "sr_chans s ! ca_chan c = ChanHolds m" for m
    by (rule own(4) [OF that])
  show "c = d" if "d \<in> set (sr_calls s)" "ca_id c = ca_id d" for d
    using wired_distinct(1) [OF w] c that by (auto simp: distinct_map dest: inj_onD)
  show "gm_get (sr_pending s) (ca_id c) = Some (ca_chan c)" if "sr_chans s ! ca_chan c = ChanEmpty"
    using own(5) [OF that] gm_get_in [OF wired_ok(1) [OF w]] by blast
  show "call_cancel c s \<noteq> None" if "sr_stopped s" "ca_request c = None"
    using w that by (simp add: wired_def call_cancel_def)
qed

subsection \<open>Responses\<close>

definition responses :: "bytes \<Rightarrow> rpc_message list \<Rightarrow> nat" where
  "responses x ms = length (filter (\<lambda>m. rm_method m = [] \<and> rm_id m = Some x) ms)"

definition requests :: "bytes \<Rightarrow> rpc_message list \<Rightarrow> nat" where
  "requests x ms = length (filter (\<lambda>m. rm_id m = Some x) ms)"

lemma responses_append [simp]: "responses x (ms @ ns) = responses x ms + responses x ns"
  by (simp add: responses_def)

lemma requests_append [simp]: "requests x (ms @ ns) = requests x ms + requests x ns"
  by (simp add: requests_def)

lemma responses_Nil [simp]: "responses x [] = 0" and requests_Nil [simp]: "requests x [] = 0"
  by (simp_all add: responses_def requests_def)

lemma requests_remove1: "m \<in> set ms \<Longrightarrow> requests x ms = requests x (remove1 m ms) + requests x [m]"
  by (induction ms) (auto simp: requests_def)

lemma reply_responses:
  "x \<noteq> ''null'' \<Longrightarrow> responses x (reply rid r) = (if rid = Some x then 1 else 0)"
  by (cases rid; cases r) (auto simp: reply_def responses_def Let_def split: option.split)

lemma handle_reply: "\<exists>r. handle rj sv run msg = reply (rm_id msg) r"
  unfolding handle_def by (auto split: sum.split outcome.split)

lemma handle_responses: "x \<noteq> ''null'' \<Longrightarrow> responses x (handle rj sv run msg) = requests x [msg]"
  using handle_reply [of rj sv run msg] by (auto simp: reply_responses requests_def)

lemma notify_responses: "name \<noteq> [] \<Longrightarrow> responses x (sr_out (notify name data s)) = responses x (sr_out s)"
  by (auto simp: notify_def write_out_def notification_def responses_def split: option.split)

lemma call_write_responses: "wired rj s \<Longrightarrow> c \<in> set (sr_calls s) \<Longrightarrow>
   responses x (sr_out (call_write c s)) = responses x (sr_out s) \<and> sr_running (call_write c s) = sr_running s"
  using call_wiredD(3) [OF wired_call, of rj s c]
  by (auto simp: call_write_def write_out_def responses_def split: option.split)

lemma resolve_frame: "resolve rj msg s = Some s' \<Longrightarrow> sr_out s' = sr_out s \<and> sr_running s' = sr_running s"
  by (auto simp: resolve_def Let_def split: option.splits)

lemma fail_pending_frame: "fail_pending s = Some s' \<Longrightarrow> sr_out s' = sr_out s \<and> sr_running s' = sr_running s"
  by (auto simp: fail_pending_def split: option.splits)

lemma serve_line_responses:
  assumes "serve_line rj limit e s = Some (s', new)" and "x \<noteq> ''null''"
  shows "responses x (sr_out s') = responses x (sr_out s) \<and> sr_running s' = sr_running s @ new"
  using assms
  by (auto simp: serve_line_def Let_def write_out_def reply_responses dest: resolve_frame fail_pending_frame
      split: prod.splits line.splits if_splits option.splits)

text \<open>
  C37: one response to each request.  For every identifier, the responses written and the requests still being handled are as many as
  the requests received with it, whatever the methods do: return, fail, panic or give what cannot be encoded.  (The identifier
  \<open>null\<close> is the one of errors about messages without a usable identifier.)
\<close>

theorem rpc_requests_answered:
  "serving rj sv limit e input got s \<Longrightarrow> x \<noteq> ''null'' \<Longrightarrow>
   responses x (sr_out s) + requests x (sr_running s) = requests x got"
proof (induction rule: serving.induct)
  case serving_start
  show ?case by (simp add: start_server_def)
next
  case (serving_line got s s' new)
  then show ?case using serve_line_responses [OF serving_line.hyps(3), of x] by simp
next
  case (serving_answer got s msg run)
  then show ?case using requests_remove1 [of msg "sr_running s" x] by (simp add: write_out_def handle_responses)
next
  case (serving_event got s data)
  moreover have "sr_running (notify method_event data s) = sr_running s"
    by (simp add: notify_def write_out_def split: option.split)
  ultimately show ?case by (simp add: notify_responses method_event_def)
next
  case (serving_call got s name data)
  then show ?case by (simp add: call_register_def Let_def)
next
  case (serving_write got s c)
  then show ?case using call_write_responses [OF serving_wired [OF serving_write.hyps(1)], of c x] by simp
next
  case (serving_receive got s c decode r s')
  then show ?case by (auto simp: call_receive_def call_leave_def split: if_splits chan.splits)
next
  case (serving_cancel got s c y s')
  then show ?case by (auto simp: call_cancel_def call_leave_def split: if_splits)
next
  case (serving_end got s)
  then show ?case by simp
qed

text \<open>A notification gets no response when it succeeds; when it fails it gets one with the identifier \<open>null\<close>.\<close>

lemma failing_notification_answered:
  assumes "rm_id msg = None" "rm_version msg = ''2.0''" "rm_method msg \<noteq> method_initialize" "rm_method msg \<notin> set rpc_methods"
  shows "\<exists>m. handle rj sv run msg = [m] \<and> rm_id m = Some ''null'' \<and> rm_error m \<noteq> None"
  using assms by (simp add: handle_def reply_def)

subsection \<open>Arguments\<close>

text \<open>The arguments of a call of a method: as many as it takes, each of its type.\<close>

definition args_typed :: "(string \<Rightarrow> nat \<Rightarrow> 'v \<Rightarrow> bool) \<Rightarrow> 'v rpc_service \<Rightarrow> string \<Rightarrow> 'v list \<Rightarrow> bool" where
  "args_typed ty sv name args \<longleftrightarrow> length args = sv_arity sv name \<and> (\<forall>i<length args. ty name i (args ! i))"

lemma decode_args_typed:
  assumes "\<And>i raw v. sv_decode sv name i raw = Some v \<Longrightarrow> ty name i v" and "\<And>i. ty name i (sv_zero sv name i)"
  shows "decode_args sv name params i = Inr vs \<Longrightarrow>
    length vs = sv_arity sv name - i \<and> (\<forall>j<length vs. ty name (i + j) (vs ! j))"
proof (induction "sv_arity sv name - i" arbitrary: i vs)
  case 0
  then show ?case by (subst (asm) decode_args.simps) simp
next
  case (Suc n)
  then have more: "\<not> sv_arity sv name \<le> i" "n = sv_arity sv name - (i + 1)" by simp_all
  obtain v ws where v: "vs = v # ws" "ty name i v" "decode_args sv name params (i + 1) = Inr ws"
    using Suc.prems more(1) assms
    by (subst (asm) decode_args.simps) (auto simp: res_bind_def split: if_splits option.splits sum.splits)
  have "length ws = sv_arity sv name - (i + 1)" "\<forall>j<length ws. ty name (i + 1 + j) (ws ! j)"
    using Suc.hyps(1) [OF more(2) v(3)] by blast+
  then show ?case
    using v(1,2) more(1) by (auto simp: nth_Cons split: nat.split)
qed

lemma decode_params_typed:
  assumes "\<And>i raw v. sv_decode sv name i raw = Some v \<Longrightarrow> ty name i v" and "\<And>i. ty name i (sv_zero sv name i)"
    and "decode_params rj sv name raw = Inr args"
  shows "args_typed ty sv name args"
proof -
  obtain ps where "decode_args sv name ps 0 = Inr args"
    using assms(3) by (auto simp: decode_params_def Let_def split: option.splits if_splits)
  from decode_args_typed [of sv name ty, OF assms(1,2) this] show ?thesis by (simp add: args_typed_def)
qed

text \<open>
  C36: calls are well typed.  Whatever a client sends, a method is only called with as many arguments as it takes, each of its
  type: two services that agree on such calls answer every message alike.
\<close>

theorem rpc_calls_typed:
  assumes "\<And>name i raw v. sv_decode sv name i raw = Some v \<Longrightarrow> ty name i v" and "\<And>name i. ty name i (sv_zero sv name i)"
    and "\<And>name args. name \<in> set rpc_methods \<Longrightarrow> args_typed ty sv name args \<Longrightarrow> run name args = run' name args"
  shows "handle rj sv run msg = handle rj sv run' msg"
proof (cases "rm_method msg \<in> set rpc_methods")
  case True
  show ?thesis
  proof (cases "decode_params rj sv (rm_method msg) (rm_params msg)")
    case (Inr args)
    from decode_params_typed [of sv "rm_method msg" ty, OF assms(1,2) Inr]
    show ?thesis using assms(3) [OF True] by (simp add: handle_def Inr)
  qed (simp add: handle_def)
qed (simp add: handle_def)

subsection \<open>A connection\<close>

text \<open>The line \<open>q\<close> is a request with the identifier \<open>1\<close>, the line \<open>a\<close> the response to the first request of the server.\<close>

definition sample_hello :: rpc_message where
  "sample_hello = (notification method_initialize [])\<lparr>rm_id := Some ''1''\<rparr>"

definition sample_response :: rpc_message where
  "sample_response = (notification [] [])\<lparr>rm_id := Some ''S'', rm_params := None, rm_result := Some ''r''\<rparr>"

definition sample_rpc_json :: rpc_json where
  "sample_rpc_json = \<lparr>
     rj_message = (\<lambda>b. if b = ''q'' then Some (sample_hello, None) else if b = ''a'' then Some (sample_response, None) else None),
     rj_error = (\<lambda>_. None), rj_payload_code = (\<lambda>_. None), rj_array = (\<lambda>_. None),
     rj_string = (\<lambda>b. if b = ''S'' then Some (call_id 1) else None), rj_quote = (\<lambda>_. ''S''), rj_init = (\<lambda>_. Some ''i'')\<rparr>"

definition sample_rpc_service :: "string rpc_service" where
  "sample_rpc_service = \<lparr>sv_has = (\<lambda>_. True), sv_arity = (\<lambda>_. 0), sv_decode = (\<lambda>_ _ _. None), sv_zero = (\<lambda>_ _. []),
     sv_type = (\<lambda>_ _. ''string''), sv_app_version = ''1''\<rparr>"

lemma sample_trim: "trim_space [CHR ''q'', newline] = ''q''" "trim_space [CHR ''a'', newline] = ''a''"
  by code_simp+

lemma sample_line:
  "read_line 16 StreamEof (''q'' @ newline # rest) = (LineIs ''q'', rest)"
  "read_line 16 StreamEof (''a'' @ newline # rest) = (LineIs ''a'', rest)"
proof -
  have "newline \<notin> set ''q''" "newline \<notin> set ''a''" by (simp_all add: newline_def)
  from this [THEN read_line_line, of 16 StreamEof rest]
  show "read_line 16 StreamEof (''q'' @ newline # rest) = (LineIs ''q'', rest)"
    "read_line 16 StreamEof (''a'' @ newline # rest) = (LineIs ''a'', rest)"
    by (simp_all add: sample_trim)
qed

lemma sample_messages:
  "unmarshal_message sample_rpc_json ''q'' = Some sample_hello" "unmarshal_message sample_rpc_json ''a'' = Some sample_response"
  by (simp_all add: unmarshal_message_def sample_rpc_json_def sample_hello_def sample_response_def notification_def)

theorem rpc_requests_answered_witness:
  "\<exists>s. serving sample_rpc_json sample_rpc_service 16 StreamEof (''q'' @ [newline]) [sample_hello] s
     \<and> sr_running s = [] \<and> responses ''1'' (sr_out s) = 1"
proof -
  let ?s0 = "start_server (''q'' @ [newline])"
  let ?s1 = "?s0\<lparr>sr_input := [], sr_running := [sample_hello]\<rparr>"
  let ?s2 = "write_out (handle sample_rpc_json sample_rpc_service (\<lambda>_ _. Panics) sample_hello)
      (?s1\<lparr>sr_running := remove1 sample_hello (sr_running ?s1)\<rparr>)"
  have line: "serve_line sample_rpc_json 16 StreamEof ?s0 = Some (?s1, [sample_hello])"
    using sample_line(1) [of "[]"] sample_messages(1)
    by (simp add: serve_line_def start_server_def) (simp add: sample_hello_def notification_def method_initialize_def)
  have "serving sample_rpc_json sample_rpc_service 16 StreamEof (''q'' @ [newline]) ([] @ [sample_hello]) ?s1"
    by (rule serving_line [OF serving_start _ line]) (simp add: start_server_def)
  then have run: "serving sample_rpc_json sample_rpc_service 16 StreamEof (''q'' @ [newline]) [sample_hello] ?s2"
    by (intro serving_answer) simp_all
  have "sr_running ?s2 = []" by (simp add: write_out_def)
  moreover from rpc_requests_answered [OF run, of "''1''"] have "responses ''1'' (sr_out ?s2) = 1"
    using calculation by (simp add: requests_def sample_hello_def)
  ultimately show ?thesis using run by (intro exI [of _ ?s2] conjI)
qed

theorem rpc_calls_matched_witness:
  "\<exists>s c m. serving sample_rpc_json sample_rpc_service 16 StreamEof (''a'' @ [newline]) [] s \<and> c \<in> set (sr_calls s)
     \<and> sr_chans s ! ca_chan c = ChanHolds m \<and> (\<exists>raw. rm_id m = Some raw \<and> rj_string sample_rpc_json raw = Some (ca_id c))"
proof -
  let ?in = "''a'' @ [newline]"
  let ?serving = "serving sample_rpc_json sample_rpc_service 16 StreamEof ?in []"
  obtain s1 c m where s1: "call_register sample_rpc_json method_pick_dir ''null'' (start_server ?in) = s1"
    "sr_calls s1 = [c]" "ca_chan c = 0" "ca_id c = call_id 1" "ca_request c = Some m"
    "sr_pending s1 = [(call_id 1, 0)]" "sr_chans s1 = [ChanEmpty]" "sr_input s1 = ?in" "\<not> sr_stopped s1"
    by (simp add: call_register_def start_server_def Let_def gm_put_def)
  let ?d = "c\<lparr>ca_request := None\<rparr>"
  have s2: "sr_calls (call_write c s1) = [?d]" "sr_pending (call_write c s1) = [(call_id 1, 0)]"
    "sr_chans (call_write c s1) = [ChanEmpty]" "sr_input (call_write c s1) = ?in" "\<not> sr_stopped (call_write c s1)"
    using s1 by (simp_all add: call_write_def write_out_def)
  have "?serving s1" unfolding s1(1) [symmetric] by (rule serving_call [OF serving_start]) simp
  then have r2: "?serving (call_write c s1)" by (rule serving_write) (simp add: s1(2))
  let ?s3 = "(call_write c s1)\<lparr>sr_input := [], sr_pending := [], sr_chans := [ChanHolds sample_response]\<rparr>"
  have "resolve sample_rpc_json sample_response ((call_write c s1)\<lparr>sr_input := []\<rparr>) = Some ?s3"
    using s2(2,3) by (simp add: resolve_def sample_response_def sample_rpc_json_def gm_get_def gm_del_def Let_def)
  then have "serve_line sample_rpc_json 16 StreamEof (call_write c s1) = Some (?s3, [])"
    using sample_line(2) [of "[]"] sample_messages(2) s2(4)
    by (simp add: serve_line_def) (simp add: sample_response_def notification_def)
  from serving_line [OF r2 s2(5) this]
  have r3: "?serving ?s3" by simp
  have d: "?d \<in> set (sr_calls ?s3)" "sr_chans ?s3 ! ca_chan ?d = ChanHolds sample_response"
    using s2(1) s1(3) by simp_all
  from rpc_calls_matched [OF r3, THEN conjunct2, THEN conjunct1, rule_format, OF d]
  have "\<exists>raw. rm_id sample_response = Some raw \<and> rj_string sample_rpc_json raw = Some (ca_id ?d)" .
  then show ?thesis using r3 d by blast
qed

text \<open>A service whose methods take one string, which is never empty, and panic when it is.\<close>

definition strict_service :: "string rpc_service" where
  "strict_service = sample_rpc_service\<lparr>sv_arity := (\<lambda>_. 1), sv_decode := (\<lambda>_ _ raw. if raw = [] then None else Some raw),
     sv_zero := (\<lambda>_ _. ''z'')\<rparr>"

theorem rpc_calls_typed_witness:
  "handle sample_rpc_json strict_service (\<lambda>_ args. if length args = 1 \<and> hd args \<noteq> [] then Returns (Some ''ok'') else Panics)
       ((notification ''Logout'' [])\<lparr>rm_id := Some ''1''\<rparr>)
     = handle sample_rpc_json strict_service (\<lambda>_ _. Returns (Some ''ok'')) ((notification ''Logout'' [])\<lparr>rm_id := Some ''1''\<rparr>)"
proof (rule rpc_calls_typed [where ty = "\<lambda>_ _ v. v \<noteq> []"])
  show "v \<noteq> []" if "sv_decode strict_service name i raw = Some v" for name i raw v
    using that by (auto simp: strict_service_def split: if_splits)
  show "sv_zero strict_service name i \<noteq> []" for name i by (simp add: strict_service_def)
  show "(if length args = 1 \<and> hd args \<noteq> [] then Returns (Some ''ok'') else Panics) = Returns (Some ''ok'')"
    if "args_typed (\<lambda>_ _ v. v \<noteq> []) strict_service name args" for name args
    using that by (cases args) (auto simp: args_typed_def strict_service_def)
qed

end
