(* ===== verification/Desktop.thy ===== *)
theory Desktop
  imports Auth Founding Compact Artifacts
begin

text \<open>
  The service behind the desktop app and the editor extensions, \<open>desktop/service.go\<close>, with \<open>desktop/repo.go\<close>,
  \<open>pkg/config/gui.go\<close> and \<open>ParseGitHubRemote\<close>: the sign-in sessions a frontend polls, the selected repository and the
  list of known ones, the entries of \<open>.gitignore\<close>, and the calls that do more than pass on to \<open>app\<close>.  Each locked section of
  the service is one step.
\<close>

subsection \<open>Sign-in sessions\<close>

record oauth_status =
  os_state :: string
  os_error :: "payload option"
  os_username :: string

record oauth_session =
  se_expires :: int
  se_status :: oauth_status

text \<open>The sessions, and those whose login context has been cancelled.\<close>

record oauth_sessions =
  oa_sessions :: "(string, oauth_session) gomap"
  oa_cancelled :: "string list"

definition no_sessions :: oauth_sessions where
  "no_sessions = \<lparr>oa_sessions = [], oa_cancelled = []\<rparr>"

definition pending_status :: oauth_status where
  "pending_status = \<lparr>os_state = ''pending'', os_error = None, os_username = []\<rparr>"

definition expired_status :: oauth_status where
  "expired_status = \<lparr>os_state = ''expired'', os_error = Some (payload_of (app_new CodeAuthExpired [])), os_username = []\<rparr>"

definition login_lifetime :: int where "login_lifetime = 10 * minute"

text \<open>\<open>StartOAuthLogin\<close>: it cancels every session and leaves only its own.\<close>

definition start_login :: "int \<Rightarrow> string \<Rightarrow> oauth_sessions \<Rightarrow> oauth_sessions" where
  "start_login now sid s =
     \<lparr>oa_sessions = [(sid, \<lparr>se_expires = now + login_lifetime, se_status = pending_status\<rparr>)],
      oa_cancelled = map fst (oa_sessions s) @ oa_cancelled s\<rparr>"

text \<open>How a login ends: with its token, or an error, which may be the one of its context.\<close>

definition login_status :: "bool \<Rightarrow> go_error + stored_token \<Rightarrow> oauth_status" where
  "login_status of_context r =
     (case r of
        Inr tok \<Rightarrow> \<lparr>os_state = ''success'', os_error = None, os_username = tk_username tok\<rparr>
      | Inl e \<Rightarrow>
          if of_context then expired_status
          else \<lparr>os_state = (if app_is e CodeAccessDenied then ''denied'' else ''error''), os_error = Some (payload_of e),
                 os_username = []\<rparr>)"

text \<open>\<open>setOAuthStatus\<close>, and the cancellation of the login context when the login returns.\<close>

definition set_oauth_status :: "int \<Rightarrow> string \<Rightarrow> oauth_status \<Rightarrow> oauth_sessions \<Rightarrow> oauth_sessions" where
  "set_oauth_status now sid st s =
     (case gm_get (oa_sessions s) sid of
        None \<Rightarrow> s
      | Some se \<Rightarrow>
          if os_state (se_status se) \<noteq> ''pending'' then s
          else s\<lparr>oa_sessions := gm_put sid (se\<lparr>se_status := (if \<not> now < se_expires se then expired_status else st)\<rparr>)
                                  (oa_sessions s)\<rparr>)"

definition finish_login :: "int \<Rightarrow> string \<Rightarrow> bool \<Rightarrow> go_error + stored_token \<Rightarrow> oauth_sessions \<Rightarrow> oauth_sessions" where
  "finish_login now sid of_context r s =
     (let s' = set_oauth_status now sid (login_status of_context r) s in s'\<lparr>oa_cancelled := sid # oa_cancelled s'\<rparr>)"

definition get_oauth_status :: "int \<Rightarrow> string \<Rightarrow> oauth_sessions \<Rightarrow> oauth_sessions \<times> oauth_status" where
  "get_oauth_status now sid s =
     (case gm_get (oa_sessions s) sid of
        None \<Rightarrow> (s, expired_status)
      | Some se \<Rightarrow>
          if \<not> now < se_expires se \<and> os_state (se_status se) = ''pending''
          then (\<lparr>oa_sessions = gm_put sid (se\<lparr>se_status := expired_status\<rparr>) (oa_sessions s),
                 oa_cancelled = sid # oa_cancelled s\<rparr>, expired_status)
          else (s, se_status se))"

definition cancel_login :: "string \<Rightarrow> oauth_sessions \<Rightarrow> oauth_sessions" where
  "cancel_login sid s =
     (if \<not> gm_has (oa_sessions s) sid then s
      else \<lparr>oa_sessions = gm_del sid (oa_sessions s), oa_cancelled = sid # oa_cancelled s\<rparr>)"

text \<open>
  What \<open>StartOAuthLogin\<close> answers: when the browser has opened, when the login has ended before that, and when the service ends.
\<close>

datatype start_event = BrowserOpened | LoginFinished | ServiceEnded ctx_error

definition start_answer ::
  "int \<Rightarrow> string \<Rightarrow> int \<Rightarrow> start_event \<Rightarrow> oauth_sessions \<Rightarrow> oauth_sessions \<times> (string \<times> int) app_result" where
  "start_answer now sid expires ev s =
     (case ev of
        BrowserOpened \<Rightarrow> (s, Inr (sid, expires))
      | LoginFinished \<Rightarrow>
          (case get_oauth_status now sid s of
             (s', st) \<Rightarrow>
               (s', if os_state st = ''success'' then Inr (sid, expires)
                    else case os_error st of
                      None \<Rightarrow> Inl (Plain CauseOther)
                    | Some p \<Rightarrow> Inl (app_new (pl_code p) (pl_params p))))
      | ServiceEnded e \<Rightarrow> (s\<lparr>oa_cancelled := sid # oa_cancelled s\<rparr>, Inl (ctx_fail e)))"

datatype oauth_op =
  OpStart string int | OpGet string int | OpCancel string | OpFinish string int bool "go_error + stored_token"

fun oauth_step :: "oauth_op \<Rightarrow> oauth_sessions \<Rightarrow> oauth_sessions" where
  "oauth_step (OpStart sid now) s = start_login now sid s"
| "oauth_step (OpGet sid now) s = fst (get_oauth_status now sid s)"
| "oauth_step (OpCancel sid) s = cancel_login sid s"
| "oauth_step (OpFinish sid now of_context r) s = finish_login now sid of_context r s"

definition oauth_run :: "oauth_op list \<Rightarrow> oauth_sessions \<Rightarrow> oauth_sessions" where
  "oauth_run ops s = foldl (\<lambda>s op. oauth_step op s) s ops"

subsection \<open>Repositories\<close>

record gui_config =
  gc_selected :: string
  gc_history :: "string list"

record repository =
  rp_root :: string
  rp_origin :: string
  rp_has_git :: bool
  rp_has_remote :: bool

record selected_repo =
  sl_path :: string
  sl_owner :: string
  sl_repo :: string
  sl_has_git :: bool
  sl_has_remote :: bool

text \<open>
  What the service uses: the TOML codec of its own settings, whether their file can be read and written, absolute paths and
  directories of the system, git, URL parsing (scheme, host name and path), the project of a directory, and the keys of the device
  for the workspace of a directory.
\<close>

record desk_lib =
  dk_decode :: "bytes \<Rightarrow> gui_config option"
  dk_encode :: "gui_config \<Rightarrow> bytes option"
  dk_unreadable :: bool
  dk_unwritable :: bool
  dk_abs :: "string \<Rightarrow> string option"
  dk_is_dir :: "string \<Rightarrow> bool"
  dk_inspect :: "string \<Rightarrow> repository option"
  dk_parse_url :: "string \<Rightarrow> (string \<times> string \<times> string) option"
  dk_project :: "string \<Rightarrow> project_config app_result"
  dk_identities :: "string \<Rightarrow> nat app_result"

text \<open>The file of the settings, the selected path, and the directory the app works in.\<close>

record desktop =
  dt_file :: local_file
  dt_repo :: string
  dt_dir :: string

definition load_gui :: "desk_lib \<Rightarrow> desktop \<Rightarrow> gui_config app_result" where
  "load_gui dk s =
     (case dt_file s of
        None \<Rightarrow> Inr \<lparr>gc_selected = [], gc_history = []\<rparr>
      | Some data \<Rightarrow>
          if dk_unreadable dk then Inl (Plain CauseOther)
          else (case dk_decode dk data of None \<Rightarrow> Inl (Plain CauseOther) | Some c \<Rightarrow> Inr c))"

text \<open>\<open>SaveGUI\<close> writes a temporary file and renames it: a failure leaves the old file.\<close>

definition save_gui :: "desk_lib \<Rightarrow> gui_config \<Rightarrow> desktop \<Rightarrow> desktop \<times> unit app_result" where
  "save_gui dk c s =
     (case dk_encode dk c of
        None \<Rightarrow> (s, Inl (Plain CauseOther))
      | Some data \<Rightarrow> if dk_unwritable dk then (s, Inl (Plain CauseOther)) else (s\<lparr>dt_file := Some data\<rparr>, Inr ()))"

text \<open>\<open>ParseGitHubRemote\<close>.\<close>

definition cut_suffix :: "string \<Rightarrow> string \<Rightarrow> string" where
  "cut_suffix suf s = (if length suf \<le> length s \<and> drop (length s - length suf) s = suf then take (length s - length suf) s else s)"

definition parse_github_remote :: "desk_lib \<Rightarrow> string \<Rightarrow> (string \<times> string) option" where
  "parse_github_remote dk remote =
     (case (if starts_with ''git@github.com:'' remote then Some (drop (length ''git@github.com:'') remote)
            else case dk_parse_url dk remote of
              None \<Rightarrow> None
            | Some (scheme, host, path) \<Rightarrow>
                if scheme \<notin> {''https'', ''ssh''} \<or> host \<noteq> ''github.com'' then None else Some path) of
        None \<Rightarrow> None
      | Some path \<Rightarrow>
          let path = cut_suffix ''.git'' (trim_slashes path); owner = before CHR ''/'' path; repo = after CHR ''/'' path
          in if CHR ''/'' \<notin> set path \<or> owner = [] \<or> repo = [] \<or> CHR ''/'' \<in> set repo then None else Some (owner, repo))"

definition validate_repo_path :: "desk_lib \<Rightarrow> string \<Rightarrow> selected_repo app_result" where
  "validate_repo_path dk given =
     (let path = trim_space given
      in if path = [] then Inl (Plain CauseOther)
         else case dk_abs dk path of
           None \<Rightarrow> Inl (Plain CauseOther)
         | Some full \<Rightarrow>
             if \<not> dk_is_dir dk full then Inl (Plain CauseOther)
             else (case dk_inspect dk full of
                     None \<Rightarrow> Inl (Plain CauseOther)
                   | Some r \<Rightarrow>
                       let named = (if rp_has_remote r then parse_github_remote dk (rp_origin r) else None)
                       in Inr \<lparr>sl_path = rp_root r, sl_owner = (case named of None \<Rightarrow> [] | Some (ow, _) \<Rightarrow> ow),
                            sl_repo = (case named of None \<Rightarrow> [] | Some (_, re) \<Rightarrow> re),
                            sl_has_git = rp_has_git r, sl_has_remote = rp_has_remote r\<rparr>))"

text \<open>\<open>repoPathKey\<close> on Unix.\<close>

definition repo_path_key :: "string \<Rightarrow> string" where
  "repo_path_key p = clean_path p"

text \<open>The loop of \<open>appendUnique\<close>, and of \<open>ListRepositories\<close>: the first of the entries with the same key.\<close>

fun unique_paths :: "string list \<Rightarrow> string list \<Rightarrow> string list" where
  "unique_paths seen [] = []"
| "unique_paths seen (p # ps) =
     (if repo_path_key p \<in> set seen then unique_paths seen ps else p # unique_paths (repo_path_key p # seen) ps)"

definition append_unique :: "string list \<Rightarrow> string \<Rightarrow> string list" where
  "append_unique ps p =
     (if repo_path_key p \<in> set (map repo_path_key ps) then unique_paths [] ps else unique_paths [] ps @ [p])"

record repo_info =
  ri_repo :: selected_repo
  ri_storage :: bool
  ri_initialized :: bool

text \<open>\<open>withRepoPathResult\<close> points the app at the directory before it calls.\<close>

definition repo_info_of :: "desk_lib \<Rightarrow> selected_repo \<Rightarrow> desktop \<Rightarrow> desktop \<times> repo_info" where
  "repo_info_of dk r s =
     (s\<lparr>dt_dir := sl_path r\<rparr>,
      case dk_project dk (sl_path r) of
        Inl _ \<Rightarrow> \<lparr>ri_repo = r, ri_storage = False, ri_initialized = False\<rparr>
      | Inr cfg \<Rightarrow> \<lparr>ri_repo = r, ri_storage = (sc_url (pc_storage cfg) \<noteq> []),
                      ri_initialized = (case dk_identities dk (sl_path r) of Inl _ \<Rightarrow> False | Inr n \<Rightarrow> 0 < n)\<rparr>)"

definition select_repository :: "desk_lib \<Rightarrow> string \<Rightarrow> desktop \<Rightarrow> desktop \<times> repo_info app_result" where
  "select_repository dk path s =
     (case validate_repo_path dk path of
        Inl e \<Rightarrow> (s, Inl (app_wrap CodeInvalidArgument (Some e) []))
      | Inr r \<Rightarrow>
          let c = (case load_gui dk s of Inl _ \<Rightarrow> \<lparr>gc_selected = [], gc_history = []\<rparr> | Inr c \<Rightarrow> c);
              c = c\<lparr>gc_selected := sl_path r, gc_history := append_unique (gc_history c) (sl_path r)\<rparr>
          in (case save_gui dk c s of
                (s1, Inl e) \<Rightarrow> (s1, Inl e)
              | (s1, Inr _) \<Rightarrow>
                  (case repo_info_of dk r (s1\<lparr>dt_repo := sl_path r, dt_dir := sl_path r\<rparr>) of (s2, info) \<Rightarrow> (s2, Inr info))))"

text \<open>\<open>BrowseRepository\<close>: \<open>pick\<close> is what the directory dialog gives, if there is one.\<close>

definition browse_repository :: "desk_lib \<Rightarrow> string app_result option \<Rightarrow> desktop \<Rightarrow> desktop \<times> repo_info option app_result" where
  "browse_repository dk pick s =
     (case pick of
        None \<Rightarrow> (s, Inl (Plain CauseOther))
      | Some (Inl e) \<Rightarrow> (s, Inl e)
      | Some (Inr path) \<Rightarrow>
          if path = [] then (s, Inr None)
          else (case select_repository dk path s of (s', r) \<Rightarrow> (s', map_sum id Some r)))"

fun list_repositories_loop :: "desk_lib \<Rightarrow> string list \<Rightarrow> desktop \<Rightarrow> desktop \<times> repo_info list" where
  "list_repositories_loop dk [] s = (s, [])"
| "list_repositories_loop dk (p # ps) s =
     (case validate_repo_path dk p of
        Inl _ \<Rightarrow> list_repositories_loop dk ps s
      | Inr r \<Rightarrow>
          (case repo_info_of dk r s of
             (s1, info) \<Rightarrow> (case list_repositories_loop dk ps s1 of (s2, infos) \<Rightarrow> (s2, info # infos))))"

definition list_repositories :: "desk_lib \<Rightarrow> desktop \<Rightarrow> desktop \<times> repo_info list app_result" where
  "list_repositories dk s =
     (case load_gui dk s of
        Inl e \<Rightarrow> (s, Inl e)
      | Inr c \<Rightarrow> (case list_repositories_loop dk (unique_paths [] (gc_history c)) s of (s', infos) \<Rightarrow> (s', Inr infos)))"

text \<open>\<open>RemoveRepository\<close> forgets the selected path before the settings are saved.\<close>

definition remove_repository :: "desk_lib \<Rightarrow> string \<Rightarrow> desktop \<Rightarrow> desktop \<times> unit app_result" where
  "remove_repository dk path s =
     (case load_gui dk s of
        Inl e \<Rightarrow> (s, Inl e)
      | Inr c \<Rightarrow>
          let c1 = c\<lparr>gc_history := filter (\<lambda>p. repo_path_key p \<noteq> repo_path_key path) (gc_history c)\<rparr>
          in if gc_selected c1 \<noteq> [] \<and> repo_path_key (gc_selected c1) = repo_path_key path
             then save_gui dk (c1\<lparr>gc_selected := []\<rparr>) (s\<lparr>dt_repo := []\<rparr>)
             else save_gui dk c1 s)"

definition load_selected_repo :: "desk_lib \<Rightarrow> desktop \<Rightarrow> desktop" where
  "load_selected_repo dk s =
     (case load_gui dk s of
        Inl _ \<Rightarrow> s
      | Inr c \<Rightarrow>
          if gc_selected c = [] then s
          else (case validate_repo_path dk (gc_selected c) of
                  Inl _ \<Rightarrow> s
                | Inr r \<Rightarrow> s\<lparr>dt_repo := sl_path r, dt_dir := sl_path r\<rparr>))"

definition get_repo_status :: "desk_lib \<Rightarrow> desktop \<Rightarrow> desktop \<times> repo_info option app_result" where
  "get_repo_status dk s =
     (if dt_repo s = [] then (s, Inr None)
      else case validate_repo_path dk (dt_repo s) of
        Inl e \<Rightarrow> (s, Inl e)
      | Inr r \<Rightarrow> (case repo_info_of dk r s of (s', info) \<Rightarrow> (s', Inr (Some info))))"

text \<open>\<open>withRepo\<close>: the call runs in the directory that was selected when it began.\<close>

definition with_repo :: "(string \<Rightarrow> 's \<Rightarrow> 's) \<Rightarrow> string \<Rightarrow> ('s, 'a) act \<Rightarrow> ('s, 'a) act" where
  "with_repo set_dir path f s = (if path = [] then (s, Inl (Plain CauseOther)) else f (set_dir path s))"

subsection \<open>The entries of .gitignore\<close>

definition desktop_gitignore_entries :: "string list" where
  "desktop_gitignore_entries = [''.env'', ''.env.*'', ''!.env.example'']"

text \<open>The outputs of the environments; one that would read as a comment or a negation is escaped.\<close>

definition gitignore_entry :: "string \<Rightarrow> string option" where
  "gitignore_entry given =
     (let output = trim_space given
      in if output = [] \<or> is_abs output then None
         else if hd output \<in> {CHR ''#'', CHR ''!''} then Some (backslash # output) else Some output)"

definition project_gitignore_entries :: "project_config \<Rightarrow> string list" where
  "project_gitignore_entries cfg =
     concat (map (\<lambda>name. case cfg_environment cfg name of
         Inl _ \<Rightarrow> []
       | Inr env \<Rightarrow> (case gitignore_entry (ec_output env) of None \<Rightarrow> [] | Some e \<Rightarrow> [e])) (environment_names cfg))"

fun missing_entries :: "string set \<Rightarrow> string list \<Rightarrow> string list" where
  "missing_entries seen [] = []"
| "missing_entries seen (e # es) =
     (let entry = trim_space e
      in if entry \<noteq> [] \<and> entry \<notin> seen then entry # missing_entries (insert entry seen) es else missing_entries seen es)"

definition gitignore_missing :: "string list \<Rightarrow> bytes \<Rightarrow> string list" where
  "gitignore_missing extra existing =
     missing_entries (set (map trim_space (split_char newline existing))) (desktop_gitignore_entries @ extra)"

text \<open>What is appended: a line end when the last line has none, a comment and the missing entries.\<close>

definition gitignore_text :: "string list \<Rightarrow> bytes \<Rightarrow> bytes" where
  "gitignore_text absent existing =
     (if existing \<noteq> [] \<and> last existing \<noteq> newline then [newline] else [])
     @ [newline] @ ''# enbu - exclude .env files'' @ [newline] @ join_lines absent @ [newline]"

text \<open>
  \<open>ensureGitignore\<close>.  A file that cannot be read counts as empty; \<open>gi_cut\<close> is after how many bytes the writes fail, if they do.
\<close>

record gitignore_io =
  gi_unreadable :: bool
  gi_unopenable :: bool
  gi_cut :: "nat option"

definition ensure_gitignore :: "gitignore_io \<Rightarrow> string list \<Rightarrow> local_file \<Rightarrow> local_file \<times> unit app_result" where
  "ensure_gitignore io extra file =
     (let existing = (case file of None \<Rightarrow> [] | Some b \<Rightarrow> if gi_unreadable io then [] else b);
          absent = gitignore_missing extra existing; content = (case file of None \<Rightarrow> [] | Some b \<Rightarrow> b)
      in if absent = [] then (file, Inr ())
         else if gi_unopenable io then (file, Inl (Plain CauseOther))
         else (case gi_cut io of
                 Some n \<Rightarrow> (Some (content @ take n (gitignore_text absent existing)), Inl (Plain CauseOther))
               | None \<Rightarrow> (Some (content @ gitignore_text absent existing), Inr ())))"

text \<open>\<open>WriteConfig\<close>: the outputs of the new configuration are excluded before it is saved.\<close>

definition service_write_config ::
  "toml_lib \<Rightarrow> config_io \<Rightarrow> gitignore_io \<Rightarrow> bytes \<Rightarrow> config_files \<times> local_file
    \<Rightarrow> (config_files \<times> local_file) \<times> unit app_result" where
  "service_write_config tm io gio content s =
     (case parse_project tm content of
        Inl e \<Rightarrow> (s, Inl (app_wrap CodeInvalidArgument (Some e) []))
      | Inr cfg \<Rightarrow>
      case validate_project_outputs cfg of
        Inl e \<Rightarrow> (s, Inl (app_wrap CodeInvalidArgument (Some e) []))
      | Inr _ \<Rightarrow>
          (case ensure_gitignore gio (project_gitignore_entries cfg) (snd s) of
             (ignored, Inl e) \<Rightarrow> ((fst s, ignored), Inl (Wrapping [e]))
           | (ignored, Inr _) \<Rightarrow>
               (case write_config tm io content (fst s) of (fs, r) \<Rightarrow> ((fs, ignored), r))))"

subsection \<open>Calls that do more than pass on\<close>

text \<open>\<open>Initialize\<close>.  \<open>named\<close> is whether \<open>enbu.toml\<close> can be read and names a storage.\<close>

definition service_initialize ::
  "'s init_env \<Rightarrow> bool \<Rightarrow> storage_config \<Rightarrow> bool \<Rightarrow> ('s, init_result) act" where
  "service_initialize su named sc accept =
     (if sc_url sc \<noteq> [] \<and> named then act_fail (app_new CodeInvalidArgument [])
      else initialize_repository
             (su\<lparr>su_init_storage := (if sc_url sc \<noteq> [] then Some sc else None), su_accept_new := accept\<rparr>))"

text \<open>\<open>DeleteEnvironment\<close> without purging: the incarnation the stored revisions can be purged by later.\<close>

definition service_forget_environment ::
  "toml_lib \<Rightarrow> (string \<Rightarrow> bool) \<Rightarrow> config_io \<Rightarrow> string \<Rightarrow> config_files \<Rightarrow> config_files \<times> string app_result" where
  "service_forget_environment tm uuid_ok io name fs =
     (case list_environments tm uuid_ok io fs of
        Inl e \<Rightarrow> (fs, Inl e)
      | Inr envs \<Rightarrow>
          let inc = foldl (\<lambda>inc env. if ei_name env = name then ei_incarnation env else inc) [] envs
          in (case delete_environment tm uuid_ok io name fs of
                (fs', Inl e) \<Rightarrow> (fs', Inl e)
              | (fs', Inr _) \<Rightarrow> (fs', Inr inc)))"

text \<open>\<open>ListSecrets\<close>: the name of the environment and its secrets in the order of their keys.\<close>

definition service_list_secrets :: "'s app \<Rightarrow> string \<Rightarrow> ('s, string \<times> (string \<times> string) list) act" where
  "service_list_secrets ap env =
     act_bind (list_secrets ap env) (\<lambda>found.
     act_bind (act_try (normalized (ap_load_project ap))) (\<lambda>cfg.
       let secrets = (case found of None \<Rightarrow> [] | Some m \<Rightarrow> m);
           current = (case cfg of Inl _ \<Rightarrow> [] | Inr c \<Rightarrow> current_environment c)
       in act_ok (if env = [] then current else env,
            map (\<lambda>k. (k, case gm_get secrets k of None \<Rightarrow> [] | Some v \<Rightarrow> v)) (sort (map fst secrets)))))"

text \<open>\<open>ResolveConflicts\<close>: one decision for each key.\<close>

record conflict_choice =
  co_key :: string
  co_choice :: choice

fun pick_choices :: "conflict_choice list \<Rightarrow> (string, choice) gomap \<Rightarrow> (string, choice) gomap app_result" where
  "pick_choices [] picked = Inr picked"
| "pick_choices (c # cs) picked =
     (if gm_has picked (co_key c) then Inl (key_error CodeInvalidArgument (co_key c))
      else pick_choices cs (gm_put (co_key c) (co_choice c) picked))"

definition service_resolve_conflicts :: "'s app \<Rightarrow> string \<Rightarrow> string list \<Rightarrow> conflict_choice list \<Rightarrow> ('s, unit) act" where
  "service_resolve_conflicts ap env heads cs =
     (case pick_choices cs [] of Inl e \<Rightarrow> act_fail e | Inr picked \<Rightarrow> resolve_secrets ap env heads picked)"

text \<open>\<open>ListConflicts\<close>, \<open>ImportSecrets\<close> and \<open>randomSessionID\<close>.\<close>

definition service_list_conflicts :: "'s app \<Rightarrow> string \<Rightarrow> ('s, string \<times> conflict_set) act" where
  "service_list_conflicts ap env =
     act_bind (list_conflicts ap env) (\<lambda>found.
     if env \<noteq> [] then act_ok (env, found)
     else act_bind (act_try (normalized (ap_load_project ap))) (\<lambda>cfg.
            act_ok (case cfg of Inl _ \<Rightarrow> [] | Inr c \<Rightarrow> current_environment c, found)))"

definition service_import_secrets :: "'s app \<Rightarrow> string \<Rightarrow> bytes \<Rightarrow> bool \<Rightarrow> ('s, unit) act" where
  "service_import_secrets ap env dotenv overwrite =
     (case import_dotenv dotenv of
        Inl e \<Rightarrow> act_fail (app_wrap CodeInvalidArgument (Some (Plain CauseOther)) [])
      | Inr secrets \<Rightarrow> import_secrets ap env secrets overwrite)"

definition random_session_id :: "bytes option \<Rightarrow> string app_result" where
  "random_session_id entropy = (case entropy of None \<Rightarrow> Inl (Wrapping [Plain CauseOther]) | Some b \<Rightarrow> Inr (hex_encode b))"

end
