(* ===== verification/Desktop_Props.thy ===== *)
theory Desktop_Props
  imports Desktop Config_Props
begin

text \<open>
  What the service promises: the status of a sign-in session settles (\<open>oauth_status_settles\<close>) and success is that of its own
  login, in time (\<open>oauth_success_in_time\<close>); the entries of \<open>.gitignore\<close> are there afterwards and are added once
  (\<open>gitignore_covers\<close>); the list of repositories has no path twice (\<open>repository_listed_once\<close>).
\<close>

subsection \<open>Sign-in sessions\<close>

lemma expired_not_pending [simp]: "os_state expired_status = ''expired''" "os_state pending_status = ''pending''"
  by (simp_all add: expired_status_def pending_status_def)

lemma gm_get_single [simp]: "gm_get [(k, v)] k' = (if k' = k then Some v else None)"
  by (simp add: gm_get_def)

text \<open>The status a session has settled on: a status that is not pending, or that it is gone.\<close>

definition settled :: "string \<Rightarrow> oauth_status \<Rightarrow> oauth_sessions \<Rightarrow> bool" where
  "settled sid st s \<longleftrightarrow>
     (case gm_get (oa_sessions s) sid of None \<Rightarrow> True | Some se \<Rightarrow> se_status se = st \<and> os_state st \<noteq> ''pending'')"

lemma settled_get: "settled sid st s \<Longrightarrow> snd (get_oauth_status now sid s) \<in> {st, expired_status}"
  by (auto simp: settled_def get_oauth_status_def split: option.splits)

lemma get_settles:
  "get_oauth_status now sid s = (s', st) \<Longrightarrow> os_state st \<noteq> ''pending'' \<Longrightarrow> settled sid st s'"
  by (auto simp: settled_def get_oauth_status_def split: option.splits if_splits)

lemma settled_step:
  assumes "settled sid st s" and "\<forall>t. op \<noteq> OpStart sid t"
  shows "settled sid st (oauth_step op s)"
  using assms
  by (cases op)
    (auto simp: settled_def start_login_def get_oauth_status_def cancel_login_def finish_login_def set_oauth_status_def
      split: option.splits if_splits)

lemma settled_run:
  "settled sid st s \<Longrightarrow> \<forall>op\<in>set ops. \<forall>t. op \<noteq> OpStart sid t \<Longrightarrow> settled sid st (oauth_run ops s)"
  by (induction ops arbitrary: s) (auto simp: oauth_run_def settled_step)

text \<open>
  The status of a sign-in session settles.  Once it has been reported as anything but pending, every later report of the
  session, after any logins, polls, cancellations and endings, is the same, or that the session has expired.
\<close>

theorem oauth_status_settles:
  assumes "get_oauth_status now sid s = (s', st)" and "os_state st \<noteq> ''pending''"
    and "\<forall>op\<in>set ops. \<forall>t. op \<noteq> OpStart sid t"
  shows "snd (get_oauth_status later sid (oauth_run ops s')) \<in> {st, expired_status}"
  by (rule settled_get [OF settled_run [OF get_settles [OF assms(1,2)] assms(3)]])

definition sample_token :: stored_token where
  "sample_token = \<lparr>tk_access = ''t'', tk_username = ''ann'', tk_user = 1\<rparr>"

definition sample_logins :: oauth_sessions where
  "sample_logins = oauth_run [OpStart ''a'' 0, OpFinish ''a'' 5 False (Inr sample_token)] no_sessions"

lemma sample_logins_eq: "sample_logins =
  \<lparr>oa_sessions = [(''a'', \<lparr>se_expires = login_lifetime,
      se_status = \<lparr>os_state = ''success'', os_error = None, os_username = ''ann''\<rparr>\<rparr>)], oa_cancelled = [''a'']\<rparr>"
  by (simp add: sample_logins_def oauth_run_def start_login_def finish_login_def set_oauth_status_def no_sessions_def
      gm_get_def gm_put_def login_status_def sample_token_def login_lifetime_def minute_def second_def pending_status_def)

theorem oauth_status_settles_witness:
  "snd (get_oauth_status (10 ^ 15) ''a'' (oauth_run [OpFinish ''a'' 9 False (Inl (Plain CauseOther))] sample_logins))
     = \<lparr>os_state = ''success'', os_error = None, os_username = ''ann''\<rparr>"
proof -
  let ?st = "\<lparr>os_state = ''success'', os_error = None, os_username = ''ann''\<rparr>"
  let ?ops = "[OpFinish ''a'' 9 False (Inl (Plain CauseOther))]"
  have get: "get_oauth_status 6 ''a'' sample_logins = (sample_logins, ?st)"
    by (simp add: sample_logins_eq get_oauth_status_def gm_get_def)
  have run: "oa_sessions (oauth_run ?ops sample_logins) = oa_sessions sample_logins"
    by (simp add: oauth_run_def finish_login_def set_oauth_status_def sample_logins_eq gm_get_def)
  have "snd (get_oauth_status (10 ^ 15) ''a'' (oauth_run ?ops sample_logins)) \<in> {?st, expired_status}"
    by (rule oauth_status_settles [OF get]) simp_all
  moreover have "snd (get_oauth_status (10 ^ 15) ''a'' (oauth_run ?ops sample_logins)) \<noteq> expired_status"
    using run by (simp add: get_oauth_status_def sample_logins_eq gm_get_def expired_status_def)
  ultimately show ?thesis by simp
qed

text \<open>What a run says of a session: when it was started, and the login that succeeded, if one did.\<close>

definition untouched :: "string \<Rightarrow> oauth_op list \<Rightarrow> bool" where
  "untouched sid ops \<longleftrightarrow> (\<forall>op\<in>set ops. op \<noteq> OpCancel sid \<and> (\<forall>i t. op \<noteq> OpStart i t))"

definition session_history :: "oauth_op list \<Rightarrow> string \<Rightarrow> oauth_session \<Rightarrow> bool" where
  "session_history ops sid se \<longleftrightarrow>
     (\<exists>earlier t0 rest. ops = earlier @ OpStart sid t0 # rest \<and> untouched sid rest \<and> se_expires se = t0 + login_lifetime
        \<and> (os_state (se_status se) = ''success'' \<longrightarrow>
             (\<exists>mid t b tok fin. rest = mid @ OpFinish sid t b (Inr tok) # fin \<and> t < t0 + login_lifetime
                \<and> os_username (se_status se) = tk_username tok)))"

lemma session_history_more:
  assumes "session_history ops sid se" and "op \<noteq> OpCancel sid" "\<And>i t. op \<noteq> OpStart i t" and "se_expires se' = se_expires se"
    and "os_state (se_status se') = ''success'' \<Longrightarrow>
      se_status se' = se_status se \<or> (\<exists>t b tok. op = OpFinish sid t b (Inr tok) \<and> t < se_expires se
        \<and> os_username (se_status se') = tk_username tok)"
  shows "session_history (ops @ [op]) sid se'"
proof -
  obtain earlier t0 rest where h: "ops = earlier @ OpStart sid t0 # rest" "untouched sid rest" "se_expires se = t0 + login_lifetime"
    "os_state (se_status se) = ''success'' \<longrightarrow> (\<exists>mid t b tok fin. rest = mid @ OpFinish sid t b (Inr tok) # fin
       \<and> t < t0 + login_lifetime \<and> os_username (se_status se) = tk_username tok)"
    using assms(1) unfolding session_history_def by blast
  have "\<exists>mid t b tok fin. rest @ [op] = mid @ OpFinish sid t b (Inr tok) # fin \<and> t < t0 + login_lifetime
      \<and> os_username (se_status se') = tk_username tok" if success: "os_state (se_status se') = ''success''"
    using assms(5) [OF success]
  proof
    assume same: "se_status se' = se_status se"
    then obtain mid t b tok fin where "rest = mid @ OpFinish sid t b (Inr tok) # fin" "t < t0 + login_lifetime"
      "os_username (se_status se) = tk_username tok" using h(4) success by auto
    then show ?thesis using same
      by (intro exI [of _ mid] exI [of _ t] exI [of _ b] exI [of _ tok] exI [of _ "fin @ [op]"]) simp
  next
    assume "\<exists>t b tok. op = OpFinish sid t b (Inr tok) \<and> t < se_expires se \<and> os_username (se_status se') = tk_username tok"
    then show ?thesis using h(3) by force
  qed
  moreover have "untouched sid (rest @ [op])" using h(2) assms(2,3) by (auto simp: untouched_def)
  ultimately show ?thesis
    unfolding session_history_def using h(1,3) assms(4)
    by (intro exI [of _ earlier] exI [of _ t0] exI [of _ "rest @ [op]"]) simp
qed

lemma login_status_success: "os_state (login_status b r) = ''success'' \<Longrightarrow> \<exists>tok. r = Inr tok \<and> os_username (login_status b r) = tk_username tok"
  by (auto simp: login_status_def split: sum.splits if_splits)

lemma session_history_step:
  assumes old: "\<forall>sid se. gm_get (oa_sessions s) sid = Some se \<longrightarrow> session_history ops sid se"
    and new: "gm_get (oa_sessions (oauth_step op s)) sid = Some se"
  shows "session_history (ops @ [op]) sid se"
proof (cases op)
  case (OpStart i t)
  then have "i = sid" "se = \<lparr>se_expires = t + login_lifetime, se_status = pending_status\<rparr>"
    using new by (auto simp: start_login_def gm_get_def split: if_splits)
  then show ?thesis
    unfolding session_history_def OpStart
    by (intro exI [of _ ops] exI [of _ t] exI [of _ "[]"]) (simp add: untouched_def)
next
  case (OpGet i t)
  then obtain se0 where "gm_get (oa_sessions s) sid = Some se0" "se_expires se = se_expires se0"
    "se = se0 \<or> se_status se = expired_status"
    using new by (auto simp: get_oauth_status_def split: option.splits if_splits)
  then show ?thesis using old OpGet by (intro session_history_more [of ops sid se0]) auto
next
  case (OpCancel i)
  then have "gm_get (oa_sessions s) sid = Some se" "i \<noteq> sid"
    using new by (auto simp: cancel_login_def gm_has_get split: if_splits)
  then show ?thesis using old OpCancel by (intro session_history_more [of ops sid se]) auto
next
  case (OpFinish i t b r)
  then obtain se0 where "gm_get (oa_sessions s) sid = Some se0" "se_expires se = se_expires se0"
    "se = se0 \<or> se_status se = expired_status \<or> i = sid \<and> se_status se = login_status b r \<and> t < se_expires se0"
    using new by (auto simp: finish_login_def set_oauth_status_def Let_def split: option.splits if_splits)
  then show ?thesis
    using old OpFinish login_status_success [of b r] by (intro session_history_more [of ops sid se0]) auto
qed

lemma session_history_run:
  "gm_get (oa_sessions (oauth_run ops no_sessions)) sid = Some se \<Longrightarrow> session_history ops sid se"
proof (induction ops arbitrary: sid se rule: rev_induct)
  case Nil
  then show ?case by (simp add: oauth_run_def no_sessions_def)
next
  case (snoc op ops)
  then show ?case using session_history_step [of "oauth_run ops no_sessions" ops op sid se] by (simp add: oauth_run_def)
qed

text \<open>
  C39: reported success is the session's own.  When a session is reported as successful, it is of the latest login that was
  started, nobody has cancelled it since, its login has returned the token of the reported user, and did so before the session
  expired.
\<close>

theorem oauth_success_in_time:
  assumes "get_oauth_status now sid (oauth_run ops no_sessions) = (s', st)" and "os_state st = ''success''"
  shows "\<exists>earlier t0 mid t b tok fin. ops = earlier @ OpStart sid t0 # mid @ OpFinish sid t b (Inr tok) # fin
    \<and> t < t0 + login_lifetime \<and> os_username st = tk_username tok
    \<and> (\<forall>op\<in>set (mid @ fin). op \<noteq> OpCancel sid \<and> (\<forall>i u. op \<noteq> OpStart i u))"
proof -
  obtain se where se: "gm_get (oa_sessions (oauth_run ops no_sessions)) sid = Some se" "st = se_status se"
    using assms by (auto simp: get_oauth_status_def split: option.splits if_splits)
  obtain earlier t0 rest where h: "ops = earlier @ OpStart sid t0 # rest" "untouched sid rest"
    "os_state (se_status se) = ''success'' \<longrightarrow> (\<exists>mid t b tok fin. rest = mid @ OpFinish sid t b (Inr tok) # fin
       \<and> t < t0 + login_lifetime \<and> os_username (se_status se) = tk_username tok)"
    using session_history_run [OF se(1)] unfolding session_history_def by blast
  then obtain mid t b tok fin where f: "rest = mid @ OpFinish sid t b (Inr tok) # fin" "t < t0 + login_lifetime"
    "os_username st = tk_username tok" using assms(2) se(2) by blast
  have "\<forall>op\<in>set (mid @ fin). op \<noteq> OpCancel sid \<and> (\<forall>i u. op \<noteq> OpStart i u)"
    using h(2) f(1) by (auto simp: untouched_def)
  then show ?thesis using h(1) f by blast
qed

theorem oauth_success_in_time_witness:
  "\<exists>t. t < 0 + login_lifetime \<and> os_username (snd (get_oauth_status 6 ''a'' sample_logins)) = ''ann''
     \<and> OpFinish ''a'' t False (Inr sample_token) \<in> set [OpStart ''a'' 0, OpFinish ''a'' 5 False (Inr sample_token)]"
proof -
  let ?ops = "[OpStart ''a'' 0, OpFinish ''a'' 5 False (Inr sample_token)]"
  let ?st = "\<lparr>os_state = ''success'', os_error = None, os_username = ''ann''\<rparr>"
  have get: "get_oauth_status 6 ''a'' (oauth_run ?ops no_sessions) = (sample_logins, ?st)"
    unfolding sample_logins_def [symmetric] by (simp add: sample_logins_eq get_oauth_status_def gm_get_def)
  from oauth_success_in_time [OF get]
  obtain earlier t0 mid t b tok fin where o: "?ops = earlier @ OpStart ''a'' t0 # mid @ OpFinish ''a'' t b (Inr tok) # fin"
    "t < t0 + login_lifetime" by auto
  then have "t0 = 0" "t = 5" by (auto simp: Cons_eq_append_conv append_eq_Cons_conv)
  then show ?thesis
    using o(2) get by (intro exI [of _ 5]) (simp add: sample_logins_def)
qed

subsection \<open>The entries of .gitignore\<close>

lemma space_prefix_prefix:
  assumes "space_prefix (s @ t) = 0"
  shows "space_prefix s = 0"
proof (cases s)
  case Nil
  then show ?thesis by (simp add: space_prefix_def)
next
  case (Cons a s')
  note hd = Cons
  show ?thesis
  proof (cases s')
    case Nil
    then show ?thesis using assms hd by (auto simp: space_prefix_def split: if_splits)
  next
    case (Cons b s'')
    then show ?thesis using assms hd by (cases s'') (auto simp: space_prefix_def split: if_splits)
  qed
qed

lemma space_prefix_empty: "space_prefix [] = 0"
  by (simp add: space_prefix_def)

lemma drop_space_drop: "\<exists>n. drop_space f s = drop n s"
proof (induction f s rule: drop_space.induct)
  case (1 f s)
  show ?case
  proof (cases "s = [] \<or> f s = 0")
    case True
    then show ?thesis by (subst drop_space.simps) (auto intro: exI [of _ 0])
  next
    case False
    then obtain n where "drop_space f (drop (f s) s) = drop n (drop (f s) s)" using 1 [OF False] by blast
    then show ?thesis using False by (subst drop_space.simps) auto
  qed
qed

lemma drop_space_stops: "drop_space f s = [] \<or> f (drop_space f s) = 0"
proof (induction f s rule: drop_space.induct)
  case (1 f s)
  then show ?case by (subst (1 2) drop_space.simps) auto
qed

lemma drop_space_fixed: "s = [] \<or> f s = 0 \<Longrightarrow> drop_space f s = s"
  by (subst drop_space.simps) auto

lemma trim_space_take_drop: "\<exists>m n. trim_space s = take m (drop n s)"
proof -
  obtain n where n: "drop_space space_prefix s = drop n s" using drop_space_drop by blast
  obtain k where "drop_space space_suffix (rev (drop n s)) = drop k (rev (drop n s))" using drop_space_drop by blast
  then have "trim_space s = take (length (drop n s) - k) (drop n s)"
    by (simp only: trim_space_def n drop_rev rev_rev_ident)
  then show ?thesis by blast
qed

lemma trim_space_idem: "trim_space (trim_space s) = trim_space s"
proof -
  let ?p = "drop_space space_prefix s" and ?r = "drop_space space_suffix (rev (drop_space space_prefix s))"
  obtain k where k: "?r = drop k (rev ?p)" using drop_space_drop by blast
  then have "rev ?r @ drop (length ?p - k) ?p = ?p" by (simp add: drop_rev)
  moreover have "space_prefix ?p = 0" using drop_space_stops [of space_prefix s] by (metis space_prefix_empty)
  ultimately have "space_prefix (rev ?r) = 0" by (metis space_prefix_prefix)
  then have "drop_space space_prefix (rev ?r) = rev ?r" by (simp add: drop_space_fixed)
  moreover have "drop_space space_suffix ?r = ?r" by (rule drop_space_fixed [OF drop_space_stops])
  ultimately show ?thesis by (simp add: trim_space_def)
qed

lemma newline_trim_space: "newline \<notin> set s \<Longrightarrow> newline \<notin> set (trim_space s)"
  using trim_space_take_drop [of s] by (metis in_set_takeD in_set_dropD)

lemma split_char_not_Nil [simp]: "split_char c s \<noteq> []"
  by (induction s) (auto split: list.splits)

lemma split_char_append: "split_char c (a @ c # b) = split_char c a @ split_char c b"
proof (induction a)
  case (Cons x a)
  obtain p ps where "split_char c a = p # ps" by (cases "split_char c a") simp_all
  then show ?case using Cons by simp
qed simp

lemma split_char_single [simp]: "c \<notin> set s \<Longrightarrow> split_char c s = [s]"
  by (induction s) auto

lemma split_join_lines: "es \<noteq> [] \<Longrightarrow> \<forall>e\<in>set es. newline \<notin> set e \<Longrightarrow> split_char newline (join_lines es) = es"
  by (induction es rule: join_lines.induct) (simp_all add: split_char_append)

lemma set_missing_entries:
  "set (missing_entries seen es) = {e \<in> trim_space ` set es. e \<noteq> [] \<and> e \<notin> seen}"
  by (induction es arbitrary: seen) (auto simp: Let_def)

lemma gitignore_text_lines:
  assumes "absent \<noteq> []" and "\<forall>e\<in>set absent. newline \<notin> set e"
  shows "set (split_char newline existing) \<union> set absent \<subseteq> set (split_char newline (existing @ gitignore_text absent existing))"
proof -
  obtain pre where "gitignore_text absent existing = pre @ newline # join_lines absent @ [newline]"
    and pre: "pre = newline # tl pre"
    by (cases "existing \<noteq> [] \<and> last existing \<noteq> newline") (auto simp: gitignore_text_def)
  then have "existing @ gitignore_text absent existing
      = existing @ newline # (tl pre @ newline # (join_lines absent @ newline # []))"
    by (metis append_Cons append_assoc)
  then have "set (split_char newline (existing @ gitignore_text absent existing))
      = set (split_char newline existing @ split_char newline (tl pre) @ split_char newline (join_lines absent) @ [[]])"
    by (simp only: split_char_append) simp
  then show ?thesis unfolding split_join_lines [OF assms] by auto
qed

definition file_bytes :: "local_file \<Rightarrow> bytes" where
  "file_bytes fl = (case fl of None \<Rightarrow> [] | Some b \<Rightarrow> b)"

definition ignored_lines :: "local_file \<Rightarrow> string set" where
  "ignored_lines fl = trim_space ` set (split_char newline (file_bytes fl))"

text \<open>What is in the file stays, every entry is a line of it afterwards, and writing again adds nothing.\<close>

lemma gitignore_covers:
  assumes "ensure_gitignore io extra fl = (fl', Inr ())" and "\<not> gi_unreadable io"
    and "\<forall>e\<in>set extra. newline \<notin> set e"
  shows "\<exists>added. file_bytes fl' = file_bytes fl @ added"
    and "e \<in> set (desktop_gitignore_entries @ extra) \<Longrightarrow> trim_space e \<noteq> [] \<Longrightarrow> trim_space e \<in> ignored_lines fl'"
    and "\<not> gi_unreadable io' \<Longrightarrow> ensure_gitignore io' extra fl' = (fl', Inr ())"
proof -
  let ?absent = "gitignore_missing extra (file_bytes fl)"
  let ?all = "desktop_gitignore_entries @ extra"
  have existing: "(case fl of None \<Rightarrow> [] | Some b \<Rightarrow> if gi_unreadable x then [] else b) = file_bytes fl"
    if "\<not> gi_unreadable x" for x :: gitignore_io and fl
    using that by (simp add: file_bytes_def split: option.split)
  have entries: "\<forall>e\<in>set ?all. newline \<notin> set e"
    using assms(3) by (auto simp: desktop_gitignore_entries_def newline_def)
  then have absent: "\<forall>e\<in>set ?absent. newline \<notin> set e"
    by (auto simp: gitignore_missing_def set_missing_entries newline_trim_space)
  have f: "fl' = (if ?absent = [] then fl else Some (file_bytes fl @ gitignore_text ?absent (file_bytes fl)))"
    using assms(1,2) existing [OF assms(2), of fl]
    by (auto simp: ensure_gitignore_def Let_def file_bytes_def [symmetric] split: if_splits option.splits)
  then show "\<exists>added. file_bytes fl' = file_bytes fl @ added" by (auto simp: file_bytes_def)
  have covered: "trim_space e \<in> ignored_lines fl'" if e: "e \<in> set ?all" "trim_space e \<noteq> []" for e
  proof (cases "trim_space e \<in> trim_space ` set (split_char newline (file_bytes fl))")
    case old: True
    show ?thesis
    proof (cases "?absent = []")
      case True
      then show ?thesis using old f by (simp add: ignored_lines_def)
    next
      case False
      then have "ignored_lines fl' = trim_space ` set (split_char newline (file_bytes fl @ gitignore_text ?absent (file_bytes fl)))"
        using f by (simp add: ignored_lines_def file_bytes_def)
      then show ?thesis using old gitignore_text_lines [OF False absent, of "file_bytes fl"] by blast
    qed
  next
    case False
    then have new: "trim_space e \<in> set ?absent"
      using e by (auto simp: gitignore_missing_def set_missing_entries)
    then have ne: "?absent \<noteq> []" by auto
    then have "trim_space e \<in> set (split_char newline (file_bytes fl'))"
      using gitignore_text_lines [OF ne absent, of "file_bytes fl"] new f by (auto simp: file_bytes_def)
    then have "trim_space (trim_space e) \<in> ignored_lines fl'" unfolding ignored_lines_def by (rule imageI)
    then show ?thesis by (simp add: trim_space_idem)
  qed
  then show "e \<in> set ?all \<Longrightarrow> trim_space e \<noteq> [] \<Longrightarrow> trim_space e \<in> ignored_lines fl'" by blast
  show "ensure_gitignore io' extra fl' = (fl', Inr ())" if "\<not> gi_unreadable io'"
  proof -
    have "set (gitignore_missing extra (file_bytes fl')) = {}"
      using covered by (auto simp: gitignore_missing_def set_missing_entries ignored_lines_def)
    then show ?thesis
      using existing [OF that, of fl'] by (simp add: ensure_gitignore_def Let_def)
  qed
qed


text \<open>An output that starts with a dot and a slash is accepted and becomes an entry as it is, which git never matches.\<close>

lemma dot_slash_output_ignored_in_vain:
  "output_ok ''./secrets.txt'' \<and> gitignore_entry ''./secrets.txt'' = Some ''./secrets.txt''"
  by code_simp

definition desk_project :: project_config where
  "desk_project = sample_project\<lparr>pc_environments := [(''prod'', \<lparr>ec_output = ''secrets/prod'', ec_incarnation = ''i''\<rparr>)],
     pc_default_env := ''prod''\<rparr>"

definition desk_toml :: toml_lib where
  "desk_toml = sample_toml\<lparr>tl_decode := (\<lambda>_. Some desk_project)\<rparr>"

definition calm_gitignore :: gitignore_io where
  "calm_gitignore = \<lparr>gi_unreadable = False, gi_unopenable = False, gi_cut = None\<rparr>"

lemma desk_output: "output_ok ''secrets/prod''" "gitignore_entry ''secrets/prod'' = Some ''secrets/prod''" "trim_space ''secrets/prod'' = ''secrets/prod''"
  "valid_environment_name ''prod''"
  by code_simp+

lemma desk_parse: "parse_project desk_toml x = Inr desk_project"
  by (simp add: parse_project_def decode_project_def desk_toml_def desk_project_def sample_project_def)

lemma desk_env: "environment_names desk_project = [''prod'']"
  "cfg_environment desk_project ''prod'' = Inr \<lparr>ec_output = ''secrets/prod'', ec_incarnation = ''i''\<rparr>"
  using desk_output(4) by (simp_all add: environment_names_def cfg_environment_def desk_project_def gm_get_def)

lemma desk_written:
  "\<exists>fs' f'. service_write_config desk_toml sample_io calm_gitignore ''x'' (\<lparr>fs_toml = None, fs_local = (\<lambda>_. None)\<rparr>, None) = ((fs', f'), Inr ())"
proof -
  have valid: "validate_project_outputs desk_project = Inr ()"
    using desk_output(1) by (simp add: validate_project_outputs_def desk_project_def)
  have "snd (ensure_gitignore calm_gitignore (project_gitignore_entries desk_project) None) = Inr ()"
    by (auto simp: ensure_gitignore_def calm_gitignore_def Let_def)
  then obtain f' where "ensure_gitignore calm_gitignore (project_gitignore_entries desk_project) None = (f', Inr ())"
    by (metis prod.collapse)
  then show ?thesis
    by (simp add: service_write_config_def desk_parse valid write_config_def sample_io_def)
qed


subsection \<open>Repositories\<close>

lemma unique_paths_keys:
  "repo_path_key ` set (unique_paths seen ps) = repo_path_key ` set ps - set seen"
  "distinct (map repo_path_key (unique_paths seen ps))"
proof (induction ps arbitrary: seen)
  case (Cons p ps)
  case 1
  show ?case using Cons(1) [of seen] Cons(1) [of "repo_path_key p # seen"] by (auto split: if_splits)
  case 2
  show ?case using Cons(1) [of "repo_path_key p # seen"] Cons(2) by auto
qed simp_all

lemma append_unique_keys:
  "repo_path_key ` set (append_unique ps p) = insert (repo_path_key p) (repo_path_key ` set ps)"
  "distinct (map repo_path_key (append_unique ps p))"
  using unique_paths_keys [of "[]" ps] by (auto simp: append_unique_def)

text \<open>The known repositories: no path twice, and the selected one is among them.\<close>

definition listed_once :: "gui_config \<Rightarrow> bool" where
  "listed_once c \<longleftrightarrow> distinct (map repo_path_key (gc_history c))
     \<and> (gc_selected c \<noteq> [] \<longrightarrow> repo_path_key (gc_selected c) \<in> repo_path_key ` set (gc_history c))"

definition gui_codec :: "desk_lib \<Rightarrow> bool" where
  "gui_codec dk \<longleftrightarrow> \<not> dk_unreadable dk \<and> (\<forall>c data. dk_encode dk c = Some data \<longrightarrow> dk_decode dk data = Some c)"

lemma save_gui_load:
  "gui_codec dk \<Longrightarrow> save_gui dk c s = (s', Inr ()) \<Longrightarrow> load_gui dk s' = Inr c \<and> s' = s\<lparr>dt_file := dt_file s'\<rparr>"
  by (auto simp: save_gui_def load_gui_def gui_codec_def split: option.splits if_splits)

lemma select_repository_listed:
  assumes "gui_codec dk" and "select_repository dk path s = (s', Inr info)"
  shows "\<exists>c r. validate_repo_path dk path = Inr r \<and> load_gui dk s' = Inr c \<and> listed_once c
    \<and> gc_selected c = sl_path r \<and> dt_repo s' = sl_path r \<and> dt_dir s' = sl_path r"
proof -
  obtain r where r: "validate_repo_path dk path = Inr r"
    using assms(2) by (auto simp: select_repository_def split: sum.splits)
  define c where "c = (let c = (case load_gui dk s of Inl _ \<Rightarrow> \<lparr>gc_selected = [], gc_history = []\<rparr> | Inr c \<Rightarrow> c)
    in c\<lparr>gc_selected := sl_path r, gc_history := append_unique (gc_history c) (sl_path r)\<rparr>)"
  obtain s1 where s1: "save_gui dk c s = (s1, Inr ())"
    "s' = fst (repo_info_of dk r (s1\<lparr>dt_repo := sl_path r, dt_dir := sl_path r\<rparr>))"
    using assms(2) r by (auto simp: select_repository_def c_def Let_def split: prod.splits sum.splits)
  have "load_gui dk s' = load_gui dk s1" using s1(2) by (simp add: repo_info_of_def load_gui_def)
  moreover have "load_gui dk s1 = Inr c" using save_gui_load [OF assms(1) s1(1)] by simp
  moreover have "listed_once c" by (simp add: c_def Let_def listed_once_def append_unique_keys)
  ultimately show ?thesis using r s1(2) by (simp add: repo_info_of_def c_def Let_def)
qed

lemma remove_repository_listed:
  assumes "gui_codec dk" and "load_gui dk s = Inr c" "listed_once c" and "remove_repository dk path s = (s', Inr ())"
  shows "\<exists>c'. load_gui dk s' = Inr c' \<and> listed_once c' \<and> repo_path_key path \<notin> repo_path_key ` set (gc_history c')
    \<and> (gc_selected c' \<noteq> [] \<longrightarrow> repo_path_key (gc_selected c') \<noteq> repo_path_key path)"
proof -
  let ?h = "filter (\<lambda>p. repo_path_key p \<noteq> repo_path_key path) (gc_history c)"
  have d: "distinct (map repo_path_key ?h)" using assms(3) by (simp add: listed_once_def distinct_map_filter)
  show ?thesis
  proof (cases "gc_selected c \<noteq> [] \<and> repo_path_key (gc_selected c) = repo_path_key path")
    case True
    then have "save_gui dk (c\<lparr>gc_history := ?h, gc_selected := []\<rparr>) (s\<lparr>dt_repo := []\<rparr>) = (s', Inr ())"
      using assms(2,4) by (simp add: remove_repository_def Let_def)
    from save_gui_load [OF assms(1) this] show ?thesis using d by (auto simp: listed_once_def)
  next
    case False
    then have "save_gui dk (c\<lparr>gc_history := ?h\<rparr>) s = (s', Inr ())"
      using assms(2,4) by (auto simp: remove_repository_def Let_def)
    from save_gui_load [OF assms(1) this] show ?thesis using d False assms(3) by (auto simp: listed_once_def)
  qed
qed

text \<open>A removal that cannot be saved has already forgotten the selected path; the settings still have it.\<close>

lemma remove_repository_unsaved:
  assumes "load_gui dk s = Inr c" "gc_selected c \<noteq> []" "dk_unwritable dk"
    and "repo_path_key (gc_selected c) = repo_path_key path" and "remove_repository dk path s = (s', r)"
  shows "r \<noteq> Inr () \<and> dt_repo s' = [] \<and> load_gui dk s' = Inr c"
proof -
  have "load_gui dk (s\<lparr>dt_repo := []\<rparr>) = Inr c" using assms(1) by (simp add: load_gui_def)
  then show ?thesis
    using assms by (auto simp: remove_repository_def save_gui_def Let_def split: option.splits)
qed

text \<open>The incarnation that deleting an environment reports is where its revisions are.\<close>

lemma list_environments_last:
  "foldl (\<lambda>inc env. if ei_name env = name then ei_incarnation env else inc) a
     (map (\<lambda>n. \<lparr>ei_name = n, ei_current = cur n, ei_incarnation = f n\<rparr>) ns) = (if name \<in> set ns then f name else a)"
  by (induction ns arbitrary: a) auto

lemma forgotten_environment_found:
  assumes "load_project tm uuid_ok io fs = Inr cfg" and "service_forget_environment tm uuid_ok io name fs = (fs', Inr inc)"
    and "inc \<noteq> []" "name \<noteq> []"
  shows "cfg_resource cfg name = ''secrets/'' @ inc"
proof -
  have "inc = incarnation_of cfg name"
    using assms(1-3) unfolding service_forget_environment_def list_environments_def
    by (auto simp: normalize_into_def list_environments_last Let_def split: prod.splits sum.splits if_splits)
  then show ?thesis using assms(3,4) by (simp add: cfg_resource_def)
qed

text \<open>One decision for each key: a key decided twice is refused, and otherwise each decision is taken.\<close>

lemma pick_choices_exact:
  "pick_choices cs picked = Inr m \<Longrightarrow> distinct (map co_key cs) \<and> (\<forall>c\<in>set cs. gm_get m (co_key c) = Some (co_choice c))
    \<and> (\<forall>k. k \<notin> co_key ` set cs \<longrightarrow> gm_get m k = gm_get picked k) \<and> (\<forall>c\<in>set cs. \<not> gm_has picked (co_key c))"
proof (induction cs arbitrary: picked)
  case (Cons c cs)
  have new: "\<not> gm_has picked (co_key c)" "pick_choices cs (gm_put (co_key c) (co_choice c) picked) = Inr m"
    using Cons.prems by (auto split: if_splits)
  note ih = Cons.IH [OF new(2)]
  have "co_key c \<notin> co_key ` set cs" using ih by auto
  then have "gm_get m (co_key c) = Some (co_choice c)" using ih by simp
  then show ?case using ih new(1) by (auto simp: image_iff)
qed simp

end
